(* ===== verification/Prelude.thy ===== *)
theory Prelude
  imports Main "HOL-Library.Word" "HOL-Library.Monad_Syntax"
begin
unbundle bit_operations_syntax

text \<open>
  Shared vocabulary of the development: the machine integers of the i686 target, the byte
  memory that the routines on raw pointers work on, the collections the component proofs
  feed to the simplifier, and the generic facts on words, lists and options that more than
  one component needs.

  Every access that the source does without a check and that leaves its object is a branch of
  the model: it is \<^const>\<open>None\<close> in a function of type \<open>'a option\<close>. The theorems that
  say a routine stays in bounds are then theorems that it returns \<^const>\<open>Some\<close>.
\<close>

section \<open>Machine integers and memory\<close>

type_synonym u8 = "8 word"
type_synonym u16 = "16 word"
type_synonym u32 = "32 word"
type_synonym u64 = "64 word"

text \<open>Addresses are 32 bits wide; memory is a byte at every address.\<close>

type_synonym addr = u32
type_synonym mem = "addr \<Rightarrow> u8"

named_theorems word_bounds \<open>facts that bound the value of a machine word\<close>
named_theorems mem_simps \<open>reads after writes\<close>

text \<open>The addresses of the \<open>n\<close> bytes from \<open>p\<close> on, wrapping at the end of the address space.\<close>

definition in_region :: "addr \<Rightarrow> nat \<Rightarrow> addr \<Rightarrow> bool" where
  "in_region p n a \<longleftrightarrow> unat (a - p) < n"

lemma in_region_add:
  "i < n \<Longrightarrow> i < 2 ^ 32 \<Longrightarrow> in_region p n (p + of_nat i)"
  by (simp add: in_region_def unat_of_nat)

lemma in_region_obtain:
  assumes "in_region p n a"
  obtains i where "i < n" and "a = p + of_nat i"
proof
  show "unat (a - p) < n" using assms by (simp add: in_region_def)
  show "a = p + of_nat (unat (a - p))" by simp
qed

text \<open>The contents of a region, in address order.\<close>

definition bytes_at :: "mem \<Rightarrow> addr \<Rightarrow> nat \<Rightarrow> u8 list" where
  "bytes_at m p n = map (\<lambda>i. m (p + of_nat i)) [0..<n]"

lemma length_bytes_at [simp]: "length (bytes_at m p n) = n"
  by (simp add: bytes_at_def)

lemma nth_bytes_at [simp]: "i < n \<Longrightarrow> bytes_at m p n ! i = m (p + of_nat i)"
  by (simp add: bytes_at_def)

section \<open>Words\<close>

lemma of_nat_u32_inject:
  assumes "i < 2 ^ 32" and "j < 2 ^ 32"
  shows "(of_nat i :: u32) = of_nat j \<longleftrightarrow> i = j"
  proof
  assume "(of_nat i :: u32) = of_nat j"
  then have "unat (of_nat i :: u32) = unat (of_nat j :: u32)" by simp
  then show "i = j" using assms by (simp add: unat_of_nat)
qed simp

lemma unat_eqI: "unat (v :: 'a::len word) = unat w \<Longrightarrow> v = w"
  by (simp add: word_unat_eq_iff)

lemma unat_u8_less [word_bounds, simp]: "unat (b :: u8) < 256"
  using unsigned_less [of b] by simp

lemma unat_u16_less [word_bounds, simp]: "unat (w :: u16) < 65536"
  using unsigned_less [of w] by simp

lemma unat_u32_less [word_bounds, simp]: "unat (w :: u32) < 4294967296"
  using unsigned_less [of w] by simp

lemma unat_plus_1: "unat (w :: u32) < unat (v :: u32) \<Longrightarrow> unat (w + 1) = unat w + 1"
proof -
  assume "unat w < unat v"
  moreover have "unat v < 4294967296" by (rule unat_u32_less)
  ultimately have "unat w + 1 < 4294967296" by linarith
  then show ?thesis by (simp add: unat_word_ariths)
qed

text \<open>Signed readings.\<close>

lemma centre_mod:
  assumes "0 \<le> x" and "x < 2 * h"
  shows "(x + h) mod (2 * h) - h = (if x < h then x else x - 2 * (h :: int))"
proof (cases "x < h")
  case True
  then show ?thesis using assms by (simp add: mod_pos_pos_trivial)
next
  case False
  have "(x + h) mod (2 * h) = (x - h + 2 * h) mod (2 * h)" by (simp add: algebra_simps)
  also have "\<dots> = (x - h) mod (2 * h)" by (rule mod_add_self2)
  also have "\<dots> = x - h" using assms False by (intro mod_pos_pos_trivial) simp_all
  finally show ?thesis using False by simp
qed

lemma sint_u8: "sint (c :: u8) = (if uint c < 128 then uint c else uint c - 256)"
proof -
  have "sint c = (uint c + 128) mod (2 * 128) - 128"
    by (simp add: sint_uint signed_take_bit_eq_take_bit_shift take_bit_eq_mod)
  then show ?thesis using centre_mod [of "uint c" 128] uint_bounded [of c] by simp
qed

lemma sint_u32: "sint (w :: u32) = (if uint w < 2147483648 then uint w else uint w - 4294967296)"
proof -
  have "sint w = (uint w + 2147483648) mod (2 * 2147483648) - 2147483648"
    by (simp add: sint_uint signed_take_bit_eq_take_bit_shift take_bit_eq_mod)
  then show ?thesis using centre_mod [of "uint w" 2147483648] uint_bounded [of w] by simp
qed

lemma sint_small:
  assumes "unat (w :: u32) < 2147483648"
  shows "sint w = int (unat w)"
proof -
  define n where "n = unat w"
  have "uint w = int n" by (simp add: n_def)
  then show ?thesis using assms unfolding n_def [symmetric] sint_u32 by simp
qed

lemma scast_small: "unat (w :: u32) < 2147483648 \<Longrightarrow> scast w = (of_nat (unat w) :: 'a::len word)"
  by (simp only: scast_eq sint_small of_int_of_nat_eq)

lemma sint_small_less:
  assumes "unat (w :: u32) < 2147483648"
  shows "sint w < numeral k \<longleftrightarrow> unat w < numeral k" and "numeral k < sint w \<longleftrightarrow> numeral k < unat w"
    and "\<not> sint w < 0"
proof -
  define n where "n = unat w"
  have "sint w = int n" using sint_small [OF assms] by (simp add: n_def)
  then show "sint w < numeral k \<longleftrightarrow> unat w < numeral k" "numeral k < sint w \<longleftrightarrow> numeral k < unat w"
    "\<not> sint w < 0"
    unfolding n_def [symmetric] by simp_all
qed

lemma ucast_of_unat: "ucast w = of_nat (unat w)"
  by (rule of_nat_unat [symmetric])

text \<open>Shifts and masks, read as division and remainder.\<close>

lemma unat_drop_bit: "unat (drop_bit n (w :: 'a::len word)) = unat w div 2 ^ n"
  by (rule trans [OF unat_drop_bit_eq drop_bit_eq_div])

lemma unat_take_bit: "unat (take_bit n (w :: 'a::len word)) = unat w mod 2 ^ n"
  by (simp add: unsigned_take_bit_eq) (simp add: take_bit_eq_mod)

lemma unat_and_mask: "unat ((w :: 'a::len word) AND mask n) = unat w mod 2 ^ n"
  by (simp only: unat_take_bit flip: take_bit_eq_mask)

lemma unat_and_low5: "unat ((w :: u32) AND 0x1F) = unat w mod 32"
  using unat_and_mask [of w 5] by (simp add: mask_eq_exp_minus_1)

lemma unat_and_low8: "unat ((w :: u32) AND 0xFF) = unat w mod 256"
  using unat_and_mask [of w 8] by (simp add: mask_eq_exp_minus_1)

lemma unat_and_low10: "unat ((w :: u32) AND 0x3FF) = unat w mod 1024"
  using unat_and_mask [of w 10] by (simp add: mask_eq_exp_minus_1)

lemma unat_and_low12: "unat ((w :: u32) AND 0xFFF) = unat w mod 4096"
  using unat_and_mask [of w 12] by (simp add: mask_eq_exp_minus_1)

lemma unat_and_low16: "unat ((w :: u32) AND 0xFFFF) = unat w mod 65536"
  using unat_and_mask [of w 16] by (simp add: mask_eq_exp_minus_1)

lemma unat_and_low20: "unat ((w :: u32) AND 0xFFFFF) = unat w mod 1048576"
  using unat_and_mask [of w 20] by (simp add: mask_eq_exp_minus_1)

lemma unat_and_low22: "unat ((w :: u32) AND 0x3FFFFF) = unat w mod 4194304"
  using unat_and_mask [of w 22] by (simp add: mask_eq_exp_minus_1)

lemmas unat_and_low =
  unat_and_low5 unat_and_low8 unat_and_low10 unat_and_low12 unat_and_low16 unat_and_low20 unat_and_low22

text \<open>A page, or a bit of a bit set, number \<open>p\<close>: chunk \<open>p >> 5\<close>, bit \<open>p & 0x1F\<close>.\<close>

lemma unat_chunk: "unat (drop_bit 5 (p :: u32)) = unat p div 32"
  by (simp add: unat_drop_bit)

lemma unat_bit_index: "unat ((p :: u32) AND 0x1F) = unat p mod 32"
  by (rule unat_and_low)

text \<open>The page of an address, and the offset in it.\<close>

definition page_base :: "addr \<Rightarrow> addr" where
  "page_base a = a AND 0xFFFFF000"

lemma and_and_and: "(a AND x) AND (a AND y) = a AND (x AND (y :: 'a::len word))"
  by (rule bit_word_eqI) (auto simp: bit_and_iff)

lemma split_masks:
  assumes "x AND y = 0" and "x OR y = (- 1 :: 'a::len word)"
  shows "(a AND x) + (a AND y) = a"
proof -
  have "(a AND x) + (a AND y) = (a AND x) OR (a AND y)"
    by (rule disjunctive_add_eq_or) (simp add: and_and_and assms)
  also have "\<dots> = a AND (x OR y)" by (simp only: bit.conj_disj_distrib)
  finally show ?thesis by (simp add: assms)
qed

lemma page_split: "page_base a + (a AND 0xFFF) = a"
  unfolding page_base_def by (rule split_masks) simp_all

lemma unat_page_base: "unat (page_base a) = 4096 * (unat a div 4096)"
proof -
  have "page_base a = a - (a AND 0xFFF)" using page_split [of a] by (simp add: eq_diff_eq)
  moreover have "a AND 0xFFF \<le> a" by (rule word_and_le2)
  ultimately have "unat (page_base a) = unat a - unat a mod 4096"
    by (simp add: unat_sub unat_and_low)
  then show ?thesis by (simp add: minus_mod_eq_mult_div)
qed

lemma bit_or_2p: "k < 32 \<Longrightarrow> bit ((w :: u32) OR 2 ^ k) j \<longleftrightarrow> bit w j \<or> j = k"
  by (auto simp: bit_simps)

lemma bit_and_not_2p: "bit ((w :: u32) AND NOT (2 ^ k)) j \<longleftrightarrow> bit w j \<and> j \<noteq> k"
  by (auto simp: bit_simps dest: bit_imp_le_length)

lemma and_2p_eq_0: "k < 32 \<Longrightarrow> (w :: u32) AND 2 ^ k = 0 \<longleftrightarrow> \<not> bit w k"
  by (simp add: and_exp_eq_0_iff_not_bit)

section \<open>Lists\<close>

text \<open>An array access that faults outside the array, and a store that does.\<close>

definition arr_get :: "'a list \<Rightarrow> nat \<Rightarrow> 'a option" where
  "arr_get xs i = (if i < length xs then Some (xs ! i) else None)"

definition arr_set :: "'a list \<Rightarrow> nat \<Rightarrow> 'a \<Rightarrow> 'a list option" where
  "arr_set xs i x = (if i < length xs then Some (xs[i := x]) else None)"

lemma arr_get_Some [simp]: "i < length xs \<Longrightarrow> arr_get xs i = Some (xs ! i)"
  by (simp add: arr_get_def)

lemma arr_get_None [simp]: "length xs \<le> i \<Longrightarrow> arr_get xs i = None"
  by (simp add: arr_get_def)

lemma arr_set_Some [simp]: "i < length xs \<Longrightarrow> arr_set xs i x = Some (xs[i := x])"
  by (simp add: arr_set_def)

lemma arr_set_None [simp]: "length xs \<le> i \<Longrightarrow> arr_set xs i x = None"
  by (simp add: arr_set_def)

lemma arr_get_eq_Some: "arr_get xs i = Some x \<longleftrightarrow> i < length xs \<and> x = xs ! i"
  by (auto simp: arr_get_def)

lemma arr_set_eq_Some: "arr_set xs i x = Some ys \<longleftrightarrow> i < length xs \<and> ys = xs[i := x]"
  by (auto simp: arr_set_def)

lemma find_append: "find P (xs @ ys) = (case find P xs of None \<Rightarrow> find P ys | Some x \<Rightarrow> Some x)"
  by (induction xs) auto

end
