(* ===== verification/Mem_Funcs.thy ===== *)
theory Mem_Funcs
  imports Prelude
begin

text \<open>
  The raw memory routines of \<open>kernel/memory/alloc.cpp\<close>: \<open>memcmp\<close>, \<open>memcpy\<close>, \<open>memmove\<close>
  and \<open>memset\<close>, over a memory that maps every 32-bit address to a byte. The loops run over
  the number of bytes that are left; the address moves with them.
\<close>

section \<open>The routines\<close>

fun memcmp_loop :: "mem \<Rightarrow> addr \<Rightarrow> addr \<Rightarrow> nat \<Rightarrow> int" where
  "memcmp_loop m a b 0 = 0"
| "memcmp_loop m a b (Suc n) =
     (if m a < m b then -1
      else if m b < m a then 1
      else memcmp_loop m (a + 1) (b + 1) n)"

(* src/kernel/memory/alloc.cpp:8-18 memcmp *)
definition memcmp :: "mem \<Rightarrow> addr \<Rightarrow> addr \<Rightarrow> u32 \<Rightarrow> int" where
  "memcmp m aptr bptr sz = memcmp_loop m aptr bptr (unat sz)"

fun copy_up :: "mem \<Rightarrow> addr \<Rightarrow> addr \<Rightarrow> nat \<Rightarrow> mem" where
  "copy_up m dst src 0 = m"
| "copy_up m dst src (Suc n) = copy_up (m(dst := m src)) (dst + 1) (src + 1) n"

fun copy_down :: "mem \<Rightarrow> addr \<Rightarrow> addr \<Rightarrow> nat \<Rightarrow> mem" where
  "copy_down m dst src 0 = m"
| "copy_down m dst src (Suc n) =
     copy_down (m(dst + of_nat n := m (src + of_nat n))) dst src n"

(* src/kernel/memory/alloc.cpp:20-27 memcpy *)
definition memcpy :: "mem \<Rightarrow> addr \<Rightarrow> addr \<Rightarrow> u32 \<Rightarrow> mem" where
  "memcpy m dstptr srcptr sz = copy_up m dstptr srcptr (unat sz)"

(* src/kernel/memory/alloc.cpp:29-40 memmove *)
definition memmove :: "mem \<Rightarrow> addr \<Rightarrow> addr \<Rightarrow> u32 \<Rightarrow> mem" where
  "memmove m dstptr srcptr sz =
     (if dstptr < srcptr then copy_up m dstptr srcptr (unat sz)
      else copy_down m dstptr srcptr (unat sz))"

fun fill_up :: "mem \<Rightarrow> addr \<Rightarrow> u8 \<Rightarrow> nat \<Rightarrow> mem" where
  "fill_up m buf v 0 = m"
| "fill_up m buf v (Suc n) = fill_up (m(buf := v)) (buf + 1) v n"

(* src/kernel/memory/alloc.cpp:42-47 memset *)
definition memset :: "mem \<Rightarrow> addr \<Rightarrow> int \<Rightarrow> u32 \<Rightarrow> mem" where
  "memset m bufptr val sz = fill_up m bufptr (word_of_int val) (unat sz)"

text \<open>A 32-bit field of an object in memory, in the little-endian order of the target.\<close>

definition load32 :: "mem \<Rightarrow> addr \<Rightarrow> u32" where
  "load32 m p = ucast (m p) OR push_bit 8 (ucast (m (p + 1)))
     OR push_bit 16 (ucast (m (p + 2))) OR push_bit 24 (ucast (m (p + 3)))"

definition store32 :: "mem \<Rightarrow> addr \<Rightarrow> u32 \<Rightarrow> mem" where
  "store32 m p v = m(p := ucast v, p + 1 := ucast (drop_bit 8 v),
     p + 2 := ucast (drop_bit 16 v), p + 3 := ucast (drop_bit 24 v))"

section \<open>What they write\<close>

lemma copy_up_frame:
  "(\<forall>i<n. a \<noteq> dst + of_nat i) \<Longrightarrow> copy_up m dst src n a = m a"
proof (induction n arbitrary: m dst src)
  case 0
  then show ?case by simp
next
  case (Suc n)
  have "a \<noteq> dst" using Suc.prems by force
  moreover have "\<forall>i<n. a \<noteq> (dst + 1) + of_nat i"
  proof (intro allI impI)
    fix i assume "i < n"
    then have "a \<noteq> dst + of_nat (Suc i)" using Suc.prems by blast
    then show "a \<noteq> (dst + 1) + of_nat i" by (simp add: add.assoc)
  qed
  ultimately show ?case using Suc.IH by simp
qed

lemma copy_up_copies:
  assumes "\<forall>i j. i < j \<and> j < n \<longrightarrow> dst + of_nat i \<noteq> src + of_nat j"
    and "n \<le> 2 ^ 32" and "k < n"
  shows "copy_up m dst src n (dst + of_nat k) = m (src + of_nat k)"
  using assms
proof (induction n arbitrary: m dst src k)
  case 0
  then show ?case by simp
next
  case (Suc n)
  let ?m = "m(dst := m src)"
  show ?case
  proof (cases k)
    case 0
    have "\<forall>i<n. dst \<noteq> (dst + 1) + of_nat i"
    proof (intro allI impI)
      fix i assume "i < n"
      then have "Suc i < 2 ^ 32" using Suc.prems(2) by simp
      then have "(of_nat (Suc i) :: u32) \<noteq> of_nat 0"
        by (subst of_nat_u32_inject) auto
      then show "dst \<noteq> (dst + 1) + of_nat i" by (simp add: add.assoc)
    qed
    then have "copy_up ?m (dst + 1) (src + 1) n dst = ?m dst" by (rule copy_up_frame)
    then show ?thesis using 0 by simp
  next
    case (Suc k')
    have later: "dst + 1 + of_nat i \<noteq> src + 1 + of_nat j" if "i < j \<and> j < n" for i j
    proof -
      have "dst + of_nat (Suc i) \<noteq> src + of_nat (Suc j)"
        using Suc.prems(1) that by (meson Suc_less_eq)
      then show ?thesis by (simp add: algebra_simps)
    qed
    have "copy_up m dst src (Suc n) (dst + of_nat k)
        = copy_up ?m (dst + 1) (src + 1) n (dst + 1 + of_nat k')"
      using \<open>k = Suc k'\<close> by (simp add: algebra_simps)
    also have "\<dots> = ?m (src + 1 + of_nat k')"
      using later Suc.prems(2,3) \<open>k = Suc k'\<close> by (intro Suc.IH) auto
    also have "src + 1 + of_nat k' = src + of_nat k"
      using \<open>k = Suc k'\<close> by simp
    also have "?m (src + of_nat k) = m (src + of_nat k)"
      using Suc.prems(1) [rule_format, of 0 k] Suc.prems(3) \<open>k = Suc k'\<close> by auto
    finally show ?thesis .
  qed
qed

lemma copy_down_frame:
  "(\<forall>i<n. a \<noteq> dst + of_nat i) \<Longrightarrow> copy_down m dst src n a = m a"
  by (induction n arbitrary: m) auto

lemma copy_down_copies:
  assumes "\<forall>i j. i < j \<and> j < n \<longrightarrow> dst + of_nat j \<noteq> src + of_nat i"
    and "n \<le> 2 ^ 32" and "k < n"
  shows "copy_down m dst src n (dst + of_nat k) = m (src + of_nat k)"
  using assms
proof (induction n arbitrary: m)
  case 0
  then show ?case by simp
next
  case (Suc n)
  let ?m = "m(dst + of_nat n := m (src + of_nat n))"
  show ?case
  proof (cases "k = n")
    case True
    have "\<forall>i<n. dst + of_nat n \<noteq> dst + of_nat i"
      using Suc.prems(2) of_nat_u32_inject by auto
    then show ?thesis using True by (simp add: copy_down_frame)
  next
    case False
    then have "k < n" using Suc.prems(3) by simp
    have "copy_down m dst src (Suc n) (dst + of_nat k)
        = copy_down ?m dst src n (dst + of_nat k)" by simp
    also have "\<dots> = ?m (src + of_nat k)"
      using \<open>k < n\<close> Suc.prems(1,2) by (intro Suc.IH) auto
    also have "\<dots> = m (src + of_nat k)"
      using Suc.prems(1) [rule_format, of k n] \<open>k < n\<close> by auto
    finally show ?thesis .
  qed
qed

text \<open>
  \<open>memmove\<close> picks its direction by comparing the pointers. When neither range runs over the
  end of the address space, the chosen direction never overwrites a source byte before it is
  read, so the destination holds the old source even when the two ranges overlap.
\<close>

lemma up_safe:
  assumes "dst < src" and "unat src + n \<le> 2 ^ 32" and "i < j" and "j < n"
  shows "(dst :: addr) + of_nat i \<noteq> src + of_nat j"
proof -
  have "unat (src + of_nat j) = unat src + j" and "unat (dst + of_nat i) = unat dst + i"
    using assms by (simp_all add: unat_word_ariths unat_of_nat word_less_nat_alt)
  then show ?thesis using assms by (metis add_less_mono less_irrefl word_less_nat_alt)
qed

lemma down_safe:
  assumes "\<not> dst < src" and "unat dst + n \<le> 2 ^ 32" and "i < j" and "j < n"
  shows "(dst :: addr) + of_nat j \<noteq> src + of_nat i"
proof -
  have "unat (dst + of_nat j) = unat dst + j" and "unat (src + of_nat i) = unat src + i"
    using assms by (simp_all add: unat_word_ariths unat_of_nat word_less_nat_alt)
  then show ?thesis using assms
    by (metis add_le_less_mono less_irrefl linorder_not_less word_le_nat_alt)
qed

section \<open>Correctness\<close>

lemma not_in_region_iff:
  "n \<le> 2 ^ 32 \<Longrightarrow> \<not> in_region p n a \<longleftrightarrow> (\<forall>i<n. a \<noteq> p + of_nat i)"
  by (metis in_region_add in_region_obtain order_less_le_trans)

lemma unat_le_2p32: "unat (sz :: u32) \<le> 2 ^ 32"
  by (simp add: less_imp_le)

text \<open>
  \<open>memmove\<close> leaves in the destination exactly the bytes the source held before
  the call and changes no byte outside the destination, for every pair of ranges, overlapping or
  not, that do not run over the end of the address space.
\<close>

theorem memmove_correct:
  assumes "unat src + unat sz \<le> 2 ^ 32" and "unat dst + unat sz \<le> 2 ^ 32"
  shows "bytes_at (memmove m dst src sz) dst (unat sz) = bytes_at m src (unat sz)
    \<and> (\<forall>a. in_region dst (unat sz) a \<or> memmove m dst src sz a = m a)"
proof (intro conjI allI)
  show "bytes_at (memmove m dst src sz) dst (unat sz) = bytes_at m src (unat sz)"
  proof (rule nth_equalityI)
    fix k assume "k < length (bytes_at (memmove m dst src sz) dst (unat sz))"
    then have k: "k < unat sz" by simp
    show "bytes_at (memmove m dst src sz) dst (unat sz) ! k = bytes_at m src (unat sz) ! k"
    proof (cases "dst < src")
      case True
      then show ?thesis
        using k assms up_safe unat_le_2p32 by (simp add: memmove_def copy_up_copies)
    next
      case False
      then show ?thesis
        using k assms down_safe unat_le_2p32 by (simp add: memmove_def copy_down_copies)
    qed
  qed simp
  fix a
  show "in_region dst (unat sz) a \<or> memmove m dst src sz a = m a"
    using not_in_region_iff [OF unat_le_2p32 [of sz], of dst a]
    by (auto simp: memmove_def copy_up_frame copy_down_frame)
qed

theorem memmove_correct_witness:
  "bytes_at (memmove (\<lambda>a. ucast a) 101 100 3) 101 (unat (3 :: u32))
     = bytes_at (\<lambda>a. ucast a) 100 (unat (3 :: u32))"
  using memmove_correct [of 100 3 101 "\<lambda>a. ucast a"] by simp

text \<open>
  \<open>memcpy\<close> copies the source faithfully, and changes nothing else, whenever the
  destination does not start strictly inside the source range; that is the overlap its ascending
  loop cannot handle.
\<close>

theorem memcpy_correct:
  assumes "unat src + unat sz \<le> 2 ^ 32" and "unat dst + unat sz \<le> 2 ^ 32"
    and "dst \<le> src \<or> unat src + unat sz \<le> unat dst"
  shows "bytes_at (memcpy m dst src sz) dst (unat sz) = bytes_at m src (unat sz)
    \<and> (\<forall>a. in_region dst (unat sz) a \<or> memcpy m dst src sz a = m a)"
proof (intro conjI allI)
  have safe: "dst + of_nat i \<noteq> src + of_nat j" if "i < j \<and> j < unat sz" for i j
  proof -
    have "unat (src + of_nat j) = unat src + j" and "unat (dst + of_nat i) = unat dst + i"
      using assms that by (simp_all add: unat_word_ariths unat_of_nat)
    then show ?thesis using assms(3) that by (auto simp: word_le_nat_alt)
  qed
  have "copy_up m dst src (unat sz) (dst + of_nat k) = m (src + of_nat k)" if "k < unat sz" for k
    using safe unat_le_2p32 that by (intro copy_up_copies) auto
  then show "bytes_at (memcpy m dst src sz) dst (unat sz) = bytes_at m src (unat sz)"
    by (intro nth_equalityI) (simp_all add: memcpy_def)
  fix a
  show "in_region dst (unat sz) a \<or> memcpy m dst src sz a = m a"
    using not_in_region_iff [OF unat_le_2p32 [of sz], of dst a]
    by (auto simp: memcpy_def copy_up_frame)
qed

theorem memcpy_correct_witness:
  "bytes_at (memcpy (\<lambda>a. ucast a) 100 101 3) 100 (unat (3 :: u32))
     = bytes_at (\<lambda>a. ucast a) 101 (unat (3 :: u32))"
  using memcpy_correct [of 101 3 100 "\<lambda>a. ucast a"] by simp

text \<open>The overlap that is excluded does go wrong: the first byte is smeared over the range.\<close>

lemma memcpy_forward_overlap_smears:
  "bytes_at (memcpy (\<lambda>a. ucast a) 101 100 3) 101 3 = [100, 100, 100]"
  by code_simp

lemma memcmp_loop_less:
  "memcmp_loop m a b n < 0 \<longleftrightarrow>
     (\<exists>k<n. (\<forall>i<k. m (a + of_nat i) = m (b + of_nat i)) \<and> m (a + of_nat k) < m (b + of_nat k))"
proof (induction n arbitrary: a b)
  case 0
  then show ?case by simp
next
  case (Suc n)
  show ?case
    unfolding Ex_less_Suc2 All_less_Suc2
    using Suc.IH [of "a + 1" "b + 1"] by (auto simp: add.assoc All_less_Suc2)
qed

lemma memcmp_loop_zero:
  "memcmp_loop m a b n = 0 \<longleftrightarrow> (\<forall>i<n. m (a + of_nat i) = m (b + of_nat i))"
proof (induction n arbitrary: a b)
  case 0
  then show ?case by simp
next
  case (Suc n)
  show ?case
    unfolding All_less_Suc2
    using Suc.IH [of "a + 1" "b + 1"] by (auto simp: add.assoc)
qed

text \<open>
  \<open>memcmp\<close> returns 0 exactly when the two ranges hold the same bytes, and a
  negative value exactly when, at the first byte where they differ, the first range has the
  smaller (unsigned) one.
\<close>

theorem memcmp_correct:
  "(memcmp m a b sz = 0 \<longleftrightarrow> bytes_at m a (unat sz) = bytes_at m b (unat sz)) \<and>
   (memcmp m a b sz < 0 \<longleftrightarrow>
      (\<exists>k<unat sz. (bytes_at m a k = bytes_at m b k) \<and> m (a + of_nat k) < m (b + of_nat k)))"
  by (simp add: memcmp_def memcmp_loop_zero memcmp_loop_less list_eq_iff_nth_eq)

lemma fill_up_frame: "(\<forall>i<n. a \<noteq> p + of_nat i) \<Longrightarrow> fill_up m p v n a = m a"
proof (induction n arbitrary: m p)
  case (Suc n)
  have "a \<noteq> p + 1 + of_nat i" if "i < n" for i
    using Suc.prems [rule_format, of "Suc i"] that by (simp add: add.assoc)
  then have "fill_up m p v (Suc n) a = (m(p := v)) a" using Suc.IH [of "p + 1" "m(p := v)"] by (simp only: fill_up.simps) blast
  then show ?case using Suc.prems [rule_format, of 0] by simp
qed simp

lemma fill_up_fills: "k < n \<Longrightarrow> fill_up m p v n (p + of_nat k) = v"
proof (induction n arbitrary: m p k)
  case (Suc n)
  show ?case
  proof (cases "\<exists>j<n. p + of_nat k = p + 1 + of_nat j")
    case True
    then obtain j where "j < n" "p + of_nat k = p + 1 + of_nat j" by blast
    then show ?thesis using Suc.IH [of j "m(p := v)" "p + 1"] by (simp only: fill_up.simps)
  next
    case False
    have "k = 0"
    proof (rule ccontr)
      assume "k \<noteq> 0"
      then obtain j where "k = Suc j" by (cases k) auto
      then have "j < n" "p + of_nat k = p + 1 + of_nat j" using Suc.prems by auto
      then show False using False by blast
    qed
    have "fill_up m p v (Suc n) (p + of_nat k) = (m(p := v)) (p + of_nat k)"
      using False fill_up_frame [of n "p + of_nat k" "p + 1" "m(p := v)" v] by auto
    then show ?thesis using \<open>k = 0\<close> by simp
  qed
qed simp

lemma memset_eq: "memset m p v n a = (if in_region p (unat n) a then word_of_int v else m a)"
proof (cases "in_region p (unat n) a")
  case True
  then obtain i where "i < unat n" "a = p + of_nat i" by (rule in_region_obtain)
  then show ?thesis using True by (simp add: memset_def fill_up_fills)
next
  case False
  then have "\<forall>i<unat n. a \<noteq> p + of_nat i" using not_in_region_iff [OF unat_le_2p32] by blast
  then show ?thesis using False by (simp add: memset_def fill_up_frame)
qed

text \<open>
  \<open>memset\<close> leaves the low byte of its value in every byte of the range, whatever the
  range (even one that runs over the end of the address space), and changes no other byte.
\<close>

theorem memset_correct:
  "bytes_at (memset m p v n) p (unat n) = replicate (unat n) (word_of_int v)
    \<and> (\<forall>a. in_region p (unat n) a \<or> memset m p v n a = m a)"
proof (intro conjI allI)
  show "bytes_at (memset m p v n) p (unat n) = replicate (unat n) (word_of_int v)"
    by (rule nth_equalityI) (simp_all add: memset_def fill_up_fills)
  show "in_region p (unat n) a \<or> memset m p v n a = m a" for a
    by (simp add: memset_eq)
qed

section \<open>Fields in memory\<close>

lemma load32_store32_same [mem_simps]: "load32 (store32 m p v) p = v"
proof -
  have "load32 (store32 m p v) p = ucast (ucast v :: u8) OR push_bit 8 (ucast (ucast (drop_bit 8 v) :: u8))
     OR push_bit 16 (ucast (ucast (drop_bit 16 v) :: u8)) OR push_bit 24 (ucast (ucast (drop_bit 24 v) :: u8))"
    by (simp add: load32_def store32_def)
  also have "\<dots> = v"
  proof (rule bit_word_eqI)
    fix n assume n: "n < LENGTH(32)"
    consider "n < 8" | "8 \<le> n" "n < 16" | "16 \<le> n" "n < 24" | "24 \<le> n" by linarith
    then show "bit (ucast (ucast v :: u8) OR push_bit 8 (ucast (ucast (drop_bit 8 v) :: u8))
        OR push_bit 16 (ucast (ucast (drop_bit 16 v) :: u8))
        OR push_bit 24 (ucast (ucast (drop_bit 24 v) :: u8)) :: u32) n = bit v n"
      using n by cases (auto simp: bit_simps)
  qed
  finally show ?thesis .
qed

lemma store32_other: "\<not> in_region p 4 a \<Longrightarrow> store32 m p v a = m a"
proof -
  assume a: "\<not> in_region p 4 a"
  have "a \<noteq> p + of_nat i" if "i < 4" for i
    using a in_region_add [OF that] that by auto
  from this [of 0] this [of 1] this [of 2] this [of 3] show ?thesis
    by (simp add: store32_def)
qed

lemma load32_cong: "(\<And>a. in_region p 4 a \<Longrightarrow> m a = m' a) \<Longrightarrow> load32 m p = load32 m' p"
  using in_region_add [of 0 4 p] in_region_add [of 1 4 p] in_region_add [of 2 4 p] in_region_add [of 3 4 p]
  by (simp add: load32_def)

text \<open>Addresses as naturals: regions that do not run over the end of the address space.\<close>

lemma in_region_nat:
  assumes "p + n \<le> 2 ^ 32"
  shows "in_region (of_nat p) n a \<longleftrightarrow> p \<le> unat a \<and> unat a < p + n"
proof (cases "n = 0")
  case False
  then have p: "unat (of_nat p :: u32) = p" using assms by (simp add: unat_of_nat)
  show ?thesis
  proof (cases "p \<le> unat a")
    case True
    then have "(of_nat p :: u32) \<le> a" using p by (simp add: word_le_nat_alt)
    then have "unat (a - of_nat p) = unat a - p" using p by (simp add: unat_sub)
    then show ?thesis using True by (auto simp: in_region_def)
  next
    case False
    then have "unat (a - of_nat p) = unat a + 2 ^ 32 - p"
      unfolding unat_sub_if' p by simp
    moreover have "unat a < p" using False by simp
    ultimately show ?thesis using assms by (simp add: in_region_def)
  qed
qed (simp add: in_region_def)

lemma load32_store32_other [mem_simps]:
  assumes "p + 4 \<le> q \<or> q + 4 \<le> p" and "p + 4 \<le> 2 ^ 32" and "q + 4 \<le> 2 ^ 32"
  shows "load32 (store32 m (of_nat p) v) (of_nat q) = load32 m (of_nat q)"
proof (rule load32_cong)
  fix a assume "in_region (of_nat q) 4 a"
  then have "\<not> in_region (of_nat p) 4 a" using assms by (auto simp: in_region_nat)
  then show "store32 m (of_nat p) v a = m a" by (rule store32_other)
qed

end
