(* ===== verification/Interfaces.thy ===== *)
theory Interfaces
  imports Prelude
begin

text \<open>
  The contracts between components, as locales: what a client may rely on, stated over the
  operations it calls. The provider of each contract interprets it on its own definitions.
\<close>

section \<open>A supply of page frames\<close>

text \<open>
  The page table manager asks the physical manager for frames. \<open>avail\<close> is the set of frame
  addresses that can still be handed out; \<open>0\<close>, the null pointer, is the answer when there are
  none.
\<close>

locale page_supply =
  fixes alloc :: "'s \<Rightarrow> ('s \<times> addr) option"
    and avail :: "'s \<Rightarrow> addr set"
    and ok :: "'s \<Rightarrow> bool"
  assumes alloc_some: "ok s \<Longrightarrow> avail s \<noteq> {} \<Longrightarrow>
      \<exists>s' a. alloc s = Some (s', a) \<and> ok s' \<and> a \<in> avail s \<and> avail s' = avail s - {a}"
    and alloc_none: "ok s \<Longrightarrow> avail s = {} \<Longrightarrow> alloc s = Some (s, 0)"
    and avail_nonzero: "ok s \<Longrightarrow> 0 \<notin> avail s"
begin

lemma alloc_cases:
  assumes "ok s" and "alloc s = Some (s', a)"
  obtains (frame) "a \<noteq> 0" and "a \<in> avail s" and "avail s' = avail s - {a}" and "ok s'"
        | (null) "a = 0" and "avail s = {}" and "s' = s"
proof (cases "avail s = {}")
  case True
  with assms alloc_none show ?thesis by (intro null) auto
next
  case False
  with assms alloc_some obtain "ok s'" "a \<in> avail s" "avail s' = avail s - {a}" by fastforce
  with assms avail_nonzero show ?thesis by (intro frame) auto
qed

lemma alloc_total: "ok s \<Longrightarrow> \<exists>s' a. alloc s = Some (s', a) \<and> ok s'"
  using alloc_some alloc_none by (cases "avail s = {}") fastforce+

end

text \<open>\<open>n\<close> requests in a row, with the answers in order.\<close>

fun alloc_seq :: "('s \<Rightarrow> ('s \<times> addr) option) \<Rightarrow> nat \<Rightarrow> 's \<Rightarrow> ('s \<times> addr list) option" where
  "alloc_seq alloc 0 s = Some (s, [])"
| "alloc_seq alloc (Suc n) s = do {
     (s', a) \<leftarrow> alloc s;
     (s'', as) \<leftarrow> alloc_seq alloc n s';
     Some (s'', a # as)
   }"

context page_supply begin

lemma alloc_seq_total: "ok s \<Longrightarrow> \<exists>s' as. alloc_seq alloc n s = Some (s', as) \<and> ok s'"
proof (induction n arbitrary: s)
  case (Suc n)
  then obtain s1 a where "alloc s = Some (s1, a)" "ok s1" using alloc_total by blast
  moreover from Suc.IH [OF \<open>ok s1\<close>] obtain s2 as
    where "alloc_seq alloc n s1 = Some (s2, as)" "ok s2" by blast
  ultimately show ?case by simp
qed simp

lemma alloc_seq_distinct:
  "ok s \<Longrightarrow> alloc_seq alloc n s = Some (s', as) \<Longrightarrow>
     distinct (filter (\<lambda>a. a \<noteq> 0) as) \<and> set (filter (\<lambda>a. a \<noteq> 0) as) \<subseteq> avail s
     \<and> avail s' = avail s - set as"
proof (induction n arbitrary: s as)
  case (Suc n)
  from Suc.prems(2) obtain s1 a as' where a: "alloc s = Some (s1, a)"
    and as': "alloc_seq alloc n s1 = Some (s', as')" and as: "as = a # as'"
    by (auto split: bind_splits)
  from Suc.prems(1) a show ?case
  proof (cases rule: alloc_cases)
    case frame
    with Suc.IH [OF \<open>ok s1\<close> as'] show ?thesis by (auto simp: as)
  next
    case null
    with Suc.IH [OF _ as'] Suc.prems(1) show ?thesis by (auto simp: as)
  qed
qed simp

end

section \<open>A mapper of pages\<close>

text \<open>
  The heap, and every driver that needs memory at an address of its choice, asks for pages to be
  mapped. \<open>present\<close> says an access is not a page fault, \<open>room\<close> bounds how much the mapper can
  still do: one call uses at most two frames, one for the page and one for a new table. \<open>kept\<close> is what
  a call leaves alone, from one state to a later one.
\<close>

locale page_mapper =
  fixes map_at :: "'s \<Rightarrow> addr \<Rightarrow> 's option"
    and present :: "'s \<Rightarrow> addr \<Rightarrow> bool"
    and room :: "'s \<Rightarrow> nat"
    and ok :: "'s \<Rightarrow> bool"
    and region :: "addr \<Rightarrow> bool"
    and kept :: "'s \<Rightarrow> 's \<Rightarrow> bool"
  assumes map_ok: "ok s \<Longrightarrow> region a \<Longrightarrow> 2 \<le> room s \<Longrightarrow>
      \<exists>s'. map_at s a = Some s' \<and> ok s' \<and> present s' a \<and> room s \<le> room s' + 2 \<and> kept s s'
        \<and> (\<forall>b. region b \<and> present s b \<longrightarrow> present s' b)"
    and kept_refl: "kept s s"
    and kept_trans: "kept s s' \<Longrightarrow> kept s' s'' \<Longrightarrow> kept s s''"
    and same_page: "page_base a = page_base b \<Longrightarrow> present s a = present s b"
begin

lemma map_obtain:
  assumes "ok s" and "region a" and "n + 2 \<le> room s"
  obtains s' where "map_at s a = Some s'" and "ok s'" and "n \<le> room s'"
    and "\<And>b. page_base b = page_base a \<Longrightarrow> present s' b"
    and "\<And>b. region b \<Longrightarrow> present s b \<Longrightarrow> present s' b"
    and "kept s s'"
proof -
  have "2 \<le> room s" using assms(3) by simp
  from map_ok [OF assms(1,2) this] obtain s' where s': "map_at s a = Some s'" "ok s'" "present s' a"
    "room s \<le> room s' + 2" "kept s s'" "\<forall>b. region b \<and> present s b \<longrightarrow> present s' b" by blast
  show thesis
  proof (rule that [OF s'(1,2)])
    show "n \<le> room s'" using s'(4) assms(3) by simp
    show "present s' b" if "page_base b = page_base a" for b
      using same_page [OF that] s'(3) by simp
    show "kept s s'" by (rule s'(5))
    show "present s' b" if "region b" "present s b" for b using s'(6) that by blast
  qed
qed

text \<open>A list of addresses, one after the other.\<close>

fun map_all :: "'s \<Rightarrow> addr list \<Rightarrow> 's option" where
  "map_all s [] = Some s"
| "map_all s (a # as) = Option.bind (map_at s a) (\<lambda>s. map_all s as)"

lemma map_all_maps:
  assumes "ok s" and "\<forall>a \<in> set as. region a" and "2 * length as + n \<le> room s"
  shows "\<exists>s'. map_all s as = Some s' \<and> ok s' \<and> n \<le> room s' \<and> kept s s'
    \<and> (\<forall>a \<in> set as. present s' a) \<and> (\<forall>b. region b \<and> present s b \<longrightarrow> present s' b)"
  using assms
proof (induction as arbitrary: s)
  case Nil
  then show ?case using kept_refl by simp
next
  case (Cons a as)
  have "region a" and "2 * length as + n + 2 \<le> room s" using Cons.prems(2,3) by simp_all
  from map_obtain [OF Cons.prems(1) this] obtain s1 where s1: "map_at s a = Some s1" "ok s1"
    "2 * length as + n \<le> room s1" "present s1 a" "kept s s1"
    and keep: "\<And>b. region b \<Longrightarrow> present s b \<Longrightarrow> present s1 b" by metis
  have "\<forall>a \<in> set as. region a" using Cons.prems(2) by simp
  from Cons.IH [OF s1(2) this s1(3)] obtain s' where s': "map_all s1 as = Some s'" "ok s'" "n \<le> room s'" "kept s1 s'"
    "\<forall>a \<in> set as. present s' a" "\<forall>b. region b \<and> present s1 b \<longrightarrow> present s' b" by blast
  have "kept s s'" using kept_trans [OF s1(5) s'(4)] .
  moreover have "present s' a" using s'(6) s1(4) \<open>region a\<close> by blast
  moreover have "map_all s (a # as) = Some s'" using s1(1) s'(1) by simp
  ultimately show ?case using s'(2,3,5,6) keep by auto
qed

end

section \<open>A bounded queue\<close>

text \<open>
  What a producer and a consumer rely on: as long as there is room nothing is lost, and what comes
  out is what went in, in order. Room that was used need not come back.
\<close>

datatype 'a queue_op = Enq 'a | Deq

fun queue_run :: "('q \<Rightarrow> 'a \<Rightarrow> ('q \<times> bool) option) \<Rightarrow> ('q \<Rightarrow> ('q \<times> 'a option) option)
    \<Rightarrow> 'a queue_op list \<Rightarrow> 'q \<Rightarrow> ('q \<times> 'a option list) option" where
  "queue_run enq deq [] q = Some (q, [])"
| "queue_run enq deq (Enq x # ops) q =
     Option.bind (enq q x) (\<lambda>(q', accepted). queue_run enq deq ops q')"
| "queue_run enq deq (Deq # ops) q =
     Option.bind (deq q) (\<lambda>(q', out).
       map_option (\<lambda>(q'', outs). (q'', out # outs)) (queue_run enq deq ops q'))"

text \<open>The same operations on the list of what is queued.\<close>

fun spec_run :: "'a queue_op list \<Rightarrow> 'a list \<Rightarrow> 'a list \<times> 'a option list" where
  "spec_run [] xs = (xs, [])"
| "spec_run (Enq x # ops) xs = spec_run ops (xs @ [x])"
| "spec_run (Deq # ops) [] = (let (ys, outs) = spec_run ops [] in (ys, None # outs))"
| "spec_run (Deq # ops) (x # xs) = (let (ys, outs) = spec_run ops xs in (ys, Some x # outs))"

fun enqs :: "'a queue_op list \<Rightarrow> nat" where
  "enqs [] = 0"
| "enqs (Enq x # ops) = Suc (enqs ops)"
| "enqs (Deq # ops) = enqs ops"

locale bounded_queue =
  fixes enq :: "'q \<Rightarrow> 'a \<Rightarrow> ('q \<times> bool) option"
    and deq :: "'q \<Rightarrow> ('q \<times> 'a option) option"
    and contents :: "'q \<Rightarrow> 'a list"
    and room :: "'q \<Rightarrow> nat"
    and ok :: "'q \<Rightarrow> bool"
  assumes enq_room: "ok q \<Longrightarrow> 0 < room q \<Longrightarrow>
      \<exists>q'. enq q x = Some (q', True) \<and> ok q' \<and> contents q' = contents q @ [x] \<and> room q \<le> Suc (room q')"
    and deq_empty: "ok q \<Longrightarrow> contents q = [] \<Longrightarrow> deq q = Some (q, None)"
    and deq_some: "ok q \<Longrightarrow> contents q = x # xs \<Longrightarrow>
      \<exists>q'. deq q = Some (q', Some x) \<and> ok q' \<and> contents q' = xs \<and> room q \<le> room q'"
begin

lemma run_refines:
  "ok q \<Longrightarrow> enqs ops \<le> room q \<Longrightarrow>
    \<exists>q' outs. queue_run enq deq ops q = Some (q', outs) \<and> ok q'
      \<and> spec_run ops (contents q) = (contents q', outs)"
proof (induction ops arbitrary: q)
  case Nil
  then show ?case by simp
next
  case (Cons op ops)
  note IH = Cons.IH and okq = Cons.prems(1) and le = Cons.prems(2)
  show ?case
  proof (cases op)
    case (Enq x)
    then have "0 < room q" using Cons.prems by simp
    from enq_room [OF Cons.prems(1) this, of x] obtain q1 where q1: "enq q x = Some (q1, True)" "ok q1"
      "contents q1 = contents q @ [x]" "room q \<le> Suc (room q1)" by blast
    moreover have "enqs ops \<le> room q1" using Cons.prems(2) q1(4) Enq by simp
    ultimately show ?thesis using Cons.IH [of q1] Enq by auto
  next
    case Deq
    show ?thesis
    proof (cases "contents q")
      case Nil
      then show ?thesis using Cons.IH [of q] Cons.prems deq_empty Deq by fastforce
    next
      case (Cons x xs)
      from deq_some [OF okq Cons] obtain q1 where q1: "deq q = Some (q1, Some x)" "ok q1"
        "contents q1 = xs" "room q \<le> room q1" by blast
      then show ?thesis using IH [of q1] le Cons Deq by fastforce
    qed
  qed
qed

text \<open>In particular: \<open>n\<close> messages sent into an empty queue are received in the order they were sent.\<close>

lemma spec_run_append: "spec_run (ops @ ops') xs =
    (let (ys, outs) = spec_run ops xs; (zs, outs') = spec_run ops' ys in (zs, outs @ outs'))"
  by (induction ops xs rule: spec_run.induct) (auto simp: Let_def split: prod.splits)

end

section \<open>A block device\<close>

text \<open>
  What a file system asks of its device: a read returns the contents of the block, all 512 bytes of
  it, and changes no block.
\<close>

fun read_seq :: "('d \<Rightarrow> u32 \<Rightarrow> (u8 list \<times> 'd) option) \<Rightarrow> u32 list \<Rightarrow> 'd \<Rightarrow> (u8 list list \<times> 'd) option" where
  "read_seq rd [] d = Some ([], d)"
| "read_seq rd (b # bs) d = do {
     (x, d) \<leftarrow> rd d b;
     (xs, d) \<leftarrow> read_seq rd bs d;
     Some (x # xs, d)
   }"

locale block_device =
  fixes read_block :: "'d \<Rightarrow> u32 \<Rightarrow> (u8 list \<times> 'd) option"
    and block :: "'d \<Rightarrow> nat \<Rightarrow> u8 list"
    and ok :: "'d \<Rightarrow> bool"
  assumes read_law: "ok d \<Longrightarrow> unat b < 2 ^ 28 \<Longrightarrow>
      \<exists>d'. read_block d b = Some (block d (unat b), d') \<and> ok d' \<and> block d' = block d"
    and block_size: "ok d \<Longrightarrow> length (block d n) = 512"
begin

lemma read_obtain:
  assumes "ok d" and "unat b < 2 ^ 28"
  obtains d' where "read_block d b = Some (block d (unat b), d')" and "ok d'" and "block d' = block d"
  using read_law [OF assms] by blast

lemma read_seq_blocks:
  assumes "ok d" and "\<forall>b \<in> set bs. unat b < 2 ^ 28"
  shows "\<exists>d'. read_seq read_block bs d = Some (map (\<lambda>b. block d (unat b)) bs, d') \<and> ok d' \<and> block d' = block d"
  using assms
proof (induction bs arbitrary: d)
  case (Cons b bs)
  have "unat b < 2 ^ 28" using Cons.prems(2) by simp
  then obtain d1 where d1: "read_block d b = Some (block d (unat b), d1)" "ok d1" "block d1 = block d"
    using read_obtain [OF Cons.prems(1)] by metis
  have "\<forall>b \<in> set bs. unat b < 2 ^ 28" using Cons.prems(2) by simp
  from Cons.IH [OF d1(2) this] show ?case using d1 by auto
qed simp

end

section \<open>A dictionary\<close>

text \<open>
  What a table of names promises: a lookup after an insertion finds the inserted value under its key and
  what was there under every other one.
\<close>

locale dictionary =
  fixes get :: "'d \<Rightarrow> 'k \<Rightarrow> 'v"
    and put :: "'k \<Rightarrow> 'v \<Rightarrow> 'd \<Rightarrow> 'd option"
    and ok :: "'d \<Rightarrow> bool"
    and key :: "'k \<Rightarrow> bool"
  assumes put_get: "ok d \<Longrightarrow> key k \<Longrightarrow>
      \<exists>d'. put k v d = Some d' \<and> ok d' \<and> get d' k = v \<and> (\<forall>j. key j \<and> j \<noteq> k \<longrightarrow> get d' j = get d j)"
begin

primrec put_all :: "('k \<times> 'v) list \<Rightarrow> 'd \<Rightarrow> 'd option" where
  "put_all [] d = Some d"
| "put_all (kv # kvs) d = Option.bind (put (fst kv) (snd kv) d) (put_all kvs)"

lemma put_all_get:
  "ok d \<Longrightarrow> \<forall>kv \<in> set kvs. key (fst kv) \<Longrightarrow>
    \<exists>d'. put_all kvs d = Some d' \<and> ok d'
      \<and> (\<forall>j. key j \<longrightarrow> get d' j = (case map_of (rev kvs) j of None \<Rightarrow> get d j | Some v \<Rightarrow> v))"
proof (induction kvs arbitrary: d)
  case (Cons kv kvs)
  obtain d1 where d1: "put (fst kv) (snd kv) d = Some d1" "ok d1" "get d1 (fst kv) = snd kv"
    "\<forall>j. key j \<and> j \<noteq> fst kv \<longrightarrow> get d1 j = get d j"
    using put_get [of d "fst kv" "snd kv"] Cons.prems by auto
  then obtain d' where "put_all kvs d1 = Some d'" "ok d'"
    "\<forall>j. key j \<longrightarrow> get d' j = (case map_of (rev kvs) j of None \<Rightarrow> get d1 j | Some v \<Rightarrow> v)"
    using Cons.IH [of d1] Cons.prems by auto
  then show ?case using d1 by (cases kv) (auto simp: map_add_def split: option.splits)
qed simp

end

end
