(* ===== verification/Phys_Manager.thy ===== *)
theory Phys_Manager
  imports Interfaces
begin

text \<open>
  The physical memory manager of \<open>kernel/memory/manager.cpp\<close>: a bitmap with one bit per
  4 KiB page, set when the page is free, and a counter of free pages. The size of the bitmap is
  the template argument of the class, here the length of the list; an index that leaves the
  bitmap is \<^const>\<open>None\<close>.
\<close>

section \<open>State and operations\<close>

(* src/include/kernel/memory/manager.hpp:36-48 BitmapAllocator *)
record pmm =
  free_pages :: u32
  bitmap :: "u32 list"

(* src/kernel/memory/manager.cpp:20-24 BitmapAllocator::PageFree *)
definition page_free :: "pmm \<Rightarrow> u32 \<Rightarrow> pmm option" where
  "page_free pm page_index = do {
     w \<leftarrow> arr_get (bitmap pm) (unat (drop_bit 5 page_index));
     bm \<leftarrow> arr_set (bitmap pm) (unat (drop_bit 5 page_index))
            (w OR push_bit (unat (page_index AND 0x1F)) 1);
     Some (pm\<lparr>bitmap := bm, free_pages := free_pages pm + 1\<rparr>)
   }"

(* src/kernel/memory/manager.cpp:29-33 BitmapAllocator::PageTaken *)
definition page_taken :: "pmm \<Rightarrow> u32 \<Rightarrow> pmm option" where
  "page_taken pm page_index = do {
     w \<leftarrow> arr_get (bitmap pm) (unat (drop_bit 5 page_index));
     bm \<leftarrow> arr_set (bitmap pm) (unat (drop_bit 5 page_index))
            (w AND NOT (push_bit (unat (page_index AND 0x1F)) 1));
     Some (pm\<lparr>bitmap := bm, free_pages := free_pages pm - 1\<rparr>)
   }"

text \<open>
  The two nested loops of \<open>AllocatePage\<close>: the inner one over the 32 bits of a chunk, from bit
  \<open>b\<close> on with \<open>n\<close> bits to go, and the outer one over the chunks from number \<open>chunk\<close> on.
\<close>

(* src/kernel/memory/manager.cpp:44-52 BitmapAllocator::AllocatePage *)
fun scan_bits :: "u32 \<Rightarrow> nat \<Rightarrow> nat \<Rightarrow> nat option" where
  "scan_bits w b 0 = None"
| "scan_bits w b (Suc n) =
     (if w AND push_bit b 1 \<noteq> 0 then Some b else scan_bits w (Suc b) n)"

(* src/kernel/memory/manager.cpp:41-54 BitmapAllocator::AllocatePage *)
fun scan_chunks :: "u32 list \<Rightarrow> nat \<Rightarrow> u32 option" where
  "scan_chunks [] chunk = None"
| "scan_chunks (w # ws) chunk =
     (if w \<noteq> 0 then
        (case scan_bits w 0 32 of
           Some b \<Rightarrow> Some (of_nat chunk * 32 + of_nat b)
         | None \<Rightarrow> scan_chunks ws (Suc chunk))
      else scan_chunks ws (Suc chunk))"

text \<open>The result address is 0, the code's \<open>NULL\<close>, when no page is free.\<close>

(* src/kernel/memory/manager.cpp:39-57 BitmapAllocator::AllocatePage *)
definition allocate_page :: "pmm \<Rightarrow> (pmm \<times> addr) option" where
  "allocate_page pm =
     (case scan_chunks (bitmap pm) 0 of
        Some pg_num \<Rightarrow> map_option (\<lambda>pm'. (pm', push_bit 12 pg_num)) (page_taken pm pg_num)
      | None \<Rightarrow> Some (pm, 0))"

text \<open>
  The boot constructor walks the memory map GRUB left and then takes the pages of the kernel.
  \<open>bitmap\<close> is not a member the constructor initialises, so what it held before is an argument.
\<close>

(* src/include/kernel/multiboot.hpp:145-152 memory_map_t *)
record memory_map =
  mm_size :: u32
  base_addr_low :: u32
  base_addr_high :: u32
  length_low :: u32
  length_high :: u32
  mm_type :: u32

definition MULTIBOOT_MEMORY_AVAILABLE :: u32 where
  "MULTIBOOT_MEMORY_AVAILABLE = 1"

(* src/kernel/memory/manager.cpp:75-77 BitmapAllocator::BitmapAllocator *)
fun free_range :: "pmm \<Rightarrow> u32 \<Rightarrow> nat \<Rightarrow> pmm option" where
  "free_range pm pg_index 0 = Some pm"
| "free_range pm pg_index (Suc n) =
     Option.bind (page_free pm pg_index) (\<lambda>pm'. free_range pm' (pg_index + 1) n)"

(* src/kernel/memory/manager.cpp:83-85 BitmapAllocator::BitmapAllocator *)
fun take_range :: "pmm \<Rightarrow> u32 \<Rightarrow> nat \<Rightarrow> pmm option" where
  "take_range pm pg_index 0 = Some pm"
| "take_range pm pg_index (Suc n) =
     Option.bind (page_taken pm pg_index) (\<lambda>pm'. take_range pm' (pg_index + 1) n)"

(* src/kernel/memory/manager.cpp:67-78 BitmapAllocator::BitmapAllocator *)
definition free_entry :: "pmm \<Rightarrow> memory_map \<Rightarrow> pmm option" where
  "free_entry pm e =
     (if mm_type e = MULTIBOOT_MEMORY_AVAILABLE then
        let first_pg = drop_bit 12 (base_addr_low e AND 0xFFFFF000);
            end_pg = drop_bit 12 ((base_addr_low e + length_low e) AND 0xFFFFF000)
        in free_range pm first_pg (unat end_pg - unat first_pg)
      else Some pm)"

(* src/kernel/memory/manager.cpp:66-80 BitmapAllocator::BitmapAllocator *)
fun free_entries :: "pmm \<Rightarrow> memory_map list \<Rightarrow> pmm option" where
  "free_entries pm [] = Some pm"
| "free_entries pm (e # mmap) = Option.bind (free_entry pm e) (\<lambda>pm'. free_entries pm' mmap)"

(* src/kernel/memory/manager.cpp:59-86 BitmapAllocator::BitmapAllocator *)
definition boot_allocator :: "u32 list \<Rightarrow> memory_map list \<Rightarrow> u32 \<Rightarrow> pmm option" where
  "boot_allocator garbage mmap kernel_end = do {
     pm \<leftarrow> free_entries \<lparr>free_pages = 0, bitmap = garbage\<rparr> mmap;
     let end_kernel_pg = drop_bit 12 (kernel_end AND 0xFFFFF000) in
       take_range pm 0 (unat (end_kernel_pg + 1))
   }"

section \<open>The set of free pages\<close>

definition n_pages :: "pmm \<Rightarrow> nat" where
  "n_pages pm = 32 * length (bitmap pm)"

definition page_is_free :: "pmm \<Rightarrow> nat \<Rightarrow> bool" where
  "page_is_free pm p \<longleftrightarrow> p < n_pages pm \<and> bit (bitmap pm ! (p div 32)) (p mod 32)"

lemma page_index_eq: "(p div 32 = q div 32 \<and> p mod 32 = q mod 32) \<longleftrightarrow> p = (q :: nat)"
  by (metis div_mult_mod_eq)

lemma chunk_bound: "p < n_pages pm \<longleftrightarrow> p div 32 < length (bitmap pm)"
  by (auto simp: n_pages_def)

lemma page_free_None: "n_pages pm \<le> unat p \<Longrightarrow> page_free pm p = None"
  using chunk_bound [of "unat p" pm] by (auto simp: page_free_def unat_chunk)

lemma page_free_Some:
  assumes "unat p < n_pages pm"
  obtains pm' where "page_free pm p = Some pm'" and "n_pages pm' = n_pages pm"
    and "free_pages pm' = free_pages pm + 1"
    and "\<And>q. page_is_free pm' q \<longleftrightarrow> page_is_free pm q \<or> q = unat p"
proof -
  let ?c = "unat p div 32"
  let ?bm = "(bitmap pm)[?c := bitmap pm ! ?c OR push_bit (unat p mod 32) 1]"
  let ?pm = "pm\<lparr>bitmap := ?bm, free_pages := free_pages pm + 1\<rparr>"
  have c: "?c < length (bitmap pm)" using assms chunk_bound by blast
  have free: "page_is_free ?pm q \<longleftrightarrow> page_is_free pm q \<or> q = unat p" for q
    using c assms page_index_eq [of q "unat p"]
    by (auto simp: page_is_free_def n_pages_def nth_list_update bit_or_2p)
  show thesis
    by (rule that [of ?pm]) (use c free in \<open>simp_all add: page_free_def unat_chunk unat_bit_index n_pages_def\<close>)
qed

lemma page_taken_None: "n_pages pm \<le> unat p \<Longrightarrow> page_taken pm p = None"
  using chunk_bound [of "unat p" pm] by (auto simp: page_taken_def unat_chunk)

lemma page_taken_Some:
  assumes "unat p < n_pages pm"
  obtains pm' where "page_taken pm p = Some pm'" and "n_pages pm' = n_pages pm"
    and "free_pages pm' = free_pages pm - 1"
    and "\<And>q. page_is_free pm' q \<longleftrightarrow> page_is_free pm q \<and> q \<noteq> unat p"
proof -
  let ?c = "unat p div 32"
  let ?bm = "(bitmap pm)[?c := bitmap pm ! ?c AND NOT (push_bit (unat p mod 32) 1)]"
  let ?pm = "pm\<lparr>bitmap := ?bm, free_pages := free_pages pm - 1\<rparr>"
  have c: "?c < length (bitmap pm)" using assms chunk_bound by blast
  have free: "page_is_free ?pm q \<longleftrightarrow> page_is_free pm q \<and> q \<noteq> unat p" for q
    using c assms page_index_eq [of q "unat p"]
    by (auto simp: page_is_free_def n_pages_def nth_list_update bit_and_not_2p)
  show thesis
    by (rule that [of ?pm]) (use c free in \<open>simp_all add: page_taken_def unat_chunk unat_bit_index n_pages_def\<close>)
qed

section \<open>Allocation\<close>

lemma scan_bits_Some:
  "scan_bits w b n = Some r \<Longrightarrow> b + n \<le> 32 \<Longrightarrow>
     b \<le> r \<and> r < b + n \<and> bit w r \<and> (\<forall>i. b \<le> i \<and> i < r \<longrightarrow> \<not> bit w i)"
proof (induction n arbitrary: b)
  case 0
  then show ?case by simp
next
  case (Suc n)
  show ?case
  proof (cases "bit w b")
    case True
    with Suc.prems show ?thesis by (auto simp: and_2p_eq_0)
  next
    case False
    with Suc.prems have "scan_bits w (Suc b) n = Some r" by (simp add: and_2p_eq_0)
    with Suc.IH [of "Suc b"] Suc.prems(2) False show ?thesis
      by (metis Suc_leD add_Suc_shift le_antisym not_less_eq_eq)
  qed
qed

lemma scan_bits_None:
  "scan_bits w b n = None \<Longrightarrow> b + n \<le> 32 \<Longrightarrow> b \<le> i \<Longrightarrow> i < b + n \<Longrightarrow> \<not> bit w i"
proof (induction n arbitrary: b)
  case 0
  then show ?case by simp
next
  case (Suc n)
  then have "\<not> bit w b" and rec: "scan_bits w (Suc b) n = None"
    by (simp_all add: and_2p_eq_0 split: if_splits)
  with Suc.IH [OF rec] Suc.prems show ?case
    by (cases "i = b") auto
qed

lemma scan_bits_nonzero: "w \<noteq> 0 \<Longrightarrow> scan_bits w 0 32 \<noteq> None"
  using scan_bits_None [of w 0 32] by (auto simp: bit_eq_iff dest: bit_imp_le_length)

text \<open>Bit \<open>p\<close> of a list of chunks, counted from the first bit of the first chunk.\<close>

definition chunk_bit :: "u32 list \<Rightarrow> nat \<Rightarrow> bool" where
  "chunk_bit ws p \<longleftrightarrow> p < 32 * length ws \<and> bit (ws ! (p div 32)) (p mod 32)"

lemma chunk_bit_Cons:
  "chunk_bit (w # ws) p \<longleftrightarrow> (if p < 32 then bit w p else chunk_bit ws (p - 32))"
proof (cases "p < 32")
  case False
  then have "p div 32 = Suc ((p - 32) div 32)" and "p mod 32 = (p - 32) mod 32"
    by (simp_all add: le_div_geq le_mod_geq)
  with False show ?thesis by (auto simp: chunk_bit_def)
qed (simp add: chunk_bit_def)

lemma page_is_free_chunk_bit: "page_is_free pm p \<longleftrightarrow> chunk_bit (bitmap pm) p"
  by (simp add: page_is_free_def chunk_bit_def n_pages_def)

lemma scan_chunks_None: "scan_chunks ws c = None \<Longrightarrow> \<not> chunk_bit ws p"
proof (induction ws arbitrary: c p)
  case Nil
  then show ?case by (simp add: chunk_bit_def)
next
  case (Cons w ws)
  then show ?case
    using scan_bits_nonzero [of w]
    by (auto simp: chunk_bit_Cons split: if_splits option.splits)
qed

lemma scan_chunks_Some:
  "scan_chunks ws c = Some pg \<Longrightarrow>
     \<exists>p. chunk_bit ws p \<and> (\<forall>q<p. \<not> chunk_bit ws q) \<and> pg = of_nat (32 * c + p)"
proof (induction ws arbitrary: c)
  case Nil
  then show ?case by simp
next
  case (Cons w ws)
  show ?case
  proof (cases "w = 0")
    case True
    with Cons.prems have "scan_chunks ws (Suc c) = Some pg" by simp
    from Cons.IH [OF this] obtain p where "chunk_bit ws p" and "\<forall>q<p. \<not> chunk_bit ws q"
      and "pg = of_nat (32 * Suc c + p)" by blast
    then show ?thesis
      using True by (intro exI [of _ "p + 32"]) (auto simp: chunk_bit_Cons algebra_simps)
  next
    case False
    then obtain b where b: "scan_bits w 0 32 = Some b" using scan_bits_nonzero by fastforce
    from scan_bits_Some [OF this] have "b < 32" "bit w b" "\<forall>i<b. \<not> bit w i" by auto
    with Cons.prems False b show ?thesis
      by (intro exI [of _ b]) (auto simp: chunk_bit_Cons)
  qed
qed

text \<open>Every page has an address: the bitmap covers at most the 4 GiB of the 32-bit bus.\<close>

definition pmm_ok :: "pmm \<Rightarrow> bool" where
  "pmm_ok pm \<longleftrightarrow> n_pages pm \<le> 2 ^ 20 \<and> \<not> page_is_free pm 0"

lemma allocate_page_cases:
  assumes "n_pages pm \<le> 2 ^ 20"
  obtains (page) p pm' where "page_is_free pm p" and "\<forall>q<p. \<not> page_is_free pm q"
      and "allocate_page pm = Some (pm', push_bit 12 (of_nat p))"
      and "n_pages pm' = n_pages pm" and "free_pages pm' = free_pages pm - 1"
      and "\<And>q. page_is_free pm' q \<longleftrightarrow> page_is_free pm q \<and> q \<noteq> p"
    | (none) "\<forall>q. \<not> page_is_free pm q" and "allocate_page pm = Some (pm, 0)"
proof (cases "scan_chunks (bitmap pm) 0")
  case None
  with scan_chunks_None [OF None] show ?thesis
    by (intro none) (auto simp: page_is_free_chunk_bit allocate_page_def)
next
  case (Some pg)
  from scan_chunks_Some [OF Some] obtain p where p: "page_is_free pm p"
    "\<forall>q<p. \<not> page_is_free pm q" "pg = of_nat p"
    by (auto simp: page_is_free_chunk_bit)
  have "p < n_pages pm" using p(1) by (simp add: page_is_free_def)
  then have "unat pg = p" using assms p(3) by (simp add: unat_of_nat)
  then have "unat pg < n_pages pm" using \<open>p < n_pages pm\<close> by simp
  then obtain pm' where "page_taken pm pg = Some pm'" "n_pages pm' = n_pages pm"
    "free_pages pm' = free_pages pm - 1"
    "\<And>q. page_is_free pm' q \<longleftrightarrow> page_is_free pm q \<and> q \<noteq> unat pg"
    by (rule page_taken_Some) blast
  with p Some \<open>unat pg = p\<close> show ?thesis
    by (intro page [of p pm']) (auto simp: allocate_page_def)
qed

text \<open>
  Property C15: \<open>AllocatePage\<close> hands out the lowest free page, and that page only stops being
  free; it answers the null address, and changes nothing, exactly when no page is free.
\<close>

theorem allocate_page_correct:
  assumes "n_pages pm \<le> 2 ^ 20"
  shows "(case allocate_page pm of
      None \<Rightarrow> False
    | Some (pm', a) \<Rightarrow>
        if (\<exists>p. page_is_free pm p)
        then (\<exists>p. page_is_free pm p \<and> (\<forall>q<p. \<not> page_is_free pm q) \<and> unat a = p * 4096
               \<and> (\<forall>q. page_is_free pm' q \<longleftrightarrow> page_is_free pm q \<and> q \<noteq> p)
               \<and> free_pages pm' = free_pages pm - 1)
        else a = 0 \<and> pm' = pm)"
  using assms
proof (cases rule: allocate_page_cases)
  case (page p pm')
  then have "p < 2 ^ 20" using assms by (simp add: page_is_free_def)
  then have "unat (push_bit 12 (of_nat p) :: u32) = p * 4096"
    by (simp add: push_bit_eq_mult unat_word_ariths unat_of_nat)
  with page show ?thesis by auto
next
  case none
  then show ?thesis by simp
qed

theorem allocate_page_correct_witness:
  "allocate_page \<lparr>free_pages = 1, bitmap = [0, 8]\<rparr> \<noteq> None"
  using allocate_page_correct [of "\<lparr>free_pages = 1, bitmap = [0, 8]\<rparr>"]
  by (auto simp: n_pages_def split: option.splits)

text \<open>The physical manager is a supply of frames.\<close>

definition free_frames :: "pmm \<Rightarrow> addr set" where
  "free_frames pm = {push_bit 12 (of_nat p) | p. page_is_free pm p}"

lemma frame_inject:
  assumes "p < 2 ^ 20" and "q < 2 ^ 20"
  shows "push_bit 12 (of_nat p :: u32) = push_bit 12 (of_nat q) \<longleftrightarrow> p = q"
proof -
  have "unat (push_bit 12 (of_nat r) :: u32) = r * 4096" if "r < 2 ^ 20" for r
    using that by (simp add: push_bit_eq_mult unat_word_ariths unat_of_nat)
  with assms show ?thesis by (metis mult_cancel2 zero_neq_numeral)
qed

lemma allocate_page_frames:
  assumes "pmm_ok pm"
  obtains (page) pm' a where "allocate_page pm = Some (pm', a)" and "pmm_ok pm'"
      and "a \<in> free_frames pm" and "free_frames pm' = free_frames pm - {a}"
    | (none) "free_frames pm = {}" and "allocate_page pm = Some (pm, 0)"
proof -
  have n: "n_pages pm \<le> 2 ^ 20" using assms by (simp add: pmm_ok_def)
  then show thesis
  proof (cases rule: allocate_page_cases)
    case (page p pm')
    have "p < 2 ^ 20" if "page_is_free pm p" for p using that n by (simp add: page_is_free_def)
    then have "free_frames pm' = free_frames pm - {push_bit 12 (of_nat p)}"
      using page(1,6) frame_inject by (auto simp: free_frames_def)
    with page assms show thesis
      by (intro that(1) [of pm' "push_bit 12 (of_nat p)"]) (auto simp: free_frames_def pmm_ok_def)
  next
    case none
    then show thesis by (intro that(2)) (auto simp: free_frames_def)
  qed
qed

interpretation frames: page_supply allocate_page free_frames pmm_ok
proof
  fix pm assume ok: "pmm_ok pm"
  show "0 \<notin> free_frames pm"
  proof
    assume "0 \<in> free_frames pm"
    then obtain p where p: "page_is_free pm p" "push_bit 12 (of_nat p :: u32) = push_bit 12 (of_nat 0)"
      by (auto simp: free_frames_def)
    then have "p < 2 ^ 20" using ok by (simp add: page_is_free_def pmm_ok_def)
    with p frame_inject [of p 0] have "p = 0" by simp
    with p ok show False by (simp add: pmm_ok_def)
  qed
  { assume "free_frames pm \<noteq> {}"
    with ok show "\<exists>pm' a. allocate_page pm = Some (pm', a) \<and> pmm_ok pm' \<and> a \<in> free_frames pm
        \<and> free_frames pm' = free_frames pm - {a}"
      by (cases rule: allocate_page_frames) auto }
  { assume "free_frames pm = {}"
    with ok show "allocate_page pm = Some (pm, 0)"
      by (cases rule: allocate_page_frames) auto }
qed

text \<open>
  however many pages are asked for in a row, the manager always answers, and no page
  frame is handed out twice; every frame it hands out was free at the start.
\<close>

theorem allocate_pages_distinct:
  assumes "pmm_ok pm"
  shows "\<exists>pm' as. alloc_seq allocate_page n pm = Some (pm', as)
    \<and> distinct (filter (\<lambda>a. a \<noteq> 0) as) \<and> set (filter (\<lambda>a. a \<noteq> 0) as) \<subseteq> free_frames pm
    \<and> free_frames pm' = free_frames pm - set as"
  using frames.alloc_seq_total [OF assms, of n] frames.alloc_seq_distinct [OF assms] by blast

theorem allocate_pages_distinct_witness:
  "\<exists>pm' as. alloc_seq allocate_page 2 \<lparr>free_pages = 1, bitmap = [6]\<rparr> = Some (pm', as)
    \<and> distinct (filter (\<lambda>a. a \<noteq> 0) as)"
proof -
  have "pmm_ok \<lparr>free_pages = 1, bitmap = [6]\<rparr>"
    by (simp add: pmm_ok_def n_pages_def page_is_free_def)
  from allocate_pages_distinct [OF this, of 2] show ?thesis by blast
qed

section \<open>Boot\<close>

lemma unat_succ_page: "Suc (unat (p :: u32)) < 2 ^ 32 \<Longrightarrow> unat (p + 1) = Suc (unat p)"
  by (simp add: unat_word_ariths)

lemma interval_Suc: "(a \<le> q \<and> q < a + Suc n) \<longleftrightarrow> q = a \<or> (Suc a \<le> q \<and> q < Suc a + n)"
  by auto

lemma free_range_Some:
  "unat p + n \<le> n_pages pm \<Longrightarrow> n_pages pm \<le> 2 ^ 20 \<Longrightarrow>
     \<exists>pm'. free_range pm p n = Some pm' \<and> n_pages pm' = n_pages pm
       \<and> free_pages pm' = free_pages pm + of_nat n
       \<and> (\<forall>q. page_is_free pm' q \<longleftrightarrow> page_is_free pm q \<or> unat p \<le> q \<and> q < unat p + n)"
proof (induction n arbitrary: pm p)
  case 0
  then show ?case by auto
next
  case (Suc n)
  then have "unat p < n_pages pm" by simp
  then obtain pm1 where pm1: "page_free pm p = Some pm1" "n_pages pm1 = n_pages pm"
    "free_pages pm1 = free_pages pm + 1"
    "\<And>q. page_is_free pm1 q \<longleftrightarrow> page_is_free pm q \<or> q = unat p"
    by (rule page_free_Some) blast
  have next_p: "unat (p + 1) = Suc (unat p)"
    using Suc.prems by (intro unat_succ_page) simp
  with Suc.prems pm1(2) have "unat (p + 1) + n \<le> n_pages pm1" "n_pages pm1 \<le> 2 ^ 20"
    by simp_all
  from Suc.IH [OF this] obtain pm' where "free_range pm1 (p + 1) n = Some pm'"
    "n_pages pm' = n_pages pm1" "free_pages pm' = free_pages pm1 + of_nat n"
    "\<forall>q. page_is_free pm' q \<longleftrightarrow> page_is_free pm1 q \<or> unat (p + 1) \<le> q \<and> q < unat (p + 1) + n"
    by blast
  with pm1 show ?case
    unfolding interval_Suc by (intro exI [of _ pm']) (simp add: next_p disj_ac conj_ac)
qed

lemma take_range_Some:
  "unat p + n \<le> n_pages pm \<Longrightarrow> n_pages pm \<le> 2 ^ 20 \<Longrightarrow>
     \<exists>pm'. take_range pm p n = Some pm' \<and> n_pages pm' = n_pages pm
       \<and> free_pages pm' = free_pages pm - of_nat n
       \<and> (\<forall>q. page_is_free pm' q \<longleftrightarrow> page_is_free pm q \<and> \<not> (unat p \<le> q \<and> q < unat p + n))"
proof (induction n arbitrary: pm p)
  case 0
  then show ?case by auto
next
  case (Suc n)
  then have "unat p < n_pages pm" by simp
  then obtain pm1 where pm1: "page_taken pm p = Some pm1" "n_pages pm1 = n_pages pm"
    "free_pages pm1 = free_pages pm - 1"
    "\<And>q. page_is_free pm1 q \<longleftrightarrow> page_is_free pm q \<and> q \<noteq> unat p"
    by (rule page_taken_Some) blast
  have next_p: "unat (p + 1) = Suc (unat p)"
    using Suc.prems by (intro unat_succ_page) simp
  with Suc.prems pm1(2) have "unat (p + 1) + n \<le> n_pages pm1" "n_pages pm1 \<le> 2 ^ 20"
    by simp_all
  from Suc.IH [OF this] obtain pm' where "take_range pm1 (p + 1) n = Some pm'"
    "n_pages pm' = n_pages pm1" "free_pages pm' = free_pages pm1 - of_nat n"
    "\<forall>q. page_is_free pm' q \<longleftrightarrow> page_is_free pm1 q \<and> \<not> (unat (p + 1) \<le> q \<and> q < unat (p + 1) + n)"
    by blast
  with pm1 show ?case
    unfolding interval_Suc by (intro exI [of _ pm']) (simp add: next_p disj_ac conj_ac)
qed

lemma free_range_None:
  "n_pages pm < unat p + n \<Longrightarrow> 0 < n \<Longrightarrow> unat p + n < 2 ^ 32 \<Longrightarrow> free_range pm p n = None"
proof (induction n arbitrary: pm p)
  case (Suc n)
  show ?case
  proof (cases "unat p < n_pages pm")
    case True
    then obtain pm1 where "page_free pm p = Some pm1" "n_pages pm1 = n_pages pm"
      by (rule page_free_Some) blast
    moreover have "0 < n" using True Suc.prems by auto
    moreover have "unat (p + 1) = Suc (unat p)" using Suc.prems by (intro unat_succ_page) simp
    ultimately show ?thesis using Suc.IH [of pm1 "p + 1"] Suc.prems by simp
  next
    case False
    then show ?thesis by (simp add: page_free_None)
  qed
qed simp

lemma take_range_None:
  "n_pages pm < unat p + n \<Longrightarrow> 0 < n \<Longrightarrow> unat p + n < 2 ^ 32 \<Longrightarrow> take_range pm p n = None"
proof (induction n arbitrary: pm p)
  case (Suc n)
  show ?case
  proof (cases "unat p < n_pages pm")
    case True
    then obtain pm1 where "page_taken pm p = Some pm1" "n_pages pm1 = n_pages pm"
      by (rule page_taken_Some) blast
    moreover have "0 < n" using True Suc.prems by auto
    moreover have "unat (p + 1) = Suc (unat p)" using Suc.prems by (intro unat_succ_page) simp
    ultimately show ?thesis using Suc.IH [of pm1 "p + 1"] Suc.prems by simp
  next
    case False
    then show ?thesis by (simp add: page_taken_None)
  qed
qed simp

text \<open>The pages of an entry of the memory map, and the last page of the kernel.\<close>

definition entry_first :: "memory_map \<Rightarrow> nat" where
  "entry_first e = unat (base_addr_low e) div 4096"

definition entry_end :: "memory_map \<Rightarrow> nat" where
  "entry_end e = unat (base_addr_low e + length_low e) div 4096"

definition usable :: "memory_map \<Rightarrow> bool" where
  "usable e \<longleftrightarrow> mm_type e = MULTIBOOT_MEMORY_AVAILABLE \<and> entry_first e < entry_end e"

lemma page_number_low: "unat (drop_bit 12 (a :: u32) AND 0xFFFFF) = unat a div 4096"
proof -
  have "unat a div 4096 < 1048576"
    using unat_u32_less [of a] by (simp add: less_mult_imp_div_less)
  then show ?thesis by (simp add: unat_and_low unat_drop_bit)
qed

lemma free_entry_cases:
  assumes "n_pages pm \<le> 2 ^ 20"
  shows "if usable e \<and> n_pages pm < entry_end e then free_entry pm e = None
    else (\<exists>pm'. free_entry pm e = Some pm' \<and> n_pages pm' = n_pages pm
       \<and> (\<forall>q. page_is_free pm' q \<longleftrightarrow>
              page_is_free pm q \<or> usable e \<and> entry_first e \<le> q \<and> q < entry_end e))"
proof (cases "usable e")
  case True
  obtain f where f: "unat f = entry_first e"
    and eq: "free_entry pm e = free_range pm f (entry_end e - entry_first e)"
  proof
    show "unat (drop_bit 12 (base_addr_low e AND 0xFFFFF000)) = entry_first e"
      by (simp add: page_number_low entry_first_def)
    show "free_entry pm e
      = free_range pm (drop_bit 12 (base_addr_low e AND 0xFFFFF000)) (entry_end e - entry_first e)"
      using True
      by (simp add: usable_def free_entry_def Let_def page_number_low entry_first_def entry_end_def)
  qed
  have "entry_end e < 2 ^ 32"
    using unat_u32_less [of "base_addr_low e + length_low e"]
    by (simp add: entry_end_def div_less_dividend order_le_less_trans [OF div_le_dividend])
  then show ?thesis
    using True assms free_range_None [of pm f "entry_end e - entry_first e"]
      free_range_Some [of f "entry_end e - entry_first e" pm]
    by (auto simp: usable_def f eq)
next
  case False
  then have "free_entry pm e = Some pm"
    by (auto simp: usable_def free_entry_def Let_def page_number_low entry_first_def entry_end_def)
  with False show ?thesis by simp
qed

lemma free_entries_cases:
  "n_pages pm \<le> 2 ^ 20 \<Longrightarrow>
    if (\<exists>e\<in>set mmap. usable e \<and> n_pages pm < entry_end e) then free_entries pm mmap = None
    else (\<exists>pm'. free_entries pm mmap = Some pm' \<and> n_pages pm' = n_pages pm
       \<and> (\<forall>q. page_is_free pm' q \<longleftrightarrow>
              page_is_free pm q \<or> (\<exists>e\<in>set mmap. usable e \<and> entry_first e \<le> q \<and> q < entry_end e)))"
proof (induction mmap arbitrary: pm)
  case Nil
  then show ?case by simp
next
  case (Cons e mmap)
  show ?case
  proof (cases "usable e \<and> n_pages pm < entry_end e")
    case True
    then show ?thesis using free_entry_cases [OF Cons.prems, of e] by auto
  next
    case False
    then obtain pm1 where pm1: "free_entry pm e = Some pm1" "n_pages pm1 = n_pages pm"
      "\<forall>q. page_is_free pm1 q \<longleftrightarrow>
         page_is_free pm q \<or> usable e \<and> entry_first e \<le> q \<and> q < entry_end e"
      using free_entry_cases [OF Cons.prems, of e] by auto
    then have "n_pages pm1 \<le> 2 ^ 20" using Cons.prems by simp
    from Cons.IH [OF this] pm1 False show ?thesis by (auto split: if_splits)
  qed
qed

text \<open>The outcome of the boot constructor, by whether it stays inside its bitmap.\<close>

lemma boot_allocator_cases:
  assumes "32 * length garbage \<le> 2 ^ 20"
  shows "case boot_allocator garbage mmap kernel_end of
      None \<Rightarrow> (\<exists>e\<in>set mmap. usable e \<and> 32 * length garbage < entry_end e)
              \<or> 32 * length garbage \<le> unat kernel_end div 4096
    | Some pm \<Rightarrow> n_pages pm = 32 * length garbage
        \<and> \<not> (\<exists>e\<in>set mmap. usable e \<and> 32 * length garbage < entry_end e)
        \<and> unat kernel_end div 4096 < 32 * length garbage
        \<and> (\<forall>q. page_is_free pm q \<longleftrightarrow> unat kernel_end div 4096 < q
             \<and> (chunk_bit garbage q
                \<or> (\<exists>e\<in>set mmap. usable e \<and> entry_first e \<le> q \<and> q < entry_end e)))"
proof -
  let ?pm = "\<lparr>free_pages = 0, bitmap = garbage\<rparr>"
  let ?k = "unat kernel_end div 4096"
  have n: "n_pages ?pm = 32 * length garbage" by (simp add: n_pages_def)
  have g: "page_is_free ?pm q \<longleftrightarrow> chunk_bit garbage q" for q
    by (simp add: page_is_free_chunk_bit)
  have "?k < 2 ^ 20"
    using unat_u32_less [of kernel_end] by (simp add: less_mult_imp_div_less)
  then have k: "unat (drop_bit 12 (kernel_end AND 0xFFFFF000) + 1) = Suc ?k"
    by (subst unat_succ_page) (simp_all add: page_number_low)
  show ?thesis
  proof (cases "free_entries ?pm mmap")
    case None
    then show ?thesis
      using free_entries_cases [of ?pm mmap] assms n
      by (auto simp: boot_allocator_def split: if_splits)
  next
    case (Some pm1)
    then have pm1: "\<not> (\<exists>e\<in>set mmap. usable e \<and> 32 * length garbage < entry_end e)"
      "n_pages pm1 = 32 * length garbage"
      "\<And>q. page_is_free pm1 q \<longleftrightarrow> chunk_bit garbage q
         \<or> (\<exists>e\<in>set mmap. usable e \<and> entry_first e \<le> q \<and> q < entry_end e)"
      using free_entries_cases [of ?pm mmap] assms n g by (auto split: if_splits)
    show ?thesis
    proof (cases "?k < 32 * length garbage")
      case True
      with assms pm1 take_range_Some [of 0 "Suc ?k" pm1] obtain pm'
        where "take_range pm1 0 (Suc ?k) = Some pm'" "n_pages pm' = n_pages pm1"
          "\<forall>q. page_is_free pm' q \<longleftrightarrow> page_is_free pm1 q \<and> \<not> q < Suc ?k"
        by auto
      with pm1 True Some k show ?thesis
        by (auto simp: boot_allocator_def Let_def)
    next
      case False
      with pm1 \<open>?k < 2 ^ 20\<close> have "take_range pm1 0 (Suc ?k) = None"
        by (intro take_range_None) auto
      with False Some k show ?thesis by (auto simp: boot_allocator_def Let_def)
    qed
  qed
qed

text \<open>
  Property C16: the boot constructor writes outside its bitmap exactly when the memory map has a
  usable region that ends beyond the last page of the bitmap, or when the kernel does (the bitmap
  of the kernel, 4096 chunks, covers 512 MiB). Otherwise a page is free afterwards exactly when it
  lies above the kernel and inside a usable region, or was already marked in the memory the
  constructor found, which it does not clear.
\<close>

theorem boot_allocator_correct:
  assumes "32 * length garbage \<le> 2 ^ 20"
  shows "case boot_allocator garbage mmap kernel_end of
      None \<Rightarrow> (\<exists>e\<in>set mmap. usable e \<and> 32 * length garbage < entry_end e)
              \<or> 32 * length garbage \<le> unat kernel_end div 4096
    | Some pm \<Rightarrow> n_pages pm = 32 * length garbage
        \<and> \<not> (\<exists>e\<in>set mmap. usable e \<and> 32 * length garbage < entry_end e)
        \<and> unat kernel_end div 4096 < 32 * length garbage
        \<and> (\<forall>q. page_is_free pm q \<longleftrightarrow> unat kernel_end div 4096 < q
             \<and> (chunk_bit garbage q
                \<or> (\<exists>e\<in>set mmap. usable e \<and> entry_first e \<le> q \<and> q < entry_end e)))"
  using assms by (rule boot_allocator_cases)

definition sample_region :: memory_map where
  "sample_region = \<lparr>mm_size = 20, base_addr_low = 0x2000, base_addr_high = 0,
     length_low = 0x4000, length_high = 0, mm_type = 1\<rparr>"

theorem boot_allocator_correct_witness:
  "case boot_allocator [0] [sample_region] 0x3000 of None \<Rightarrow> False
     | Some pm \<Rightarrow> page_is_free pm 4 \<and> \<not> page_is_free pm 3"
  using boot_allocator_correct [of "[0]" "[sample_region]" "0x3000"]
  by (simp add: sample_region_def usable_def entry_first_def entry_end_def
      MULTIBOOT_MEMORY_AVAILABLE_def split: option.splits)

end
