(* ===== verification/Page_Tables.thy ===== *)
theory Page_Tables
  imports Phys_Manager
begin

text \<open>
  The page table manager of \<open>kernel/memory/manager.cpp\<close>. It edits the two-level page tables of
  the processor it runs on: the directory through the virtual address \<open>PDVirtualAddress\<close>, the
  tables through the window at \<open>0xFFC00000\<close> that the recursive directory entry 1023 opens. So
  the model has the memory of the tables (one 32-bit entry per aligned physical address), and every
  access of the code goes through the translation of the i386 paging unit over those same tables;
  an access that would raise a page fault is \<^const>\<open>None\<close>.
\<close>

section \<open>The machine\<close>

(* src/include/kernel/memory/manager.hpp:50-59 PageTableManager *)
record vm =
  phys_manager :: pmm
  page_dir :: addr
  cr3 :: addr
  ram :: "addr \<Rightarrow> u32"

text \<open>
  32-bit paging with 4 MiB pages enabled (\<open>CR4.PSE\<close>, set in \<open>kernel/asm/boot.s\<close>): bit 0 of
  an entry is its present bit, bit 7 of a directory entry makes it a 4 MiB page.
\<close>

definition mmu_translate :: "vm \<Rightarrow> addr \<Rightarrow> addr option" where
  "mmu_translate s va =
     (let pde = ram s (page_base (cr3 s) + 4 * drop_bit 22 va)
      in if pde AND 1 = 0 then None
         else if pde AND 0x80 \<noteq> 0 then Some ((pde AND 0xFFC00000) + (va AND 0x3FFFFF))
         else let pte = ram s (page_base pde + 4 * (drop_bit 12 va AND 0x3FF))
              in if pte AND 1 = 0 then None else Some (page_base pte + (va AND 0xFFF)))"

definition vread :: "vm \<Rightarrow> addr \<Rightarrow> u32 option" where
  "vread s va = map_option (ram s) (mmu_translate s va)"

definition vwrite :: "vm \<Rightarrow> addr \<Rightarrow> u32 \<Rightarrow> vm option" where
  "vwrite s va v = map_option (\<lambda>pa. s\<lparr>ram := (ram s)(pa := v)\<rparr>) (mmu_translate s va)"

section \<open>The operations\<close>

(* src/include/kernel/memory/manager.hpp:25-25 kPageTableAddr *)
definition kPageTableAddr :: u32 where
  "kPageTableAddr = 0xFFC00000"

(* src/kernel/memory/manager.cpp:89-91 is_present *)
definition is_present :: "u32 \<Rightarrow> bool" where
  "is_present page_entry \<longleftrightarrow> page_entry AND 0x1 \<noteq> 0"

(* src/kernel/memory/manager.cpp:96-105 PageTableManager::PageTableManager *)
definition init_page_tables :: "vm \<Rightarrow> addr \<Rightarrow> addr \<Rightarrow> vm option" where
  "init_page_tables s VirtualAddress PhysicalAddress =
     (let s' = s\<lparr>page_dir := VirtualAddress\<rparr>;
          recursive_pde = PhysicalAddress OR 1 OR push_bit 1 1 OR push_bit 2 1 OR push_bit 5 1
      in vwrite s' (page_dir s' + 4 * 1023) recursive_pde)"

text \<open>The index is a \<open>uint16_t\<close>, promoted before the shift.\<close>

(* src/kernel/memory/manager.cpp:110-117 PageTableManager::GetFromVirtualAddress *)
definition get_from_virtual_address :: "u16 \<Rightarrow> addr" where
  "get_from_virtual_address page_index = kPageTableAddr OR push_bit 12 (ucast page_index)"

(* src/kernel/memory/manager.cpp:144-146 PageTableManager::MapPage *)
fun zero_table :: "vm \<Rightarrow> addr \<Rightarrow> nat \<Rightarrow> nat \<Rightarrow> vm option" where
  "zero_table s page_table i 0 = Some s"
| "zero_table s page_table i (Suc n) =
     Option.bind (vwrite s (page_table + 4 * of_nat i) 0)
       (\<lambda>s'. zero_table s' page_table (Suc i) n)"

text \<open>The first half of \<open>MapPage\<close>: a directory entry that is not present gets a table.\<close>

(* src/kernel/memory/manager.cpp:129-147 PageTableManager::MapPage *)
definition ensure_table :: "vm \<Rightarrow> u32 \<Rightarrow> vm option" where
  "ensure_table s pd_index = do {
     pde \<leftarrow> vread s (page_dir s + 4 * pd_index);
     if is_present pde then Some s
     else do {
       (pm, pde_phys_addr) \<leftarrow> allocate_page (phys_manager s);
       let pde = pde_phys_addr OR 1 OR push_bit 1 1 OR push_bit 2 1 OR push_bit 5 1;
       s \<leftarrow> vwrite (s\<lparr>phys_manager := pm\<rparr>) (page_dir s + 4 * pd_index) pde;
       zero_table s (get_from_virtual_address (ucast pd_index)) 0 1024
     }
   }"

text \<open>The second half: a table entry that is not present gets the frame.\<close>

(* src/kernel/memory/manager.cpp:149-162 PageTableManager::MapPage *)
definition set_entry :: "vm \<Rightarrow> u32 \<Rightarrow> u32 \<Rightarrow> addr \<Rightarrow> vm option" where
  "set_entry s pd_index pt_index physical_address = do {
     let page_table = get_from_virtual_address (ucast pd_index);
     pte \<leftarrow> vread s (page_table + 4 * pt_index);
     if is_present pte then Some s
     else do {
       (pm, pte_phys_addr) \<leftarrow>
          (if physical_address = 0 then allocate_page (phys_manager s)
           else Some (phys_manager s, physical_address));
       let pte_new = pte_phys_addr OR 1 OR push_bit 1 1 OR push_bit 2 1;
       vwrite (s\<lparr>phys_manager := pm\<rparr>) (page_table + 4 * pt_index) pte_new
     }
   }"

(* src/kernel/memory/manager.cpp:125-163 PageTableManager::MapPage *)
definition map_page :: "vm \<Rightarrow> addr \<Rightarrow> addr \<Rightarrow> vm option" where
  "map_page s virtual_address physical_address =
     (let pd_index = drop_bit 22 virtual_address;
          pt_index = drop_bit 12 virtual_address AND 0x03FF
      in Option.bind (ensure_table s pd_index) (\<lambda>s'. set_entry s' pd_index pt_index physical_address))"

section \<open>Where the windows lead\<close>

definition aligned :: "addr \<Rightarrow> bool" where
  "aligned f \<longleftrightarrow> page_base f = f"

lemma aligned_unat: "aligned f \<longleftrightarrow> 4096 dvd unat f"
  by (metis aligned_def dvd_div_mult_self dvd_triv_left mult.commute unat_page_base unat_eqI)

lemma aligned_page_base [simp]: "aligned (page_base a)"
  by (simp add: aligned_unat unat_page_base)

lemma unat_slot:
  assumes "aligned f" and "i < 1024"
  shows "unat (f + 4 * i) = unat f + 4 * unat i"
proof -
  have i: "unat i < 1024" using assms(2) by (simp add: word_less_nat_alt)
  from assms(1) obtain k where k: "unat f = 4096 * k" by (auto simp: aligned_unat)
  then have "k < 1048576" using unat_u32_less [of f] by simp
  then have "unat f + 4 * unat i < 4294967296" using i k by simp
  moreover have "unat (4 * i) = 4 * unat i" using i by (simp add: unat_word_ariths)
  ultimately show ?thesis by (simp add: unat_word_ariths)
qed

lemma slot_inject:
  assumes "aligned f" "aligned g" "i < 1024" "j < 1024"
  shows "f + 4 * i = g + 4 * j \<longleftrightarrow> f = g \<and> i = j"
proof
  assume eq: "f + 4 * i = g + 4 * j"
  have i: "unat i < 1024" and j: "unat j < 1024" using assms by (simp_all add: word_less_nat_alt)
  from assms(1) obtain k where k: "unat f = 4096 * k" by (auto simp: aligned_unat)
  from assms(2) obtain l where l: "unat g = 4096 * l" by (auto simp: aligned_unat)
  have sum: "4096 * k + 4 * unat i = 4096 * l + 4 * unat j"
    using eq assms k l by (metis unat_slot)
  moreover have "(4096 * k + 4 * unat i) div 4096 = k" and "(4096 * l + 4 * unat j) div 4096 = l"
    using i j by simp_all
  ultimately have "k = l" by metis
  with sum have "k = l \<and> unat i = unat j" by simp
  then show "f = g \<and> i = j" using k l by (simp add: word_unat_eq_iff)
qed simp

lemma slot_div_mod:
  assumes "aligned f" and "i < 1024"
  shows "unat (f + 4 * i) div 4096 = unat f div 4096"
    and "unat (f + 4 * i) mod 4096 = 4 * unat i"
proof -
  have i: "unat i < 1024" using assms(2) by (simp add: word_less_nat_alt)
  from assms(1) obtain k where k: "unat f = 4096 * k" by (auto simp: aligned_unat)
  show "unat (f + 4 * i) div 4096 = unat f div 4096"
    using i k by (simp add: unat_slot [OF assms])
  show "unat (f + 4 * i) mod 4096 = 4 * unat i"
    using i k by (simp add: unat_slot [OF assms])
qed

lemma slot_directory_index:
  assumes "aligned f" and "i < 1024"
  shows "drop_bit 22 (f + 4 * i) = drop_bit 22 f"
proof -
  have "x div 4194304 = x div 4096 div 1024" for x :: nat by (simp flip: div_mult2_eq)
  then have "unat (drop_bit 22 (f + 4 * i)) = unat (drop_bit 22 f)"
    using slot_div_mod [OF assms] by (simp add: unat_drop_bit)
  then show ?thesis by (rule unat_eqI)
qed

lemma slot_large_offset:
  assumes "aligned f" and "i < 1024"
  shows "(f + 4 * i) AND 0x3FFFFF = (f AND 0x3FFFFF) + 4 * i"
proof -
  have i: "unat i < 1024" using assms(2) by (simp add: word_less_nat_alt)
  have split: "x mod 4194304 = 4096 * (x div 4096 mod 1024) + x mod 4096" for x :: nat
    using mod_mult2_eq [of x 4096 1024] by simp
  have "4096 * (unat f div 4096 mod 1024) + 4096 \<le> 4194304"
    using mod_less_divisor [of 1024 "unat f div 4096"] by simp
  moreover have "unat f mod 4096 = 0" using assms(1) by (simp add: aligned_unat)
  ultimately have f: "unat (f AND 0x3FFFFF) + 4096 \<le> 4194304"
    and fd: "unat (f AND 0x3FFFFF) = 4096 * (unat f div 4096 mod 1024)"
    by (simp_all add: unat_and_low split)
  have "unat (4 * i) = 4 * unat i" using i by (simp add: unat_word_ariths)
  then have "unat ((f AND 0x3FFFFF) + 4 * i) = unat (f AND 0x3FFFFF) + 4 * unat i"
    using i f by (simp add: unat_word_ariths)
  also have "\<dots> = unat ((f + 4 * i) AND 0x3FFFFF)"
    using slot_div_mod [OF assms] fd by (simp add: unat_and_low split)
  finally show ?thesis by (rule unat_eqI [OF sym])
qed

text \<open>The window page of a table: page number 1023, then the directory index.\<close>

lemma unat_window:
  assumes "(i :: u32) < 1024"
  shows "unat (get_from_virtual_address (ucast i)) = 0xFFC00000 + 4096 * unat i"
proof -
  have i: "unat i < 1024" using assms by (simp add: word_less_nat_alt)
  have "ucast (ucast i :: u16) = i"
    using i by (intro unat_eqI) (simp add: unsigned_ucast_eq unat_take_bit)
  moreover have "kPageTableAddr OR push_bit 12 i = kPageTableAddr + push_bit 12 i"
  proof (rule disjunctive_add_eq_or [symmetric], rule bit_word_eqI)
    fix n assume "n < LENGTH(32)"
    have "\<not> bit i (n - 12)" if "22 \<le> n"
    proof -
      have "i = take_bit 10 i"
        using i by (intro unat_eqI) (simp add: unat_take_bit)
      then have "bit i (n - 12) = bit (take_bit 10 i) (n - 12)" by simp
      then show ?thesis using that by (auto simp: bit_take_bit_iff)
    qed
    moreover have "bit kPageTableAddr n \<longleftrightarrow> 22 \<le> n \<and> n < 32"
    proof -
      have eq: "kPageTableAddr = push_bit 22 (mask 10)"
        by (simp add: kPageTableAddr_def mask_eq_exp_minus_1 push_bit_eq_mult)
      show ?thesis unfolding eq by (auto simp: bit_push_bit_iff bit_mask_iff)
    qed
    ultimately show "bit (kPageTableAddr AND push_bit 12 i) n \<longleftrightarrow> bit (0 :: u32) n"
      by (auto simp: bit_simps)
  qed
  ultimately show ?thesis
    using i by (simp add: get_from_virtual_address_def kPageTableAddr_def push_bit_eq_mult
        unat_word_ariths)
qed

lemma window_aligned: "(i :: u32) < 1024 \<Longrightarrow> aligned (get_from_virtual_address (ucast i))"
  by (auto simp: aligned_unat unat_window intro!: dvd_add)

lemma window_indices:
  assumes "(i :: u32) < 1024" and "j < 1024"
  shows "drop_bit 22 (get_from_virtual_address (ucast i) + 4 * j) = 1023"
    and "drop_bit 12 (get_from_virtual_address (ucast i) + 4 * j) AND 0x3FF = i"
    and "(get_from_virtual_address (ucast i) + 4 * j) AND 0xFFF = 4 * j"
proof -
  have i: "unat i < 1024" and j: "unat j < 1024" using assms by (simp_all add: word_less_nat_alt)
  let ?a = "get_from_virtual_address (ucast i) + 4 * j"
  have a: "unat ?a = 0xFFC00000 + 4096 * unat i + 4 * unat j"
    using unat_slot [OF window_aligned [OF assms(1)] assms(2)] by (simp add: unat_window assms)
  have split: "unat ?a = 4096 * (1024 * 1023 + unat i) + 4 * unat j" unfolding a by simp
  have page: "unat ?a div 4096 = 1024 * 1023 + unat i" using j unfolding split by simp
  have "unat ?a div 4194304 = unat ?a div 4096 div 1024" by (simp flip: div_mult2_eq)
  also have "\<dots> = 1023" using i unfolding page by simp
  finally have "unat ?a div 4194304 = 1023" .
  then show "drop_bit 22 ?a = 1023" by (intro unat_eqI) (simp add: unat_drop_bit)
  have "unat ?a div 4096 mod 1024 = unat i" using i unfolding page by (simp only: mod_mult_self4 mod_less)
  then show "drop_bit 12 ?a AND 0x3FF = i"
    by (intro unat_eqI) (simp add: unat_and_low unat_drop_bit)
  have "unat (?a AND 0xFFF) = 4 * unat j"
    using slot_div_mod(2) [OF window_aligned assms(2)] assms(1) by (simp add: unat_and_low)
  moreover have "unat (4 * j) = 4 * unat j" using j by (simp add: unat_word_ariths)
  ultimately show "?a AND 0xFFF = 4 * j" by (intro unat_eqI) simp
qed

section \<open>The invariant\<close>

definition pde_at :: "vm \<Rightarrow> u32 \<Rightarrow> u32" where
  "pde_at s i = ram s (cr3 s + 4 * i)"

definition is_table :: "u32 \<Rightarrow> bool" where
  "is_table e \<longleftrightarrow> is_present e \<and> e AND 0x80 = 0"

text \<open>
  The two ways in: the directory is mapped where \<open>page_dir\<close> says, inside a 4 MiB page of the
  kernel, and its last entry points back at it.
\<close>

definition windows :: "vm \<Rightarrow> bool" where
  "windows s \<longleftrightarrow> aligned (cr3 s) \<and> aligned (page_dir s)
     \<and> is_table (pde_at s 1023) \<and> page_base (pde_at s 1023) = cr3 s
     \<and> drop_bit 22 (page_dir s) \<noteq> 1023
     \<and> is_present (pde_at s (drop_bit 22 (page_dir s)))
     \<and> pde_at s (drop_bit 22 (page_dir s)) AND 0x80 \<noteq> 0
     \<and> (pde_at s (drop_bit 22 (page_dir s)) AND 0xFFC00000) + (page_dir s AND 0x3FFFFF) = cr3 s"

text \<open>No two directory entries share a table, and no table is a frame that is still free.\<close>

definition vm_inv :: "vm \<Rightarrow> bool" where
  "vm_inv s \<longleftrightarrow> windows s \<and> pmm_ok (phys_manager s)
     \<and> (\<forall>i<1024. is_table (pde_at s i) \<longrightarrow> page_base (pde_at s i) \<notin> free_frames (phys_manager s))
     \<and> (\<forall>i<1024. \<forall>j<1024. is_table (pde_at s i) \<and> is_table (pde_at s j)
          \<and> page_base (pde_at s i) = page_base (pde_at s j) \<longrightarrow> i = j)"

lemma directory_index_less: "drop_bit 22 (va :: u32) < 1024"
proof -
  have "unat va div 4194304 < 1024" using unat_u32_less [of va] by (simp add: less_mult_imp_div_less)
  then show ?thesis by (simp add: word_less_nat_alt unat_drop_bit)
qed

lemma table_index_less: "(va :: u32) AND 0x3FF < 1024"
  by (simp add: word_less_nat_alt unat_and_low)

lemma mmu_translate_eq:
  assumes "aligned (cr3 s)"
  shows "mmu_translate s va =
     (let pde = pde_at s (drop_bit 22 va)
      in if \<not> is_present pde then None
         else if \<not> is_table pde then Some ((pde AND 0xFFC00000) + (va AND 0x3FFFFF))
         else let pte = ram s (page_base pde + 4 * (drop_bit 12 va AND 0x3FF))
              in if is_present pte then Some (page_base pte + (va AND 0xFFF)) else None)"
  using assms by (simp add: mmu_translate_def pde_at_def is_table_def is_present_def aligned_def Let_def)

lemma large_page_translate:
  assumes "aligned (cr3 s)" and "aligned dir" and "i < 1024"
    and "is_present (pde_at s (drop_bit 22 dir))" and "pde_at s (drop_bit 22 dir) AND 0x80 \<noteq> 0"
    and "(pde_at s (drop_bit 22 dir) AND 0xFFC00000) + (dir AND 0x3FFFFF) = cr3 s"
  shows "mmu_translate s (dir + 4 * i) = Some (cr3 s + 4 * i)"
  using assms
  by (simp add: mmu_translate_eq Let_def slot_directory_index slot_large_offset
      is_table_def flip: add.assoc)

lemma directory_translate:
  "windows s \<Longrightarrow> i < 1024 \<Longrightarrow> mmu_translate s (page_dir s + 4 * i) = Some (cr3 s + 4 * i)"
  by (simp add: windows_def large_page_translate)

lemma window_translate:
  assumes "windows s" and "i < 1024" and "j < 1024" and "is_present (pde_at s i)"
  shows "mmu_translate s (get_from_virtual_address (ucast i) + 4 * j) = Some (page_base (pde_at s i) + 4 * j)"
  using assms
  by (simp add: mmu_translate_eq windows_def Let_def window_indices is_table_def flip: pde_at_def)

lemma table_flags:
  assumes "aligned f"
  shows "is_table (f OR 1 OR push_bit 1 1 OR push_bit 2 1 OR push_bit 5 1)"
    and "page_base (f OR 1 OR push_bit 1 1 OR push_bit 2 1 OR push_bit 5 1) = f"
    and "is_present (f OR 1 OR push_bit 1 1 OR push_bit 2 1)"
    and "page_base (f OR 1 OR push_bit 1 1 OR push_bit 2 1) = f"
proof -
  have f: "f = f AND 0xFFFFF000" using assms by (simp add: aligned_def page_base_def)
  then have "f AND 0x80 = (f AND 0xFFFFF000) AND 0x80" by (rule arg_cong)
  also have "\<dots> = f AND (0xFFFFF000 AND 0x80)" by (rule and.assoc)
  finally have ps: "f AND 0x80 = 0" by simp
  have bit0: "(x OR 1) AND 1 \<noteq> (0 :: u32)" for x by (simp add: bit.conj_disj_distrib2)
  have eqs: "f OR 1 OR push_bit 1 1 OR push_bit 2 1 OR push_bit 5 1 = f OR 0x27"
    "f OR 1 OR push_bit 1 1 OR push_bit 2 1 = f OR 7"
    by (simp_all add: or.assoc push_bit_eq_mult)
  have odd: "(f OR 0x27) AND 1 \<noteq> 0" "(f OR 7) AND 1 \<noteq> 0"
    using bit0 [of "f OR 0x26"] bit0 [of "f OR 6"] by (simp_all add: or.assoc)
  have "(f OR 0x27) AND 0x80 = (f AND 0x80) OR (0x27 AND 0x80)" by (rule bit.conj_disj_distrib2)
  then show "is_table (f OR 1 OR push_bit 1 1 OR push_bit 2 1 OR push_bit 5 1)"
    unfolding eqs using odd ps by (simp add: is_table_def is_present_def)
  have "(f OR x) AND 0xFFFFF000 = (f AND 0xFFFFF000) OR (x AND 0xFFFFF000)" for x
    by (rule bit.conj_disj_distrib2)
  then have base: "(f OR x) AND 0xFFFFF000 = f OR (x AND 0xFFFFF000)" for x using f by metis
  show "page_base (f OR 1 OR push_bit 1 1 OR push_bit 2 1 OR push_bit 5 1) = f"
    unfolding eqs page_base_def base by simp
  show "is_present (f OR 1 OR push_bit 1 1 OR push_bit 2 1)"
    unfolding eqs using odd by (simp add: is_present_def)
  show "page_base (f OR 1 OR push_bit 1 1 OR push_bit 2 1) = f"
    unfolding eqs page_base_def base by simp
qed

lemma free_frames_aligned: "a \<in> free_frames pm \<Longrightarrow> aligned a"
  by (auto simp: free_frames_def aligned_unat push_bit_eq_mult unat_word_ariths
      intro!: dvd_mod)

section \<open>The first half: a table for the entry\<close>

lemma finite_free_frames: "finite (free_frames pm)"
  by (rule finite_subset [OF subset_UNIV finite])

lemma vread_directory:
  "windows s \<Longrightarrow> i < 1024 \<Longrightarrow> vread s (page_dir s + 4 * i) = Some (pde_at s i)"
  by (simp add: vread_def directory_translate pde_at_def)

lemma vwrite_directory:
  "windows s \<Longrightarrow> i < 1024 \<Longrightarrow>
     vwrite s (page_dir s + 4 * i) v = Some (s\<lparr>ram := (ram s)(cr3 s + 4 * i := v)\<rparr>)"
  by (simp add: vwrite_def directory_translate)

lemma windows_phys_manager [simp]: "windows (s\<lparr>phys_manager := pm\<rparr>) = windows s"
  by (simp add: windows_def pde_at_def)

lemma windows_cong:
  "windows s \<Longrightarrow> cr3 s' = cr3 s \<Longrightarrow> page_dir s' = page_dir s \<Longrightarrow>
     pde_at s' 1023 = pde_at s 1023 \<Longrightarrow>
     pde_at s' (drop_bit 22 (page_dir s)) = pde_at s (drop_bit 22 (page_dir s)) \<Longrightarrow> windows s'"
  by (simp add: windows_def)

lemma pde_at_update:
  assumes "aligned (cr3 s)" and "i < 1024" and "j < 1024"
  shows "pde_at (s\<lparr>ram := (ram s)(cr3 s + 4 * j := v)\<rparr>) i = (if i = j then v else pde_at s i)"
  using slot_inject [of "cr3 s" "cr3 s" i j] assms by (auto simp: pde_at_def)

lemma pde_at_other_frame:
  assumes "aligned (cr3 s)" "aligned f" "f \<noteq> cr3 s" "i < 1024"
    and "\<And>a. (\<forall>j<1024. a \<noteq> f + 4 * j) \<Longrightarrow> ram s' a = ram s a" and "cr3 s' = cr3 s"
  shows "pde_at s' i = pde_at s i"
  using assms by (auto simp: pde_at_def slot_inject)

lemma small_word_less: "k < 1024 \<Longrightarrow> (of_nat k :: u32) < 1024"
  by (simp add: word_less_nat_alt unat_of_nat)

lemma ex_interval_Suc:
  "(\<exists>j. k \<le> j \<and> j < k + Suc n \<and> P j) \<longleftrightarrow> P k \<or> (\<exists>j. Suc k \<le> j \<and> j < Suc k + n \<and> P j)"
proof -
  have "(k \<le> j \<and> j < k + Suc n \<and> P j) \<longleftrightarrow> j = k \<and> P k \<or> (Suc k \<le> j \<and> j < Suc k + n \<and> P j)" for j
    using interval_Suc [of k j n] by blast
  then show ?thesis by (simp only: ex_disj_distrib) blast
qed

text \<open>Through the window of directory entry \<open>i\<close>, the zeroing loop clears its table.\<close>

lemma zero_table_zeroes:
  assumes "windows s" and "i < 1024" and "is_table (pde_at s i)"
    and f: "page_base (pde_at s i) = f" and "f \<noteq> cr3 s" and "k + n \<le> 1024"
  shows "zero_table s (get_from_virtual_address (ucast i)) k n = Some
    (s\<lparr>ram := (\<lambda>a. if \<exists>j. k \<le> j \<and> j < k + n \<and> a = f + 4 * of_nat j then 0 else ram s a)\<rparr>)"
  using assms
proof (induction n arbitrary: s k)
  case 0
  have "(\<lambda>a. if \<exists>j. k \<le> j \<and> j < k + 0 \<and> a = f + 4 * of_nat j then 0 else ram s a) = ram s"
    by (rule ext) auto
  then show ?case by simp
next
  case (Suc n)
  have al: "aligned (cr3 s)" using Suc.prems(1) by (simp add: windows_def)
  have fa: "aligned f" using Suc.prems(4) by auto
  have k: "(of_nat k :: u32) < 1024" using Suc.prems(6) by (intro small_word_less) simp
  let ?s = "s\<lparr>ram := (ram s)(f + 4 * of_nat k := 0)\<rparr>"
  have w: "vwrite s (get_from_virtual_address (ucast i) + 4 * of_nat k) 0 = Some ?s"
    using Suc.prems k by (simp add: vwrite_def window_translate is_table_def)
  have pde: "pde_at ?s j = pde_at s j" if "j < 1024" for j
    using that al fa Suc.prems(5) k by (simp add: pde_at_def slot_inject)
  have "windows ?s"
    by (rule windows_cong [OF Suc.prems(1)]) (simp_all add: pde directory_index_less)
  from Suc.IH [OF this] Suc.prems pde
  have "zero_table ?s (get_from_virtual_address (ucast i)) (Suc k) n = Some
    (?s\<lparr>ram := (\<lambda>a. if \<exists>j. Suc k \<le> j \<and> j < Suc k + n \<and> a = f + 4 * of_nat j then 0 else ram ?s a)\<rparr>)"
    by simp
  moreover have "(\<lambda>a. if \<exists>j. Suc k \<le> j \<and> j < Suc k + n \<and> a = f + 4 * of_nat j then 0 else ram ?s a)
    = (\<lambda>a. if \<exists>j. k \<le> j \<and> j < k + Suc n \<and> a = f + 4 * of_nat j then 0 else ram s a)"
    unfolding ex_interval_Suc by (rule ext) auto
  ultimately show ?case using w by simp
qed

text \<open>Translations go through at most one entry of the directory and one of a table.\<close>

lemma translate_cong:
  assumes "aligned (cr3 s)" and "cr3 s' = cr3 s"
    and "pde_at s' (drop_bit 22 va) = pde_at s (drop_bit 22 va)"
    and "is_table (pde_at s (drop_bit 22 va)) \<Longrightarrow>
      ram s' (page_base (pde_at s (drop_bit 22 va)) + 4 * (drop_bit 12 va AND 0x3FF))
      = ram s (page_base (pde_at s (drop_bit 22 va)) + 4 * (drop_bit 12 va AND 0x3FF))"
  shows "mmu_translate s' va = mmu_translate s va"
  using assms by (simp add: mmu_translate_eq Let_def)

lemma table_frame_not_directory:
  assumes "vm_inv s" and "i < 1023" and "is_table (pde_at s i)"
  shows "page_base (pde_at s i) \<noteq> cr3 s"
proof
  assume eq: "page_base (pde_at s i) = cr3 s"
  have i: "i < 1024" using assms(2) by (simp add: word_less_nat_alt)
  have "is_table (pde_at s 1023)" "page_base (pde_at s 1023) = cr3 s"
    using assms(1) by (simp_all add: vm_inv_def windows_def)
  moreover have "(1023 :: u32) < 1024" by simp
  moreover have "\<forall>i<1024. \<forall>j<1024. is_table (pde_at s i) \<and> is_table (pde_at s j)
      \<and> page_base (pde_at s i) = page_base (pde_at s j) \<longrightarrow> i = j"
    using assms(1) by (simp add: vm_inv_def)
  ultimately have "i = 1023" using assms(3) i eq by metis
  with assms(2) show False by simp
qed


lemma directory_frame:
  assumes "vm_inv s" shows "is_table (pde_at s 1023)" "page_base (pde_at s 1023) = cr3 s"
    "aligned (cr3 s)" "windows s" "pmm_ok (phys_manager s)" "cr3 s \<notin> free_frames (phys_manager s)"
proof -
  show *: "is_table (pde_at s 1023)" "page_base (pde_at s 1023) = cr3 s"
    "aligned (cr3 s)" "windows s" "pmm_ok (phys_manager s)"
    using assms by (simp_all add: vm_inv_def windows_def)
  have "(1023 :: u32) < 1024" by simp
  moreover have "\<forall>i<1024. is_table (pde_at s i)
      \<longrightarrow> page_base (pde_at s i) \<notin> free_frames (phys_manager s)"
    using assms by (simp add: vm_inv_def)
  ultimately show "cr3 s \<notin> free_frames (phys_manager s)" using * by metis
qed

lemma directory_window_index:
  "vm_inv s \<Longrightarrow> is_present (pde_at s (drop_bit 22 (page_dir s)))
     \<and> \<not> is_table (pde_at s (drop_bit 22 (page_dir s)))"
  by (simp add: vm_inv_def windows_def is_table_def)

text \<open>
  The state after a new table with entry \<open>e\<close> and frame \<open>f\<close> went into directory slot \<open>i\<close>.
\<close>

definition with_table :: "vm \<Rightarrow> pmm \<Rightarrow> u32 \<Rightarrow> u32 \<Rightarrow> addr \<Rightarrow> vm" where
  "with_table s pm i e f = s\<lparr>phys_manager := pm,
     ram := (\<lambda>a. if \<exists>j<1024. a = f + 4 * of_nat j then 0 else ((ram s)(cr3 s + 4 * i := e)) a)\<rparr>"

lemma with_table_simps [simp]:
  "cr3 (with_table s pm i e f) = cr3 s" "page_dir (with_table s pm i e f) = page_dir s"
  "phys_manager (with_table s pm i e f) = pm"
  by (simp_all add: with_table_def)

lemma with_table_pde:
  assumes "aligned (cr3 s)" "aligned f" "f \<noteq> cr3 s" "i < 1024" "j < 1024"
  shows "pde_at (with_table s pm i e f) j = (if j = i then e else pde_at s j)"
proof -
  have "cr3 s + 4 * j \<noteq> f + 4 * of_nat k" if "k < 1024" for k
    using slot_inject [of "cr3 s" f j "of_nat k"] assms small_word_less [OF that] by auto
  moreover have "cr3 s + 4 * j = cr3 s + 4 * i \<longleftrightarrow> j = i"
    using slot_inject [of "cr3 s" "cr3 s" j i] assms by auto
  ultimately show ?thesis by (auto simp: pde_at_def with_table_def)
qed

lemma with_table_ram_table: "j < 1024 \<Longrightarrow> ram (with_table s pm i e f) (f + 4 * j) = 0"
proof -
  assume "j < 1024"
  then have "unat j < 1024" by (simp add: word_less_nat_alt)
  moreover have "f + 4 * j = f + 4 * of_nat (unat j)" by simp
  ultimately have "\<exists>k<1024. f + 4 * j = f + 4 * of_nat k" by blast
  then show ?thesis by (simp only: with_table_def) simp
qed

lemma with_table_ram_other:
  assumes "aligned (cr3 s)" "aligned f" "aligned g" "g \<noteq> f" "g \<noteq> cr3 s" "i < 1024" "j < 1024"
  shows "ram (with_table s pm i e f) (g + 4 * j) = ram s (g + 4 * j)"
proof -
  have "g + 4 * j \<noteq> f + 4 * of_nat k" if "k < 1024" for k
    using slot_inject [of g f j "of_nat k"] assms small_word_less [OF that] by auto
  moreover have "g + 4 * j \<noteq> cr3 s + 4 * i"
    using slot_inject [of g "cr3 s" j i] assms by auto
  ultimately show ?thesis by (auto simp: with_table_def)
qed

lemma with_table_inv:
  assumes inv: "vm_inv s" and i: "i < 1023" and new: "\<not> is_present (pde_at s i)"
    and e: "is_table e" "page_base e = f" and pm: "pmm_ok pm"
    and f: "f \<in> free_frames (phys_manager s)"
    and pmf: "free_frames pm = free_frames (phys_manager s) - {f}"
  shows "vm_inv (with_table s pm i e f)"
proof -
  have i': "i < 1024" "i \<noteq> 1023" using i by (auto simp: word_less_nat_alt)
  have fa: "aligned f" "f \<noteq> cr3 s"
    using f free_frames_aligned directory_frame [OF inv] by auto
  note pde = with_table_pde [OF directory_frame(3) [OF inv] fa i'(1)]
  have "drop_bit 22 (page_dir s) \<noteq> i" using new directory_window_index [OF inv] by auto
  then have win: "windows (with_table s pm i e f)"
    using i' by (intro windows_cong [OF directory_frame(4) [OF inv]])
      (simp_all add: pde directory_index_less)
  have frames: "page_base (pde_at s j) \<notin> free_frames (phys_manager s)"
    if "j < 1024" "is_table (pde_at s j)" for j
    using inv that by (simp add: vm_inv_def)
  have old_inject: "\<forall>j<1024. \<forall>k<1024. is_table (pde_at s j) \<and> is_table (pde_at s k)
      \<and> page_base (pde_at s j) = page_base (pde_at s k) \<longrightarrow> j = k"
    using inv by (simp add: vm_inv_def)
  let ?s = "with_table s pm i e f"
  have "page_base (pde_at ?s j) \<notin> free_frames pm" if "j < 1024" "is_table (pde_at ?s j)" for j
    using that frames [of j] pmf e by (cases "j = i") (simp_all add: pde)
  moreover have "j = k" if "j < 1024" "k < 1024" "is_table (pde_at ?s j)" "is_table (pde_at ?s k)"
      "page_base (pde_at ?s j) = page_base (pde_at ?s k)" for j k
    using that frames [of j] frames [of k] f e old_inject
    by (cases "j = i"; cases "k = i") (simp_all add: pde)
  ultimately show ?thesis
    using pm win by (simp add: vm_inv_def)
qed

lemma with_table_translate:
  assumes inv: "vm_inv s" and i: "i < 1023" and new: "\<not> is_present (pde_at s i)"
    and e: "is_table e" "page_base e = f"
    and f: "f \<in> free_frames (phys_manager s)" and va: "drop_bit 22 va \<noteq> 1023"
  shows "mmu_translate (with_table s pm i e f) va = mmu_translate s va"
proof -
  have i': "i < 1024" using i by (auto simp: word_less_nat_alt)
  have al: "aligned (cr3 s)" using directory_frame [OF inv] by simp
  have fa: "aligned f" "f \<noteq> cr3 s"
    using f free_frames_aligned directory_frame [OF inv] by auto
  note pde = with_table_pde [OF al fa i' directory_index_less]
  show ?thesis
  proof (cases "drop_bit 22 va = i")
    case True
    have "pde_at (with_table s pm i e f) i = e" using with_table_pde [OF al fa i' i'] by simp
    moreover have "is_present e" and "\<not> is_present 0"
      using e(1) by (simp_all add: is_table_def is_present_def)
    ultimately have "mmu_translate s va = None" and
      "mmu_translate (with_table s pm i e f) va = None"
      using new e True
      by (simp_all add: mmu_translate_eq al Let_def with_table_ram_table table_index_less)
    then show ?thesis by simp
  next
    case False
    show ?thesis
    proof (rule translate_cong [OF al])
      assume tab: "is_table (pde_at s (drop_bit 22 va))"
      then have "page_base (pde_at s (drop_bit 22 va)) \<notin> free_frames (phys_manager s)"
        using inv directory_index_less by (simp add: vm_inv_def)
      then have "page_base (pde_at s (drop_bit 22 va)) \<noteq> f" using f by auto
      moreover have "drop_bit 22 va < 1023"
        using va directory_index_less [of va] by (simp add: word_less_nat_alt word_unat_eq_iff)
      ultimately show "ram (with_table s pm i e f)
          (page_base (pde_at s (drop_bit 22 va)) + 4 * (drop_bit 12 va AND 0x3FF))
        = ram s (page_base (pde_at s (drop_bit 22 va)) + 4 * (drop_bit 12 va AND 0x3FF))"
        using table_frame_not_directory [OF inv _ tab] fa al i'
        by (intro with_table_ram_other) (simp_all add: table_index_less)
    qed (use False pde in simp_all)
  qed
qed

lemma ensure_table_present:
  "windows s \<Longrightarrow> i < 1024 \<Longrightarrow> is_present (pde_at s i) \<Longrightarrow> ensure_table s i = Some s"
  by (simp add: ensure_table_def vread_directory)

lemma ensure_table_new:
  assumes inv: "vm_inv s" and i: "i < 1023" and new: "\<not> is_present (pde_at s i)"
    and free: "free_frames (phys_manager s) \<noteq> {}"
  obtains pm e f where "ensure_table s i = Some (with_table s pm i e f)"
    and "is_table e" and "page_base e = f" and "pmm_ok pm" and "f \<in> free_frames (phys_manager s)"
    and "free_frames pm = free_frames (phys_manager s) - {f}"
proof -
  note dir = directory_frame [OF inv]
  have i': "i < 1024" "i \<noteq> 1023" using i by (auto simp: word_less_nat_alt)
  from frames.alloc_some [OF dir(5) free] obtain pm f where
    alloc: "allocate_page (phys_manager s) = Some (pm, f)" "pmm_ok pm"
    and f: "f \<in> free_frames (phys_manager s)"
    and pmf: "free_frames pm = free_frames (phys_manager s) - {f}" by blast
  have fa: "aligned f" "f \<noteq> cr3 s" using f free_frames_aligned dir by auto
  define e where "e = f OR 0x27"
  have "f OR 1 OR push_bit 1 1 OR push_bit 2 1 OR push_bit 5 1 = e"
    by (simp add: e_def or.assoc push_bit_eq_mult)
  with table_flags [OF fa(1)] have e: "is_table e" "page_base e = f" by simp_all
  let ?s1 = "s\<lparr>phys_manager := pm\<rparr>"
  let ?s2 = "?s1\<lparr>ram := (ram s)(cr3 s + 4 * i := e)\<rparr>"
  have pde: "pde_at ?s2 j = (if j = i then e else pde_at s j)" if "j < 1024" for j
    using slot_inject [of "cr3 s" "cr3 s" j i] that i' dir(3) by (auto simp: pde_at_def)
  have "drop_bit 22 (page_dir s) \<noteq> i" using new directory_window_index [OF inv] by auto
  then have win: "windows ?s2"
    using i' by (intro windows_cong [OF dir(4)]) (simp_all add: pde directory_index_less)
  have store: "vwrite ?s1 (page_dir s + 4 * i) e = Some ?s2"
    using vwrite_directory [of ?s1 i e] dir(4) i' by simp
  have zero: "zero_table ?s2 (get_from_virtual_address (ucast i)) 0 1024
     = Some (?s2\<lparr>ram := (\<lambda>a. if \<exists>j. 0 \<le> j \<and> j < 0 + 1024 \<and> a = f + 4 * of_nat j then 0 else ram ?s2 a)\<rparr>)"
    using win i' e fa pde [OF i'(1)] by (intro zero_table_zeroes) auto
  have "vread s (page_dir s + 4 * i) = Some (pde_at s i)"
    using dir(4) i' by (simp add: vread_directory)
  then have "ensure_table s i = zero_table ?s2 (get_from_virtual_address (ucast i)) 0 1024"
    using new alloc(1) store by (simp add: ensure_table_def Let_def flip: e_def)
  also have "\<dots> = Some (with_table s pm i e f)" unfolding zero by (simp add: with_table_def cong: if_cong)
  finally show thesis using e alloc(2) f pmf that by blast
qed

section \<open>The second half: the entry of the page\<close>

lemma set_entry_present:
  assumes "windows s" "i < 1024" "j < 1024" "is_table (pde_at s i)"
    and "is_present (ram s (page_base (pde_at s i) + 4 * j))"
  shows "set_entry s i j pa = Some s"
  using assms by (simp add: set_entry_def vread_def window_translate is_table_def)

definition with_entry :: "vm \<Rightarrow> pmm \<Rightarrow> addr \<Rightarrow> u32 \<Rightarrow> vm" where
  "with_entry s pm slot v = s\<lparr>phys_manager := pm, ram := (ram s)(slot := v)\<rparr>"

lemma set_entry_new:
  assumes inv: "vm_inv s" and ij: "i < 1024" "j < 1024" and tab: "is_table (pde_at s i)"
    and new: "\<not> is_present (ram s (page_base (pde_at s i) + 4 * j))"
    and free: "free_frames (phys_manager s) \<noteq> {}" and pa: "aligned pa"
  obtains pm v where "set_entry s i j pa = Some (with_entry s pm (page_base (pde_at s i) + 4 * j) v)"
    and "is_present v" and "pmm_ok pm"
    and "if pa \<noteq> 0 then page_base v = pa \<and> pm = phys_manager s
         else page_base v \<in> free_frames (phys_manager s)
           \<and> free_frames pm = free_frames (phys_manager s) - {page_base v}"
proof -
  note dir = directory_frame [OF inv]
  have load: "vread s (get_from_virtual_address (ucast i) + 4 * j)
      = Some (ram s (page_base (pde_at s i) + 4 * j))"
    using dir(4) ij tab by (simp add: vread_def window_translate is_table_def)
  have store: "vwrite (s\<lparr>phys_manager := pm\<rparr>) (get_from_virtual_address (ucast i) + 4 * j) v
      = Some (with_entry s pm (page_base (pde_at s i) + 4 * j) v)" for pm v
    using window_translate [of "s\<lparr>phys_manager := pm\<rparr>" i j] dir(4) ij tab
    by (simp add: vwrite_def with_entry_def is_table_def pde_at_def)
  show thesis
  proof (cases "pa = 0")
    case True
    from frames.alloc_some [OF dir(5) free] obtain pm f where
      alloc: "allocate_page (phys_manager s) = Some (pm, f)" "pmm_ok pm"
      and f: "f \<in> free_frames (phys_manager s)"
      and pmf: "free_frames pm = free_frames (phys_manager s) - {f}" by blast
    show thesis
      by (rule that [of pm "f OR 1 OR push_bit 1 1 OR push_bit 2 1"])
        (use True alloc f pmf load store new table_flags [OF free_frames_aligned [OF f]]
          in \<open>simp_all only: set_entry_def Let_def bind.bind_lunit if_True if_False simp_thms prod.case\<close>)
  next
    case False
    show thesis
      by (rule that [of "phys_manager s" "pa OR 1 OR push_bit 1 1 OR push_bit 2 1"])
        (use False dir(5) load store new table_flags [OF pa]
          in \<open>simp_all only: set_entry_def Let_def bind.bind_lunit if_True if_False simp_thms prod.case\<close>)
  qed
qed

lemma with_entry_simps [simp]:
  "cr3 (with_entry s pm a v) = cr3 s" "page_dir (with_entry s pm a v) = page_dir s"
  "phys_manager (with_entry s pm a v) = pm" "ram (with_entry s pm a v) = (ram s)(a := v)"
  by (simp_all add: with_entry_def)

lemma with_entry_inv:
  assumes inv: "vm_inv s" and i: "i < 1023" and j: "j < 1024" and tab: "is_table (pde_at s i)"
    and pm: "pmm_ok pm" "free_frames pm \<subseteq> free_frames (phys_manager s)"
  shows "vm_inv (with_entry s pm (page_base (pde_at s i) + 4 * j) v)"
    and "k < 1024 \<Longrightarrow> pde_at (with_entry s pm (page_base (pde_at s i) + 4 * j) v) k = pde_at s k"
proof -
  let ?s = "with_entry s pm (page_base (pde_at s i) + 4 * j) v"
  note dir = directory_frame [OF inv]
  have pde: "pde_at ?s k = pde_at s k" if "k < 1024" for k
    using slot_inject [of "cr3 s" "page_base (pde_at s i)" k j] that j dir(3)
      table_frame_not_directory [OF inv i tab] by (auto simp: pde_at_def)
  then show "k < 1024 \<Longrightarrow> pde_at ?s k = pde_at s k" .
  have "windows ?s"
    by (rule windows_cong [OF dir(4)]) (simp_all add: pde directory_index_less)
  then show "vm_inv ?s" using inv pm unfolding vm_inv_def by (simp add: pde) blast
qed

lemma same_page:
  assumes "drop_bit 22 va = drop_bit 22 (va' :: u32)"
    and "drop_bit 12 va AND 0x3FF = drop_bit 12 va' AND 0x3FF"
  shows "page_base va = page_base va'"
proof -
  have split: "unat x div 4096 = 1024 * (unat x div 4194304) + unat x div 4096 mod 1024" for x :: u32
    using div_mult2_eq [of "unat x" 4096 1024] by simp
  have "unat va div 4194304 = unat va' div 4194304"
    using arg_cong [OF assms(1), of unat] by (simp add: unat_drop_bit)
  moreover have "unat va div 4096 mod 1024 = unat va' div 4096 mod 1024"
    using arg_cong [OF assms(2), of unat] by (simp add: unat_drop_bit unat_and_low)
  ultimately have "unat va div 4096 = unat va' div 4096" using split by metis
  then show ?thesis by (intro unat_eqI) (simp add: unat_page_base)
qed

lemma with_entry_translate_other:
  assumes inv: "vm_inv s" and i: "drop_bit 22 va < 1023" and tab: "is_table (pde_at s (drop_bit 22 va))"
    and pm: "pmm_ok pm" "free_frames pm \<subseteq> free_frames (phys_manager s)"
    and va': "page_base va' \<noteq> page_base va"  "drop_bit 22 va' \<noteq> 1023"
  shows "mmu_translate (with_entry s pm
      (page_base (pde_at s (drop_bit 22 va)) + 4 * (drop_bit 12 va AND 0x3FF)) v) va'
    = mmu_translate s va'"
proof (rule translate_cong)
  show "aligned (cr3 s)" using directory_frame [OF inv] by simp
  show "pde_at (with_entry s pm
      (page_base (pde_at s (drop_bit 22 va)) + 4 * (drop_bit 12 va AND 0x3FF)) v) (drop_bit 22 va')
    = pde_at s (drop_bit 22 va')"
    by (rule with_entry_inv(2) [OF inv i table_index_less tab pm directory_index_less])
  assume tab': "is_table (pde_at s (drop_bit 22 va'))"
  have "\<forall>i<1024. \<forall>j<1024. is_table (pde_at s i) \<and> is_table (pde_at s j)
      \<and> page_base (pde_at s i) = page_base (pde_at s j) \<longrightarrow> i = j"
    using inv by (simp add: vm_inv_def)
  then have "page_base (pde_at s (drop_bit 22 va')) = page_base (pde_at s (drop_bit 22 va))
      \<Longrightarrow> drop_bit 22 va' = drop_bit 22 va"
    using tab tab' directory_index_less by blast
  then have "page_base (pde_at s (drop_bit 22 va')) + 4 * (drop_bit 12 va' AND 0x3FF)
      \<noteq> page_base (pde_at s (drop_bit 22 va)) + 4 * (drop_bit 12 va AND 0x3FF)"
    using slot_inject [OF aligned_page_base aligned_page_base table_index_less table_index_less]
      va'(1) same_page [of va' va] by blast
  then show "ram (with_entry s pm
      (page_base (pde_at s (drop_bit 22 va)) + 4 * (drop_bit 12 va AND 0x3FF)) v)
      (page_base (pde_at s (drop_bit 22 va')) + 4 * (drop_bit 12 va' AND 0x3FF))
    = ram s (page_base (pde_at s (drop_bit 22 va')) + 4 * (drop_bit 12 va' AND 0x3FF))"
    by simp
qed simp

section \<open>Mapping a page\<close>

text \<open>
  What a caller of \<open>MapPage\<close> gets, from state \<open>s\<close> to \<open>s'\<close>: the page is mapped, to the frame
  it had, to the one the caller named, or to one that was free; other pages outside the window of
  the tables translate as before; nothing that was taken became free.
\<close>

definition page_mapped :: "vm \<Rightarrow> addr \<Rightarrow> addr \<Rightarrow> vm \<Rightarrow> bool" where
  "page_mapped s va pa s' \<longleftrightarrow>
     (\<exists>fr. mmu_translate s' va = Some (fr + (va AND 0xFFF)) \<and> aligned fr
        \<and> (if mmu_translate s va \<noteq> None then mmu_translate s' va = mmu_translate s va
           else if pa \<noteq> 0 then fr = pa
           else fr \<in> free_frames (phys_manager s) \<and> fr \<notin> free_frames (phys_manager s')))
     \<and> (\<forall>va'. drop_bit 22 va' = 1023 \<or> page_base va' = page_base va
          \<or> mmu_translate s' va' = mmu_translate s va')
     \<and> free_frames (phys_manager s') \<subseteq> free_frames (phys_manager s)"

lemma page_mapped_after:
  assumes "page_mapped s1 va pa s'"
    and tr: "\<And>va'. drop_bit 22 va' = 1023 \<or> mmu_translate s1 va' = mmu_translate s va'"
    and va: "drop_bit 22 va \<noteq> 1023"
    and sub: "free_frames (phys_manager s1) \<subseteq> free_frames (phys_manager s)"
  shows "page_mapped s va pa s'"
proof -
  have va_same: "mmu_translate s1 va = mmu_translate s va" using tr [of va] va by blast
  have "\<forall>va'. drop_bit 22 va' = 1023 \<or> page_base va' = page_base va
      \<or> mmu_translate s' va' = mmu_translate s va'"
  proof
    fix va'
    show "drop_bit 22 va' = 1023 \<or> page_base va' = page_base va
        \<or> mmu_translate s' va' = mmu_translate s va'"
      using assms(1) tr [of va'] unfolding page_mapped_def by metis
  qed
  moreover obtain fr where fr: "mmu_translate s' va = Some (fr + (va AND 0xFFF))" "aligned fr"
    and cases: "if mmu_translate s1 va \<noteq> None then mmu_translate s' va = mmu_translate s1 va
           else if pa \<noteq> 0 then fr = pa
           else fr \<in> free_frames (phys_manager s1) \<and> fr \<notin> free_frames (phys_manager s')"
    using assms(1) unfolding page_mapped_def by blast
  moreover have "if mmu_translate s va \<noteq> None then mmu_translate s' va = mmu_translate s va
           else if pa \<noteq> 0 then fr = pa
           else fr \<in> free_frames (phys_manager s) \<and> fr \<notin> free_frames (phys_manager s')"
    using cases sub unfolding va_same by (cases "mmu_translate s va"; cases "pa = 0") auto
  moreover have "free_frames (phys_manager s') \<subseteq> free_frames (phys_manager s)"
    using assms(1) sub unfolding page_mapped_def by blast
  ultimately show ?thesis unfolding page_mapped_def by blast
qed

text \<open>At most \<open>n\<close> frames were used, and no directory entry but number \<open>i\<close> changed.\<close>

definition uses :: "vm \<Rightarrow> u32 \<Rightarrow> nat \<Rightarrow> vm \<Rightarrow> bool" where
  "uses s i n s' \<longleftrightarrow> card (free_frames (phys_manager s)) \<le> card (free_frames (phys_manager s')) + n
     \<and> is_table (pde_at s' i) \<and> (\<forall>j<1024. j = i \<or> pde_at s' j = pde_at s j)"

lemma card_less_one: "finite A \<Longrightarrow> B = A - {a} \<Longrightarrow> card A \<le> card B + 1"
  by (cases "a \<in> A") (auto simp: card_Suc_Diff1 Suc_leI card_Diff_singleton)

lemma uses_trans:
  assumes "uses s i m s'" and "uses s' i n s''"
  shows "uses s i (m + n) s''"
proof -
  have "\<forall>j<1024. j = i \<or> pde_at s'' j = pde_at s j"
    using assms unfolding uses_def by metis
  then show ?thesis using assms unfolding uses_def by auto
qed

lemma set_entry_maps:
  assumes inv: "vm_inv s" and i: "drop_bit 22 va < 1023"
    and tab: "is_table (pde_at s (drop_bit 22 va))"
    and free: "free_frames (phys_manager s) \<noteq> {}" and pa: "aligned pa"
  shows "\<exists>s'. set_entry s (drop_bit 22 va) (drop_bit 12 va AND 0x3FF) pa = Some s' \<and> vm_inv s'
    \<and> page_mapped s va pa s' \<and> uses s (drop_bit 22 va) 1 s'"
proof -
  let ?i = "drop_bit 22 va" and ?j = "drop_bit 12 va AND 0x3FF"
  let ?slot = "page_base (pde_at s ?i) + 4 * ?j"
  note dir = directory_frame [OF inv]
  have tr: "mmu_translate s va = (if is_present (ram s ?slot)
      then Some (page_base (ram s ?slot) + (va AND 0xFFF)) else None)"
    using tab dir(3) by (simp add: mmu_translate_eq Let_def is_table_def)
  show ?thesis
  proof (cases "is_present (ram s ?slot)")
    case True
    then have "set_entry s ?i ?j pa = Some s"
      using dir(4) tab directory_index_less table_index_less by (intro set_entry_present)
    moreover have "page_mapped s va pa s"
      using tr True by (auto simp: page_mapped_def)
    moreover have "uses s ?i 1 s" using tab by (simp add: uses_def)
    ultimately show ?thesis using inv by blast
  next
    case False
    obtain pm v where set: "set_entry s ?i ?j pa = Some (with_entry s pm ?slot v)"
      and v: "is_present v" and pm: "pmm_ok pm"
      and fr: "if pa \<noteq> 0 then page_base v = pa \<and> pm = phys_manager s
         else page_base v \<in> free_frames (phys_manager s)
           \<and> free_frames pm = free_frames (phys_manager s) - {page_base v}"
      by (rule set_entry_new [OF inv directory_index_less table_index_less tab False free pa]) blast
    have sub: "free_frames pm \<subseteq> free_frames (phys_manager s)"
      using fr by (auto split: if_splits)
    note keep = with_entry_inv [OF inv i table_index_less tab pm sub]
    have "pde_at (with_entry s pm ?slot v) ?i = pde_at s ?i"
      by (rule keep(2) [OF directory_index_less])
    then have "mmu_translate (with_entry s pm ?slot v) va = Some (page_base v + (va AND 0xFFF))"
      using tab dir(3) v by (simp add: mmu_translate_eq Let_def is_table_def)
    moreover have "page_base va' = page_base va \<or> drop_bit 22 va' = 1023
        \<or> mmu_translate (with_entry s pm ?slot v) va' = mmu_translate s va'" for va'
      using with_entry_translate_other [OF inv i tab pm sub] by blast
    ultimately have "page_mapped s va pa (with_entry s pm ?slot v)"
      using tr False fr sub unfolding page_mapped_def
      by (intro conjI exI [of _ "page_base v"]) (auto split: if_splits)
    moreover have "card (free_frames (phys_manager s)) \<le> card (free_frames pm) + 1"
      using fr card_less_one [OF finite_free_frames] by (cases "pa = 0") auto
    then have "uses s ?i 1 (with_entry s pm ?slot v)"
      using keep(2) tab directory_index_less by (simp add: uses_def)
    ultimately show ?thesis using set keep(1) by blast
  qed
qed

lemma map_page_maps:
  assumes inv: "vm_inv s" and i: "drop_bit 22 va \<noteq> 1023"
    and small: "\<not> is_present (pde_at s (drop_bit 22 va)) \<or> is_table (pde_at s (drop_bit 22 va))"
    and pa: "aligned pa"
    and f: "f \<in> free_frames (phys_manager s)" "g \<in> free_frames (phys_manager s)" "f \<noteq> g"
  shows "\<exists>s'. map_page s va pa = Some s' \<and> vm_inv s' \<and> page_mapped s va pa s'
    \<and> uses s (drop_bit 22 va) 2 s'"
proof -
  let ?i = "drop_bit 22 va"
  note dir = directory_frame [OF inv]
  have i': "?i < 1023"
    using i directory_index_less [of va] by (simp add: word_less_nat_alt word_unat_eq_iff)
  show ?thesis
  proof (cases "is_present (pde_at s ?i)")
    case True
    then have "ensure_table s ?i = Some s"
      using dir(4) directory_index_less by (intro ensure_table_present)
    moreover have "is_table (pde_at s ?i)" using True small by blast
    moreover have "free_frames (phys_manager s) \<noteq> {}" using f by auto
    moreover have "uses s ?i 1 s' \<Longrightarrow> uses s ?i 2 s'" for s' by (simp add: uses_def)
    ultimately show ?thesis
      using set_entry_maps [OF inv i' _ _ pa] unfolding map_page_def Let_def by fastforce
  next
    case False
    have "free_frames (phys_manager s) \<noteq> {}" using f by auto
    from ensure_table_new [OF inv i' False this] obtain pm e fr
      where et: "ensure_table s ?i = Some (with_table s pm ?i e fr)"
        and e: "is_table e" "page_base e = fr" and pm: "pmm_ok pm"
        and fr: "fr \<in> free_frames (phys_manager s)"
        and pmf: "free_frames pm = free_frames (phys_manager s) - {fr}" by blast
    let ?s1 = "with_table s pm ?i e fr"
    have inv1: "vm_inv ?s1" by (rule with_table_inv [OF inv i' False e pm fr pmf])
    have tr1: "drop_bit 22 va' = 1023 \<or> mmu_translate ?s1 va' = mmu_translate s va'" for va'
      using with_table_translate [OF inv i' False e fr] by blast
    have "fr \<noteq> cr3 s" using fr dir(6) by blast
    then have pde1: "pde_at ?s1 j = (if j = ?i then e else pde_at s j)" if "j < 1024" for j
      using with_table_pde [OF dir(3) free_frames_aligned [OF fr]] directory_index_less that by simp
    then have "pde_at ?s1 ?i = e" using directory_index_less by simp
    moreover have "free_frames (phys_manager ?s1) \<noteq> {}" using f pmf by auto
    ultimately obtain s' where s': "set_entry ?s1 ?i (drop_bit 12 va AND 0x3FF) pa = Some s'"
      "vm_inv s'" and mapped: "page_mapped ?s1 va pa s'"
      and used: "uses ?s1 ?i 1 s'"
      using set_entry_maps [OF inv1 i' _ _ pa] e by metis
    have "free_frames (phys_manager ?s1) \<subseteq> free_frames (phys_manager s)" using pmf by auto
    with mapped tr1 i have "page_mapped s va pa s'" by (rule page_mapped_after)
    moreover have "uses s ?i 1 ?s1"
      using pde1 e directory_index_less card_less_one [OF finite_free_frames pmf]
      by (simp add: uses_def)
    then have "uses s ?i 2 s'" using uses_trans [OF _ used] by (simp add: numeral_2_eq_2)
    ultimately show ?thesis using s' et by (auto simp: map_page_def Let_def)
  qed
qed

text \<open>
  Property C1: with two frames free, \<open>MapPage\<close> never faults; after it the virtual page translates
  to the requested frame (or to a frame that was free and no longer is, or, if it was mapped
  already, as before), every other page outside the window of the tables translates exactly as
  before, and the page tables are still well formed: no table shared, none in a free frame, the
  directory still reachable through both windows.
\<close>

theorem map_page_correct:
  assumes inv: "vm_inv s" and i: "drop_bit 22 va \<noteq> 1023"
    and small: "\<not> is_present (pde_at s (drop_bit 22 va)) \<or> is_table (pde_at s (drop_bit 22 va))"
    and pa: "aligned pa"
    and f: "f \<in> free_frames (phys_manager s)" "g \<in> free_frames (phys_manager s)" "f \<noteq> g"
  shows "\<exists>s'. map_page s va pa = Some s' \<and> vm_inv s' \<and> page_mapped s va pa s'"
  using map_page_maps [OF assms] by blast

section \<open>Boot\<close>

text \<open>
  The directory \<open>kernel/asm/boot.s\<close> leaves: mapped by a 4 MiB page of its own, and no entry
  of it is a table yet.
\<close>

definition boot_directory :: "vm \<Rightarrow> addr \<Rightarrow> bool" where
  "boot_directory s dir \<longleftrightarrow> aligned (cr3 s) \<and> aligned dir \<and> pmm_ok (phys_manager s)
     \<and> cr3 s \<notin> free_frames (phys_manager s)
     \<and> drop_bit 22 dir \<noteq> 1023 \<and> is_present (pde_at s (drop_bit 22 dir))
     \<and> pde_at s (drop_bit 22 dir) AND 0x80 \<noteq> 0
     \<and> (pde_at s (drop_bit 22 dir) AND 0xFFC00000) + (dir AND 0x3FFFFF) = cr3 s
     \<and> (\<forall>i<1023. \<not> is_table (pde_at s i))"

lemma init_page_tables_inv:
  assumes "boot_directory s dir"
  shows "\<exists>s'. init_page_tables s dir (cr3 s) = Some s' \<and> vm_inv s' \<and> page_dir s' = dir
    \<and> phys_manager s' = phys_manager s \<and> (\<forall>i<1023. pde_at s' i = pde_at s i)"
proof -
  note boot = assms [unfolded boot_directory_def]
  define e where "e = cr3 s OR 1 OR push_bit 1 1 OR push_bit 2 1 OR push_bit 5 1"
  define t where "t = s\<lparr>page_dir := dir, ram := (ram s)(cr3 s + 4 * 1023 := e)\<rparr>"
  have al: "aligned (cr3 s)" using boot by blast
  have flags: "is_table e" "page_base e = cr3 s" unfolding e_def using table_flags [OF al] by blast+
  have sel: "page_dir t = dir" "cr3 t = cr3 s" "phys_manager t = phys_manager s" by (simp_all add: t_def)
  have "mmu_translate (s\<lparr>page_dir := dir\<rparr>) (dir + 4 * 1023) = Some (cr3 s + 4 * 1023)"
    using boot large_page_translate [of "s\<lparr>page_dir := dir\<rparr>" dir 1023] by (simp add: pde_at_def)
  then have init: "init_page_tables s dir (cr3 s) = Some t"
    by (simp add: init_page_tables_def vwrite_def Let_def t_def e_def)
  have pde: "pde_at t i = (if i = 1023 then e else pde_at s i)" if "i < 1024" for i
    using slot_inject [of "cr3 s" "cr3 s" i 1023] that al by (auto simp: pde_at_def t_def)
  have less: "i < 1024 \<longleftrightarrow> i < 1023 \<or> i = (1023 :: u32)" for i
    by (auto simp: word_less_nat_alt word_unat_eq_iff)
  have none: "\<not> is_table (pde_at s i)" if "i < 1023" for i using boot that by blast
  have tables: "i = 1023" if "i < 1024" "is_table (pde_at t i)" for i
  proof (rule ccontr)
    assume "i \<noteq> 1023"
    then have "i < 1023" using that(1) less by blast
    then have "\<not> is_table (pde_at t i)"
      using none pde [OF that(1)] \<open>i \<noteq> 1023\<close> by metis
    then show False using that(2) by contradiction
  qed
  have e: "pde_at t 1023 = e" using pde [of 1023] by simp
  have d: "pde_at t (drop_bit 22 dir) = pde_at s (drop_bit 22 dir)"
    using pde [OF directory_index_less, of dir] boot by presburger
  have "windows t" unfolding windows_def sel e d using boot flags by blast
  moreover have "page_base (pde_at t i) \<notin> free_frames (phys_manager t)"
    if "i < 1024" "is_table (pde_at t i)" for i
    using tables [OF that] boot flags e sel by simp
  moreover have "i = j" if "i < 1024" "is_table (pde_at t i)" "j < 1024" "is_table (pde_at t j)" for i j
    using tables that by metis
  ultimately have "vm_inv t"
    using boot unfolding vm_inv_def sel by blast
  moreover have "\<forall>i<1023. pde_at t i = pde_at s i" using pde less by (metis less_irrefl)
  ultimately show ?thesis using init sel by (intro exI [of _ t]) simp
qed

text \<open>
  on the directory of the boot code, the constructor of the page table manager
  does not fault and establishes the invariant \<open>MapPage\<close> relies on and preserves.
\<close>

theorem init_page_tables_correct:
  assumes "boot_directory s dir"
  shows "\<exists>s'. init_page_tables s dir (cr3 s) = Some s' \<and> vm_inv s' \<and> page_dir s' = dir
    \<and> phys_manager s' = phys_manager s \<and> (\<forall>i<1023. pde_at s' i = pde_at s i)"
  using assms by (rule init_page_tables_inv)

text \<open>A machine with 32 free frames: pages 32 to 63.\<close>

definition sample_vm :: vm where
  "sample_vm = \<lparr>phys_manager = \<lparr>free_pages = 32, bitmap = [0, 0xFFFFFFFF]\<rparr>, page_dir = 0,
     cr3 = 0x101000, ram = (\<lambda>_. 0)(0x101C00 := 0x83)\<rparr>"

lemma sample_free_pages: "page_is_free (phys_manager sample_vm) p \<longleftrightarrow> 32 \<le> p \<and> p < 64"
proof -
  have all: "(0xFFFFFFFF :: u32) = - 1" by simp
  consider "p < 32" | "32 \<le> p" "p < 64" | "64 \<le> p" by linarith
  then show ?thesis
  proof cases
    case 1
    then show ?thesis by (simp add: sample_vm_def page_is_free_def n_pages_def)
  next
    case 2
    then have "p div 32 = 1" by linarith
    then show ?thesis using 2 by (simp add: sample_vm_def page_is_free_def n_pages_def all)
  next
    case 3
    then show ?thesis by (simp add: sample_vm_def page_is_free_def n_pages_def)
  qed
qed

lemma sample_frames: "free_frames (phys_manager sample_vm) = (\<lambda>p. push_bit 12 (of_nat p)) ` {32..<64}"
  by (auto simp: free_frames_def sample_free_pages)

lemma sample_frames_card: "card (free_frames (phys_manager sample_vm)) = 32"
proof -
  have "inj_on (\<lambda>p. push_bit 12 (of_nat p) :: u32) {32..<64}"
    by (rule inj_onI) (simp add: frame_inject)
  then show ?thesis unfolding sample_frames by (simp add: card_image)
qed

lemma sample_aligned: "aligned (cr3 sample_vm)"
  by (simp add: sample_vm_def aligned_def page_base_def)

lemma sample_pde: "i < 1024 \<Longrightarrow> pde_at sample_vm i = (if i = 768 then 0x83 else 0)"
  using slot_inject [of "0x101000" "0x101000" i 768] sample_aligned
  by (auto simp: pde_at_def sample_vm_def)

lemma sample_boot_directory: "boot_directory sample_vm 0xC0101000"
proof -
  note al = sample_aligned and pde = sample_pde
  have "\<not> is_table (pde_at sample_vm i)" if "i < 1023" for i
  proof -
    have "i < 1024" using that by (simp add: word_less_nat_alt)
    then show ?thesis by (simp add: pde is_table_def is_present_def)
  qed
  moreover have "pmm_ok (phys_manager sample_vm)"
    using sample_free_pages by (simp add: pmm_ok_def n_pages_def) (simp add: sample_vm_def)
  moreover have "cr3 sample_vm \<notin> free_frames (phys_manager sample_vm)"
  proof
    assume "cr3 sample_vm \<in> free_frames (phys_manager sample_vm)"
    then obtain p where p: "p < 64" "cr3 sample_vm = push_bit 12 (of_nat p)" unfolding sample_frames by auto
    have "push_bit 12 (of_nat 257) = (push_bit 12 (of_nat p) :: u32)"
      using p(2) by (simp add: sample_vm_def)
    then show False using p(1) frame_inject [of 257 p] by simp
  qed
  ultimately show ?thesis
    using al pde [of 768]
    by (simp add: boot_directory_def aligned_def page_base_def is_present_def)
      (simp add: sample_vm_def)
qed

theorem init_page_tables_correct_witness:
  "\<exists>s. init_page_tables sample_vm 0xC0101000 0x101000 = Some s \<and> vm_inv s"
  using init_page_tables_correct [OF sample_boot_directory] by (auto simp: sample_vm_def)

lemma sample_ready:
  obtains s where "vm_inv s" and "phys_manager s = phys_manager sample_vm"
    and "\<And>i. i < 1023 \<Longrightarrow> i \<noteq> 768 \<Longrightarrow> pde_at s i = 0"
proof -
  obtain s where s: "vm_inv s" "phys_manager s = phys_manager sample_vm"
    "\<forall>i<1023. pde_at s i = pde_at sample_vm i"
    using init_page_tables_inv [OF sample_boot_directory] by blast
  have "pde_at s i = 0" if i: "i < 1023" "i \<noteq> 768" for i
  proof -
    have "i < 1024" using i(1) by (simp add: word_less_nat_alt)
    then show ?thesis using s(3) i by (simp add: sample_pde)
  qed
  then show thesis using that [OF s(1,2)] by blast
qed

theorem map_page_correct_witness:
  "\<exists>s s'. map_page s 0xE0000123 0 = Some s' \<and> page_mapped s 0xE0000123 0 s'"
proof -
  obtain s where s: "vm_inv s" "phys_manager s = phys_manager sample_vm"
    and new: "\<And>i. i < 1023 \<Longrightarrow> i \<noteq> 768 \<Longrightarrow> pde_at s i = 0"
    using sample_ready by blast
  have frames: "push_bit 12 (of_nat p) \<in> free_frames (phys_manager s)" if "32 \<le> p" "p < 64" for p
    using that unfolding s(2) sample_frames by auto
  have "\<exists>s'. map_page s 0xE0000123 0 = Some s' \<and> vm_inv s' \<and> page_mapped s 0xE0000123 0 s'"
  proof (rule map_page_correct [OF s(1), where f = "push_bit 12 (of_nat 32)" and g = "push_bit 12 (of_nat 33)"])
    show "\<not> is_present (pde_at s (drop_bit 22 0xE0000123)) \<or> is_table (pde_at s (drop_bit 22 0xE0000123))"
      using new [of "drop_bit 22 0xE0000123"] by (simp add: is_present_def)
    show "push_bit 12 (of_nat 32) \<noteq> (push_bit 12 (of_nat 33) :: u32)" by simp
  qed (auto simp add: frames aligned_def page_base_def simp del: of_nat_numeral)
  then show ?thesis by blast
qed

section \<open>The mapper the heap uses\<close>

text \<open>
  The addresses of the kernel heap, \<open>0xE0000000\<close> to \<open>0xF0000000\<close>: none of their directory
  entries is a 4 MiB page, and \<open>MapPage\<close> keeps it that way.
\<close>

definition heap_region :: "addr \<Rightarrow> bool" where
  "heap_region a \<longleftrightarrow> 0xE0000000 \<le> a \<and> a < 0xF0000000"

definition vm_ready :: "vm \<Rightarrow> bool" where
  "vm_ready s \<longleftrightarrow> vm_inv s
     \<and> (\<forall>i. 896 \<le> i \<and> i < 960 \<longrightarrow> \<not> is_present (pde_at s i) \<or> is_table (pde_at s i))"

definition is_mapped :: "vm \<Rightarrow> addr \<Rightarrow> bool" where
  "is_mapped s a \<longleftrightarrow> mmu_translate s a \<noteq> None"

definition frames_left :: "vm \<Rightarrow> nat" where
  "frames_left s = card (free_frames (phys_manager s))"

lemma heap_region_index: "heap_region a \<Longrightarrow> 896 \<le> drop_bit 22 a \<and> drop_bit 22 a < 960"
  by (simp add: heap_region_def word_less_nat_alt word_le_nat_alt unat_drop_bit)
    (simp add: less_mult_imp_div_less div_le_mono [of 3758096384 _ 4194304, simplified])

lemma is_mapped_page: "page_base a = page_base b \<Longrightarrow> is_mapped s a = is_mapped s b"
proof -
  assume "page_base a = page_base b"
  then have eq: "unat a div 4096 = unat b div 4096" by (metis unat_page_base nat_mult_eq_cancel1 zero_less_numeral)
  have "drop_bit 12 a = drop_bit 12 b" by (rule unat_eqI) (simp add: unat_drop_bit eq)
  moreover have "drop_bit 22 a = drop_bit 22 b"
  proof -
    have "drop_bit 10 (drop_bit 12 a) = drop_bit 10 (drop_bit 12 b)" using \<open>drop_bit 12 a = _\<close> by simp
    then show ?thesis by (simp add: drop_bit_drop_bit)
  qed
  ultimately show ?thesis by (simp add: is_mapped_def mmu_translate_def Let_def)
qed

text \<open>Outside the heap every address leads where it led, and no frame became free.\<close>

definition same_elsewhere :: "vm \<Rightarrow> vm \<Rightarrow> bool" where
  "same_elsewhere s s' \<longleftrightarrow>
     (\<forall>a. \<not> heap_region a \<and> drop_bit 22 a \<noteq> 1023 \<longrightarrow> mmu_translate s' a = mmu_translate s a)
     \<and> free_frames (phys_manager s') \<subseteq> free_frames (phys_manager s)"

lemma heap_region_page: "page_base a = page_base b \<Longrightarrow> heap_region a = heap_region b"
proof -
  assume "page_base a = page_base b"
  then have eq: "unat a div 4096 = unat b div 4096" by (metis unat_page_base nat_mult_eq_cancel1 zero_less_numeral)
  have "heap_region c \<longleftrightarrow> 917504 \<le> unat c div 4096 \<and> unat c div 4096 < 983040" for c
    by (simp add: heap_region_def word_le_nat_alt word_less_nat_alt less_eq_div_iff_mult_less_eq div_less_iff_less_mult)
  then show ?thesis using eq by simp
qed

lemma page_mapped_elsewhere: "page_mapped s a pa s' \<Longrightarrow> heap_region a \<Longrightarrow> same_elsewhere s s'"
  unfolding page_mapped_def same_elsewhere_def using heap_region_page by metis

lemma aligned_0: "aligned 0"
  by (simp add: aligned_def page_base_def)

interpretation heap_pages: page_mapper "\<lambda>s a. map_page s a 0" is_mapped frames_left vm_ready heap_region same_elsewhere
proof unfold_locales
  fix s a
  assume ready: "vm_ready s" and a: "heap_region a" and room: "2 \<le> frames_left s"
  note idx = heap_region_index [OF a]
  obtain T where "T \<subseteq> free_frames (phys_manager s)" "card T = 2"
    using room obtain_subset_with_card_n unfolding frames_left_def by metis
  then obtain f g where fg: "f \<in> free_frames (phys_manager s)" "g \<in> free_frames (phys_manager s)" "f \<noteq> g"
    by (auto simp: card_2_iff)
  have small: "\<not> is_present (pde_at s (drop_bit 22 a)) \<or> is_table (pde_at s (drop_bit 22 a))"
    using ready idx unfolding vm_ready_def by blast
  have inv: "vm_inv s" and ne: "drop_bit 22 a \<noteq> 1023"
    using ready idx by (auto simp: vm_ready_def)
  obtain s' where s': "map_page s a 0 = Some s'" "vm_inv s'" "page_mapped s a 0 s'" "uses s (drop_bit 22 a) 2 s'"
    using map_page_maps [OF inv ne small aligned_0 fg] by blast
  have "\<not> is_present (pde_at s' i) \<or> is_table (pde_at s' i)" if i: "896 \<le> i \<and> i < 960" for i
  proof -
    have "i < 1024" using i by (simp add: word_less_nat_alt)
    then have "i = drop_bit 22 a \<and> is_table (pde_at s' i) \<or> pde_at s' i = pde_at s i"
      using s'(4) unfolding uses_def by blast
    then show ?thesis using ready i unfolding vm_ready_def by metis
  qed
  then have "vm_ready s'" using s'(2) by (simp add: vm_ready_def)
  moreover have a': "is_mapped s' a" using s'(3) by (auto simp: page_mapped_def is_mapped_def)
  moreover have "is_mapped s' b" if b: "heap_region b" "is_mapped s b" for b
  proof (cases "page_base b = page_base a")
    case True
    then show ?thesis using a' is_mapped_page by blast
  next
    case False
    have "drop_bit 22 b \<noteq> 1023" using heap_region_index [OF b(1)] by auto
    with False s'(3) have "mmu_translate s' b = mmu_translate s b" unfolding page_mapped_def by blast
    then show ?thesis using b(2) by (simp add: is_mapped_def)
  qed
  moreover have "frames_left s \<le> frames_left s' + 2"
    using s'(4) by (simp add: uses_def frames_left_def)
  ultimately show "\<exists>s'. map_page s a 0 = Some s' \<and> vm_ready s' \<and> is_mapped s' a
      \<and> frames_left s \<le> frames_left s' + 2 \<and> same_elsewhere s s'
      \<and> (\<forall>b. heap_region b \<and> is_mapped s b \<longrightarrow> is_mapped s' b)"
    using s'(1) page_mapped_elsewhere [OF s'(3) a] by blast
next
  show "same_elsewhere s s" for s by (simp add: same_elsewhere_def)
  show "same_elsewhere s s''" if "same_elsewhere s s'" "same_elsewhere s' s''" for s s' s''
    using that unfolding same_elsewhere_def by (metis order_trans)
qed (rule is_mapped_page)

end
