(* ===== verification/Kernel_Heap.thy ===== *)
theory Kernel_Heap
  imports Mem_Funcs Page_Tables
begin

text \<open>
  The kernel heap of \<open>kernel/memory/heap.cpp\<close>: an allocator that only grows. Every block
  starts with a 12-byte \<open>BlockHeader\<close> (a word with the \<open>in_use\<close> bit and the 31-bit total
  size, then the \<open>next\<close> and \<open>prev\<close> pointers), the blocks follow each other without gaps from
  \<open>kHeapStart\<close>, and the pages under them are mapped on demand. The contents of the heap are kept
  by virtual address, on top of the page tables that say which addresses may be accessed; an access
  to an address that is not mapped is \<^const>\<open>None\<close>, and so is a loop that does not end.
\<close>

section \<open>State and operations\<close>

(* src/include/kernel/memory/manager.hpp:18-18 kHeapStart *)
definition kHeapStart :: addr where
  "kHeapStart = 0xE0000000"

(* src/include/kernel/memory/manager.hpp:21-21 kPageSize *)
definition kPageSize :: u32 where
  "kPageSize = 4096"

text \<open>The two static variables of the file, with what they work on.\<close>

(* src/kernel/memory/heap.cpp:5-6 kheap_top *)
record heap =
  hvm :: vm
  bytes :: mem
  kheap_top :: addr
  kheap_start :: addr
  irq_on :: bool

definition accessible :: "heap \<Rightarrow> addr \<Rightarrow> nat \<Rightarrow> bool" where
  "accessible s p n \<longleftrightarrow> (\<forall>i<n. is_mapped (hvm s) (p + of_nat i))"

definition hload :: "heap \<Rightarrow> addr \<Rightarrow> u32 option" where
  "hload s p = (if accessible s p 4 then Some (load32 (bytes s) p) else None)"

definition hstore :: "heap \<Rightarrow> addr \<Rightarrow> u32 \<Rightarrow> heap option" where
  "hstore s p v = (if accessible s p 4 then Some (s\<lparr>bytes := store32 (bytes s) p v\<rparr>) else None)"

definition hmemset :: "heap \<Rightarrow> addr \<Rightarrow> u32 \<Rightarrow> heap option" where
  "hmemset s p n = (if accessible s p (unat n) then Some (s\<lparr>bytes := memset (bytes s) p 0 n\<rparr>) else None)"

text \<open>The fields of a header: \<open>in_use\<close> and \<open>size\<close> share the first word.\<close>

(* src/include/kernel/memory/heap.hpp:11-17 BlockHeader *)
definition header_size :: "heap \<Rightarrow> addr \<Rightarrow> u32 option" where
  "header_size s b = map_option (drop_bit 1) (hload s b)"

definition header_next :: "heap \<Rightarrow> addr \<Rightarrow> u32 option" where
  "header_next s b = hload s (b + 4)"

definition sizeof_BlockHeader :: u32 where
  "sizeof_BlockHeader = 12"

text \<open>Storing the size in a field of 31 bits drops its top bit, as the shift does.\<close>

(* src/include/kernel/memory/heap.hpp:18-22 BlockHeader::BlockHeader *)
definition new_header :: "heap \<Rightarrow> addr \<Rightarrow> u32 \<Rightarrow> addr \<Rightarrow> heap option" where
  "new_header s p sz prev = do {
     s \<leftarrow> hstore s p (1 OR push_bit 1 sz);
     s \<leftarrow> hstore s (p + 4) 0;
     hstore s (p + 8) prev
   }"

(* src/kernel/memory/heap.cpp:10-16 map_heap_pages *)
partial_function (option) map_heap_pages :: "addr \<Rightarrow> heap \<Rightarrow> heap option" where
  "map_heap_pages end_addr s =
     (if end_addr > kheap_top s then do {
        v \<leftarrow> map_page (hvm s) (kheap_top s) 0;
        s \<leftarrow> hmemset (s\<lparr>hvm := v\<rparr>) (kheap_top s) kPageSize;
        map_heap_pages end_addr (s\<lparr>kheap_top := kheap_top s + kPageSize\<rparr>)
      } else Some s)"

(* src/kernel/memory/heap.cpp:39-46 vmalloc *)
partial_function (option) last_block :: "heap \<Rightarrow> addr \<Rightarrow> addr option" where
  "last_block s found_block = do {
     n \<leftarrow> header_next s found_block;
     if n \<noteq> 0 \<and> found_block \<noteq> n then last_block s n else Some found_block
   }"

(* src/kernel/memory/heap.cpp:29-36 vmalloc *)
definition init_heap :: "heap \<Rightarrow> heap option" where
  "init_heap s =
     (if kheap_start s = 0 then do {
        v \<leftarrow> map_page (hvm s) kHeapStart 0;
        s \<leftarrow> hmemset (s\<lparr>hvm := v\<rparr>) kHeapStart kPageSize;
        Some (s\<lparr>kheap_start := kHeapStart, kheap_top := kHeapStart\<rparr>)
      } else Some s)"

(* src/kernel/memory/heap.cpp:18-65 vmalloc *)
definition vmalloc :: "heap \<Rightarrow> u32 \<Rightarrow> (heap \<times> addr) option" where
  "vmalloc s sz =
     (let s = s\<lparr>irq_on := False\<rparr> in
      if sz = 0 then Some (s, 0)
      else do {
        s \<leftarrow> init_heap s;
        found_block \<leftarrow> last_block s (kheap_start s);
        let sz = sz + sizeof_BlockHeader;
        found_size \<leftarrow> header_size s found_block;
        let end_of_block = found_block + found_size;
        s \<leftarrow> map_heap_pages (end_of_block + sz) s;
        s \<leftarrow> new_header s end_of_block sz found_block;
        s \<leftarrow> (if found_block \<noteq> 0 then hstore s (found_block + 4) end_of_block else Some s);
        Some (s\<lparr>irq_on := True\<rparr>, end_of_block + sizeof_BlockHeader)
      })"

(* src/kernel/memory/heap.cpp:67-69 kmalloc *)
definition kmalloc :: "heap \<Rightarrow> u32 \<Rightarrow> (heap \<times> addr) option" where
  "kmalloc s sz = vmalloc s sz"

(* src/kernel/memory/heap.cpp:71-75 kcalloc *)
definition kcalloc :: "heap \<Rightarrow> u32 \<Rightarrow> (heap \<times> addr) option" where
  "kcalloc s sz = do {
     (s, result) \<leftarrow> vmalloc s sz;
     s \<leftarrow> hmemset s result sz;
     Some (s, result)
   }"

(* src/kernel/memory/heap.cpp:77-83 kfree *)
definition kfree :: "heap \<Rightarrow> addr \<Rightarrow> heap" where
  "kfree s p = s"

(* src/kernel/memory/heap.cpp:85-87 malloc *)
definition malloc :: "heap \<Rightarrow> u32 \<Rightarrow> (heap \<times> addr) option" where
  "malloc s sz = vmalloc s sz"

(* src/kernel/memory/heap.cpp:89-91 realloc *)
definition realloc :: "heap \<Rightarrow> addr \<Rightarrow> u32 \<Rightarrow> (heap \<times> addr) option" where
  "realloc s p new_size = vmalloc s new_size"

(* src/kernel/memory/heap.cpp:93-97 calloc *)
definition calloc :: "heap \<Rightarrow> u32 \<Rightarrow> (heap \<times> addr) option" where
  "calloc s sz = do {
     (s, result) \<leftarrow> vmalloc s sz;
     s \<leftarrow> hmemset s result sz;
     Some (s, result)
   }"

(* src/kernel/memory/heap.cpp:99-101 calloc *)
definition calloc_n :: "heap \<Rightarrow> int \<Rightarrow> u32 \<Rightarrow> (heap \<times> addr) option" where
  "calloc_n s num sz = calloc s sz"

(* src/kernel/memory/heap.cpp:103-109 free *)
definition free :: "heap \<Rightarrow> addr \<Rightarrow> heap" where
  "free s p = s"

text \<open>\<open>operator new\<close> and \<open>operator new[]\<close>, \<open>operator delete\<close> and \<open>operator delete[]\<close>.\<close>

(* src/kernel/std.cpp:5-11 operator new *)
definition operator_new :: "heap \<Rightarrow> u32 \<Rightarrow> (heap \<times> addr) option" where
  "operator_new s sz = vmalloc s sz"

(* src/kernel/std.cpp:14-29 operator delete *)
definition operator_delete :: "heap \<Rightarrow> addr \<Rightarrow> heap" where
  "operator_delete s p = kfree s p"

section \<open>Mapping the pages of the heap\<close>

lemma page_offset:
  assumes "4096 dvd unat (t :: addr)" and "i < 4096"
  shows "unat (t + of_nat i) = unat t + i" and "page_base (t + of_nat i) = page_base t"
proof -
  from assms(1) obtain k where k: "unat t = 4096 * k" ..
  then have "k < 1048576" using unat_u32_less [of t] by simp
  then show u: "unat (t + of_nat i) = unat t + i"
    using k assms(2) by (simp add: unat_word_ariths unat_of_nat)
  have "unat (t + of_nat i) div 4096 = unat t div 4096" using u k assms(2) by simp
  then show "page_base (t + of_nat i) = page_base t"
    by (intro unat_eqI) (simp add: unat_page_base)
qed

lemma in_page:
  assumes "4096 dvd unat (t :: addr)"
  shows "in_region t 4096 a \<longleftrightarrow> unat t \<le> unat a \<and> unat a < unat t + 4096"
proof -
  from assms obtain k where k: "unat t = 4096 * k" ..
  then have "k < 1048576" using unat_u32_less [of t] by simp
  then have "unat t + 4096 \<le> 2 ^ 32" using k by simp
  from in_region_nat [OF this] show ?thesis by simp
qed

text \<open>One page more: it is mapped and zero, and nothing else changed.\<close>

lemma map_and_clear:
  assumes ready: "vm_ready (hvm s)" and al: "4096 dvd unat p" and p: "heap_region p"
    and room: "n + 2 \<le> frames_left (hvm s)"
  obtains v where "map_page (hvm s) p 0 = Some v"
    and "hmemset (s\<lparr>hvm := v\<rparr>) p kPageSize = Some (s\<lparr>hvm := v, bytes := memset (bytes s) p 0 kPageSize\<rparr>)"
    and "vm_ready v" and "n \<le> frames_left v"
    and "\<And>a. unat p \<le> unat a \<Longrightarrow> unat a < unat p + 4096 \<Longrightarrow> is_mapped v a"
    and "\<And>a. heap_region a \<Longrightarrow> is_mapped (hvm s) a \<Longrightarrow> is_mapped v a"
    and "same_elsewhere (hvm s) v"
proof -
  obtain v where v: "map_page (hvm s) p 0 = Some v" "vm_ready v" "n \<le> frames_left v"
    "\<And>b. page_base b = page_base p \<Longrightarrow> is_mapped v b"
    "\<And>b. heap_region b \<Longrightarrow> is_mapped (hvm s) b \<Longrightarrow> is_mapped v b" "same_elsewhere (hvm s) v"
    using heap_pages.map_obtain [OF ready p room] by metis
  have page: "is_mapped v (p + of_nat i)" if "i < 4096" for i
    by (rule v(4)) (rule page_offset(2) [OF al that])
  then have acc: "accessible (s\<lparr>hvm := v\<rparr>) p (unat kPageSize)"
    by (simp add: accessible_def kPageSize_def)
  have "is_mapped v a" if "unat p \<le> unat a" "unat a < unat p + 4096" for a
  proof -
    have "in_region p 4096 a" using that in_page [OF al] by simp
    then show ?thesis using page by (auto elim: in_region_obtain)
  qed
  then show thesis using that [OF v(1) _ v(2,3) _ v(5,6)] acc by (simp add: hmemset_def)
qed

lemma map_heap_pages_maps:
  assumes "vm_ready (hvm s)" and "4096 dvd unat (kheap_top s)"
    and "0xE0000000 \<le> unat (kheap_top s)" and "unat (kheap_top s) \<le> 0xF0000000"
    and "unat e \<le> unat (kheap_top s) + 4096 * n" and "unat e \<le> 0xF0000000"
    and "2 * n + r \<le> frames_left (hvm s)"
  shows "\<exists>v b t. map_heap_pages e s = Some (s\<lparr>hvm := v, bytes := b, kheap_top := t\<rparr>)
    \<and> vm_ready v \<and> 4096 dvd unat t \<and> unat t \<le> 0xF0000000
    \<and> unat e \<le> unat t \<and> unat (kheap_top s) \<le> unat t
    \<and> (\<forall>a. heap_region a \<and> is_mapped (hvm s) a \<longrightarrow> is_mapped v a)
    \<and> (\<forall>a. unat (kheap_top s) \<le> unat a \<and> unat a < unat t \<longrightarrow> is_mapped v a \<and> b a = 0)
    \<and> (\<forall>a. unat a < unat (kheap_top s) \<longrightarrow> b a = bytes s a) \<and> same_elsewhere (hvm s) v \<and> r \<le> frames_left v"
  using assms
proof (induction n arbitrary: s)
  case 0
  then have "\<not> kheap_top s < e" by (simp add: word_less_nat_alt)
  then show ?case using 0 heap_pages.kept_refl
    by (subst map_heap_pages.simps) (auto intro!: exI [of _ "hvm s"] exI [of _ "bytes s"] exI [of _ "kheap_top s"])
next
  case (Suc n)
  let ?p = "kheap_top s"
  show ?case
  proof (cases "?p < e")
    case False
    then have "unat e \<le> unat ?p" by (simp add: word_less_nat_alt)
    with False Suc.prems heap_pages.kept_refl show ?thesis
      by (subst map_heap_pages.simps) (auto intro!: exI [of _ "hvm s"] exI [of _ "bytes s"] exI [of _ "kheap_top s"])
  next
    case True
    then have below: "unat ?p < unat e" by (simp add: word_less_nat_alt)
    then have p: "heap_region ?p"
      using Suc.prems by (simp add: heap_region_def word_le_nat_alt word_less_nat_alt)
    obtain v where v: "map_page (hvm s) ?p 0 = Some v"
      "hmemset (s\<lparr>hvm := v\<rparr>) ?p kPageSize = Some (s\<lparr>hvm := v, bytes := memset (bytes s) ?p 0 kPageSize\<rparr>)"
      "vm_ready v" "2 * n + r \<le> frames_left v" "same_elsewhere (hvm s) v"
      and page: "\<And>a. unat ?p \<le> unat a \<Longrightarrow> unat a < unat ?p + 4096 \<Longrightarrow> is_mapped v a"
      and old: "\<And>a. heap_region a \<Longrightarrow> is_mapped (hvm s) a \<Longrightarrow> is_mapped v a"
      using Suc.prems(7) by (auto intro: map_and_clear [OF Suc.prems(1,2) p, of "2 * n + r"])
    let ?s = "s\<lparr>hvm := v, bytes := memset (bytes s) ?p 0 kPageSize, kheap_top := ?p + kPageSize\<rparr>"
    from Suc.prems(2) obtain k where k: "unat ?p = 4096 * k" ..
    have "k < 983040" using below Suc.prems(6) unfolding k by linarith
    then have top: "unat (?p + kPageSize) = unat ?p + 4096"
      using k by (simp add: unat_word_ariths kPageSize_def)
    have "unat ?p + 4096 \<le> 0xF0000000" using k \<open>k < 983040\<close> by simp
    moreover have "4096 dvd unat (?p + kPageSize)" unfolding top using Suc.prems(2) by simp
    ultimately obtain v' b t where IH: "map_heap_pages e ?s = Some (?s\<lparr>hvm := v', bytes := b, kheap_top := t\<rparr>)"
      "vm_ready v'" "4096 dvd unat t" "unat t \<le> 0xF0000000" "unat e \<le> unat t" "unat ?p + 4096 \<le> unat t"
      "same_elsewhere v v'" "r \<le> frames_left v'"
      and kept: "\<And>a. heap_region a \<Longrightarrow> is_mapped v a \<Longrightarrow> is_mapped v' a"
      and new: "\<And>a. unat ?p + 4096 \<le> unat a \<Longrightarrow> unat a < unat t \<Longrightarrow> is_mapped v' a \<and> b a = 0"
      and same: "\<And>a. unat a < unat ?p + 4096 \<Longrightarrow> b a = memset (bytes s) ?p 0 kPageSize a"
      using Suc.IH [of ?s] Suc.prems v(3,4) top by auto
    have cleared: "memset (bytes s) ?p 0 kPageSize a
        = (if unat ?p \<le> unat a \<and> unat a < unat ?p + 4096 then 0 else bytes s a)" for a
      using in_page [OF Suc.prems(2), of a] by (simp add: memset_eq kPageSize_def)
    have "map_heap_pages e s = Some (s\<lparr>hvm := v', bytes := b, kheap_top := t\<rparr>)"
      using True v(1,2) IH(1) by (subst map_heap_pages.simps) simp
    moreover have "is_mapped v' a \<and> b a = 0" if a: "unat ?p \<le> unat a" "unat a < unat t" for a
    proof (cases "unat a < unat ?p + 4096")
      case True
      have "heap_region a" using a Suc.prems(3) IH(4) by (simp add: heap_region_def word_le_nat_alt word_less_nat_alt)
      then have "is_mapped v' a" using page [OF a(1) True] kept by blast
      then show ?thesis using same [OF True] a True by (simp add: cleared)
    next
      case False
      then show ?thesis using new a by simp
    qed
    moreover have "b a = bytes s a" if "unat a < unat ?p" for a
      using same [of a] that by (simp add: cleared)
    moreover have "is_mapped v' a" if "heap_region a" "is_mapped (hvm s) a" for a
      using old kept that by blast
    moreover have "same_elsewhere (hvm s) v'" using heap_pages.kept_trans [OF v(5) IH(7)] .
    ultimately show ?thesis using IH by (intro exI [of _ v'] exI [of _ b] exI [of _ t]) simp
  qed
qed

section \<open>The chain of blocks\<close>

text \<open>
  \<open>szs\<close> are the total sizes of the blocks, in the order they were allocated; block \<open>i\<close> starts
  where block \<open>i - 1\<close> ends.
\<close>

definition block_at :: "nat list \<Rightarrow> nat \<Rightarrow> nat" where
  "block_at szs i = 0xE0000000 + sum_list (take i szs)"

definition heap_end :: "nat list \<Rightarrow> nat" where
  "heap_end szs = block_at szs (length szs)"

definition next_of :: "nat list \<Rightarrow> nat \<Rightarrow> addr" where
  "next_of szs i = (if Suc i < length szs then of_nat (block_at szs (Suc i))
     else if i = 0 then kHeapStart else 0)"

definition header_ok :: "mem \<Rightarrow> nat list \<Rightarrow> nat \<Rightarrow> bool" where
  "header_ok m szs i \<longleftrightarrow>
     load32 m (of_nat (block_at szs i)) = 1 OR push_bit 1 (of_nat (szs ! i))
   \<and> load32 m (of_nat (block_at szs i + 4)) = next_of szs i
   \<and> load32 m (of_nat (block_at szs i + 8)) = of_nat (block_at szs (i - 1))"

text \<open>The invariant between calls; \<open>heap_core\<close> is the part that holds inside one as well.\<close>

definition heap_core :: "heap \<Rightarrow> nat list \<Rightarrow> bool" where
  "heap_core s szs \<longleftrightarrow> vm_ready (hvm s) \<and> (\<forall>z\<in>set szs. 12 \<le> z)
     \<and> 4096 dvd unat (kheap_top s) \<and> heap_end szs \<le> unat (kheap_top s) \<and> unat (kheap_top s) \<le> 0xF0000000
     \<and> (\<forall>a. 0xE0000000 \<le> unat a \<and> unat a < unat (kheap_top s) \<longrightarrow> is_mapped (hvm s) a)
     \<and> (\<forall>a. heap_end szs \<le> unat a \<and> unat a < unat (kheap_top s) \<longrightarrow> bytes s a = 0)
     \<and> (\<forall>i<length szs. header_ok (bytes s) szs i)"

definition heap_inv :: "heap \<Rightarrow> nat list \<Rightarrow> bool" where
  "heap_inv s szs \<longleftrightarrow> heap_core s szs \<and> kheap_start s = (if szs = [] then 0 else kHeapStart)
     \<and> (szs = [] \<longrightarrow> kheap_top s = kHeapStart)"

lemma block_at_0 [simp]: "block_at szs 0 = 0xE0000000"
  by (simp add: block_at_def)

lemma block_at_Suc: "i < length szs \<Longrightarrow> block_at szs (Suc i) = block_at szs i + szs ! i"
  by (simp add: block_at_def take_Suc_conv_app_nth)

lemma block_at_append [simp]: "i \<le> length szs \<Longrightarrow> block_at (szs @ zs) i = block_at szs i"
  by (simp add: block_at_def)

lemma heap_end_append [simp]: "heap_end (szs @ [z]) = heap_end szs + z"
  by (simp add: heap_end_def block_at_def)

lemma heap_end_Nil [simp]: "heap_end [] = 0xE0000000"
  by (simp add: heap_end_def)

lemma block_at_mono: "i \<le> j \<Longrightarrow> block_at szs i \<le> block_at szs j"
  by (simp add: block_at_def) (metis le_add1 le_add_diff_inverse sum_list_append take_add)

lemma block_at_le_end: "block_at szs i \<le> heap_end szs"
  by (cases "i \<le> length szs") (simp_all add: heap_end_def block_at_mono, simp add: block_at_def)

lemma block_at_step:
  assumes "\<forall>z\<in>set szs. 12 \<le> z" and "i < j" and "j \<le> length szs"
  shows "block_at szs i + 12 \<le> block_at szs j"
proof -
  have "block_at szs i + 12 \<le> block_at szs (Suc i)" using assms by (simp add: block_at_Suc)
  also have "\<dots> \<le> block_at szs j" using assms(2) by (intro block_at_mono) simp
  finally show ?thesis .
qed

lemma block_at_ge: "0xE0000000 \<le> block_at szs i"
  by (simp add: block_at_def)

lemma heap_core_acc:
  assumes "heap_core s szs" and "0xE0000000 \<le> p" and "p + n \<le> unat (kheap_top s)"
  shows "accessible s (of_nat p) n"
proof -
  have "is_mapped (hvm s) (of_nat p + of_nat i)" if "i < n" for i
  proof -
    have top: "unat (kheap_top s) \<le> 0xF0000000" using assms(1) unfolding heap_core_def by blast
    then have "unat (of_nat p + of_nat i :: addr) = p + i"
      using that assms(3) by (simp add: unat_of_nat flip: of_nat_add)
    then show ?thesis using assms that unfolding heap_core_def by simp
  qed
  then show ?thesis by (simp add: accessible_def)
qed

lemma header_accessible:
  assumes "heap_core s szs" and "i < length szs" and "k \<le> 8"
  shows "accessible s (of_nat (block_at szs i + k)) 4"
proof (rule heap_core_acc [OF assms(1)])
  show "0xE0000000 \<le> block_at szs i + k" using block_at_ge [of szs i] by simp
  have "block_at szs i + 12 \<le> heap_end szs"
    using assms block_at_step [of szs i "length szs"] unfolding heap_end_def heap_core_def by blast
  then show "block_at szs i + k + 4 \<le> unat (kheap_top s)"
    using assms unfolding heap_core_def by linarith
qed

section \<open>Finding the last block\<close>

text \<open>The loop follows the chain to its end.\<close>

lemma block_at_unat:
  assumes "heap_core s szs"
  shows "unat (of_nat (block_at szs i) :: addr) = block_at szs i"
proof -
  have "block_at szs i \<le> 0xF0000000"
    using assms block_at_le_end [of szs i] unfolding heap_core_def by linarith
  then show ?thesis by (simp add: unat_of_nat)
qed

lemma last_block_finds:
  assumes core: "heap_core s szs" and i: "i < length szs"
  shows "last_block s (of_nat (block_at szs i)) = Some (of_nat (block_at szs (length szs - 1)))"
  using i
proof (induction "length szs - i" arbitrary: i)
  case 0
  then show ?case by simp
next
  case (Suc n)
  have ok: "header_ok (bytes s) szs i" using core Suc.prems unfolding heap_core_def by blast
  have "header_next s (of_nat (block_at szs i)) = Some (next_of szs i)"
    using ok header_accessible [OF core Suc.prems, of 4]
    by (simp add: header_next_def hload_def header_ok_def)
  then have step: "last_block s (of_nat (block_at szs i))
      = (if next_of szs i \<noteq> 0 \<and> of_nat (block_at szs i) \<noteq> next_of szs i
         then last_block s (next_of szs i) else Some (of_nat (block_at szs i)))"
    by (subst last_block.simps) simp
  show ?case
  proof (cases "Suc i < length szs")
    case False
    then have "i = length szs - 1" using Suc.prems by simp
    moreover have "next_of szs i = 0 \<or> of_nat (block_at szs i) = next_of szs i"
      using False by (simp add: next_of_def kHeapStart_def)
    ultimately show ?thesis unfolding step by auto
  next
    case True
    have "block_at szs i < block_at szs (Suc i)"
      using core Suc.prems block_at_step [of szs i "Suc i"] unfolding heap_core_def by fastforce
    then have "of_nat (block_at szs i) \<noteq> (of_nat (block_at szs (Suc i)) :: addr)"
      using block_at_unat [OF core] by (metis less_irrefl)
    moreover have "(of_nat (block_at szs (Suc i)) :: addr) \<noteq> 0"
      using block_at_unat [OF core, of "Suc i"] block_at_ge [of szs "Suc i"] by auto
    ultimately have "last_block s (of_nat (block_at szs i)) = last_block s (of_nat (block_at szs (Suc i)))"
      using True unfolding step by (simp add: next_of_def)
    then show ?thesis using Suc.hyps(1) [of "Suc i"] Suc.hyps(2) True by simp
  qed
qed

section \<open>Allocating a block\<close>

lemma header_ok_cong:
  assumes "heap_core s szs" and "i < length szs" and "header_ok m szs i"
    and "\<And>a. unat a < heap_end szs \<Longrightarrow> m' a = m a"
  shows "header_ok m' szs i"
proof -
  have "block_at szs i + 12 \<le> heap_end szs" "heap_end szs \<le> 0xF0000000"
    using assms block_at_step [of szs i "length szs"] unfolding heap_core_def heap_end_def by auto
  then have "load32 m' (of_nat (block_at szs i + k)) = load32 m (of_nat (block_at szs i + k))"
    if "k \<le> 8" for k
    using that assms(4) by (intro load32_cong) (auto simp: in_region_nat simp del: of_nat_add)
  from this [of 0] this [of 4] this [of 8] assms(3) show ?thesis
    unfolding header_ok_def by simp
qed

lemma size_field:
  assumes "unat (w :: u32) < 2 ^ 31"
  shows "drop_bit 1 (1 OR push_bit 1 w) = w"
proof (rule bit_word_eqI)
  fix n assume n: "n < LENGTH(32)"
  have "unat w div 2 ^ 31 = 0" using assms by (rule div_less)
  then have "\<not> bit (unat w) 31" unfolding bit_iff_odd by presburger
  then have "\<not> bit w 31" by (simp add: bit_unsigned_iff)
  then show "bit (drop_bit 1 (1 OR push_bit 1 w)) n = bit w n"
    unfolding bit_drop_bit_eq comp_def bit_or_iff bit_push_bit_iff
    using n by (cases "n = 31") (auto simp: bit_1_iff)
qed

text \<open>The first page, and the block the new one is put behind.\<close>

definition at_last_block :: "heap \<Rightarrow> nat list \<Rightarrow> bool" where
  "at_last_block s szs \<longleftrightarrow> heap_core s szs \<and> kheap_start s = kHeapStart
     \<and> last_block s kHeapStart = Some (of_nat (block_at szs (length szs - 1)))
     \<and> (\<exists>z. header_size s (of_nat (block_at szs (length szs - 1))) = Some z
         \<and> of_nat (block_at szs (length szs - 1)) + z = of_nat (heap_end szs))"

lemma first_page_last_block:
  assumes core: "heap_core s []" and start: "kheap_start s = kHeapStart"
    and acc: "accessible s kHeapStart 4" "accessible s (kHeapStart + 4) 4"
    and zero: "\<And>a. unat a < 0xE0001000 \<Longrightarrow> 0xE0000000 \<le> unat a \<Longrightarrow> bytes s a = 0"
  shows "at_last_block s []"
proof -
  have "load32 (bytes s) (of_nat (0xE0000000 + k)) = load32 (\<lambda>_. 0) (of_nat (0xE0000000 + k))" if "k \<le> 8" for k
    using that zero by (intro load32_cong) (auto simp: in_region_nat simp del: of_nat_add)
  from this [of 0] this [of 4] have "header_next s kHeapStart = Some 0" "header_size s kHeapStart = Some 0"
    using acc by (simp_all add: header_next_def header_size_def hload_def kHeapStart_def load32_def)
  moreover from this have "last_block s kHeapStart = Some kHeapStart"
    by (subst last_block.simps) simp
  ultimately show ?thesis using core start by (simp add: at_last_block_def) (simp add: kHeapStart_def)
qed

lemma chain_last_block:
  assumes core: "heap_core s szs" and start: "kheap_start s = kHeapStart" and ne: "szs \<noteq> []"
  shows "at_last_block s szs"
proof -
  let ?n = "length szs - 1"
  have n: "?n < length szs" using ne by simp
  have "last_block s (of_nat (block_at szs 0)) = Some (of_nat (block_at szs ?n))"
    using ne by (intro last_block_finds [OF core]) simp
  then have "last_block s kHeapStart = Some (of_nat (block_at szs ?n))" by (simp add: kHeapStart_def)
  moreover have "header_size s (of_nat (block_at szs ?n)) = Some (of_nat (szs ! ?n))"
  proof -
    have z: "block_at szs ?n + szs ! ?n = heap_end szs"
      using block_at_Suc [OF n] ne by (simp add: heap_end_def)
    then have "szs ! ?n \<le> 0x10000000"
      using core block_at_ge [of szs ?n] unfolding heap_core_def by linarith
    then have "unat (of_nat (szs ! ?n) :: u32) < 2 ^ 31" by (simp add: unat_of_nat)
    then have "drop_bit 1 (1 OR push_bit 1 (of_nat (szs ! ?n))) = (of_nat (szs ! ?n) :: u32)"
      by (rule size_field)
    moreover have "load32 (bytes s) (of_nat (block_at szs ?n)) = 1 OR push_bit 1 (of_nat (szs ! ?n))"
      using core n unfolding heap_core_def header_ok_def by blast
    ultimately show ?thesis
      using header_accessible [OF core n, of 0] by (simp add: header_size_def hload_def)
  qed
  moreover have "of_nat (block_at szs ?n) + of_nat (szs ! ?n) = (of_nat (heap_end szs) :: addr)"
    using block_at_Suc [OF n] ne by (simp add: heap_end_def flip: of_nat_add)
  ultimately show ?thesis using core start by (auto simp: at_last_block_def)
qed

lemma init_heap_ready:
  assumes inv: "heap_inv s szs" and room: "n + 2 \<le> frames_left (hvm s)"
  obtains s1 where "init_heap s = Some s1" and "at_last_block s1 szs" and "n \<le> frames_left (hvm s1)"
    and "irq_on s1 = irq_on s" and "same_elsewhere (hvm s) (hvm s1)"
    and "\<And>a. unat a < heap_end szs \<Longrightarrow> bytes s1 a = bytes s a"
proof (cases "szs = []")
  case False
  then have "init_heap s = Some s" and "at_last_block s szs"
    using inv chain_last_block by (auto simp: heap_inv_def init_heap_def kHeapStart_def)
  then show thesis using room heap_pages.kept_refl by (intro that) auto
next
  case True
  have start: "kheap_start s = 0" "kheap_top s = kHeapStart" and ready: "vm_ready (hvm s)"
    using inv True by (auto simp: heap_inv_def heap_core_def)
  have al: "4096 dvd unat kHeapStart" and region: "heap_region kHeapStart"
    by (simp_all add: kHeapStart_def heap_region_def)
  obtain v where v: "map_page (hvm s) kHeapStart 0 = Some v"
    "hmemset (s\<lparr>hvm := v\<rparr>) kHeapStart kPageSize = Some (s\<lparr>hvm := v, bytes := memset (bytes s) kHeapStart 0 kPageSize\<rparr>)"
    "vm_ready v" "n \<le> frames_left v" "same_elsewhere (hvm s) v"
    and page: "\<And>a. unat kHeapStart \<le> unat a \<Longrightarrow> unat a < unat kHeapStart + 4096 \<Longrightarrow> is_mapped v a"
    using map_and_clear [OF ready al region room] by metis
  let ?s = "s\<lparr>hvm := v, bytes := memset (bytes s) kHeapStart 0 kPageSize,
      kheap_start := kHeapStart, kheap_top := kHeapStart\<rparr>"
  have init: "init_heap s = Some ?s" using start v(1,2) by (simp add: init_heap_def)
  have core: "heap_core ?s []" using v(3) by (auto simp: heap_core_def kHeapStart_def)
  have zero: "bytes ?s a = 0" if "unat a < 0xE0001000" "0xE0000000 \<le> unat a" for a
    using in_page [OF al, of a] that by (simp add: memset_eq kPageSize_def kHeapStart_def)
  have acc: "accessible ?s (of_nat (0xE0000000 + k)) 4" if "k \<le> 4" for k
  proof -
    have "unat (of_nat (0xE0000000 + k) + of_nat i :: addr) = 0xE0000000 + k + i" if "i < 4" for i
      using \<open>k \<le> 4\<close> that by (simp add: unat_of_nat flip: of_nat_add)
    then show ?thesis using that page by (auto simp: accessible_def kHeapStart_def)
  qed
  have acc2: "accessible ?s kHeapStart 4" "accessible ?s (kHeapStart + 4) 4"
    using acc [of 0] acc [of 4] by (simp_all add: kHeapStart_def)
  have "at_last_block ?s []"
    by (rule first_page_last_block [OF core _ acc2 zero]) simp_all
  moreover have "bytes ?s a = bytes s a" if "unat a < heap_end []" for a
    using in_page [OF al, of a] that by (simp add: memset_eq kPageSize_def kHeapStart_def)
  ultimately show thesis using init v(4,5) True by (intro that [of ?s]) simp_all
qed

text \<open>The memory after the four stores of \<open>vmalloc\<close>: a header at \<open>e\<close>, linked from \<open>f\<close>.\<close>

definition linked :: "mem \<Rightarrow> nat \<Rightarrow> nat \<Rightarrow> u32 \<Rightarrow> mem" where
  "linked m e f sz = store32 (store32 (store32 (store32 m (of_nat e) (1 OR push_bit 1 sz))
     (of_nat (e + 4)) 0) (of_nat (e + 8)) (of_nat f)) (of_nat (f + 4)) (of_nat e)"

lemma linked_other:
  assumes "e + 12 \<le> 2 ^ 32" and "f \<le> e"
    and "unat a < f + 4 \<or> f + 8 \<le> unat a" and "unat a < e \<or> e + 12 \<le> unat a"
  shows "linked m e f sz a = m a"
proof -
  have "\<not> in_region (of_nat (e + k)) 4 a" if "k \<le> 8" for k
    using that assms in_region_nat [of "e + k" 4 a] by auto
  from this [of 0] this [of 4] this [of 8]
  have "\<not> in_region (of_nat e) 4 a" "\<not> in_region (of_nat (e + 4)) 4 a" "\<not> in_region (of_nat (e + 8)) 4 a"
    by simp_all
  moreover have "\<not> in_region (of_nat (f + 4)) 4 a"
    using assms in_region_nat [of "f + 4" 4 a] by auto
  ultimately show ?thesis unfolding linked_def by (simp add: store32_other del: of_nat_add)
qed

lemma linked_fields:
  assumes "e + 12 \<le> 2 ^ 32" and "f = e \<or> f + 12 \<le> e"
  shows "load32 (linked m e f sz) (of_nat e) = 1 OR push_bit 1 sz"
    and "load32 (linked m e f sz) (of_nat (e + 4)) = (if f = e then of_nat e else 0)"
    and "load32 (linked m e f sz) (of_nat (e + 8)) = of_nat f"
    and "load32 (linked m e f sz) (of_nat (f + 4)) = of_nat e"
proof -
  note same = load32_store32_same and other = load32_store32_other
  show "load32 (linked m e f sz) (of_nat (f + 4)) = of_nat e"
    unfolding linked_def by (rule same)
  then show "load32 (linked m e f sz) (of_nat (e + 4)) = (if f = e then of_nat e else 0)"
    using assms by (cases "f = e") (simp_all only: linked_def same other if_True if_False, simp_all add: other same del: of_nat_add)
  show "load32 (linked m e f sz) (of_nat e) = 1 OR push_bit 1 sz"
    using assms unfolding linked_def by (auto simp add: other same simp del: of_nat_add push_bit_Suc)
  show "load32 (linked m e f sz) (of_nat (e + 8)) = of_nat f"
    using assms unfolding linked_def by (auto simp add: other same simp del: of_nat_add)
qed

text \<open>A block more: the chain is well formed again.\<close>

lemma linked_core:
  assumes core: "heap_core s szs" and z: "12 \<le> z" and fits: "heap_end szs + z \<le> unat (kheap_top s)"
  shows "heap_core (s\<lparr>bytes := linked (bytes s) (heap_end szs) (block_at szs (length szs - 1)) (of_nat z)\<rparr>) (szs @ [z])"
proof -
  let ?e = "heap_end szs" and ?n = "length szs" and ?f = "block_at szs (length szs - 1)"
  let ?m = "linked (bytes s) ?e ?f (of_nat z)"
  have top: "unat (kheap_top s) \<le> 0xF0000000" and ge12: "\<forall>z\<in>set szs. 12 \<le> z"
    and headers: "\<forall>i<length szs. header_ok (bytes s) szs i"
    using core unfolding heap_core_def by blast+
  have e: "?e + 12 \<le> 2 ^ 32" using fits z top by simp
  have f: "?f = ?e \<and> szs = [] \<or> ?f + 12 \<le> ?e"
    using block_at_step [OF ge12, of "?n - 1" ?n] by (cases "szs = []") (simp_all add: heap_end_def)
  then have f': "?f = ?e \<or> ?f + 12 \<le> ?e" by blast
  note fields = linked_fields [OF e f']
  have end_eq: "block_at (szs @ [z]) ?n = ?e" by (simp add: heap_end_def)
  have keep: "load32 ?m (of_nat (block_at szs i + k)) = load32 (bytes s) (of_nat (block_at szs i + k))"
    if i: "i < ?n" and k: "k \<in> {0, 4, 8}" "k = 4 \<longrightarrow> Suc i < ?n" for i k
  proof (rule load32_cong)
    fix a assume "in_region (of_nat (block_at szs i + k)) 4 a"
    moreover have "block_at szs i + 12 \<le> ?e"
      using block_at_step [OF ge12, of i ?n] i unfolding heap_end_def by simp
    ultimately have a: "block_at szs i + k \<le> unat a" "unat a < block_at szs i + k + 4" "unat a < ?e"
      using k(1) top fits in_region_nat [of "block_at szs i + k" 4 a] by auto
    have "unat a < ?f + 4 \<or> ?f + 8 \<le> unat a"
    proof (cases "Suc i < ?n")
      case True
      then have "block_at szs i + 12 \<le> ?f" using block_at_step [OF ge12, of i "?n - 1"] by simp
      then show ?thesis using a k(1) by auto
    next
      case False
      then have "i = ?n - 1" using i by simp
      then show ?thesis using a k False by auto
    qed
    then show "?m a = bytes s a" using a(3) f' by (intro linked_other [OF e]) auto
  qed
  have "header_ok ?m (szs @ [z]) i" if i: "i < Suc ?n" for i
  proof (cases "i < ?n")
    case True
    have old: "header_ok (bytes s) szs i" using headers True by blast
    have "load32 ?m (of_nat (block_at szs i + 4)) = next_of (szs @ [z]) i"
    proof (cases "Suc i < ?n")
      case True
      then show ?thesis using keep [of i 4] old i by (simp add: header_ok_def next_of_def)
    next
      case False
      then have "i = ?n - 1" "Suc i = ?n" using True by simp_all
      then show ?thesis using fields(4) end_eq by (simp add: next_of_def del: of_nat_add)
    qed
    moreover have "load32 ?m (of_nat (block_at szs i)) = 1 OR push_bit 1 (of_nat (szs ! i))"
      using keep [of i 0] old True by (simp add: header_ok_def del: of_nat_add)
    moreover have "load32 ?m (of_nat (block_at szs i + 8)) = of_nat (block_at szs (i - 1))"
      using keep [of i 8] old True by (simp add: header_ok_def del: of_nat_add)
    ultimately show ?thesis
      unfolding header_ok_def using True by (simp add: nth_append del: of_nat_add)
  next
    case False
    then have "i = ?n" using i by simp
    then show ?thesis
      unfolding header_ok_def \<open>i = ?n\<close> end_eq fields(1,3)
      using fields(2) f e by (auto simp: next_of_def kHeapStart_def nth_append simp del: of_nat_add)
  qed
  moreover have "?m a = 0" if "?e + z \<le> unat a" "unat a < unat (kheap_top s)" for a
  proof -
    have "?m a = bytes s a" using that z f' by (intro linked_other [OF e]) auto
    then show ?thesis using core that unfolding heap_core_def by auto
  qed
  ultimately show ?thesis
    using core z fits unfolding heap_core_def by (simp del: of_nat_add)
qed

lemma grown_core:
  assumes core: "heap_core s szs" and v: "vm_ready v" "4096 dvd unat t" "unat t \<le> 0xF0000000"
    "unat (kheap_top s) \<le> unat t"
    and kept: "\<And>a. heap_region a \<Longrightarrow> is_mapped (hvm s) a \<Longrightarrow> is_mapped v a"
    and new: "\<And>a. unat (kheap_top s) \<le> unat a \<Longrightarrow> unat a < unat t \<Longrightarrow> is_mapped v a \<and> b a = 0"
    and same: "\<And>a. unat a < unat (kheap_top s) \<Longrightarrow> b a = bytes s a"
  shows "heap_core (s\<lparr>hvm := v, bytes := b, kheap_top := t\<rparr>) szs"
proof -
  have end_top: "heap_end szs \<le> unat (kheap_top s)" using core unfolding heap_core_def by blast
  have "is_mapped v a" if a: "0xE0000000 \<le> unat a" "unat a < unat t" for a
  proof (cases "unat a < unat (kheap_top s)")
    case True
    have "heap_region a" using a v(3) by (simp add: heap_region_def word_le_nat_alt word_less_nat_alt)
    then show ?thesis using core kept True a unfolding heap_core_def by blast
  next
    case False
    then show ?thesis using new a by simp
  qed
  moreover have "b a = 0" if "heap_end szs \<le> unat a" "unat a < unat t" for a
  proof (cases "unat a < unat (kheap_top s)")
    case True
    then show ?thesis using core same that unfolding heap_core_def by auto
  next
    case False
    then show ?thesis using new that by simp
  qed
  moreover have "header_ok b szs i" if "i < length szs" for i
  proof (rule header_ok_cong [OF core that])
    show "header_ok (bytes s) szs i" using core that unfolding heap_core_def by blast
    show "b a = bytes s a" if "unat a < heap_end szs" for a using same that end_top by simp
  qed
  moreover have "\<forall>z\<in>set szs. 12 \<le> z" using core unfolding heap_core_def by blast
  moreover have "heap_end szs \<le> unat t" using end_top v(4) by simp
  ultimately show ?thesis using v(1-3) by (simp add: heap_core_def)
qed

lemma new_header_stores:
  assumes "accessible s (of_nat e) 12" and "e + 12 \<le> 2 ^ 32"
  shows "new_header s (of_nat e) sz prev = Some (s\<lparr>bytes := store32 (store32 (store32 (bytes s) (of_nat e)
     (1 OR push_bit 1 sz)) (of_nat (e + 4)) 0) (of_nat (e + 8)) prev\<rparr>)"
proof -
  have "accessible s (of_nat (e + k)) 4" if "k \<le> 8" for k
    unfolding accessible_def
  proof (intro allI impI)
    fix i :: nat assume "i < 4"
    then have "k + i < 12" using that by simp
    then have "is_mapped (hvm s) (of_nat e + of_nat (k + i))" using assms(1) unfolding accessible_def by blast
    then show "is_mapped (hvm s) (of_nat (e + k) + of_nat i)" by (simp add: add.assoc)
  qed
  from this [of 0] this [of 4] this [of 8] show ?thesis
    by (simp add: new_header_def hstore_def accessible_def)
qed

definition payload :: "nat list \<Rightarrow> nat \<Rightarrow> addr \<Rightarrow> bool" where
  "payload szs i a \<longleftrightarrow> i < length szs \<and> block_at szs i + 12 \<le> unat a \<and> unat a < block_at szs (Suc i)"

lemma vmalloc_allocates:
  assumes inv: "heap_inv s szs" and sz: "0 < sz"
    and fits: "heap_end szs + unat sz + 12 \<le> 0xF0000000"
    and room: "2 * ((unat sz + 12) div 4096 + 2) + r \<le> frames_left (hvm s)"
  shows "\<exists>s' p. vmalloc s sz = Some (s', p) \<and> heap_inv s' (szs @ [unat sz + 12])
    \<and> unat p = heap_end szs + 12 \<and> irq_on s' \<and> same_elsewhere (hvm s) (hvm s') \<and> r \<le> frames_left (hvm s')
    \<and> (\<forall>i a. payload szs i a \<longrightarrow> bytes s' a = bytes s a)
    \<and> (\<forall>a. unat p \<le> unat a \<and> unat a < unat p + unat sz \<longrightarrow> is_mapped (hvm s') a \<and> bytes s' a = 0)"
proof -
  let ?e = "heap_end szs" and ?f = "block_at szs (length szs - 1)" and ?n = "(unat sz + 12) div 4096 + 1"
  have inv': "heap_inv (s\<lparr>irq_on := False\<rparr>) szs" using inv by (simp add: heap_inv_def heap_core_def)
  have "2 * ?n + r + 2 \<le> frames_left (hvm (s\<lparr>irq_on := False\<rparr>))" using room by simp
  from init_heap_ready [OF inv' this] obtain s1 where s1: "init_heap (s\<lparr>irq_on := False\<rparr>) = Some s1"
    "at_last_block s1 szs" "2 * ?n + r \<le> frames_left (hvm s1)" "irq_on s1 = False"
    "same_elsewhere (hvm s) (hvm s1)"
    and bytes1: "\<And>a. unat a < ?e \<Longrightarrow> bytes s1 a = bytes s a" by auto
  then obtain z where core1: "heap_core s1 szs" and start: "kheap_start s1 = kHeapStart"
    and last: "last_block s1 kHeapStart = Some (of_nat ?f)"
    and z: "header_size s1 (of_nat ?f) = Some z" "of_nat ?f + z = of_nat ?e"
    by (auto simp: at_last_block_def)
  have top1: "?e \<le> unat (kheap_top s1)" "unat (kheap_top s1) \<le> 0xF0000000" "4096 dvd unat (kheap_top s1)"
    "vm_ready (hvm s1)" using core1 unfolding heap_core_def by blast+
  have ge: "0xE0000000 \<le> ?e" by (simp add: heap_end_def block_at_def)
  have total: "unat (of_nat ?e + (sz + sizeof_BlockHeader)) = ?e + unat sz + 12"
    using fits by (simp add: unat_word_ariths unat_of_nat sizeof_BlockHeader_def)
  have small: "unat sz + 12 \<le> 4096 * ?n" by simp
  obtain v b t where grow: "map_heap_pages (of_nat ?e + (sz + sizeof_BlockHeader)) s1
        = Some (s1\<lparr>hvm := v, bytes := b, kheap_top := t\<rparr>)"
    "vm_ready v" "4096 dvd unat t" "unat t \<le> 0xF0000000"
    "?e + unat sz + 12 \<le> unat t" "unat (kheap_top s1) \<le> unat t" "same_elsewhere (hvm s1) v" "r \<le> frames_left v"
    and kept: "\<And>a. heap_region a \<Longrightarrow> is_mapped (hvm s1) a \<Longrightarrow> is_mapped v a"
    and new: "\<And>a. unat (kheap_top s1) \<le> unat a \<Longrightarrow> unat a < unat t \<Longrightarrow> is_mapped v a \<and> b a = 0"
    and same: "\<And>a. unat a < unat (kheap_top s1) \<Longrightarrow> b a = bytes s1 a"
    using map_heap_pages_maps [OF top1(4,3) _ top1(2), of "of_nat ?e + (sz + sizeof_BlockHeader)" ?n r]
      s1(3) total fits top1(1) ge small by auto
  let ?s2 = "s1\<lparr>hvm := v, bytes := b, kheap_top := t\<rparr>"
  have core2: "heap_core ?s2 szs"
    by (rule grown_core [OF core1 grow(2-4,6) kept new same])
  have e: "?e + 12 \<le> 2 ^ 32" using fits by simp
  have f: "?f \<le> ?e" by (rule block_at_le_end)
  have acc: "accessible ?s2 (of_nat ?e) 12"
    using grow(5) ge by (intro heap_core_acc [OF core2]) simp_all
  have acc_f: "accessible ?s2 (of_nat (?f + 4)) 4"
  proof (rule heap_core_acc [OF core2])
    show "0xE0000000 \<le> ?f + 4" using block_at_ge [of szs "length szs - 1"] by linarith
    show "?f + 4 + 4 \<le> unat (kheap_top ?s2)" using grow(5) f by simp
  qed
  have f0: "(of_nat ?f :: addr) \<noteq> 0"
    using block_at_unat [OF core1, of "length szs - 1"] block_at_ge [of szs "length szs - 1"] by auto
  let ?m = "linked b ?e ?f (sz + sizeof_BlockHeader)"
  have hdr: "new_header ?s2 (of_nat ?e) (sz + sizeof_BlockHeader) (of_nat ?f) =
      Some (?s2\<lparr>bytes := store32 (store32 (store32 b (of_nat ?e) (1 OR push_bit 1 (sz + sizeof_BlockHeader)))
        (of_nat (?e + 4)) 0) (of_nat (?e + 8)) (of_nat ?f)\<rparr>)"
    using new_header_stores [OF acc e] by simp
  have "sz \<noteq> 0" using sz by auto
  then have "vmalloc s sz = Some (?s2\<lparr>bytes := ?m, irq_on := True\<rparr>, of_nat ?e + 12)"
    using \<open>sz \<noteq> 0\<close> s1(1) start last z grow(1) hdr f0 acc_f
    by (simp add: vmalloc_def Let_def hstore_def accessible_def linked_def sizeof_BlockHeader_def)
  moreover have "heap_inv (?s2\<lparr>bytes := ?m, irq_on := True\<rparr>) (szs @ [unat sz + 12])"
  proof -
    have "of_nat (unat sz + 12) = sz + sizeof_BlockHeader" by (simp add: sizeof_BlockHeader_def)
    then have "heap_core (?s2\<lparr>bytes := ?m\<rparr>) (szs @ [unat sz + 12])"
      using linked_core [OF core2, of "unat sz + 12"] grow(5) by simp
    then show ?thesis using start by (simp add: heap_inv_def heap_core_def)
  qed
  moreover have p: "unat (of_nat ?e + 12 :: addr) = ?e + 12"
    using fits by (simp add: unat_word_ariths unat_of_nat)
  moreover have "?m a = bytes s a" if "payload szs i a" for i a
  proof -
    have i: "i < length szs" "block_at szs i + 12 \<le> unat a" "unat a < block_at szs (Suc i)"
      using that by (auto simp: payload_def)
    have "block_at szs (Suc i) \<le> ?e" by (rule block_at_le_end)
    then have a: "unat a < ?e" using i(3) by simp
    have "unat a < ?f + 4 \<or> ?f + 8 \<le> unat a"
    proof (cases "Suc i < length szs")
      case True
      then have "block_at szs (Suc i) \<le> ?f" by (intro block_at_mono) simp
      then show ?thesis using i(3) by simp
    next
      case False
      then have "i = length szs - 1" using i(1) by simp
      then show ?thesis using i(2) by simp
    qed
    then have "?m a = b a" using a by (intro linked_other [OF e f]) simp_all
    then show ?thesis using a same bytes1 top1(1) by simp
  qed
  moreover have "is_mapped v a \<and> ?m a = 0" if "?e + 12 \<le> unat a" "unat a < ?e + 12 + unat sz" for a
  proof -
    have "?m a = b a" using that f by (intro linked_other [OF e f]) simp_all
    then show ?thesis using core2 that grow(5) ge unfolding heap_core_def by simp
  qed
  moreover have "same_elsewhere (hvm s) v" using heap_pages.kept_trans [OF s1(5) grow(7)] .
  ultimately show ?thesis using grow(8) by (intro exI conjI) (assumption | simp)+
qed

text \<open>
  Property C3: from a well-formed heap, \<open>vmalloc\<close> of a positive size that fits below the end of the
  heap region, with enough frames free, terminates without a fault. It returns the payload of a new
  block put behind all others: every byte of it is mapped and zero, the payload of no earlier block
  has changed, addresses outside the heap translate as before, the frames that are not
  needed are left, the chain of headers is well formed again and
  the interrupts are enabled.
\<close>

theorem vmalloc_correct:
  assumes "heap_inv s szs" and "0 < sz"
    and "heap_end szs + unat sz + 12 \<le> 0xF0000000"
    and "2 * ((unat sz + 12) div 4096 + 2) + r \<le> frames_left (hvm s)"
  shows "\<exists>s' p. vmalloc s sz = Some (s', p) \<and> heap_inv s' (szs @ [unat sz + 12])
    \<and> unat p = heap_end szs + 12 \<and> irq_on s' \<and> same_elsewhere (hvm s) (hvm s') \<and> r \<le> frames_left (hvm s')
    \<and> (\<forall>i a. payload szs i a \<longrightarrow> bytes s' a = bytes s a)
    \<and> (\<forall>a. unat p \<le> unat a \<and> unat a < unat p + unat sz \<longrightarrow> is_mapped (hvm s') a \<and> bytes s' a = 0)"
  using assms by (rule vmalloc_allocates)

lemma sample_heap:
  obtains s where "heap_inv s []" and "frames_left (hvm s) = 32"
proof -
  obtain v where v: "vm_inv v" "phys_manager v = phys_manager sample_vm"
    and new: "\<And>i. i < 1023 \<Longrightarrow> i \<noteq> 768 \<Longrightarrow> pde_at v i = 0" using sample_ready by blast
  have "\<not> is_present (pde_at v i)" if "896 \<le> i" "i < 960" for i
  proof -
    have "i < 1023" "i \<noteq> 768" using that by (auto simp: word_less_nat_alt)
    then show ?thesis using new by (simp add: is_present_def)
  qed
  then have "vm_ready v" using v(1) by (simp add: vm_ready_def)
  then have "heap_inv \<lparr>hvm = v, bytes = \<lambda>_. 0, kheap_top = kHeapStart, kheap_start = 0, irq_on = True\<rparr> []"
    by (auto simp: heap_inv_def heap_core_def kHeapStart_def)
  moreover have "frames_left v = 32" using v(2) sample_frames_card by (simp add: frames_left_def)
  ultimately show thesis using that by (metis heap.select_convs(1))
qed

theorem vmalloc_correct_witness:
  "\<exists>s s' p. heap_inv s [] \<and> vmalloc s 100 = Some (s', p) \<and> heap_inv s' [112] \<and> p = 0xE000000C"
proof -
  obtain s where s: "heap_inv s []" "frames_left (hvm s) = 32" by (rule sample_heap)
  have "\<exists>s' p. vmalloc s 100 = Some (s', p) \<and> heap_inv s' ([] @ [unat (100 :: u32) + 12])
    \<and> unat p = heap_end [] + 12 \<and> irq_on s' \<and> same_elsewhere (hvm s) (hvm s') \<and> 28 \<le> frames_left (hvm s')
    \<and> (\<forall>i a. payload [] i a \<longrightarrow> bytes s' a = bytes s a)
    \<and> (\<forall>a. unat p \<le> unat a \<and> unat a < unat p + unat (100 :: u32) \<longrightarrow> is_mapped (hvm s') a \<and> bytes s' a = 0)"
    by (rule vmalloc_correct [OF s(1)]) (simp_all add: s(2))
  then obtain s' p where "vmalloc s 100 = Some (s', p)" "heap_inv s' [112]" "unat p = 0xE000000C" by auto
  moreover from this(3) have "p = 0xE000000C" by (intro unat_eqI) simp
  ultimately show ?thesis using s(1) by blast
qed

text \<open>
  The payloads belong to one block each, and their owner may write to them: a store to any byte of any
  payload keeps the heap well formed, whatever the value.
\<close>

lemma payload_store:
  assumes "heap_inv s szs" and "payload szs i a"
  shows "heap_inv (s\<lparr>bytes := (bytes s)(a := v)\<rparr>) szs \<and> (\<forall>j. payload szs j a \<longrightarrow> j = i)"
proof
  let ?s = "s\<lparr>bytes := (bytes s)(a := v)\<rparr>"
  have core: "heap_core s szs" using assms(1) by (simp add: heap_inv_def)
  then have ge12: "\<forall>z\<in>set szs. 12 \<le> z" and top: "heap_end szs \<le> 0xF0000000"
    unfolding heap_core_def by auto
  have i: "i < length szs" "block_at szs i + 12 \<le> unat a" "unat a < block_at szs (Suc i)"
    using assms(2) by (auto simp: payload_def)
  have "header_ok (bytes ?s) szs j" if j: "j < length szs" for j
  proof -
    have "load32 (bytes ?s) (of_nat (block_at szs j + k)) = load32 (bytes s) (of_nat (block_at szs j + k))"
      if k: "k \<le> 8" for k
    proof (rule load32_cong)
      fix c assume "in_region (of_nat (block_at szs j + k)) 4 c"
      moreover have "block_at szs j + 12 \<le> heap_end szs"
        using block_at_step [OF ge12 j] by (simp add: heap_end_def)
      ultimately have c: "block_at szs j \<le> unat c" "unat c < block_at szs j + 12"
        using k top in_region_nat [of "block_at szs j + k" 4 c] by auto
      have "c \<noteq> a"
      proof
        assume "c = a"
        consider "j < i" | "j = i" | "i < j" by linarith
        then show False
        proof cases
          case 1
          then have "block_at szs j + 12 \<le> block_at szs i" using block_at_step [OF ge12, of j i] i(1) by simp
          then show False using c \<open>c = a\<close> i(2) by simp
        next
          case 2
          then show False using c \<open>c = a\<close> i(2) by simp
        next
          case 3
          then have "block_at szs (Suc i) \<le> block_at szs j" by (intro block_at_mono) simp
          then show False using c \<open>c = a\<close> i(3) by simp
        qed
      qed
      then show "bytes ?s c = bytes s c" by simp
    qed
    from this [of 0] this [of 4] this [of 8] show ?thesis
      using core j unfolding heap_core_def header_ok_def by simp
  qed
  moreover have "unat a < heap_end szs" using i(3) block_at_le_end [of szs "Suc i"] by simp
  ultimately have "heap_core ?s szs" using core unfolding heap_core_def by auto
  then show "heap_inv ?s szs" using assms(1) by (simp add: heap_inv_def)
  show "\<forall>j. payload szs j a \<longrightarrow> j = i"
  proof (intro allI impI)
    fix j assume "payload szs j a"
    then have j: "block_at szs j + 12 \<le> unat a" "unat a < block_at szs (Suc j)" by (auto simp: payload_def)
    have "\<not> i < j" using block_at_mono [of "Suc i" j szs] i(3) j(1) by auto
    moreover have "\<not> j < i" using block_at_mono [of "Suc j" i szs] i(2) j(2) by auto
    ultimately show "j = i" by simp
  qed
qed

text \<open>
  A program that allocates blocks and writes bytes to them, and what it may think of them: byte arrays that
  have nothing to do with each other, zero at first. \<open>Put i k v\<close> writes the byte \<open>k\<close> of the \<open>i\<close>-th block.
\<close>

datatype heap_use = Get u32 | Put nat nat u8

fun use_heap :: "heap_use list \<Rightarrow> heap \<times> addr list \<Rightarrow> (heap \<times> addr list) option" where
  "use_heap [] (s, ps) = Some (s, ps)"
| "use_heap (Get sz # us) (s, ps) = do { (s, p) \<leftarrow> vmalloc s sz; use_heap us (s, ps @ [p]) }"
| "use_heap (Put i k v # us) (s, ps) = do {
     p \<leftarrow> arr_get ps i;
     use_heap us (s\<lparr>bytes := (bytes s)(p + of_nat k := v)\<rparr>, ps)
   }"

fun use_arrays :: "heap_use list \<Rightarrow> u8 list list \<Rightarrow> u8 list list option" where
  "use_arrays [] bs = Some bs"
| "use_arrays (Get sz # us) bs = (if sz = 0 then None else use_arrays us (bs @ [replicate (unat sz) 0]))"
| "use_arrays (Put i k v # us) bs =
     (if i < length bs \<and> k < length (bs ! i) then use_arrays us (bs[i := (bs ! i)[k := v]]) else None)"

fun heap_space :: "heap_use list \<Rightarrow> nat" where
  "heap_space [] = 0"
| "heap_space (Get sz # us) = unat sz + 12 + heap_space us"
| "heap_space (Put i k v # us) = heap_space us"

fun heap_frames :: "heap_use list \<Rightarrow> nat" where
  "heap_frames [] = 0"
| "heap_frames (Get sz # us) = 2 * ((unat sz + 12) div 4096 + 2) + heap_frames us"
| "heap_frames (Put i k v # us) = heap_frames us"

definition holds_arrays :: "heap \<Rightarrow> addr list \<Rightarrow> u8 list list \<Rightarrow> bool" where
  "holds_arrays s ps bs \<longleftrightarrow> heap_inv s (map (\<lambda>b. length b + 12) bs) \<and> length ps = length bs
     \<and> (\<forall>i < length bs. unat (ps ! i) = block_at (map (\<lambda>b. length b + 12) bs) i + 12
          \<and> (\<forall>k < length (bs ! i). bytes s (ps ! i + of_nat k) = bs ! i ! k))"

lemma array_byte:
  assumes "holds_arrays s ps bs" and i: "i < length bs" and k: "k < length (bs ! i)"
  shows "unat (ps ! i + of_nat k) = block_at (map (\<lambda>b. length b + 12) bs) i + 12 + k"
    and "payload (map (\<lambda>b. length b + 12) bs) i (ps ! i + of_nat k)" and "is_mapped (hvm s) (ps ! i + of_nat k)"
proof -
  let ?szs = "map (\<lambda>b. length b + 12) bs"
  have inv: "heap_core s ?szs" and p: "unat (ps ! i) = block_at ?szs i + 12"
    using assms(1) i by (simp_all add: holds_arrays_def heap_inv_def)
  have nx: "block_at ?szs (Suc i) = block_at ?szs i + (length (bs ! i) + 12)" using i by (simp add: block_at_Suc)
  have "block_at ?szs (Suc i) \<le> heap_end ?szs" by (rule block_at_le_end)
  moreover have top: "heap_end ?szs \<le> unat (kheap_top s)" "unat (kheap_top s) \<le> 0xF0000000"
    using inv unfolding heap_core_def by blast+
  ultimately have less: "block_at ?szs i + 12 + k < unat (kheap_top s)" using nx k by linarith
  then have k32: "unat (of_nat k :: addr) = k" using top(2) by (simp add: unat_of_nat)
  show u: "unat (ps ! i + of_nat k) = block_at ?szs i + 12 + k"
    using less top(2) p k32 by (simp add: unat_word_ariths)
  then show "payload ?szs i (ps ! i + of_nat k)" using i k nx by (simp add: payload_def)
  have "0xE0000000 \<le> block_at ?szs i" by (simp add: block_at_def)
  then have "0xE0000000 \<le> unat (ps ! i + of_nat k)" "unat (ps ! i + of_nat k) < unat (kheap_top s)" using less u by simp_all
  then show "is_mapped (hvm s) (ps ! i + of_nat k)" using inv unfolding heap_core_def by blast
qed

lemma arrays_apart:
  assumes h: "holds_arrays s ps bs" and "i < length bs" "k < length (bs ! i)" and "j < length bs" "l < length (bs ! j)"
    and eq: "ps ! i + of_nat k = ps ! j + of_nat l"
  shows "i = j \<and> k = l"
proof -
  have inv: "heap_inv s (map (\<lambda>b. length b + 12) bs)" using h by (simp add: holds_arrays_def)
  note i = array_byte [OF h assms(2,3)] and j = array_byte [OF h assms(4,5)]
  have "j = i" using payload_store [OF inv i(2)] j(2) unfolding eq by blast
  then show ?thesis using i(1) j(1) unfolding eq by simp
qed

lemma holds_arrays_put:
  assumes h: "holds_arrays s ps bs" and i: "i < length bs" and k: "k < length (bs ! i)"
  shows "holds_arrays (s\<lparr>bytes := (bytes s)(ps ! i + of_nat k := v)\<rparr>) ps (bs[i := (bs ! i)[k := v]])"
proof -
  let ?bs = "bs[i := (bs ! i)[k := v]]"
  have szs: "map (\<lambda>b. length b + 12) ?bs = map (\<lambda>b. length b + 12) bs"
    using i by (intro nth_equalityI) (simp_all add: nth_list_update)
  have inv: "heap_inv s (map (\<lambda>b. length b + 12) bs)" using h by (simp add: holds_arrays_def)
  have "((bytes s)(ps ! i + of_nat k := v)) (ps ! j + of_nat l) = ?bs ! j ! l" if jl: "j < length ?bs" "l < length (?bs ! j)" for j l
  proof -
    have j: "j < length bs" and l: "l < length (bs ! j)" using jl i by (auto simp: nth_list_update split: if_splits)
    have old: "bytes s (ps ! j + of_nat l) = bs ! j ! l" using h j l by (simp add: holds_arrays_def)
    have iff: "ps ! j + of_nat l = ps ! i + of_nat k \<longleftrightarrow> j = i \<and> l = k" using arrays_apart [OF h j l i k] by auto
    show ?thesis using old i k j l by (cases "j = i \<and> l = k") (auto simp: iff nth_list_update)
  qed
  then show ?thesis
    using h conjunct1 [OF payload_store [OF inv array_byte(2) [OF h i k]]] unfolding holds_arrays_def szs by simp
qed

lemma holds_arrays_get:
  assumes h: "holds_arrays s ps bs" and sz: "0 < sz"
    and fits: "heap_end (map (\<lambda>b. length b + 12) bs) + unat sz + 12 \<le> 0xF0000000"
    and room: "2 * ((unat sz + 12) div 4096 + 2) + r \<le> frames_left (hvm s)"
  shows "\<exists>s' p. vmalloc s sz = Some (s', p) \<and> holds_arrays s' (ps @ [p]) (bs @ [replicate (unat sz) 0]) \<and> r \<le> frames_left (hvm s')"
proof -
  let ?szs = "map (\<lambda>b. length b + 12) bs" and ?bs = "bs @ [replicate (unat sz) 0]"
  have inv: "heap_inv s ?szs" using h by (simp add: holds_arrays_def)
  from vmalloc_allocates [OF inv sz fits room] obtain s' p where
    s': "vmalloc s sz = Some (s', p)" "heap_inv s' (?szs @ [unat sz + 12])" "unat p = heap_end ?szs + 12" "r \<le> frames_left (hvm s')"
    and old: "\<And>i a. payload ?szs i a \<Longrightarrow> bytes s' a = bytes s a"
    and new: "\<And>a. unat p \<le> unat a \<Longrightarrow> unat a < unat p + unat sz \<Longrightarrow> bytes s' a = 0" by blast
  have szs: "map (\<lambda>b. length b + 12) ?bs = ?szs @ [unat sz + 12]" by simp
  have len: "length ps = length bs" using h by (simp add: holds_arrays_def)
  have "unat ((ps @ [p]) ! i) = block_at (?szs @ [unat sz + 12]) i + 12
      \<and> (\<forall>k < length (?bs ! i). bytes s' ((ps @ [p]) ! i + of_nat k) = ?bs ! i ! k)" if i: "i < length ?bs" for i
  proof (cases "i < length bs")
    case True
    have "bytes s' (ps ! i + of_nat k) = bs ! i ! k" if "k < length (bs ! i)" for k
      using old [OF array_byte(2) [OF h True that]] h True that by (simp add: holds_arrays_def)
    then show ?thesis using h True len by (simp add: holds_arrays_def nth_append)
  next
    case False
    then have e: "i = length bs" using i by simp
    have "bytes s' (p + of_nat k) = 0" if k: "k < unat sz" for k
    proof -
      have "unat (p + of_nat k) = unat p + k"
        using k s'(3) fits unat_u32_less [of sz] by (simp add: unat_word_ariths unat_of_nat)
      then show ?thesis using new k by simp
    qed
    then show ?thesis using s'(3) len by (simp add: e nth_append heap_end_def)
  qed
  then show ?thesis using s'(1,2,4) len unfolding holds_arrays_def szs by (intro exI [of _ s'] exI [of _ p]) simp
qed

lemma use_heap_arrays:
  assumes "holds_arrays s ps bs" and "use_arrays us bs = Some bs'"
    and "heap_end (map (\<lambda>b. length b + 12) bs) + heap_space us \<le> 0xF0000000" and "heap_frames us \<le> frames_left (hvm s)"
  shows "\<exists>s' ps'. use_heap us (s, ps) = Some (s', ps') \<and> holds_arrays s' ps' bs'"
  using assms
proof (induction us arbitrary: s ps bs)
  case (Cons u us)
  show ?case
  proof (cases u)
    case (Get sz)
    have u: "0 < sz" "use_arrays us (bs @ [replicate (unat sz) 0]) = Some bs'"
      using Cons.prems(2) Get by (auto simp: word_neq_0_conv split: if_splits)
    have "heap_end (map (\<lambda>b. length b + 12) bs) + unat sz + 12 \<le> 0xF0000000"
      "2 * ((unat sz + 12) div 4096 + 2) + heap_frames us \<le> frames_left (hvm s)"
      using Cons.prems(3,4) Get by simp_all
    from holds_arrays_get [OF Cons.prems(1) u(1) this] obtain s' p where
      s': "vmalloc s sz = Some (s', p)" "holds_arrays s' (ps @ [p]) (bs @ [replicate (unat sz) 0])"
      "heap_frames us \<le> frames_left (hvm s')" by blast
    have "heap_end (map (\<lambda>b. length b + 12) (bs @ [replicate (unat sz) 0])) + heap_space us \<le> 0xF0000000"
      using Cons.prems(3) Get by simp
    from Cons.IH [OF s'(2) u(2) this s'(3)] show ?thesis by (simp add: Get s'(1))
  next
    case (Put i k v)
    have u: "i < length bs" "k < length (bs ! i)" "use_arrays us (bs[i := (bs ! i)[k := v]]) = Some bs'"
      using Cons.prems(2) Put by (auto split: if_splits)
    have szs: "map (\<lambda>b. length b + 12) (bs[i := (bs ! i)[k := v]]) = map (\<lambda>b. length b + 12) bs"
      using u(1) by (intro nth_equalityI) (simp_all add: nth_list_update)
    have "length ps = length bs" using Cons.prems(1) by (simp add: holds_arrays_def)
    then have get: "arr_get ps i = Some (ps ! i)" using u(1) by simp
    show ?thesis
      using Cons.IH [OF holds_arrays_put [OF Cons.prems(1) u(1,2), of v] u(3)] Cons.prems(3,4) unfolding szs
      by (simp add: Put get)
  qed
qed auto

text \<open>
  Property C17: Whatever blocks a program allocates and whatever it writes into them, in any order, it sees separate
  byte arrays: every byte of every block is mapped and holds what was written there last, or zero, no two
  blocks share a byte, and the chain of headers stays well formed. The program writes inside its blocks, no
  block is empty, and the heap's 256 MiB and the free frames suffice.
\<close>

theorem heap_holds_arrays:
  assumes inv: "heap_inv s []" and use: "use_arrays us [] = Some bs"
    and fits: "heap_space us \<le> 0x10000000" and room: "heap_frames us \<le> frames_left (hvm s)"
  shows "\<exists>s' ps. use_heap us (s, []) = Some (s', ps) \<and> length ps = length bs
    \<and> heap_inv s' (map (\<lambda>b. length b + 12) bs)
    \<and> (\<forall>i < length bs. \<forall>k < length (bs ! i). is_mapped (hvm s') (ps ! i + of_nat k)
         \<and> bytes s' (ps ! i + of_nat k) = bs ! i ! k)
    \<and> (\<forall>i < length bs. \<forall>k < length (bs ! i). \<forall>j < length bs. \<forall>l < length (bs ! j).
         ps ! i + of_nat k = ps ! j + of_nat l \<longrightarrow> i = j \<and> k = l)"
proof -
  have "holds_arrays s [] []" using inv by (simp add: holds_arrays_def)
  from use_heap_arrays [OF this use _ room] fits obtain s' ps where
    s': "use_heap us (s, []) = Some (s', ps)" "holds_arrays s' ps bs" by auto
  then show ?thesis using array_byte(3) [OF s'(2)] arrays_apart [OF s'(2)]
    by (intro exI [of _ s'] exI [of _ ps]) (simp add: holds_arrays_def)
qed

theorem heap_holds_arrays_witness:
  "\<exists>s s' p q. heap_inv s [] \<and> use_heap [Get 2, Put 0 1 7, Get 1, Put 0 0 9, Put 1 0 5] (s, []) = Some (s', [p, q])
    \<and> bytes s' p = 9 \<and> bytes s' (p + 1) = 7 \<and> bytes s' q = 5"
proof -
  obtain s where s: "heap_inv s []" "frames_left (hvm s) = 32" by (rule sample_heap)
  have use: "use_arrays [Get 2, Put 0 1 7, Get 1, Put 0 0 9, Put 1 0 5] [] = Some [[9, 7], [5]]"
  proof -
    have "unat (2 :: u32) = Suc (Suc 0)" by simp
    then have two: "replicate (unat (2 :: u32)) 0 = [0, 0 :: u8]" by (simp only: replicate.simps)
    show ?thesis by (simp only: use_arrays.simps two) simp
  qed
  let ?us = "[Get 2, Put 0 1 7, Get 1, Put 0 0 9, Put 1 0 5]" and ?bs = "[[9, 7], [5]] :: u8 list list"
  have "heap_space ?us \<le> 0x10000000" "heap_frames ?us \<le> frames_left (hvm s)" using s(2) by simp_all
  from heap_holds_arrays [OF s(1) use this] obtain s' ps where
    s': "use_heap ?us (s, []) = Some (s', ps)" "length ps = length ?bs"
    and b: "\<forall>i < length ?bs. \<forall>k < length (?bs ! i). is_mapped (hvm s') (ps ! i + of_nat k)
         \<and> bytes s' (ps ! i + of_nat k) = ?bs ! i ! k" by blast
  obtain p q where ps: "ps = [p, q]" using s'(2) by (auto simp: length_Suc_conv)
  have "bytes s' p = 9" "bytes s' (p + 1) = 7" "bytes s' q = 5"
    using b [rule_format, of 0 0] b [rule_format, of 0 1] b [rule_format, of 1 0] by (simp_all add: ps)
  then show ?thesis using s(1) s'(1) ps by blast
qed

text \<open>
  \<open>vmalloc(0)\<close> returns the null pointer and changes nothing but the interrupt flag, and
  that one it leaves off: the early return skips \<open>interrupts_enable\<close>.
\<close>

theorem vmalloc_zero:
  "vmalloc s 0 = Some (s\<lparr>irq_on := False\<rparr>, 0)"
  by (simp add: vmalloc_def)

text \<open>
  \<open>realloc\<close> is a fresh allocation: the pointer it is given is not read, so the contents are not
  carried over.
\<close>

lemma realloc_ignores_old: "realloc s p sz = realloc s q sz"
  by (simp add: realloc_def)

end
