(* ===== verification/Std_Lib.thy ===== *)
theory Std_Lib
  imports Prelude
begin

text \<open>
  The containers and algorithms of \<open>include/std\<close>: the vector, the iterator and the loops over
  iterators, and the bit set. A buffer made by \<open>new T[n]\<close> is a list of \<open>n\<close> copies of \<open>d\<close>, the
  value \<open>T\<close> is constructed with; the null pointer is the empty buffer; an index that leaves a
  buffer, and a loop that never ends, are \<^const>\<open>None\<close>.
\<close>

section \<open>\<open>vector\<close>\<close>

(* src/include/std/vector.hpp:11-14 vector *)
record 'a vec =
  v_capacity :: u32
  v_size :: u32
  v_buffer :: "'a list"

(* src/include/std/vector.hpp:52-53 vector::vector *)
definition vec_new :: "'a vec" where
  "vec_new = \<lparr>v_capacity = 0, v_size = 0, v_buffer = []\<rparr>"

text \<open>The loop that copies \<open>n\<close> elements from one buffer to another, from index \<open>i\<close> on.\<close>

(* src/include/std/vector.hpp:86-88 vector::reserve *)
fun copy_elems :: "'a list \<Rightarrow> 'a list \<Rightarrow> nat \<Rightarrow> nat \<Rightarrow> 'a list option" where
  "copy_elems dst src i 0 = Some dst"
| "copy_elems dst src i (Suc n) = do {
     x \<leftarrow> arr_get src i;
     dst \<leftarrow> arr_set dst i x;
     copy_elems dst src (Suc i) n
   }"

(* src/include/std/vector.hpp:55-60 vector::vector *)
definition vec_copy :: "'a \<Rightarrow> 'a vec \<Rightarrow> 'a vec option" where
  "vec_copy d v =
     map_option (\<lambda>b. \<lparr>v_capacity = v_capacity v, v_size = v_size v, v_buffer = b\<rparr>)
       (copy_elems (replicate (unat (v_capacity v)) d) (v_buffer v) 0 (unat (v_size v)))"

(* src/include/std/vector.hpp:81-92 vector::reserve *)
definition vec_reserve :: "'a \<Rightarrow> 'a vec \<Rightarrow> u32 \<Rightarrow> 'a vec option" where
  "vec_reserve d v capacity =
     map_option (\<lambda>b. v\<lparr>v_capacity := capacity, v_buffer := b\<rparr>)
       (copy_elems (replicate (unat capacity) d) (v_buffer v) 0 (unat (v_size v)))"

text \<open>
  \<open>_capacity*1.5+1\<close> is computed in a double, which is exact for 32-bit numbers, and truncated.
\<close>

(* src/include/std/vector.hpp:65-73 vector::push_back *)
definition vec_push_back :: "'a \<Rightarrow> 'a vec \<Rightarrow> 'a \<Rightarrow> 'a vec option" where
  "vec_push_back d v x = do {
     v \<leftarrow> (if v_size v \<ge> v_capacity v
           then vec_reserve d v (of_nat (unat (v_capacity v) * 3 div 2 + 1)) else Some v);
     b \<leftarrow> arr_set (v_buffer v) (unat (v_size v)) x;
     Some (v\<lparr>v_buffer := b, v_size := v_size v + 1\<rparr>)
   }"

text \<open>The destructor call touches the last element, so an empty vector faults.\<close>

(* src/include/std/vector.hpp:75-79 vector::pop_back *)
definition vec_pop_back :: "'a vec \<Rightarrow> 'a vec option" where
  "vec_pop_back v = do {
     _ \<leftarrow> arr_get (v_buffer v) (unat (v_size v - 1));
     Some (v\<lparr>v_size := v_size v - 1\<rparr>)
   }"

text \<open>
  Assignment: the new buffer is in place before the elements are copied, so when the right-hand
  side is the vector itself they are copied from the new buffer.
\<close>

(* src/include/std/vector.hpp:95-105 vector::operator= *)
definition vec_assign :: "'a \<Rightarrow> 'a vec \<Rightarrow> 'a vec \<Rightarrow> bool \<Rightarrow> 'a vec option" where
  "vec_assign d this v same_object =
     (let b = replicate (unat (v_capacity v)) d;
          src = (if same_object then b else v_buffer v)
      in map_option (\<lambda>b. this\<lparr>v_size := v_size v, v_capacity := v_capacity v, v_buffer := b\<rparr>)
           (copy_elems b src 0 (unat (v_size v))))"

(* src/include/std/vector.hpp:107-110 vector::operator[] *)
definition vec_at :: "'a vec \<Rightarrow> u32 \<Rightarrow> 'a option" where
  "vec_at v index = arr_get (v_buffer v) (unat index)"

definition vec_set :: "'a vec \<Rightarrow> u32 \<Rightarrow> 'a \<Rightarrow> 'a vec option" where
  "vec_set v index x = map_option (\<lambda>b. v\<lparr>v_buffer := b\<rparr>) (arr_set (v_buffer v) (unat index) x)"

(* src/include/std/vector.hpp:122-127 vector::clear *)
definition vec_clear :: "'a vec \<Rightarrow> 'a vec" where
  "vec_clear v = v\<lparr>v_size := 0, v_capacity := 0, v_buffer := []\<rparr>"

text \<open>The comparison compares by calling itself.\<close>

(* src/include/std/vector.hpp:43-45 vector::operator== *)
partial_function (option) vec_eq :: "'a vec \<Rightarrow> 'a vec \<Rightarrow> bool option" where
  "vec_eq v1 v2 = vec_eq v1 v2"

subsection \<open>The elements of a vector\<close>

definition vec_ok :: "'a vec \<Rightarrow> bool" where
  "vec_ok v \<longleftrightarrow> v_size v \<le> v_capacity v \<and> length (v_buffer v) = unat (v_capacity v)"

definition elements :: "'a vec \<Rightarrow> 'a list" where
  "elements v = take (unat (v_size v)) (v_buffer v)"

lemma copy_elems_eq:
  assumes "i + n \<le> length src" and "i + n \<le> length dst"
  shows "copy_elems dst src i n = Some (take i dst @ take n (drop i src) @ drop (i + n) dst)"
  using assms
proof (induction n arbitrary: dst i)
  case (Suc n)
  then have i: "i < length src" "i < length dst" by simp_all
  then have "take (Suc i) (dst[i := src ! i]) = take i dst @ [src ! i]"
    by (simp add: take_Suc_conv_app_nth)
  moreover have "drop i src = src ! i # drop (Suc i) src" using i by (simp add: Cons_nth_drop_Suc)
  ultimately show ?case using Suc.IH [of "Suc i" "dst[i := src ! i]"] Suc.prems i by simp
qed simp

lemma vec_reserve_elements:
  assumes "vec_ok v" and "v_size v \<le> c"
  shows "\<exists>v'. vec_reserve d v c = Some v' \<and> vec_ok v' \<and> elements v' = elements v
    \<and> v_size v' = v_size v \<and> v_capacity v' = c"
proof -
  have "unat (v_size v) \<le> length (v_buffer v)" "unat (v_size v) \<le> unat c"
    using assms by (auto simp: vec_ok_def word_le_nat_alt)
  then show ?thesis
    using assms by (simp add: vec_reserve_def copy_elems_eq vec_ok_def elements_def)
qed

lemma vec_push_back_elements:
  assumes ok: "vec_ok v" and small: "unat (v_size v) < 0x80000000"
  shows "\<exists>v'. vec_push_back d v x = Some v' \<and> vec_ok v' \<and> elements v' = elements v @ [x]"
proof -
  let ?c = "of_nat (unat (v_capacity v) * 3 div 2 + 1) :: u32"
  obtain w where w: "(if v_size v \<ge> v_capacity v then vec_reserve d v ?c else Some v) = Some w"
    and ok': "vec_ok w" and elems: "elements w = elements v" and sz: "v_size w = v_size v"
    and room: "v_size w < v_capacity w"
  proof (cases "v_size v \<ge> v_capacity v")
    case True
    then have full: "v_size v = v_capacity v" using ok by (simp add: vec_ok_def)
    define m where "m = unat (v_capacity v) * 3 div 2 + 1"
    have "m < 4294967296" "unat (v_size v) < m" using small unfolding m_def full by linarith+
    then have c: "v_size v < ?c" unfolding m_def [symmetric] by (simp add: word_less_nat_alt unat_of_nat)
    obtain w where "vec_reserve d v ?c = Some w" "vec_ok w" "elements w = elements v"
      "v_size w = v_size v" "v_capacity w = ?c"
      using vec_reserve_elements [OF ok less_imp_le [OF c]] by blast
    then show thesis using that [of w] True c by simp
  next
    case False
    then show thesis using ok that by simp
  qed
  have lt: "unat (v_size w) < length (v_buffer w)" using ok' room by (simp add: vec_ok_def word_less_nat_alt)
  have sz': "unat (v_size w + 1) = unat (v_size w) + 1"
    using small sz by (simp add: unat_word_ariths)
  let ?v = "w\<lparr>v_buffer := (v_buffer w)[unat (v_size w) := x], v_size := v_size w + 1\<rparr>"
  have "vec_push_back d v x = Some ?v" using w lt by (simp add: vec_push_back_def)
  moreover have "vec_ok ?v" using ok' room sz' by (simp add: vec_ok_def word_le_nat_alt word_less_nat_alt)
  moreover have "elements ?v = elements v @ [x]"
    using lt sz' elems by (simp add: elements_def take_Suc_conv_app_nth)
  ultimately show ?thesis by blast
qed

fun push_all :: "'a \<Rightarrow> 'a vec \<Rightarrow> 'a list \<Rightarrow> 'a vec option" where
  "push_all d v [] = Some v"
| "push_all d v (x # xs) = Option.bind (vec_push_back d v x) (\<lambda>v. push_all d v xs)"

text \<open>
  pushing a list of elements one by one onto a vector, through all its reallocations,
  appends them to the elements it had, in order, and every index below the size reads the element it
  should.
\<close>

theorem vector_push_all:
  assumes "vec_ok v" and "unat (v_size v) + length xs < 0x80000000"
  shows "\<exists>v'. push_all d v xs = Some v' \<and> vec_ok v' \<and> elements v' = elements v @ xs
    \<and> (\<forall>i<length xs. vec_at v' (v_size v + of_nat i) = Some (xs ! i))"
proof -
  have "\<exists>v'. push_all d v xs = Some v' \<and> vec_ok v' \<and> elements v' = elements v @ xs"
    using assms
  proof (induction xs arbitrary: v)
    case (Cons x xs)
    then obtain w where w: "vec_push_back d v x = Some w" "vec_ok w" "elements w = elements v @ [x]"
      using vec_push_back_elements [of v d x] by auto
    have len: "unat (v_size v) = length (elements v)" if "vec_ok v" for v :: "'a vec"
      using that by (simp add: vec_ok_def elements_def word_le_nat_alt)
    have "unat (v_size w) = unat (v_size v) + 1"
      using len [OF w(2)] len [OF Cons.prems(1)] w(3) by simp
    then have "unat (v_size w) + length xs < 0x80000000" using Cons.prems(2) by simp
    from Cons.IH [OF w(2) this] w show ?case by auto
  qed simp
  then obtain v' where v': "push_all d v xs = Some v'" "vec_ok v'" "elements v' = elements v @ xs" by blast
  have "unat (v_size v) = length (elements v)"
    using assms(1) by (simp add: vec_ok_def elements_def word_le_nat_alt)
  then have "vec_at v' (v_size v + of_nat i) = Some (xs ! i)" if "i < length xs" for i
  proof -
    have u: "unat (v_size v + of_nat i) = length (elements v) + i"
      using \<open>unat (v_size v) = _\<close> assms(2) that by (simp add: unat_word_ariths unat_of_nat)
    have "length (elements v) + i < length (elements v')" using v'(3) that by simp
    then have "length (elements v) + i < length (v_buffer v')" and
      "v_buffer v' ! (length (elements v) + i) = elements v' ! (length (elements v) + i)"
      by (simp_all add: elements_def)
    then show ?thesis using v'(3) by (simp add: vec_at_def u nth_append)
  qed
  then show ?thesis using v' by blast
qed

theorem vector_push_all_witness:
  "\<exists>v'. push_all 0 vec_new [5, 6, 7 :: u8] = Some v' \<and> elements v' = [5, 6, 7]"
proof -
  have ok: "vec_ok (vec_new :: u8 vec)" and el: "elements (vec_new :: u8 vec) = []"
    by (simp_all add: vec_ok_def vec_new_def elements_def)
  show ?thesis using vector_push_all [OF ok, of "[5, 6, 7]" 0] el by (auto simp: vec_new_def)
qed

text \<open>
  assignment copies the elements of another vector; a vector assigned to itself keeps
  its size but loses every element: all of them are the default value afterwards.
\<close>

theorem vector_assign:
  assumes "vec_ok v"
  shows "\<exists>v'. vec_assign d this v same_object = Some v' \<and> vec_ok v' \<and> v_size v' = v_size v
    \<and> elements v' = (if same_object then replicate (unat (v_size v)) d else elements v)"
proof -
  have "unat (v_size v) \<le> length (v_buffer v)" "length (v_buffer v) = unat (v_capacity v)"
    using assms by (auto simp: vec_ok_def word_le_nat_alt)
  then show ?thesis
    using assms by (simp add: vec_assign_def copy_elems_eq Let_def vec_ok_def elements_def min_absorb1)
qed

theorem vector_assign_witness:
  "\<exists>v'. vec_assign 0 \<lparr>v_capacity = 2, v_size = 2, v_buffer = [7, 8 :: u8]\<rparr>
      \<lparr>v_capacity = 2, v_size = 2, v_buffer = [7, 8]\<rparr> True = Some v' \<and> elements v' = [0, 0]"
proof -
  let ?v = "\<lparr>v_capacity = 2, v_size = 2, v_buffer = [7, 8 :: u8]\<rparr>"
  have "vec_ok ?v" by (simp add: vec_ok_def)
  moreover have "replicate 2 (0 :: u8) = [0, 0]" by (simp add: numeral_2_eq_2)
  ultimately show ?thesis using vector_assign [of ?v 0 ?v True] by auto
qed

lemma vec_copy_elements:
  "vec_ok v \<Longrightarrow> \<exists>v'. vec_copy d v = Some v' \<and> vec_ok v' \<and> elements v' = elements v"
  by (simp add: vec_copy_def copy_elems_eq vec_ok_def elements_def word_le_nat_alt)

text \<open>No call of the comparison returns.\<close>

lemma vec_eq_diverges: "vec_eq v1 v2 = None"
proof -
  have False if "vec_eq v1 v2 = Some r" for r
    using _ that by (rule vec_eq.raw_induct [where P = "\<lambda>_ _ _. False"]) blast
  then show ?thesis by (cases "vec_eq v1 v2") auto
qed

section \<open>Loops over iterators\<close>

text \<open>
  A range is a buffer with the offsets \<open>first\<close> and \<open>last\<close>; a loop that runs past the end of the
  buffer because it never meets \<open>last\<close> faults there.
\<close>

(* src/include/std/algorithm.hpp:46-55 find_if *)
fun find_if :: "('a \<Rightarrow> bool) \<Rightarrow> 'a list \<Rightarrow> nat \<Rightarrow> nat \<Rightarrow> nat option" where
  "find_if p [] first lst = (if first = lst then Some lst else None)"
| "find_if p (x # xs) first lst =
     (if first = lst then Some lst
      else if p x then Some first
      else find_if p xs (Suc first) lst)"

(* src/include/std/algorithm.hpp:35-44 find_if_not *)
fun find_if_not :: "('a \<Rightarrow> bool) \<Rightarrow> 'a list \<Rightarrow> nat \<Rightarrow> nat \<Rightarrow> nat option" where
  "find_if_not p [] first lst = (if first = lst then Some lst else None)"
| "find_if_not p (x # xs) first lst =
     (if first = lst then Some lst
      else if \<not> p x then Some first
      else find_if_not p xs (Suc first) lst)"

(* src/include/std/algorithm.hpp:13-33 find *)
fun find_elem :: "'a list \<Rightarrow> nat \<Rightarrow> nat \<Rightarrow> 'a \<Rightarrow> nat option" where
  "find_elem [] first lst v = (if first = lst then Some lst else None)"
| "find_elem (x # xs) first lst v =
     (if first = lst then Some lst
      else if x = v then Some first
      else find_elem xs (Suc first) lst v)"

(* src/include/std/algorithm.hpp:57-67 count_if *)
fun count_if :: "('a \<Rightarrow> bool) \<Rightarrow> 'a list \<Rightarrow> nat \<Rightarrow> nat \<Rightarrow> nat \<Rightarrow> nat option" where
  "count_if p [] first lst n = (if first = lst then Some n else None)"
| "count_if p (x # xs) first lst n =
     (if first = lst then Some n
      else count_if p xs (Suc first) lst (if p x then Suc n else n))"

text \<open>The state \<open>s\<close> is what the function object changes.\<close>

(* src/include/std/algorithm.hpp:111-123 for_each *)
fun for_each :: "('s \<Rightarrow> 'a \<Rightarrow> 's option) \<Rightarrow> 's \<Rightarrow> 'a list \<Rightarrow> 's option" where
  "for_each f s [] = Some s"
| "for_each f s (x # xs) = Option.bind (f s x) (\<lambda>s. for_each f s xs)"

(* src/include/std/algorithm.hpp:125-128 min *)
definition std_min :: "'a::ord \<Rightarrow> 'a \<Rightarrow> 'a" where
  "std_min a b = (if \<not> b < a then a else b)"

(* src/include/std/algorithm.hpp:130-133 max *)
definition std_max :: "'a::ord \<Rightarrow> 'a \<Rightarrow> 'a" where
  "std_max a b = (if a < b then b else a)"

lemma find_if_spec:
  "find_if p xs first (first + length xs) = Some (first + length (takeWhile (\<lambda>x. \<not> p x) xs))"
proof (induction xs arbitrary: first)
  case (Cons x xs)
  then show ?case using Cons.IH [of "Suc first"] by simp
qed simp

lemma find_if_not_eq: "find_if_not p xs first lst = find_if (\<lambda>x. \<not> p x) xs first lst"
  by (induction xs arbitrary: first) auto

lemma find_elem_eq: "find_elem xs first lst v = find_if (\<lambda>x. x = v) xs first lst"
  by (induction xs arbitrary: first) auto

lemma count_if_spec: "count_if p xs first (first + length xs) n = Some (n + length (filter p xs))"
proof (induction xs arbitrary: first n)
  case (Cons x xs)
  then show ?case using Cons.IH [of "Suc first"] by simp
qed simp

lemma std_min_max: "std_min (a :: 'a::linorder) b = min a b" "std_max a b = max a b"
  by (auto simp: std_min_def std_max_def min_def max_def)

text \<open>
  The operators of \<open>std::iterator\<close> are swapped: \<open>++it\<close> returns a copy from before the step, \<open>it++\<close>
  the iterator after it.
\<close>

(* src/include/std/iterator.hpp:15-15 iterator::operator++ *)
definition iter_pre_inc :: "nat \<Rightarrow> nat \<times> nat" where
  "iter_pre_inc ptr = (ptr + 1, ptr)"

(* src/include/std/iterator.hpp:16-16 iterator::operator++ *)
definition iter_post_inc :: "nat \<Rightarrow> nat \<times> nat" where
  "iter_post_inc ptr = (ptr + 1, ptr + 1)"

text \<open>\<open>std::remove\<close>, whose loop is written for the usual meaning of \<open>++i\<close>.\<close>

(* src/include/std/algorithm.hpp:83-86 remove *)
fun remove_loop :: "nat \<Rightarrow> 'a list \<Rightarrow> nat \<Rightarrow> nat \<Rightarrow> nat \<Rightarrow> 'a \<Rightarrow> ('a list \<times> nat) option" where
  "remove_loop 0 buf i first lst v = None"
| "remove_loop (Suc fuel) buf i first lst v =
     (let (i, old) = iter_pre_inc i
      in if old \<noteq> lst then do {
           x \<leftarrow> arr_get buf i;
           if x \<noteq> v then do {
             let (first, target) = iter_post_inc first;
             buf \<leftarrow> arr_set buf target x;
             remove_loop fuel buf i first lst v
           } else remove_loop fuel buf i first lst v
         } else Some (buf, first))"

(* src/include/std/algorithm.hpp:78-87 remove *)
definition std_remove :: "'a list \<Rightarrow> nat \<Rightarrow> nat \<Rightarrow> 'a \<Rightarrow> ('a list \<times> nat) option" where
  "std_remove buf first lst v = do {
     first \<leftarrow> find_elem (drop first buf) first lst v;
     if first \<noteq> lst then remove_loop (Suc (length buf)) buf first first lst v else Some (buf, first)
   }"

lemma remove_loop_runs_over:
  "i < length buf \<Longrightarrow> remove_loop fuel buf i first (length buf) v = None"
proof (induction fuel arbitrary: buf i first)
  case (Suc fuel)
  show ?case
  proof (cases "i + 1 < length buf")
    case True
    have "remove_loop fuel b (i + 1) f (length buf) v = None" if "length b = length buf" for b f
      using Suc.IH [of "i + 1" b f] True that by simp
    then show ?thesis using Suc.prems True
      by (auto simp: iter_pre_inc_def iter_post_inc_def Let_def arr_set_def)
  next
    case False
    then show ?thesis using Suc.prems by (simp add: iter_pre_inc_def Let_def)
  qed
qed simp

text \<open>
  over the iterators of a vector, \<open>std::remove\<close> of a value that is in the range reads
  past its end: \<open>++i\<close> is compared before the step.
\<close>

theorem std_remove_runs_over:
  assumes "v \<in> set buf"
  shows "std_remove buf 0 (length buf) v = None"
proof -
  have "length (takeWhile (\<lambda>x. x \<noteq> v) buf) < length buf"
    using assms by (induction buf) auto
  then show ?thesis
    using find_if_spec [of "\<lambda>x. x = v" buf 0]
    by (simp add: std_remove_def find_elem_eq remove_loop_runs_over del: remove_loop.simps)
qed

theorem std_remove_runs_over_witness: "std_remove [1, 2, 3 :: u8] 0 3 2 = None"
  using std_remove_runs_over [of 2 "[1, 2, 3 :: u8]"] by (simp add: numeral_3_eq_3)

section \<open>\<open>bitset\<close>\<close>

text \<open>
  \<open>n\<close> bits in \<open>n\<close> integers. \<open>bit / numBits\<close> and \<open>bit % numBits\<close> truncate towards zero: the bit
  numbers -31 to -1 are in the first integer too, with a negative shift count, of which the processor
  uses the low five bits; a smaller number gives a negative index, which is \<^const>\<open>None\<close>.
\<close>

type_synonym bitset = "u32 list"

definition bit_place :: "bitset \<Rightarrow> int \<Rightarrow> (nat \<times> nat) option" where
  "bit_place b i = (let w = (if i < 0 then - (- i div 32) else i div 32)
      in if w < 0 \<or> length b \<le> nat w then None else Some (nat w, nat (i mod 32)))"

(* src/include/std/bitset.hpp:38-41 bitset::set *)
definition bitset_set :: "bitset \<Rightarrow> int \<Rightarrow> bitset option" where
  "bitset_set b i = map_option (\<lambda>(w, k). b[w := b ! w OR push_bit k 1]) (bit_place b i)"

(* src/include/std/bitset.hpp:43-46 bitset::reset *)
definition bitset_reset :: "bitset \<Rightarrow> int \<Rightarrow> bitset option" where
  "bitset_reset b i = map_option (\<lambda>(w, k). b[w := b ! w AND NOT (push_bit k 1)]) (bit_place b i)"

(* src/include/std/bitset.hpp:48-51 bitset::flip *)
definition bitset_flip :: "bitset \<Rightarrow> int \<Rightarrow> bitset option" where
  "bitset_flip b i = map_option (\<lambda>(w, k). b[w := b ! w XOR push_bit k 1]) (bit_place b i)"

(* src/include/std/bitset.hpp:53-56 bitset::test *)
definition bitset_test :: "bitset \<Rightarrow> int \<Rightarrow> bool option" where
  "bitset_test b i = map_option (\<lambda>(w, k). b ! w AND push_bit k 1 \<noteq> 0) (bit_place b i)"

text \<open>The subscript shifts to the left instead of to the right.\<close>

(* src/include/std/bitset.hpp:58-61 bitset::operator[] *)
definition bitset_at :: "bitset \<Rightarrow> int \<Rightarrow> u32 option" where
  "bitset_at b i = map_option (\<lambda>(w, k). push_bit k (b ! w)) (bit_place b i)"

(* src/include/std/bitset.hpp:30-35 bitset::bitset *)
fun bitset_fill :: "u32 \<Rightarrow> nat \<Rightarrow> nat \<Rightarrow> bitset \<Rightarrow> bitset option" where
  "bitset_fill initialSet i 0 b = Some b"
| "bitset_fill initialSet i (Suc n) b =
     (if 32 \<le> i then None
      else Option.bind (if initialSet AND push_bit i 1 \<noteq> 0 then bitset_set b (int i) else Some b)
        (bitset_fill initialSet (Suc i) n))"

(* src/include/std/bitset.hpp:28-36 bitset::bitset *)
definition bitset_of :: "nat \<Rightarrow> u32 \<Rightarrow> bitset option" where
  "bitset_of n initialSet = bitset_fill initialSet 0 n (replicate n 0)"

lemma bitset_test_eq:
  assumes "0 \<le> i" and "nat (i div 32) < length b"
  shows "bitset_test b i = Some (bit (b ! nat (i div 32)) (nat (i mod 32)))"
proof -
  have "nat (i mod 32) < 32" by simp
  then show ?thesis using assms by (simp add: bitset_test_def bit_place_def Let_def pos_imp_zdiv_neg_iff and_exp_eq_0_iff_not_bit push_bit_eq_mult)
qed

lemma bit_numbers_eq:
  assumes "0 \<le> i" and "0 \<le> j"
  shows "nat (j div 32) = nat (i div 32) \<and> nat (j mod 32) = nat (i mod 32) \<longleftrightarrow> j = (i :: int)"
proof
  assume eq: "nat (j div 32) = nat (i div 32) \<and> nat (j mod 32) = nat (i mod 32)"
  have "0 \<le> i div 32" "0 \<le> j div 32" "0 \<le> i mod 32" "0 \<le> j mod 32" using assms by simp_all
  with eq have "j div 32 = i div 32" "j mod 32 = i mod 32" by (simp_all only: eq_nat_nat_iff)
  then show "j = i" by (metis div_mult_mod_eq)
qed simp

lemma bitset_update:
  assumes i: "0 \<le> i" "nat (i div 32) < length b" and j: "0 \<le> j" "nat (j div 32) < length b"
    and g: "\<And>w m. m < 32 \<Longrightarrow> bit (g w) m = (if m = nat (i mod 32) then c (bit w m) else bit w m)"
  shows "bitset_test (b[nat (i div 32) := g (b ! nat (i div 32))]) j
    = (if j = i then map_option c (bitset_test b j) else bitset_test b j)"
proof -
  have k: "nat (j mod 32) < 32" by simp
  show ?thesis
  proof (cases "nat (j div 32) = nat (i div 32)")
    case True
    then have "nat (j mod 32) = nat (i mod 32) \<longleftrightarrow> j = i" using bit_numbers_eq [OF i(1) j(1)] by blast
    then show ?thesis using True i j g [OF k] by (simp add: bitset_test_eq)
  next
    case False
    then have "j \<noteq> i" by auto
    then show ?thesis using False i j by (simp add: bitset_test_eq)
  qed
qed

text \<open>
  \<open>set\<close>, \<open>reset\<close> and \<open>flip\<close> change the bit they name, and no other.
\<close>

theorem bitset_operations:
  assumes i: "0 \<le> i" "nat (i div 32) < length b" and j: "0 \<le> j" "nat (j div 32) < length b"
  shows "(\<exists>b'. bitset_set b i = Some b' \<and> bitset_test b' j = (if j = i then Some True else bitset_test b j))
    \<and> (\<exists>b'. bitset_reset b i = Some b' \<and> bitset_test b' j = (if j = i then Some False else bitset_test b j))
    \<and> (\<exists>b'. bitset_flip b i = Some b'
        \<and> bitset_test b' j = (if j = i then map_option Not (bitset_test b j) else bitset_test b j))"
proof (intro conjI)
  have k: "nat (i mod 32) < 32" by simp
  note up = bitset_update [OF i j]
  have p: "push_bit (nat (i mod 32)) (1 :: u32) = 2 ^ nat (i mod 32)" by (simp add: push_bit_eq_mult)
  have place: "bit_place b i = Some (nat (i div 32), nat (i mod 32))" using i by (simp add: bit_place_def Let_def pos_imp_zdiv_neg_iff)
  have "bitset_test b j \<noteq> None" "bitset_test b i \<noteq> None" using i j by (simp_all add: bitset_test_eq)
  then obtain v u where v: "bitset_test b j = Some v" "bitset_test b i = Some u" by blast
  show "\<exists>b'. bitset_set b i = Some b' \<and> bitset_test b' j = (if j = i then Some True else bitset_test b j)"
    using up [of "\<lambda>w. w OR push_bit (nat (i mod 32)) 1" "\<lambda>_. True"] k
    by (simp add: bitset_set_def place p bit_or_2p v del: push_bit_numeral)
  show "\<exists>b'. bitset_reset b i = Some b' \<and> bitset_test b' j = (if j = i then Some False else bitset_test b j)"
    using up [of "\<lambda>w. w AND NOT (push_bit (nat (i mod 32)) 1)" "\<lambda>_. False"] k
    by (simp add: bitset_reset_def place p bit_and_not_2p v)
  show "\<exists>b'. bitset_flip b i = Some b'
      \<and> bitset_test b' j = (if j = i then map_option Not (bitset_test b j) else bitset_test b j)"
    using up [of "\<lambda>w. w XOR push_bit (nat (i mod 32)) 1" Not] k
    by (simp add: bitset_flip_def place p bit_xor_iff bit_exp_iff v)
qed

theorem bitset_operations_witness:
  "\<exists>b'. bitset_set [0, 0] 33 = Some b' \<and> bitset_test b' 33 = Some True"
  using bitset_operations [of 33 "[0, 0]" 33] by simp

end
