(* ===== verification/Messages.thy ===== *)
theory Messages
  imports Complex_Main Interfaces Std_Lib
begin

text \<open>
  Message passing of \<open>kernel/proc/message.cpp\<close>: a queue of at most 32 messages per port, and the
  post box that routes a message to the queue of its port. The vector of ports holds a pointer to
  each \<open>PortQueue\<close>, and nothing else does, so it is the list of the port queues here; its growth is
  \<open>Std_Lib.vector_push_all\<close>.
\<close>

section \<open>Messages and lists of messages\<close>

(* src/include/kernel/proc/message.hpp:29-42 Message *)
record message =
  source_thread :: int
  msg_data :: u8

(* src/kernel/proc/message.cpp:7-7 kMessageNull *)
definition kMessageNull :: message where
  "kMessageNull = \<lparr>source_thread = 0, msg_data = 0\<rparr>"

(* src/include/kernel/proc/message.hpp:44-47 operator== *)
definition message_eq :: "message \<Rightarrow> message \<Rightarrow> bool" where
  "message_eq m1 m2 \<longleftrightarrow> source_thread m1 = source_thread m2 \<and> msg_data m1 = msg_data m2"

(* src/include/kernel/proc/message.hpp:48-51 operator!= *)
definition message_neq :: "message \<Rightarrow> message \<Rightarrow> bool" where
  "message_neq m1 m2 \<longleftrightarrow> source_thread m1 \<noteq> source_thread m2 \<and> msg_data m1 \<noteq> msg_data m2"

text \<open>The conversion of a double to an \<open>int\<close> truncates; the quotient by 32 is exact in a double.\<close>

(* src/include/kernel/proc/message.hpp:16-19 floor *)
definition floor_d :: "rat \<Rightarrow> int" where
  "floor_d x = (let xi = (if 0 \<le> x then \<lfloor>x\<rfloor> else \<lceil>x\<rceil>) in if x < of_int xi then xi - 1 else xi)"

(* src/include/kernel/proc/message.hpp:56-60 MessageList *)
record msg_list =
  head_index :: int
  list_size :: int
  msg_array :: "message list"

(* src/include/kernel/proc/message.hpp:57-57 kMaxMessages *)
definition kMaxMessages :: int where
  "kMaxMessages = 32"

(* src/include/kernel/proc/message.hpp:63-66 MessageList::MessageList *)
definition new_msg_list :: msg_list where
  "new_msg_list = \<lparr>head_index = 0, list_size = 0, msg_array = replicate 32 kMessageNull\<rparr>"

(* src/include/kernel/proc/message.hpp:74-74 MessageList::wrap *)
definition msg_wrap :: "int \<Rightarrow> int" where
  "msg_wrap index = index - floor_d (of_int index / of_int kMaxMessages)"

(* src/kernel/proc/message.cpp:36-46 MessageList::push *)
definition msg_push :: "msg_list \<Rightarrow> message \<Rightarrow> (msg_list \<times> bool) option" where
  "msg_push q msg =
     (if list_size q < kMaxMessages then
        let i = msg_wrap (head_index q + list_size q)
        in if i < 0 then None
           else map_option (\<lambda>a. (q\<lparr>msg_array := a, list_size := list_size q + 1\<rparr>, True))
                  (arr_set (msg_array q) (nat i) msg)
      else Some (q, False))"

(* src/kernel/proc/message.cpp:48-55 MessageList::pop *)
definition msg_pop :: "msg_list \<Rightarrow> (msg_list \<times> message) option" where
  "msg_pop q =
     (if head_index q < 0 then None
      else map_option (\<lambda>m. (q\<lparr>head_index := msg_wrap (head_index q + 1), list_size := list_size q - 1\<rparr>, m))
             (arr_get (msg_array q) (nat (head_index q))))"

section \<open>The post box\<close>

(* src/include/kernel/proc/message.hpp:80-94 PortQueue *)
record port_queue =
  port :: int
  messages :: msg_list

type_synonym postbox = "port_queue list"

text \<open>The offset of the first port queue with the number, or the offset behind the last one.\<close>

(* src/kernel/proc/message.cpp:98-103 MessageQueue::search *)
definition search :: "postbox \<Rightarrow> int \<Rightarrow> nat option" where
  "search ports port_id = find_if (\<lambda>p. port p = port_id) ports 0 (length ports)"

(* src/kernel/proc/message.cpp:23-34 listen *)
definition listen :: "postbox \<Rightarrow> int \<Rightarrow> postbox option" where
  "listen ports port_id = do {
     port_it \<leftarrow> search ports port_id;
     Some (if port_it = length ports then ports @ [\<lparr>port = port_id, messages = new_msg_list\<rparr>] else ports)
   }"

(* src/kernel/proc/message.cpp:57-63 MessageQueue::push *)
definition mq_push :: "postbox \<Rightarrow> int \<Rightarrow> message \<Rightarrow> postbox option" where
  "mq_push ports port_id msg = do {
     port_it \<leftarrow> search ports port_id;
     if port_it \<noteq> length ports then do {
       p \<leftarrow> arr_get ports port_it;
       (q, ok) \<leftarrow> msg_push (messages p) msg;
       Some (ports[port_it := p\<lparr>messages := q\<rparr>])
     } else Some ports
   }"

(* src/kernel/proc/message.cpp:82-96 MessageQueue::pop *)
definition mq_pop :: "postbox \<Rightarrow> int \<Rightarrow> (postbox \<times> message) option" where
  "mq_pop ports port_id = do {
     port_it \<leftarrow> search ports port_id;
     if port_it \<noteq> length ports then do {
       p \<leftarrow> arr_get ports port_it;
       if list_size (messages p) > 0 then do {
         (q, m) \<leftarrow> msg_pop (messages p);
         Some (ports[port_it := p\<lparr>messages := q\<rparr>], m)
       } else Some (ports, kMessageNull)
     } else Some (ports, kMessageNull)
   }"

text \<open>The result of sending is always true; \<open>peek\<close> always answers the null pointer.\<close>

(* src/kernel/proc/message.cpp:11-21 SendMessage *)
definition send_message :: "postbox \<Rightarrow> int \<Rightarrow> int \<Rightarrow> u8 \<Rightarrow> (postbox \<times> bool) option" where
  "send_message ports port_id src_thread data =
     map_option (\<lambda>p. (p, True)) (mq_push ports port_id \<lparr>source_thread = src_thread, msg_data = data\<rparr>)"

(* src/kernel/proc/message.cpp:65-80 MessageQueue::peek *)
definition mq_peek :: "postbox \<Rightarrow> int \<Rightarrow> message option option" where
  "mq_peek ports port_id = map_option (\<lambda>_. None) (search ports port_id)"

text \<open>
  One pass of the inner loop of the thread that forwards the keyboard port to the terminal port,
  sending as thread \<open>self\<close>; the flag says whether the loop goes on.
\<close>

(* src/kernel/proc/message.cpp:113-118 postbox_debug *)
definition forward_step :: "postbox \<Rightarrow> int \<Rightarrow> (postbox \<times> bool) option" where
  "forward_step ports self = do {
     (ports, msg) \<leftarrow> mq_pop ports 1;
     if message_neq msg kMessageNull then do {
       (ports, ok) \<leftarrow> send_message ports 2 self (msg_data msg);
       Some (ports, True)
     } else Some (ports, False)
   }"

section \<open>The queue of a port\<close>

lemma floor_d_eq: "floor_d x = \<lfloor>x\<rfloor>"
proof (cases "0 \<le> x")
  case True
  have "\<not> x < of_int \<lfloor>x\<rfloor>" by (simp add: not_less)
  then show ?thesis using True by (simp add: floor_d_def Let_def)
next
  case False
  have "\<lfloor>x\<rfloor> = (if x < of_int \<lceil>x\<rceil> then \<lceil>x\<rceil> - 1 else \<lceil>x\<rceil>)"
    by (auto simp: floor_eq_iff) (linarith | simp add: not_less ceiling_less_iff)+
  then show ?thesis using False by (simp add: floor_d_def Let_def)
qed

lemma msg_wrap_eq: "msg_wrap i = i - i div 32"
proof -
  have "\<lfloor>of_int i / (32 :: rat)\<rfloor> = i div 32"
    using floor_divide_of_int_eq [of i 32, where 'a = rat] by simp
  then show ?thesis by (simp add: msg_wrap_def kMaxMessages_def floor_d_eq)
qed

text \<open>The index never comes back to the start of the array: 31 is a fixed point.\<close>

lemma msg_wrap_below: "0 \<le> i \<Longrightarrow> i < 32 \<Longrightarrow> msg_wrap i = i"
  by (simp add: msg_wrap_eq)

lemma msg_wrap_32: "msg_wrap 32 = 31"
  by (simp add: msg_wrap_eq)

definition msg_ok :: "msg_list \<Rightarrow> bool" where
  "msg_ok q \<longleftrightarrow> 0 \<le> head_index q \<and> head_index q \<le> 31 \<and> 0 \<le> list_size q
     \<and> head_index q + list_size q \<le> 32 \<and> length (msg_array q) = 32"

definition msg_contents :: "msg_list \<Rightarrow> message list" where
  "msg_contents q = take (nat (list_size q)) (drop (nat (head_index q)) (msg_array q))"

text \<open>Room that is used up is never given back.\<close>

definition msg_room :: "msg_list \<Rightarrow> nat" where
  "msg_room q = nat (32 - head_index q - list_size q)"

definition msg_deq :: "msg_list \<Rightarrow> (msg_list \<times> message option) option" where
  "msg_deq q = (if list_size q > 0 then map_option (\<lambda>(q', m). (q', Some m)) (msg_pop q) else Some (q, None))"

lemma msg_push_room:
  assumes ok: "msg_ok q" and room: "0 < msg_room q"
  shows "\<exists>q'. msg_push q m = Some (q', True) \<and> msg_ok q' \<and> msg_contents q' = msg_contents q @ [m]
    \<and> Suc (msg_room q') = msg_room q \<and> head_index q' = head_index q"
proof -
  obtain h n where hn: "head_index q = int h" "list_size q = int n"
    using ok by (metis msg_ok_def nonneg_int_cases)
  have b: "h + n < 32" "length (msg_array q) = 32" "h \<le> 31"
    using ok room by (auto simp: msg_ok_def msg_room_def hn)
  then have w: "msg_wrap (int h + int n) = int (h + n)" by (simp add: msg_wrap_below)
  let ?q = "q\<lparr>msg_array := (msg_array q)[h + n := m], list_size := int n + 1\<rparr>"
  have "msg_push q m = Some (?q, True)"
    using b w by (simp add: msg_push_def hn kMaxMessages_def Let_def nat_add_distrib)
  moreover have "msg_ok ?q" using b ok by (simp add: msg_ok_def hn)
  moreover have "nat (int n + 1) = Suc n" by simp
  then have "msg_contents ?q = msg_contents q @ [m]"
    using b by (simp add: msg_contents_def hn take_Suc_conv_app_nth drop_update_swap)
  ultimately show ?thesis using b by (simp add: msg_room_def hn Suc_nat_eq_nat_zadd1)
qed

lemma msg_deq_some:
  assumes ok: "msg_ok q" and xs: "msg_contents q = x # xs"
  shows "\<exists>q'. msg_deq q = Some (q', Some x) \<and> msg_ok q' \<and> msg_contents q' = xs \<and> msg_room q \<le> msg_room q'"
proof -
  obtain h n where hn: "head_index q = int h" "list_size q = int n"
    using ok by (metis msg_ok_def nonneg_int_cases)
  have b: "h + n \<le> 32" "length (msg_array q) = 32" "h \<le> 31" using ok by (auto simp: msg_ok_def hn)
  have "n \<noteq> 0" using xs by (cases n) (simp_all add: msg_contents_def hn)
  then obtain k where k: "n = Suc k" by (cases n) auto
  have "drop h (msg_array q) = msg_array q ! h # drop (Suc h) (msg_array q)"
    using b by (simp add: Cons_nth_drop_Suc)
  moreover have "take (Suc k) (drop h (msg_array q)) = x # xs"
    using xs by (simp add: msg_contents_def hn k del: of_nat_Suc)
  ultimately have x: "x = msg_array q ! h" and rest: "xs = take k (drop (Suc h) (msg_array q))"
    by simp_all
  let ?q = "q\<lparr>head_index := msg_wrap (int h + 1), list_size := int k\<rparr>"
  have deq: "msg_deq q = Some (?q, Some x)"
    using b x by (simp add: msg_deq_def msg_pop_def hn k)
  show ?thesis
  proof (cases "h = 31")
    case True
    then have "k = 0" using b k by simp
    moreover have "msg_wrap (int h + 1) = 31" using True msg_wrap_32 by simp
    ultimately show ?thesis using deq b rest by (simp add: msg_ok_def msg_contents_def msg_room_def hn k True)
  next
    case False
    then have "msg_wrap (int h + 1) = int (Suc h)" using b by (simp add: msg_wrap_below)
    then show ?thesis using deq b rest False
      by (simp add: msg_ok_def msg_contents_def msg_room_def hn k nat_add_distrib)
  qed
qed

interpretation port: bounded_queue msg_push msg_deq msg_contents msg_room msg_ok
proof unfold_locales
  show "\<exists>q'. msg_push q x = Some (q', True) \<and> msg_ok q' \<and> msg_contents q' = msg_contents q @ [x]
      \<and> msg_room q \<le> Suc (msg_room q')" if "msg_ok q" "0 < msg_room q" for q x
    using msg_push_room [OF that, of x] by fastforce
  show "msg_deq q = Some (q, None)" if "msg_ok q" "msg_contents q = []" for q
    using that by (auto simp: msg_deq_def msg_contents_def msg_ok_def)
  show "\<exists>q'. msg_deq q = Some (q', Some x) \<and> msg_ok q' \<and> msg_contents q' = xs \<and> msg_room q \<le> msg_room q'"
    if "msg_ok q" "msg_contents q = x # xs" for q x xs
    by (rule msg_deq_some [OF that])
qed

lemma new_msg_list_ok: "msg_ok new_msg_list" "msg_contents new_msg_list = []" "msg_room new_msg_list = 32"
  by (simp_all add: new_msg_list_def msg_ok_def msg_contents_def msg_room_def)

text \<open>
  Property C13: for the first 32 messages of its life, in any order of sending and receiving, the queue
  of a port neither loses, duplicates nor reorders a message.
\<close>

theorem message_list_fifo:
  assumes "enqs ops \<le> 32"
  shows "\<exists>q outs. queue_run msg_push msg_deq ops new_msg_list = Some (q, outs) \<and> msg_ok q
    \<and> spec_run ops [] = (msg_contents q, outs)"
  using port.run_refines [of new_msg_list ops] assms by (simp add: new_msg_list_ok)

theorem message_list_fifo_witness:
  "\<exists>q outs. queue_run msg_push msg_deq [Enq \<lparr>source_thread = 1, msg_data = 7\<rparr>, Deq, Deq] new_msg_list = Some (q, outs)
    \<and> outs = [Some \<lparr>source_thread = 1, msg_data = 7\<rparr>, None]"
  using message_list_fifo [of "[Enq \<lparr>source_thread = 1, msg_data = 7\<rparr>, Deq, Deq]"] by auto

text \<open>
  after that the queue is broken for good, because \<open>wrap\<close> does not wrap: a message that
  is sent when 32 have been sent before and some received is accepted, and overwrites the last one
  that is still waiting. The receiver gets the new message in its place, and with two of them
  waiting the last one is received twice.
\<close>

theorem message_list_overwrites:
  assumes ok: "msg_ok q" and full: "msg_room q = 0" and "0 < head_index q" and "msg_contents q = xs @ [x]"
  shows "\<exists>q'. msg_push q m = Some (q', True)
    \<and> take (length xs + 1) (drop (nat (head_index q')) (msg_array q')) = xs @ [m]
    \<and> list_size q' = int (length xs) + 2"
proof -
  obtain h n where hn: "head_index q = int h" "list_size q = int n"
    using ok by (metis msg_ok_def nonneg_int_cases)
  have b: "h + n = 32" "length (msg_array q) = 32" "0 < h" "h \<le> 31"
    using assms by (auto simp: msg_ok_def msg_room_def hn)
  have len: "length (msg_contents q) = n" using b by (simp add: msg_contents_def hn)
  then have n: "n = length xs + 1" using assms(4) by simp
  have "int h + int n = 32" using b by simp
  then have "msg_wrap (int h + int n) = 31" using msg_wrap_32 by simp
  then have push: "msg_push q m = Some (q\<lparr>msg_array := (msg_array q)[31 := m], list_size := int n + 1\<rparr>, True)"
    using b by (simp add: msg_push_def hn kMaxMessages_def Let_def)
  have d: "drop h (msg_array q) = xs @ [x]"
    using assms(4) b by (simp add: msg_contents_def hn)
  have "drop h ((msg_array q)[31 := m]) = (drop h (msg_array q))[31 - h := m]"
    using b by (simp add: drop_update_swap)
  also have "31 - h = length xs" using b n by simp
  finally have "drop h ((msg_array q)[31 := m]) = xs @ [m]" unfolding d by simp
  then show ?thesis using push n by (simp add: hn)
qed

definition sample_msg :: "u8 \<Rightarrow> message" where
  "sample_msg c = \<lparr>source_thread = 1, msg_data = c\<rparr>"

definition worn_msg_list :: msg_list where
  "worn_msg_list = \<lparr>head_index = 31, list_size = 1, msg_array = replicate 31 kMessageNull @ [sample_msg 7]\<rparr>"

theorem message_list_overwrites_witness:
  "\<exists>q'. msg_push worn_msg_list (sample_msg 8) = Some (q', True)
    \<and> take 1 (drop (nat (head_index q')) (msg_array q')) = [sample_msg 8]"
  using message_list_overwrites [of worn_msg_list "[]" "sample_msg 7" "sample_msg 8"]
  by (auto simp: worn_msg_list_def msg_ok_def msg_room_def msg_contents_def)

lemma message_received_twice:
  "\<exists>q1 q2 q3. msg_push worn_msg_list (sample_msg 8) = Some (q1, True)
    \<and> msg_deq q1 = Some (q2, Some (sample_msg 8)) \<and> msg_deq q2 = Some (q3, Some (sample_msg 8))"
  by (simp add: worn_msg_list_def msg_push_def msg_deq_def msg_pop_def kMaxMessages_def msg_wrap_eq Let_def
      nth_append)

text \<open>
  \<open>operator!=\<close> needs both fields to differ, so a message from thread 0, or with character 0, is
  not different from the null message, and ends the loop of the forwarding thread.
\<close>

lemma message_neq_null: "message_neq m kMessageNull \<longleftrightarrow> source_thread m \<noteq> 0 \<and> msg_data m \<noteq> 0"
  by (simp add: message_neq_def kMessageNull_def)

section \<open>Routing\<close>

text \<open>The abstract post box: which ports are listened to, and what waits there.\<close>

definition waiting :: "postbox \<Rightarrow> int \<rightharpoonup> message list" where
  "waiting ports pid = map_option (\<lambda>p. msg_contents (messages p)) (find (\<lambda>p. port p = pid) ports)"

lemma search_cases:
  obtains (missing) "search ports pid = Some (length ports)" and "find (\<lambda>p. port p = pid) ports = None"
    | (at) i p where "search ports pid = Some i" and "i < length ports" and "ports ! i = p" and "port p = pid"
      and "find (\<lambda>p. port p = pid) ports = Some p"
      and "\<And>p' pid'. port p' = pid \<Longrightarrow> find (\<lambda>p. port p = pid') (ports[i := p'])
             = (if pid' = pid then Some p' else find (\<lambda>p. port p = pid') ports)"
proof -
  let ?i = "length (takeWhile (\<lambda>p. port p \<noteq> pid) ports)"
  have search: "search ports pid = Some ?i"
    using find_if_spec [of "\<lambda>p. port p = pid" ports 0] by (simp add: search_def)
  have "?i = length ports \<and> find (\<lambda>p. port p = pid) ports = None \<or>
    ?i < length ports \<and> port (ports ! ?i) = pid \<and> find (\<lambda>p. port p = pid) ports = Some (ports ! ?i)
    \<and> (\<forall>p' pid'. port p' = pid \<longrightarrow> find (\<lambda>p. port p = pid') (ports[?i := p'])
             = (if pid' = pid then Some p' else find (\<lambda>p. port p = pid') ports))"
    by (induction ports) auto
  then show thesis using search missing at by (elim disjE conjE) auto
qed

text \<open>
  \<open>listen\<close> opens the port with nothing waiting, keeps the messages when it was open
  already, and touches no other port.
\<close>

theorem listen_opens:
  "\<exists>ports'. listen ports pid = Some ports'
    \<and> waiting ports' = (waiting ports)(pid \<mapsto> (case waiting ports pid of None \<Rightarrow> [] | Some ms \<Rightarrow> ms))"
proof (cases rule: search_cases [of ports pid])
  case missing
  have "waiting (ports @ [\<lparr>port = pid, messages = new_msg_list\<rparr>]) = (waiting ports)(pid \<mapsto> [])"
  proof
    fix pid'
    show "waiting (ports @ [\<lparr>port = pid, messages = new_msg_list\<rparr>]) pid' = ((waiting ports)(pid \<mapsto> [])) pid'"
    proof (cases "pid' = pid")
      case True
      then show ?thesis using missing(2) new_msg_list_ok(2)
        by (simp add: waiting_def find_append)
    next
      case False
      then show ?thesis by (simp add: waiting_def find_append split: option.split)
    qed
  qed
  moreover have "waiting ports pid = None" using missing(2) by (simp add: waiting_def)
  ultimately show ?thesis using missing(1) by (simp add: listen_def)
next
  case (at i p)
  then have "listen ports pid = Some ports" by (simp add: listen_def)
  moreover have "waiting ports pid = Some (msg_contents (messages p))" using at by (simp add: waiting_def)
  ultimately show ?thesis by (simp add: fun_upd_idem)
qed

lemma waiting_update:
  assumes "\<And>pid'. find (\<lambda>p. port p = pid') ports' = (if pid' = pid then Some p' else find (\<lambda>p. port p = pid') ports)"
  shows "waiting ports' = (waiting ports)(pid \<mapsto> msg_contents (messages p'))"
  by (rule ext) (simp add: waiting_def assms)

text \<open>
  Property C34: While every port has room, a message goes to the end of what waits at the port it is sent to and nowhere
  else; one that is sent to a port nobody listens to is dropped, and the sender is told it was sent. A
  port has room for 32 messages in all its life, as the places of its list are never given back.
\<close>

theorem send_message_routes:
  assumes "\<forall>p\<in>set ports. msg_ok (messages p) \<and> 0 < msg_room (messages p)"
  shows "\<exists>ports'. send_message ports pid src c = Some (ports', True)
    \<and> waiting ports' = (case waiting ports pid of
         None \<Rightarrow> waiting ports
       | Some ms \<Rightarrow> (waiting ports)(pid \<mapsto> ms @ [\<lparr>source_thread = src, msg_data = c\<rparr>]))"
proof (cases rule: search_cases [of ports pid])
  case missing
  then show ?thesis by (simp add: send_message_def mq_push_def waiting_def)
next
  case (at i p)
  let ?m = "\<lparr>source_thread = src, msg_data = c\<rparr>"
  have "p \<in> set ports" using at nth_mem by metis
  then have "msg_ok (messages p)" "0 < msg_room (messages p)" using assms by auto
  then obtain q where q: "msg_push (messages p) ?m = Some (q, True)" "msg_contents q = msg_contents (messages p) @ [?m]"
    using msg_push_room by blast
  have "waiting (ports[i := p\<lparr>messages := q\<rparr>]) = (waiting ports)(pid \<mapsto> msg_contents q)"
    using at(6) [of "p\<lparr>messages := q\<rparr>"] at(4) waiting_update [of "ports[i := p\<lparr>messages := q\<rparr>]" pid "p\<lparr>messages := q\<rparr>" ports]
    by simp
  moreover have "send_message ports pid src c = Some (ports[i := p\<lparr>messages := q\<rparr>], True)"
    using at q(1) by (simp add: send_message_def mq_push_def)
  moreover have "waiting ports pid = Some (msg_contents (messages p))" using at by (simp add: waiting_def)
  ultimately show ?thesis using q(2) by simp
qed

theorem send_message_routes_witness:
  "\<exists>ports'. send_message [\<lparr>port = 1, messages = new_msg_list\<rparr>, \<lparr>port = 2, messages = new_msg_list\<rparr>] 2 5 65
      = Some (ports', True) \<and> waiting ports' 2 = Some [\<lparr>source_thread = 5, msg_data = 65\<rparr>] \<and> waiting ports' 1 = Some []"
proof -
  let ?ports = "[\<lparr>port = 1, messages = new_msg_list\<rparr>, \<lparr>port = 2, messages = new_msg_list\<rparr>]"
  have "\<forall>p\<in>set ?ports. msg_ok (messages p) \<and> 0 < msg_room (messages p)" by (simp add: new_msg_list_ok)
  moreover have "waiting ?ports 1 = Some []" "waiting ?ports 2 = Some []"
    by (simp_all add: waiting_def new_msg_list_ok)
  ultimately show ?thesis using send_message_routes [of ?ports 2 5 65] by auto
qed

text \<open>Receiving takes the first message of the port, and answers the null message when there is none.\<close>

lemma mq_pop_receives:
  assumes "\<forall>p\<in>set ports. msg_ok (messages p)"
  shows "\<exists>ports' m. mq_pop ports pid = Some (ports', m)
    \<and> (case waiting ports pid of
         None \<Rightarrow> m = kMessageNull \<and> ports' = ports
       | Some [] \<Rightarrow> m = kMessageNull \<and> ports' = ports
       | Some (x # ms) \<Rightarrow> m = x \<and> waiting ports' = (waiting ports)(pid \<mapsto> ms))"
proof (cases rule: search_cases [of ports pid])
  case missing
  then show ?thesis by (simp add: mq_pop_def waiting_def)
next
  case (at i p)
  have "p \<in> set ports" using at nth_mem by metis
  then have ok: "msg_ok (messages p)" using assms by auto
  have w: "waiting ports pid = Some (msg_contents (messages p))" using at by (simp add: waiting_def)
  show ?thesis
  proof (cases "msg_contents (messages p)")
    case Nil
    have "\<not> 0 < list_size (messages p)"
      using ok Nil by (auto simp: msg_ok_def msg_contents_def)
    then show ?thesis using at w Nil by (simp add: mq_pop_def)
  next
    case (Cons x ms)
    from msg_deq_some [OF ok this] obtain q where q: "msg_deq (messages p) = Some (q, Some x)" "msg_contents q = ms"
      by blast
    then have pop: "0 < list_size (messages p)" "msg_pop (messages p) = Some (q, x)"
      by (auto simp: msg_deq_def split: if_splits)
    have "waiting (ports[i := p\<lparr>messages := q\<rparr>]) = (waiting ports)(pid \<mapsto> msg_contents q)"
      using at(6) [of "p\<lparr>messages := q\<rparr>"] at(4) waiting_update [of "ports[i := p\<lparr>messages := q\<rparr>]" pid "p\<lparr>messages := q\<rparr>" ports]
      by simp
    then show ?thesis using at pop q(2) w Cons by (simp add: mq_pop_def)
  qed
qed

section \<open>The queue behind a port\<close>

definition queue_at :: "postbox \<Rightarrow> int \<rightharpoonup> msg_list" where
  "queue_at ports pid = map_option messages (find (\<lambda>p. port p = pid) ports)"

lemma queue_at_update:
  assumes "\<And>pid'. find (\<lambda>p. port p = pid') ports' = (if pid' = pid then Some p' else find (\<lambda>p. port p = pid') ports)"
  shows "queue_at ports' = (queue_at ports)(pid \<mapsto> messages p')"
  by (rule ext) (simp add: queue_at_def assms)

lemma send_message_queue:
  assumes "queue_at ports pid = Some q" and "msg_push q \<lparr>source_thread = src, msg_data = c\<rparr> = Some (q', ok)"
  shows "\<exists>ports'. send_message ports pid src c = Some (ports', True) \<and> queue_at ports' = (queue_at ports)(pid \<mapsto> q')"
proof (cases rule: search_cases [of ports pid])
  case missing
  then show ?thesis using assms(1) by (simp add: queue_at_def)
next
  case (at i p)
  then have q: "messages p = q" using assms(1) by (simp add: queue_at_def)
  have "queue_at (ports[i := p\<lparr>messages := q'\<rparr>]) = (queue_at ports)(pid \<mapsto> q')"
    using at(6) [of "p\<lparr>messages := q'\<rparr>"] at(4)
      queue_at_update [of "ports[i := p\<lparr>messages := q'\<rparr>]" pid "p\<lparr>messages := q'\<rparr>" ports] by simp
  then show ?thesis using at assms(2) q by (simp add: send_message_def mq_push_def)
qed

lemma mq_pop_empty:
  assumes "queue_at ports pid = Some q" and "msg_ok q" and "msg_contents q = []"
  shows "mq_pop ports pid = Some (ports, kMessageNull)"
proof (cases rule: search_cases [of ports pid])
  case missing
  then show ?thesis using assms(1) by (simp add: queue_at_def)
next
  case (at i p)
  then have q: "messages p = q" using assms(1) by (simp add: queue_at_def)
  have "\<not> 0 < list_size q" using assms(2,3) by (auto simp: msg_ok_def msg_contents_def)
  then show ?thesis using at q by (simp add: mq_pop_def)
qed

lemma mq_pop_queue:
  assumes "queue_at ports pid = Some q" and "msg_deq q = Some (q', Some m)"
  shows "\<exists>ports'. mq_pop ports pid = Some (ports', m) \<and> queue_at ports' = (queue_at ports)(pid \<mapsto> q')"
proof (cases rule: search_cases [of ports pid])
  case missing
  then show ?thesis using assms(1) by (simp add: queue_at_def)
next
  case (at i p)
  then have q: "messages p = q" using assms(1) by (simp add: queue_at_def)
  have pop: "0 < list_size q" "msg_pop q = Some (q', m)"
    using assms(2) by (auto simp: msg_deq_def split: if_splits)
  have "queue_at (ports[i := p\<lparr>messages := q'\<rparr>]) = (queue_at ports)(pid \<mapsto> q')"
    using at(6) [of "p\<lparr>messages := q'\<rparr>"] at(4)
      queue_at_update [of "ports[i := p\<lparr>messages := q'\<rparr>]" pid "p\<lparr>messages := q'\<rparr>" ports] by simp
  then show ?thesis using at pop q by (simp add: mq_pop_def)
qed

end
