(* ===== verification/Mutex.thy ===== *)
theory Mutex
  imports Prelude
begin

text \<open>
  The locks of \<open>kernel/proc/mutex.cpp\<close>. First as sequential operations, where the wait loop of a
  lock nobody releases is \<^const>\<open>None\<close>, then as the steps between which the timer may switch
  threads: reading \<open>interlock\<close> in the loop of \<open>Lock\<close>, and its two stores.
\<close>

section \<open>The operations\<close>

(* src/include/kernel/proc/mutex.hpp:21-27 SpinlockMutex *)
record mutex =
  interlock :: int
  l_threadid :: int

text \<open>The constructor sets \<open>interlock\<close> only; \<open>raw\<close> is what \<open>l_threadid\<close> happened to hold.\<close>

definition new_mutex :: "int \<Rightarrow> mutex" where
  "new_mutex raw = \<lparr>interlock = 0, l_threadid = raw\<rparr>"

(* src/kernel/proc/mutex.cpp:5-10 SpinlockMutex::Lock *)
definition spin_lock :: "mutex \<Rightarrow> int \<Rightarrow> mutex option" where
  "spin_lock m thread_id =
     (if interlock m \<noteq> 0 then None else Some (m\<lparr>l_threadid := thread_id, interlock := 1\<rparr>))"

(* src/kernel/proc/mutex.cpp:12-17 SpinlockMutex::Unlock *)
definition spin_unlock :: "mutex \<Rightarrow> int \<Rightarrow> mutex" where
  "spin_unlock m thread_id =
     (if l_threadid m = thread_id then m\<lparr>interlock := 0, l_threadid := 0\<rparr> else m)"

(* src/kernel/proc/mutex.cpp:19-27 SpinlockMutex::TryLock *)
definition spin_try_lock :: "mutex \<Rightarrow> int \<Rightarrow> (mutex \<times> bool) option" where
  "spin_try_lock m thread_id =
     (if l_threadid m = 0 then map_option (\<lambda>m. (m, True)) (spin_lock m thread_id) else Some (m, False))"

(* src/kernel/proc/mutex.cpp:29-31 SpinlockMutex::Test *)
definition spin_test :: "mutex \<Rightarrow> bool" where
  "spin_test m \<longleftrightarrow> interlock m \<noteq> 0"

text \<open>\<open>Wait\<close> returns when \<open>Test\<close> is true, that is, when the lock is taken.\<close>

(* src/kernel/proc/mutex.cpp:33-35 SpinlockMutex::Wait *)
definition spin_wait :: "mutex \<Rightarrow> unit option" where
  "spin_wait m = (if \<not> spin_test m then None else Some ())"

(* src/kernel/proc/mutex.cpp:38-41 RecursiveMutex::Lock *)
definition rec_lock :: "mutex \<Rightarrow> int \<Rightarrow> mutex" where
  "rec_lock m thread_id = m\<lparr>l_threadid := thread_id, interlock := interlock m + 1\<rparr>"

(* src/kernel/proc/mutex.cpp:43-48 RecursiveMutex::Unlock *)
definition rec_unlock :: "mutex \<Rightarrow> int \<Rightarrow> mutex" where
  "rec_unlock m thread_id =
     (if l_threadid m = thread_id \<and> interlock m > 1
      then m\<lparr>interlock := interlock m - 1, l_threadid := 0\<rparr> else m)"

(* src/kernel/proc/mutex.cpp:50-58 RecursiveMutex::TryLock *)
definition rec_try_lock :: "mutex \<Rightarrow> int \<Rightarrow> mutex \<times> bool" where
  "rec_try_lock m thread_id =
     (if l_threadid m = thread_id \<or> l_threadid m = 0 then (rec_lock m thread_id, True) else (m, False))"

(* src/kernel/proc/mutex.cpp:60-62 RecursiveMutex::Test *)
definition rec_test :: "mutex \<Rightarrow> bool" where
  "rec_test m \<longleftrightarrow> interlock m \<noteq> 0"

(* src/kernel/proc/mutex.cpp:64-66 RecursiveMutex::Wait *)
definition rec_wait :: "mutex \<Rightarrow> unit option" where
  "rec_wait m = (if \<not> rec_test m then None else Some ())"

text \<open>The scoped lock: what runs between its constructor and its destructor is \<open>body\<close>.\<close>

(* src/include/kernel/proc/mutex.hpp:6-19 Locker *)
definition locker :: "mutex \<Rightarrow> int \<Rightarrow> (mutex \<Rightarrow> mutex option) \<Rightarrow> mutex option" where
  "locker m thread_id body = do {
     m \<leftarrow> spin_lock m thread_id;
     m \<leftarrow> body m;
     Some (spin_unlock m thread_id)
   }"

text \<open>
  a spin lock that is free is taken by its caller, and a scoped lock gives it back: after
  a body that leaves the lock alone the lock is free for any thread; taking it again inside the scope,
  by whichever thread, never returns, and only the owner can release it.
\<close>

theorem spin_lock_contract:
  assumes "interlock m = 0"
  shows "(\<exists>m'. spin_lock m t = Some m' \<and> spin_test m' \<and> l_threadid m' = t
       \<and> (\<forall>u. spin_lock m' u = None) \<and> (\<forall>u. u = t \<or> spin_unlock m' u = m'))
    \<and> (\<exists>m'. locker m t Some = Some m' \<and> \<not> spin_test m' \<and> l_threadid m' = 0)"
  using assms by (auto simp: spin_lock_def spin_test_def spin_unlock_def locker_def)

theorem spin_lock_contract_witness:
  "\<exists>m'. spin_lock (new_mutex 0) 3 = Some m' \<and> spin_test m' \<and> spin_lock m' 4 = None"
  using spin_lock_contract [of "new_mutex 0" 3] by (auto simp: new_mutex_def)

text \<open>
  a recursive lock is never released: once it has been locked, no sequence of unlocks,
  by any threads, makes it free again, and a thread that unlocked it as often as it locked it still
  keeps every other thread from getting it.
\<close>

theorem recursive_never_free:
  assumes "0 \<le> interlock m"
  shows "rec_test (foldl rec_unlock (rec_lock m t) us)
    \<and> (interlock m = 0 \<longrightarrow> rec_unlock (rec_lock m t) t = rec_lock m t)
    \<and> (interlock m = 0 \<longrightarrow> u \<noteq> t \<longrightarrow> t \<noteq> 0 \<longrightarrow> snd (rec_try_lock (rec_unlock (rec_lock m t) t) u) = False)"
proof -
  have "1 \<le> interlock (foldl rec_unlock m' us)" if "1 \<le> interlock m'" for m'
    using that by (induction us arbitrary: m') (auto simp: rec_unlock_def)
  then have "1 \<le> interlock (foldl rec_unlock (rec_lock m t) us)" using assms by (simp add: rec_lock_def)
  then show ?thesis by (auto simp: rec_test_def rec_unlock_def rec_lock_def rec_try_lock_def)
qed

theorem recursive_never_free_witness:
  "rec_test (foldl rec_unlock (rec_lock (new_mutex 0) 3) [3, 3, 3])"
  by (rule recursive_never_free [THEN conjunct1]) (simp add: new_mutex_def)

lemma wait_returns_when_taken: "spin_wait m = Some () \<longleftrightarrow> spin_test m"
  by (simp add: spin_wait_def)

section \<open>Threads in between\<close>

text \<open>
  Where a thread is in its use of one lock: outside, behind the loop of \<open>Lock\<close>, between its two
  stores, or in the section the lock guards.
\<close>

datatype lock_pc = Outside | Tested | Stored | Inside

record lock_state =
  the_mutex :: mutex
  pc :: "int \<Rightarrow> lock_pc"

(* src/kernel/proc/mutex.cpp:5-17 SpinlockMutex::Lock *)
inductive lock_step :: "lock_state \<Rightarrow> lock_state \<Rightarrow> bool" where
  test: "pc s t = Outside \<Longrightarrow> interlock (the_mutex s) = 0 \<Longrightarrow>
     lock_step s (s\<lparr>pc := (pc s)(t := Tested)\<rparr>)"
| store_id: "pc s t = Tested \<Longrightarrow>
     lock_step s (s\<lparr>the_mutex := (the_mutex s)\<lparr>l_threadid := t\<rparr>, pc := (pc s)(t := Stored)\<rparr>)"
| store_lock: "pc s t = Stored \<Longrightarrow>
     lock_step s (s\<lparr>the_mutex := (the_mutex s)\<lparr>interlock := 1\<rparr>, pc := (pc s)(t := Inside)\<rparr>)"
| unlock: "pc s t = Inside \<Longrightarrow>
     lock_step s (s\<lparr>the_mutex := spin_unlock (the_mutex s) t, pc := (pc s)(t := Outside)\<rparr>)"

inductive_cases lock_stepE: "lock_step s s'"

inductive_simps lock_step_iff: "lock_step s s'"

inductive reaches :: "lock_state \<Rightarrow> lock_state \<Rightarrow> bool" where
  here: "reaches s s"
| step: "reaches s s' \<Longrightarrow> lock_step s' s'' \<Longrightarrow> reaches s s''"

definition lock_init :: lock_state where
  "lock_init = \<lparr>the_mutex = new_mutex 0, pc = (\<lambda>_. Outside)\<rparr>"

text \<open>
  Property C38: the spin lock does not exclude: from a free lock, any two different threads can be
  brought to be in the guarded section together, with a switch between the test and the store.
\<close>

theorem spin_lock_not_exclusive:
  assumes "t \<noteq> u"
  shows "\<exists>s. reaches lock_init s \<and> pc s t = Inside \<and> pc s u = Inside"
proof -
  let ?m = "new_mutex 0"
  let ?f = "(\<lambda>_. Outside)(t := Tested, u := Tested)"
  have "lock_step lock_init (lock_init\<lparr>pc := (pc lock_init)(t := Tested)\<rparr>)"
    by (rule lock_step.test) (simp_all add: lock_init_def new_mutex_def)
  then have 1: "reaches lock_init \<lparr>the_mutex = ?m, pc = (\<lambda>_. Outside)(t := Tested)\<rparr>"
    using reaches.step [OF reaches.here] by (simp add: lock_init_def)
  have 2: "reaches lock_init \<lparr>the_mutex = ?m, pc = ?f\<rparr>"
    using reaches.step [OF 1 lock_step.test [of _ u]] assms by (simp add: new_mutex_def)
  have 3: "reaches lock_init \<lparr>the_mutex = ?m\<lparr>l_threadid := t\<rparr>, pc = ?f(t := Stored)\<rparr>"
    using reaches.step [OF 2 lock_step.store_id [of _ t]] assms by simp
  have 4: "reaches lock_init \<lparr>the_mutex = ?m\<lparr>l_threadid := t, interlock := 1\<rparr>, pc = ?f(t := Stored, t := Inside)\<rparr>"
    using reaches.step [OF 3 lock_step.store_lock [of _ t]] by simp
  have 5: "reaches lock_init \<lparr>the_mutex = ?m\<lparr>l_threadid := u, interlock := 1\<rparr>,
      pc = ?f(t := Stored, t := Inside, u := Stored)\<rparr>"
    using reaches.step [OF 4 lock_step.store_id [of _ u]] assms by (simp add: new_mutex_def)
  have 6: "reaches lock_init \<lparr>the_mutex = ?m\<lparr>l_threadid := u, interlock := 1\<rparr>,
      pc = ?f(t := Stored, t := Inside, u := Stored, u := Inside)\<rparr>"
    using reaches.step [OF 5 lock_step.store_lock [of _ u]] assms by (simp add: new_mutex_def)
  show ?thesis by (intro exI conjI, rule 6) (use assms in simp_all)
qed

theorem spin_lock_not_exclusive_witness:
  "\<exists>s. reaches lock_init s \<and> pc s 1 = Inside \<and> pc s 2 = Inside"
  by (rule spin_lock_not_exclusive) simp

text \<open>
  What holds of every interleaving: \<open>interlock\<close> is 0 or 1.
\<close>

lemma interlock_binary: "interlock (the_mutex s) \<in> {0, 1}" if "reaches lock_init s"
proof -
  have "interlock (the_mutex a) \<in> {0, 1} \<Longrightarrow> interlock (the_mutex b) \<in> {0, 1}" if "reaches a b" for a b
    using that
  proof induction
    case (step s s' s'')
    then show ?case by (auto elim!: lock_stepE simp: spin_unlock_def split: if_splits)
  qed
  from this [OF that] show ?thesis by (simp add: lock_init_def new_mutex_def)
qed

end
