(* ===== verification/Ring_Buffer.thy ===== *)
theory Ring_Buffer
  imports Interfaces
begin

text \<open>
  The byte ring buffer of \<open>kernel/std/ringbuffer.cpp\<close>: \<open>head\<close> is where the next byte is written,
  \<open>tail\<close> where the next one is read, and one place is always left free. It is a bounded queue.
\<close>

section \<open>State and operations\<close>

(* src/include/std/ringbuffer.hpp:6-11 buffer_t *)
record ring =
  rb_head :: u32
  rb_tail :: u32
  rb_size :: u32
  rb_buffer :: "u8 list"

(* src/kernel/std/ringbuffer.cpp:3-17 buffer_read *)
definition buffer_read :: "ring \<Rightarrow> (ring \<times> int) option" where
  "buffer_read b =
     (if rb_head b = rb_tail b then Some (b, -1)
      else do {
        data \<leftarrow> arr_get (rb_buffer b) (unat (rb_tail b));
        let nxt = rb_tail b + 1;
        let nxt = (if nxt \<ge> rb_size b then 0 else nxt);
        Some (b\<lparr>rb_tail := nxt\<rparr>, uint data)
      })"

(* src/kernel/std/ringbuffer.cpp:19-32 buffer_write *)
definition buffer_write :: "ring \<Rightarrow> u8 \<Rightarrow> (ring \<times> int) option" where
  "buffer_write b v =
     (let nxt = rb_head b + 1;
          nxt = (if nxt \<ge> rb_size b then 0 else nxt)
      in if nxt = rb_tail b then Some (b, -1)
         else do {
           buf \<leftarrow> arr_set (rb_buffer b) (unat (rb_head b)) v;
           Some (b\<lparr>rb_buffer := buf, rb_head := nxt\<rparr>, 0)
         })"

text \<open>Clearing blanks the bytes; \<open>head\<close> and \<open>tail\<close> stay where they are.\<close>

fun clear_from :: "u8 list \<Rightarrow> nat \<Rightarrow> nat \<Rightarrow> u8 list option" where
  "clear_from buf idx 0 = Some buf"
| "clear_from buf idx (Suc n) = Option.bind (arr_set buf idx 0) (\<lambda>buf. clear_from buf (Suc idx) n)"

(* src/kernel/std/ringbuffer.cpp:34-39 buffer_clear *)
definition buffer_clear :: "ring \<Rightarrow> (ring \<times> int) option" where
  "buffer_clear b = map_option (\<lambda>buf. (b\<lparr>rb_buffer := buf\<rparr>, 0)) (clear_from (rb_buffer b) 0 (unat (rb_size b)))"

section \<open>The bytes in the buffer\<close>

definition ring_ok :: "ring \<Rightarrow> bool" where
  "ring_ok b \<longleftrightarrow> unat (rb_size b) = length (rb_buffer b) \<and> rb_head b < rb_size b \<and> rb_tail b < rb_size b"

definition ring_count :: "ring \<Rightarrow> nat" where
  "ring_count b = (unat (rb_head b) + length (rb_buffer b) - unat (rb_tail b)) mod length (rb_buffer b)"

definition ring_contents :: "ring \<Rightarrow> u8 list" where
  "ring_contents b =
     map (\<lambda>i. rb_buffer b ! ((unat (rb_tail b) + i) mod length (rb_buffer b))) [0..<ring_count b]"

definition ring_room :: "ring \<Rightarrow> nat" where
  "ring_room b = length (rb_buffer b) - 1 - ring_count b"

lemma mod_wrap: "x < 2 * n \<Longrightarrow> x mod n = (if x < n then x else x - (n :: nat))"
  by (simp add: mod_if)

lemma ring_bounds:
  assumes "ring_ok b"
  shows "unat (rb_head b) < length (rb_buffer b)" and "unat (rb_tail b) < length (rb_buffer b)"
    and "unat (rb_size b) = length (rb_buffer b)" and "ring_count b < length (rb_buffer b)"
proof -
  show h: "unat (rb_head b) < length (rb_buffer b)" "unat (rb_tail b) < length (rb_buffer b)"
    "unat (rb_size b) = length (rb_buffer b)"
    using assms by (auto simp: ring_ok_def word_less_nat_alt)
  show "ring_count b < length (rb_buffer b)"
    unfolding ring_count_def using h(1) by (intro mod_less_divisor) linarith
qed

lemma ring_head:
  assumes "ring_ok b"
  shows "(unat (rb_tail b) + ring_count b) mod length (rb_buffer b) = unat (rb_head b)"
  using ring_bounds [OF assms] by (auto simp: ring_count_def mod_wrap)

lemma ring_place_inject:
  assumes "t < n" and "i < n" and "j < n" and "(t + i) mod n = (t + j) mod n"
  shows "i = (j :: nat)"
  using assms by (auto simp: mod_wrap split: if_splits)

lemma ring_next:
  assumes "i < sz" and "unat (sz :: u32) = n"
  shows "unat (if i + 1 \<ge> sz then 0 else i + 1) = (unat i + 1) mod n"
    and "(if i + 1 \<ge> sz then 0 else i + 1) < sz"
proof -
  have "unat i + 1 \<le> n" using assms by (simp add: word_less_nat_alt)
  then have "unat (i + 1) = unat i + 1 \<or> unat i + 1 = 4294967296"
    using assms(2) unat_u32_less [of sz] by (auto simp: unat_word_ariths)
  moreover have "n < 4294967296" using assms(2) unat_u32_less [of sz] by simp
  ultimately have u: "unat (i + 1) = unat i + 1" using \<open>unat i + 1 \<le> n\<close> by linarith
  show "unat (if i + 1 \<ge> sz then 0 else i + 1) = (unat i + 1) mod n"
    using u assms \<open>unat i + 1 \<le> n\<close> by (auto simp: word_le_nat_alt)
  show "(if i + 1 \<ge> sz then 0 else i + 1) < sz"
    using u assms by (auto simp: word_le_nat_alt word_less_nat_alt)
qed

lemma ring_count_unique:
  assumes "unat (rb_tail b) < length (rb_buffer b)" and "c < length (rb_buffer b)"
    and "unat (rb_head b) = (unat (rb_tail b) + c) mod length (rb_buffer b)"
  shows "ring_count b = c"
  using assms by (auto simp: ring_count_def mod_wrap)

lemma buffer_write_room:
  assumes ok: "ring_ok b" and room: "0 < ring_room b"
  shows "\<exists>b'. buffer_write b v = Some (b', 0) \<and> ring_ok b'
    \<and> ring_contents b' = ring_contents b @ [v] \<and> ring_room b = Suc (ring_room b')"
proof -
  let ?n = "length (rb_buffer b)" and ?t = "unat (rb_tail b)" and ?h = "unat (rb_head b)" and ?c = "ring_count b"
  note bounds = ring_bounds [OF ok]
  define nxt where "nxt = (if rb_head b + 1 \<ge> rb_size b then 0 else rb_head b + 1)"
  have "rb_head b < rb_size b" using ok by (simp add: ring_ok_def)
  note nxt = ring_next [OF this bounds(3), folded nxt_def]
  have c: "Suc ?c < ?n" using room by (simp add: ring_room_def)
  have place: "unat nxt = (?t + Suc ?c) mod ?n"
    using nxt(1) ring_head [OF ok] by (metis Suc_eq_plus1 add_Suc_right mod_Suc_eq)
  have "nxt \<noteq> rb_tail b"
  proof
    assume "nxt = rb_tail b"
    then have "(?t + Suc ?c) mod ?n = (?t + 0) mod ?n" using place bounds(2) by simp
    moreover have "0 < ?n" using c by linarith
    ultimately show False using ring_place_inject [OF bounds(2) c, of 0] by blast
  qed
  let ?b = "b\<lparr>rb_buffer := (rb_buffer b)[?h := v], rb_head := nxt\<rparr>"
  have "buffer_write b v = Some (?b, 0)"
    using \<open>nxt \<noteq> rb_tail b\<close> bounds(1) by (simp add: buffer_write_def nxt_def Let_def)
  moreover have "ring_ok ?b" using ok nxt(2) by (simp add: ring_ok_def)
  moreover have count: "ring_count ?b = Suc ?c"
    using c bounds place by (intro ring_count_unique) simp_all
  moreover have "ring_contents ?b = ring_contents b @ [v]"
  proof -
    have "(?t + i) mod ?n \<noteq> ?h" if "i < ?c" for i
      using ring_place_inject [OF bounds(2), of i ?c] that c ring_head [OF ok] by auto
    then have "\<forall>i\<in>{0..<?c}. (rb_buffer b)[?h := v] ! ((?t + i) mod ?n) = rb_buffer b ! ((?t + i) mod ?n)"
      by (metis atLeastLessThan_iff nth_list_update_neq)
    then show ?thesis
      unfolding ring_contents_def count using ring_head [OF ok] bounds by simp
  qed
  ultimately show ?thesis using c by (simp add: ring_room_def)
qed

lemma buffer_read_empty:
  assumes "ring_ok b" and "ring_contents b = []"
  shows "buffer_read b = Some (b, -1)"
proof -
  have "ring_count b = 0" using assms(2) by (simp add: ring_contents_def)
  then have "unat (rb_tail b) = unat (rb_head b)"
    using ring_head [OF assms(1)] ring_bounds [OF assms(1)] by simp
  then have "rb_head b = rb_tail b" by (intro unat_eqI) simp
  then show ?thesis by (simp add: buffer_read_def)
qed

lemma buffer_read_some:
  assumes ok: "ring_ok b" and xs: "ring_contents b = x # xs"
  shows "\<exists>b'. buffer_read b = Some (b', uint x) \<and> ring_ok b' \<and> ring_contents b' = xs
    \<and> ring_room b' = Suc (ring_room b)"
proof -
  let ?n = "length (rb_buffer b)" and ?t = "unat (rb_tail b)" and ?h = "unat (rb_head b)" and ?c = "ring_count b"
  note bounds = ring_bounds [OF ok]
  have "length (ring_contents b) = ?c" by (simp add: ring_contents_def)
  then obtain c where c: "?c = Suc c" using xs by (cases ?c) auto
  have "rb_head b \<noteq> rb_tail b"
  proof
    assume "rb_head b = rb_tail b"
    then have "(?t + ?c) mod ?n = (?t + 0) mod ?n" using ring_head [OF ok] bounds(2) by simp
    moreover have "0 < ?n" using bounds(2) by linarith
    ultimately show False using ring_place_inject [OF bounds(2) bounds(4)] c by fastforce
  qed
  define nxt where "nxt = (if rb_tail b + 1 \<ge> rb_size b then 0 else rb_tail b + 1)"
  have "rb_tail b < rb_size b" using ok by (simp add: ring_ok_def)
  note nxt = ring_next [OF this bounds(3), folded nxt_def]
  have cs: "map (\<lambda>i. rb_buffer b ! ((?t + i) mod ?n)) [0..<Suc c] = x # xs"
    using xs by (simp add: ring_contents_def c)
  then have "x = rb_buffer b ! ?t" using bounds(2) by (simp add: upt_conv_Cons del: upt_Suc)
  then have "buffer_read b = Some (b\<lparr>rb_tail := nxt\<rparr>, uint x)"
    using \<open>rb_head b \<noteq> rb_tail b\<close> bounds(2) by (simp add: buffer_read_def nxt_def Let_def)
  moreover have "ring_ok (b\<lparr>rb_tail := nxt\<rparr>)" using ok nxt(2) by (simp add: ring_ok_def)
  moreover have move: "(unat nxt + i) mod ?n = (?t + Suc i) mod ?n" for i
    using nxt(1) by (simp add: mod_simps)
  then have count: "ring_count (b\<lparr>rb_tail := nxt\<rparr>) = c"
    using c bounds nxt(2) ring_head [OF ok] ring_bounds(2) [OF \<open>ring_ok (b\<lparr>rb_tail := nxt\<rparr>)\<close>]
    by (intro ring_count_unique) simp_all
  moreover have "ring_contents (b\<lparr>rb_tail := nxt\<rparr>) = xs"
  proof -
    have "xs = map (\<lambda>i. rb_buffer b ! ((?t + Suc i) mod ?n)) [0..<c]"
      using cs by (simp add: map_upt_Suc del: upt_Suc)
    then show ?thesis unfolding ring_contents_def count by (simp add: move)
  qed
  ultimately show ?thesis using c bounds by (simp add: ring_room_def)
qed

section \<open>The ring buffer is a queue\<close>

text \<open>The results of the C functions: -1 for a full or an empty buffer.\<close>

definition ring_enq :: "ring \<Rightarrow> u8 \<Rightarrow> (ring \<times> bool) option" where
  "ring_enq b v = map_option (\<lambda>(b', r). (b', r = 0)) (buffer_write b v)"

definition ring_deq :: "ring \<Rightarrow> (ring \<times> u8 option) option" where
  "ring_deq b = map_option (\<lambda>(b', r). (b', if r = -1 then None else Some (word_of_int r))) (buffer_read b)"

interpretation ring: bounded_queue ring_enq ring_deq ring_contents ring_room ring_ok
proof unfold_locales
  show "\<exists>b'. ring_enq b v = Some (b', True) \<and> ring_ok b' \<and> ring_contents b' = ring_contents b @ [v]
      \<and> ring_room b \<le> Suc (ring_room b')" if "ring_ok b" "0 < ring_room b" for b v
    using buffer_write_room [OF that, of v] by (auto simp: ring_enq_def)
  show "ring_deq b = Some (b, None)" if "ring_ok b" "ring_contents b = []" for b
    using buffer_read_empty [OF that] by (simp add: ring_deq_def)
  show "\<exists>b'. ring_deq b = Some (b', Some x) \<and> ring_ok b' \<and> ring_contents b' = xs \<and> ring_room b \<le> ring_room b'"
    if b: "ring_ok b" "ring_contents b = x # xs" for b x xs
  proof -
    have "uint x \<noteq> -1" using uint_ge_0 [of x] by linarith
    moreover obtain b' where b': "buffer_read b = Some (b', uint x)" "ring_ok b'" "ring_contents b' = xs"
      "ring_room b' = Suc (ring_room b)" using buffer_read_some [OF b] by blast
    ultimately have "ring_deq b = Some (b', Some x)" by (simp add: ring_deq_def)
    then show ?thesis using b' by auto
  qed
qed

text \<open>
  a full buffer refuses the byte and keeps every byte it holds; it is full when all
  places but one are taken.
\<close>

theorem buffer_write_full:
  assumes ok: "ring_ok b" and full: "ring_room b = 0"
  shows "buffer_write b v = Some (b, -1)"
proof -
  let ?n = "length (rb_buffer b)" and ?t = "unat (rb_tail b)"
  note bounds = ring_bounds [OF ok]
  have "rb_head b < rb_size b" using ok by (simp add: ring_ok_def)
  note nxt = ring_next(1) [OF this bounds(3)]
  have "Suc (ring_count b) = ?n" using full bounds(4) by (simp add: ring_room_def)
  then have "?t + ring_count b + 1 = ?t + ?n" by simp
  then have "(?t + ring_count b + 1) mod ?n = ?t" using bounds(2) by (simp only: mod_add_self2 mod_less)
  then have "unat (if rb_head b + 1 \<ge> rb_size b then 0 else rb_head b + 1) = ?t"
    using nxt ring_head [OF ok] by (metis mod_add_left_eq)
  then have "(if rb_head b + 1 \<ge> rb_size b then 0 else rb_head b + 1) = rb_tail b" by (rule unat_eqI)
  then show ?thesis by (simp add: buffer_write_def Let_def)
qed

theorem buffer_write_full_witness:
  "buffer_write \<lparr>rb_head = 1, rb_tail = 2, rb_size = 3, rb_buffer = [1, 2, 3]\<rparr> 9
    = Some (\<lparr>rb_head = 1, rb_tail = 2, rb_size = 3, rb_buffer = [1, 2, 3]\<rparr>, -1)"
  by (rule buffer_write_full) (simp_all add: ring_ok_def ring_room_def ring_count_def)

section \<open>Writes and reads in any order\<close>

text \<open>Any sequence of calls, with the values the two functions return.\<close>

fun ring_run :: "u8 queue_op list \<Rightarrow> ring \<Rightarrow> (ring \<times> int list) option" where
  "ring_run [] b = Some (b, [])"
| "ring_run (Enq v # ops) b = do {
     (b, r) \<leftarrow> buffer_write b v;
     (b, rs) \<leftarrow> ring_run ops b;
     Some (b, r # rs)
   }"
| "ring_run (Deq # ops) b = do {
     (b, r) \<leftarrow> buffer_read b;
     (b, rs) \<leftarrow> ring_run ops b;
     Some (b, r # rs)
   }"

text \<open>What a queue of at most \<open>cap\<close> bytes does and answers.\<close>

fun bounded_run :: "nat \<Rightarrow> u8 queue_op list \<Rightarrow> u8 list \<Rightarrow> u8 list \<times> int list" where
  "bounded_run cap [] xs = (xs, [])"
| "bounded_run cap (Enq v # ops) xs =
     (if length xs < cap then let (ys, rs) = bounded_run cap ops (xs @ [v]) in (ys, 0 # rs)
      else let (ys, rs) = bounded_run cap ops xs in (ys, -1 # rs))"
| "bounded_run cap (Deq # ops) [] = (let (ys, rs) = bounded_run cap ops [] in (ys, -1 # rs))"
| "bounded_run cap (Deq # ops) (x # xs) = (let (ys, rs) = bounded_run cap ops xs in (ys, uint x # rs))"

lemma buffer_write_length: "buffer_write b v = Some (b', r) \<Longrightarrow> length (rb_buffer b') = length (rb_buffer b)"
  by (auto simp: buffer_write_def Let_def arr_set_def split: if_splits bind_splits)

lemma buffer_read_length: "buffer_read b = Some (b', r) \<Longrightarrow> length (rb_buffer b') = length (rb_buffer b)"
  by (auto simp: buffer_read_def Let_def split: if_splits bind_splits)

text \<open>
  Property C20: The ring buffer is a first-in first-out queue that holds one byte less than it has places: any sequence
  of writes and reads, from any state, runs without a fault, and every call returns what such a queue
  answers: 0 for a byte that is taken, -1 for one that is refused because the buffer is full, the oldest
  byte, and -1 when there is none.
\<close>

theorem ring_buffer_fifo:
  assumes "ring_ok b"
  shows "\<exists>b' rs. ring_run ops b = Some (b', rs) \<and> ring_ok b'
    \<and> bounded_run (length (rb_buffer b) - 1) ops (ring_contents b) = (ring_contents b', rs)"
  using assms
proof (induction ops arbitrary: b)
  case (Cons e ops)
  have len: "length (ring_contents b) = ring_count b" by (simp add: ring_contents_def)
  show ?case
  proof (cases e)
    case (Enq v)
    show ?thesis
    proof (cases "ring_room b = 0")
      case True
      then show ?thesis
        using buffer_write_full [OF Cons.prems True, of v] Cons.IH [OF Cons.prems] len
        by (auto simp: Enq ring_room_def)
    next
      case False
      then obtain b1 where b1: "buffer_write b v = Some (b1, 0)" "ring_ok b1" "ring_contents b1 = ring_contents b @ [v]"
        using buffer_write_room [OF Cons.prems, of v] by auto
      then show ?thesis
        using Cons.IH [OF b1(2)] buffer_write_length [OF b1(1)] len False by (auto simp: Enq ring_room_def)
    qed
  next
    case Deq
    show ?thesis
    proof (cases "ring_contents b")
      case Nil
      then show ?thesis using buffer_read_empty [OF Cons.prems Nil] Cons.IH [OF Cons.prems] by (auto simp: Deq)
    next
      case (Cons x xs)
      with buffer_read_some [OF Cons.prems Cons] obtain b1 where
        b1: "buffer_read b = Some (b1, uint x)" "ring_ok b1" "ring_contents b1 = xs" by blast
      then show ?thesis using Cons.IH [OF b1(2)] buffer_read_length [OF b1(1)] Cons by (auto simp: Deq)
    qed
  qed
qed simp

definition sample_ring :: ring where
  "sample_ring = \<lparr>rb_head = 2, rb_tail = 2, rb_size = 3, rb_buffer = [1, 2, 3]\<rparr>"

theorem ring_buffer_fifo_witness:
  "\<exists>b. ring_run [Enq 7, Enq 8, Enq 9, Deq, Deq, Deq] sample_ring = Some (b, [0, 0, -1, 7, 8, -1])"
proof -
  have "ring_ok sample_ring" "ring_contents sample_ring = []" "length (rb_buffer sample_ring) - 1 = 2"
    by (simp_all add: sample_ring_def ring_ok_def ring_count_def ring_contents_def)
  then show ?thesis using ring_buffer_fifo [of sample_ring "[Enq 7, Enq 8, Enq 9, Deq, Deq, Deq]"] by auto
qed

text \<open>Clearing does not empty the buffer: as many bytes as before can be read, all zero.\<close>

lemma clear_from_eq:
  "i + n \<le> length buf \<Longrightarrow> clear_from buf i n = Some (take i buf @ replicate n 0 @ drop (i + n) buf)"
proof (induction n arbitrary: i buf)
  case (Suc n)
  then have "i < length buf" by simp
  then have "take (Suc i) (buf[i := 0]) = take i buf @ [0]" by (simp add: take_Suc_conv_app_nth)
  then show ?case using Suc.IH [of "Suc i" "buf[i := 0]"] Suc.prems by simp
qed simp

lemma buffer_clear_keeps_count:
  assumes "ring_ok b"
  shows "\<exists>b'. buffer_clear b = Some (b', 0) \<and> ring_contents b' = replicate (ring_count b) 0"
proof -
  note bounds = ring_bounds [OF assms]
  have "clear_from (rb_buffer b) 0 (unat (rb_size b)) = Some (replicate (length (rb_buffer b)) 0)"
    using clear_from_eq [of 0 "unat (rb_size b)" "rb_buffer b"] bounds(3) by simp
  moreover have "0 < length (rb_buffer b)" using bounds(1) by linarith
  ultimately show ?thesis
    by (auto simp: buffer_clear_def ring_contents_def ring_count_def intro!: nth_equalityI)
qed

end
