(* ===== verification/Keyboard.thy ===== *)
theory Keyboard
  imports Ring_Buffer Messages
begin

text \<open>
  The keyboard driver of \<open>kernel/drivers/keyboard.cpp\<close>: the scan code table, the interrupt handler
  that fills the ring buffer, and the reader that sends what it reads to port 1. The values the
  handler reads from the ports \<open>0x64\<close> and \<open>0x60\<close> are arguments.
\<close>

section \<open>The driver\<close>

(* src/kernel/drivers/keyboard.cpp:11-53 keyboard_map *)
definition keyboard_map :: "u8 list" where
  "keyboard_map =
     [0, 27,
      0x31, 0x32, 0x33, 0x34, 0x35, 0x36, 0x37, 0x38, 0x39, 0x30,
      0x2D, 0x3D,
      8,
      9,
      0x71, 0x77, 0x65, 0x72,
      0x74, 0x79, 0x75, 0x69, 0x6F, 0x70,
      0x5B, 0x5D, 10,
      0,
      0x61, 0x73, 0x64, 0x66, 0x67, 0x68, 0x6A, 0x6B, 0x6C, 0x3B,
      0x27, 0x60, 0,
      0x5C, 0x7A, 0x78, 0x63, 0x76, 0x62, 0x6E,
      0x6D, 0x2C, 0x2E, 0x2F, 0,
      0x2A,
      0,
      0x20,
      0,
      0,
      0, 0, 0, 0, 0, 0, 0, 0,
      0,
      0,
      0,
      0,
      0,
      0,
      0x2D,
      0,
      0,
      0,
      0x2B,
      0,
      0,
      0,
      0,
      0,
      0, 0, 0,
      0,
      0,
      0] @ replicate 38 0"

(* src/kernel/drivers/keyboard.cpp:55-56 keyboard_buffer *)
definition keyboard_buffer :: ring where
  "keyboard_buffer = \<lparr>rb_head = 0, rb_tail = 0, rb_size = 512, rb_buffer = replicate 512 0\<rparr>"

text \<open>\<open>keycode\<close> is a signed character: the codes from 128 on, of the keys that are released, are negative.\<close>

(* src/kernel/drivers/keyboard.cpp:77-93 keyboard_irq *)
definition keyboard_irq :: "u8 \<Rightarrow> u8 \<Rightarrow> ring \<Rightarrow> ring option" where
  "keyboard_irq status keycode b =
     (if status AND 0x01 \<noteq> 0 then
        if sint keycode < 0 then Some b
        else do {
          c \<leftarrow> arr_get keyboard_map (unat keycode);
          (b, ok) \<leftarrow> buffer_write b c;
          Some b
        }
      else Some b)"

text \<open>
  The body of the loop of \<open>getc\<close>: the value read is stored in a signed character before it is compared
  with -1. \<open>hlt\<close> waits for an interrupt: the next of \<open>irqs\<close>, each a pair of the status and the scan
  code; with none to come the processor stays halted. After 1024 rounds the function returns no value.
\<close>

(* src/kernel/drivers/keyboard.cpp:60-74 getc *)
fun getc_loop :: "nat \<Rightarrow> (u8 \<times> u8) list \<Rightarrow> ring \<Rightarrow> postbox \<Rightarrow> int \<Rightarrow>
    (u8 \<times> (u8 \<times> u8) list \<times> ring \<times> postbox) option" where
  "getc_loop 0 irqs b ports self = None"
| "getc_loop (Suc loops) irqs b ports self = do {
     (b, r) \<leftarrow> buffer_read b;
     let c = (word_of_int r :: u8);
     if sint c = -1 then
       (case irqs of
          [] \<Rightarrow> None
        | (status, keycode) # irqs \<Rightarrow> do {
            b \<leftarrow> keyboard_irq status keycode b;
            getc_loop loops irqs b ports self
          })
     else do {
       (ports, ok) \<leftarrow> send_message ports 1 self c;
       Some (c, irqs, b, ports)
     }
   }"

(* src/kernel/drivers/keyboard.cpp:58-75 getc *)
definition getc :: "(u8 \<times> u8) list \<Rightarrow> ring \<Rightarrow> postbox \<Rightarrow> int \<Rightarrow> (u8 \<times> (u8 \<times> u8) list \<times> ring \<times> postbox) option" where
  "getc irqs b ports self = getc_loop 1024 irqs b ports self"

text \<open>
  One round of the loop of \<open>kb_update\<close>, with the index \<open>i\<close> the next round starts with, or \<^const>\<open>None\<close>
  when the loop was left. The characters are stored in the array of the ring buffer itself.
\<close>

(* src/kernel/drivers/keyboard.cpp:102-117 kb_update *)
definition kb_round :: "nat \<Rightarrow> u8 \<Rightarrow> ring \<Rightarrow> (ring \<times> nat option) option" where
  "kb_round i c b =
     (if c = 10 then map_option (\<lambda>a. (b\<lparr>rb_buffer := a\<rparr>, None)) (arr_set (rb_buffer b) i 0)
      else if c = 8 then Some (b, Some (i + 1))
      else map_option (\<lambda>a. (b\<lparr>rb_buffer := a\<rparr>, Some (i + 2))) (arr_set (rb_buffer b) i c))"

section \<open>What the interrupt handler does\<close>

lemma keyboard_map_length [simp]: "length keyboard_map = 128"
  by (simp add: keyboard_map_def)

text \<open>No key is mapped to the byte that \<open>getc\<close> takes for the empty buffer.\<close>

lemma keyboard_map_ascii: "\<forall>c \<in> set keyboard_map. unat c < 128"
  by (simp add: keyboard_map_def)

lemma keyboard_buffer_ok:
  "ring_ok keyboard_buffer" "ring_contents keyboard_buffer = []" "ring_room keyboard_buffer = 511"
  by (simp_all add: keyboard_buffer_def ring_ok_def ring_contents_def ring_count_def ring_room_def)

definition key_pressed :: "u8 \<Rightarrow> u8 \<Rightarrow> bool" where
  "key_pressed status keycode \<longleftrightarrow> status AND 0x01 \<noteq> 0 \<and> unat keycode < 128"

text \<open>The characters of a sequence of interrupts.\<close>

definition typed :: "(u8 \<times> u8) list \<Rightarrow> u8 list" where
  "typed irqs = map (\<lambda>(status, keycode). keyboard_map ! unat keycode) (filter (\<lambda>(s, k). key_pressed s k) irqs)"

lemma sint_u8_neg: "sint (k :: u8) < 0 \<longleftrightarrow> 128 \<le> unat k"
proof -
  define n where "n = unat k"
  have "uint k = int n" "n < 256" by (simp_all add: n_def)
  then show ?thesis unfolding sint_u8 n_def [symmetric] by auto
qed

lemma keyboard_irq_ignored: "\<not> key_pressed status keycode \<Longrightarrow> keyboard_irq status keycode b = Some b"
  by (auto simp: keyboard_irq_def key_pressed_def sint_u8_neg)

lemma keyboard_irq_pressed:
  assumes ok: "ring_ok b" and room: "0 < ring_room b" and key: "key_pressed status keycode"
  shows "\<exists>b'. keyboard_irq status keycode b = Some b' \<and> ring_ok b' \<and> ring_room b \<le> Suc (ring_room b')
    \<and> ring_contents b' = ring_contents b @ [keyboard_map ! unat keycode]"
proof -
  obtain b' where b': "buffer_write b (keyboard_map ! unat keycode) = Some (b', 0)" "ring_ok b'"
    "ring_contents b' = ring_contents b @ [keyboard_map ! unat keycode]" "ring_room b \<le> Suc (ring_room b')"
    using ring.enq_room [OF ok room, of "keyboard_map ! unat keycode"]
    by (auto simp: ring_enq_def split: option.splits)
  then show ?thesis using key by (simp add: keyboard_irq_def key_pressed_def sint_u8_neg)
qed

fun irqs_run :: "(u8 \<times> u8) list \<Rightarrow> ring \<Rightarrow> ring option" where
  "irqs_run [] b = Some b"
| "irqs_run ((status, keycode) # irqs) b = Option.bind (keyboard_irq status keycode b) (irqs_run irqs)"

lemma irqs_run_contents:
  assumes "ring_ok b" and "length (typed irqs) \<le> ring_room b"
  shows "\<exists>b'. irqs_run irqs b = Some b' \<and> ring_ok b' \<and> ring_contents b' = ring_contents b @ typed irqs"
  using assms
proof (induction irqs arbitrary: b)
  case (Cons i irqs)
  obtain status keycode where i: "i = (status, keycode)" by (cases i)
  show ?case
  proof (cases "key_pressed status keycode")
    case True
    then have t: "typed (i # irqs) = keyboard_map ! unat keycode # typed irqs" by (simp add: typed_def i)
    then have "0 < ring_room b" using Cons.prems(2) by simp
    from keyboard_irq_pressed [OF Cons.prems(1) this True]
    obtain b1 where b1: "keyboard_irq status keycode b = Some b1" "ring_ok b1" "ring_room b \<le> Suc (ring_room b1)"
      "ring_contents b1 = ring_contents b @ [keyboard_map ! unat keycode]" by blast
    then have "length (typed irqs) \<le> ring_room b1" using Cons.prems(2) t by simp
    from Cons.IH [OF b1(2) this] show ?thesis using b1 t by (auto simp: i)
  next
    case False
    then have "typed (i # irqs) = typed irqs" by (simp add: typed_def i)
    then show ?thesis using Cons keyboard_irq_ignored [OF False] by (simp add: i)
  qed
qed (simp add: typed_def)

lemma typed_ascii: "c \<in> set (typed irqs) \<Longrightarrow> unat c < 128"
proof -
  assume "c \<in> set (typed irqs)"
  then obtain k :: u8 where k: "c = keyboard_map ! unat k" "unat k < length keyboard_map"
    by (auto simp: typed_def key_pressed_def)
  from nth_mem [OF k(2)] show ?thesis using keyboard_map_ascii k(1) by simp
qed

section \<open>From the keys to the port\<close>

lemma getc_ready:
  assumes "ring_ok b" and "ring_contents b = c # cs" and "unat c < 128"
    and "send_message ports 1 self c = Some (ports', ok)"
  shows "\<exists>b'. getc irqs b ports self = Some (c, irqs, b', ports') \<and> ring_ok b' \<and> ring_contents b' = cs"
proof -
  obtain b' where b': "buffer_read b = Some (b', uint c)" "ring_ok b'" "ring_contents b' = cs"
    using buffer_read_some [OF assms(1,2)] by blast
  have "\<not> sint c < 0" using assms(3) by (simp add: sint_u8_neg)
  then have "sint c \<noteq> -1" by linarith
  then have "getc_loop (Suc 1023) irqs b ports self = Some (c, irqs, b', ports')"
    unfolding getc_loop.simps by (simp add: b'(1) assms(4))
  then show ?thesis using b' by (simp add: getc_def)
qed

fun getc_many :: "nat \<Rightarrow> ring \<Rightarrow> postbox \<Rightarrow> int \<Rightarrow> (u8 list \<times> ring \<times> postbox) option" where
  "getc_many 0 b ports self = Some ([], b, ports)"
| "getc_many (Suc n) b ports self = do {
     (c, _, b, ports) \<leftarrow> getc [] b ports self;
     (cs, b, ports) \<leftarrow> getc_many n b ports self;
     Some (c # cs, b, ports)
   }"

fun send_all :: "postbox \<Rightarrow> int \<Rightarrow> u8 list \<Rightarrow> postbox option" where
  "send_all ports self [] = Some ports"
| "send_all ports self (c # cs) = do {
     (ports, ok) \<leftarrow> send_message ports 1 self c;
     send_all ports self cs
   }"

lemma getc_many_reads:
  assumes "ring_ok b" and "ring_contents b = cs" and "\<forall>c \<in> set cs. unat c < 128"
    and "send_all ports self cs = Some ports'"
  shows "\<exists>b'. getc_many (length cs) b ports self = Some (cs, b', ports') \<and> ring_ok b' \<and> ring_contents b' = []"
  using assms
proof (induction cs arbitrary: b ports)
  case (Cons c cs)
  obtain p1 ok where p1: "send_message ports 1 self c = Some (p1, ok)" "send_all p1 self cs = Some ports'"
    using Cons.prems(4) by (auto split: Option.bind_splits)
  have "unat c < 128" using Cons.prems(3) by simp
  from getc_ready [OF Cons.prems(1,2) this p1(1), of "[]"]
  obtain b1 where b1: "getc [] b ports self = Some (c, [], b1, p1)" "ring_ok b1" "ring_contents b1 = cs" by blast
  have "\<forall>c \<in> set cs. unat c < 128" using Cons.prems(3) by simp
  from Cons.IH [OF b1(2,3) this p1(2)] show ?case using b1(1) by auto
qed simp

text \<open>
  The characters of the keys that are pressed, however the interrupts of released keys and spurious
  ones come in between, are read by \<open>getc\<close> in the order they were typed, none lost, and are sent to
  port 1 in that order, as long as no more than the free places of the buffer are typed ahead.
\<close>

theorem keyboard_in_order:
  assumes "ring_ok b" and "ring_contents b = []" and "length (typed irqs) \<le> ring_room b"
    and "send_all ports self (typed irqs) = Some ports'"
  shows "\<exists>b1 b2. irqs_run irqs b = Some b1
    \<and> getc_many (length (typed irqs)) b1 ports self = Some (typed irqs, b2, ports')
    \<and> ring_ok b2 \<and> ring_contents b2 = []"
proof -
  obtain b1 where b1: "irqs_run irqs b = Some b1" "ring_ok b1" "ring_contents b1 = typed irqs"
    using irqs_run_contents [OF assms(1,3)] assms(2) by auto
  from getc_many_reads [OF b1(2,3) _ assms(4)] typed_ascii show ?thesis using b1(1) by blast
qed

theorem keyboard_in_order_witness:
  "\<exists>b1 b2. irqs_run [(1, 0x23), (1, 0xA3), (1, 0x17)] keyboard_buffer = Some b1
    \<and> getc_many 2 b1 [] 4 = Some ([0x68, 0x69], b2, [])"
proof -
  have t: "typed [(1, 0x23), (1, 0xA3), (1, 0x17)] = [0x68, 0x69]"
    by (simp add: typed_def key_pressed_def keyboard_map_def)
  have "send_all [] 4 (typed [(1, 0x23), (1, 0xA3), (1, 0x17)]) = Some []"
    unfolding t by (simp add: send_message_def mq_push_def search_def find_if.simps)
  moreover have "length (typed [(1, 0x23), (1, 0xA3), (1, 0x17)]) \<le> ring_room keyboard_buffer"
    by (simp add: t keyboard_buffer_ok)
  ultimately obtain b1 b2 where "irqs_run [(1, 0x23), (1, 0xA3), (1, 0x17)] keyboard_buffer = Some b1"
    "getc_many (length (typed [(1, 0x23), (1, 0xA3), (1, 0x17)])) b1 [] 4
      = Some (typed [(1, 0x23), (1, 0xA3), (1, 0x17)], b2, [])"
    using keyboard_in_order [OF keyboard_buffer_ok(1,2)] by blast
  moreover have "length [0x68, 0x69 :: u8] = 2" by simp
  ultimately show ?thesis unfolding t by metis
qed

text \<open>
  The reader stores into the array the interrupt handler fills: after 256 ordinary characters on one
  line the next one is stored outside it.
\<close>

lemma kb_round_overrun:
  assumes "length (rb_buffer b) = 512" and "c \<noteq> 10" and "c \<noteq> 8"
  shows "kb_round (2 * n) c b = None \<longleftrightarrow> 256 \<le> n"
  using assms by (auto simp: kb_round_def arr_set_def)

end
