(* ===== verification/ATA.thy ===== *)
theory ATA
  imports Interfaces
begin

text \<open>
  The disk driver of \<open>kernel/drivers/ata.cpp\<close>, over a drive that answers on the ports of the driver
  as the ATA standard lays down for programmed input: the registers of a 28-bit block address, the
  status with its busy, ready and data request bits, and the words of the selected sectors on the data
  port. A drive works on a command for as long as \<open>d_busy\<close> sleeps of the driver.
\<close>

section \<open>The drive\<close>

record drive =
  d_sectors :: "nat \<Rightarrow> u16 list"
  d_identify :: "u16 list"
  d_count :: u8
  d_sector :: u8
  d_cyl_lo :: u8
  d_cyl_hi :: u8
  d_fdh :: u8
  d_latency :: nat
  d_busy :: nat
  d_data :: "u16 list"

definition d_lba :: "drive \<Rightarrow> nat" where
  "d_lba d = unat (d_sector d) + unat (d_cyl_lo d) * 2 ^ 8 + unat (d_cyl_hi d) * 2 ^ 16
     + unat (d_fdh d AND 0x0F) * 2 ^ 24"

text \<open>Offsets of the registers from the base port; reading the data port takes a word off the queue.\<close>

(* src/include/kernel/drivers/ata.hpp:18-27 ATA_DATA *)
datatype ata_reg =
  ATA_DATA | ATA_ERROR | ATA_COUNT | ATA_SECTOR | ATA_CYL_LO | ATA_CYL_HI | ATA_FDH | ATA_COMMAND | ATA_CTRL

definition drive_out :: "ata_reg \<Rightarrow> u8 \<Rightarrow> drive \<Rightarrow> drive" where
  "drive_out reg v d =
     (case reg of
        ATA_COUNT \<Rightarrow> d\<lparr>d_count := v\<rparr>
      | ATA_SECTOR \<Rightarrow> d\<lparr>d_sector := v\<rparr>
      | ATA_CYL_LO \<Rightarrow> d\<lparr>d_cyl_lo := v\<rparr>
      | ATA_CYL_HI \<Rightarrow> d\<lparr>d_cyl_hi := v\<rparr>
      | ATA_FDH \<Rightarrow> d\<lparr>d_fdh := v\<rparr>
      | ATA_CTRL \<Rightarrow> if v AND 0x04 \<noteq> 0 then d\<lparr>d_data := []\<rparr> else d
      | ATA_COMMAND \<Rightarrow>
          if v = 0x20 then
            d\<lparr>d_data := concat (map (d_sectors d) [d_lba d..<d_lba d + (if d_count d = 0 then 256 else unat (d_count d))]),
              d_busy := d_latency d\<rparr>
          else if v = 0xEC then d\<lparr>d_data := d_identify d, d_busy := d_latency d\<rparr>
          else d
      | _ \<Rightarrow> d)"

definition drive_status :: "drive \<Rightarrow> u8" where
  "drive_status d = (if 0 < d_busy d then 0x80 else if d_data d \<noteq> [] then 0x48 else 0x40)"

definition drive_in :: "drive \<Rightarrow> u16 \<times> drive" where
  "drive_in d =
     (if 0 < d_busy d then (0xFFFF, d)
      else case d_data d of [] \<Rightarrow> (0xFFFF, d) | w # ws \<Rightarrow> (w, d\<lparr>d_data := ws\<rparr>))"

definition drive_sleep :: "drive \<Rightarrow> drive" where
  "drive_sleep d = d\<lparr>d_busy := d_busy d - 1\<rparr>"

section \<open>The driver\<close>

(* src/kernel/drivers/ata.cpp:9-12 device_offsets *)
definition device_offsets :: "nat \<Rightarrow> nat \<Rightarrow> u16 option" where
  "device_offsets bus drv =
     Option.bind (arr_get [[0x1F0, 0x170], [0x1E8, 0x168]] bus) (\<lambda>offsets. arr_get offsets drv)"

(* src/kernel/drivers/ata.cpp:97-103 ATA::reset *)
definition ata_reset :: "drive \<Rightarrow> drive" where
  "ata_reset d = drive_out ATA_CTRL 0 (drive_out ATA_CTRL 0x04 d)"

text \<open>The status is read at times 0 to 11, with a sleep in between; \<open>n\<close> sleeps are left.\<close>

(* src/kernel/drivers/ata.cpp:110-121 ATA::wait *)
fun wait_loop :: "nat \<Rightarrow> u8 \<Rightarrow> u8 \<Rightarrow> drive \<Rightarrow> drive \<times> bool" where
  "wait_loop 0 bits waitForState d = (d, drive_status d AND bits = waitForState)"
| "wait_loop (Suc n) bits waitForState d =
     (if drive_status d AND bits = waitForState then (d, True)
      else wait_loop n bits waitForState (drive_sleep d))"

(* src/kernel/drivers/ata.cpp:105-124 ATA::wait *)
definition ata_wait :: "u8 \<Rightarrow> u8 \<Rightarrow> drive \<Rightarrow> drive \<times> bool" where
  "ata_wait bits waitForState d = wait_loop 11 bits waitForState d"

text \<open>The answer of \<open>wait\<close> is not looked at, here and in the reads.\<close>

(* src/kernel/drivers/ata.cpp:126-146 ATA::prepare *)
definition ata_prepare :: "nat \<Rightarrow> u8 \<Rightarrow> u32 \<Rightarrow> u32 \<Rightarrow> drive \<Rightarrow> drive" where
  "ata_prepare drv command num_blocks offset d =
     (let flags = 0x80 OR 0x40 OR 0x20 :: u32;
          flags = (if drv = 1 then flags OR 0x10 else flags);
          flags = flags OR (signed_drop_bit 24 offset AND 0xFF);
          d = fst (ata_wait (0x80 OR 0x40) 0x40 d);
          d = drive_out ATA_CTRL 0 d;
          d = drive_out ATA_COUNT (ucast num_blocks) d;
          d = drive_out ATA_SECTOR (ucast offset) d;
          d = drive_out ATA_CYL_LO (ucast (signed_drop_bit 8 offset AND 0xFF)) d;
          d = drive_out ATA_CYL_HI (ucast (signed_drop_bit 16 offset AND 0xFF)) d;
          d = drive_out ATA_FDH (ucast flags) d
      in drive_out ATA_COMMAND command d)"

text \<open>\<open>n\<close> words from the data port into a buffer, from index \<open>i\<close> on.\<close>

fun read_words :: "u16 list \<Rightarrow> nat \<Rightarrow> nat \<Rightarrow> drive \<Rightarrow> (u16 list \<times> drive) option" where
  "read_words buf i 0 d = Some (buf, d)"
| "read_words buf i (Suc n) d =
     (let (w, d) = drive_in d
      in Option.bind (arr_set buf i w) (\<lambda>buf. read_words buf (Suc i) n d))"

(* src/kernel/drivers/ata.cpp:47-59 ATA::readPIO *)
definition readPIO :: "nat \<Rightarrow> drive \<Rightarrow> (u16 list \<times> drive) option" where
  "readPIO sz d = read_words (replicate sz 0) 0 (sz div 2) d"

text \<open>A device that is not there answers with all bits set; the drive of the model is there.\<close>

(* src/kernel/drivers/ata.cpp:14-45 ATA::initialise *)
definition ata_initialise :: "nat \<Rightarrow> drive \<Rightarrow> drive option" where
  "ata_initialise drv d =
     (let flags = 0x80 OR 0x40 OR 0x20 :: u8;
          flags = (if drv = 1 then flags OR 0x10 else flags);
          connected = drive_status d
      in if connected = 0xFF then Some d
         else
           let d = ata_reset d;
               d = fst (ata_wait 0x80 0 d);
               d = drive_out ATA_CTRL 0 d;
               d = drive_out ATA_COUNT 0 d;
               d = drive_out ATA_SECTOR 0 d;
               d = drive_out ATA_CYL_LO 0 d;
               d = drive_out ATA_CYL_HI 0 d;
               d = drive_out ATA_FDH flags d;
               d = drive_out ATA_COMMAND 0xEC d;
               d = fst (ata_wait 0x08 0x08 d)
           in map_option snd (readPIO 512 d))"

(* src/kernel/drivers/ata.cpp:153-161 ATA::read_u16 *)
fun read_blocks_u16 :: "u16 list \<Rightarrow> nat \<Rightarrow> nat \<Rightarrow> drive \<Rightarrow> (u16 list \<times> drive) option" where
  "read_blocks_u16 buf block 0 d = Some (buf, d)"
| "read_blocks_u16 buf block (Suc n) d = do {
     let d = fst (ata_wait 0x08 0x08 d);
     (buf, d) \<leftarrow> read_words buf (block * 512 div 2) 256 d;
     read_blocks_u16 buf (Suc block) n d
   }"

(* src/kernel/drivers/ata.cpp:148-164 ATA::read_u16 *)
definition read_u16 :: "nat \<Rightarrow> u32 \<Rightarrow> u32 \<Rightarrow> drive \<Rightarrow> (u16 list \<times> drive) option" where
  "read_u16 drv num_blocks offset d =
     read_blocks_u16 (replicate (unat (num_blocks * 512 div 2)) 0) 0 (unat num_blocks)
       (ata_prepare drv 0x20 num_blocks offset d)"

text \<open>The loop that splits words into bytes: \<open>n\<close> words are left, from \<open>i\<close> on.\<close>

(* src/kernel/drivers/ata.cpp:182-185 ATA::read_u8 *)
fun split_words :: "u8 list \<Rightarrow> u16 list \<Rightarrow> nat \<Rightarrow> nat \<Rightarrow> u8 list option" where
  "split_words buf short i 0 = Some buf"
| "split_words buf short i (Suc n) = do {
     w \<leftarrow> arr_get short i;
     buf \<leftarrow> arr_set buf (i * 2) (ucast w);
     buf \<leftarrow> arr_set buf (i * 2 + 1) (ucast (drop_bit 8 w AND 0xFF));
     split_words buf short (Suc i) n
   }"

text \<open>The offset of a block is counted in bytes, also for the buffer of words, and the bytes of every
  block are split from the first block's words to the start of the buffer.\<close>

(* src/kernel/drivers/ata.cpp:172-186 ATA::read_u8 *)
fun read_blocks_u8 :: "u8 list \<Rightarrow> u16 list \<Rightarrow> nat \<Rightarrow> nat \<Rightarrow> drive \<Rightarrow> (u8 list \<times> drive) option" where
  "read_blocks_u8 buf short block 0 d = Some (buf, d)"
| "read_blocks_u8 buf short block (Suc n) d = do {
     let d = fst (ata_wait 0x08 0x08 d);
     (short, d) \<leftarrow> read_words short (block * 512) 256 d;
     buf \<leftarrow> split_words buf short 0 256;
     read_blocks_u8 buf short (Suc block) n d
   }"

(* src/kernel/drivers/ata.cpp:166-189 ATA::read_u8 *)
definition read_u8 :: "nat \<Rightarrow> u32 \<Rightarrow> u32 \<Rightarrow> drive \<Rightarrow> (u8 list \<times> drive) option" where
  "read_u8 drv num_blocks offset d =
     read_blocks_u8 (replicate (unat (num_blocks * 512)) 0) (replicate (unat (num_blocks * 512 div 2)) 0)
       0 (unat num_blocks) (ata_prepare drv 0x20 num_blocks offset d)"

text \<open>The loop writes \<open>size / 2\<close> words; the words it sends are the result.\<close>

(* src/kernel/drivers/ata.cpp:90-95 ATA::writePIO *)
fun writePIO :: "u16 list \<Rightarrow> int \<Rightarrow> u16 list option" where
  "writePIO buf i =
     (if i \<le> 0 then Some []
      else case buf of [] \<Rightarrow> None | w # buf \<Rightarrow> map_option (Cons w) (writePIO buf (i - 2)))"

section \<open>The block address\<close>

lemma signed_drop_bit_pos:
  assumes "unat (w :: u32) < 2 ^ 31"
  shows "signed_drop_bit n w = drop_bit n w"
proof -
  have w: "unat w < 2147483648" using assms by simp
  have "unat (drop_bit n w) \<le> unat w" by (simp add: unat_drop_bit)
  then have d: "unat (drop_bit n w) < 2147483648" using w by linarith
  have "sint (signed_drop_bit n w) = drop_bit n (sint w)" by (rule sint_signed_drop_bit_eq)
  also have "\<dots> = int (unat w div 2 ^ n)"
    by (simp only: sint_small [OF w]) (simp add: drop_bit_eq_div zdiv_int)
  also have "\<dots> = sint (drop_bit n w)" by (simp only: sint_small [OF d] unat_drop_bit)
  finally show ?thesis by (rule signed_word_eqI)
qed

lemma unat_low_byte: "unat (ucast (w :: u32) :: u8) = unat w mod 256"
  by (simp only: ucast_of_unat unat_of_nat) simp

lemma address_byte:
  assumes "unat (w :: u32) < 2 ^ 31"
  shows "unat (ucast (signed_drop_bit k w AND 0xFF) :: u8) = unat w div 2 ^ k mod 256"
  by (simp add: signed_drop_bit_pos [OF assms] unat_low_byte unat_and_low unat_drop_bit)

lemma fdh_low:
  assumes "c = 0xE0 \<or> c = 0xF0"
  shows "ucast ((c :: u32) OR (x AND 0xFF)) AND (0x0F :: u8) = ucast x AND 0x0F"
proof (rule bit_word_eqI)
  fix n assume "n < LENGTH(8)"
  then have n: "n = 0 \<or> n = 1 \<or> n = 2 \<or> n = 3 \<or> n = 4 \<or> n = 5 \<or> n = 6 \<or> n = 7" by simp linarith
  show "bit (ucast (c OR (x AND 0xFF)) AND (0x0F :: u8)) n = bit (ucast x AND (0x0F :: u8)) n"
    using assms n by (elim disjE) (simp_all add: bit_simps)
qed

lemma drive_lba:
  assumes "unat offset < 2 ^ 28"
  shows "unat (ucast (offset :: u32) :: u8)
      + unat (ucast (signed_drop_bit 8 offset AND 0xFF) :: u8) * 2 ^ 8
      + unat (ucast (signed_drop_bit 16 offset AND 0xFF) :: u8) * 2 ^ 16
      + unat ((ucast ((if drv = (1 :: nat) then 0xE0 OR 0x10 else 0xE0 :: u32) OR (signed_drop_bit 24 offset AND 0xFF))
          :: u8) AND 0x0F) * 2 ^ 24
    = unat offset"
proof -
  define n where "n = unat offset"
  have n: "n < 2 ^ 28" using assms by (simp add: n_def)
  then have small: "unat offset < 2 ^ 31" by (simp add: n_def)
  let ?c = "if drv = (1 :: nat) then 0xE0 OR 0x10 else 0xE0 :: u32"
  have c: "?c = 0xE0 \<or> ?c = 0xF0" by simp
  have "unat ((ucast (?c OR (signed_drop_bit 24 offset AND 0xFF)) :: u8) AND 0x0F)
      = unat (ucast (signed_drop_bit 24 offset) :: u8) mod 16"
    unfolding fdh_low [OF c] using unat_and_mask [of "ucast (signed_drop_bit 24 offset) :: u8" 4]
    by (simp add: mask_eq_exp_minus_1)
  also have "\<dots> = n div 2 ^ 24 mod 256 mod 16"
    by (simp add: unat_low_byte signed_drop_bit_pos [OF small] unat_drop_bit n_def)
  also have "\<dots> = n div 2 ^ 24" using n by simp
  finally have fdh: "unat ((ucast (?c OR (signed_drop_bit 24 offset AND 0xFF)) :: u8) AND 0x0F) = n div 2 ^ 24" .
  have "n mod 256 + n div 2 ^ 8 mod 256 * 2 ^ 8 + n div 2 ^ 16 mod 256 * 2 ^ 16 + n div 2 ^ 24 * 2 ^ 24 = n"
  proof -
    have d: "n div 2 ^ 8 = n div 256" "n div 2 ^ 16 = n div 256 div 256" "n div 2 ^ 24 = n div 256 div 256 div 256"
      by (simp_all add: div_mult2_eq [symmetric])
    define a b where "a = n div 256" and "b = a div 256"
    have "n = 256 * a + n mod 256" "a = 256 * b + a mod 256" "b = 256 * (b div 256) + b mod 256"
      by (simp_all add: a_def b_def)
    then have "n mod 256 + a mod 256 * 256 + b mod 256 * 65536 + b div 256 * 16777216 = n" by linarith
    then show ?thesis unfolding d a_def [symmetric] b_def [symmetric] by simp
  qed
  then show ?thesis
    unfolding fdh address_byte [OF small] unat_low_byte [of offset] n_def .
qed

section \<open>Waiting and reading\<close>

definition drive_ok :: "drive \<Rightarrow> bool" where
  "drive_ok d \<longleftrightarrow> (\<forall>n. length (d_sectors d n) = 256) \<and> d_busy d \<le> 11 \<and> d_latency d \<le> 11"

lemma wait_loop_ready:
  assumes "d_busy d \<le> n" and "drive_status (d\<lparr>d_busy := 0\<rparr>) AND m = st" and "0x80 AND m \<noteq> st"
  shows "wait_loop n m st d = (d\<lparr>d_busy := 0\<rparr>, True)"
  using assms
proof (induction n arbitrary: d)
  case 0
  then have "drive_status (d\<lparr>d_busy := 0\<rparr>) = drive_status d" by (simp add: drive_status_def)
  then show ?case using 0 by simp
next
  case (Suc n)
  show ?case
  proof (cases "d_busy d = 0")
    case True
    then have "drive_status (d\<lparr>d_busy := 0\<rparr>) = drive_status d" by (simp add: drive_status_def)
    then show ?thesis using True Suc.prems by simp
  next
    case False
    then have "drive_status d AND m \<noteq> st" using Suc.prems(3) by (simp add: drive_status_def)
    moreover have "wait_loop n m st (drive_sleep d) = ((drive_sleep d)\<lparr>d_busy := 0\<rparr>, True)"
      using Suc.prems by (intro Suc.IH) (simp_all add: drive_sleep_def drive_status_def)
    ultimately show ?thesis by (simp add: drive_sleep_def)
  qed
qed

lemma read_words_data:
  assumes "d_busy d = 0" and "d_data d = ws @ rest" and "length ws = n" and "i + n \<le> length buf"
  shows "read_words buf i n d = Some (take i buf @ ws @ drop (i + n) buf, d\<lparr>d_data := rest\<rparr>)"
  using assms
proof (induction n arbitrary: ws i buf d)
  case 0
  then have "d\<lparr>d_data := rest\<rparr> = d" by simp
  then show ?case using 0 by simp
next
  case (Suc n)
  then obtain w ws' where ws: "ws = w # ws'" "length ws' = n" by (auto simp: length_Suc_conv)
  have "drive_in d = (w, d\<lparr>d_data := ws' @ rest\<rparr>)" using Suc.prems ws by (simp add: drive_in_def)
  moreover have "read_words (buf[i := w]) (Suc i) n (d\<lparr>d_data := ws' @ rest\<rparr>)
      = Some (take (Suc i) (buf[i := w]) @ ws' @ drop (Suc i + n) (buf[i := w]), d\<lparr>d_data := ws' @ rest\<rparr>\<lparr>d_data := rest\<rparr>)"
    using Suc.prems ws by (intro Suc.IH) simp_all
  moreover have "take (Suc i) (buf[i := w]) = take i buf @ [w]"
    using Suc.prems(4) by (simp add: take_Suc_conv_app_nth)
  ultimately show ?case using Suc.prems(4) ws by simp
qed

lemma read_words_overrun: "length buf < i + n \<Longrightarrow> i \<le> length buf \<Longrightarrow> read_words buf i n d = None"
proof (induction n arbitrary: i buf d)
  case (Suc n)
  obtain w d' where w: "drive_in d = (w, d')" by (cases "drive_in d")
  show ?case
  proof (cases "i < length buf")
    case True
    then show ?thesis using Suc.IH [of "buf[i := w]" "Suc i" d'] Suc.prems by (simp add: w)
  next
    case False
    then show ?thesis by (simp add: w)
  qed
qed simp

text \<open>The bytes of words, low byte first.\<close>

definition word_bytes :: "u16 list \<Rightarrow> u8 list" where
  "word_bytes ws = concat (map (\<lambda>w. [ucast w, ucast (drop_bit 8 w)]) ws)"

lemma length_word_bytes [simp]: "length (word_bytes ws) = 2 * length ws"
  by (induction ws) (simp_all add: word_bytes_def)

lemma high_byte: "ucast ((drop_bit 8 (w :: u16)) AND 0xFF) = (ucast (drop_bit 8 w) :: u8)"
proof (rule bit_word_eqI)
  fix n assume "n < LENGTH(8)"
  then have n: "n = 0 \<or> n = 1 \<or> n = 2 \<or> n = 3 \<or> n = 4 \<or> n = 5 \<or> n = 6 \<or> n = 7" by simp linarith
  then show "bit (ucast (drop_bit 8 w AND 0xFF) :: u8) n = bit (ucast (drop_bit 8 w) :: u8) n"
    by (elim disjE) (simp_all add: bit_simps)
qed

lemma split_words_bytes:
  assumes "i + n \<le> length short" and "2 * (i + n) \<le> length buf"
  shows "split_words buf short i n =
    Some (take (2 * i) buf @ word_bytes (take n (drop i short)) @ drop (2 * (i + n)) buf)"
  using assms
proof (induction n arbitrary: i buf)
  case (Suc n)
  let ?w = "short ! i"
  let ?buf = "buf[i * 2 := ucast ?w, i * 2 + 1 := ucast (drop_bit 8 ?w)]"
  have lt: "i * 2 + 1 < length buf" "i < length short" using Suc.prems by simp_all
  have t: "take (2 * Suc i) ?buf = take (2 * i) buf @ [ucast ?w, ucast (drop_bit 8 ?w)]"
  proof -
    have "take (2 * Suc i) ?buf = take (Suc (Suc (i * 2))) ?buf" by (simp add: mult.commute)
    also have "\<dots> = take (i * 2) ?buf @ [?buf ! (i * 2), ?buf ! Suc (i * 2)]"
      using lt by (simp add: take_Suc_conv_app_nth)
    finally show ?thesis using lt by (simp add: mult.commute)
  qed
  have d: "drop i short = ?w # drop (Suc i) short" using lt(2) by (simp add: Cons_nth_drop_Suc)
  have "split_words buf short i (Suc n) = split_words ?buf short (Suc i) n"
    using lt by (simp add: high_byte)
  also have "\<dots> = Some (take (2 * Suc i) ?buf @ word_bytes (take n (drop (Suc i) short)) @ drop (2 * (Suc i + n)) ?buf)"
    using Suc.prems by (intro Suc.IH) simp_all
  also have "drop (2 * (Suc i + n)) ?buf = drop (2 * (i + Suc n)) buf" by simp
  finally show ?case unfolding t d by (simp add: word_bytes_def)
qed (simp add: word_bytes_def)

text \<open>What a command leaves in the drive: the words of the blocks wait on the data port.\<close>

lemma prepare_read:
  assumes ok: "drive_ok d" and lba: "unat offset < 2 ^ 28" and n: "0 < unat k" "unat k < 256"
  shows "\<exists>d'. ata_prepare drv 0x20 k offset d = d' \<and> drive_ok d' \<and> d_sectors d' = d_sectors d
    \<and> d_data d' = concat (map (d_sectors d) [unat offset..<unat offset + unat k])"
proof -
  have "wait_loop 11 (0x80 OR 0x40) 0x40 d = (d\<lparr>d_busy := 0\<rparr>, True)"
    using ok by (intro wait_loop_ready) (auto simp: drive_ok_def drive_status_def)
  then have w: "fst (ata_wait (0x80 OR 0x40) 0x40 d) = d\<lparr>d_busy := 0\<rparr>" by (simp add: ata_wait_def)
  have cnt: "unat (ucast k :: u8) = unat k" using n(2) by (simp add: unat_low_byte)
  then have "(ucast k :: u8) \<noteq> 0" using n(1) by (metis unat_0 less_irrefl)
  with cnt show ?thesis
    using ok drive_lba [OF lba, of drv]
    by (simp add: ata_prepare_def Let_def w [simplified] drive_out_def d_lba_def drive_ok_def)
qed

lemma wait_data:
  assumes "drive_ok d" and "d_data d \<noteq> []"
  shows "fst (ata_wait 0x08 0x08 d) = d\<lparr>d_busy := 0\<rparr>"
  using assms wait_loop_ready [of d 11 "0x08" "0x08"] by (auto simp: drive_ok_def drive_status_def ata_wait_def)

lemma read_one_block:
  assumes ok: "drive_ok d" and lba: "unat offset < 2 ^ 28"
  shows "\<exists>d'. read_u8 drv 1 offset d = Some (word_bytes (d_sectors d (unat offset)), d')
    \<and> drive_ok d' \<and> d_sectors d' = d_sectors d"
proof -
  let ?ws = "d_sectors d (unat offset)"
  obtain d1 where d1: "ata_prepare drv 0x20 1 offset d = d1" "drive_ok d1" "d_sectors d1 = d_sectors d" "d_data d1 = ?ws"
    using prepare_read [OF ok lba, of 1 drv] by auto
  have len: "length ?ws = 256" using ok by (simp add: drive_ok_def)
  then have "d_data d1 \<noteq> []" using d1(4) by auto
  note w = wait_data [OF d1(2) this]
  have r: "read_words (replicate 256 0) 0 256 (d1\<lparr>d_busy := 0\<rparr>) = Some (?ws, d1\<lparr>d_busy := 0, d_data := []\<rparr>)"
    using read_words_data [of "d1\<lparr>d_busy := 0\<rparr>" ?ws "[]" 256 0 "replicate 256 0"] d1(4) len by simp
  have s: "split_words (replicate 512 0) ?ws 0 256 = Some (word_bytes ?ws)"
    using split_words_bytes [of 0 256 ?ws "replicate 512 0"] len by simp
  have "read_u8 drv 1 offset d = read_blocks_u8 (replicate 512 0) (replicate 256 0) 0 (Suc 0) d1"
    by (simp add: read_u8_def d1(1))
  also have "\<dots> = Some (word_bytes ?ws, d1\<lparr>d_busy := 0, d_data := []\<rparr>)"
    by (simp only: read_blocks_u8.simps w Let_def mult_0 r s Option.bind.bind_lunit prod.case)
  finally show ?thesis using d1(2,3) by (simp add: drive_ok_def)
qed

definition sample_drive :: drive where
  "sample_drive = \<lparr>d_sectors = (\<lambda>n. replicate 256 (of_nat n)), d_identify = replicate 256 0, d_count = 0,
     d_sector = 0, d_cyl_lo = 0, d_cyl_hi = 0, d_fdh = 0, d_latency = 3, d_busy = 0, d_data = []\<rparr>"

lemma sample_drive_ok: "drive_ok sample_drive"
  by (simp add: drive_ok_def sample_drive_def)

text \<open>
  A block read by \<open>read_u8\<close> is the 512 bytes of the sector with that number, for every address of 28
  bits, on a drive that is ready within the time the driver waits; nothing on the drive changes.
\<close>

theorem read_u8_correct:
  assumes "drive_ok d" and "unat offset < 2 ^ 28"
  shows "\<exists>d'. read_u8 drv 1 offset d = Some (word_bytes (d_sectors d (unat offset)), d')
    \<and> drive_ok d' \<and> d_sectors d' = d_sectors d"
  using assms by (rule read_one_block)

theorem read_u8_correct_witness:
  "\<exists>d'. read_u8 0 1 0x1234567 sample_drive = Some (word_bytes (d_sectors sample_drive 0x1234567), d')"
  using read_u8_correct [OF sample_drive_ok, of "0x1234567" 0] by auto

section \<open>The driver as a block device\<close>

definition drive_block :: "drive \<Rightarrow> nat \<Rightarrow> u8 list" where
  "drive_block d n = word_bytes (d_sectors d n)"

text \<open>The call the file system makes: one block.\<close>

definition read_block :: "nat \<Rightarrow> drive \<Rightarrow> u32 \<Rightarrow> (u8 list \<times> drive) option" where
  "read_block drv d b = read_u8 drv 1 b d"

interpretation ata: block_device "read_block drv" drive_block drive_ok for drv
proof unfold_locales
  show "\<exists>d'. read_block drv d b = Some (drive_block d (unat b), d') \<and> drive_ok d' \<and> drive_block d' = drive_block d"
    if "drive_ok d" "unat b < 2 ^ 28" for d b
    using read_one_block [OF that, of drv] by (auto simp: read_block_def drive_block_def fun_eq_iff)
  show "length (drive_block d n) = 512" if "drive_ok d" for d n
    using that by (simp add: drive_block_def drive_ok_def)
qed

text \<open>
  Property C29: Any sequence of single-block reads returns the blocks of one disk, which the reads do not change.
\<close>

theorem disk_read_sequence:
  assumes "drive_ok d" and "\<forall>b \<in> set bs. unat b < 2 ^ 28"
  shows "\<exists>d'. read_seq (read_block drv) bs d = Some (map (\<lambda>b. drive_block d (unat b)) bs, d')
    \<and> drive_ok d' \<and> drive_block d' = drive_block d"
  using assms by (rule ata.read_seq_blocks)

theorem disk_read_sequence_witness:
  "\<exists>d'. read_seq (read_block 1) [0, 512, 0] sample_drive =
    Some ([drive_block sample_drive 0, drive_block sample_drive 512, drive_block sample_drive 0], d')"
  using disk_read_sequence [OF sample_drive_ok, of "[0, 512, 0]" 1] by auto

section \<open>More than one block\<close>

lemma read_blocks_u16_data:
  assumes "drive_ok d" and "d_data d = concat bss" and "length bss = n" and "\<forall>bs \<in> set bss. length bs = 256"
    and "(block + n) * 256 \<le> length buf"
  shows "\<exists>d'. read_blocks_u16 buf block n d =
      Some (take (block * 256) buf @ concat bss @ drop ((block + n) * 256) buf, d')
    \<and> drive_ok d' \<and> d_sectors d' = d_sectors d"
  using assms
proof (induction n arbitrary: d bss block buf)
  case (Suc n)
  then obtain bs bss' where bss: "bss = bs # bss'" "length bss' = n" "length bs = 256"
    by (auto simp: length_Suc_conv)
  have "d_data d \<noteq> []" using Suc.prems(2) bss by auto
  note w = wait_data [OF Suc.prems(1) this]
  let ?i = "block * 256"
  have i: "block * 512 div 2 = ?i" by simp
  let ?buf = "take ?i buf @ bs @ drop (?i + 256) buf"
  have r: "read_words buf ?i 256 (d\<lparr>d_busy := 0\<rparr>) = Some (?buf, d\<lparr>d_busy := 0, d_data := concat bss'\<rparr>)"
    using read_words_data [of "d\<lparr>d_busy := 0\<rparr>" bs "concat bss'" 256 ?i buf] Suc.prems(2,5) bss by simp
  have l: "?i + 256 \<le> length buf" using Suc.prems(5) by simp
  then have tb: "take (Suc block * 256) ?buf = take ?i buf @ bs" "length ?buf = length buf"
    and db: "drop ((Suc block + n) * 256) ?buf = drop ((block + Suc n) * 256) buf"
    using bss(3) by (simp_all add: algebra_simps)
  have "\<exists>d'. read_blocks_u16 ?buf (Suc block) n (d\<lparr>d_busy := 0, d_data := concat bss'\<rparr>) =
      Some (take (Suc block * 256) ?buf @ concat bss' @ drop ((Suc block + n) * 256) ?buf, d')
    \<and> drive_ok d' \<and> d_sectors d' = d_sectors (d\<lparr>d_busy := 0, d_data := concat bss'\<rparr>)"
    using Suc.prems bss tb(2) by (intro Suc.IH) (simp_all add: drive_ok_def)
  moreover have "read_blocks_u16 buf block (Suc n) d =
      read_blocks_u16 ?buf (Suc block) n (d\<lparr>d_busy := 0, d_data := concat bss'\<rparr>)"
    by (simp only: read_blocks_u16.simps w Let_def i r Option.bind.bind_lunit prod.case)
  ultimately show ?case using bss(1) unfolding tb(1) db by auto
qed auto

lemma read_words_length:
  "read_words buf i n d = Some (b, d') \<Longrightarrow> length b = length buf \<and> (0 < n \<longrightarrow> i + n \<le> length buf)"
proof (induction n arbitrary: buf i d)
  case (Suc n)
  obtain w d1 where w: "drive_in d = (w, d1)" by (cases "drive_in d")
  then have i: "i < length buf" and r: "read_words (buf[i := w]) (Suc i) n d1 = Some (b, d')"
    using Suc.prems by (auto simp: arr_set_def split: if_splits)
  from Suc.IH [OF r] i show ?case by auto
qed simp

lemma read_blocks_u8_overrun:
  "length short < (block + n) * 512 + 256 \<Longrightarrow> read_blocks_u8 buf short block (Suc n) d = None"
proof (induction n arbitrary: buf short block d)
  case 0
  have "read_words short (block * 512) 256 d' \<noteq> Some (b, d'')" for d' b d''
    using read_words_length [of short "block * 512" 256 d' b d''] 0 by auto
  then have "read_words short (block * 512) 256 d' = None" for d'
    by (metis not_Some_eq surj_pair)
  then show ?case by (simp add: Let_def)
next
  case (Suc n)
  let ?d = "fst (ata_wait 0x08 0x08 d)"
  show ?case
  proof (cases "read_words short (block * 512) 256 ?d")
    case None
    then show ?thesis by (subst read_blocks_u8.simps) (simp only: Let_def Option.bind.bind_lzero)
  next
    case (Some p)
    obtain sh d1 where p: "p = (sh, d1)" by (cases p)
    then have "length sh = length short" using read_words_length Some by blast
    then have "read_blocks_u8 b sh (Suc block) (Suc n) d1 = None" for b
      using Suc.prems by (intro Suc.IH) simp
    then show ?thesis
      by (subst read_blocks_u8.simps)
        (cases "split_words buf sh 0 256", simp_all only: Let_def Some p Option.bind.bind_lunit
          Option.bind.bind_lzero prod.case)
  qed
qed

text \<open>
  Property C35: \<open>read_u16\<close> returns the words of as many consecutive sectors as it is asked for, up to 255; \<open>read_u8\<close>
  of two or more blocks writes outside its buffer of words.
\<close>

theorem read_many_blocks:
  assumes ok: "drive_ok d" and lba: "unat offset < 2 ^ 28" and k: "0 < unat k" "unat k < 256"
  shows "(\<exists>d'. read_u16 drv k offset d =
        Some (concat (map (d_sectors d) [unat offset..<unat offset + unat k]), d')
      \<and> drive_ok d' \<and> d_sectors d' = d_sectors d)
    \<and> (1 < unat k \<longrightarrow> read_u8 drv k offset d = None)"
proof
  let ?bss = "map (d_sectors d) [unat offset..<unat offset + unat k]"
  obtain d1 where d1: "ata_prepare drv 0x20 k offset d = d1" "drive_ok d1" "d_sectors d1 = d_sectors d"
    "d_data d1 = concat ?bss"
    using prepare_read [OF ok lba k, of drv] by auto
  have len: "\<forall>bs \<in> set ?bss. length bs = 256" using ok by (simp add: drive_ok_def)
  have sz: "unat (k * 512) = unat k * 512" using k by (simp add: unat_word_ariths)
  then have half: "unat (k * 512 div 2) = unat k * 256" by (simp add: unat_div)
  have "\<exists>d'. read_blocks_u16 (replicate (unat k * 256) 0) 0 (unat k) d1 =
      Some (take (0 * 256) (replicate (unat k * 256) 0) @ concat ?bss
        @ drop ((0 + unat k) * 256) (replicate (unat k * 256) 0), d')
    \<and> drive_ok d' \<and> d_sectors d' = d_sectors d1"
    using d1 len by (intro read_blocks_u16_data) simp_all
  then show "\<exists>d'. read_u16 drv k offset d = Some (concat ?bss, d') \<and> drive_ok d' \<and> d_sectors d' = d_sectors d"
    using d1(1,3) half by (simp add: read_u16_def)
  show "1 < unat k \<longrightarrow> read_u8 drv k offset d = None"
  proof
    assume "1 < unat k"
    then obtain n where n: "unat k = Suc n" "0 < n" by (cases "unat k") auto
    have "length (replicate (unat k * 256) (0 :: u16)) < (0 + n) * 512 + 256" using n by simp
    from read_blocks_u8_overrun [OF this]
    show "read_u8 drv k offset d = None" unfolding read_u8_def sz half n(1) by simp
  qed
qed

theorem read_many_blocks_witness:
  "\<exists>d'. read_u16 0 2 7 sample_drive = Some (concat (map (d_sectors sample_drive) [7..<9]), d')
    \<and> read_u8 0 2 7 sample_drive = None"
  using read_many_blocks [OF sample_drive_ok, of 7 2 0] by auto

end
