(* ===== verification/CString.thy ===== *)
theory CString
  imports Prelude
begin

text \<open>
  The string routines of \<open>kernel/std/stdlib.cpp\<close>. A pointer into a character array is the list
  of the bytes from there to the end of the array, so a routine that runs over the end of the
  array is \<^const>\<open>None\<close>; \<open>char\<close> is a signed byte on the target, and the comparisons cast to
  \<open>unsigned char\<close> where the source does. A C string is a list of non-zero bytes, a terminator and
  whatever follows it in the array.
\<close>

type_synonym cbuf = "u8 list"

section \<open>The routines\<close>

(* src/kernel/std/stdlib.cpp:10-18 strlen *)
fun strlen :: "cbuf \<Rightarrow> nat option" where
  "strlen [] = None"
| "strlen (c # p) = (if c \<noteq> 0 then map_option Suc (strlen p) else Some 0)"

(* src/kernel/std/stdlib.cpp:20-24 strcmp *)
fun strcmp :: "cbuf \<Rightarrow> cbuf \<Rightarrow> int option" where
  "strcmp (c # s1) (d # s2) =
     (if c \<noteq> 0 \<and> c = d then strcmp s1 s2 else Some (uint c - uint d))"
| "strcmp _ _ = None"

(* src/kernel/std/stdlib.cpp:26-33 strncmp *)
fun strncmp :: "cbuf \<Rightarrow> cbuf \<Rightarrow> nat \<Rightarrow> int option" where
  "strncmp _ _ 0 = Some 0"
| "strncmp (c # s1) (d # s2) (Suc n) =
     (if c \<noteq> d then Some (if uint c < uint d then -1 else 1)
      else if c = 0 then Some 0
      else strncmp s1 s2 n)"
| "strncmp _ _ (Suc n) = None"

text \<open>\<open>'Z' - 'z'\<close> is -32; the comparison is on signed characters.\<close>

(* src/kernel/std/stdlib.cpp:35-39 tolower *)
definition tolower :: "u8 \<Rightarrow> u8" where
  "tolower upper = (if sint upper \<le> 90 \<and> sint upper \<ge> 65 then upper - (90 - 122) else upper)"

text \<open>
  The copy is \<open>strlen\<close> bytes long and so is the array it is made in: the terminator is not copied
  and there is no room for it. The result is the new array.
\<close>

(* src/kernel/std/stdlib.cpp:42-46 strdup *)
definition strdup :: "cbuf \<Rightarrow> cbuf option" where
  "strdup s1 = map_option (\<lambda>n. take n s1) (strlen s1)"

fun copy_string :: "cbuf \<Rightarrow> cbuf \<Rightarrow> cbuf option" where
  "copy_string (_ # dest) (c # src) =
     (if c \<noteq> 0 then map_option (Cons c) (copy_string dest src) else Some (c # dest))"
| "copy_string _ _ = None"

(* src/kernel/std/stdlib.cpp:49-57 strcat *)
fun strcat :: "cbuf \<Rightarrow> cbuf \<Rightarrow> cbuf option" where
  "strcat (d # dest) src =
     (if d \<noteq> 0 then map_option (Cons d) (strcat dest src) else copy_string (d # dest) src)"
| "strcat [] src = None"

text \<open>The inner loop of \<open>strpbrk\<close> and \<open>strspn\<close>: is \<open>c\<close> one of the characters of \<open>accept\<close>?\<close>

fun in_accept :: "cbuf \<Rightarrow> u8 \<Rightarrow> bool option" where
  "in_accept [] c = None"
| "in_accept (a # accept) c =
     (if a = 0 then Some False else if a = c then Some True else in_accept accept c)"

text \<open>A pointer result is the offset from the first argument, inside a second option for \<open>NULL\<close>.\<close>

(* src/kernel/std/stdlib.cpp:60-70 strpbrk *)
fun strpbrk :: "cbuf \<Rightarrow> cbuf \<Rightarrow> nat option option" where
  "strpbrk [] accept = None"
| "strpbrk (c # s) accept =
     (if c = 0 then Some None
      else do {
        found \<leftarrow> in_accept accept c;
        if found then Some (Some 0) else map_option (map_option Suc) (strpbrk s accept)
      })"

(* src/kernel/std/stdlib.cpp:94-101 strstr *)
fun starts_with :: "cbuf \<Rightarrow> cbuf \<Rightarrow> bool option" where
  "starts_with a [] = None"
| "starts_with [] (c # b) = (if c = 0 then Some True else None)"
| "starts_with (d # a) (c # b) =
     (if c = 0 then Some True else if d \<noteq> c then Some False else starts_with a b)"

(* src/kernel/std/stdlib.cpp:89-104 strstr *)
fun strstr_from :: "cbuf \<Rightarrow> cbuf \<Rightarrow> nat option option" where
  "strstr_from [] substring = None"
| "strstr_from (c # string) substring =
     (if c = 0 then Some None
      else do {
        b \<leftarrow> arr_get substring 0;
        hit \<leftarrow> (if c \<noteq> b then Some False else starts_with (c # string) substring);
        if hit then Some (Some 0) else map_option (map_option Suc) (strstr_from string substring)
      })"

(* src/kernel/std/stdlib.cpp:76-105 strstr *)
definition strstr :: "cbuf \<Rightarrow> cbuf \<Rightarrow> nat option option" where
  "strstr string substring = do {
     b \<leftarrow> arr_get substring 0;
     if b = 0 then Some (Some 0) else strstr_from string substring
   }"

(* src/kernel/std/stdlib.cpp:108-124 strspn *)
fun strspn :: "cbuf \<Rightarrow> cbuf \<Rightarrow> nat option" where
  "strspn [] accept = None"
| "strspn (c # s) accept =
     (if c = 0 then Some 0
      else do {
        found \<leftarrow> in_accept accept c;
        if found then map_option Suc (strspn s accept) else Some 0
      })"

text \<open>Exactly \<open>n\<close> characters are copied: a terminator among them does not stop the loop.\<close>

(* src/kernel/std/stdlib.cpp:186-189 strncpy *)
fun strncpy :: "cbuf \<Rightarrow> cbuf \<Rightarrow> nat \<Rightarrow> cbuf option" where
  "strncpy dest src 0 = Some dest"
| "strncpy (_ # dest) (c # src) (Suc n) = map_option (Cons c) (strncpy dest src n)"
| "strncpy _ _ (Suc n) = None"

text \<open>
  \<open>strtok\<close> keeps two static variables, the position \<open>nxt\<close> in the string it is working on and the
  number \<open>size\<close> of characters left; the string itself is changed, so it is part of the state. \<open>nxt\<close> is an offset,
  and -1 between its two moves when the string starts with a delimiter.
\<close>

(* src/kernel/std/stdlib.cpp:129-130 strtok *)
record tok =
  tok_str :: cbuf
  tok_nxt :: int
  tok_size :: int

text \<open>All but one of \<open>i\<close> delimiters, then the last one, are turned into terminators.\<close>

(* src/kernel/std/stdlib.cpp:163-169 strtok *)
fun tok_blank :: "nat \<Rightarrow> tok \<Rightarrow> (nat \<times> tok) option" where
  "tok_blank (Suc (Suc i)) t = do {
     b \<leftarrow> arr_set (tok_str t) (nat (tok_nxt t)) 0;
     tok_blank (Suc i) (t\<lparr>tok_str := b, tok_nxt := tok_nxt t + 1, tok_size := tok_size t - 1\<rparr>)
   }"
| "tok_blank i t = Some (i, t)"

(* src/kernel/std/stdlib.cpp:170-178 strtok *)
definition tok_last :: "nat \<Rightarrow> tok \<Rightarrow> tok option" where
  "tok_last i t =
     (if i = 1 then do {
        b \<leftarrow> arr_set (tok_str t) (nat (tok_nxt t)) 0;
        let t = t\<lparr>tok_str := b\<rparr>;
        Some (if tok_size t > 1 then t\<lparr>tok_nxt := tok_nxt t - 1, tok_size := tok_size t + 1\<rparr> else t)
      } else Some t)"

(* src/kernel/std/stdlib.cpp:160-182 strtok *)
partial_function (option) tok_scan :: "cbuf \<Rightarrow> tok \<Rightarrow> tok option" where
  "tok_scan delim t = do {
     c \<leftarrow> arr_get (tok_str t) (nat (tok_nxt t));
     if c = 0 then Some t
     else do {
       i \<leftarrow> strspn (drop (nat (tok_nxt t)) (tok_str t)) delim;
       (i, t) \<leftarrow> tok_blank i t;
       t \<leftarrow> tok_last i t;
       tok_scan delim (t\<lparr>tok_nxt := tok_nxt t + 1, tok_size := tok_size t - 1\<rparr>)
     }
   }"

text \<open>The argument is a new string, or \<^const>\<open>None\<close> for \<open>NULL\<close>; so is the result, as a position.\<close>

(* src/kernel/std/stdlib.cpp:127-184 strtok *)
definition strtok :: "tok \<Rightarrow> cbuf option \<Rightarrow> cbuf \<Rightarrow> (tok \<times> nat option) option" where
  "strtok t str delim = do {
     (t, str) \<leftarrow> (case str of
         Some s \<Rightarrow> map_option (\<lambda>n. (\<lparr>tok_str = s, tok_nxt = 0, tok_size = int n\<rparr>, Some 0)) (strlen s)
       | None \<Rightarrow>
           if tok_size t > 0
           then Some (t\<lparr>tok_nxt := tok_nxt t + 1, tok_size := tok_size t - 1\<rparr>, Some (nat (tok_nxt t + 1)))
           else Some (t, None));
     t \<leftarrow> tok_scan delim t;
     Some (t, str)
   }"

section \<open>C strings\<close>

definition cstr :: "u8 list \<Rightarrow> cbuf \<Rightarrow> cbuf" where
  "cstr s rest = s @ 0 # rest"

lemma cstr_Nil [simp]: "cstr [] r = 0 # r"
  by (simp add: cstr_def)

lemma cstr_Cons [simp]: "cstr (c # s) r = c # cstr s r"
  by (simp add: cstr_def)

lemma length_cstr [simp]: "length (cstr s r) = Suc (length s + length r)"
  by (simp add: cstr_def)

lemma strlen_cstr [simp]: "0 \<notin> set s \<Longrightarrow> strlen (cstr s r) = Some (length s)"
  by (induction s) auto

lemma strlen_Some: "strlen b = Some n \<Longrightarrow> \<exists>s r. b = cstr s r \<and> 0 \<notin> set s \<and> length s = n"
proof (induction b arbitrary: n)
  case (Cons c p)
  show ?case
  proof (cases "c = 0")
    case True
    then show ?thesis using Cons.prems by (intro exI [of _ "[]"] exI [of _ p]) auto
  next
    case False
    then obtain m where m: "strlen p = Some m" "n = Suc m" using Cons.prems by auto
    from Cons.IH [OF m(1)] obtain s r where "p = cstr s r" "0 \<notin> set s" "length s = m" by blast
    then show ?thesis using False m(2) by (intro exI [of _ "c # s"] exI [of _ r]) auto
  qed
qed simp

text \<open>
  \<open>strlen\<close> answers exactly on the arrays that hold a C string, and answers the
  length of that string; on an array without a terminator it runs over the end.
\<close>

theorem strlen_correct:
  "strlen b = Some n \<longleftrightarrow> (\<exists>s r. b = s @ 0 # r \<and> 0 \<notin> set s \<and> length s = n)"
  using strlen_Some [of b n] strlen_cstr unfolding cstr_def by metis

section \<open>Comparing\<close>

text \<open>The order of the strings by their unsigned characters.\<close>

fun str_less :: "u8 list \<Rightarrow> u8 list \<Rightarrow> bool" where
  "str_less s [] = False"
| "str_less [] (d # t) = True"
| "str_less (c # s) (d # t) = (c < d \<or> c = d \<and> str_less s t)"

lemma strcmp_cstr:
  assumes "0 \<notin> set s" and "0 \<notin> set t"
  shows "\<exists>d. strcmp (cstr s r) (cstr t q) = Some d \<and> (d = 0 \<longleftrightarrow> s = t) \<and> (d < 0 \<longleftrightarrow> str_less s t)"
  using assms
proof (induction s t rule: str_less.induct)
  case (1 s)
  then show ?case by (cases s) (auto simp: word_less_def uint_0_iff)
next
  case (2 d t)
  then show ?case by (auto simp: word_less_def uint_0_iff) (metis uint_ge_0 uint_0_iff order_le_less)
next
  case (3 c s d t)
  then show ?case by (auto simp: word_less_def word_uint_eq_iff)
qed

text \<open>
  on two C strings \<open>strcmp\<close> stays in both arrays, answers zero exactly when the strings
  are equal and a negative number exactly when the first is smaller in the lexicographic order of
  unsigned characters.
\<close>

theorem strcmp_correct:
  assumes "0 \<notin> set s" and "0 \<notin> set t"
  shows "\<exists>d. strcmp (s @ 0 # r) (t @ 0 # q) = Some d \<and> (d = 0 \<longleftrightarrow> s = t) \<and> (d < 0 \<longleftrightarrow> str_less s t)"
  using strcmp_cstr [OF assms] by (simp add: cstr_def)

theorem strcmp_correct_witness:
  "\<exists>d. strcmp [104, 105, 0] [104, 200, 0, 7] = Some d \<and> d < 0"
  using strcmp_correct [of "[104, 105]" "[104, 200]" "[]" "[7]"] by simp

lemma strncmp_cstr:
  assumes "0 \<notin> set s" and "0 \<notin> set t"
  shows "\<exists>d. strncmp (cstr s r) (cstr t q) n = Some d
    \<and> (d = 0 \<longleftrightarrow> take n s = take n t) \<and> (d < 0 \<longleftrightarrow> str_less (take n s) (take n t))"
  using assms
proof (induction s t arbitrary: n rule: str_less.induct)
  case (1 s)
  then show ?case by (cases s; cases n) (auto simp: word_less_def)
next
  case (2 d t)
  then show ?case
    by (cases n) (auto simp: uint_0_iff, metis uint_ge_0 uint_0_iff order_le_less)
next
  case (3 c s d t)
  then show ?case by (cases n) (auto simp: word_less_def word_uint_eq_iff)
qed

text \<open>
  \<open>strncmp\<close> compares the prefixes of \<open>n\<close> characters: zero exactly when they are
  equal, negative exactly when the first is smaller. It never reads past the terminators.
\<close>

theorem strncmp_correct:
  assumes "0 \<notin> set s" and "0 \<notin> set t"
  shows "\<exists>d. strncmp (s @ 0 # r) (t @ 0 # q) n = Some d
    \<and> (d = 0 \<longleftrightarrow> take n s = take n t) \<and> (d < 0 \<longleftrightarrow> str_less (take n s) (take n t))"
  using strncmp_cstr [OF assms] by (simp add: cstr_def)

theorem strncmp_correct_witness:
  "\<exists>d. strncmp [104, 105, 0] [104, 200, 0, 7] 1 = Some d \<and> d = 0"
  using strncmp_correct [of "[104, 105]" "[104, 200]" "[]" "[7]" 1] by simp

section \<open>Searching\<close>

lemma in_accept_cstr: "0 \<notin> set acc \<Longrightarrow> c \<noteq> 0 \<Longrightarrow> in_accept (cstr acc r) c = Some (c \<in> set acc)"
  by (induction acc) auto

text \<open>
  \<open>strspn\<close> is the length of the longest prefix made of accepted characters only.
\<close>

theorem strspn_correct:
  assumes "0 \<notin> set s" and "0 \<notin> set acc"
  shows "strspn (s @ 0 # r) (acc @ 0 # q) = Some (length (takeWhile (\<lambda>c. c \<in> set acc) s))"
  using assms(1) in_accept_cstr [OF assms(2)] unfolding cstr_def by (induction s) auto

theorem strspn_correct_witness:
  "strspn [32, 32, 97, 0] [32, 0] = Some 2"
  using strspn_correct [of "[32, 32, 97]" "[32]" "[]" "[]"] by simp

text \<open>
  \<open>strpbrk\<close> answers the offset of the first character that is in the accepted set, and
  the null pointer when there is none.
\<close>

theorem strpbrk_correct:
  assumes "0 \<notin> set s" and "0 \<notin> set acc"
  shows "strpbrk (s @ 0 # r) (acc @ 0 # q) =
    Some (if \<exists>c\<in>set s. c \<in> set acc then Some (length (takeWhile (\<lambda>c. c \<notin> set acc) s)) else None)"
  using assms(1) in_accept_cstr [OF assms(2)] unfolding cstr_def by (induction s) auto

theorem strpbrk_correct_witness:
  "strpbrk [97, 98, 46, 0] [46, 47, 0] = Some (Some 2)"
  using strpbrk_correct [of "[97, 98, 46]" "[46, 47]" "[]" "[]"] by simp

lemma starts_with_cstr:
  "0 \<notin> set s \<Longrightarrow> 0 \<notin> set t \<Longrightarrow> starts_with (cstr s r) (cstr t q) = Some (take (length t) s = t)"
proof (induction t arbitrary: s)
  case Nil
  then show ?case by (cases s) auto
next
  case (Cons d t)
  then show ?case by (cases s) auto
qed

text \<open>Where \<open>t\<close> first occurs in \<open>s\<close>.\<close>

fun first_at :: "u8 list \<Rightarrow> u8 list \<Rightarrow> nat option" where
  "first_at [] t = (if t = [] then Some 0 else None)"
| "first_at (c # s) t = (if take (length t) (c # s) = t then Some 0 else map_option Suc (first_at s t))"

lemma strstr_from_cstr:
  assumes "0 \<notin> set t" and "t \<noteq> []"
  shows "0 \<notin> set s \<Longrightarrow> strstr_from (cstr s r) (cstr t q) = Some (first_at s t)"
proof (induction s)
  case (Cons c s)
  from assms obtain b t' where t: "t = b # t'" by (cases t) auto
  have "starts_with (cstr (c # s) r) (cstr t q) = Some (take (length t) (c # s) = t)"
    using Cons.prems assms(1) by (rule starts_with_cstr)
  then show ?case using Cons by (auto simp: t)
qed (use assms in simp)

lemma first_at_Some:
  "first_at s t = Some i \<longleftrightarrow> i \<le> length s \<and> take (length t) (drop i s) = t
     \<and> (\<forall>j<i. take (length t) (drop j s) \<noteq> t)"
proof (induction s arbitrary: i)
  case (Cons c s)
  show ?case
  proof (cases i)
    case 0
    then show ?thesis by auto
  next
    case (Suc j)
    then show ?thesis using Cons.IH [of j] by (auto simp: All_less_Suc2)
  qed
qed auto

lemma first_at_None: "first_at s t = None \<longleftrightarrow> (\<forall>i\<le>length s. take (length t) (drop i s) \<noteq> t)"
proof (induction s)
  case (Cons c s)
  then show ?case by (simp only: length_Cons less_Suc_eq_le [symmetric] All_less_Suc2) simp
qed auto

text \<open>
  \<open>strstr\<close> finds the first occurrence: it answers offset \<open>i\<close> exactly when the second
  string stands at \<open>i\<close> and nowhere before, and the null pointer exactly when it stands nowhere.
\<close>

theorem strstr_correct:
  assumes "0 \<notin> set s" and "0 \<notin> set t"
  shows "\<exists>res. strstr (s @ 0 # r) (t @ 0 # q) = Some res
    \<and> (res = None \<longleftrightarrow> (\<forall>i\<le>length s. take (length t) (drop i s) \<noteq> t))
    \<and> (\<forall>i. res = Some i \<longleftrightarrow> i \<le> length s \<and> take (length t) (drop i s) = t
          \<and> (\<forall>j<i. take (length t) (drop j s) \<noteq> t))"
proof -
  have "strstr (cstr s r) (cstr t q) = Some (first_at s t)"
  proof (cases t)
    case Nil
    then show ?thesis by (cases s) (auto simp: strstr_def)
  next
    case (Cons b t')
    then show ?thesis using strstr_from_cstr [of t s r q] assms by (auto simp: strstr_def)
  qed
  then show ?thesis unfolding cstr_def first_at_Some [symmetric] first_at_None [symmetric] by auto
qed

theorem strstr_correct_witness:
  "\<exists>res. strstr [97, 98, 99, 98, 99, 0] [98, 99, 0] = Some res \<and> res = Some 1"
proof -
  obtain res where res: "strstr ([97, 98, 99, 98, 99] @ [0]) ([98, 99] @ [0]) = Some res"
    "\<forall>i. res = Some i \<longleftrightarrow> i \<le> length [97, 98, 99, 98, 99 :: u8]
        \<and> take (length [98, 99 :: u8]) (drop i [97, 98, 99, 98, 99]) = [98, 99 :: u8]
        \<and> (\<forall>j<i. take (length [98, 99 :: u8]) (drop j [97, 98, 99, 98, 99]) \<noteq> [98, 99 :: u8])"
    using strstr_correct [of "[97, 98, 99, 98, 99]" "[98, 99]" "[]" "[]"] by auto
  moreover have "res = Some 1" using res(2) [rule_format, of 1] by simp
  ultimately show ?thesis by simp
qed

section \<open>Building\<close>

lemma copy_string_cstr:
  "0 \<notin> set s \<Longrightarrow> copy_string dest (cstr s r) =
     (if length s < length dest then Some (cstr s (drop (Suc (length s)) dest)) else None)"
proof (induction s arbitrary: dest)
  case Nil
  then show ?case by (cases dest) auto
next
  case (Cons c s)
  then show ?case by (cases dest) auto
qed

text \<open>
  \<open>strcat\<close> leaves the concatenation of the two strings in the destination when the array
  has room for it and its terminator, and runs over the end of the array when it has not.
\<close>

theorem strcat_correct:
  assumes "0 \<notin> set d" and "0 \<notin> set s"
  shows "strcat (d @ 0 # r) (s @ 0 # q) =
    (if length s \<le> length r then Some ((d @ s) @ 0 # drop (length s) r) else None)"
proof -
  have "strcat (cstr d r) (cstr s q) =
    (if length s \<le> length r then Some (cstr (d @ s) (drop (length s) r)) else None)"
    using assms(1)
  proof (induction d)
    case Nil
    then show ?case using copy_string_cstr [OF assms(2), of "0 # r"] by simp
  qed auto
  then show ?thesis by (simp add: cstr_def)
qed

theorem strcat_correct_witness:
  "strcat [97, 0, 1, 2, 3] [98, 99, 0] = Some [97, 98, 99, 0, 3]"
  using strcat_correct [of "[97]" "[98, 99]" "[1, 2, 3]" "[]"] by simp

text \<open>The copy \<open>strdup\<close> makes is not a C string: it has no terminator.\<close>

lemma strdup_no_terminator: "0 \<notin> set s \<Longrightarrow> strdup (cstr s r) = Some s"
  by (simp add: strdup_def) (simp add: cstr_def)

lemma strlen_strdup: "0 \<notin> set s \<Longrightarrow> Option.bind (strdup (cstr s r)) strlen = None"
proof -
  assume s: "0 \<notin> set s"
  then have "strlen s = None" by (induction s) auto
  then show ?thesis using s by (simp add: strdup_no_terminator)
qed

lemma strncpy_eq:
  "n \<le> length dest \<Longrightarrow> n \<le> length src \<Longrightarrow> strncpy dest src n = Some (take n src @ drop n dest)"
proof (induction n arbitrary: dest src)
  case (Suc n)
  then show ?case by (cases dest; cases src) auto
qed simp

text \<open>
  \<open>tolower\<close> moves exactly the letters A to Z, by 32, although it compares signed
  characters; it is idempotent.
\<close>

theorem tolower_correct:
  "tolower c = (if 65 \<le> c \<and> c \<le> 90 then c + 32 else c) \<and> tolower (tolower c) = tolower c"
proof -
  have eq: "tolower c = (if 65 \<le> c \<and> c \<le> 90 then c + 32 else c)" for c
    using uint_bounded [of c] by (auto simp: tolower_def sint_u8 word_le_def)
  have "90 < c + 32" if "65 \<le> c" "c \<le> 90"
  proof -
    have "unat c \<le> 90" "65 \<le> unat c" using that by (simp_all add: word_le_nat_alt)
    then show ?thesis by (simp add: word_less_nat_alt unat_word_ariths)
  qed
  then show ?thesis by (auto simp: eq)
qed

end
