(* ===== verification/Std_String.thy ===== *)
theory Std_String
  imports CString
begin

text \<open>
  The class \<open>std::string\<close> of \<open>include/std/string.hpp\<close>. Every constructor makes the buffer as long as
  the string, so a string is the list of the characters of its buffer: there is no terminator, and a
  C routine that looks for one reads behind the buffer. What lies there belongs to the heap, and is an
  argument \<open>after\<close> of the operations that read it; a character of a buffer is a signed byte.
\<close>

type_synonym sstring = "u8 list"

section \<open>The class\<close>

(* src/include/std/string.hpp:19-19 npos *)
definition npos :: u32 where
  "npos = - 1"

(* src/include/std/string.hpp:23-25 string *)
definition string_of_cstr :: "cbuf \<Rightarrow> sstring option" where
  "string_of_cstr init_val = do {
     n \<leftarrow> strlen init_val;
     strncpy (replicate n 0) init_val n
   }"

(* src/include/std/string.hpp:26-28 string *)
definition string_of_char :: "u8 \<Rightarrow> sstring" where
  "string_of_char init_val = [init_val]"

(* src/include/std/string.hpp:29-31 string *)
definition string_copy :: "sstring \<Rightarrow> sstring option" where
  "string_copy other = strncpy (replicate (length other) 0) other (length other)"

(* src/include/std/string.hpp:36-36 string::size *)
definition string_size :: "sstring \<Rightarrow> u32" where
  "string_size s = of_nat (length s)"

text \<open>The loop over \<open>n\<close> characters, from \<open>p\<close> on; offsets are 32 bits wide.\<close>

(* src/include/std/string.hpp:51-61 string::compare *)
fun compare_loop :: "sstring \<Rightarrow> u32 \<Rightarrow> sstring \<Rightarrow> u32 \<Rightarrow> nat \<Rightarrow> int option" where
  "compare_loop s pos1 str p 0 = Some 0"
| "compare_loop s pos1 str p (Suc n) = do {
     a \<leftarrow> arr_get s (unat (p + pos1));
     b \<leftarrow> arr_get str (unat p);
     if sint a > sint b then Some 1
     else if sint a < sint b then Some (-1)
     else compare_loop s pos1 str (p + 1) n
   }"

(* src/include/std/string.hpp:45-64 string::compare *)
definition string_compare :: "sstring \<Rightarrow> u32 \<Rightarrow> u32 \<Rightarrow> sstring \<Rightarrow> int option" where
  "string_compare s pos1 count1 str =
     (let count1 = (if pos1 + count1 > string_size s \<or> count1 = npos then string_size s - pos1 else count1)
      in compare_loop s pos1 str 0 (unat (min count1 (string_size str))))"

(* src/include/std/string.hpp:70-78 string::find_last_of *)
fun find_back :: "sstring \<Rightarrow> sstring \<Rightarrow> nat \<Rightarrow> u32 option" where
  "find_back s str 0 = Some npos"
| "find_back s str (Suc i) = do {
     r \<leftarrow> string_compare s (of_nat (Suc i)) (string_size str) str;
     if r = 0 then Some (of_nat (Suc i)) else find_back s str i
   }"

text \<open>The search starts at \<open>pos - 1\<close>, in unsigned arithmetic, and stops before the first character.\<close>

(* src/include/std/string.hpp:66-79 string::find_last_of *)
definition find_last_of :: "sstring \<Rightarrow> sstring \<Rightarrow> u32 \<Rightarrow> u32 option" where
  "find_last_of s str pos =
     (let pos = (if pos = npos then string_size s else pos) in find_back s str (unat (pos - 1)))"

fun find_from :: "sstring \<Rightarrow> sstring \<Rightarrow> nat \<Rightarrow> nat \<Rightarrow> u32 option" where
  "find_from s str i 0 = Some npos"
| "find_from s str i (Suc n) = do {
     r \<leftarrow> string_compare s (of_nat i) npos str;
     if r = 0 then Some (of_nat i) else find_from s str (Suc i) n
   }"

(* src/include/std/string.hpp:81-89 string::find *)
definition string_find :: "sstring \<Rightarrow> sstring \<Rightarrow> u32 \<Rightarrow> u32 option" where
  "string_find s str pos = find_from s str (unat pos) (length s - unat pos)"

(* src/include/std/string.hpp:97-99 string::substr *)
fun copy_chars :: "sstring \<Rightarrow> u32 \<Rightarrow> nat \<Rightarrow> sstring option" where
  "copy_chars s pos 0 = Some []"
| "copy_chars s pos (Suc n) = do {
     c \<leftarrow> arr_get s (unat pos);
     cs \<leftarrow> copy_chars s (pos + 1) n;
     Some (c # cs)
   }"

text \<open>The characters are copied to a C string first, so the result ends at the first zero.\<close>

(* src/include/std/string.hpp:91-107 string::substr *)
definition substr :: "sstring \<Rightarrow> u32 \<Rightarrow> u32 \<Rightarrow> sstring option" where
  "substr s pos count = do {
     let count = (if pos + count > string_size s \<or> count = npos then string_size s - pos else count);
     dest \<leftarrow> copy_chars s pos (unat count);
     string_of_cstr (dest @ [0])
   }"

(* src/include/std/string.hpp:130-136 string::operator= *)
definition string_assign_cstr :: "cbuf \<Rightarrow> sstring option" where
  "string_assign_cstr other = string_of_cstr other"

(* src/include/std/string.hpp:151-153 string::operator== *)
definition string_eq :: "sstring \<Rightarrow> cbuf \<Rightarrow> sstring \<Rightarrow> cbuf \<Rightarrow> bool option" where
  "string_eq s after rhs after' = map_option (\<lambda>r. r = 0) (strcmp (s @ after) (rhs @ after'))"

(* src/include/std/string.hpp:154-156 string::operator== *)
definition string_eq_cstr :: "sstring \<Rightarrow> cbuf \<Rightarrow> cbuf \<Rightarrow> bool option" where
  "string_eq_cstr s after rhs = map_option (\<lambda>r. r = 0) (strcmp (s @ after) rhs)"

(* src/include/std/string.hpp:158-168 string::operator+= *)
definition string_append :: "sstring \<Rightarrow> sstring \<Rightarrow> sstring option" where
  "string_append s s2 = do {
     a \<leftarrow> strncpy (replicate (length s + length s2) 0) s (length s);
     b \<leftarrow> strncpy (drop (length s) a) s2 (length s2);
     Some (take (length s) a @ b)
   }"

(* src/include/std/string.hpp:170-180 string::operator+= *)
definition string_append_char :: "sstring \<Rightarrow> u8 \<Rightarrow> sstring option" where
  "string_append_char s c = do {
     a \<leftarrow> strncpy (replicate (length s + 1) 0) s (length s);
     arr_set a (length s) c
   }"

(* src/include/std/string.hpp:193-200 string::operator char* *)
definition string_to_cstr :: "sstring \<Rightarrow> cbuf option" where
  "string_to_cstr s = do {
     a \<leftarrow> strncpy (replicate (length s + 1) 0) s (length s);
     arr_set a (length s) 0
   }"

section \<open>What the operations compute\<close>

lemma strncpy_all: "length src \<le> length dest \<Longrightarrow>
  strncpy dest src (length src) = Some (src @ drop (length src) dest)"
  by (induction src arbitrary: dest) (auto simp: Suc_le_length_iff)

lemma strncpy_prefix: "n \<le> length src \<Longrightarrow> n \<le> length dest \<Longrightarrow>
  strncpy dest src n = Some (take n src @ drop n dest)"
proof (induction n arbitrary: src dest)
  case (Suc n)
  then show ?case by (cases src; cases dest) auto
qed simp

lemma string_of_cstr_eq [simp]: "0 \<notin> set s \<Longrightarrow> string_of_cstr (cstr s r) = Some s"
  by (simp add: string_of_cstr_def strncpy_prefix) (simp add: cstr_def)

lemma string_copy_eq [simp]: "string_copy s = Some s"
  by (simp add: string_copy_def strncpy_all)

lemma string_append_eq [simp]: "string_append s t = Some (s @ t)"
  by (simp add: string_append_def strncpy_all)

lemma drop_all_but_one [simp]: "drop n (x # replicate n x) = [x]"
  using drop_replicate [of n "Suc n" x] by simp

lemma string_append_char_eq [simp]: "string_append_char s c = Some (s @ [c])"
  by (simp add: string_append_char_def strncpy_all list_update_append)

lemma string_to_cstr_eq [simp]: "string_to_cstr s = Some (cstr s [])"
  by (simp add: string_to_cstr_def strncpy_all list_update_append cstr_def)

lemma unat_string_size: "length s < 2 ^ 32 \<Longrightarrow> unat (string_size s) = length s"
  by (simp add: string_size_def unat_of_nat)

lemma copy_chars_eq:
  assumes "unat pos + n \<le> length s" and "length s < 2 ^ 32"
  shows "copy_chars s pos n = Some (take n (drop (unat pos) s))"
  using assms(1)
proof (induction n arbitrary: pos)
  case (Suc n)
  then have "unat (pos + 1) = unat pos + 1"
    using assms(2) unat_plus_1 [of pos "of_nat (length s)"] by (simp add: unat_of_nat)
  moreover have "drop (unat pos) s = s ! unat pos # drop (Suc (unat pos)) s"
    using Suc.prems by (intro Cons_nth_drop_Suc [symmetric]) simp
  ultimately show ?case using Suc.IH [of "pos + 1"] Suc.prems by simp
qed simp

lemma substr_value:
  assumes len: "length s < 2 ^ 31" and count: "count = npos \<or> unat count < 2 ^ 31" and pos: "unat pos < 2 ^ 31"
  shows "substr s pos count =
    (if unat pos \<le> length s
     then Some (takeWhile (\<lambda>c. c \<noteq> 0) (take (if count = npos then length s else unat count) (drop (unat pos) s)))
     else None)"
proof -
  let ?c = "if pos + count > string_size s \<or> count = npos then string_size s - pos else count"
  have sz: "unat (string_size s) = length s" using len by (simp add: unat_string_size)
  have sum: "unat (pos + count) = unat pos + unat count" if "count \<noteq> npos"
    using that count pos by (simp add: unat_word_ariths)
  have fin: "(do { dest \<leftarrow> Some xs; string_of_cstr (dest @ [0]) }) = Some (takeWhile (\<lambda>c. c \<noteq> 0) xs)"
    for xs :: sstring
  proof (cases "dropWhile (\<lambda>c. c \<noteq> 0) xs")
    case Nil
    then have z: "\<forall>c \<in> set xs. c \<noteq> 0" by simp
    then have "takeWhile (\<lambda>c. c \<noteq> 0) xs = xs" by (simp add: takeWhile_eq_all_conv)
    moreover have "string_of_cstr (xs @ [0]) = Some xs"
      using string_of_cstr_eq [of xs "[]"] z unfolding cstr_def by blast
    ultimately show ?thesis by (simp only: Option.bind.bind_lunit)
  next
    case (Cons d y)
    then have "d = 0" using hd_dropWhile [of "\<lambda>c. c \<noteq> 0" xs] by simp
    then have "xs @ [0] = cstr (takeWhile (\<lambda>c. c \<noteq> 0) xs) (y @ [0])"
      using takeWhile_dropWhile_id [of "\<lambda>c. c \<noteq> 0" xs] Cons unfolding cstr_def by (metis append_assoc append_Cons)
    moreover have "0 \<notin> set (takeWhile (\<lambda>c. c \<noteq> 0) xs)" by (auto dest: set_takeWhileD)
    ultimately show ?thesis by simp
  qed
  show ?thesis
  proof (cases "unat pos \<le> length s")
    case True
    then have "pos \<le> string_size s" by (simp add: word_le_nat_alt sz)
    then have d: "unat (string_size s - pos) = length s - unat pos" by (simp add: unat_sub sz)
    have gt: "pos + count > string_size s \<longleftrightarrow> unat pos + unat count > length s" if "count \<noteq> npos"
      using sum [OF that] by (simp add: word_less_nat_alt sz)
    have "unat pos + unat ?c \<le> length s" using True d gt by (auto simp: not_less)
    then have "copy_chars s pos (unat ?c) = Some (take (unat ?c) (drop (unat pos) s))"
      using len by (intro copy_chars_eq) simp_all
    moreover have "take (unat ?c) (drop (unat pos) s) =
        take (if count = npos then length s else unat count) (drop (unat pos) s)"
      using d gt by auto
    ultimately show ?thesis using True fin by (simp add: substr_def Let_def)
  next
    case False
    then have big: "unat (string_size s - pos) \<noteq> 0"
      by (metis unat_eq_0 right_minus_eq sz order_refl)
    have "unat ?c \<noteq> 0 \<or> count \<noteq> npos \<and> unat pos + unat count \<le> length s"
      using big sum by (auto simp: word_less_nat_alt sz not_less)
    then have "unat ?c \<noteq> 0" using False by linarith
    then obtain n where "unat ?c = Suc n" by (cases "unat ?c") auto
    then show ?thesis using False by (simp add: substr_def Let_def)
  qed
qed

lemma substr_tail:
  assumes "length (c # s) < 2 ^ 31" and "0 \<notin> set s"
  shows "substr (c # s) 1 (string_size (c # s) - 1) = Some s"
proof -
  have n: "unat (string_size (c # s)) = Suc (length s)" using assms(1) by (simp add: unat_string_size)
  then have "string_size (c # s) = of_nat (Suc (length s))" by (simp add: string_size_def)
  then have "string_size (c # s) - 1 = of_nat (length s)" by simp
  then have u: "unat (string_size (c # s) - 1) = length s" using assms(1) by (simp add: unat_of_nat)
  moreover have "unat npos = 2 ^ 32 - 1" by (simp add: npos_def unsigned_minus_1_eq_mask mask_eq_exp_minus_1)
  then have "string_size (c # s) - 1 \<noteq> npos" using u assms(1) by fastforce
  ultimately show ?thesis
    using substr_value [OF assms(1), of "string_size (c # s) - 1" 1] assms by (simp add: takeWhile_eq_all_conv)
      (metis takeWhile_eq_all_conv)
qed

text \<open>
  \<open>substr\<close> is the characters from \<open>pos\<close> on, at most \<open>count\<close> of them, up to the first zero; from a
  position behind the string it faults.
\<close>

theorem substr_correct:
  assumes "length s < 2 ^ 31" and "count = npos \<or> unat count < 2 ^ 31" and "unat pos < 2 ^ 31"
  shows "substr s pos count =
    (if unat pos \<le> length s
     then Some (takeWhile (\<lambda>c. c \<noteq> 0) (take (if count = npos then length s else unat count) (drop (unat pos) s)))
     else None)"
  using assms by (rule substr_value)

theorem substr_correct_witness:
  "substr [0x2F, 0x61, 0x62] 1 npos = Some [0x61, 0x62] \<and> substr [0x61] 2 npos = None"
  using substr_correct [of "[0x2F, 0x61, 0x62]" npos 1] substr_correct [of "[0x61]" npos 2] by simp

section \<open>Searching for a character\<close>

lemma compare_char:
  assumes "i < length s" and "length s < 2 ^ 31" and "count = npos \<or> count = 1"
  shows "\<exists>r. string_compare s (of_nat i) count [c] = Some r \<and> (r = 0 \<longleftrightarrow> s ! i = c)"
proof -
  let ?c = "if of_nat i + count > string_size s \<or> count = npos then string_size s - of_nat i else count"
  have i: "unat (of_nat i :: u32) = i" using assms(1,2) by (simp add: unat_of_nat)
  have sz: "unat (string_size s) = length s" using assms(2) by (simp add: unat_string_size)
  have "(of_nat i :: u32) \<le> string_size s" using assms(1) by (simp add: word_le_nat_alt i sz)
  then have "unat (string_size s - of_nat i) = length s - i" by (simp add: unat_sub i sz)
  then have "unat (string_size s - of_nat i) \<noteq> 0" using assms(1) by simp
  then have "string_size s - of_nat i \<noteq> 0" by (metis unat_0)
  then have "?c \<noteq> 0" using assms(3) by auto
  then have "1 \<le> ?c" unfolding word_le_nat_alt by (simp add: Suc_le_eq unat_gt_0)
  then have m: "min ?c (string_size [c]) = 1" by (simp add: string_size_def min_absorb2)
  have "string_compare s (of_nat i) count [c] = compare_loop s (of_nat i) [c] 0 (Suc 0)"
    unfolding string_compare_def Let_def m by simp
  also have "\<dots> = Some (if sint (s ! i) > sint c then 1 else if sint (s ! i) < sint c then -1 else 0)"
    using i assms(1) by simp
  finally have r: "string_compare s (of_nat i) count [c] = \<dots>" .
  have "sint (s ! i) = sint c \<longleftrightarrow> s ! i = c" by (rule word_eq_iff_signed [symmetric])
  then have "((if sint (s ! i) > sint c then 1 else if sint (s ! i) < sint c then -1 else 0) = (0 :: int)) \<longleftrightarrow> s ! i = c"
    by (cases "sint (s ! i)" "sint c" rule: linorder_cases) simp_all
  then show ?thesis using r by blast
qed

text \<open>The first position at which \<open>xs\<close> holds \<open>c\<close>, from \<open>i\<close> on, and the last but not at the start.\<close>

lemma find_from_char:
  assumes "i + n = length s" and "length s < 2 ^ 31"
  shows "find_from s [c] i n = Some (if c \<in> set (drop i s)
    then of_nat (i + length (takeWhile (\<lambda>d. d \<noteq> c) (drop i s))) else npos)"
  using assms(1)
proof (induction n arbitrary: i)
  case (Suc n)
  then have i: "i < length s" by simp
  obtain r where r: "string_compare s (of_nat i) npos [c] = Some r" "r = 0 \<longleftrightarrow> s ! i = c"
    using compare_char [OF i assms(2), of npos] by blast
  have "drop i s = s ! i # drop (Suc i) s" using i by (simp add: Cons_nth_drop_Suc)
  moreover have "find_from s [c] (Suc i) n = Some (if c \<in> set (drop (Suc i) s)
    then of_nat (Suc i + length (takeWhile (\<lambda>d. d \<noteq> c) (drop (Suc i) s))) else npos)"
    using Suc.prems by (intro Suc.IH) simp
  ultimately show ?case using r by (auto simp: add.assoc)
qed simp

text \<open>\<open>find\<close> of a character returns its first position from \<open>pos\<close> on, or \<open>npos\<close>.\<close>

theorem string_find_char:
  assumes "length s < 2 ^ 31" and "unat pos \<le> length s"
  shows "string_find s [c] pos = Some (if c \<in> set (drop (unat pos) s)
    then of_nat (unat pos + length (takeWhile (\<lambda>d. d \<noteq> c) (drop (unat pos) s))) else npos)"
  using assms find_from_char [of "unat pos" "length s - unat pos" s c] by (simp add: string_find_def)

theorem string_find_char_witness:
  "string_find [0x30, 0x3A, 0x2F] [0x3A] 0 = Some 1"
  using string_find_char [of "[0x30, 0x3A, 0x2F]" 0 "0x3A"] by simp

lemma find_back_char:
  assumes "i < length s" and "length s < 2 ^ 31"
  shows "find_back s [c] i =
    (let ks = filter (\<lambda>k. s ! k = c) [1..<Suc i] in Some (if ks = [] then npos else of_nat (List.last ks)))"
  using assms(1)
proof (induction i)
  case (Suc i)
  have one: "string_size [c] = 1" by (simp add: string_size_def)
  obtain r where r: "string_compare s (of_nat (Suc i)) 1 [c] = Some r" "r = 0 \<longleftrightarrow> s ! Suc i = c"
    using compare_char [OF Suc.prems assms(2), of 1] by blast
  have "find_back s [c] (Suc i) = (if s ! Suc i = c then Some (of_nat (Suc i)) else find_back s [c] i)"
    unfolding find_back.simps one r(1) by (simp add: r(2))
  moreover have "[1..<Suc (Suc i)] = [1..<Suc i] @ [Suc i]" by simp
  ultimately show ?case using Suc by (simp only: filter_append filter.simps Let_def) simp
qed simp

lemma find_last_of_empty: "find_last_of [] [c] npos = None"
proof -
  have "unat (0 - 1 :: u32) \<noteq> 0" by (simp add: unat_eq_0)
  then obtain n where n: "unat (0 - 1 :: u32) = Suc n" by (cases "unat (0 - 1 :: u32)") auto
  have "(of_nat (Suc n) :: u32) = - 1" unfolding n [symmetric] by simp
  then have "string_compare [] (of_nat (Suc n)) 1 [c] = None"
    by (simp add: string_compare_def string_size_def npos_def)
  then show ?thesis
    unfolding find_last_of_def by (simp add: string_size_def) (simp only: n [simplified] find_back.simps, simp add: string_size_def)
qed

lemma find_last_of_value:
  assumes "length s < 2 ^ 31"
  shows "find_last_of s [c] npos =
    (if s = [] then None
     else let ks = filter (\<lambda>k. s ! k = c) [1..<length s]
          in Some (if ks = [] then npos else of_nat (List.last ks)))"
proof (cases "s = []")
  case True
  then show ?thesis using find_last_of_empty by simp
next
  case False
  then have n: "length s - 1 < length s" "Suc (length s - 1) = length s" by simp_all
  have "unat (string_size s - 1) = length s - 1"
  proof -
    have "string_size s - 1 = of_nat (length s - 1)" using False by (simp add: string_size_def of_nat_diff Suc_le_eq)
    then show ?thesis using assms by (simp add: unat_of_nat)
  qed
  then have "find_last_of s [c] npos = find_back s [c] (length s - 1)" by (simp add: find_last_of_def)
  then show ?thesis using find_back_char [OF n(1) assms, of c] False unfolding n(2) by simp
qed

text \<open>
  \<open>find_last_of\<close> of a character returns its last position, unless that is the first of the string: a
  character that occurs at position 0 only is reported missing. The empty string makes it fault.
\<close>

theorem find_last_of_char:
  assumes "length s < 2 ^ 31"
  shows "find_last_of s [c] npos =
    (if s = [] then None
     else let ks = filter (\<lambda>k. s ! k = c) [1..<length s]
          in Some (if ks = [] then npos else of_nat (List.last ks)))"
  using assms by (rule find_last_of_value)

theorem find_last_of_char_witness:
  "find_last_of [0x2F, 0x61, 0x2F, 0x62] [0x2F] npos = Some 2 \<and> find_last_of [0x2F, 0x61] [0x2F] npos = Some npos"
  using find_last_of_char [of "[0x2F, 0x61, 0x2F, 0x62]" "0x2F"] find_last_of_char [of "[0x2F, 0x61]" "0x2F"]
  by (simp add: upt_rec)

end
