(* ===== verification/Tokens.thy ===== *)
theory Tokens
  imports CString
begin

text \<open>
  Splitting a string with \<open>strtok\<close>: what one call leaves behind, and the loop that collects the
  tokens, which \<open>kernel/command.cpp\<close>, the command interpreter and the path lookup all run.
\<close>

section \<open>The loop\<close>

text \<open>The calls with the null pointer: every token is copied before the next call.\<close>

(* src/kernel/command.cpp:12-15 Command::split *)
partial_function (option) split_rest :: "tok \<Rightarrow> cbuf \<Rightarrow> u8 list list option" where
  "split_rest t delim = do {
     (t, s) \<leftarrow> strtok t None delim;
     case s of
       None \<Rightarrow> Some []
     | Some p \<Rightarrow> do {
         n \<leftarrow> strlen (drop p (tok_str t));
         ts \<leftarrow> split_rest t delim;
         Some (take n (drop p (tok_str t)) # ts)
       }
   }"

(* src/kernel/command.cpp:6-18 Command::split *)
definition split :: "tok \<Rightarrow> cbuf \<Rightarrow> cbuf \<Rightarrow> u8 list list option" where
  "split t command delim = do {
     (t, s) \<leftarrow> strtok t (Some command) delim;
     case s of
       None \<Rightarrow> Some []
     | Some p \<Rightarrow> do {
         n \<leftarrow> strlen (drop p (tok_str t));
         ts \<leftarrow> split_rest t delim;
         Some (take n (drop p (tok_str t)) # ts)
       }
   }"

section \<open>The reference\<close>

lemma rest_shorter:
  assumes ne: "dropWhile (\<lambda>c. c \<in> set D) (dropWhile (\<lambda>c. c \<notin> set D) w) \<noteq> []"
  shows "length (dropWhile (\<lambda>c. c \<in> set D) (dropWhile (\<lambda>c. c \<notin> set D) w)) < length w"
proof -
  let ?v = "dropWhile (\<lambda>c. c \<notin> set D) w"
  have v: "?v \<noteq> []"
  proof
    assume "?v = []"
    then have "dropWhile (\<lambda>c. c \<in> set D) ?v = []" by (simp only: dropWhile.simps)
    with ne show False by simp
  qed
  then obtain d v where dv: "?v = d # v" by (cases ?v) auto
  then have "d \<in> set D" using hd_dropWhile [OF v] by simp
  then have "length (dropWhile (\<lambda>c. c \<in> set D) ?v) < length ?v"
    unfolding dv by (simp add: less_Suc_eq_le length_dropWhile_le)
  also have "\<dots> \<le> length w" by (rule length_dropWhile_le)
  finally show ?thesis .
qed

text \<open>The words between runs of delimiters; a run at the end counts for nothing, one at the start does.\<close>

function words :: "u8 list \<Rightarrow> u8 list \<Rightarrow> u8 list list" where
  "words D w = takeWhile (\<lambda>c. c \<notin> set D) w #
     (let rest = dropWhile (\<lambda>c. c \<in> set D) (dropWhile (\<lambda>c. c \<notin> set D) w)
      in if rest = [] then [] else words D rest)"
  by pat_completeness auto
termination
  by (relation "measure (\<lambda>(D, w). length w)") (auto intro: rest_shorter simp del: dropWhile_eq_Nil_conv)

declare words.simps [simp del]

section \<open>One call\<close>

lemma strspn_in:
  assumes "0 \<notin> set w" and "0 \<notin> set D"
  shows "strspn (w @ 0 # r) (cstr D q) = Some (length (takeWhile (\<lambda>c. c \<in> set D) w))"
  using assms(1) in_accept_cstr [OF assms(2)] by (induction w) auto

lemma tok_blank_run:
  assumes "length ds = Suc k"
  shows "tok_blank (Suc k) \<lparr>tok_str = pre @ ds @ x, tok_nxt = int (length pre), tok_size = n\<rparr> =
    Some (1, \<lparr>tok_str = pre @ replicate k 0 @ List.last ds # x, tok_nxt = int (length pre + k), tok_size = n - int k\<rparr>)"
  using assms
proof (induction k arbitrary: ds pre n)
  case 0
  then obtain d where "ds = [d]" by (auto simp: length_Suc_conv)
  then show ?case by simp
next
  case (Suc k)
  then obtain d ds' where ds: "ds = d # ds'" "length ds' = Suc k" by (auto simp: length_Suc_conv)
  have "(pre @ ds @ x)[length pre := 0] = (pre @ [0]) @ ds' @ x" using ds by simp
  then show ?case
    using Suc.IH [OF ds(2), of "pre @ [0]" "n - 1"] ds
    by (auto simp: list_update_append algebra_simps)
qed

definition blanked :: "u8 list \<Rightarrow> u8 list \<Rightarrow> u8 list" where
  "blanked D x = map (\<lambda>c. if c \<in> set D then 0 else c) x"

lemma blanked_simps [simp]: "blanked D [] = []" "length (blanked D x) = length x"
  "blanked D (c # x) = (if c \<in> set D then 0 else c) # blanked D x" "blanked D (x @ y) = blanked D x @ blanked D y"
  by (simp_all add: blanked_def)

lemma blanked_delims: "set ds \<subseteq> set D \<Longrightarrow> blanked D ds = replicate (length ds) 0"
  by (induction ds) auto

text \<open>
  The state after the scan of \<open>w\<close>, when the count of characters ends with \<open>w\<close> but the bytes \<open>g\<close> behind it are
  no terminator: the scan of the last word runs on through \<open>g\<close>.
\<close>

definition after_tok :: "u8 list \<Rightarrow> u8 list \<Rightarrow> u8 list \<Rightarrow> u8 list \<Rightarrow> u8 list \<Rightarrow> tok" where
  "after_tok D pre w g r =
     (let u = takeWhile (\<lambda>c. c \<notin> set D) w; v = dropWhile (\<lambda>c. c \<notin> set D) w;
          k = length (takeWhile (\<lambda>c. c \<in> set D) v); rest = dropWhile (\<lambda>c. c \<in> set D) v
      in if rest = []
         then \<lparr>tok_str = pre @ u @ replicate k 0 @ blanked D g @ 0 # r,
               tok_nxt = int (length pre + length w + length g), tok_size = - int (length g)\<rparr>
         else \<lparr>tok_str = pre @ u @ replicate k 0 @ rest @ g @ 0 # r,
               tok_nxt = int (length pre + length u + k) - 1, tok_size = int (length rest) + 1\<rparr>)"

abbreviation after_token :: "u8 list \<Rightarrow> u8 list \<Rightarrow> u8 list \<Rightarrow> u8 list \<Rightarrow> tok" where
  "after_token D pre w r \<equiv> after_tok D pre w [] r"

lemma tok_scan_stop:
  "nat (tok_nxt t) < length (tok_str t) \<Longrightarrow> tok_str t ! nat (tok_nxt t) = 0 \<Longrightarrow> tok_scan delim t = Some t"
  by (subst tok_scan.simps) simp

text \<open>A character that is no delimiter is passed; a run of delimiters is blanked.\<close>

lemma tok_scan_char:
  assumes c: "c \<noteq> 0" "c \<notin> set D" and "0 \<notin> set x" and "0 \<notin> set D"
  shows "tok_scan (cstr D q) \<lparr>tok_str = pre @ c # x @ 0 # r, tok_nxt = int (length pre), tok_size = N\<rparr>
    = tok_scan (cstr D q) \<lparr>tok_str = (pre @ [c]) @ x @ 0 # r, tok_nxt = int (length (pre @ [c])), tok_size = N - 1\<rparr>"
proof -
  have "strspn (c # x @ 0 # r) (cstr D q) = Some 0"
    using strspn_in [of "c # x" D r q] assms by simp
  then show ?thesis using c(1) by (subst tok_scan.simps) (simp add: tok_last_def add.commute [of 1])
qed

lemma tok_scan_run:
  assumes ds: "ds \<noteq> []" "set ds \<subseteq> set D" and rest: "rest = [] \<or> hd rest \<notin> set D" "0 \<notin> set rest" and D: "0 \<notin> set D"
  shows "tok_scan (cstr D q) \<lparr>tok_str = pre @ ds @ rest @ 0 # r, tok_nxt = int (length pre), tok_size = N\<rparr>
    = (let p = pre @ replicate (length ds) 0; m = int (length ds)
       in if N - m \<ge> 1 then Some \<lparr>tok_str = p @ rest @ 0 # r, tok_nxt = int (length p) - 1, tok_size = N - m + 1\<rparr>
          else tok_scan (cstr D q) \<lparr>tok_str = p @ rest @ 0 # r, tok_nxt = int (length p), tok_size = N - m\<rparr>)"
proof -
  obtain k where k: "length ds = Suc k" using ds(1) by (cases ds) auto
  obtain d ds' where d: "ds = d # ds'" using ds(1) by (cases ds) auto
  have d0: "d \<noteq> 0" using d ds(2) D by auto
  have w0: "0 \<notin> set (ds @ rest)" using ds(2) rest(2) D by auto
  have tw: "takeWhile (\<lambda>c. c \<in> set D) (ds @ rest) = ds"
    using ds(2) rest(1) by (cases rest) (auto simp: takeWhile_append2 subset_iff)
  have span: "strspn (ds @ rest @ 0 # r) (cstr D q) = Some (Suc k)"
    using strspn_in [OF w0 D, of r q] unfolding tw k by simp
  let ?s = "pre @ replicate k 0 @ 0 # rest @ 0 # r"
  have s: "(pre @ replicate k 0 @ List.last ds # rest @ 0 # r)[length pre + k := 0] = ?s"
    by (simp add: list_update_append)
  have blank: "tok_blank (Suc k) \<lparr>tok_str = pre @ ds @ rest @ 0 # r, tok_nxt = int (length pre), tok_size = N\<rparr> =
      Some (1, \<lparr>tok_str = pre @ replicate k 0 @ List.last ds # rest @ 0 # r, tok_nxt = int (length pre + k), tok_size = N - int k\<rparr>)"
    by (rule tok_blank_run [OF k])
  have last: "tok_last 1 \<lparr>tok_str = pre @ replicate k 0 @ List.last ds # rest @ 0 # r,
        tok_nxt = int (length pre + k), tok_size = N - int k\<rparr> =
      Some (if N - int k > 1 then \<lparr>tok_str = ?s, tok_nxt = int (length pre + k) - 1, tok_size = N - int k + 1\<rparr>
        else \<lparr>tok_str = ?s, tok_nxt = int (length pre + k), tok_size = N - int k\<rparr>)"
    using s by (simp add: tok_last_def nat_add_distrib)
  have at: "arr_get (pre @ ds @ rest @ 0 # r) (length pre) = Some d" using d by simp
  have step: "tok_scan (cstr D q) \<lparr>tok_str = pre @ ds @ rest @ 0 # r, tok_nxt = int (length pre), tok_size = N\<rparr> =
      tok_scan (cstr D q) (if N - int k > 1 then \<lparr>tok_str = ?s, tok_nxt = int (length pre + k), tok_size = N - int k\<rparr>
        else \<lparr>tok_str = ?s, tok_nxt = int (length pre + k) + 1, tok_size = N - int k - 1\<rparr>)"
    using d0 span at
    by (subst tok_scan.simps) (simp add: blank last [simplified])
  have rep: "?s = (pre @ replicate (length ds) 0) @ rest @ 0 # r"
    unfolding k by (simp add: replicate_append_same [symmetric])
  have "?s ! (length pre + k) = 0" by (simp add: nth_append)
  then have stop: "tok_scan (cstr D q) \<lparr>tok_str = ?s, tok_nxt = int (length pre + k), tok_size = M\<rparr> =
      Some \<lparr>tok_str = ?s, tok_nxt = int (length pre + k), tok_size = M\<rparr>" for M
    by (intro tok_scan_stop) (simp_all only: tok.simps nat_int, simp_all)
  show ?thesis
    unfolding step Let_def rep [symmetric] using stop k by (simp add: algebra_simps)
qed

text \<open>With the count used up, the scan only stops at a terminator.\<close>

lemma tok_scan_used_up:
  assumes "0 \<notin> set x" and "0 \<notin> set D" and "N \<le> 1"
  shows "tok_scan (cstr D q) \<lparr>tok_str = pre @ x @ 0 # r, tok_nxt = int (length pre), tok_size = N\<rparr> =
    Some \<lparr>tok_str = pre @ blanked D x @ 0 # r, tok_nxt = int (length pre + length x), tok_size = N - int (length x)\<rparr>"
  using assms(1,3)
proof (induction "length x" arbitrary: x pre N rule: less_induct)
  case less
  show ?case
  proof (cases x)
    case Nil
    then show ?thesis by (subst tok_scan_stop) (simp_all add: nth_append)
  next
    case (Cons c y)
    show ?thesis
    proof (cases "c \<in> set D")
      case False
      have "c \<noteq> 0" "0 \<notin> set y" "length y < length x" using less.prems(1) Cons by auto
      then show ?thesis
        using tok_scan_char [of c D y q pre r N] less.hyps [of y "N - 1" "pre @ [c]"] less.prems(2) assms(2) False Cons
        by simp
    next
      case True
      define ds where "ds = takeWhile (\<lambda>c. c \<in> set D) x"
      define rest where "rest = dropWhile (\<lambda>c. c \<in> set D) x"
      have x: "x = ds @ rest" by (simp add: ds_def rest_def)
      have ds: "ds \<noteq> []" "set ds \<subseteq> set D" using True Cons by (auto simp: ds_def dest: set_takeWhileD)
      have r: "rest = [] \<or> hd rest \<notin> set D" unfolding rest_def
        by (metis (mono_tags) hd_dropWhile)
      have rest: "0 \<notin> set rest" "length rest < length x" using less.prems(1) x ds(1) by auto
      have n: "1 \<le> length ds" using ds(1) by (cases ds) simp_all
      have small: "N - int (length ds) \<le> 1" "\<not> 1 \<le> N - int (length ds)" using n less.prems(2) by linarith+
      let ?p = "pre @ replicate (length ds) 0"
      have "tok_scan (cstr D q) \<lparr>tok_str = pre @ x @ 0 # r, tok_nxt = int (length pre), tok_size = N\<rparr> =
          tok_scan (cstr D q) \<lparr>tok_str = ?p @ rest @ 0 # r, tok_nxt = int (length ?p), tok_size = N - int (length ds)\<rparr>"
        using tok_scan_run [OF ds r rest(1) assms(2), of q pre r N] unfolding Let_def if_not_P [OF small(2)] x
        by (simp only: append_assoc)
      also have "\<dots> = Some \<lparr>tok_str = ?p @ blanked D rest @ 0 # r, tok_nxt = int (length ?p + length rest),
          tok_size = N - int (length ds) - int (length rest)\<rparr>"
        by (rule less.hyps [OF rest(2,1) small(1)])
      finally show ?thesis
        unfolding x by (simp add: blanked_delims [OF ds(2)])
    qed
  qed
qed

lemma run_split:
  obtains ds rest where "x = ds @ rest" and "set ds \<subseteq> set D" and "rest = [] \<or> hd rest \<notin> set D"
    and "ds = takeWhile (\<lambda>c. c \<in> set D) x" and "rest = dropWhile (\<lambda>c. c \<in> set D) x"
proof (rule that)
  show "x = takeWhile (\<lambda>c. c \<in> set D) x @ dropWhile (\<lambda>c. c \<in> set D) x" by simp
  show "set (takeWhile (\<lambda>c. c \<in> set D) x) \<subseteq> set D" by (auto dest: set_takeWhileD)
  show "dropWhile (\<lambda>c. c \<in> set D) x = [] \<or> hd (dropWhile (\<lambda>c. c \<in> set D) x) \<notin> set D"
    by (cases "dropWhile (\<lambda>c. c \<in> set D) x = []") (blast, use hd_dropWhile [of "\<lambda>c. c \<in> set D" x] in blast)
qed (rule refl)+

lemma tok_scan_last_run:
  assumes ds: "ds \<noteq> []" "set ds \<subseteq> set D" and g: "0 \<notin> set g" and D: "0 \<notin> set D"
  shows "tok_scan (cstr D q) \<lparr>tok_str = pre @ ds @ g @ 0 # r, tok_nxt = int (length pre), tok_size = int (length ds)\<rparr> =
    Some \<lparr>tok_str = pre @ replicate (length ds) 0 @ blanked D g @ 0 # r, tok_nxt = int (length pre + length ds + length g),
      tok_size = - int (length g)\<rparr>"
proof -
  obtain d2 g2 where g2: "g = d2 @ g2" "set d2 \<subseteq> set D" "g2 = [] \<or> hd g2 \<notin> set D"
    by (rule run_split [of g D])
  have nz: "0 \<notin> set g2" using g g2(1) by simp
  have d: "ds @ d2 \<noteq> []" "set (ds @ d2) \<subseteq> set D" using ds g2(2) by auto
  have n: "\<not> 1 \<le> int (length ds) - int (length (ds @ d2))" "int (length ds) - int (length (ds @ d2)) \<le> 1"
    by simp_all
  let ?p = "pre @ replicate (length (ds @ d2)) 0"
  have "tok_scan (cstr D q) \<lparr>tok_str = pre @ (ds @ d2) @ g2 @ 0 # r, tok_nxt = int (length pre), tok_size = int (length ds)\<rparr>
    = tok_scan (cstr D q) \<lparr>tok_str = ?p @ g2 @ 0 # r, tok_nxt = int (length ?p), tok_size = int (length ds) - int (length (ds @ d2))\<rparr>"
    using tok_scan_run [OF d g2(3) nz D, of q pre r "int (length ds)"] unfolding Let_def if_not_P [OF n(1)] .
  also have "\<dots> = Some \<lparr>tok_str = ?p @ blanked D g2 @ 0 # r, tok_nxt = int (length ?p + length g2),
      tok_size = int (length ds) - int (length (ds @ d2)) - int (length g2)\<rparr>"
    by (rule tok_scan_used_up [OF nz D n(2)])
  finally show ?thesis
    by (simp add: g2(1) blanked_delims [OF g2(2)] replicate_add)
qed

lemma tok_scan_token:
  assumes "0 \<notin> set w" and "0 \<notin> set g" and "0 \<notin> set D"
  shows "tok_scan (cstr D q) \<lparr>tok_str = pre @ w @ g @ 0 # r, tok_nxt = int (length pre), tok_size = int (length w)\<rparr>
    = Some (after_tok D pre w g r)"
  using assms(1)
proof (induction w arbitrary: pre)
  case Nil
  show ?case
    using tok_scan_used_up [OF assms(2,3), of 0 q pre r] by (simp add: after_tok_def)
next
  case (Cons c w)
  show ?case
  proof (cases "c \<in> set D")
    case False
    have uv: "takeWhile (\<lambda>c. c \<notin> set D) (c # w) = c # takeWhile (\<lambda>c. c \<notin> set D) w"
      "dropWhile (\<lambda>c. c \<notin> set D) (c # w) = dropWhile (\<lambda>c. c \<notin> set D) w"
      using False by simp_all
    have at: "after_tok D (pre @ [c]) w g r = after_tok D pre (c # w) g r"
    proof -
      define u v where "u = takeWhile (\<lambda>c. c \<notin> set D) w" and "v = dropWhile (\<lambda>c. c \<notin> set D) w"
      define ds rest where "ds = takeWhile (\<lambda>c. c \<in> set D) v" and "rest = dropWhile (\<lambda>c. c \<in> set D) v"
      show ?thesis
        unfolding after_tok_def Let_def uv u_def [symmetric] v_def [symmetric] ds_def [symmetric] rest_def [symmetric]
        by simp
    qed
    have c: "c \<noteq> 0" "0 \<notin> set (w @ g)" "0 \<notin> set w" using Cons.prems assms(2) by auto
    have "tok_scan (cstr D q) \<lparr>tok_str = pre @ (c # w) @ g @ 0 # r, tok_nxt = int (length pre), tok_size = int (length (c # w))\<rparr>
      = tok_scan (cstr D q) \<lparr>tok_str = (pre @ [c]) @ w @ g @ 0 # r, tok_nxt = int (length (pre @ [c])), tok_size = int (length w)\<rparr>"
      using tok_scan_char [OF c(1) False c(2) assms(3), of q pre r "int (length (c # w))"]
      by (simp only: append_Cons append_assoc length_Cons) simp
    then show ?thesis unfolding Cons.IH [OF c(3)] at .
  next
    case True
    obtain ds rest where w: "c # w = ds @ rest" and ds: "set ds \<subseteq> set D" and h: "rest = [] \<or> hd rest \<notin> set D"
      and d: "ds = takeWhile (\<lambda>c. c \<in> set D) (c # w)" and r: "rest = dropWhile (\<lambda>c. c \<in> set D) (c # w)"
      by (rule run_split [of "c # w" D])
    have ds0: "ds \<noteq> []" using True unfolding d by simp
    have nz: "0 \<notin> set (rest @ g)" using Cons.prems assms(2) unfolding w by simp
    have u: "takeWhile (\<lambda>c. c \<notin> set D) (c # w) = []" and v: "dropWhile (\<lambda>c. c \<notin> set D) (c # w) = c # w"
      using True by simp_all
    note at = after_tok_def [of D pre "c # w" g r, unfolded Let_def u v, folded d r]
    show ?thesis
    proof (cases "rest = []")
      case False
      have h': "rest @ g = [] \<or> hd (rest @ g) \<notin> set D" using h False by simp
      have n: "1 \<le> int (length (ds @ rest)) - int (length ds)" using False by (cases rest) simp_all
      have "tok_scan (cstr D q) \<lparr>tok_str = pre @ (ds @ rest) @ g @ 0 # r, tok_nxt = int (length pre), tok_size = int (length (ds @ rest))\<rparr>
        = Some \<lparr>tok_str = pre @ replicate (length ds) 0 @ rest @ g @ 0 # r, tok_nxt = int (length pre + length ds) - 1,
          tok_size = int (length rest) + 1\<rparr>"
        using tok_scan_run [OF ds0 ds h' nz assms(3), of q pre r "int (length (ds @ rest))"]
        unfolding Let_def if_P [OF n] by simp
      then show ?thesis unfolding at if_not_P [OF False] unfolding w by simp
    next
      case True
      then show ?thesis
        using tok_scan_last_run [OF ds0 ds assms(2,3), of q pre r] unfolding at if_P [OF True] unfolding w
        by simp
    qed
  qed
qed

section \<open>All tokens\<close>

text \<open>The token a call returns ends where the call put a terminator, or runs on into \<open>g\<close>.\<close>

definition token_of :: "u8 list \<Rightarrow> u8 list \<Rightarrow> u8 list \<Rightarrow> u8 list" where
  "token_of D w g = takeWhile (\<lambda>c. c \<notin> set D) w
     @ (if dropWhile (\<lambda>c. c \<notin> set D) w = [] then takeWhile (\<lambda>c. c \<notin> set D) g else [])"

lemma token_of_nil [simp]: "token_of D w [] = takeWhile (\<lambda>c. c \<notin> set D) w"
  by (simp add: token_of_def)

lemma token_of_next: "dropWhile (\<lambda>c. c \<in> set D) (dropWhile (\<lambda>c. c \<notin> set D) w) \<noteq> [] \<Longrightarrow>
    token_of D w g = takeWhile (\<lambda>c. c \<notin> set D) w"
  by (auto simp: token_of_def simp del: dropWhile_eq_Nil_conv)

lemma blanked_token:
  "\<exists>x. blanked D g @ 0 # r = takeWhile (\<lambda>c. c \<notin> set D) g @ 0 # x"
  by (induction g) auto

lemma after_token_reads:
  assumes w: "0 \<notin> set w" and g: "0 \<notin> set g"
  shows "strlen (drop (length pre) (tok_str (after_tok D pre w g r))) = Some (length (token_of D w g))"
    and "take (length (token_of D w g)) (drop (length pre) (tok_str (after_tok D pre w g r))) = token_of D w g"
proof -
  let ?u = "takeWhile (\<lambda>c. c \<notin> set D) w" and ?v = "dropWhile (\<lambda>c. c \<notin> set D) w"
  have u: "0 \<notin> set (token_of D w g)" using w g by (auto simp: token_of_def dest: set_takeWhileD)
  have "\<exists>x. drop (length pre) (tok_str (after_tok D pre w g r)) = token_of D w g @ 0 # x"
  proof (cases ?v)
    case Nil
    show ?thesis using blanked_token [of D g r] unfolding after_tok_def token_of_def Let_def Nil by auto
  next
    case (Cons d v)
    then have "d \<in> set D" using hd_dropWhile [of "\<lambda>c. c \<notin> set D" w] by simp
    then show ?thesis using Cons by (simp add: after_tok_def token_of_def Let_def)
  qed
  then obtain x where x: "drop (length pre) (tok_str (after_tok D pre w g r)) = cstr (token_of D w g) x"
    by (auto simp: cstr_def)
  show "strlen (drop (length pre) (tok_str (after_tok D pre w g r))) = Some (length (token_of D w g))"
    unfolding x by (rule strlen_cstr [OF u])
  show "take (length (token_of D w g)) (drop (length pre) (tok_str (after_tok D pre w g r))) = token_of D w g"
    unfolding x by (simp add: cstr_def)
qed

definition next_token :: "u8 list \<Rightarrow> u8 list \<Rightarrow> u8 list" where
  "next_token D w = dropWhile (\<lambda>c. c \<in> set D) (dropWhile (\<lambda>c. c \<notin> set D) w)"

definition consumed :: "u8 list \<Rightarrow> u8 list \<Rightarrow> u8 list" where
  "consumed D w = takeWhile (\<lambda>c. c \<notin> set D) w
     @ replicate (length (takeWhile (\<lambda>c. c \<in> set D) (dropWhile (\<lambda>c. c \<notin> set D) w))) 0"

lemma next_token_no_zero: "0 \<notin> set w \<Longrightarrow> 0 \<notin> set (next_token D w)"
  by (auto simp: next_token_def dest: set_dropWhileD)

lemma words_next: "words D w = takeWhile (\<lambda>c. c \<notin> set D) w #
    (if next_token D w = [] then [] else words D (next_token D w))"
  by (subst words.simps) (simp only: Let_def next_token_def)

lemma length_parts:
  "length w = length (takeWhile (\<lambda>c. c \<notin> set D) w)
     + length (takeWhile (\<lambda>c. c \<in> set D) (dropWhile (\<lambda>c. c \<notin> set D) w)) + length (next_token D w)"
proof -
  define v where "v = dropWhile (\<lambda>c. c \<notin> set D) w"
  have "length w = length (takeWhile (\<lambda>c. c \<notin> set D) w) + length v"
    unfolding v_def by (simp flip: length_append)
  moreover have "length v = length (takeWhile (\<lambda>c. c \<in> set D) v) + length (dropWhile (\<lambda>c. c \<in> set D) v)"
    by (simp flip: length_append)
  ultimately show ?thesis unfolding next_token_def v_def by simp
qed

lemma length_consumed: "length (consumed D w) + length (next_token D w) = length w"
  using length_parts [of w D] by (simp add: consumed_def)

lemma after_tok_last:
  assumes "next_token D w = []"
  shows "after_tok D pre w g r = \<lparr>tok_str = (pre @ consumed D w) @ blanked D g @ 0 # r,
    tok_nxt = int (length (pre @ consumed D w) + length g), tok_size = - int (length g)\<rparr>"
proof -
  have "length (consumed D w) = length w" using length_consumed [of D w] assms by simp
  then show ?thesis
    unfolding after_tok_def Let_def next_token_def [symmetric] if_P [OF assms]
    by (simp only: consumed_def append_assoc length_append add.assoc)
qed

lemma after_tok_next:
  assumes "next_token D w \<noteq> []"
  shows "after_tok D pre w g r = \<lparr>tok_str = (pre @ consumed D w) @ next_token D w @ g @ 0 # r,
    tok_nxt = int (length (pre @ consumed D w)) - 1, tok_size = int (length (next_token D w)) + 1\<rparr>"
  unfolding after_tok_def Let_def next_token_def [symmetric] if_not_P [OF assms]
  by (simp only: consumed_def append_assoc length_append length_replicate add.assoc)

text \<open>Once the count is used up, the next call returns the null pointer.\<close>

lemma strtok_used_up:
  assumes "0 \<notin> set x" and "0 \<notin> set D" and "N \<le> 0"
  shows "strtok \<lparr>tok_str = a @ x @ 0 # r, tok_nxt = int (length a), tok_size = N\<rparr> None (cstr D q) =
    Some (\<lparr>tok_str = a @ blanked D x @ 0 # r, tok_nxt = int (length a + length x), tok_size = N - int (length x)\<rparr>, None)"
  using tok_scan_used_up [OF assms(1,2), of N q a r] assms(3) by (simp add: strtok_def)

lemma strtok_last:
  assumes "next_token D w = []" and "0 \<notin> set D"
  shows "strtok (after_token D pre w r) None (cstr D q) = Some (after_token D pre w r, None)"
  using strtok_used_up [of "[]" D 0 "pre @ consumed D w" r q] assms by (simp add: after_tok_last)

lemma strtok_next:
  assumes "0 \<notin> set w" and "0 \<notin> set g" and "0 \<notin> set D" and ne: "next_token D w \<noteq> []"
  shows "strtok (after_tok D pre w g r) None (cstr D q) =
    Some (after_tok D (pre @ consumed D w) (next_token D w) g r, Some (length (pre @ consumed D w)))"
  using tok_scan_token [OF next_token_no_zero [OF assms(1)] assms(2,3), of q "pre @ consumed D w" D r]
  by (simp add: strtok_def after_tok_next [OF ne])

lemma next_shorter: "next_token D w \<noteq> [] \<Longrightarrow> length (next_token D w) < length w"
  unfolding next_token_def by (rule rest_shorter)

lemma split_rest_words:
  assumes "0 \<notin> set w" and "0 \<notin> set D"
  shows "split_rest (after_token D pre w r) (cstr D q) =
    Some (if next_token D w = [] then [] else words D (next_token D w))"
  using assms
proof (induction "length w" arbitrary: w pre rule: less_induct)
  case less
  let ?w = "next_token D w"
  show ?case
  proof (cases "?w = []")
    case True
    then show ?thesis
      using strtok_last [OF True less.prems(2)] by (subst split_rest.simps) simp
  next
    case False
    have w: "0 \<notin> set ?w" by (rule next_token_no_zero [OF less.prems(1)])
    from less.hyps [OF next_shorter [OF False] w less.prems(2)]
    have ih: "split_rest (after_token D pre' ?w r) (cstr D q) =
      Some (if next_token D ?w = [] then [] else words D (next_token D ?w))" for pre' .
    show ?thesis
      using False strtok_next [OF less.prems(1) _ less.prems(2) False, of "[]" pre r q]
        after_token_reads [OF w, where D = D and g = "[]" and r = r and pre = "pre @ consumed D w"]
      by (subst split_rest.simps, subst words_next) (simp add: ih)
  qed
qed

lemma split_words:
  assumes "0 \<notin> set s" and "0 \<notin> set D"
  shows "split t (cstr s r) (cstr D q) = Some (words D s)"
proof -
  have "strtok t (Some (cstr s r)) (cstr D q) = Some (after_token D [] s r, Some 0)"
    using tok_scan_token [of s "[]" D q "[]" r] assms by (simp add: strtok_def) (simp add: cstr_def)
  then show ?thesis
    using after_token_reads [OF assms(1), where pre = "[]" and D = D and g = "[]" and r = r] split_rest_words [OF assms, of "[]" r q]
    by (subst words_next) (simp add: split_def)
qed

text \<open>
  Property C33: Splitting a string returns, for any contents of the static variables, and the tokens are the words
  of the string; the empty string, and a string that starts with a delimiter, start with an empty token.
\<close>

theorem split_correct:
  assumes "0 \<notin> set s" and "0 \<notin> set D"
  shows "split t (cstr s r) (cstr D q) = Some (words D s)"
  using assms by (rule split_words)

theorem split_correct_witness:
  "split \<lparr>tok_str = [], tok_nxt = 0, tok_size = 0\<rparr> (cstr [0x6C, 0x73, 0x20, 0x20, 0x2F] []) (cstr [0x20] [])
    = Some [[0x6C, 0x73], [0x2F]]"
proof -
  have "words [0x20] [0x6C, 0x73, 0x20, 0x20, 0x2F] = [[0x6C, 0x73], [0x2F]]"
    by (subst words.simps, simp, subst words.simps, simp)
  then show ?thesis
    using split_correct [of "[0x6C, 0x73, 0x20, 0x20, 0x2F]" "[0x20]"] by simp
qed

section \<open>Splitting a string that lies last on the heap\<close>

text \<open>
  The command line and the path are split in a \<open>std::string\<close>, whose buffer has no terminator and is the last block
  of the heap. The first \<open>push_back(std::string(i))\<close> allocates right behind it: a copy of the token when it has
  \<open>l > 0\<close> characters, and the array of the vector, one string of 8 bytes behind a count of 4, when it has none,
  because an allocation of no bytes returns a null pointer. So from the second call of \<open>strtok\<close> on, the bytes
  behind the string are the first word of a block's header, the size with the header, shifted, and the bit
  \<open>in_use\<close>. Every later allocation lies further behind: \<open>r k\<close> is what follows these four bytes after \<open>k\<close>
  tokens, and \<open>r 0\<close> what lies behind the string at first.
\<close>

(* src/include/kernel/memory/heap.hpp:11-22 BlockHeader::BlockHeader *)
definition header_bytes :: "nat \<Rightarrow> cbuf" where
  "header_bytes l = (let w = 1 OR push_bit 1 (of_nat ((if l = 0 then 12 else l) + 12)) :: u32
     in [ucast w, ucast (drop_bit 8 w), ucast (drop_bit 16 w), ucast (drop_bit 24 w)])"

(* src/include/std/vector.hpp:65-87 vector::push_back *)
definition push_behind :: "(nat \<Rightarrow> cbuf) \<Rightarrow> nat \<Rightarrow> nat \<Rightarrow> nat \<Rightarrow> cbuf \<Rightarrow> cbuf" where
  "push_behind r n l k buf =
     take n buf @ (if k = 0 then header_bytes l else take 4 (drop n buf)) @ r (Suc k)"

text \<open>The calls with the null pointer, after \<open>Suc k\<close> tokens; \<open>n\<close> is the length of the string.\<close>

(* src/kernel/tty.cpp:215-217 parse *)
partial_function (option) pushed_rest :: "(nat \<Rightarrow> cbuf) \<Rightarrow> nat \<Rightarrow> nat \<Rightarrow> tok \<Rightarrow> cbuf \<Rightarrow> u8 list list option" where
  "pushed_rest r n k t delim = do {
     (t, s) \<leftarrow> strtok t None delim;
     case s of
       None \<Rightarrow> Some []
     | Some p \<Rightarrow> do {
         m \<leftarrow> strlen (drop p (tok_str t));
         let w = take m (drop p (tok_str t));
         ts \<leftarrow> pushed_rest r n (Suc k) (t\<lparr>tok_str := push_behind r n m (Suc k) (tok_str t)\<rparr>) delim;
         Some (w # ts)
       }
   }"

text \<open>
  The buffer of the empty string is a null pointer: \<open>strtok\<close> goes on in the string it had before, which lies
  elsewhere on the heap.
\<close>

(* src/kernel/tty.cpp:215-217 parse *)
definition split_pushed :: "(nat \<Rightarrow> cbuf) \<Rightarrow> tok \<Rightarrow> u8 list \<Rightarrow> cbuf \<Rightarrow> u8 list list option" where
  "split_pushed r t str delim =
     (if str = [] then split_rest t delim
      else do {
        (t, s) \<leftarrow> strtok t (Some (str @ r 0)) delim;
        case s of
          None \<Rightarrow> Some []
        | Some p \<Rightarrow> do {
            m \<leftarrow> strlen (drop p (tok_str t));
            let w = take m (drop p (tok_str t));
            ts \<leftarrow> pushed_rest r (length str) 0 (t\<lparr>tok_str := push_behind r (length str) m 0 (tok_str t)\<rparr>) delim;
            Some (w # ts)
          }
      })"

text \<open>
  The words that come out: when there are several and the string does not end with a delimiter, the last one
  goes on with the bytes of the header, up to its first zero or delimiter.
\<close>

definition header_tail :: "u8 list \<Rightarrow> nat \<Rightarrow> u8 list" where
  "header_tail D l = takeWhile (\<lambda>c. c \<notin> set D) (takeWhile (\<lambda>c. c \<noteq> 0) (header_bytes l))"

definition words_behind :: "u8 list \<Rightarrow> u8 list \<Rightarrow> u8 list \<Rightarrow> u8 list list" where
  "words_behind D g s =
     (if s \<noteq> [] \<and> List.last s \<in> set D then words D s else butlast (words D s) @ [List.last (words D s) @ g])"

definition pushed_words :: "u8 list \<Rightarrow> u8 list \<Rightarrow> u8 list list" where
  "pushed_words D s =
     (if length (words D s) \<le> 1 then words D s else words_behind D (header_tail D (length (hd (words D s)))) s)"

lemma header_word_unat:
  assumes "n < 2 ^ 31"
  shows "unat (1 OR push_bit 1 (of_nat n) :: u32) = 2 * n + 1"
proof -
  have "(1 OR push_bit 1 (of_nat n) :: u32) = push_bit 1 (of_nat n) + 1"
    by (simp add: one_or_eq even_push_bit_iff)
  also have "\<dots> = of_nat (2 * n + 1)" by (simp add: push_bit_eq_mult)
  finally show ?thesis using assms by (simp only: unat_of_nat) simp
qed

text \<open>The header's first word ends with a zero byte, for strings of less than 8 MB.\<close>

lemma header_bytes_ends:
  assumes "l < 2 ^ 22"
  obtains z where "header_bytes l = takeWhile (\<lambda>c. c \<noteq> 0) (header_bytes l) @ 0 # z"
proof -
  define n where "n = (if l = 0 then 12 else l) + 12"
  define w :: u32 where "w = 1 OR push_bit 1 (of_nat n)"
  have n: "n < 2 ^ 31" "2 * n + 1 < 2 ^ 24" using assms by (auto simp: n_def)
  have "unat (drop_bit 24 w) = drop_bit 24 (2 * n + 1)"
    unfolding unat_drop_bit_eq w_def header_word_unat [OF n(1)] ..
  also have "\<dots> = (2 * n + 1) div 2 ^ 24" by (rule drop_bit_eq_div)
  also have "\<dots> = 0" using n(2) by (rule div_less)
  finally have w: "drop_bit 24 w = 0" by (simp only: unat_eq_0)
  have "header_bytes l = [ucast w, ucast (drop_bit 8 w), ucast (drop_bit 16 w), 0]"
    unfolding header_bytes_def Let_def n_def [symmetric] w_def [symmetric] w by simp
  then have "\<exists>x \<in> set (header_bytes l). \<not> x \<noteq> 0" by simp
  then have "dropWhile (\<lambda>c. c \<noteq> 0) (header_bytes l) \<noteq> []" by simp
  then obtain c z where "dropWhile (\<lambda>c. c \<noteq> 0) (header_bytes l) = c # z" "c = 0"
    using hd_dropWhile [of "\<lambda>c. c \<noteq> 0" "header_bytes l"] by (metis list.collapse list.sel(1))
  then show ?thesis
    using takeWhile_dropWhile_id [of "\<lambda>c. c \<noteq> 0" "header_bytes l"] by (intro that [of z]) simp
qed

lemma last_of_next:
  assumes "next_token D w \<noteq> []"
  shows "w \<noteq> []" and "List.last w = List.last (next_token D w)"
proof -
  obtain a where "w = a @ next_token D w"
    unfolding next_token_def by (metis append_assoc takeWhile_dropWhile_id)
  then show "w \<noteq> []" "List.last w = List.last (next_token D w)" using assms by (auto, metis last_appendR)
qed

lemma words_behind_next:
  assumes "next_token D w \<noteq> []"
  shows "words_behind D g w = takeWhile (\<lambda>c. c \<notin> set D) w # words_behind D g (next_token D w)"
proof -
  have "words D (next_token D w) \<noteq> []" by (subst words_next) simp
  then show ?thesis using assms last_of_next [OF assms]
    unfolding words_behind_def by (subst (1 2 3) words_next) simp
qed

lemma words_behind_last:
  assumes "next_token D w = []"
  shows "words_behind D (takeWhile (\<lambda>c. c \<notin> set D) g) w = [token_of D w g]"
proof -
  define u v where "u = takeWhile (\<lambda>c. c \<notin> set D) w" and "v = dropWhile (\<lambda>c. c \<notin> set D) w"
  have w: "w = u @ v" by (simp add: u_def v_def)
  have u: "c \<in> set u \<Longrightarrow> c \<notin> set D" for c unfolding u_def by (auto dest: set_takeWhileD)
  have "\<forall>c \<in> set v. c \<in> set D" using assms unfolding next_token_def v_def [symmetric] by simp
  then have "w \<noteq> [] \<and> List.last w \<in> set D \<longleftrightarrow> v \<noteq> []"
    using u [OF last_in_set] w last_in_set [of v] by (cases "v = []"; cases "u = []") auto
  moreover have "words D w = [u]" using assms by (subst words_next) (simp add: u_def)
  ultimately show ?thesis
    unfolding words_behind_def token_of_def u_def [symmetric] v_def [symmetric] by simp
qed

lemma push_behind_first:
  "length a = n \<Longrightarrow> push_behind r n l 0 (a @ b) = a @ header_bytes l @ r 1"
  by (simp add: push_behind_def)

lemma push_behind_later:
  "length a = n \<Longrightarrow> length b = 4 \<Longrightarrow> push_behind r n l (Suc k) (a @ b @ c) = a @ b @ r (Suc (Suc k))"
  by (simp add: push_behind_def)

lemma length_header_bytes [simp]: "length (header_bytes l) = 4"
  by (simp add: header_bytes_def Let_def)


lemma pushed_rest_words:
  assumes w: "0 \<notin> set w" and D: "0 \<notin> set D" and g: "0 \<notin> set g" and n: "length pre + length w = n"
    and h: "length (g @ 0 # z) = 4"
  shows "pushed_rest r n k (after_tok D pre w g (z @ x)) (cstr D q) =
    Some (if next_token D w = [] then [] else words_behind D (takeWhile (\<lambda>c. c \<notin> set D) g) (next_token D w))"
  using w n
proof (induction "length w" arbitrary: w pre x k rule: less_induct)
  case less
  let ?w = "next_token D w" and ?pre = "pre @ consumed D w" and ?g = "takeWhile (\<lambda>c. c \<notin> set D) g"
  show ?case
  proof (cases "?w = []")
    case True
    have "strtok (after_tok D pre w g (z @ x)) None (cstr D q) = Some (after_tok D pre w g (z @ x), None)"
      using strtok_used_up [of "[]" D "- int (length g)" "(pre @ consumed D w) @ blanked D g" "z @ x" q] D
      by (simp add: after_tok_last [OF True] add.assoc)
    then show ?thesis using True by (subst pushed_rest.simps) simp
  next
    case False
    have w: "0 \<notin> set ?w" by (rule next_token_no_zero [OF less.prems(1)])
    have len: "length ?pre + length ?w = n" using less.prems(2) length_consumed [of D w] by simp
    let ?t = "after_tok D ?pre ?w g (z @ x)" and ?m = "length (token_of D ?w g)"
    note st = strtok_next [OF less.prems(1) g D False, of pre "z @ x" q]
    note rd = after_token_reads [OF w g, where D = D and r = "z @ x" and pre = ?pre]
    show ?thesis
    proof (cases "next_token D ?w = []")
      case True
      let ?a = "?pre @ consumed D ?w"
      have a: "length ?a = n" using len length_consumed [of D ?w] True by simp
      have "push_behind r n ?m (Suc k) (tok_str ?t) = ?a @ (blanked D g @ 0 # z) @ r (Suc (Suc k))"
        using push_behind_later [OF a, of "blanked D g @ 0 # z"] h by (simp add: after_tok_last [OF True])
      then have u: "?t\<lparr>tok_str := push_behind r n ?m (Suc k) (tok_str ?t)\<rparr> =
          \<lparr>tok_str = (?a @ blanked D g) @ 0 # z @ r (Suc (Suc k)),
            tok_nxt = int (length (?a @ blanked D g)), tok_size = - int (length g)\<rparr>"
        by (simp add: after_tok_last [OF True])
      have "pushed_rest r n (Suc k) (?t\<lparr>tok_str := push_behind r n ?m (Suc k) (tok_str ?t)\<rparr>) (cstr D q) = Some []"
        unfolding u using strtok_used_up [of "[]" D "- int (length g)" "?a @ blanked D g" "z @ r (Suc (Suc k))" q] D
        by (subst pushed_rest.simps) simp
      then show ?thesis
        using False st rd words_behind_last [OF True, of g] by (subst pushed_rest.simps) simp
    next
      case ne: False
      let ?a = "?pre @ consumed D ?w @ next_token D ?w"
      have a: "length ?a = n" using len length_consumed [of D ?w] by simp
      have tk: "token_of D ?w g = takeWhile (\<lambda>c. c \<notin> set D) ?w"
        by (rule token_of_next [OF ne [unfolded next_token_def [of D ?w]]])
      have u: "?t\<lparr>tok_str := push_behind r n ?m (Suc k) (tok_str ?t)\<rparr> = after_tok D ?pre ?w g (z @ r (Suc (Suc k)))"
        using push_behind_later [OF a, of "g @ 0 # z"] h by (simp add: after_tok_next [OF ne])
      show ?thesis
        using False st rd words_behind_next [OF ne, of ?g] ne less.hyps [OF next_shorter [OF False] w len, of "Suc k"]
          tk
        by (subst pushed_rest.simps) (simp add: u [unfolded tk])
    qed
  qed
qed

lemma split_pushed_words:
  assumes s: "s \<noteq> []" "0 \<notin> set s" "length s < 2 ^ 22" and D: "0 \<notin> set D" and r: "r 0 = 0 # behind"
  shows "split_pushed r t s (cstr D q) = Some (pushed_words D s)"
proof -
  let ?n = "length s" and ?u = "takeWhile (\<lambda>c. c \<notin> set D) s"
  let ?t = "after_token D [] s behind"
  have st: "strtok t (Some (s @ r 0)) (cstr D q) = Some (?t, Some 0)"
    using tok_scan_token [of s "[]" D q "[]" behind] s(2) D strlen_cstr [OF s(2), of behind]
    by (simp add: strtok_def r cstr_def)
  note rd = after_token_reads [OF s(2), where g = "[]" and D = D and pre = "[]" and r = behind, simplified]
  have "length ?u \<le> length s" by (rule length_takeWhile_le)
  then have l: "length ?u < 2 ^ 22" using s(3) by simp
  define g where "g = takeWhile (\<lambda>c. c \<noteq> 0) (header_bytes (length ?u))"
  obtain z where z: "header_bytes (length ?u) = g @ 0 # z"
    using header_bytes_ends [OF l] unfolding g_def by blast
  have g: "0 \<notin> set g" unfolding g_def by (auto dest: set_takeWhileD)
  have z4: "length (g @ 0 # z) = 4" using z length_header_bytes [of "length ?u"] by simp
  let ?t' = "?t\<lparr>tok_str := push_behind r ?n (length ?u) 0 (tok_str ?t)\<rparr>"
  show ?thesis
  proof (cases "next_token D s = []")
    case True
    have a: "length (consumed D s) = ?n" using length_consumed [of D s] True by simp
    have u: "?t' = \<lparr>tok_str = consumed D s @ g @ 0 # z @ r 1, tok_nxt = int (length (consumed D s)), tok_size = 0\<rparr>"
      using push_behind_first [OF a, of r "length ?u" "0 # behind"] z by (simp add: after_tok_last [OF True])
    have "pushed_rest r ?n 0 ?t' (cstr D q) = Some []"
      unfolding u using strtok_used_up [OF g D, of 0 "consumed D s" "z @ r 1" q]
      by (subst pushed_rest.simps) simp
    then show ?thesis
      using st rd s(1) True by (simp add: split_pushed_def pushed_words_def words_next)
  next
    case False
    let ?a = "consumed D s @ next_token D s"
    have a: "length ?a = ?n" using length_consumed [of D s] by simp
    have u: "?t' = after_tok D [] s g (z @ r 1)"
      using push_behind_first [OF a, of r "length ?u" "0 # behind"] z by (simp add: after_tok_next [OF False])
    have "pushed_rest r ?n 0 ?t' (cstr D q) = Some (words_behind D (takeWhile (\<lambda>c. c \<notin> set D) g) (next_token D s))"
      unfolding u using pushed_rest_words [OF s(2) D g _ z4, of "[]" ?n r 0 "r 1" q] False by simp
    moreover have "\<not> length (words D s) \<le> 1"
      using False by (subst words_next, simp, subst words_next, simp)
    moreover have "hd (words D s) = ?u" by (subst words_next) simp
    ultimately show ?thesis
      using st rd s(1) words_behind_next [OF False, of "takeWhile (\<lambda>c. c \<notin> set D) g"]
      by (simp add: split_pushed_def pushed_words_def header_tail_def g_def)
  qed
qed


lemma words_no_zero: "0 \<notin> set w \<Longrightarrow> x \<in> set (words D w) \<Longrightarrow> 0 \<notin> set x"
proof (induction "length w" arbitrary: w rule: less_induct)
  case less
  show ?case
  proof (cases "x = takeWhile (\<lambda>c. c \<notin> set D) w")
    case True
    then show ?thesis using less.prems(1) by (auto dest: set_takeWhileD)
  next
    case False
    then have n: "next_token D w \<noteq> []" "x \<in> set (words D (next_token D w))"
      using less.prems(2) by (subst (asm) words_next, simp split: if_splits)+
    show ?thesis
      by (rule less.hyps [OF next_shorter [OF n(1)] next_token_no_zero [OF less.prems(1)] n(2)])
  qed
qed

lemma words_not_nil [simp]: "words D s \<noteq> []"
  by (subst words.simps) simp

lemma header_tail_no_zero: "0 \<notin> set (header_tail D l)"
  by (auto simp: header_tail_def dest: set_takeWhileD)

lemma pushed_words_no_zero:
  assumes "0 \<notin> set s" and "x \<in> set (pushed_words D s)"
  shows "0 \<notin> set x"
proof (cases "x \<in> set (words D s)")
  case True
  then show ?thesis by (rule words_no_zero [OF assms(1)])
next
  case False
  have "set (butlast (words D s)) \<subseteq> set (words D s)" by (auto dest: in_set_butlastD)
  with False assms(2) have "x = List.last (words D s) @ header_tail D (length (hd (words D s)))"
    by (auto simp: pushed_words_def words_behind_def split: if_splits)
  then show ?thesis
    using words_no_zero [OF assms(1) last_in_set [OF words_not_nil]] header_tail_no_zero by auto
qed

lemma pushed_words_hd: "\<exists>ws. pushed_words D s = hd (words D s) # ws"
  by (cases "words D s"; cases "tl (words D s)") (auto simp: pushed_words_def words_behind_def neq_Nil_conv)

text \<open>A single word, and the words of a string that ends with a delimiter, come out as they are.\<close>

lemma pushed_words_exact:
  "length (words D s) \<le> 1 \<or> s \<noteq> [] \<and> List.last s \<in> set D \<Longrightarrow> pushed_words D s = words D s"
  by (auto simp: pushed_words_def words_behind_def)

text \<open>Before the loop the scan stands at a terminator with its count used up.\<close>

definition tok_idle :: "tok \<Rightarrow> bool" where
  "tok_idle t \<longleftrightarrow> tok_size t \<le> 0 \<and> nat (tok_nxt t) < length (tok_str t) \<and> tok_str t ! nat (tok_nxt t) = 0"

lemma split_pushed_empty: "tok_idle t \<Longrightarrow> split_pushed r t [] delim = Some []"
  using tok_scan_stop [of t delim]
  by (simp add: split_pushed_def tok_idle_def) (subst split_rest.simps, simp add: strtok_def)

end
