(* ===== verification/FAT16.thy ===== *)
theory FAT16
  imports ATA Std_Lib Std_String Tokens
begin

text \<open>
  The file system of \<open>kernel/fs/fat16.cpp\<close>, \<open>include/kernel/fs.hpp\<close> and \<open>kernel/fs.cpp\<close> on the
  disk driver: the header of the volume, the chains of the allocation table, directory sectors, the
  lookup of paths and files, and the two commands that use it (\<open>kernel/bin/ls.cpp\<close>,
  \<open>kernel/bin/cat.cpp\<close>). The bytes that lie behind a string's buffer on the heap are the argument
  \<open>after\<close> of the operations that read them.
\<close>

section \<open>Reading numbers\<close>

(* src/include/kernel/converter.hpp:10-13 To_16bit *)
definition To_16bit :: "u8 list \<Rightarrow> nat \<Rightarrow> u16 option" where
  "To_16bit b i = do {
     x \<leftarrow> arr_get b i;
     y \<leftarrow> arr_get b (i + 1);
     Some (ucast x OR push_bit 8 (ucast y))
   }"

(* src/include/kernel/converter.hpp:15-20 To_32bit *)
definition To_32bit :: "u8 list \<Rightarrow> nat \<Rightarrow> u32 option" where
  "To_32bit b i = do {
     x \<leftarrow> arr_get b i;
     y \<leftarrow> arr_get b (i + 1);
     z \<leftarrow> arr_get b (i + 2);
     w \<leftarrow> arr_get b (i + 3);
     Some (ucast x OR push_bit 8 (ucast y) OR push_bit 16 (ucast z) OR push_bit 24 (ucast w))
   }"

section \<open>The volume\<close>

(* src/include/kernel/fs/fat16.hpp:24-35 FATHeader *)
record fat_header =
  sectorSize :: u16
  secPerCluster :: int
  numReservedSectors :: int
  numFATs :: int
  numSectorsPerFAT :: u16
  numDirectories :: u16
  numSectors :: u32

text \<open>\<open>fat_table\<close> is the table inside the member \<open>fat\<close>.\<close>

(* src/include/kernel/fs/fat16.hpp:37-46 FAT16 *)
record fat16 =
  drv_num :: nat
  device :: drive
  header_bytes :: "u8 list"
  header_info :: fat_header
  fat_table :: "u8 list"
  volume_serial :: u32

text \<open>The number of tables is taken from offset 13, where the sectors per cluster are.\<close>

(* src/kernel/fs/fat16.cpp:24-52 FAT16::open *)
definition fat_open :: "fat16 \<Rightarrow> (fat16 \<times> bool) option" where
  "fat_open f = do {
     (hb, d) \<leftarrow> read_block (drv_num f) (device f) 0;
     let f = f\<lparr>device := d, header_bytes := hb\<rparr>;
     b0 \<leftarrow> arr_get hb 0;
     b1 \<leftarrow> arr_get hb 1;
     b2 \<leftarrow> arr_get hb 2;
     if b0 \<noteq> 0xEB \<or> b1 \<noteq> 0x3C \<or> b2 \<noteq> 0x90 then Some (f, False)
     else do {
       ss \<leftarrow> To_16bit hb 11;
       spc \<leftarrow> arr_get hb 13;
       rs \<leftarrow> To_16bit hb 14;
       nd \<leftarrow> To_16bit hb 17;
       ns \<leftarrow> To_16bit hb 19;
       spf \<leftarrow> To_16bit hb 21;
       vs \<leftarrow> To_32bit hb 39;
       Some (f\<lparr>header_info := \<lparr>sectorSize = ss, secPerCluster = uint spc, numReservedSectors = sint rs,
                  numFATs = uint spc, numSectorsPerFAT = spf, numDirectories = nd, numSectors = scast ns\<rparr>,
               volume_serial := vs\<rparr>, True)
     }
   }"

(* src/kernel/fs/fat16.cpp:54-61 FAT16::getFAT *)
definition getFAT :: "fat16 \<Rightarrow> fat16 option" where
  "getFAT f = do {
     (tab, d) \<leftarrow> read_block (drv_num f) (device f) (of_int (numReservedSectors (header_info f)));
     Some (f\<lparr>device := d, fat_table := tab\<rparr>)
   }"

(* src/include/kernel/fs/fat16.hpp:48-59 FAT16 *)
definition new_fat16 :: "nat \<Rightarrow> fat16 \<Rightarrow> fat16 option" where
  "new_fat16 drv raw = do {
     d \<leftarrow> ata_initialise drv (device raw);
     (f, ok) \<leftarrow> fat_open (raw\<lparr>drv_num := drv, device := d\<rparr>);
     if ok then getFAT f else Some f
   }"

section \<open>Chains of clusters\<close>

text \<open>The loop ends at the first entry from \<open>0xF8\<close> on; an entry is the byte at twice the cluster.\<close>

(* src/kernel/fs/fat16.cpp:9-20 FileAllocationTable::walk *)
partial_function (option) walk :: "u8 list \<Rightarrow> u16 \<Rightarrow> u16 list option" where
  "walk tab current =
     (if current < 0xF8 then do {
        nxt \<leftarrow> arr_get tab (unat current * 2);
        rest \<leftarrow> walk tab (ucast nxt);
        Some (current # rest)
      } else Some [])"

(* src/kernel/fs/fat16.cpp:167-168 FAT16::walkSectors *)
definition data_start :: "fat_header \<Rightarrow> u16 option" where
  "data_start h =
     (if sectorSize h = 0 then None
      else Some (of_nat (512 + unat (numDirectories h) * 32 div unat (sectorSize h))))"

(* src/kernel/fs/fat16.cpp:170-174 FAT16::walkSectors *)
definition cluster_sector :: "fat_header \<Rightarrow> u16 \<Rightarrow> u16 \<Rightarrow> int" where
  "cluster_sector h dataStart c = (uint c - 2) * secPerCluster h + uint dataStart"

(* src/kernel/fs/fat16.cpp:161-177 FAT16::walkSectors *)
definition walkSectors :: "fat16 \<Rightarrow> u16 \<Rightarrow> (int list \<times> fat16) option" where
  "walkSectors f startSector = do {
     f \<leftarrow> getFAT f;
     chain \<leftarrow> walk (fat_table f) startSector;
     dataStart \<leftarrow> data_start (header_info f);
     Some (map (cluster_sector (header_info f) dataStart) chain, f)
   }"

section \<open>Directories\<close>

(* src/include/kernel/fs.hpp:11-16 FATAttributes *)
definition attr_noEntry :: u8 where "attr_noEntry = 0x00"
definition attr_shortNameFile :: u8 where "attr_shortNameFile = 0x20"
definition attr_shortName :: u8 where "attr_shortName = 0x10"
definition attr_longName :: u8 where "attr_longName = 0x0F"

(* src/include/kernel/fs.hpp:27-41 DirectoryEntry *)
record dir_entry =
  e_name :: cbuf
  e_attributes :: u8
  e_location :: u16
  e_fsize :: u32

(* src/include/kernel/fs.hpp:43-49 DirectoryEntry *)
definition new_entry :: "u8 \<Rightarrow> dir_entry" where
  "new_entry attr = \<lparr>e_name = replicate 32 0, e_attributes = attr, e_location = 0, e_fsize = 0\<rparr>"

text \<open>\<open>n\<close> bytes of a short name are left, from \<open>at_byte\<close> on; \<open>len\<close> characters of the name are there.\<close>

(* src/kernel/fs/fat16.cpp:89-107 FAT16::readDirectory *)
fun short_name :: "u8 list \<Rightarrow> nat \<Rightarrow> nat \<Rightarrow> cbuf \<Rightarrow> nat \<Rightarrow> bool \<Rightarrow> (cbuf \<times> nat) option" where
  "short_name dir at_byte 0 name len addSeperator = Some (name, len)"
| "short_name dir at_byte (Suc n) name len addSeperator = do {
     dirChar \<leftarrow> arr_get dir at_byte;
     if dirChar \<noteq> 0x20 \<and> dirChar \<noteq> 0x10 then do {
       (name, len) \<leftarrow> (if addSeperator then map_option (\<lambda>b. (b, len + 1)) (arr_set name len 0x2E)
                       else Some (name, len));
       name \<leftarrow> arr_set name len (tolower dirChar);
       short_name dir (at_byte + 1) n name (len + 1) False
     } else short_name dir (at_byte + 1) n name len True
   }"

text \<open>The mask picks the bytes of a long name; bit \<open>31 - j\<close> goes with byte \<open>j\<close>.\<close>

(* src/kernel/fs/fat16.cpp:117-123 FAT16::readDirectory *)
fun long_name :: "bitset \<Rightarrow> u8 list \<Rightarrow> nat \<Rightarrow> nat \<Rightarrow> nat \<Rightarrow> cbuf \<Rightarrow> nat \<Rightarrow> (cbuf \<times> nat) option" where
  "long_name bitMask dir index j 0 name len = Some (name, len)"
| "long_name bitMask dir index j (Suc n) name len = do {
     picked \<leftarrow> bitset_test bitMask (31 - int j);
     keep \<leftarrow> (if picked then map_option (\<lambda>c. c \<noteq> 0xFF \<and> c \<noteq> 0x00) (arr_get dir (index + j)) else Some False);
     if keep then do {
       c \<leftarrow> arr_get dir (index + j);
       name \<leftarrow> arr_set name len c;
       long_name bitMask dir index (Suc j) n name (len + 1)
     } else long_name bitMask dir index (Suc j) n name len
   }"

(* src/kernel/fs/fat16.cpp:79-110 FAT16::readDirectory *)
definition short_entry :: "u8 list \<Rightarrow> nat \<Rightarrow> dir_entry \<Rightarrow> dir_entry option" where
  "short_entry dir index e = do {
     loc \<leftarrow> To_16bit dir (index + 26);
     fsize \<leftarrow> To_32bit dir (index + 28);
     (name, len) \<leftarrow> short_name dir index 12 (e_name e) 0 False;
     name \<leftarrow> arr_set name len 0;
     Some (e\<lparr>e_location := loc, e_fsize := fsize, e_name := name\<rparr>)
   }"

(* src/kernel/fs/fat16.cpp:111-133 FAT16::readDirectory *)
definition long_entry :: "u8 list \<Rightarrow> nat \<Rightarrow> dir_entry \<Rightarrow> dir_entry option" where
  "long_entry dir index e = do {
     bitMask \<leftarrow> bitset_of 32 0x5542AA8A;
     (name, len) \<leftarrow> long_name bitMask dir index 0 33 (e_name e) 0;
     name \<leftarrow> arr_set name len 0;
     attr \<leftarrow> arr_get dir (index + 32 + 11);
     loc \<leftarrow> To_16bit dir (index + 32 + 26);
     fsize \<leftarrow> To_32bit dir (index + 32 + 28);
     Some (e\<lparr>e_name := name, e_attributes := attr, e_location := loc, e_fsize := fsize\<rparr>)
   }"

text \<open>\<open>n\<close> slots of 32 bytes are left of the 16 in a sector; a long name takes two.\<close>

(* src/kernel/fs/fat16.cpp:73-142 FAT16::readDirectory *)
fun read_entries :: "u8 list \<Rightarrow> nat \<Rightarrow> dir_entry list option" where
  "read_entries dir 0 = Some []"
| "read_entries dir (Suc n) = do {
     let index = 512 - 32 * Suc n;
     attr \<leftarrow> arr_get dir (index + 11);
     let e = new_entry attr;
     if attr = attr_shortName \<or> attr = attr_shortNameFile then do {
       e \<leftarrow> short_entry dir index e;
       es \<leftarrow> read_entries dir n;
       Some (e # es)
     }
     else if attr = attr_longName then do {
       e \<leftarrow> long_entry dir index e;
       es \<leftarrow> read_entries dir (n - 1);
       Some (e # es)
     }
     else if attr = attr_noEntry then read_entries dir n
     else do {
       es \<leftarrow> read_entries dir n;
       Some (e # es)
     }
   }"

(* src/kernel/fs/fat16.cpp:63-145 FAT16::readDirectory *)
definition readDirectory :: "fat16 \<Rightarrow> u32 \<Rightarrow> (dir_entry list \<times> fat16) option" where
  "readDirectory f sectorIndex = do {
     (dir, d) \<leftarrow> read_block (drv_num f) (device f) sectorIndex;
     es \<leftarrow> read_entries dir 16;
     Some (es, f\<lparr>device := d\<rparr>)
   }"

section \<open>Paths and files\<close>

text \<open>The search for a name; reading a name that is not terminated leaves its array.\<close>

(* src/kernel/fs/fat16.cpp:199-201 FAT16::readDirectory *)
fun find_name :: "cbuf \<Rightarrow> dir_entry list \<Rightarrow> dir_entry option option" where
  "find_name folder [] = Some None"
| "find_name folder (e # es) = do {
     r \<leftarrow> strcmp (e_name e) folder;
     if r = 0 then Some (Some e) else find_name folder es
   }"

text \<open>The loop over the folders of a path; the flag is false when one is missing.\<close>

(* src/kernel/fs/fat16.cpp:195-213 FAT16::readDirectory *)
fun follow :: "fat16 \<Rightarrow> u32 \<Rightarrow> sstring list \<Rightarrow> (fat16 \<times> u32 \<times> bool) option" where
  "follow f current_sec [] = Some (f, current_sec, True)"
| "follow f current_sec (folder # folders) = do {
     (current_dir, f) \<leftarrow> readDirectory f current_sec;
     folder_c \<leftarrow> string_to_cstr folder;
     res \<leftarrow> find_name folder_c current_dir;
     case res of
       None \<Rightarrow> Some (f, current_sec, False)
     | Some e \<Rightarrow> do {
         (sectors, f) \<leftarrow> walkSectors f (e_location e);
         sec \<leftarrow> arr_get sectors 0;
         follow f (of_int sec) folders
       }
   }"

text \<open>
  The path is split after its leading slash is cut off; the characters are handed to \<open>strtok\<close> without
  a terminator, and the loop allocates behind them; \<open>r\<close> is what lies there, as for \<^const>\<open>split_pushed\<close>. A path of at most two characters names the root directory, whatever it says.
\<close>

(* src/kernel/fs/fat16.cpp:179-218 FAT16::readDirectory *)
definition readDirectory_path :: "tok \<Rightarrow> (nat \<Rightarrow> cbuf) \<Rightarrow> fat16 \<Rightarrow> cbuf \<Rightarrow> (dir_entry list \<times> fat16) option" where
  "readDirectory_path tk r f path = do {
     str \<leftarrow> string_of_cstr path;
     c \<leftarrow> arr_get str 0;
     str \<leftarrow> (if c = 0x2F then substr str 1 (string_size str - 1) else Some str);
     path_tokens \<leftarrow> split_pushed r tk str (cstr [0x2F] []);
     n \<leftarrow> strlen path;
     if n > 2 then do {
       (f, current_sec, found) \<leftarrow> follow f 512 path_tokens;
       if found then readDirectory f current_sec else Some ([], f)
     } else readDirectory f 512
   }"

(* src/kernel/fs/fat16.cpp:220-225 FAT16::read_u8 *)
definition fat_read_u8 :: "fat16 \<Rightarrow> u32 \<Rightarrow> u32 \<Rightarrow> (u8 list \<times> fat16) option" where
  "fat_read_u8 f numBytes offset =
     map_option (\<lambda>(b, d). (b, f\<lparr>device := d\<rparr>)) (read_block (drv_num f) (device f) (offset div 512))"

(* src/include/kernel/fs.hpp:62-74 FileEntry *)
record file_entry =
  fe_name :: cbuf
  fe_location :: u32
  fe_size :: u32

definition no_file :: file_entry where
  "no_file = \<lparr>fe_name = [], fe_location = - 1, fe_size = - 1\<rparr>"

(* src/kernel/fs/fat16.cpp:239-252 FAT16::readFile *)
fun find_file :: "cbuf \<Rightarrow> cbuf \<Rightarrow> dir_entry list \<Rightarrow> file_entry option" where
  "find_file after fc [] = Some no_file"
| "find_file after fc (e # es) = do {
     nm \<leftarrow> string_of_cstr (e_name e);
     same \<leftarrow> string_eq_cstr nm after fc;
     if same then do {
       n \<leftarrow> strlen (e_name e);
       Some \<lparr>fe_name = take n (e_name e), fe_location = scast (e_location e), fe_size = e_fsize e\<rparr>
     } else find_file after fc es
   }"

(* src/kernel/fs/fat16.cpp:228-252 FAT16::readFile *)
definition readFile :: "tok \<Rightarrow> (nat \<Rightarrow> cbuf) \<Rightarrow> cbuf \<Rightarrow> fat16 \<Rightarrow> cbuf \<Rightarrow> (file_entry \<times> fat16) option" where
  "readFile tk r after f path = do {
     p \<leftarrow> string_of_cstr path;
     slash \<leftarrow> map_option (\<lambda>i. i + 1) (find_last_of p [0x2F] npos);
     p' \<leftarrow> substr p 0 slash;
     fl \<leftarrow> substr p slash npos;
     pc \<leftarrow> string_to_cstr p';
     fc \<leftarrow> string_to_cstr fl;
     (entries, f) \<leftarrow> readDirectory_path tk r f pc;
     fe \<leftarrow> find_file after fc entries;
     Some (fe, f)
   }"

section \<open>The commands\<close>

text \<open>
  What \<open>ls\<close> prints, one line per entry: whether it is a directory, and the entry. The last character of
  the argument is dropped before the path is used.
\<close>

(* src/kernel/bin/ls.cpp:6-25 ls *)
definition ls :: "tok \<Rightarrow> (nat \<Rightarrow> cbuf) \<Rightarrow> fat16 \<Rightarrow> sstring list \<Rightarrow> ((bool \<times> dir_entry) list \<times> fat16) option" where
  "ls tk r f args = do {
     c_path \<leftarrow> arr_get args 1;
     trim_path \<leftarrow> substr c_path 0 (string_size c_path - 1);
     c \<leftarrow> arr_get trim_path (unat (string_size trim_path - 1));
     trim_path \<leftarrow> (if c \<noteq> 0x2F then string_append_char trim_path 0x2F else Some trim_path);
     pc \<leftarrow> string_to_cstr trim_path;
     (es, f) \<leftarrow> readDirectory_path tk r f pc;
     Some (map (\<lambda>e. (e_attributes e \<noteq> attr_shortNameFile, e)) es, f)
   }"

text \<open>The sectors of a file, whole, whatever its size.\<close>

(* src/kernel/bin/cat.cpp:28-37 cat *)
fun print_sectors :: "fat16 \<Rightarrow> int list \<Rightarrow> (u8 list \<times> fat16) option" where
  "print_sectors f [] = Some ([], f)"
| "print_sectors f (sec # secs) = do {
     (dat, f) \<leftarrow> fat_read_u8 f 27 (of_int (sec * 0x200));
     (rest, f) \<leftarrow> print_sectors f secs;
     Some (take 512 dat @ rest, f)
   }"

text \<open>The path \<open>/home/james/login.profile\<close>: the argument of the command is not used.\<close>

definition login_profile :: "u8 list" where
  "login_profile = [0x2F, 0x68, 0x6F, 0x6D, 0x65, 0x2F, 0x6A, 0x61, 0x6D, 0x65, 0x73, 0x2F,
     0x6C, 0x6F, 0x67, 0x69, 0x6E, 0x2E, 0x70, 0x72, 0x6F, 0x66, 0x69, 0x6C, 0x65]"

(* src/kernel/bin/cat.cpp:8-45 cat *)
definition cat :: "tok \<Rightarrow> (nat \<Rightarrow> cbuf) \<Rightarrow> cbuf \<Rightarrow> fat16 \<Rightarrow> sstring list \<Rightarrow> (u8 list \<times> fat16) option" where
  "cat tk r after f args =
     (if length args > 1 then do {
        (fl, f) \<leftarrow> readFile tk r after f (cstr login_profile []);
        if fe_location fl \<noteq> - 1 then do {
          (secs, f) \<leftarrow> walkSectors f (ucast (fe_location fl));
          print_sectors f secs
        } else Some ([], f)
      } else Some ([], f))"

(* src/kernel/fs.cpp:11-23 splitPath *)
definition splitPath :: "sstring \<Rightarrow> sstring option" where
  "splitPath path = do {
     i \<leftarrow> string_find path [0x3A] 0;
     if i \<noteq> npos then Some [0x30] else Some [0x30]
   }"

section \<open>Following a chain\<close>

definition fat_next :: "u8 list \<Rightarrow> u16 \<Rightarrow> u16" where
  "fat_next tab c = ucast (tab ! (unat c * 2))"

definition chain_ends :: "u8 list \<Rightarrow> u16 \<Rightarrow> nat \<Rightarrow> bool" where
  "chain_ends tab c n \<longleftrightarrow> (fat_next tab ^^ n) c \<ge> 0xF8 \<and> (\<forall>k < n. (fat_next tab ^^ k) c < 0xF8)"

lemma walk_step:
  assumes "length tab = 512" and "c < 0xF8"
  shows "walk tab c = map_option (Cons c) (walk tab (fat_next tab c))"
proof -
  have "unat c < 248" using assms(2) by (simp add: word_less_nat_alt)
  then have "arr_get tab (unat c * 2) = Some (tab ! (unat c * 2))" using assms(1) by simp
  then show ?thesis using assms(2) by (subst walk.simps)
      (cases "walk tab (ucast (tab ! (unat c * 2)))", simp_all add: fat_next_def)
qed

lemma walk_end: "\<not> c < 0xF8 \<Longrightarrow> walk tab c = Some []"
  by (subst walk.simps) simp

lemma walk_chain:
  assumes "length tab = 512" and "chain_ends tab c n"
  shows "walk tab c = Some (map (\<lambda>k. (fat_next tab ^^ k) c) [0..<n])"
  using assms(2)
proof (induction n arbitrary: c)
  case 0
  then show ?case by (subst walk_end) (simp_all add: chain_ends_def not_less)
next
  case (Suc n)
  have c: "c < 0xF8" using Suc.prems by (auto simp: chain_ends_def dest: spec [of _ 0])
  have "chain_ends tab (fat_next tab c) n"
    using Suc.prems by (auto simp: chain_ends_def funpow_Suc_right simp del: funpow.simps)
  from Suc.IH [OF this] show ?case
    by (simp add: walk_step [OF assms(1) c] upt_conv_Cons map_Suc_upt [symmetric] funpow_Suc_right comp_def
        del: funpow.simps upt_Suc)
qed

lemma walk_Some:
  assumes "length tab = 512" and "walk tab c = Some cs"
  shows "chain_ends tab c (length cs)"
  using assms(2)
proof (induction cs arbitrary: c)
  case Nil
  have "\<not> c < 0xF8"
  proof
    assume "c < 0xF8"
    from Nil walk_step [OF assms(1) this] show False by auto
  qed
  then show ?case by (simp add: chain_ends_def not_less)
next
  case (Cons x cs)
  have c: "c < 0xF8"
  proof (rule ccontr)
    assume "\<not> c < 0xF8"
    from Cons.prems walk_end [OF this] show False by simp
  qed
  then have "walk tab (fat_next tab c) = Some cs" using Cons.prems walk_step [OF assms(1) c] by auto
  from Cons.IH [OF this] have e: "chain_ends tab (fat_next tab c) (length cs)" .
  have "(fat_next tab ^^ k) c < 0xF8" if "k < Suc (length cs)" for k
    using that c e by (cases k) (auto simp: chain_ends_def funpow_Suc_right simp del: funpow.simps(2))
  then show ?case using e by (auto simp: chain_ends_def funpow_Suc_right simp del: funpow.simps(2))
qed

lemma chain_distinct:
  assumes "chain_ends tab c n" and "i < j" and "j < n"
  shows "(fat_next tab ^^ i) c \<noteq> (fat_next tab ^^ j) c"
proof
  assume eq: "(fat_next tab ^^ i) c = (fat_next tab ^^ j) c"
  let ?m = "n - j + i"
  have "(fat_next tab ^^ ?m) c = (fat_next tab ^^ (n - j)) ((fat_next tab ^^ j) c)"
    by (simp only: funpow_add comp_apply eq)
  also have "\<dots> = (fat_next tab ^^ n) c"
    using assms(3) by (simp flip: funpow_add comp_apply [of "_ ^^ _" "_ ^^ _"])
  finally have "(fat_next tab ^^ ?m) c \<ge> 0xF8" using assms(1) by (simp add: chain_ends_def)
  moreover have "?m < n" using assms(2,3) by linarith
  then have "(fat_next tab ^^ ?m) c < 0xF8" using assms(1) by (simp add: chain_ends_def)
  ultimately show False by simp
qed

lemma small_words_bound:
  assumes "distinct cs" and "\<forall>c \<in> set cs. c < (0xF8 :: u16)"
  shows "length cs \<le> 248"
proof -
  have "set (map unat cs) \<subseteq> {..<248}" using assms(2) by (auto simp: word_less_nat_alt)
  then have "card (set (map unat cs)) \<le> 248" using card_mono [of "{..<248 :: nat}"] by fastforce
  moreover have "distinct (map unat cs)" using assms(1) by (auto simp: distinct_map inj_on_def intro: unat_eqI)
  ultimately show ?thesis using distinct_card [of "map unat cs"] by simp
qed

text \<open>
  Property C11: On any table, walking a chain returns exactly when the successors of the first cluster reach a value
  from \<open>0xF8\<close> on, and then returns the clusters before it, which are at most 248 and all different; on
  a chain that runs into a cycle the loop never ends.
\<close>

theorem walk_correct:
  assumes len: "length tab = 512"
  shows "((\<exists>cs. walk tab c = Some cs) \<longleftrightarrow> (\<exists>n. (fat_next tab ^^ n) c \<ge> 0xF8))
    \<and> (\<forall>cs. walk tab c = Some cs \<longrightarrow> (\<forall>k < length cs. cs ! k = (fat_next tab ^^ k) c \<and> cs ! k < 0xF8)
          \<and> (fat_next tab ^^ length cs) c \<ge> 0xF8 \<and> distinct cs \<and> length cs \<le> 248)"
proof (intro conjI allI impI iffI)
  show "\<exists>n. (fat_next tab ^^ n) c \<ge> 0xF8" if "\<exists>cs. walk tab c = Some cs"
    using that walk_Some [OF len] by (auto simp: chain_ends_def)
  show "\<exists>cs. walk tab c = Some cs" if ex: "\<exists>n. (fat_next tab ^^ n) c \<ge> 0xF8"
  proof -
    from ex obtain n where "(fat_next tab ^^ n) c \<ge> 0xF8" "\<forall>k < n. \<not> (fat_next tab ^^ k) c \<ge> 0xF8"
      using exists_least_iff [of "\<lambda>n. (fat_next tab ^^ n) c \<ge> 0xF8"] by blast
    then have "chain_ends tab c n" by (simp add: chain_ends_def not_le)
    from walk_chain [OF len this] show ?thesis by blast
  qed
next
  fix cs assume w: "walk tab c = Some cs"
  note e = walk_Some [OF len w]
  have cs: "cs = map (\<lambda>k. (fat_next tab ^^ k) c) [0..<length cs]" using walk_chain [OF len e] w by simp
  have nth: "cs ! k = (fat_next tab ^^ k) c" "cs ! k < 0xF8" if "k < length cs" for k
  proof -
    show n: "cs ! k = (fat_next tab ^^ k) c" using that arg_cong [OF cs, of "\<lambda>l. l ! k"] by simp
    show "cs ! k < 0xF8" unfolding n using e that by (simp add: chain_ends_def)
  qed
  have d: "distinct cs"
    using chain_distinct [OF e] nth(1) by (simp add: distinct_conv_nth) (metis linorder_neqE_nat)
  then show "distinct cs" .
  show "length cs \<le> 248" using nth(2) by (intro small_words_bound [OF d]) (auto simp: in_set_conv_nth)
  show "(fat_next tab ^^ length cs) c \<ge> 0xF8" using e by (simp add: chain_ends_def)
  show "cs ! k = (fat_next tab ^^ k) c" "cs ! k < 0xF8" if "k < length cs" for k using nth [OF that] .
qed

theorem walk_correct_witness:
  "(\<exists>cs. walk (replicate 512 0xFF) 5 = Some cs) \<and> \<not> (\<exists>cs. walk (replicate 512 3) 3 = Some cs)"
proof -
  have "(fat_next (replicate 512 3) ^^ n) 3 = 3" for n
    by (induction n) (simp_all add: fat_next_def)
  moreover have "(fat_next (replicate 512 0xFF) ^^ 1) 5 \<ge> 0xF8" by (simp add: fat_next_def)
  ultimately show ?thesis
    using walk_correct [of "replicate 512 0xFF" 5] walk_correct [of "replicate 512 3" 3] by fastforce
qed

section \<open>Directory sectors\<close>

lemma To_16bit_at: "i + 1 < length b \<Longrightarrow> To_16bit b i = Some (ucast (b ! i) OR push_bit 8 (ucast (b ! (i + 1))))"
  by (simp add: To_16bit_def)

lemma To_16bit_bytes: "To_16bit (pre @ ucast (v :: u16) # ucast (drop_bit 8 v) # r) (length pre) = Some v"
proof -
  have "ucast (ucast v :: u8) OR push_bit 8 (ucast (ucast (drop_bit 8 v) :: u8)) = v"
    by (rule bit_word_eqI) (auto simp: bit_simps)
  then show ?thesis by (simp add: To_16bit_def nth_append)
qed

lemma To_32bit_bytes:
  "To_32bit (pre @ ucast (v :: u32) # ucast (drop_bit 8 v) # ucast (drop_bit 16 v) # ucast (drop_bit 24 v) # r)
    (length pre) = Some v"
proof -
  have "ucast (ucast v :: u8) OR push_bit 8 (ucast (ucast (drop_bit 8 v) :: u8))
      OR push_bit 16 (ucast (ucast (drop_bit 16 v) :: u8)) OR push_bit 24 (ucast (ucast (drop_bit 24 v) :: u8)) = v" (is "?l = v")
  proof (rule bit_word_eqI)
    fix n assume "n < LENGTH(32)"
    then show "bit ?l n = bit v n"
      by (cases "n < 8"; cases "n < 16"; cases "n < 24") (auto simp: bit_simps)
  qed
  then show ?thesis by (simp add: To_32bit_def nth_append)
qed

text \<open>The characters a short name is made of, as a function of its 11 bytes and the attribute byte.\<close>

fun squash :: "bool \<Rightarrow> u8 list \<Rightarrow> u8 list" where
  "squash sep [] = []"
| "squash sep (c # cs) =
     (if c \<noteq> 0x20 \<and> c \<noteq> 0x10 then (if sep then [0x2E] else []) @ tolower c # squash False cs
      else squash True cs)"

lemma length_squash: "length (squash sep cs) \<le> 2 * length cs"
  by (induction sep cs rule: squash.induct) auto

lemma short_name_squash:
  assumes "at_byte + n \<le> length dir" and "n = length cs" and "take n (drop at_byte dir) = cs"
    and "len + length (squash sep cs) \<le> length name"
  shows "short_name dir at_byte n name len sep =
    Some (take len name @ squash sep cs @ drop (len + length (squash sep cs)) name, len + length (squash sep cs))"
  using assms
proof (induction n arbitrary: at_byte name len sep cs)
  case (Suc n)
  obtain c cs' where cs: "cs = c # cs'" using Suc.prems(2) by (cases cs) auto
  have lt: "at_byte < length dir" using Suc.prems(1) by simp
  then have d: "drop at_byte dir = dir ! at_byte # drop (at_byte + 1) dir" by (simp add: Cons_nth_drop_Suc)
  then have c: "dir ! at_byte = c" "take n (drop (at_byte + 1) dir) = cs'" using Suc.prems(3) cs by auto
  have n: "n = length cs'" "at_byte + 1 + n \<le> length dir" using Suc.prems(1,2) cs by simp_all
  note IH = Suc.IH [OF n(2,1) c(2)]
  have upd: "take (Suc i) (b[i := x]) = take i b @ [x]" if "i < length b" for i and b :: cbuf and x
    using that by (simp add: take_Suc_conv_app_nth)
  show ?case
  proof (cases "c \<noteq> 0x20 \<and> c \<noteq> 0x10")
    case True
    note room = Suc.prems(4)
    show ?thesis
    proof (cases sep)
      case sep: True
      let ?name = "name[len := 0x2E, len + 1 := tolower c]"
      have l: "len + 1 < length name" using room True sep cs by simp
      have "short_name dir at_byte (Suc n) name len sep = short_name dir (at_byte + 1) n ?name (len + 2) False"
        using lt l True sep by (simp add: c(1) numeral_2_eq_2)
      also have "\<dots> = Some (take (len + 2) ?name @ squash False cs' @ drop (len + 2 + length (squash False cs')) ?name,
          len + 2 + length (squash False cs'))"
        using room True sep cs by (intro IH) simp
      also have "take (len + 2) ?name = take len name @ [0x2E, tolower c]"
        using l upd [of "len + 1" "name[len := 0x2E]" "tolower c"] upd [of len name "0x2E"] by simp
      finally show ?thesis using True sep cs by simp
    next
      case sep: False
      let ?name = "name[len := tolower c]"
      have l: "len < length name" using room True cs by simp
      have "short_name dir at_byte (Suc n) name len sep = short_name dir (at_byte + 1) n ?name (len + 1) False"
        using lt l True sep by (simp add: c(1))
      also have "\<dots> = Some (take (len + 1) ?name @ squash False cs' @ drop (len + 1 + length (squash False cs')) ?name,
          len + 1 + length (squash False cs'))"
        using room True sep cs by (intro IH) simp
      also have "take (len + 1) ?name = take len name @ [tolower c]" using upd [OF l] by simp
      finally show ?thesis using True sep cs by simp
    qed
  next
    case False
    then have "short_name dir at_byte (Suc n) name len sep = short_name dir (at_byte + 1) n name len True"
      using lt by (auto simp: c(1))
    moreover have "squash sep cs = squash True cs'" using False cs by auto
    ultimately show ?thesis using IH [of len True name] Suc.prems(4) by (simp only:)
  qed
qed simp

lemma squash_plain:
  "\<forall>c \<in> set cs. c \<noteq> 0x20 \<and> c \<noteq> 0x10 \<Longrightarrow> squash sep (cs @ ds) =
    (if cs = [] then [] else (if sep then [0x2E] else []) @ map tolower cs) @ squash (if cs = [] then sep else False) ds"
  by (induction cs arbitrary: sep) auto

lemma squash_pad: "squash sep (replicate k 0x20 @ ds) = squash (sep \<or> 0 < k) ds"
  by (induction k arbitrary: sep) auto

text \<open>What a directory slot holds, and the 32 bytes that say so; \<open>rsv\<close> are the 14 bytes of times.\<close>

datatype slot = Free "u8 list" "u8 list" | Short "u8 list" "u8 list" u8 "u8 list" u16 u32

definition name_char :: "u8 \<Rightarrow> bool" where
  "name_char c \<longleftrightarrow> c \<noteq> 0x20 \<and> c \<noteq> 0x10 \<and> c \<noteq> 0"

fun slot_ok :: "slot \<Rightarrow> bool" where
  "slot_ok (Free a b) \<longleftrightarrow> length a = 11 \<and> length b = 20"
| "slot_ok (Short base ext attr rsv loc fsize) \<longleftrightarrow>
     base \<noteq> [] \<and> length base \<le> 8 \<and> length ext \<le> 3 \<and> (\<forall>c \<in> set base \<union> set ext. name_char c)
     \<and> (attr = 0x10 \<or> attr = 0x20) \<and> length rsv = 14"

fun slot_bytes :: "slot \<Rightarrow> u8 list" where
  "slot_bytes (Free a b) = a @ 0 # b"
| "slot_bytes (Short base ext attr rsv loc fsize) =
     base @ replicate (8 - length base) 0x20 @ ext @ replicate (3 - length ext) 0x20 @ attr # rsv
       @ [ucast loc, ucast (drop_bit 8 loc), ucast fsize, ucast (drop_bit 8 fsize), ucast (drop_bit 16 fsize),
          ucast (drop_bit 24 fsize)]"

lemma length_slot_bytes: "slot_ok sl \<Longrightarrow> length (slot_bytes sl) = 32"
  by (cases sl) auto

text \<open>The dot between the parts of the name is lost when the first part has all its eight characters.\<close>

definition slot_name :: "u8 list \<Rightarrow> u8 list \<Rightarrow> u8 list" where
  "slot_name base ext = map tolower base @
     (if ext = [] then [] else (if length base < 8 then [0x2E] else []) @ map tolower ext)"

fun slot_entry :: "slot \<Rightarrow> dir_entry list" where
  "slot_entry (Free a b) = []"
| "slot_entry (Short base ext attr rsv loc fsize) =
     [\<lparr>e_name = slot_name base ext @ replicate (32 - length (slot_name base ext)) 0,
       e_attributes = attr, e_location = loc, e_fsize = fsize\<rparr>]"

lemma squash_slot:
  assumes "slot_ok (Short base ext attr rsv loc fsize)"
  shows "squash False (base @ replicate (8 - length base) 0x20 @ ext @ replicate (3 - length ext) 0x20 @ [attr])
    = slot_name base ext"
proof -
  have b: "\<forall>c \<in> set base. c \<noteq> 0x20 \<and> c \<noteq> 0x10" and e: "\<forall>c \<in> set ext. c \<noteq> 0x20 \<and> c \<noteq> 0x10"
    using assms by (auto simp: name_char_def)
  have "squash s [attr] = []" for s using assms by auto
  then show ?thesis
    using assms by (auto simp: squash_plain [OF b] squash_plain [OF e] squash_pad slot_name_def)
qed

lemma short_entry_slot:
  assumes ok: "slot_ok (Short base ext attr rsv loc fsize)" and pre: "length pre = i"
    and dir: "dir = pre @ slot_bytes (Short base ext attr rsv loc fsize) @ r"
  shows "dir ! (i + 11) = attr"
    and "short_entry dir i (new_entry attr) =
      Some \<lparr>e_name = slot_name base ext @ replicate (32 - length (slot_name base ext)) 0,
        e_attributes = attr, e_location = loc, e_fsize = fsize\<rparr>"
proof -
  define pad where "pad = base @ replicate (8 - length base) 0x20 @ ext @ replicate (3 - length ext) 0x20"
  have lp: "length pad = 11" using ok by (simp add: pad_def)
  have d1: "dir = (pre @ pad) @ attr # rsv @ [ucast loc, ucast (drop_bit 8 loc), ucast fsize,
      ucast (drop_bit 8 fsize), ucast (drop_bit 16 fsize), ucast (drop_bit 24 fsize)] @ r"
    unfolding dir by (simp add: pad_def)
  then show "dir ! (i + 11) = attr" using nth_append_length [of "pre @ pad"] lp pre by simp
  have d2: "dir = (pre @ pad @ attr # rsv) @ ucast loc # ucast (drop_bit 8 loc) # ucast fsize #
      ucast (drop_bit 8 fsize) # ucast (drop_bit 16 fsize) # ucast (drop_bit 24 fsize) # r"
    unfolding d1 by simp
  have l2: "length (pre @ pad @ attr # rsv) = i + 26" using ok pre lp by simp
  have t16: "To_16bit dir (i + 26) = Some loc"
    using To_16bit_bytes [of "pre @ pad @ attr # rsv" loc] unfolding l2 d2 .
  have d3: "dir = (pre @ pad @ attr # rsv @ [ucast loc, ucast (drop_bit 8 loc)]) @ ucast fsize #
      ucast (drop_bit 8 fsize) # ucast (drop_bit 16 fsize) # ucast (drop_bit 24 fsize) # r"
    unfolding d1 by simp
  have l3: "length (pre @ pad @ attr # rsv @ [ucast loc, ucast (drop_bit 8 loc)]) = i + 28" using ok pre lp by simp
  have t32: "To_32bit dir (i + 28) = Some fsize"
    using To_32bit_bytes [of "pre @ pad @ attr # rsv @ [ucast loc, ucast (drop_bit 8 loc)]" fsize]
    unfolding l3 d3 .
  let ?n = "slot_name base ext"
  have sq: "squash False (pad @ [attr]) = ?n" using squash_slot [OF ok] by (simp add: pad_def)
  have len: "length ?n < 32" using ok by (simp add: slot_name_def)
  have tk: "take 12 (drop i dir) = pad @ [attr]" unfolding d1 using pre lp by simp
  have ld: "i + 12 \<le> length dir" unfolding d1 using pre lp by simp
  have "short_name dir i 12 (replicate 32 0) 0 False = Some (?n @ drop (length ?n) (replicate 32 0), length ?n)"
    using short_name_squash [OF ld _ tk, of 0 False "replicate 32 0"] lp len by (simp add: sq)
  moreover have "arr_set (?n @ drop (length ?n) (replicate 32 0)) (length ?n) 0 = Some (?n @ replicate (32 - length ?n) 0)"
  proof -
    obtain k where k: "32 - length ?n = Suc k" using len by (cases "32 - length ?n") simp_all
    show ?thesis by (simp add: arr_set_def len list_update_append k)
  qed
  ultimately show "short_entry dir i (new_entry attr) = Some \<lparr>e_name = ?n @ replicate (32 - length ?n) 0,
      e_attributes = attr, e_location = loc, e_fsize = fsize\<rparr>"
    by (simp add: short_entry_def t16 t32 new_entry_def)
qed

lemma entries_slots:
  assumes "\<forall>sl \<in> set slots. slot_ok sl" and "length slots = n" and "n \<le> 16"
    and "length dir = 512" and "drop (512 - 32 * n) dir = concat (map slot_bytes slots)"
  shows "read_entries dir n = Some (concat (map slot_entry slots))"
  using assms(1-3,5)
proof (induction n arbitrary: slots)
  case (Suc n)
  obtain sl slots' where sl: "slots = sl # slots'" "length slots' = n"
    using Suc.prems(2) by (auto simp: length_Suc_conv)
  let ?i = "512 - 32 * Suc n"
  have ok: "slot_ok sl" "length (slot_bytes sl) = 32" using Suc.prems(1) sl length_slot_bytes by simp_all
  have i: "?i + 32 = 512 - 32 * n" using Suc.prems(3) by simp
  define pre where "pre = take ?i dir"
  have pre: "length pre = ?i" using assms(4) by (simp add: pre_def)
  have dir: "dir = pre @ slot_bytes sl @ concat (map slot_bytes slots')"
    using Suc.prems(4) sl append_take_drop_id [of ?i dir] by (simp add: pre_def del: append_take_drop_id)
  have "drop (512 - 32 * n) dir = drop 32 (drop ?i dir)" unfolding i [symmetric] by (simp add: add.commute)
  also have "\<dots> = concat (map slot_bytes slots')" using Suc.prems(4) sl ok(2) by simp
  finally have rest: "read_entries dir n = Some (concat (map slot_entry slots'))"
    using Suc.prems sl by (intro Suc.IH) simp_all
  show ?case
  proof (cases sl)
    case (Free a b)
    have "dir ! (?i + 11) = 0" using ok(1) pre unfolding dir Free by (simp add: nth_append flip: pre)
    moreover have "?i + 11 < length dir" using assms(4) Suc.prems(3) by simp
    ultimately show ?thesis
      using rest sl Free
      by (simp add: Let_def attr_noEntry_def attr_shortName_def attr_shortNameFile_def attr_longName_def)
  next
    case (Short base ext attr rsv loc fsize)
    note okS = ok(1) [unfolded Short]
    note se = short_entry_slot [OF okS pre dir [unfolded Short]]
    have "?i + 11 < length dir" using assms(4) Suc.prems(3) by simp
    then show ?thesis
      using rest sl Short okS se
      by (auto simp: Let_def attr_noEntry_def attr_shortName_def attr_shortNameFile_def attr_longName_def)
  qed
qed simp

lemma read_entries_slots:
  assumes "length slots = 16" and "\<forall>sl \<in> set slots. slot_ok sl"
  shows "read_entries (concat (map slot_bytes slots)) 16 = Some (concat (map slot_entry slots))"
proof -
  have "length (concat (map slot_bytes slots)) = 32 * length slots"
    using assms(2) by (induction slots) (simp_all add: length_slot_bytes)
  then show ?thesis using assms(1) by (intro entries_slots [OF assms(2)]) simp_all
qed

text \<open>The entries a sector is made of, with whole names: the two parts in lower case, with a dot between them.\<close>

definition whole_name :: "u8 list \<Rightarrow> u8 list \<Rightarrow> u8 list" where
  "whole_name base ext = map tolower base @ (if ext = [] then [] else 0x2E # map tolower ext)"

fun whole_entry :: "slot \<Rightarrow> dir_entry list" where
  "whole_entry (Free a b) = []"
| "whole_entry (Short base ext attr rsv loc fsize) =
     [\<lparr>e_name = whole_name base ext @ replicate (32 - length (whole_name base ext)) 0,
       e_attributes = attr, e_location = loc, e_fsize = fsize\<rparr>]"

fun dot_kept :: "slot \<Rightarrow> bool" where
  "dot_kept (Free a b) \<longleftrightarrow> True"
| "dot_kept (Short base ext attr rsv loc fsize) \<longleftrightarrow> length base < 8 \<or> ext = []"

lemma dot_kept_entry: "dot_kept sl \<Longrightarrow> slot_entry sl = whole_entry sl"
  by (cases sl) (auto simp: slot_name_def whole_name_def)

text \<open>
  Property C12: A directory sector of free slots and short entries is read back as the entries it was made of, one per
  slot that is in use, in order, with cluster, size, attributes and the name in lower case, when no name
  has both eight characters before its dot and an extension; a name that has comes back without its dot.
  Entries with long names are not covered.
\<close>

theorem directory_roundtrip:
  assumes "length slots = 16" and "\<forall>sl \<in> set slots. slot_ok sl"
    and "read_block (drv_num f) (device f) sec = Some (concat (map slot_bytes slots), d)"
  shows "((\<forall>sl \<in> set slots. dot_kept sl) \<longrightarrow>
      readDirectory f sec = Some (concat (map whole_entry slots), f\<lparr>device := d\<rparr>))
    \<and> readDirectory f sec = Some (concat (map slot_entry slots), f\<lparr>device := d\<rparr>)"
proof -
  have "readDirectory f sec = Some (concat (map slot_entry slots), f\<lparr>device := d\<rparr>)"
    by (simp add: readDirectory_def assms(3) read_entries_slots [OF assms(1,2)])
  moreover have "concat (map slot_entry slots) = concat (map whole_entry slots)" if "\<forall>sl \<in> set slots. dot_kept sl"
    using that dot_kept_entry by (intro arg_cong [of _ _ concat] map_cong refl) blast
  ultimately show ?thesis by metis
qed

text \<open>A directory with the folder \<open>usr\<close> and the file \<open>a.txt\<close>, on a drive of such directories.\<close>

fun pack_words :: "u8 list \<Rightarrow> u16 list" where
  "pack_words (x # y # r) = (ucast x OR push_bit 8 (ucast y)) # pack_words r"
| "pack_words _ = []"

lemma word_bytes_pack: "even (length b) \<Longrightarrow> word_bytes (pack_words b) = b"
proof (induction b rule: pack_words.induct)
  case (1 x y r)
  let ?w = "ucast x OR push_bit 8 (ucast y) :: u16"
  have "ucast ?w = x" "ucast (drop_bit 8 ?w) = y"
    by (rule bit_word_eqI; auto simp: bit_simps dest: bit_imp_le_length)+
  then show ?case using 1 by (simp add: word_bytes_def)
qed (simp_all add: word_bytes_def)

definition sample_slots :: "slot list" where
  "sample_slots = Short [0x55, 0x53, 0x52] [] 0x10 (replicate 14 0) 2 0
     # Short [0x41] [0x54, 0x58, 0x54] 0x20 (replicate 14 0) 3 40
     # replicate 14 (Free (replicate 11 0) (replicate 20 0))"

definition sample_disk :: drive where
  "sample_disk = sample_drive\<lparr>d_sectors := (\<lambda>n. if n = 1 then replicate 256 0xFFFF
     else pack_words (concat (map slot_bytes sample_slots)))\<rparr>"

lemma sample_slots_ok: "length sample_slots = 16" "\<forall>sl \<in> set sample_slots. slot_ok sl"
  by (simp_all add: sample_slots_def name_char_def)

lemma length_pack: "length (pack_words b) = length b div 2"
  by (induction b rule: pack_words.induct) simp_all

lemma length_sample_slots: "length (concat (map slot_bytes sample_slots)) = 512"
  by (simp add: sample_slots_def length_concat sum_list_replicate)

lemma sample_disk_ok: "drive_ok sample_disk"
  using length_pack [of "concat (map slot_bytes sample_slots)"] length_sample_slots
  by (simp add: drive_ok_def sample_disk_def sample_drive_def)

lemma sample_disk_blocks:
  "drive_block sample_disk n = (if n = 1 then replicate 512 0xFF else concat (map slot_bytes sample_slots))"
proof -
  have "word_bytes (replicate k 0xFFFF) = replicate (2 * k) 0xFF" for k
    by (induction k) (simp_all add: word_bytes_def drop_bit_eq_div)
  from this [of 256] show ?thesis
    using word_bytes_pack [of "concat (map slot_bytes sample_slots)"] length_sample_slots
    by (simp add: drive_block_def sample_disk_def)
qed

theorem directory_roundtrip_witness:
  "\<exists>g. \<forall>f. drv_num f = 0 \<and> device f = sample_disk \<longrightarrow>
    readDirectory f 512 = Some (concat (map whole_entry sample_slots), g f)"
proof -
  have "unat (512 :: u32) < 2 ^ 28" by simp
  from ata.read_obtain [OF sample_disk_ok this, of 0] obtain d
    where d: "read_block 0 sample_disk 512 = Some (concat (map slot_bytes sample_slots), d)"
    using sample_disk_blocks by auto
  have "\<forall>sl \<in> set sample_slots. dot_kept sl" by (simp add: sample_slots_def)
  then show ?thesis
    using directory_roundtrip [OF sample_slots_ok, of _ 512 d]
    by (intro exI [of _ "\<lambda>f. f\<lparr>device := d\<rparr>"]) (simp add: d)
qed

end
