(* ===== verification/FAT16_Paths.thy ===== *)
theory FAT16_Paths
  imports FAT16
begin

text \<open>
  What looking up a path means, and that the lookup of \<open>kernel/fs/fat16.cpp\<close> does it: the folders are
  names in the directories of the disk, the directory a name leads to lies in the sector of the entry's
  first cluster, and the state of the driver that is passed along does not matter. Last, the sample
  volume on which the theorems on files and directories are evaluated.
\<close>

section \<open>The disk as a tree of directories\<close>













section \<open>The operations on a volume\<close>





text \<open>
  The names in a path, without a leading slash, as the loop with \<open>strtok\<close> finds them: of several names
  the last one goes on with the first bytes of a heap block, unless the path ends with a slash.
\<close>

definition path_str :: "u8 list \<Rightarrow> u8 list" where
  "path_str p = (if hd p = 0x2F then tl p else p)"

definition path_words :: "u8 list \<Rightarrow> u8 list list" where
  "path_words p = (if path_str p = [] then [] else pushed_words [0x2F] (path_str p))"



text \<open>The paths that \<open>ls\<close> and \<open>readFile\<close> pass end with a slash: their names are the words between slashes.\<close>

lemma path_words_slash: "path_words (p @ [0x2F]) = (if path_str (p @ [0x2F]) = [] then [] else words [0x2F] (path_str (p @ [0x2F])))"
  by (auto simp: path_words_def path_str_def last_tl intro!: pushed_words_exact)



text \<open>On the sample disk, with \<open>usr\<close> in the first cluster behind the root directory.\<close>

definition sample_volume :: fat16 where
  "sample_volume = \<lparr>drv_num = 0, device = sample_disk, header_bytes = [],
     header_info = \<lparr>sectorSize = 512, secPerCluster = 1, numReservedSectors = 1, numFATs = 1,
       numSectorsPerFAT = 1, numDirectories = 16, numSectors = 2048\<rparr>,
     fat_table = [], volume_serial = 0\<rparr>"






section \<open>Files in the root directory\<close>

text \<open>
  Property C40: A file in the root directory, named by \<open>/\<close> and its name, is never found: the search for the last
  slash does not look at the first character, and what is left of the directory part is the empty
  string, whose first character is read.
\<close>

theorem readFile_root_faults:
  assumes x: "x \<noteq> []" "0 \<notin> set x" "0x2F \<notin> set x" "length x < 2 ^ 31 - 1"
  shows "readFile tk behind after f (cstr (0x2F # x) r) = None"
proof -
  let ?p = "0x2F # x"
  have p: "0 \<notin> set ?p" "length ?p < 2 ^ 31" using x(2,4) by simp_all
  have "filter (\<lambda>k. ?p ! k = 0x2F) [1..<length ?p] = []"
    using x(3) by (auto simp: filter_empty_conv nth_Cons' in_set_conv_nth)
  then have slash: "find_last_of ?p [0x2F] npos = Some npos"
    using find_last_of_value [OF p(2), of "0x2F"] by (simp add: Let_def)
  have dir: "substr ?p 0 0 = Some []" using substr_value [OF p(2), of 0 0] by (simp add: npos_def)
  have fl: "\<exists>fl. substr ?p 0 npos = Some fl" using substr_value [OF p(2), of npos 0] by simp
  have empty: "readDirectory_path tk behind f (cstr [] []) = None"
    using string_of_cstr_eq [of "[]" "[]"] by (simp add: readDirectory_path_def)
  have "npos + 1 = 0" by (simp add: npos_def)
  then show ?thesis
    using fl by (elim exE) (simp only: readFile_def string_of_cstr_eq [OF p(1)] slash dir empty option.map(2)
        string_to_cstr_eq Option.bind.bind_lunit Option.bind.simps(1))
qed

theorem readFile_root_faults_witness:
  "readFile \<lparr>tok_str = [], tok_nxt = 0, tok_size = 0\<rparr> (\<lambda>k. [0]) [0] sample_volume (cstr [0x2F, 0x61, 0x2E, 0x74, 0x78, 0x74] []) = None"
  by (rule readFile_root_faults) simp_all

end
