(* ===== verification/Descriptors.thy ===== *)
theory Descriptors
  imports Prelude Std_Lib
begin

text \<open>
  The descriptor tables and the way of an interrupt: \<open>kernel/gdt.cpp\<close>, \<open>kernel/idt.cpp\<close> and the
  entry stubs of \<open>kernel/asm/interrupts.s\<close>. A gate splits its address over several fields; the decoding
  functions put them together the way the processor does. The addresses of the stubs and of the TSS are
  the linker's and are arguments.
\<close>

section \<open>Segments\<close>

(* src/include/kernel/gdt.hpp:6-13 gdt_info *)
record gdt_info =
  limit_low :: u16
  base_low :: u16
  base_middle :: u8
  access :: u8
  granularity :: u8
  base_high :: u8

(* src/kernel/gdt.cpp:11-24 gdt_set_gate *)
definition gdt_set_gate :: "gdt_info list \<Rightarrow> nat \<Rightarrow> u32 \<Rightarrow> u32 \<Rightarrow> u8 \<Rightarrow> u8 \<Rightarrow> gdt_info list option" where
  "gdt_set_gate gdt num base limit acc gran =
     arr_set gdt num \<lparr>limit_low = ucast (limit AND 0xFFFF), base_low = ucast (base AND 0xFFFF),
       base_middle = ucast (drop_bit 16 base AND 0xFF), access = acc,
       granularity = ucast (drop_bit 16 limit AND 0x0F) OR (gran AND 0xF0),
       base_high = ucast (drop_bit 24 base AND 0xFF)\<rparr>"

(* src/include/kernel/gdt.hpp:20-27 tss_info *)
definition tss_size :: u32 where
  "tss_size = 4 * 3 + 4 * 15 + 4 * 6 + 4 + 2 * 2"

(* src/kernel/gdt.cpp:26-38 gdt_install *)
definition gdt_install :: "u32 \<Rightarrow> gdt_info list \<Rightarrow> gdt_info list option" where
  "gdt_install tss gdt = do {
     gdt \<leftarrow> gdt_set_gate gdt 0 0 0 0 0;
     gdt \<leftarrow> gdt_set_gate gdt 1 0 0xFFFFFFFF 0x9A 0xC0;
     gdt \<leftarrow> gdt_set_gate gdt 2 0 0xFFFFFFFF 0x92 0xC0;
     gdt \<leftarrow> gdt_set_gate gdt 3 0 0xFFFFFFFF 0xF8 0xC0;
     gdt \<leftarrow> gdt_set_gate gdt 4 0 0xFFFFFFFF 0xF2 0xC0;
     gdt_set_gate gdt 5 tss tss_size 0x89 0x40
   }"

(* src/include/kernel/gdt.hpp:20-28 tss_info *)
record tss_info =
  tss_ptl :: u32
  tss_esp0 :: u32
  tss_ss0 :: u32
  tss_u :: "u32 list"
  tss_segments :: "u32 list"
  tss_ldt :: u32
  tss_trap :: u16
  tss_iomap :: u16

text \<open>The task state, and the selector that \<open>ltr\<close> loads.\<close>

(* src/kernel/gdt.cpp:40-46 tss_install *)
definition tss_install :: "tss_info \<Rightarrow> tss_info \<times> u16" where
  "tss_install tss = (tss\<lparr>tss_ss0 := 0x10, tss_iomap := ucast tss_size\<rparr>, 0x28)"

text \<open>What the processor reads from a descriptor: the base, and the last offset of the segment.\<close>

definition seg_base :: "gdt_info \<Rightarrow> u32" where
  "seg_base g = ucast (base_low g) OR push_bit 16 (ucast (base_middle g)) OR push_bit 24 (ucast (base_high g))"

definition seg_raw_limit :: "gdt_info \<Rightarrow> u32" where
  "seg_raw_limit g = ucast (limit_low g) OR push_bit 16 (ucast (granularity g AND 0x0F))"

definition seg_limit :: "gdt_info \<Rightarrow> u32" where
  "seg_limit g = (if bit (granularity g) 7 then push_bit 12 (seg_raw_limit g) OR 0xFFF else seg_raw_limit g)"

section \<open>Interrupt gates\<close>

(* src/include/kernel/idt.hpp:7-13 idt_entry *)
record idt_entry =
  offset_low :: u16
  selector :: u16
  zero :: u8
  type_attr :: u8
  offset_high :: u16

definition no_gate :: idt_entry where
  "no_gate = \<lparr>offset_low = 0, selector = 0, zero = 0, type_attr = 0, offset_high = 0\<rparr>"

(* src/kernel/idt.cpp:19-25 idt_set_gate *)
definition idt_set_gate :: "idt_entry list \<Rightarrow> u8 \<Rightarrow> u32 \<Rightarrow> u16 \<Rightarrow> u8 \<Rightarrow> idt_entry list" where
  "idt_set_gate entries i offset sel flags =
     entries[unat i := \<lparr>offset_low = ucast (offset AND 0xFFFF), selector = sel, zero = 0,
       type_attr = flags AND 0xFF, offset_high = ucast (drop_bit 16 offset AND 0xFFFF)\<rparr>]"

text \<open>The vectors that get a gate, in the order of the calls, each with the number of its stub.\<close>

(* src/kernel/idt.cpp:46-103 idt_install *)
definition idt_vectors :: "(nat \<times> nat) list" where
  "idt_vectors = map (\<lambda>i. (i, i)) [0..<42] @ [(43, 42), (44, 44), (45, 45), (46, 46), (47, 47)]
     @ map (\<lambda>i. (i, 0)) [49..<256] @ [(0x80, 128), (0x82, 130)]"

(* src/kernel/idt.cpp:27-109 idt_install *)
definition idt_install :: "(nat \<Rightarrow> u32) \<Rightarrow> idt_entry list" where
  "idt_install isr =
     foldl (\<lambda>entries (i, n). idt_set_gate entries (of_nat i) (isr n) 0x08 0x8E) (replicate 256 no_gate) idt_vectors"

text \<open>The bytes sent to the two interrupt controllers.\<close>

(* src/kernel/idt.cpp:30-44 idt_install *)
definition pic_setup :: "(u16 \<times> u8) list" where
  "pic_setup = [(0x20, 0x11), (0xA0, 0x11), (0x21, 0x20), (0xA1, 0x28), (0x21, 0x04), (0xA1, 0x02),
     (0x21, 0x01), (0xA1, 0x01), (0x21, 0x00), (0xA1, 0x00)]"

text \<open>A stub pushes its number as a sign-extended byte.\<close>

(* src/kernel/asm/interrupts.s:32-36 isr0 *)
definition stub_number :: "nat \<Rightarrow> u32" where
  "stub_number n = scast (of_nat n :: u8)"

text \<open>The table of handlers; a null pointer is \<^const>\<open>None\<close>.\<close>

(* src/kernel/idt.cpp:116-118 Interrupt::Register *)
definition Register :: "'h option list \<Rightarrow> u32 \<Rightarrow> 'h \<Rightarrow> 'h option list option" where
  "Register handlers irq_num ptr = arr_set handlers (unat (irq_num + 0x20)) (Some ptr)"

text \<open>The ports written, and the handler that is called.\<close>

(* src/kernel/idt.cpp:121-134 isr_handler *)
definition isr_handler :: "'h option list \<Rightarrow> u32 \<Rightarrow> ((u16 \<times> u8) list \<times> 'h option) option" where
  "isr_handler handlers n = do {
     h \<leftarrow> arr_get handlers (unat n);
     Some ((if n \<ge> 0x20 \<and> n \<le> 0x2F then (if n \<ge> 0x28 then [(0xA0, 0x20)] else []) @ [(0x20, 0x20)] else []), h)
   }"

section \<open>The way of an interrupt\<close>

text \<open>
  The vector of a line: the second initialisation byte of its controller, which is the first byte sent to
  the data port after the command, plus the number of the line there.
\<close>

definition icw2 :: "u16 \<Rightarrow> u16 \<Rightarrow> (u16 \<times> u8) list \<Rightarrow> u8" where
  "icw2 command dat ws = snd (hd (filter (\<lambda>(p, v). p = dat) (dropWhile (\<lambda>(p, v). p \<noteq> command) ws)))"

definition pic_vector :: "(u16 \<times> u8) list \<Rightarrow> nat \<Rightarrow> u8" where
  "pic_vector ws k = (if k < 8 then icw2 0x20 0x21 ws + of_nat k else icw2 0xA0 0xA1 ws + of_nat (k - 8))"

definition gate_offset :: "idt_entry \<Rightarrow> u32" where
  "gate_offset e = ucast (offset_low e) OR push_bit 16 (ucast (offset_high e))"

text \<open>
  A vector is delivered through its gate, if that is present, to the stub at the address in it; \<open>code\<close>
  says which stub is where.
\<close>

definition deliver ::
  "(u32 \<Rightarrow> nat option) \<Rightarrow> idt_entry list \<Rightarrow> 'h option list \<Rightarrow> u8 \<Rightarrow> ((u16 \<times> u8) list \<times> 'h option) option" where
  "deliver code idt handlers v = do {
     e \<leftarrow> arr_get idt (unat v);
     if bit (type_attr e) 7 then do {
       n \<leftarrow> code (gate_offset e);
       isr_handler handlers (stub_number n)
     } else None
   }"

section \<open>Lemmas\<close>

lemma masks: "(0xFFFF :: u32) = mask 16" "(0xFF :: u32) = mask 8" "(0x0F :: u32) = mask 4" "(0x0F :: u8) = mask 4"
    "(0xFFFFF :: u32) = mask 20" "(0xF0 :: u8) = push_bit 4 (mask 4)"
  by (simp_all add: mask_eq_exp_minus_1 push_bit_eq_mult)

lemma split_base: "ucast (ucast (b AND 0xFFFF) :: u16) OR push_bit 16 (ucast (ucast (drop_bit 16 b AND 0xFF) :: u8))
    OR push_bit 24 (ucast (ucast (drop_bit 24 b AND 0xFF) :: u8)) = (b :: u32)" (is "?l = b")
proof (rule bit_word_eqI)
  fix n assume "n < LENGTH(32)"
  then show "bit ?l n = bit b n"
    by (cases "n < 16"; cases "n < 24") (auto simp: masks bit_simps)
qed

lemma split_limit: "ucast (ucast (l AND 0xFFFF) :: u16)
    OR push_bit 16 (ucast ((ucast (drop_bit 16 l AND 0x0F) OR (g AND 0xF0)) AND (0x0F :: u8))) = (l :: u32) AND 0xFFFFF" (is "?l = ?r")
proof (rule bit_word_eqI)
  fix n assume "n < LENGTH(32)"
  then show "bit ?l n = bit ?r n"
    by (cases "n < 16"; cases "n < 20") (auto simp: masks bit_simps)
qed

lemma gran_bits: "(ucast (x AND (0x0F :: u32)) OR (g AND 0xF0)) AND 0xF0 = g AND (0xF0 :: u8)"
  by (rule bit_word_eqI) (auto simp: masks bit_simps)

lemma split_offset: "ucast (ucast (b AND 0xFFFF) :: u16) OR push_bit 16 (ucast (ucast (drop_bit 16 b AND 0xFFFF) :: u16)) = (b :: u32)" (is "?l = b")
proof (rule bit_word_eqI)
  fix n assume "n < LENGTH(32)"
  then show "bit ?l n = bit b n"
    by (cases "n < 16") (auto simp: masks bit_simps)
qed

text \<open>A sequence of updates leaves the last one at every index.\<close>

lemma foldl_updates:
  assumes "\<forall>(i, n) \<in> set ps. i < length xs"
  shows "j < length xs \<Longrightarrow> foldl (\<lambda>t (i, n). t[i := f n]) xs ps ! j =
    (case map_of (rev ps) j of None \<Rightarrow> xs ! j | Some n \<Rightarrow> f n)"
  using assms
proof (induction ps rule: rev_induct)
  case (snoc p ps)
  have "length (foldl (\<lambda>t (i, n). t[i := f n]) xs ps) = length xs" for ps
    by (induction ps rule: rev_induct) (auto split: prod.splits)
  then show ?case using snoc by (auto simp: nth_list_update split: prod.splits)
qed simp

lemma map_of_rev_graph: "map_of (rev (map (\<lambda>i. (i, f i)) ks)) = (\<lambda>k. if k \<in> set ks then Some (f k) else None)"
  by (auto simp: rev_map map_of_map_restrict restrict_map_def)

definition stub_of :: "nat \<Rightarrow> nat" where
  "stub_of v = (if v = 0x80 then 128 else if v = 0x82 then 130 else if v = 43 then 42 else if v < 48 then v else 0)"

lemma vectors_map: "v < 256 \<Longrightarrow> map_of (rev idt_vectors) v = (if v = 42 \<or> v = 48 then None else Some (stub_of v))"
  by (auto simp: idt_vectors_def stub_of_def map_add_def map_of_rev_graph simp del: upt_rec_numeral split: if_splits)

lemma vectors_small: "\<forall>(i, n) \<in> set idt_vectors. i < 256"
  by (auto simp: idt_vectors_def simp del: upt_rec_numeral)

definition gate :: "u32 \<Rightarrow> idt_entry" where
  "gate a = \<lparr>offset_low = ucast (a AND 0xFFFF), selector = 8, zero = 0, type_attr = 0x8E, offset_high = ucast (drop_bit 16 a AND 0xFFFF)\<rparr>"

lemma gate_offset_gate: "gate_offset (gate a) = a"
  by (simp add: gate_offset_def gate_def split_offset)

lemma install_nth:
  assumes "v < 256"
  shows "idt_install isr ! v = (if v = 42 \<or> v = 48 then no_gate else gate (isr (stub_of v)))"
proof -
  have "idt_install isr = foldl (\<lambda>t (i, n). t[i := gate (isr n)]) (replicate 256 no_gate) idt_vectors"
    unfolding idt_install_def
  proof (rule foldl_cong)
    fix t p assume "p \<in> set idt_vectors"
    moreover obtain i n where "p = (i, n)" by (cases p)
    ultimately have "p = (i, n)" "i mod 256 = i" using vectors_small by auto
    then show "(case p of (i, n) \<Rightarrow> idt_set_gate t (of_nat i) (isr n) 0x08 0x8E) =
        (case p of (i, n) \<Rightarrow> t[i := gate (isr n)])"
      by (simp add: idt_set_gate_def gate_def unat_of_nat)
  qed simp_all
  then show ?thesis
    using foldl_updates [of idt_vectors "replicate 256 no_gate" v "\<lambda>n. gate (isr n)"] vectors_small assms
    by (simp add: vectors_map)
qed

lemma length_install: "length (idt_install isr) = 256"
proof -
  have "length (foldl (\<lambda>t (i, n). idt_set_gate t (of_nat i) (isr n) 8 0x8E) xs ps) = length xs"
    for xs and ps :: "(nat \<times> nat) list"
    by (induction ps arbitrary: xs) (auto simp: idt_set_gate_def)
  then show ?thesis by (simp add: idt_install_def)
qed

section \<open>Segments read back\<close>

text \<open>
  A descriptor gives back the base it was made from, the low 20 bits of the limit, its access byte and
  the flags in the upper half of the last argument; nothing else in the table changes, and an index from
  the table's length on leaves the table.
\<close>

theorem gdt_gate_roundtrip:
  "(if num < length gdt
    then \<exists>gdt'. gdt_set_gate gdt num base limit acc gran = Some gdt'
      \<and> seg_base (gdt' ! num) = base \<and> seg_raw_limit (gdt' ! num) = limit AND 0xFFFFF
      \<and> access (gdt' ! num) = acc \<and> granularity (gdt' ! num) AND 0xF0 = gran AND 0xF0
      \<and> length gdt' = length gdt \<and> (\<forall>k. k \<noteq> num \<longrightarrow> gdt' ! k = gdt ! k)
    else gdt_set_gate gdt num base limit acc gran = None)"
  by (simp add: gdt_set_gate_def seg_base_def seg_raw_limit_def split_base split_limit gran_bits)

theorem gdt_gate_roundtrip_witness:
  "\<exists>gdt'. gdt_set_gate [\<lparr>limit_low = 0, base_low = 0, base_middle = 0, access = 0, granularity = 0, base_high = 0\<rparr>]
      0 0x12345678 0xABCDE 0x9A 0xC0 = Some gdt'
    \<and> seg_base (gdt' ! 0) = 0x12345678 \<and> seg_raw_limit (gdt' ! 0) = 0xABCDE"
  using gdt_gate_roundtrip [of 0 "[\<lparr>limit_low = 0, base_low = 0, base_middle = 0, access = 0, granularity = 0, base_high = 0\<rparr>]"
    "0x12345678" "0xABCDE" "0x9A" "0xC0"] by auto

text \<open>
  The table that is installed: the first descriptor is empty, the code and data segments of the kernel
  and of the user cover all addresses from 0 on, and the last one describes the task state, of 104 bytes.
\<close>

theorem gdt_install_flat:
  assumes "length gdt = 6"
  shows "\<exists>gdt'. gdt_install tss gdt = Some gdt' \<and> length gdt' = 6
    \<and> access (gdt' ! 0) = 0 \<and> seg_limit (gdt' ! 0) = 0
    \<and> (\<forall>n \<in> {1, 2, 3, 4}. seg_base (gdt' ! n) = 0 \<and> seg_limit (gdt' ! n) = - 1 \<and> bit (access (gdt' ! n)) 7)
    \<and> seg_base (gdt' ! 5) = tss \<and> seg_limit (gdt' ! 5) = 104"
  using assms
  by (simp add: gdt_install_def gdt_set_gate_def tss_size_def seg_limit_def seg_raw_limit_def seg_base_def
      split_base bit_simps)

theorem gdt_install_flat_witness:
  "\<exists>gdt'. gdt_install 0xC0105000 (replicate 6 \<lparr>limit_low = 0, base_low = 0, base_middle = 0, access = 0,
    granularity = 0, base_high = 0\<rparr>) = Some gdt' \<and> seg_base (gdt' ! 5) = 0xC0105000"
  using gdt_install_flat [of "replicate 6 \<lparr>limit_low = 0, base_low = 0, base_middle = 0, access = 0,
    granularity = 0, base_high = 0\<rparr>" "0xC0105000"] by auto

text \<open>
  The selector names the descriptor of the task state, the kernel's stack segment is the flat data segment, and
  there is no map of ports behind the task state; the stack pointer for the kernel is left at what it was.
\<close>

lemma tss_install_selects:
  assumes "length gdt = 6" and "gdt_install addr gdt = Some gdt'" and "tss_install tss = (tss', task)"
  shows "seg_base (gdt' ! (unat task div 8)) = addr" and "access (gdt' ! (unat task div 8)) = 0x89"
    and "unat (tss_ss0 tss') div 8 = 2" and "tss_iomap tss' = 104" and "tss_esp0 tss' = tss_esp0 tss"
  using assms
  by (auto simp: gdt_install_def gdt_set_gate_def tss_install_def tss_size_def seg_base_def split_base bit_simps)

section \<open>Lines and handlers\<close>

lemma stub_number_small: "n < 128 \<Longrightarrow> stub_number n = of_nat n"
proof -
  assume "n < 128"
  then have "uint (of_nat n :: u8) = int n" by (simp add: unsigned_of_nat take_bit_nat_eq_self)
  then have "sint (of_nat n :: u8) = int n" using \<open>n < 128\<close> by (simp add: sint_u8)
  then show ?thesis by (simp add: stub_number_def scast_eq)
qed

lemma line_vector: "k < 16 \<Longrightarrow> unat (pic_vector pic_setup k) = 32 + k"
  by (simp add: pic_vector_def pic_setup_def icw2_def unat_word_ariths unat_of_nat)

text \<open>
  Property C19: A handler registered for a line is the one that is called when the line fires, after the end of the
  interrupt has been sent to the slave, for a line of the slave, and to the master. The exceptions are
  the lines 10, which has no gate, and 11, whose gate leads to the stub of line 10.
\<close>

theorem irq_reaches_handler:
  assumes "length handlers = 256" and "j < 16" and "k < 16"
    and code: "\<forall>n < 48. code (isr n) = Some n"
    and reg: "Register handlers (of_nat j) h = Some handlers'"
  shows "deliver code (idt_install isr) handlers' (pic_vector pic_setup k) =
    (if k = 10 then None
     else Some ((if k < 8 then [] else [(0xA0, 0x20)]) @ [(0x20, 0x20)],
       let line = (if k = 11 then 10 else k) in if line = j then Some h else handlers ! (32 + line)))"
proof -
  note len = length_install [of isr]
  have v: "unat (pic_vector pic_setup k) = 32 + k" using line_vector assms(3) by blast
  let ?line = "if k = 11 then 10 else k"
  have u: "unat (of_nat j + 0x20 :: u32) = 32 + j" using assms(2) by (simp add: unat_word_ariths unat_of_nat)
  then have hs: "handlers' = handlers[32 + j := Some h]"
    using reg assms(1,2) by (simp add: Register_def)
  show ?thesis
  proof (cases "k = 10")
    case True
    then show ?thesis using len v by (simp add: deliver_def install_nth no_gate_def)
  next
    case False
    have e: "idt_install isr ! (32 + k) = gate (isr (32 + ?line))"
      using False assms(3) by (simp add: install_nth stub_of_def)
    have c: "code (isr (32 + ?line)) = Some (32 + ?line)" using code assms(3) by simp
    have s: "stub_number (32 + ?line) = of_nat (32 + ?line)" using assms(3) by (intro stub_number_small) simp
    have n: "unat (of_nat (32 + ?line) :: u32) = 32 + ?line" using assms(3) by (simp only: unat_of_nat, simp)
    have ge: "(of_nat (32 + ?line) :: u32) \<ge> 0x20" "(of_nat (32 + ?line) :: u32) \<le> 0x2F"
      "(of_nat (32 + ?line) :: u32) \<ge> 0x28 \<longleftrightarrow> \<not> k < 8"
      using n assms(3) by (simp_all only: word_le_nat_alt) auto
    have "isr_handler handlers' (of_nat (32 + ?line)) =
        Some ((if k < 8 then [] else [(0xA0, 0x20)]) @ [(0x20, 0x20)], handlers' ! (32 + ?line))"
      using assms(1,3) n ge by (simp add: isr_handler_def hs)
    moreover have "bit (0x8E :: u8) 7" by (simp add: bit_numeral_rec)
    ultimately have "deliver code (idt_install isr) handlers' (pic_vector pic_setup k) =
        Some ((if k < 8 then [] else [(0xA0, 0x20)]) @ [(0x20, 0x20)], handlers' ! (32 + ?line))"
      using len v assms(3) e c s by (simp add: deliver_def gate_offset_gate) (simp add: gate_def)
    moreover have "handlers' ! (32 + ?line) = (if ?line = j then Some h else handlers ! (32 + ?line))"
      using assms(1-3) by (simp add: hs nth_list_update)
    ultimately show ?thesis using False by (simp add: Let_def)
  qed
qed

theorem irq_reaches_handler_witness:
  "deliver (\<lambda>a. Some (unat a div 16)) (idt_install (\<lambda>n. of_nat (16 * n)))
      ((replicate 256 None)[33 := Some ''keyboard'']) (pic_vector pic_setup 1) = Some ([(0x20, 0x20)], Some ''keyboard'')"
  using irq_reaches_handler [of "replicate 256 None" 1 1 "\<lambda>a. Some (unat a div 16)" "\<lambda>n. of_nat (16 * n)" "''keyboard''"
      "(replicate 256 None)[33 := Some ''keyboard'']"]
  by (simp add: Register_def unat_of_nat unat_word_ariths)

text \<open>
  The system call and the scheduler's interrupt have numbers from 128 on, which the stub sign-extends:
  the handler looks outside its table, whatever is registered.
\<close>

theorem syscall_leaves_table:
  assumes "length handlers = 256" and "v = 0x80 \<or> v = 0x82" and "\<forall>n < 256. code (isr n) = Some n"
  shows "deliver code (idt_install isr) handlers v = None"
proof -
  have "sint (0x80 :: u8) = - 128" "sint (0x82 :: u8) = - 126" by (simp_all add: sint_u8)
  then have "stub_number 128 = - 128" "stub_number 130 = - 126" by (simp_all add: stub_number_def scast_eq)
  moreover have "unat (- 128 :: u32) = 4294967168" "unat (- 126 :: u32) = 4294967170"
    by (simp_all only: unat_eq_nat_uint uint_word_ariths) simp_all
  ultimately have out: "isr_handler handlers (stub_number 128) = None" "isr_handler handlers (stub_number 130) = None"
    using assms(1) by (simp_all add: isr_handler_def)
  have "length (idt_install isr) = 256" by (rule length_install)
  moreover have "bit (0x8E :: u8) 7" by (simp add: bit_numeral_rec)
  ultimately show ?thesis
    using assms(2,3) out by (auto simp: deliver_def install_nth stub_of_def gate_offset_gate) 
qed

theorem syscall_leaves_table_witness:
  "deliver (\<lambda>a. Some (unat a)) (idt_install of_nat) (replicate 256 (Some ''schedule'')) 0x82 = None"
  by (rule syscall_leaves_table) (simp_all add: unat_of_nat)

end
