(* ===== verification/Runtime.thy ===== *)
theory Runtime
  imports Prelude
begin

text \<open>
  What the compiler expects of the kernel: the list of destructors of \<open>kernel/icxxabi.cpp\<close>, and the
  guards of function-local statics in \<open>libcxxrt/guard.cpp\<close>, which threads contend for.
\<close>

section \<open>Destructors\<close>

(* src/include/kernel/icxxabi.hpp:12-17 atexit_func_entry_t *)
record atexit_func_entry =
  destructor_func :: addr
  obj_ptr :: addr
  dso_handle :: addr

(* src/kernel/icxxabi.cpp:15-16 __atexit_funcs *)
record atexit_table =
  atexit_funcs :: "atexit_func_entry list"
  atexit_func_count :: nat

(* src/kernel/icxxabi.cpp:20-28 __cxa_atexit *)
definition cxa_atexit :: "addr \<Rightarrow> addr \<Rightarrow> addr \<Rightarrow> atexit_table \<Rightarrow> (atexit_table \<times> int) option" where
  "cxa_atexit f objptr dso s =
     (if atexit_func_count s \<ge> 128 then Some (s, - 1)
      else do {
        funcs \<leftarrow> arr_set (atexit_funcs s) (atexit_func_count s)
                   \<lparr>destructor_func = f, obj_ptr = objptr, dso_handle = dso\<rparr>;
        Some (s\<lparr>atexit_funcs := funcs, atexit_func_count := atexit_func_count s + 1\<rparr>, 0)
      })"

text \<open>The calls, in order, of the loop over the entries before \<open>i\<close>.\<close>

(* src/kernel/icxxabi.cpp:48-66 __cxa_finalize *)
fun finalize_all :: "atexit_func_entry list \<Rightarrow> nat \<Rightarrow> (addr \<times> addr) list option" where
  "finalize_all funcs 0 = Some []"
| "finalize_all funcs (Suc i) = do {
     e \<leftarrow> arr_get funcs i;
     calls \<leftarrow> finalize_all funcs i;
     Some (if destructor_func e \<noteq> 0 then (destructor_func e, obj_ptr e) # calls else calls)
   }"

(* src/kernel/icxxabi.cpp:70-106 __cxa_finalize *)
fun finalize_one :: "addr \<Rightarrow> atexit_func_entry list \<Rightarrow> nat \<Rightarrow> (atexit_func_entry list \<times> (addr \<times> addr) list) option" where
  "finalize_one f funcs 0 = Some (funcs, [])"
| "finalize_one f funcs (Suc i) = do {
     e \<leftarrow> arr_get funcs i;
     if destructor_func e = f then do {
       (funcs, calls) \<leftarrow> finalize_one f (funcs[i := e\<lparr>destructor_func := 0\<rparr>]) i;
       Some (funcs, (destructor_func e, obj_ptr e) # calls)
     } else finalize_one f funcs i
   }"

(* src/kernel/icxxabi.cpp:30-107 __cxa_finalize *)
definition cxa_finalize :: "addr \<Rightarrow> atexit_table \<Rightarrow> (atexit_table \<times> (addr \<times> addr) list) option" where
  "cxa_finalize f s =
     (if f = 0 then map_option (Pair s) (finalize_all (atexit_funcs s) (atexit_func_count s))
      else map_option (\<lambda>(funcs, calls). (s\<lparr>atexit_funcs := funcs\<rparr>, calls))
             (finalize_one f (atexit_funcs s) (atexit_func_count s)))"

section \<open>Guards\<close>

text \<open>On this target the two halves of the guard are separate words.\<close>

(* src/libcxxrt/guard.cpp:93-96 guard_t *)
record guard =
  init_half :: u32
  lock_half :: u32

(* src/libcxxrt/guard.cpp:97-97 LOCKED *)
definition LOCKED :: u32 where
  "LOCKED = push_bit 31 1"

text \<open>
  Where a thread is: outside; before the first test of the guard; before the atomic exchange; after it,
  with the lock; giving the lock back; after a failed exchange; constructing the object; after the guard
  is marked, before the lock is given back; behind the initialisation; and halted by a failed assertion.
\<close>

datatype guard_pc = Test | Exchange | Recheck | Give_Back | Busy | Constructing | Marked | Initialised | Halted

record guard_state =
  the_guard :: guard
  g_pc :: "nat \<Rightarrow> guard_pc"

definition goto :: "nat \<Rightarrow> guard_pc \<Rightarrow> guard_state \<Rightarrow> guard_state" where
  "goto t p s = s\<lparr>g_pc := (g_pc s)(t := p)\<rparr>"

definition set_lock :: "u32 \<Rightarrow> guard_state \<Rightarrow> guard_state" where
  "set_lock v s = s\<lparr>the_guard := (the_guard s)\<lparr>lock_half := v\<rparr>\<rparr>"

definition set_init :: "u32 \<Rightarrow> guard_state \<Rightarrow> guard_state" where
  "set_init v s = s\<lparr>the_guard := (the_guard s)\<lparr>init_half := v\<rparr>\<rparr>"

abbreviation "guard_init s \<equiv> init_half (the_guard s)"
abbreviation "guard_lock s \<equiv> lock_half (the_guard s)"

text \<open>The initialisation of the object either ends, and the guard is released, or throws.\<close>

(* src/libcxxrt/guard.cpp:118-193 __cxa_guard_acquire *)
inductive guard_step :: "guard_state \<Rightarrow> guard_state \<Rightarrow> bool" where
  test_done: "g_pc s t = Test \<Longrightarrow> guard_init s = 1 \<Longrightarrow> guard_step s (goto t Initialised s)"
| test_open: "g_pc s t = Test \<Longrightarrow> guard_init s \<noteq> 1 \<Longrightarrow> guard_step s (goto t Exchange s)"
| exchange_ok: "g_pc s t = Exchange \<Longrightarrow> guard_lock s = 0 \<Longrightarrow> guard_step s (goto t Recheck (set_lock LOCKED s))"
| exchange_busy: "g_pc s t = Exchange \<Longrightarrow> guard_lock s = LOCKED \<Longrightarrow> guard_step s (goto t Busy s)"
| exchange_assert: "g_pc s t = Exchange \<Longrightarrow> guard_lock s \<notin> {0, LOCKED} \<Longrightarrow> guard_step s (goto t Halted s)"
| recheck_open: "g_pc s t = Recheck \<Longrightarrow> guard_init s \<noteq> 1 \<Longrightarrow> guard_step s (goto t Constructing s)"
| recheck_done: "g_pc s t = Recheck \<Longrightarrow> guard_init s = 1 \<Longrightarrow> guard_step s (goto t Give_Back s)"
| give_back: "g_pc s t = Give_Back \<Longrightarrow> guard_step s (goto t Initialised (set_lock 0 s))"
| busy_done: "g_pc s t = Busy \<Longrightarrow> guard_init s = 1 \<Longrightarrow> guard_step s (goto t Initialised s)"
| busy_yield: "g_pc s t = Busy \<Longrightarrow> guard_init s \<noteq> 1 \<Longrightarrow> guard_step s (goto t Exchange s)"
| abort: "g_pc s t = Constructing \<Longrightarrow> guard_lock s = LOCKED \<Longrightarrow> guard_step s (goto t Test (set_lock 0 s))"
| abort_assert: "g_pc s t = Constructing \<Longrightarrow> guard_lock s \<noteq> LOCKED \<Longrightarrow> guard_step s (goto t Halted s)"
| release_mark: "g_pc s t = Constructing \<Longrightarrow> guard_init s = 0 \<Longrightarrow> guard_step s (goto t Marked (set_init 1 s))"
| release_assert: "g_pc s t = Constructing \<Longrightarrow> guard_init s \<noteq> 0 \<Longrightarrow> guard_step s (goto t Halted s)"
| release_unlock: "g_pc s t = Marked \<Longrightarrow> guard_step s (goto t Initialised (set_lock 0 s))"

inductive guard_reaches :: "guard_state \<Rightarrow> guard_state \<Rightarrow> bool" where
  start: "guard_reaches s s"
| continue: "guard_reaches s s' \<Longrightarrow> guard_step s' s'' \<Longrightarrow> guard_reaches s s''"

definition guard_fresh :: guard_state where
  "guard_fresh = \<lparr>the_guard = \<lparr>init_half = 0, lock_half = 0\<rparr>, g_pc = \<lambda>_. Test\<rparr>"

section \<open>The list of destructors\<close>

text \<open>
  Seen from outside, the table is a list of pairs of destructor and object, in the order they were
  registered, and the number of slots used so far, which never gets less.
\<close>

definition live :: "atexit_table \<Rightarrow> (addr \<times> addr) list" where
  "live s = map (\<lambda>e. (destructor_func e, obj_ptr e))
     (filter (\<lambda>e. destructor_func e \<noteq> 0) (take (atexit_func_count s) (atexit_funcs s)))"

definition table_ok :: "atexit_table \<Rightarrow> bool" where
  "table_ok s \<longleftrightarrow> length (atexit_funcs s) = 128 \<and> atexit_func_count s \<le> 128"

datatype cxa_op = Atexit addr addr addr | Finalize addr

text \<open>The calls that are made, one list per operation, and the abstract run.\<close>

fun run_cxa :: "cxa_op list \<Rightarrow> atexit_table \<Rightarrow> (atexit_table \<times> (addr \<times> addr) list list) option" where
  "run_cxa [] s = Some (s, [])"
| "run_cxa (Atexit f p d # ops) s = do {
     (s, r) \<leftarrow> cxa_atexit f p d s;
     (s, calls) \<leftarrow> run_cxa ops s;
     Some (s, [] # calls)
   }"
| "run_cxa (Finalize f # ops) s = do {
     (s, c) \<leftarrow> cxa_finalize f s;
     (s, calls) \<leftarrow> run_cxa ops s;
     Some (s, c # calls)
   }"

fun spec_cxa :: "cxa_op list \<Rightarrow> (addr \<times> addr) list \<Rightarrow> nat \<Rightarrow> (addr \<times> addr) list list" where
  "spec_cxa [] l n = []"
| "spec_cxa (Atexit f p d # ops) l n =
     [] # (if n \<ge> 128 then spec_cxa ops l n else spec_cxa ops (if f = 0 then l else l @ [(f, p)]) (n + 1))"
| "spec_cxa (Finalize f # ops) l n =
     (if f = 0 then rev l # spec_cxa ops l n
      else rev (filter (\<lambda>c. fst c = f) l) # spec_cxa ops (filter (\<lambda>c. fst c \<noteq> f) l) n)"

lemma finalize_all_calls: "n \<le> length funcs \<Longrightarrow> finalize_all funcs n =
    Some (rev (map (\<lambda>e. (destructor_func e, obj_ptr e)) (filter (\<lambda>e. destructor_func e \<noteq> 0) (take n funcs))))"
  by (induction n) (simp_all add: take_Suc_conv_app_nth)

definition clear :: "addr \<Rightarrow> atexit_func_entry \<Rightarrow> atexit_func_entry" where
  "clear f e = (if destructor_func e = f then e\<lparr>destructor_func := 0\<rparr> else e)"

lemma finalize_one_calls: "n \<le> length funcs \<Longrightarrow> finalize_one f funcs n =
    Some (map (clear f) (take n funcs) @ drop n funcs,
      rev (map (\<lambda>e. (destructor_func e, obj_ptr e)) (filter (\<lambda>e. destructor_func e = f) (take n funcs))))"
proof (induction n arbitrary: funcs)
  case (Suc n)
  have u: "take n (funcs[n := x]) = take n funcs" "drop n (funcs[n := x]) = x # drop (Suc n) funcs" for x
    using Suc.prems Cons_nth_drop_Suc [of n "funcs[n := x]"] by simp_all
  have d: "drop n funcs = funcs ! n # drop (Suc n) funcs" using Suc.prems by (simp add: Cons_nth_drop_Suc)
  have t: "take (Suc n) funcs = take n funcs @ [funcs ! n]" using Suc.prems by (simp add: take_Suc_conv_app_nth)
  show ?case
  proof (cases "destructor_func (funcs ! n) = f")
    case True
    then show ?thesis
      using Suc.IH [of "funcs[n := (funcs ! n)\<lparr>destructor_func := 0\<rparr>]"] Suc.prems u by (simp add: t clear_def)
  next
    case False
    then show ?thesis using Suc.IH [of funcs] Suc.prems by (simp add: t d clear_def)
  qed
qed simp

lemma atexit_step:
  assumes ok: "table_ok s"
  shows "\<exists>s'. cxa_atexit f p d s = Some (s', if atexit_func_count s \<ge> 128 then - 1 else 0) \<and> table_ok s'
    \<and> live s' = (if atexit_func_count s \<ge> 128 \<or> f = 0 then live s else live s @ [(f, p)])
    \<and> atexit_func_count s' = min 128 (atexit_func_count s + 1)"
proof (cases "atexit_func_count s \<ge> 128")
  case False
  then show ?thesis
    using ok by (auto simp: cxa_atexit_def table_ok_def live_def take_Suc_conv_app_nth)
qed (use ok in \<open>auto simp: cxa_atexit_def table_ok_def\<close>)

lemma finalize_step:
  assumes ok: "table_ok s"
  shows "\<exists>s'. cxa_finalize f s = Some (s', if f = 0 then rev (live s) else rev (filter (\<lambda>c. fst c = f) (live s)))
    \<and> table_ok s' \<and> live s' = (if f = 0 then live s else filter (\<lambda>c. fst c \<noteq> f) (live s))
    \<and> atexit_func_count s' = atexit_func_count s"
proof (cases "f = 0")
  case True
  then show ?thesis
    using ok finalize_all_calls by (auto simp: cxa_finalize_def table_ok_def live_def)
next
  case False
  let ?n = "atexit_func_count s" and ?fs = "atexit_funcs s"
  let ?new = "map (clear f) (take ?n ?fs) @ drop ?n ?fs"
  have n: "?n \<le> length ?fs" using ok by (simp add: table_ok_def)
  have calls: "filter (\<lambda>e. destructor_func e = f) (take ?n ?fs) =
      filter (\<lambda>e. destructor_func e = f) (filter (\<lambda>e. destructor_func e \<noteq> 0) (take ?n ?fs))"
    using False by (simp add: conj_commute cong: filter_cong) (metis (mono_tags, lifting) False)
  have left: "map (\<lambda>e. (destructor_func e, obj_ptr e)) (filter (\<lambda>e. destructor_func e \<noteq> 0) (map (clear f) es)) =
      filter (\<lambda>c. fst c \<noteq> f) (map (\<lambda>e. (destructor_func e, obj_ptr e)) (filter (\<lambda>e. destructor_func e \<noteq> 0) es))" for es
    using False by (induction es) (auto simp: clear_def)
  have "cxa_finalize f s = Some (s\<lparr>atexit_funcs := ?new\<rparr>, rev (filter (\<lambda>c. fst c = f) (live s)))"
    using False finalize_one_calls [OF n, of f] by (simp add: cxa_finalize_def calls live_def filter_map comp_def)
  moreover have "live (s\<lparr>atexit_funcs := ?new\<rparr>) = filter (\<lambda>c. fst c \<noteq> f) (live s)"
    using n by (simp add: live_def left)
  ultimately show ?thesis using False ok by (simp add: table_ok_def)
qed

text \<open>
  Property C23: Destructors run in the reverse of the order in which they were registered: \<open>__cxa_finalize\<close> of a
  function runs and removes its entries, without a function it runs all that are left and removes none,
  so a second call runs them again. Registration ends with the 128th call, whatever was removed before.
\<close>

theorem cxa_refines:
  assumes "table_ok s"
  shows "\<exists>s'. run_cxa ops s = Some (s', spec_cxa ops (live s) (atexit_func_count s)) \<and> table_ok s'"
  using assms
proof (induction ops arbitrary: s)
  case (Cons op ops)
  show ?case
  proof (cases op)
    case (Atexit f p d)
    obtain s1 where s1: "cxa_atexit f p d s = Some (s1, if atexit_func_count s \<ge> 128 then - 1 else 0)" "table_ok s1"
      "live s1 = (if atexit_func_count s \<ge> 128 \<or> f = 0 then live s else live s @ [(f, p)])"
      "atexit_func_count s1 = min 128 (atexit_func_count s + 1)"
      using atexit_step [OF Cons.prems] by blast
    have "atexit_func_count s1 = (if atexit_func_count s \<ge> 128 then atexit_func_count s else atexit_func_count s + 1)"
      using Cons.prems s1(4) by (simp add: table_ok_def)
    then show ?thesis using Cons.IH [OF s1(2)] s1(1-3) Atexit by (auto split: if_splits)
  next
    case (Finalize f)
    obtain s1 where s1: "cxa_finalize f s = Some (s1, if f = 0 then rev (live s) else rev (filter (\<lambda>c. fst c = f) (live s)))"
      "table_ok s1" "live s1 = (if f = 0 then live s else filter (\<lambda>c. fst c \<noteq> f) (live s))"
      "atexit_func_count s1 = atexit_func_count s"
      using finalize_step [OF Cons.prems] by blast
    then show ?thesis using Cons.IH [OF s1(2)] Finalize by auto
  qed
qed simp

definition empty_table :: atexit_table where
  "empty_table = \<lparr>atexit_funcs = replicate 128 \<lparr>destructor_func = 0, obj_ptr = 0, dso_handle = 0\<rparr>, atexit_func_count = 0\<rparr>"

theorem cxa_refines_witness:
  "\<exists>s'. run_cxa [Atexit 16 1 0, Atexit 32 2 0, Atexit 16 3 0, Finalize 16, Finalize 0, Finalize 0] empty_table =
    Some (s', [[], [], [], [(16, 3), (16, 1)], [(32, 2)], [(32, 2)]])"
proof -
  have "table_ok empty_table" "live empty_table = []" "atexit_func_count empty_table = 0"
    by (simp_all add: empty_table_def table_ok_def live_def)
  then show ?thesis
    using cxa_refines [of empty_table "[Atexit 16 1 0, Atexit 32 2 0, Atexit 16 3 0, Finalize 16, Finalize 0, Finalize 0]"]
    by auto
qed

section \<open>One thread initialises\<close>

fun holding :: "guard_pc \<Rightarrow> bool" where
  "holding Recheck = True"
| "holding Give_Back = True"
| "holding Constructing = True"
| "holding Marked = True"
| "holding _ = False"

definition holders :: "guard_state \<Rightarrow> nat set" where
  "holders s = {t. holding (g_pc s t)}"

definition guard_inv :: "guard_state \<Rightarrow> bool" where
  "guard_inv s \<longleftrightarrow> (guard_lock s = 0 \<and> holders s = {} \<or> guard_lock s = LOCKED \<and> (\<exists>t. holders s = {t}))
     \<and> guard_init s \<in> {0, 1}
     \<and> (\<forall>t. (g_pc s t = Constructing \<longrightarrow> guard_init s = 0) \<and> (g_pc s t \<in> {Marked, Give_Back, Initialised} \<longrightarrow> guard_init s = 1)
          \<and> g_pc s t \<noteq> Halted)"

lemma holders_goto: "holders (goto t p s) =
    (if holding p then insert t (holders s) else holders s - {t})"
  by (auto simp: holders_def goto_def)

lemma holders_set [simp]: "holders (set_lock v s) = holders s" "holders (set_init v s) = holders s"
  by (simp_all add: holders_def set_lock_def set_init_def)

lemma guard_set [simp]: "g_pc (set_lock v s) = g_pc s" "g_pc (set_init v s) = g_pc s"
  "guard_init (set_lock v s) = guard_init s" "guard_init (set_init v s) = v"
  "guard_lock (set_lock v s) = v" "guard_lock (set_init v s) = guard_lock s"
  "guard_init (goto t p s) = guard_init s" "guard_lock (goto t p s) = guard_lock s"
  by (simp_all add: set_lock_def set_init_def goto_def)

lemma goto_pc: "g_pc (goto t p s) u = (if u = t then p else g_pc s u)"
  by (simp add: goto_def)

lemma LOCKED_nonzero [simp]: "LOCKED \<noteq> 0"
  by (simp add: LOCKED_def)

lemma holder_alone: "guard_inv s \<Longrightarrow> t \<in> holders s \<Longrightarrow> holders s = {t} \<and> guard_lock s = LOCKED"
  by (auto simp: guard_inv_def)

lemma inv_goto:
  assumes "guard_inv s" and "holding (g_pc s t) \<longleftrightarrow> holding p" and "p \<noteq> Halted"
    and "p = Constructing \<longrightarrow> guard_init s = 0" and "p \<in> {Marked, Give_Back, Initialised} \<longrightarrow> guard_init s = 1"
  shows "guard_inv (goto t p s)"
proof -
  have "holders (goto t p s) = holders s" using assms(2) by (auto simp: holders_def goto_pc)
  then show ?thesis using assms(1,3-5) by (simp add: guard_inv_def goto_pc)
qed

lemma inv_lock:
  assumes "guard_inv s" and "guard_lock s = 0"
  shows "guard_inv (goto t Recheck (set_lock LOCKED s))"
proof -
  have "holders s = {}" using assms by (auto simp: guard_inv_def)
  then have "holders (goto t Recheck (set_lock LOCKED s)) = {t}" by (simp add: holders_goto)
  then show ?thesis using assms(1) by (simp add: guard_inv_def goto_pc)
qed

lemma inv_unlock:
  assumes "guard_inv s" and "t \<in> holders s" and "p = Test \<or> p = Initialised \<and> guard_init s = 1"
  shows "guard_inv (goto t p (set_lock 0 s))"
proof -
  have "holders (goto t p (set_lock 0 s)) = {}"
    using assms(3) holder_alone [OF assms(1,2)] by (auto simp: holders_goto)
  then show ?thesis using assms(1,3) by (auto simp: guard_inv_def goto_pc)
qed

lemma inv_mark:
  assumes "guard_inv s" and "g_pc s t = Constructing"
  shows "guard_inv (goto t Marked (set_init 1 s))"
proof -
  have t: "t \<in> holders s" using assms(2) by (simp add: holders_def)
  note alone = holder_alone [OF assms(1) t]
  have others: "g_pc s u \<noteq> Constructing" if "u \<noteq> t" for u
  proof
    assume "g_pc s u = Constructing"
    then have "u \<in> holders s" by (simp add: holders_def)
    then show False using alone that by simp
  qed
  have "holders (goto t Marked (set_init 1 s)) = {t}" using alone by (simp add: holders_goto)
  moreover have "g_pc s u \<noteq> Halted" for u using assms(1) by (simp add: guard_inv_def)
  ultimately show ?thesis using alone others by (simp add: guard_inv_def goto_pc)
qed

lemma guard_step_inv:
  assumes inv: "guard_inv s" and step: "guard_step s s'"
  shows "guard_inv s'"
proof -
  have init: "guard_init s \<noteq> 1 \<Longrightarrow> guard_init s = 0" using inv by (auto simp: guard_inv_def)
  have lock: "guard_lock s = 0 \<or> guard_lock s = LOCKED" using inv by (auto simp: guard_inv_def)
  have pcs: "g_pc s t = Constructing \<Longrightarrow> guard_init s = 0 \<and> guard_lock s = LOCKED"
    "g_pc s t = Marked \<or> g_pc s t = Give_Back \<Longrightarrow> guard_init s = 1" for t
    using inv holder_alone [OF inv, of t] by (auto simp: guard_inv_def holders_def)
  show ?thesis
    using step
  proof (cases rule: guard_step.cases)
    case (exchange_ok t)
    then show ?thesis using inv_lock [OF inv] by simp
  next
    case (give_back t)
    then show ?thesis using inv_unlock [OF inv, of t] pcs(2) [of t] by (simp add: holders_def)
  next
    case (abort t)
    then show ?thesis using inv_unlock [OF inv, of t] by (simp add: holders_def)
  next
    case (release_mark t)
    then show ?thesis using inv_mark [OF inv] by simp
  next
    case (release_unlock t)
    then show ?thesis using inv_unlock [OF inv, of t] pcs(2) [of t] by (simp add: holders_def)
  qed (use lock pcs init in \<open>auto intro!: inv_goto [OF inv]\<close>)
qed

lemma guard_reaches_inv: "guard_reaches s s' \<Longrightarrow> guard_inv s \<Longrightarrow> guard_inv s'"
  by (induction rule: guard_reaches.induct) (auto intro: guard_step_inv)

lemma guard_fresh_inv: "guard_inv guard_fresh"
  by (simp add: guard_inv_def guard_fresh_def holders_def)

lemma guard_step_init:
  assumes "guard_step s s'" and "guard_init s = 1"
  shows "guard_init s' = 1"
  using assms(1) by (cases rule: guard_step.cases) (simp_all add: assms(2))

text \<open>
  Property C10: However the threads interleave, at most one of them constructs the object, none does once it is marked
  as initialised, a thread that goes on behind the guard finds it initialised, and no assertion fails.
\<close>

theorem guard_exclusive:
  assumes "guard_reaches guard_fresh s"
  shows "(\<forall>t u. g_pc s t = Constructing \<and> g_pc s u = Constructing \<longrightarrow> t = u)
    \<and> (\<forall>t. g_pc s t = Initialised \<longrightarrow> guard_init s = 1) \<and> (\<forall>t. g_pc s t \<noteq> Halted)
    \<and> (guard_init s = 1 \<longrightarrow> (\<forall>s'. guard_reaches s s' \<longrightarrow> (\<forall>t. g_pc s' t \<noteq> Constructing)))"
proof (intro conjI impI allI)
  note inv = guard_reaches_inv [OF assms guard_fresh_inv]
  show "t = u" if "g_pc s t = Constructing \<and> g_pc s u = Constructing" for t u
    using that holder_alone [OF inv, of t] by (auto simp: holders_def)
  show "guard_init s = 1" if "g_pc s t = Initialised" for t using inv that by (simp add: guard_inv_def)
  show "g_pc s t \<noteq> Halted" for t using inv by (simp add: guard_inv_def)
  show "g_pc s' t \<noteq> Constructing" if init: "guard_init s = 1" and r: "guard_reaches s s'" for s' t
  proof -
    have "guard_init s' = 1" using r init by (induction rule: guard_reaches.induct) (auto dest: guard_step_init)
    moreover have "guard_inv s'" using guard_reaches_inv [OF r inv] .
    ultimately show ?thesis by (auto simp: guard_inv_def)
  qed
qed

text \<open>One thread constructs, and another one waits for it.\<close>

definition guard_sample :: guard_state where
  "guard_sample = \<lparr>the_guard = \<lparr>init_half = 0, lock_half = LOCKED\<rparr>, g_pc = (\<lambda>_. Test)(1 := Constructing, 2 := Busy)\<rparr>"

lemma guard_sample_reached: "guard_reaches guard_fresh guard_sample"
proof -
  let ?s = "\<lambda>l f. \<lparr>the_guard = \<lparr>init_half = 0, lock_half = l\<rparr>, g_pc = f\<rparr>"
  have 1: "guard_step guard_fresh (?s 0 ((\<lambda>_. Test)(1 := Exchange)))"
    using test_open [of guard_fresh 1] by (simp add: guard_fresh_def goto_def)
  have 2: "guard_step (?s 0 ((\<lambda>_. Test)(1 := Exchange))) (?s LOCKED ((\<lambda>_. Test)(1 := Recheck)))"
    using exchange_ok [of "?s 0 ((\<lambda>_. Test)(1 := Exchange))" 1] by (simp add: goto_def set_lock_def)
  have 3: "guard_step (?s LOCKED ((\<lambda>_. Test)(1 := Recheck))) (?s LOCKED ((\<lambda>_. Test)(1 := Constructing)))"
    using recheck_open [of "?s LOCKED ((\<lambda>_. Test)(1 := Recheck))" 1] by (simp add: goto_def)
  have 4: "guard_step (?s LOCKED ((\<lambda>_. Test)(1 := Constructing))) (?s LOCKED ((\<lambda>_. Test)(1 := Constructing, 2 := Exchange)))"
    using test_open [of "?s LOCKED ((\<lambda>_. Test)(1 := Constructing))" 2] by (simp add: goto_def)
  have 5: "guard_step (?s LOCKED ((\<lambda>_. Test)(1 := Constructing, 2 := Exchange))) guard_sample"
    using exchange_busy [of "?s LOCKED ((\<lambda>_. Test)(1 := Constructing, 2 := Exchange))" 2]
    by (simp add: goto_def guard_sample_def)
  show ?thesis
    by (rule continue [OF continue [OF continue [OF continue [OF continue [OF start 1] 2] 3] 4] 5])
qed

theorem guard_exclusive_witness:
  "{u. g_pc guard_sample u = Constructing} = {1} \<and> g_pc guard_sample 2 = Busy"
proof -
  have "g_pc guard_sample 1 = Constructing" "g_pc guard_sample 2 = Busy" by (simp_all add: guard_sample_def)
  then show ?thesis using guard_exclusive [OF guard_sample_reached] by blast
qed

end
