(* ===== verification/Numeric_Conv.thy ===== *)
theory Numeric_Conv
  imports CString
begin

text \<open>
  Numbers and their decimal, hexadecimal and other digits: \<open>ldiv\<close>, \<open>ltoa\<close>, \<open>itoa\<close>, \<open>atoi\<close> and
  \<open>strtol\<close> of \<open>kernel/std/stdlib.cpp\<close>, with the character macros of \<open>std/ctype.hpp\<close>. All five are
  compared with one reference, the digits of a natural number in a base.
  \<open>int\<close> and \<open>long\<close> are 32 bits wide; where the source overflows a signed integer the model wraps.
\<close>

section \<open>Character classes\<close>

text \<open>
  The macros are not parenthesised: each ends in \<open>?TRUE:FALSE\<close>, which an operator after the macro
  call becomes part of. The definitions below are what the calls expand to where they stand alone.
\<close>

(* src/include/std/ctype.hpp:8-8 isspace *)
definition isspace :: "int \<Rightarrow> bool" where
  "isspace c \<longleftrightarrow> 0x9 \<le> c \<and> c \<le> 0x0D \<or> c = 0x20"

(* src/include/std/ctype.hpp:12-12 isdigit *)
definition isdigit :: "int \<Rightarrow> bool" where
  "isdigit c \<longleftrightarrow> 0x30 \<le> c \<and> c \<le> 0x39"

text \<open>\<open>isupper(c) || islower(c)\<close> is \<open>U ? 1 : (0 || L) ? 1 : 0\<close>, which is what it should be.\<close>

(* src/include/std/ctype.hpp:9-11 isalpha *)
definition isalpha :: "int \<Rightarrow> bool" where
  "isalpha c \<longleftrightarrow> (if 0x41 \<le> c \<and> c \<le> 0x5A then True else False \<or> 0x61 \<le> c \<and> c \<le> 0x7A)"

text \<open>
  \<open>isupper(c) ? 'A' - 10 : 'a' - 10\<close> is \<open>U ? 1 : (0 ? 'A' - 10 : 'a' - 10)\<close>: for an upper-case
  letter the value is \<open>TRUE\<close>.
\<close>

(* src/kernel/std/stdlib.cpp:596-601 strtol *)
definition strtol_digit :: "int \<Rightarrow> int option" where
  "strtol_digit c =
     (if isdigit c then Some (c - 48)
      else if isalpha c then Some (c - (if 0x41 \<le> c \<and> c \<le> 0x5A then 1 else 87))
      else None)"

section \<open>The conversions\<close>

text \<open>The quotient and the remainder are stored in signed fields; the division faults on zero.\<close>

(* src/kernel/std/stdlib.cpp:193-223 ldiv *)
definition ldiv :: "u32 \<Rightarrow> u32 \<Rightarrow> (u32 \<times> u32) option" where
  "ldiv numer denom =
     (if denom = 0 then None
      else let quot = numer div denom; rem = numer mod denom
           in Some (if numer \<noteq> 0 \<and> sint rem < 0 then (quot + 1, rem - denom) else (quot, rem)))"

(* src/kernel/std/stdlib.cpp:253-254 ltoa *)
definition ltoa_digit :: "u32 \<Rightarrow> u8" where
  "ltoa_digit rem = ucast (rem + (if 9 < sint rem then 65 - 10 else 48))"

text \<open>
  \<open>tail\<close> moves down through \<open>buf\<close>, which has room for 64 characters before its terminator; the
  argument of \<open>ldiv\<close> is an \<open>unsigned long\<close>, so only the low 32 bits of \<open>uarg\<close> reach it.
\<close>

(* src/kernel/std/stdlib.cpp:248-256 ltoa *)
fun ltoa_loop :: "nat \<Rightarrow> u64 \<Rightarrow> u32 \<Rightarrow> u8 list \<Rightarrow> u8 list option" where
  "ltoa_loop room uarg base tail =
     (if uarg = 0 then Some tail
      else case room of
        0 \<Rightarrow> None
      | Suc room \<Rightarrow> do {
          (quot, rem) \<leftarrow> ldiv (ucast uarg) base;
          ltoa_loop room (scast quot) base (ltoa_digit rem # tail)
        })"

text \<open>The result is what is stored from \<open>str\<close> on.\<close>

(* src/kernel/std/stdlib.cpp:228-262 ltoa *)
definition ltoa :: "u64 \<Rightarrow> int \<Rightarrow> u8 list option" where
  "ltoa N base =
     (let base = (if 36 < base \<or> 2 > base then 10 else base);
          (head, uarg) = (if base = 10 then ([45], - N) else ([], N))
      in if uarg \<noteq> 0
         then map_option (\<lambda>tail. head @ tail @ [0]) (ltoa_loop 64 uarg (word_of_int base) [])
         else Some (head @ [48, 0]))"

(* src/kernel/std/stdlib.cpp:280-283 itoa *)
definition itoa_digit :: "u32 \<Rightarrow> u8" where
  "itoa_digit i = ucast (if sint i < 10 then i + 48 else i + 97 - 10)"

text \<open>\<open>tmp\<close> has room for 16 characters; the last one stored is the first of the list.\<close>

(* src/kernel/std/stdlib.cpp:276-284 itoa *)
fun itoa_loop :: "nat \<Rightarrow> u32 \<Rightarrow> u32 \<Rightarrow> u8 list \<Rightarrow> u8 list option" where
  "itoa_loop room v radix tmp =
     (if v \<noteq> 0 \<or> tmp = [] then
        (case room of
           0 \<Rightarrow> None
         | Suc room \<Rightarrow>
             if radix = 0 then None
             else itoa_loop room (v div radix) radix (itoa_digit (v mod radix) # tmp))
      else Some tmp)"

text \<open>What is stored from \<open>sp\<close> on, and the returned length.\<close>

(* src/kernel/std/stdlib.cpp:264-300 itoa *)
definition itoa :: "u32 \<Rightarrow> int \<Rightarrow> (u8 list \<times> nat) option" where
  "itoa value radix =
     (let sign = (radix = 10 \<and> sint value < 0);
          v = (if sign then - value else value)
      in map_option
           (\<lambda>tmp. ((if sign then [45] else []) @ tmp @ [0], length tmp + (if sign then 1 else 0)))
           (itoa_loop 16 v (word_of_int radix) []))"

(* src/kernel/std/stdlib.cpp:309-322 atoi *)
definition atoi :: "cbuf \<Rightarrow> u32 option" where
  "atoi str = do {
     c \<leftarrow> arr_get str 0;
     let multiplier = (if c = 45 then -1 else 1);
     n \<leftarrow> strlen str;
     Some (foldl (\<lambda>returnVal c. returnVal * 10 + scast c - 48) 0 (take n str) * multiplier)
   }"

(* src/kernel/std/stdlib.cpp:558-560 strtol *)
fun skip_space :: "cbuf \<Rightarrow> nat \<Rightarrow> (int \<times> cbuf \<times> nat) option" where
  "skip_space [] pos = None"
| "skip_space (c # s) pos =
     (if isspace (sint c) then skip_space s (pos + 1) else Some (sint c, s, pos + 1))"

text \<open>The character \<open>c = *s++\<close>, with \<open>pos\<close> the offset of \<open>s\<close> from \<open>nptr\<close>.\<close>

definition next_char :: "cbuf \<Rightarrow> nat \<Rightarrow> (int \<times> cbuf \<times> nat) option" where
  "next_char s pos = (case s of [] \<Rightarrow> None | c # s \<Rightarrow> Some (sint c, s, pos + 1))"

(* src/kernel/std/stdlib.cpp:595-611 strtol *)
fun strtol_loop :: "int \<Rightarrow> u32 \<Rightarrow> int \<Rightarrow> int \<Rightarrow> cbuf \<Rightarrow> nat \<Rightarrow> u32 \<Rightarrow> int \<Rightarrow> (u32 \<times> int \<times> nat) option" where
  "strtol_loop base cutoff cutlim c s pos acc any =
     (case strtol_digit c of
        None \<Rightarrow> Some (acc, any, pos)
      | Some c \<Rightarrow>
          if c \<ge> base then Some (acc, any, pos)
          else
            let (acc, any) =
              (if any < 0 \<or> acc > cutoff \<or> (acc = cutoff \<and> c > cutlim) then (acc, -1)
               else (acc * word_of_int base + word_of_int c, 1))
            in (case s of
                  [] \<Rightarrow> None
                | x # s \<Rightarrow> strtol_loop base cutoff cutlim (sint x) s (pos + 1) acc any))"

(* src/kernel/std/stdlib.cpp:561-565 strtol *)
definition strtol_sign :: "int \<Rightarrow> cbuf \<Rightarrow> nat \<Rightarrow> (bool \<times> int \<times> cbuf \<times> nat) option" where
  "strtol_sign c s pos =
     (if c = 45 then map_option (Pair True) (next_char s pos)
      else if c = 43 then map_option (Pair False) (next_char s pos)
      else Some (False, c, s, pos))"

(* src/kernel/std/stdlib.cpp:566-573 strtol *)
definition strtol_base :: "int \<Rightarrow> int \<Rightarrow> cbuf \<Rightarrow> nat \<Rightarrow> (int \<times> int \<times> cbuf \<times> nat) option" where
  "strtol_base base c s pos = do {
     (base, c, s, pos) \<leftarrow>
       (if (base = 0 \<or> base = 16) \<and> c = 48 then do {
          x \<leftarrow> arr_get s 0;
          if x = 120 \<or> x = 88 then do {
            c \<leftarrow> arr_get s 1;
            Some (16, sint c, drop 2 s, pos + 2)
          } else Some (base, c, s, pos)
        } else Some (base, c, s, pos));
     Some (if base = 0 then (if c = 48 then 8 else 10) else base, c, s, pos)
   }"

text \<open>The returned \<open>long\<close> and the offset stored through \<open>endptr\<close>.\<close>

(* src/kernel/std/stdlib.cpp:544-620 strtol *)
definition strtol :: "cbuf \<Rightarrow> int \<Rightarrow> (u32 \<times> nat) option" where
  "strtol nptr base = do {
     (c, s, pos) \<leftarrow> skip_space nptr 0;
     (neg, c, s, pos) \<leftarrow> strtol_sign c s pos;
     (base, c, s, pos) \<leftarrow> strtol_base base c s pos;
     let limit = (if neg then 0x80000000 else 0x7FFFFFFF :: u32);
     let cutlim = uint (limit mod word_of_int base);
     let cutoff = limit div word_of_int base;
     (acc, any, pos) \<leftarrow> strtol_loop base cutoff cutlim c s pos 0 0;
     let acc = (if any < 0 then (if neg then 0x80000000 else 0x7FFFFFFF) else if neg then - acc else acc);
     Some (acc, if any \<noteq> 0 then pos - 1 else 0)
   }"

section \<open>The digits of a number\<close>

text \<open>The reference: the digits in base \<open>b\<close>, most significant first, and the number they denote.\<close>

function to_digits :: "nat \<Rightarrow> nat \<Rightarrow> nat list" where
  "to_digits b n = (if b < 2 \<or> n < b then [n] else to_digits b (n div b) @ [n mod b])"
  by pat_completeness auto
termination
  by (relation "measure snd") auto

declare to_digits.simps [simp del]

definition digits_value :: "nat \<Rightarrow> nat list \<Rightarrow> nat" where
  "digits_value b ds = foldl (\<lambda>v d. v * b + d) 0 ds"

lemma digits_value_simps [simp]:
  "digits_value b [] = 0"
  "digits_value b (ds @ [d]) = digits_value b ds * b + d"
  by (simp_all add: digits_value_def)

lemma to_digits_value: "digits_value b (to_digits b n) = n"
proof (induction b n rule: to_digits.induct)
  case (1 b n)
  then show ?case
    by (subst to_digits.simps) (auto simp: digits_value_def [of b "[n]"])
qed

lemma to_digits_less: "2 \<le> b \<Longrightarrow> d \<in> set (to_digits b n) \<Longrightarrow> d < b"
proof (induction b n rule: to_digits.induct)
  case (1 b n)
  then show ?case by (subst (asm) to_digits.simps) (auto split: if_splits)
qed

lemma to_digits_length: "2 \<le> b \<Longrightarrow> n < b ^ Suc k \<Longrightarrow> length (to_digits b n) \<le> Suc k"
proof (induction k arbitrary: n)
  case 0
  then show ?case by (subst to_digits.simps) simp
next
  case (Suc k)
  have "n div b < b ^ Suc k"
    using Suc.prems by (intro less_mult_imp_div_less) (simp add: mult.commute)
  then show ?case using Suc.IH [of "n div b"] Suc.prems by (subst to_digits.simps) auto
qed

lemma to_digits_nonempty [simp]: "to_digits b n \<noteq> []"
  by (subst to_digits.simps) simp

lemma to_digits_hd: "2 \<le> b \<Longrightarrow> hd (to_digits b n) = 0 \<Longrightarrow> n = 0"
proof (induction b n rule: to_digits.induct)
  case (1 b n)
  show ?case
  proof (cases "n < b")
    case True
    then show ?thesis using 1 by (subst (asm) to_digits.simps) simp
  next
    case False
    then have "hd (to_digits b (n div b)) = 0" using 1 by (subst (asm) (2) to_digits.simps) simp
    then show ?thesis using 1 False by (simp add: div_eq_0_iff)
  qed
qed

definition upper_digit :: "nat \<Rightarrow> u8" where
  "upper_digit d = of_nat (if 9 < d then d + 55 else d + 48)"

definition lower_digit :: "nat \<Rightarrow> u8" where
  "lower_digit d = of_nat (if d < 10 then d + 48 else d + 87)"

section \<open>\<open>ltoa\<close>\<close>

declare ltoa_loop.simps [simp del] itoa_loop.simps [simp del] strtol_loop.simps [simp del]

lemma ldiv_small:
  assumes "2 \<le> b" and "b \<le> 36"
  shows "ldiv w (of_nat b) = Some (w div of_nat b, w mod of_nat b)"
    and "unat (w div of_nat b :: u32) = unat w div b" and "unat (w mod of_nat b :: u32) = unat w mod b"
    and "unat (w div of_nat b) < 2147483648"
proof -
  have b: "unat (of_nat b :: u32) = b" using assms by (simp add: unat_of_nat)
  show q: "unat (w div of_nat b :: u32) = unat w div b" and r: "unat (w mod of_nat b :: u32) = unat w mod b"
    by (simp_all only: unat_div_distrib unat_mod_distrib b)
  have "unat w mod b < b" using assms by (intro mod_less_divisor) simp
  then have "unat (w mod of_nat b) < 2147483648" using r assms by linarith
  then have "\<not> sint (w mod of_nat b) < 0" by (rule sint_small_less)
  moreover have "(of_nat b :: u32) \<noteq> 0" using b assms by auto
  ultimately show "ldiv w (of_nat b) = Some (w div of_nat b, w mod of_nat b)"
    by (simp add: ldiv_def Let_def)
  have "unat w div b \<le> unat w div 2" using assms by (intro div_le_mono2) simp_all
  then show "unat (w div of_nat b) < 2147483648"
    using q unat_u32_less [of w] by linarith
qed

lemma ucast_add_nat:
  assumes "unat (r :: u32) + c < 4294967296"
  shows "ucast (r + of_nat c) = (of_nat (unat r + c) :: u8)"
proof -
  have "unat (r + of_nat c) = unat r + c" using assms by (simp add: unat_word_ariths unat_of_nat)
  then show ?thesis by (simp only: ucast_of_unat)
qed

lemma ltoa_digit_upper: "unat r < 36 \<Longrightarrow> ltoa_digit r = upper_digit (unat r)"
  using ucast_add_nat [of r 55] ucast_add_nat [of r 48]
  by (simp add: ltoa_digit_def upper_digit_def sint_small_less)

lemma itoa_digit_lower: "unat r < 36 \<Longrightarrow> itoa_digit r = lower_digit (unat r)"
  using ucast_add_nat [of r 87] ucast_add_nat [of r 48]
  by (simp add: itoa_digit_def lower_digit_def sint_small_less add.commute)

lemma ltoa_loop_digits:
  assumes b: "2 \<le> b" "b \<le> 36" and "uarg \<noteq> 0"
    and "length (to_digits b (unat (ucast uarg :: u32))) \<le> room"
  shows "ltoa_loop room uarg (of_nat b) tail
    = Some (map upper_digit (to_digits b (unat (ucast uarg :: u32))) @ tail)"
  using assms(3,4)
proof (induction room arbitrary: uarg tail)
  case 0
  then show ?case by simp
next
  case (Suc room)
  define m where "m = unat (ucast uarg :: u32)"
  let ?w = "ucast uarg :: u32"
  note div = ldiv_small [OF b, of ?w]
  have "unat ?w mod b < 36" using b mod_less_divisor [of b "unat ?w"] by linarith
  then have dig: "ltoa_digit (?w mod of_nat b) = upper_digit (m mod b)"
    using div(3) by (subst ltoa_digit_upper) (simp_all add: m_def)
  have next_arg: "(scast (?w div of_nat b) :: u64) = of_nat (m div b)" and small: "m div b < 2147483648"
    using div(2,4) by (simp_all add: scast_small m_def)
  have step: "ltoa_loop (Suc room) uarg (of_nat b) tail
      = ltoa_loop room (of_nat (m div b)) (of_nat b) (upper_digit (m mod b) # tail)"
    using Suc.prems(1) div(1) dig next_arg by (subst ltoa_loop.simps) simp
  show ?case
  proof (cases "m < b")
    case True
    then show ?thesis
      unfolding step m_def [symmetric] by (subst ltoa_loop.simps, subst to_digits.simps) simp
  next
    case False
    then have ne: "m div b \<noteq> 0" using b by (simp add: div_eq_0_iff)
    have arg: "unat (ucast (of_nat (m div b) :: u64) :: u32) = m div b"
      using small by (simp add: unsigned_ucast_eq unat_of_nat take_bit_eq_mod)
    then have "(of_nat (m div b) :: u64) \<noteq> 0" using ne by (metis unsigned_0)
    moreover have "to_digits b m = to_digits b (m div b) @ [m mod b]"
      using False b by (subst to_digits.simps) simp
    ultimately show ?thesis
      using Suc.IH [of "of_nat (m div b)"] Suc.prems(2) unfolding step arg m_def [symmetric] by simp
  qed
qed

lemma to_digits_u32_length:
  assumes "2 \<le> b" and "n < 4294967296"
  shows "length (to_digits b n) \<le> 32"
proof -
  have "n < 2 ^ Suc 31" using assms(2) by simp
  also have "\<dots> \<le> b ^ Suc 31" using assms(1) by (rule power_mono) simp
  finally show ?thesis using to_digits_length [OF assms(1), of n 31] by simp
qed

lemma ltoa_digits:
  assumes b: "2 \<le> b" "b \<le> 36"
  shows "(if uarg \<noteq> 0 then map_option (\<lambda>tail. head @ tail @ [0]) (ltoa_loop 64 uarg (of_nat b) [])
      else Some (head @ [48, 0]))
    = Some (head @ map upper_digit (to_digits b (unat (ucast uarg :: u32))) @ [0])"
proof (cases "uarg = 0")
  case True
  have "to_digits b 0 = [0]" using b by (subst to_digits.simps) simp
  then show ?thesis using True by (simp add: upper_digit_def)
next
  case False
  then show ?thesis
    using ltoa_loop_digits [OF b False, of 64 "[]"] to_digits_u32_length [OF b(1) unat_u32_less, of "ucast uarg"]
    by simp
qed

lemma ltoa_value:
  "ltoa N base = Some
    (if 2 \<le> base \<and> base \<le> 36 \<and> base \<noteq> 10
     then map upper_digit (to_digits (nat base) (unat (ucast N :: u32))) @ [0]
     else 45 # map upper_digit (to_digits 10 (unat (ucast (- N) :: u32))) @ [0])"
proof (cases "2 \<le> base \<and> base \<le> 36 \<and> base \<noteq> 10")
  case True
  then obtain b where base: "base = int b" "2 \<le> b" "b \<le> 36" by (cases base rule: int_cases2) auto
  have "ltoa N base = (if N \<noteq> 0 then map_option (\<lambda>tail. [] @ tail @ [0]) (ltoa_loop 64 N (of_nat b) [])
      else Some ([] @ [48, 0]))"
    using True by (simp add: ltoa_def Let_def base(1))
  then show ?thesis using True unfolding ltoa_digits [OF base(2,3)] by (simp add: base(1))
next
  case False
  then have ten: "(if 36 < base \<or> 2 > base then 10 else base) = 10" by auto
  have "ltoa N base = (if - N \<noteq> 0
      then map_option (\<lambda>tail. [45] @ tail @ [0]) (ltoa_loop 64 (- N) (of_nat 10) []) else Some ([45] @ [48, 0]))"
    unfolding ltoa_def ten Let_def by simp
  also have "\<dots> = Some ([45] @ map upper_digit (to_digits 10 (unat (ucast (- N) :: u32))) @ [0])"
    by (rule ltoa_digits) simp_all
  finally show ?thesis unfolding if_not_P [OF False] by simp
qed

text \<open>
  for every base from 2 to 36 other than 10, \<open>ltoa\<close> stores the digits, most significant
  first and without leading zeros, of its argument, followed by the terminator. Only the low 32 bits
  of the 64-bit argument count. In base 10, and in any base that is not allowed, it always stores a
  minus sign and the digits of the negated argument: ten is printed as -4294967286.
\<close>

theorem ltoa_correct:
  "ltoa N base = Some
    (if 2 \<le> base \<and> base \<le> 36 \<and> base \<noteq> 10
     then map upper_digit (to_digits (nat base) (unat (ucast N :: u32))) @ [0]
     else 45 # map upper_digit (to_digits 10 (unat (ucast (- N) :: u32))) @ [0])"
  by (rule ltoa_value)

lemma ltoa_ten: "ltoa 10 10 = Some [45, 52, 50, 57, 52, 57, 54, 55, 50, 56, 54, 0]"
  by code_simp

section \<open>\<open>itoa\<close>\<close>

lemma unat_radix: "2 \<le> b \<Longrightarrow> b \<le> 36 \<Longrightarrow> unat (of_nat b :: u32) = b"
  by (simp add: unat_of_nat)

lemma itoa_loop_digits:
  assumes b: "2 \<le> b" "b \<le> 36" and "v \<noteq> 0 \<or> tmp = []"
  shows "itoa_loop room v (of_nat b) tmp =
    (if length (to_digits b (unat v)) \<le> room then Some (map lower_digit (to_digits b (unat v)) @ tmp) else None)"
  using assms(3)
proof (induction room arbitrary: v tmp)
  case 0
  then show ?case by (subst itoa_loop.simps) (auto split: if_splits)
next
  case (Suc room)
  have b0: "(of_nat b :: u32) \<noteq> 0" using unat_radix [OF b] b by auto
  have r: "unat (v mod of_nat b) = unat v mod b" and q: "unat (v div of_nat b) = unat v div b"
    by (simp_all only: unat_div_distrib unat_mod_distrib unat_radix [OF b])
  have "unat v mod b < 36" using b mod_less_divisor [of b "unat v"] by linarith
  then have dig: "itoa_digit (v mod of_nat b) = lower_digit (unat v mod b)"
    using r by (subst itoa_digit_lower) simp_all
  have step: "itoa_loop (Suc room) v (of_nat b) tmp
      = itoa_loop room (v div of_nat b) (of_nat b) (lower_digit (unat v mod b) # tmp)"
    using Suc.prems b0 by (subst itoa_loop.simps) (auto simp: dig)
  show ?case
  proof (cases "unat v < b")
    case True
    then have "v div of_nat b = 0" using q by (intro unat_eqI) simp
    then show ?thesis
      using True unfolding step by (subst itoa_loop.simps, subst (1 2) to_digits.simps) simp
  next
    case False
    then have "v div of_nat b \<noteq> 0" using q b by (auto simp: div_eq_0_iff)
    moreover have "to_digits b (unat v) = to_digits b (unat v div b) @ [unat v mod b]"
      using False b by (subst to_digits.simps) simp
    ultimately show ?thesis using Suc.IH [of "v div of_nat b"] unfolding step q by simp
  qed
qed

lemma itoa_value:
  assumes "2 \<le> radix" and "radix \<le> 36"
  shows "itoa value radix =
    (let minus = radix = 10 \<and> sint value < 0;
         ds = to_digits (nat radix) (unat (if minus then - value else value));
         out = (if minus then [45] else []) @ map lower_digit ds
     in if length ds \<le> 16 then Some (out @ [0], length out) else None)"
proof -
  obtain b where radix: "radix = int b" "2 \<le> b" "b \<le> 36"
    using assms by (cases radix rule: int_cases2) auto
  note loop = itoa_loop_digits [OF radix(2,3), of "if radix = 10 \<and> sint value < 0 then - value else value" "[]" 16]
  show ?thesis
    using loop unfolding itoa_def Let_def radix(1) by (auto split: if_splits)
qed

text \<open>
  Property C36: \<open>itoa\<close> in a radix from 2 to 36 stores the digits of its argument, after a minus sign
  when the radix is 10 and the argument is negative, then the terminator, and returns how many
  characters precede it. It works in an array of 16 characters, which is too small exactly when there
  are more than 16 digits (as for large arguments in radix 2 and 3).
\<close>

theorem itoa_correct:
  assumes "2 \<le> radix" and "radix \<le> 36"
  shows "itoa value radix =
    (let minus = radix = 10 \<and> sint value < 0;
         ds = to_digits (nat radix) (unat (if minus then - value else value));
         out = (if minus then [45] else []) @ map lower_digit ds
     in if length ds \<le> 16 then Some (out @ [0], length out) else None)"
  using assms by (rule itoa_value)

theorem itoa_correct_witness:
  "itoa (- 305) 10 = Some ([45, 51, 48, 53, 0], 4)"
proof -
  have d: "to_digits 10 305 = [3, 0, 5]" by (simp add: to_digits.simps)
  show ?thesis using itoa_correct [of 10 "- 305"] by (simp add: Let_def d lower_digit_def)
qed

lemma decimal_length:
  assumes "n < 4294967296"
  shows "length (to_digits 10 n) \<le> 10"
proof -
  have "n < 10 ^ Suc 9" using assms by simp
  then show ?thesis using to_digits_length [of 10 n 9] by simp
qed

text \<open>In decimal the array is large enough for every argument.\<close>

lemma itoa_decimal:
  "itoa value 10 = Some
     ((if sint value < 0 then 45 # map lower_digit (to_digits 10 (unat (- value)))
       else map lower_digit (to_digits 10 (unat value))) @ [0],
      (if sint value < 0 then Suc (length (to_digits 10 (unat (- value))))
       else length (to_digits 10 (unat value))))"
  using decimal_length [OF unat_u32_less, of "value"] decimal_length [OF unat_u32_less, of "- value"]
  by (simp add: itoa_value Let_def)

section \<open>\<open>atoi\<close>\<close>

text \<open>The characters of decimal digits.\<close>

lemma decimal_char:
  assumes "d < 10"
  shows "scast (lower_digit d) = (of_nat d + 48 :: u32)" and "lower_digit d \<noteq> 0" and "lower_digit d \<noteq> 45"
proof -
  have u: "unat (lower_digit d) = d + 48"
    using assms by (simp add: lower_digit_def unat_of_nat del: of_nat_add)
  then show "lower_digit d \<noteq> 0" "lower_digit d \<noteq> 45" using assms by auto
  have "uint (lower_digit d) = int (unat (lower_digit d))" by simp
  then have "uint (lower_digit d) = int (d + 48)" unfolding u .
  then have "sint (lower_digit d) = int (d + 48)" using assms unfolding sint_u8 by simp
  then have "(scast (lower_digit d) :: u32) = of_int (int (d + 48))" by (simp only: scast_eq)
  then show "scast (lower_digit d) = (of_nat d + 48 :: u32)" by simp
qed

lemma decimal_cstr: "\<forall>d\<in>set ds. d < 10 \<Longrightarrow> 0 \<notin> set (map lower_digit ds)"
  using decimal_char(2) by fastforce

lemma atoi_fold:
  assumes "\<forall>d\<in>set ds. d < 10"
  shows "foldl (\<lambda>v c. v * 10 + scast c - 48) (w :: u32) (map lower_digit ds)
    = w * 10 ^ length ds + of_nat (digits_value 10 ds)"
  using assms
proof (induction ds rule: rev_induct)
  case (snoc d ds)
  then show ?case by (simp add: decimal_char algebra_simps)
qed simp

lemma atoi_digits:
  assumes "\<forall>d\<in>set ds. d < 10"
  shows "atoi (map lower_digit ds @ 0 # r) = Some (of_nat (digits_value 10 ds))"
proof -
  have len: "strlen (map lower_digit ds @ 0 # r) = Some (length ds)"
    using strlen_cstr [OF decimal_cstr [OF assms], of r] by (simp add: cstr_def)
  have "(map lower_digit ds @ 0 # r) ! 0 \<noteq> 45"
    using assms decimal_char(3) by (cases ds) auto
  then show ?thesis using len atoi_fold [OF assms, of 0] by (simp add: atoi_def)
qed

text \<open>
  \<open>atoi\<close> undoes \<open>itoa\<close> on every number that is not negative: what \<open>itoa\<close> prints in
  decimal is read back as the number that was printed.
\<close>

theorem atoi_itoa:
  assumes "0 \<le> sint n"
  shows "\<exists>out len. itoa n 10 = Some (out, len) \<and> atoi (out @ r) = Some n"
proof -
  have "\<forall>d\<in>set (to_digits 10 (unat n)). d < 10" using to_digits_less [of 10] by simp
  from atoi_digits [OF this, of r] show ?thesis
    using assms by (simp add: itoa_decimal to_digits_value)
qed

theorem atoi_itoa_witness:
  "\<exists>out len. itoa 2147483647 10 = Some (out, len) \<and> atoi (out @ []) = Some 2147483647"
  by (rule atoi_itoa) simp

text \<open>
  on a minus sign followed by \<open>k\<close> digits \<open>atoi\<close> answers 3 * 10^k minus their number
  instead of the negated number: the loop takes the sign for a digit.
\<close>

theorem atoi_minus:
  assumes "\<forall>d\<in>set ds. d < 10"
  shows "atoi (45 # map lower_digit ds @ 0 # r) = Some (3 * 10 ^ length ds - of_nat (digits_value 10 ds))"
proof -
  have "0 \<notin> set (45 # map lower_digit ds)" using decimal_cstr [OF assms] by simp
  then have len: "strlen (45 # map lower_digit ds @ 0 # r) = Some (Suc (length ds))"
    using strlen_cstr [of "45 # map lower_digit ds" r] by (simp add: cstr_def)
  have "scast (45 :: u8) - (48 :: u32) = - 3" by simp
  then have "foldl (\<lambda>v c. v * 10 + scast c - 48) (0 :: u32) (45 # map lower_digit ds)
      = - 3 * 10 ^ length ds + of_nat (digits_value 10 ds)"
    using atoi_fold [OF assms, of "- 3"] by simp
  then show ?thesis using len by (simp add: atoi_def)
qed

theorem atoi_minus_witness:
  "atoi [45, 53, 0] = Some 25"
  using atoi_minus [of "[5]" "[]"] by (simp add: lower_digit_def digits_value_def)

section \<open>\<open>strtol\<close>\<close>

lemma digit_char:
  assumes "d < 36"
  shows "sint (lower_digit d) = int (if d < 10 then d + 48 else d + 87)"
proof -
  have "unat (lower_digit d) = (if d < 10 then d + 48 else d + 87)"
    using assms by (simp add: lower_digit_def unat_of_nat del: of_nat_add)
  moreover have "uint (lower_digit d) = int (unat (lower_digit d))" by simp
  ultimately have "uint (lower_digit d) = int (if d < 10 then d + 48 else d + 87)" by metis
  then show ?thesis using assms unfolding sint_u8 by simp
qed

lemma strtol_digit_char: "d < 36 \<Longrightarrow> strtol_digit (sint (lower_digit d)) = Some (int d)"
  by (simp add: digit_char strtol_digit_def isdigit_def isalpha_def)

lemma fits_iff:
  assumes "d < b"
  shows "W * b + d \<le> L \<longleftrightarrow> W < L div b \<or> W = L div b \<and> d \<le> L mod (b :: nat)"
proof -
  have L: "L = L div b * b + L mod b" by simp
  have m: "L mod b < b" using assms by (intro mod_less_divisor) simp
  consider "W < L div b" | "W = L div b" | "L div b < W" by linarith
  then show ?thesis
  proof cases
    case 1
    then have "(W + 1) * b \<le> L div b * b" by (intro mult_le_mono1) simp
    moreover have "(W + 1) * b = W * b + b" by simp
    ultimately have "W * b + d \<le> L" using L assms by linarith
    then show ?thesis using 1 by simp
  next
    case 2
    moreover have "L div b * b + d \<le> L \<longleftrightarrow> d \<le> L mod b" using L by linarith
    ultimately show ?thesis by simp
  next
    case 3
    then have "(L div b + 1) * b \<le> W * b" by (intro mult_le_mono1) simp
    moreover have "(L div b + 1) * b = L div b * b + b" by simp
    ultimately have "\<not> W * b + d \<le> L" using L m by linarith
    then show ?thesis using 3 by simp
  qed
qed

text \<open>What the loop has read so far, \<open>W\<close>, against the largest number it may return, \<open>L\<close>.\<close>

definition read_so_far :: "u32 \<Rightarrow> int \<Rightarrow> nat \<Rightarrow> nat \<Rightarrow> bool" where
  "read_so_far acc any W L \<longleftrightarrow> any < 0 \<and> L < W \<or> 0 \<le> any \<and> W \<le> L \<and> acc = of_nat W"

lemma read_step:
  assumes read: "read_so_far acc any W L" and d: "d < b" and L: "L < 4294967296"
    and upd: "(acc', any') = (if any < 0 \<or> acc > of_nat (L div b) \<or> (acc = of_nat (L div b) \<and> int d > int (L mod b))
        then (acc, -1) else (acc * of_nat b + of_nat d, 1 :: int))"
  shows "read_so_far acc' any' (W * b + d) L" and "any' \<noteq> 0"
proof -
  show "any' \<noteq> 0" using upd by (auto split: if_splits)
  have q: "unat (of_nat (L div b) :: u32) = L div b"
    using L div_le_dividend [of L b] by (simp add: unat_of_nat del: div_le_dividend)
  show "read_so_far acc' any' (W * b + d) L"
  proof (cases "any < 0")
    case True
    then have "L < W" using read by (auto simp: read_so_far_def)
    moreover have "W \<le> W * b" using d by (cases b) simp_all
    ultimately have "L < W * b + d" by linarith
    then show ?thesis using upd True by (simp add: read_so_far_def)
  next
    case False
    then have W: "W \<le> L" "acc = of_nat W" using read by (auto simp: read_so_far_def)
    then have "unat acc = W" using L by (simp add: unat_of_nat)
    then have gt: "acc > of_nat (L div b) \<longleftrightarrow> L div b < W" and eq: "acc = of_nat (L div b) \<longleftrightarrow> W = L div b"
      using q by (simp_all only: word_less_nat_alt word_unat_eq_iff)
    show ?thesis
    proof (cases "W * b + d \<le> L")
      case True
      then show ?thesis
        using upd False W gt eq fits_iff [OF d, of W L] by (auto simp: read_so_far_def)
    next
      case nofit: False
      then show ?thesis
        using upd False gt eq fits_iff [OF d, of W L] by (auto simp: read_so_far_def)
    qed
  qed
qed

lemma strtol_loop_reads:
  assumes b: "2 \<le> b" "b \<le> 36" and L: "L < 4294967296" and stop: "strtol_digit (sint x) = None"
    and ds: "\<forall>d\<in>set ds. d < b" and str: "map lower_digit ds @ x # r = c # s"
    and read: "read_so_far acc any W L"
  shows "\<exists>acc' any'. strtol_loop (int b) (of_nat (L div b)) (int (L mod b)) (sint c) s pos acc any
      = Some (acc', any', pos + length ds)
    \<and> read_so_far acc' any' (foldl (\<lambda>v d. v * b + d) W ds) L \<and> (any' = 0 \<longleftrightarrow> any = 0 \<and> ds = [])"
  using ds str read
proof (induction ds arbitrary: c s acc any W pos)
  case Nil
  then show ?case using stop by (subst strtol_loop.simps) auto
next
  case (Cons d ds)
  have c: "c = lower_digit d" and s: "s = map lower_digit ds @ x # r" using Cons.prems(2) by auto
  have d: "d < b" "d < 36" using Cons.prems(1) b by auto
  obtain c' s' where s': "s = c' # s'" using s by (cases ds) auto
  obtain acc1 any1 where upd: "(acc1, any1) = (if any < 0 \<or> acc > of_nat (L div b)
        \<or> (acc = of_nat (L div b) \<and> int d > int (L mod b))
        then (acc, -1) else (acc * of_nat b + of_nat d, 1 :: int))" by (metis surj_pair)
  note step = read_step [OF Cons.prems(3) d(1) L upd]
  have "strtol_loop (int b) (of_nat (L div b)) (int (L mod b)) (sint c) s pos acc any
      = strtol_loop (int b) (of_nat (L div b)) (int (L mod b)) (sint c') s' (pos + 1) acc1 any1"
    using d upd [symmetric] unfolding c s'
    by (subst strtol_loop.simps)
      (simp only: strtol_digit_char option.case list.case Let_def of_nat_eq_iff, auto split: if_splits)
  then show ?case
    using Cons.IH [of c' s' acc1 any1 "W * b + d" "pos + 1"] Cons.prems(1) step s s' by simp
qed

lemma strtol_digit_isspace: "d < 36 \<Longrightarrow> \<not> isspace (sint (lower_digit d))"
  by (simp add: digit_char isspace_def)

lemma skip_space_skips:
  assumes "\<forall>c\<in>set ws. isspace (sint c)" and "\<not> isspace (sint c)"
  shows "skip_space (ws @ c # s) pos = Some (sint c, s, pos + length ws + 1)"
  using assms(1) by (induction ws arbitrary: pos) (simp_all add: assms(2))

lemma strtol_sign_reads:
  assumes "d < 36" and "sign = [] \<or> sign = [43] \<or> sign = [45]"
    and "sign @ lower_digit d # r = c # s"
  shows "strtol_sign (sint c) s pos = Some (sign = [45], sint (lower_digit d), r, pos + length sign)"
  using assms by (auto simp: strtol_sign_def next_char_def digit_char)

lemma strtol_base_keeps:
  assumes b: "2 \<le> b" "b \<le> 36" and ds: "\<forall>d\<in>set ds. d < b" and stop: "strtol_digit (sint x) = None"
  shows "strtol_base (int b) c (map lower_digit ds @ x # r) pos = Some (int b, c, map lower_digit ds @ x # r, pos)"
proof -
  obtain y where y: "arr_get (map lower_digit ds @ x # r) 0 = Some y" "b = 16 \<longrightarrow> y \<noteq> 120 \<and> y \<noteq> 88"
  proof (cases ds)
    case Nil
    have "x \<noteq> 120" "x \<noteq> 88" using stop by (auto simp: strtol_digit_def isdigit_def isalpha_def)
    then show thesis using that Nil by simp
  next
    case (Cons e es)
    have "lower_digit e \<noteq> 120 \<and> lower_digit e \<noteq> 88" if "b = 16"
    proof -
      have e: "e < 16" using ds that Cons by auto
      then have "sint (lower_digit e) = int (if e < 10 then e + 48 else e + 87)" by (simp add: digit_char)
      then show ?thesis using e by (auto split: if_splits)
    qed
    then show thesis using that Cons by simp
  qed
  show ?thesis
  proof (cases "b = 16 \<and> c = 48")
    case True
    then show ?thesis unfolding strtol_base_def y(1) using y(2) by simp
  next
    case False
    then show ?thesis using b by (auto simp: strtol_base_def)
  qed
qed

definition strtol_limit :: "bool \<Rightarrow> nat" where
  "strtol_limit neg = (if neg then 2 ^ 31 else 2 ^ 31 - 1)"

lemma strtol_cut:
  assumes b: "2 \<le> b" "b \<le> 36" and "L < 4294967296"
  shows "(of_nat L :: u32) div of_nat b = of_nat (L div b)"
    and "uint ((of_nat L :: u32) mod of_nat b) = int (L mod b)"
proof -
  have L: "unat (of_nat L :: u32) = L" using assms by (simp add: unat_of_nat)
  have "L div b < 4294967296" using assms(3) div_le_dividend [of L b] by linarith
  then have "unat (of_nat (L div b) :: u32) = L div b" by (simp add: unat_of_nat)
  moreover have "unat ((of_nat L :: u32) div of_nat b) = L div b"
    by (simp only: unat_div_distrib L unat_radix [OF b])
  ultimately show "(of_nat L :: u32) div of_nat b = of_nat (L div b)" by (intro unat_eqI) simp
  have "uint ((of_nat L :: u32) mod of_nat b) = int (unat ((of_nat L :: u32) mod of_nat b))" by simp
  then show "uint ((of_nat L :: u32) mod of_nat b) = int (L mod b)"
    by (simp only: unat_mod_distrib L unat_radix [OF b])
qed

text \<open>
  Property C24: Given white space, an optional sign and at least one digit of a base from 2 to 36, letters in lower
  case, before a character that is no letter or digit, \<open>strtol\<close> answers the number,
  and the largest or smallest \<open>long\<close> when it does not fit; \<open>endptr\<close> is set just behind the last digit.
\<close>

theorem strtol_correct:
  assumes b: "2 \<le> b" "b \<le> 36" and ds: "\<forall>d\<in>set ds. d < b" "ds \<noteq> []"
    and ws: "\<forall>c\<in>set ws. isspace (sint c)" and sign: "sign = [] \<or> sign = [43] \<or> sign = [45]"
    and stop: "strtol_digit (sint x) = None"
  shows "strtol (ws @ sign @ map lower_digit ds @ x # r) (int b) =
    (let V = digits_value b ds; fits = V \<le> strtol_limit (sign = [45])
     in Some (if sign = [45] then if fits then - of_nat V else 0x80000000
              else if fits then of_nat V else 0x7FFFFFFF,
              length ws + length sign + length ds))"
proof -
  let ?neg = "sign = [45]" and ?V = "digits_value b ds"
  let ?L = "strtol_limit ?neg"
  have L: "?L < 4294967296" by (simp add: strtol_limit_def)
  obtain d ds' where ds': "ds = d # ds'" using ds(2) by (cases ds) auto
  let ?s = "map lower_digit ds' @ x # r" and ?p = "length ws + 1 + length sign"
  have d: "d < 36" and dsb: "\<forall>d\<in>set ds'. d < b" using ds(1) b by (auto simp: ds')
  obtain c s where str: "sign @ lower_digit d # ?s = c # s" using sign by auto
  have "\<not> isspace (sint c)"
    using sign str strtol_digit_isspace [OF d] by (auto simp: isspace_def)
  then have skip: "skip_space (ws @ sign @ map lower_digit ds @ x # r) 0 = Some (sint c, s, length ws + 1)"
    using skip_space_skips [OF ws, of c s 0] str by (simp add: ds')
  note sgn = strtol_sign_reads [OF d sign str, of "length ws + 1"]
  note bas = strtol_base_keeps [OF b dsb stop, of "sint (lower_digit d)" r ?p]
  have lim: "(if ?neg then 0x80000000 else 0x7FFFFFFF :: u32) = of_nat ?L" by (simp add: strtol_limit_def)
  have "read_so_far 0 0 0 ?L" by (simp add: read_so_far_def)
  have str': "map lower_digit ds @ x # r = lower_digit d # ?s" by (simp add: ds')
  from strtol_loop_reads [OF b L stop ds(1) str' \<open>read_so_far 0 0 0 ?L\<close>, of ?p] obtain acc any
    where loop: "strtol_loop (int b) (of_nat (?L div b)) (int (?L mod b)) (sint (lower_digit d)) ?s ?p 0 0
        = Some (acc, any, ?p + length ds)"
      and read: "read_so_far acc any ?V ?L" and "any \<noteq> 0"
    using ds(2) unfolding digits_value_def by blast
  have wi: "(word_of_int (int b) :: u32) = of_nat b" by simp
  have "strtol (ws @ sign @ map lower_digit ds @ x # r) (int b) =
      Some (if any < 0 then (if ?neg then 0x80000000 else 0x7FFFFFFF) else if ?neg then - acc else acc,
        length ws + length sign + length ds)"
    using \<open>any \<noteq> 0\<close> unfolding strtol_def skip
    by (simp only: sgn bas loop Option.bind.simps split Let_def lim wi strtol_cut [OF b L]) simp
  moreover have "any < 0 \<longleftrightarrow> \<not> ?V \<le> ?L" and "?V \<le> ?L \<Longrightarrow> acc = of_nat ?V"
    using read by (auto simp: read_so_far_def)
  ultimately show ?thesis by (simp add: Let_def)
qed

theorem strtol_correct_witness:
  "strtol [32, 45, 102, 102, 0] 16 = Some (- 255, 4)"
proof -
  have "strtol ([32] @ [45] @ map lower_digit [15, 15] @ 0 # []) (int 16) =
    (let V = digits_value 16 [15, 15]; fits = V \<le> strtol_limit ([45] = [45 :: u8])
     in Some (if [45] = [45 :: u8] then if fits then - of_nat V else 0x80000000
              else if fits then of_nat V else 0x7FFFFFFF,
              length [32 :: u8] + length [45 :: u8] + length [15, 15 :: nat]))"
    by (rule strtol_correct) (simp_all add: isspace_def strtol_digit_def isdigit_def isalpha_def)
  then show ?thesis by (simp add: lower_digit_def digits_value_def strtol_limit_def Let_def)
qed

text \<open>
  an upper-case letter is no digit of \<open>strtol\<close> in any base up to 36, because of the
  macro \<open>isupper\<close>: the number ends in front of it.
\<close>

theorem strtol_upper_case:
  assumes "65 \<le> sint c" and "sint c \<le> 90" and "base \<le> 36"
  shows "strtol_loop base cutoff cutlim (sint c) s pos acc any = Some (acc, any, pos)"
  using assms by (subst strtol_loop.simps) (auto simp: strtol_digit_def isdigit_def isalpha_def)

theorem strtol_upper_case_witness:
  "strtol_loop 16 0x07FFFFFF 15 (sint (70 :: u8)) [70, 0] 1 0 0 = Some (0, 0, 1)"
  by (rule strtol_upper_case) simp_all

end
