(* ===== verification/Printf.thy ===== *)
theory Printf
  imports Numeric_Conv
begin

text \<open>
  Formatted output: \<open>sprintf\<close> and \<open>vsprintf\<close> of \<open>kernel/std/stdlib.cpp\<close>, and the callers in
  \<open>kernel/cpu.cpp\<close> that give \<open>vsprintf\<close> a buffer on the stack. A format is read from its array, an
  argument that is missing or of the wrong type is a fault, and so is a write behind the buffer.
\<close>

section \<open>The routines\<close>

text \<open>What \<open>va_arg\<close> takes from the list: an \<open>int\<close>, or a pointer to characters.\<close>

datatype arg = AInt u32 | AStr cbuf

fun arg_int :: "arg list \<Rightarrow> (u32 \<times> arg list) option" where
  "arg_int (AInt v # args) = Some (v, args)"
| "arg_int _ = None"

fun arg_str :: "arg list \<Rightarrow> (cbuf \<times> arg list) option" where
  "arg_str (AStr v # args) = Some (v, args)"
| "arg_str _ = None"

(* src/kernel/std/stdlib.cpp:428-429 vsprintf *)
fun zero_out :: "cbuf \<Rightarrow> cbuf option" where
  "zero_out [] = None"
| "zero_out (c # cs) = (if c \<noteq> 0 then map_option (Cons 0) (zero_out cs) else Some (0 # cs))"

text \<open>The rest of the format behind a run of plain characters, which are copied to index \<open>i\<close> on.\<close>

(* src/kernel/std/stdlib.cpp:441-445 vsprintf *)
fun copy_plain :: "cbuf \<Rightarrow> cbuf \<Rightarrow> nat \<Rightarrow> (cbuf \<times> cbuf \<times> nat) option" where
  "copy_plain [] buffer i = None"
| "copy_plain (c # format) buffer i =
     (if c \<noteq> 0 \<and> c \<noteq> 0x25 then do {
        buffer \<leftarrow> arr_set buffer i c;
        copy_plain format buffer (i + 1)
      } else Some (c # format, buffer, i))"

(* src/kernel/std/stdlib.cpp:502-506 vsprintf *)
fun copy_str :: "cbuf \<Rightarrow> cbuf \<Rightarrow> nat \<Rightarrow> (cbuf \<times> nat) option" where
  "copy_str [] buffer i = None"
| "copy_str (c # str) buffer i =
     (if c \<noteq> 0 then do {
        buffer \<leftarrow> arr_set buffer i c;
        copy_str str buffer (i + 1)
      } else Some (buffer, i))"

text \<open>A number is printed into an array of 16 characters.\<close>

definition fit16 :: "u8 list \<Rightarrow> u8 list option" where
  "fit16 s = (if length s \<le> 16 then Some s else None)"

(* src/kernel/std/stdlib.cpp:468-481 vsprintf *)
definition put_hex :: "u32 \<Rightarrow> cbuf \<Rightarrow> nat \<Rightarrow> (cbuf \<times> nat) option" where
  "put_hex v buffer written = do {
     s \<leftarrow> ltoa (scast v) 16;
     s \<leftarrow> fit16 s;
     buffer \<leftarrow> arr_set buffer written 0x30;
     buffer \<leftarrow> arr_set buffer (written + 1) 0x78;
     copy_str s buffer (written + 2)
   }"

(* src/kernel/std/stdlib.cpp:486-495 vsprintf *)
definition put_dec :: "u32 \<Rightarrow> cbuf \<Rightarrow> nat \<Rightarrow> (cbuf \<times> nat) option" where
  "put_dec v buffer written = do {
     (s, n) \<leftarrow> itoa v 10;
     s \<leftarrow> fit16 s;
     copy_str s buffer written
   }"

text \<open>
  A conversion, from the character behind the percent sign on. An unknown one counts the rest of the
  format as written, and writes nothing of it.
\<close>

(* src/kernel/std/stdlib.cpp:457-516 vsprintf *)
definition vs_conv :: "cbuf \<Rightarrow> arg list \<Rightarrow> cbuf \<Rightarrow> nat \<Rightarrow> (cbuf \<times> arg list \<times> cbuf \<times> nat) option" where
  "vs_conv format args buffer written = do {
     c \<leftarrow> arr_get format 0;
     if c = 0x63 then do {
       (v, args) \<leftarrow> arg_int args;
       buffer \<leftarrow> arr_set buffer written (ucast v);
       Some (tl format, args, buffer, written + 1)
     }
     else if c = 0x78 then do {
       (v, args) \<leftarrow> arg_int args;
       (buffer, written) \<leftarrow> put_hex v buffer written;
       Some (tl format, args, buffer, written)
     }
     else if c = 0x64 \<or> c = 0x69 then do {
       (v, args) \<leftarrow> arg_int args;
       (buffer, written) \<leftarrow> put_dec v buffer written;
       Some (tl format, args, buffer, written)
     }
     else if c = 0x73 then do {
       (str, args) \<leftarrow> arg_str args;
       (buffer, written) \<leftarrow> copy_str str buffer written;
       Some (tl format, args, buffer, written)
     }
     else do {
       n \<leftarrow> strlen format;
       Some (drop n format, args, buffer, written + 1 + n)
     }
   }"

text \<open>
  One round of the loop, on a format that is not at its end; in the second place the new state of the
  loop, or \<^const>\<open>None\<close> for the return of -1.
\<close>

(* src/kernel/std/stdlib.cpp:434-516 vsprintf *)
definition vs_step :: "cbuf \<Rightarrow> arg list \<Rightarrow> cbuf \<Rightarrow> nat \<Rightarrow> (cbuf \<times> (cbuf \<times> arg list \<times> nat) option) option" where
  "vs_step format args buffer written = do {
     c \<leftarrow> arr_get format 0;
     buffer \<leftarrow> arr_set buffer written c;
     plain \<leftarrow> (if c \<noteq> 0x25 then Some True else map_option (\<lambda>d. d = 0x25) (arr_get format 1));
     if plain then do {
       let format = (if c = 0x25 then tl format else format);
       (rest, buffer, i) \<leftarrow> copy_plain (tl format) buffer (written + 1);
       if 2 ^ 31 - 1 < i then Some (buffer, None) else Some (buffer, Some (rest, args, i))
     } else do {
       (rest, args, buffer, written) \<leftarrow> vs_conv (tl format) args buffer written;
       Some (buffer, Some (rest, args, written))
     }
   }"

lemma copy_plain_shorter: "copy_plain f b i = Some (r, b', j) \<Longrightarrow> length r \<le> length f"
  by (induction f b i rule: copy_plain.induct) (auto split: if_splits bind_splits)

lemma vs_step_shorter: "vs_step f args b w = Some (b', Some (r, args', w')) \<Longrightarrow> length r < length f"
  by (cases f) (auto simp: vs_step_def vs_conv_def Let_def split: if_splits bind_splits dest!: copy_plain_shorter)

(* src/kernel/std/stdlib.cpp:433-518 vsprintf *)
function vs_loop :: "cbuf \<Rightarrow> arg list \<Rightarrow> cbuf \<Rightarrow> nat \<Rightarrow> (cbuf \<times> int) option" where
  "vs_loop format args buffer written =
     (case arr_get format 0 of
        None \<Rightarrow> None
      | Some c \<Rightarrow>
          if c = 0 then Some (buffer, int written)
          else (case vs_step format args buffer written of
                  None \<Rightarrow> None
                | Some (buffer, None) \<Rightarrow> Some (buffer, - 1)
                | Some (buffer, Some (rest, args, written)) \<Rightarrow> vs_loop rest args buffer written))"
  by pat_completeness auto
termination
  by (relation "measure (\<lambda>(format, args, buffer, written). length format)") (auto dest: vs_step_shorter)

declare vs_loop.simps [simp del]

(* src/kernel/std/stdlib.cpp:426-519 vsprintf *)
definition vsprintf :: "cbuf \<Rightarrow> cbuf \<Rightarrow> arg list \<Rightarrow> (cbuf \<times> int) option" where
  "vsprintf buffer format args = do {
     buffer \<leftarrow> zero_out buffer;
     vs_loop format args buffer 0
   }"

section \<open>The callers\<close>

(* src/kernel/cpu.cpp:71-77 snprintf *)
fun last_nonzero :: "cbuf \<Rightarrow> nat \<Rightarrow> int" where
  "last_nonzero temp_buffer 0 = - 1"
| "last_nonzero temp_buffer (Suc i) =
     (if temp_buffer ! Suc i \<noteq> 0 then int (Suc i) else last_nonzero temp_buffer i)"

(* src/kernel/cpu.cpp:61-78 snprintf *)
definition snprintf :: "cbuf \<Rightarrow> nat \<Rightarrow> cbuf \<Rightarrow> arg list \<Rightarrow> (cbuf \<times> int) option" where
  "snprintf buffer n fmt args = do {
     (temp_buffer, r) \<leftarrow> vsprintf (replicate n 0) fmt args;
     if n \<le> length buffer
     then Some (temp_buffer @ drop n buffer, last_nonzero temp_buffer (n - 1))
     else None
   }"

text \<open>
  The new array and the returned size; the pointer to the array goes into the parameter, so the caller
  never sees it.
\<close>

(* src/kernel/cpu.cpp:80-100 asprintf *)
definition asprintf :: "cbuf \<Rightarrow> arg list \<Rightarrow> (cbuf \<times> nat) option" where
  "asprintf fmt args = do {
     (temp_buffer, r) \<leftarrow> vsprintf (replicate 128 0) fmt args;
     let s = nat (last_nonzero temp_buffer 127);
     Some (take s temp_buffer, s)
   }"

text \<open>The bytes sent to the console: the first one always.\<close>

(* src/kernel/cpu.cpp:44-49 BochsConsolePrint *)
fun BochsConsolePrint :: "cbuf \<Rightarrow> u8 list option" where
  "BochsConsolePrint [] = None"
| "BochsConsolePrint (c # s) = do {
     d \<leftarrow> arr_get s 0;
     if d \<noteq> 0 then map_option (Cons c) (BochsConsolePrint s) else Some [c]
   }"

(* src/kernel/cpu.cpp:51-59 bcprintf *)
definition bcprintf :: "cbuf \<Rightarrow> arg list \<Rightarrow> u8 list option" where
  "bcprintf fmt args = do {
     (temp_buffer, r) \<leftarrow> vsprintf (replicate 80 0) fmt args;
     BochsConsolePrint temp_buffer
   }"

section \<open>What a format means\<close>

definition decimal :: "u32 \<Rightarrow> u8 list" where
  "decimal v = (if sint v < 0 then 45 # map lower_digit (to_digits 10 (unat (- v)))
     else map lower_digit (to_digits 10 (unat v)))"

definition hexadecimal :: "u32 \<Rightarrow> u8 list" where
  "hexadecimal v = 0x30 # 0x78 # map upper_digit (to_digits 16 (unat v))"

fun show_arg :: "u8 \<Rightarrow> arg \<Rightarrow> u8 list option" where
  "show_arg d (AInt v) =
     (if d = 0x63 then Some [ucast v] else if d = 0x78 then Some (hexadecimal v)
      else if d = 0x64 \<or> d = 0x69 then Some (decimal v) else None)"
| "show_arg d (AStr s) = (if d = 0x73 \<and> 0 \<in> set s then Some (takeWhile (\<lambda>c. c \<noteq> 0) s) else None)"

text \<open>
  The output, character by character; the flag says that the last thing in the format is an empty
  string.
\<close>

fun render :: "cbuf \<Rightarrow> arg list \<Rightarrow> bool \<Rightarrow> (u8 list \<times> bool) option" where
  "render [] args e = None"
| "render (c # f) args e =
     (if c = 0 then Some ([], e)
      else if c \<noteq> 0x25 then map_option (apfst (Cons c)) (render f args False)
      else (case f of
              [] \<Rightarrow> None
            | d # f' \<Rightarrow>
                if d = 0x25 then map_option (apfst (Cons d)) (render f' args False)
                else (case args of
                        [] \<Rightarrow> None
                      | a # args \<Rightarrow>
                          (case show_arg d a of
                             None \<Rightarrow> None
                           | Some s \<Rightarrow> map_option (apfst ((@) s)) (render f' args (s = []))))))"

section \<open>Writing into the buffer\<close>

lemma arr_set_append: "z \<noteq> [] \<Longrightarrow> arr_set (pre @ z) (length pre) c = Some (pre @ c # tl z)"
  by (cases z) (simp_all add: arr_set_def)

lemma copy_plain_run:
  assumes "\<forall>c \<in> set t. c \<noteq> 0 \<and> c \<noteq> 0x25" and "d = 0 \<or> d = 0x25" and "length t \<le> length z"
  shows "copy_plain (t @ d # r) (pre @ z) (length pre) =
    Some (d # r, pre @ t @ drop (length t) z, length pre + length t)"
  using assms
proof (induction t arbitrary: pre z)
  case (Cons c t)
  then have "arr_set (pre @ z) (length pre) c = Some ((pre @ [c]) @ tl z)" by (subst arr_set_append) auto
  then show ?case
    using Cons.IH [of "tl z" "pre @ [c]"] Cons.prems by (simp add: drop_Suc)
qed auto

lemma copy_str_run:
  assumes "0 \<notin> set s" and "length s \<le> length z"
  shows "copy_str (s @ 0 # r) (pre @ z) (length pre) = Some (pre @ s @ drop (length s) z, length pre + length s)"
  using assms
proof (induction s arbitrary: pre z)
  case (Cons c t)
  then have "arr_set (pre @ z) (length pre) c = Some ((pre @ [c]) @ tl z)" by (subst arr_set_append) auto
  then show ?case
    using Cons.IH [of "tl z" "pre @ [c]"] Cons.prems by (auto simp: drop_Suc)
qed simp

text \<open>Text that does not fit leaves the buffer.\<close>

lemma copy_plain_over:
  assumes "\<forall>c \<in> set t. c \<noteq> 0 \<and> c \<noteq> 0x25" and "length z < length t"
  shows "copy_plain (t @ r) (pre @ z) (length pre) = None"
  using assms
proof (induction t arbitrary: pre z)
  case (Cons c t)
  show ?case
  proof (cases z)
    case Nil
    then show ?thesis using Cons.prems by (simp add: arr_set_def)
  next
    case (Cons x z')
    then show ?thesis using Cons.IH [of z' "pre @ [c]"] Cons.prems arr_set_append [of z pre c] by simp
  qed
qed simp

lemma copy_str_over:
  assumes "0 \<notin> set s" and "length z < length s"
  shows "copy_str (s @ r) (pre @ z) (length pre) = None"
  using assms
proof (induction s arbitrary: pre z)
  case (Cons c s)
  show ?case
  proof (cases z)
    case Nil
    then show ?thesis using Cons.prems by (simp add: arr_set_def)
  next
    case (Cons x z')
    then show ?thesis using Cons.IH [of z' "pre @ [c]"] Cons.prems arr_set_append [of z pre c] by auto
  qed
qed simp

lemma upper_digit_nonzero: "d < 16 \<Longrightarrow> upper_digit d \<noteq> 0"
proof
  assume d: "d < 16" and z: "upper_digit d = 0"
  have "unat (upper_digit d) = (if 9 < d then d + 55 else d + 48)"
    using d by (simp only: upper_digit_def unat_of_nat, simp)
  then show False using z by (simp split: if_splits)
qed

lemma decimal_text: "0 \<notin> set (decimal v)" "length (decimal v) \<le> 11"
proof -
  have "0 \<notin> set (map lower_digit (to_digits 10 n))" for n
    using decimal_cstr [of "to_digits 10 n"] to_digits_less [of 10] by simp
  then show "0 \<notin> set (decimal v)" by (simp add: decimal_def)
  show "length (decimal v) \<le> 11"
    using decimal_length [OF unat_u32_less, of v] decimal_length [OF unat_u32_less, of "- v"] by (simp add: decimal_def)
qed

lemma hexadecimal_text: "0 \<notin> set (map upper_digit (to_digits 16 n))"
  using upper_digit_nonzero to_digits_less [of 16] by fastforce

lemma hexadecimal_length: "n < 4294967296 \<Longrightarrow> length (to_digits 16 n) \<le> 8"
  using to_digits_length [of 16 n 7] by simp

lemma put_dec_run:
  assumes "length (decimal v) \<le> length z"
  shows "put_dec v (pre @ z) (length pre) = Some (pre @ decimal v @ drop (length (decimal v)) z, length pre + length (decimal v))"
proof -
  have "\<exists>n. itoa v 10 = Some (decimal v @ [0], n)" by (simp add: itoa_decimal decimal_def)
  moreover have "fit16 (decimal v @ [0]) = Some (decimal v @ 0 # [])" using decimal_text(2) [of v] by (simp add: fit16_def)
  ultimately show ?thesis using copy_str_run [OF decimal_text(1) assms, of "[]"] by (auto simp: put_dec_def)
qed

lemma put_hex_run:
  assumes "length (hexadecimal v) \<le> length z"
  shows "put_hex v (pre @ z) (length pre) = Some (pre @ hexadecimal v @ drop (length (hexadecimal v)) z, length pre + length (hexadecimal v))"
proof -
  define ds where "ds = map upper_digit (to_digits 16 (unat v))"
  have n: "length ds \<le> 8" "0 \<notin> set ds" "hexadecimal v = 0x30 # 0x78 # ds"
    using hexadecimal_length [OF unat_u32_less, of v] hexadecimal_text by (simp_all add: ds_def hexadecimal_def)
  have "(ucast (scast v :: u64) :: u32) = v" by (rule bit_word_eqI) (simp add: bit_simps)
  then have "ltoa (scast v) 16 = Some (ds @ [0])" by (simp add: ltoa_value ds_def)
  moreover have "fit16 (ds @ [0]) = Some (ds @ 0 # [])" using n(1) by (simp add: fit16_def)
  moreover obtain a b z' where z: "z = a # b # z'" using assms n(3) by (auto simp: Suc_le_length_iff)
  moreover have "arr_set (pre @ z) (length pre) 0x30 = Some ((pre @ [0x30]) @ b # z')"
    by (subst arr_set_append) (simp_all add: z)
  moreover have "arr_set ((pre @ [0x30]) @ b # z') (length pre + 1) 0x78 = Some ((pre @ [0x30, 0x78]) @ z')"
    using arr_set_append [of "b # z'" "pre @ [0x30]" "0x78"] by simp
  ultimately show ?thesis
    using copy_str_run [OF n(2), of z' "[]" "pre @ [0x30, 0x78]"] assms n(3) by (simp add: put_hex_def)
qed

section \<open>The loop renders the format\<close>

lemma render_plain:
  assumes "\<forall>c \<in> set t. c \<noteq> 0 \<and> c \<noteq> 0x25" and "t \<noteq> []"
  shows "render (t @ r) args e = map_option (apfst ((@) t)) (render r args False)"
  using assms
proof (induction t arbitrary: e)
  case (Cons c t)
  then show ?case
    by (cases "t = []") (auto simp: option.map_comp comp_def apfst_compose)
qed simp

lemma render_next: "render f args e = Some (out, e') \<Longrightarrow>
    \<exists>t d r. f = t @ d # r \<and> (\<forall>c \<in> set t. c \<noteq> 0 \<and> c \<noteq> 0x25) \<and> (d = 0 \<or> d = 0x25)"
proof (induction f args e arbitrary: out e' rule: render.induct)
  case (2 c f args e)
  show ?case
  proof (cases "c = 0 \<or> c = 0x25")
    case True
    then show ?thesis by (intro exI [of _ "[]"]) auto
  next
    case False
    then obtain o' where "render f args False = Some (o', e')" using 2(4) by auto
    from 2(1) [OF _ _ this] False obtain t d r where "f = t @ d # r"
      "\<forall>c \<in> set t. c \<noteq> 0 \<and> c \<noteq> 0x25" "d = 0 \<or> d = 0x25" by auto
    then show ?thesis using False by (intro exI [of _ "c # t"]) auto
  qed
qed simp

text \<open>Text from a character on: what one round does, and what it renders.\<close>

lemma text_round:
  assumes first: "f = c # f' \<and> c \<noteq> 0 \<and> c \<noteq> 0x25 \<or> f = 0x25 # c # f' \<and> c = 0x25"
    and r: "render f args e = Some (out, e')" and "length out \<le> k" and "length pre + k < 2 ^ 31"
  shows "\<exists>t rest out'. out = c # t @ out' \<and> render rest args False = Some (out', e') \<and>
    vs_step f args (pre @ x # replicate k 0) (length pre) =
      Some ((pre @ c # t) @ replicate (k - length t) 0, Some (rest, args, length pre + 1 + length t))"
proof -
  obtain out1 where o1: "render f' args False = Some (out1, e')" "out = c # out1"
    using r first by (auto simp: apfst_def map_prod_def split: prod.splits)
  obtain t d q where f': "f' = t @ d # q" "\<forall>c \<in> set t. c \<noteq> 0 \<and> c \<noteq> 0x25" "d = 0 \<or> d = 0x25"
    using render_next [OF o1(1)] by blast
  have "\<exists>out'. out1 = t @ out' \<and> render (d # q) args False = Some (out', e')"
  proof (cases "t = []")
    case False
    then show ?thesis using o1(1) render_plain [OF f'(2) False, of "d # q" args False] f'(1)
      by (auto simp: apfst_def map_prod_def split: prod.splits)
  qed (use o1 f' in auto)
  then obtain out' where o2: "out1 = t @ out'" "render (d # q) args False = Some (out', e')" by blast
  have len: "length t \<le> k" using assms(3) o1(2) o2(1) by simp
  have run: "copy_plain f' ((pre @ [c]) @ replicate k 0) (length (pre @ [c])) =
      Some (d # q, (pre @ [c]) @ t @ replicate (k - length t) 0, length (pre @ [c]) + length t)"
    using copy_plain_run [OF f'(2,3), of "replicate k 0" q "pre @ [c]"] len by (simp add: f'(1))
  have set: "arr_set (pre @ x # replicate k 0) (length pre) a = Some (pre @ a # replicate k 0)" for a
    by (subst arr_set_append) simp_all
  have small: "\<not> 2 ^ 31 - 1 < length pre + 1 + length t" using assms(3,4) o1(2) o2(1) by simp
  have "vs_step f args (pre @ x # replicate k 0) (length pre) =
      Some ((pre @ c # t) @ replicate (k - length t) 0, Some (d # q, args, length pre + 1 + length t))"
    using first run small by (auto simp: vs_step_def set)
  then show ?thesis using o1(2) o2 by blast
qed

text \<open>A conversion.\<close>

lemma conv_round:
  assumes d: "d \<noteq> 0x25" and s: "show_arg d a = Some s" and "length s \<le> Suc k"
  shows "vs_step (0x25 # d # f) (a # args) (pre @ x # replicate k 0) (length pre) =
    Some (pre @ s @ drop (length s) (0x25 # replicate k 0), Some (f, args, length pre + length s))"
proof -
  let ?z = "0x25 # replicate k 0 :: u8 list"
  have set: "arr_set (pre @ x # replicate k 0) (length pre) 0x25 = Some (pre @ ?z)"
    by (subst arr_set_append) simp_all
  have len: "length s \<le> length ?z" using assms(3) by simp
  have "vs_conv (d # f) (a # args) (pre @ ?z) (length pre) =
      Some (f, args, pre @ s @ drop (length s) ?z, length pre + length s)"
  proof (cases a)
    case (AInt v)
    consider "d = 0x63" "s = [ucast v]" | "d = 0x78" "s = hexadecimal v" | "d = 0x64 \<or> d = 0x69" "s = decimal v"
      using s AInt by (auto split: if_splits)
    then show ?thesis
    proof cases
      case 1
      then show ?thesis using arr_set_append [of ?z pre "ucast v"] by (simp add: vs_conv_def AInt)
    next
      case 2
      then show ?thesis using put_hex_run [of v ?z pre] len by (simp add: vs_conv_def AInt)
    next
      case 3
      then show ?thesis using put_dec_run [of v ?z pre] len by (auto simp: vs_conv_def AInt)
    qed
  next
    case (AStr str)
    then have ds: "d = 0x73" "0 \<in> set str" "s = takeWhile (\<lambda>c. c \<noteq> 0) str" using s by (auto split: if_splits)
    have "\<exists>r. str = s @ 0 # r"
      using ds(2,3) by (metis (mono_tags, lifting) dropWhile_eq_Nil_conv hd_dropWhile list.collapse takeWhile_dropWhile_id)
    then obtain r where str: "str = s @ 0 # r" ..
    have "0 \<notin> set s" using ds(3) by (auto dest: set_takeWhileD)
    from copy_str_run [OF this len, of r pre] show ?thesis by (simp add: vs_conv_def AStr ds(1) str)
  qed
  then show ?thesis using d set by (simp add: vs_step_def)
qed

definition blot :: "bool \<Rightarrow> u8" where
  "blot e = (if e then 0x25 else 0)"

lemma loop_renders:
  assumes "render f args e = Some (out, e')" and "length out \<le> k" and "length pre + k < 2 ^ 31"
  shows "vs_loop f args (pre @ blot e # replicate k 0) (length pre) =
    Some (pre @ out @ blot e' # replicate (k - length out) 0, int (length pre + length out))"
  using assms
proof (induction "length f" arbitrary: f args e out k pre rule: less_induct)
  case less
  obtain c f' where f: "f = c # f'" using less.prems(1) by (cases f) auto
  let ?buf = "pre @ blot e # replicate k 0"
  have go: ?case
    if "vs_step f args ?buf (length pre) =
        Some ((pre @ s) @ blot e1 # replicate (k - length s) 0, Some (rest, args1, length pre + length s))"
      "render rest args1 e1 = Some (out', e')" "out = s @ out'" "c \<noteq> 0"
    for s e1 rest args1 out'
  proof -
    have "length rest < length f" using vs_step_shorter [OF that(1)] .
    from less.hyps [OF this that(2), of "k - length s" "pre @ s"] less.prems(2,3) that(3)
    have "vs_loop rest args1 ((pre @ s) @ blot e1 # replicate (k - length s) 0) (length pre + length s) =
        Some (pre @ out @ blot e' # replicate (k - length out) 0, int (length pre + length out))" by simp
    then show ?thesis using that(1,4) f by (subst vs_loop.simps) simp
  qed
  have lit: ?case if t: "out = c' # t @ out'" "render rest args False = Some (out', e')"
      "vs_step f args ?buf (length pre) =
        Some ((pre @ c' # t) @ replicate (k - length t) 0, Some (rest, args, length pre + 1 + length t))" "c \<noteq> 0"
    for c' t out' rest
  proof -
    have "replicate (k - length t) 0 = blot False # replicate (k - length (c' # t)) 0"
      using less.prems(2) t(1) by (cases "k - length t") (auto simp: blot_def)
    then show ?thesis using t by (intro go [where s = "c' # t", OF _ t(2)]) simp_all
  qed
  consider "c = 0" | "c \<noteq> 0" "c \<noteq> 0x25" | g where "c = 0x25" "f' = 0x25 # g"
    | d g a args' where "c = 0x25" "f' = d # g" "d \<noteq> 0x25" "args = a # args'"
    using less.prems(1) f by (auto split: list.splits if_splits)
  then show ?case
  proof cases
    case 1
    then show ?thesis using less.prems f by (subst vs_loop.simps) simp
  next
    case 2
    then show ?thesis using text_round [OF _ less.prems(1-3), of c f' "blot e"] f lit by blast
  next
    case 3
    then show ?thesis using text_round [OF _ less.prems(1-3), of "0x25" g "blot e"] f lit by auto
  next
    case 4
    then obtain s out' where s: "show_arg d a = Some s" "render g args' (s = []) = Some (out', e')" "out = s @ out'"
      using less.prems(1) f by (auto split: option.splits simp: apfst_def map_prod_def split: prod.splits)
    have "drop (length s) (0x25 # replicate k 0) = blot (s = []) # replicate (k - length s) 0"
      using less.prems(2) s(3) by (cases s) (auto simp: blot_def simp flip: replicate_Suc)
    then show ?thesis
      using conv_round [OF 4(3) s(1), of k g args' pre "blot e"] less.prems(2) s f 4 by (intro go [OF _ s(2,3)]) simp_all
  qed
qed

lemma zero_out_zeros: "0 < n \<Longrightarrow> zero_out (replicate n 0) = Some (replicate n 0)"
  by (cases n) simp_all

lemma vsprintf_renders:
  assumes "render fmt args False = Some (out, e)" and "length out < n" and "n \<le> 2 ^ 31"
  shows "vsprintf (replicate n 0) fmt args =
    Some (out @ blot e # replicate (n - 1 - length out) 0, int (length out))"
proof -
  obtain k where n: "n = Suc k" using assms(2) by (cases n) auto
  have "vs_loop fmt args (blot False # replicate k 0) 0 = Some (out @ blot e # replicate (k - length out) 0, int (length out))"
    using loop_renders [OF assms(1), of k "[]"] assms(2,3) n by simp
  then show ?thesis using zero_out_zeros [of n] by (simp add: vsprintf_def n blot_def)
qed

text \<open>
  Property C22: On a buffer of zeros that is longer than the output, \<open>vsprintf\<close> stores what the format means and
  returns its length. What is behind is left zero, so it ends the string, unless the format ends in the
  conversion of an empty string: then the percent sign of the conversion is left there.
\<close>

theorem vsprintf_correct:
  assumes "render fmt args False = Some (out, e)" and "length out < n" and "n \<le> 2 ^ 31"
  shows "vsprintf (replicate n 0) fmt args =
    Some (out @ (if e then 0x25 else 0) # replicate (n - 1 - length out) 0, int (length out))"
  using vsprintf_renders [OF assms] by (simp add: blot_def)

text \<open>The format \<open>%d:%s\<close>, with a word and with an empty string.\<close>

theorem vsprintf_correct_witness:
  "vsprintf (replicate 8 0) [0x25, 0x64, 0x3A, 0x25, 0x73, 0] [AInt (- 42), AStr [0x6F, 0x6B, 0]] =
      Some ([0x2D, 0x34, 0x32, 0x3A, 0x6F, 0x6B, 0, 0], 6)
    \<and> vsprintf (replicate 8 0) [0x25, 0x64, 0x3A, 0x25, 0x73, 0] [AInt 7, AStr [0]] =
      Some ([0x37, 0x3A, 0x25] @ replicate 5 0, 2)"
proof -
  have "to_digits 10 42 = [4, 2]" "to_digits 10 7 = [7]" by (simp_all add: to_digits.simps)
  then have d: "decimal (- 42) = [0x2D, 0x34, 0x32]" "decimal 7 = [0x37]"
    by (simp_all add: decimal_def lower_digit_def)
  have r: "render [0x25, 0x64, 0x3A, 0x25, 0x73, 0] [AInt (- 42), AStr [0x6F, 0x6B, 0]] False =
      Some ([0x2D, 0x34, 0x32, 0x3A, 0x6F, 0x6B], False)"
    "render [0x25, 0x64, 0x3A, 0x25, 0x73, 0] [AInt 7, AStr [0]] False = Some ([0x37, 0x3A], True)"
    by (simp_all add: d)
  show ?thesis
    using vsprintf_correct [OF r(1), of 8] vsprintf_correct [OF r(2), of 8] by simp
qed

lemma last_nonzero_append:
  "0 \<notin> set xs \<Longrightarrow> xs \<noteq> [] \<Longrightarrow> length xs + k = Suc i \<Longrightarrow>
    last_nonzero (xs @ replicate k 0) i = (if length xs = 1 then - 1 else int (length xs - 1))"
proof (induction i arbitrary: k)
  case (Suc i)
  show ?case
  proof (cases k)
    case 0
    then have "xs ! Suc i \<noteq> 0" using Suc.prems by (metis add_0_right lessI nth_mem)
    then show ?thesis using Suc.prems 0 by simp
  next
    case (Suc k')
    then have "length xs + k' = Suc i" using Suc.prems(3) by simp
    moreover have "(xs @ replicate k 0) ! Suc i = 0"
      using Suc.prems(3) \<open>k = Suc k'\<close> by (simp add: nth_append del: replicate_Suc)
    moreover have "last_nonzero (xs @ replicate k 0) i = last_nonzero (xs @ replicate k' 0) i"
    proof -
      have "last_nonzero (ys @ zs) j = last_nonzero (ys @ zs') j" if "j < length ys" for ys zs zs' and j
        using that by (induction j) (simp_all add: nth_append)
      from this [of i "xs @ replicate k' 0" "[0]" "[]"] Suc.prems(3) show ?thesis
        using Suc by (simp add: replicate_append_same)
    qed
    ultimately show ?thesis using Suc.IH [of k'] Suc.prems by simp
  qed
qed (cases xs, auto)

text \<open>
  \<open>snprintf\<close> returns the index of the last character it has stored, which is one less than the number of
  characters, and -1 when there is one or none.
\<close>

theorem snprintf_counts:
  assumes "render fmt args False = Some (out, False)" and "0 \<notin> set out" and "length out < n" and "n \<le> 2 ^ 31"
    and "n \<le> length buffer"
  shows "snprintf buffer n fmt args =
    Some (out @ replicate (n - length out) 0 @ drop n buffer, if length out \<le> 1 then - 1 else int (length out) - 1)"
proof -
  obtain k where k: "n = length out + Suc k" using assms(3) by (metis less_iff_Suc_add add_Suc_right)
  have v: "vsprintf (replicate n 0) fmt args = Some (out @ replicate (Suc k) 0, int (length out))"
    using vsprintf_renders [OF assms(1,3,4)] by (simp add: k blot_def)
  have "last_nonzero (out @ replicate (Suc k) 0) (n - 1) = (if length out \<le> 1 then - 1 else int (length out) - 1)"
  proof (cases "out = []")
    case True
    have "last_nonzero (replicate (Suc i + j) 0) i = - 1" for i j by (induction i arbitrary: j) (simp_all add: add_Suc_right [symmetric] del: add_Suc_right replicate_Suc)
    from this [of k 0] show ?thesis using True by (simp add: k)
  next
    case False
    then show ?thesis using last_nonzero_append [OF assms(2) False, of "Suc k" "n - 1"] by (cases out) (auto simp: k)
  qed
  then show ?thesis using v assms(5) by (simp add: snprintf_def k)
qed

text \<open>The format \<open>%d\<close>, of 42 and of 7.\<close>

theorem snprintf_counts_witness:
  "snprintf (replicate 4 1) 4 [0x25, 0x64, 0] [AInt 42] = Some ([0x34, 0x32] @ replicate 2 0, 1)
    \<and> snprintf (replicate 4 1) 4 [0x25, 0x64, 0] [AInt 7] = Some ([0x37] @ replicate 3 0, - 1)"
proof -
  have "to_digits 10 42 = [4, 2]" "to_digits 10 7 = [7]" by (simp_all add: to_digits.simps)
  then have d: "decimal 42 = [0x34, 0x32]" "decimal 7 = [0x37]"
    by (simp_all add: decimal_def lower_digit_def)
  have r: "render [0x25, 0x64, 0] [AInt 42] False = Some ([0x34, 0x32], False)"
    "render [0x25, 0x64, 0] [AInt 7] False = Some ([0x37], False)"
    by (simp_all add: d)
  show ?thesis
    using snprintf_counts [OF r(1), of 4 "replicate 4 1"] snprintf_counts [OF r(2), of 4 "replicate 4 1"] by simp
qed

end
