(* ===== verification/Font.thy ===== *)
theory Font
  imports Prelude
begin

text \<open>
  The bitmap font of \<open>kernel/gfx/terminus.cpp\<close>: the entries of \<open>font_terminus\<close> that an
  \<open>unsigned char\<close> can select, 16 rows of 8 pixels each. The macros of
  \<open>include/kernel/gfx/terminus.hpp\<close> name every byte by its picture, an \<open>X\<close> for a set bit and an
  underscore for a clear one; a row is written here as the binary numeral with the same picture.
  The table holds the characters 0 to 126 at their codes; the entry after 126 is the one for U+00A0,
  so from index 127 on an entry is not the glyph of its index.
\<close>

section \<open>The table\<close>

(* src/kernel/gfx/terminus.cpp:4-147 font_terminus *)
definition glyphs_00 :: "u8 list list" where
  "glyphs_00 = [
     [0b00000000, 0b00000000, 0b01111110, 0b01111110, 0b01111110, 0b01111110,
      0b01111110, 0b01111110, 0b01111110, 0b01111110, 0b01111110, 0b01111110,
      0b00000000, 0b00000000, 0b00000000, 0b00000000],
     [0b00000000, 0b00000000, 0b00000000, 0b00000000, 0b00010000, 0b00111000,
      0b01111100, 0b11111110, 0b01111100, 0b00111000, 0b00010000, 0b00000000,
      0b00000000, 0b00000000, 0b00000000, 0b00000000],
     [0b10101010, 0b01010101, 0b10101010, 0b01010101, 0b10101010, 0b01010101,
      0b10101010, 0b01010101, 0b10101010, 0b01010101, 0b10101010, 0b01010101,
      0b10101010, 0b01010101, 0b10101010, 0b01010101],
     [0b00000000, 0b10001000, 0b10001000, 0b11111000, 0b10001000, 0b10001000,
      0b10001000, 0b00000000, 0b00011111, 0b00000100, 0b00000100, 0b00000100,
      0b00000100, 0b00000100, 0b00000000, 0b00000000],
     [0b00000000, 0b11111000, 0b10000000, 0b11100000, 0b10000000, 0b10000000,
      0b10000000, 0b00000000, 0b00011111, 0b00010000, 0b00011100, 0b00010000,
      0b00010000, 0b00010000, 0b00000000, 0b00000000],
     [0b00000000, 0b01110000, 0b10001000, 0b10000000, 0b10000000, 0b10001000,
      0b01110000, 0b00000000, 0b00011110, 0b00010001, 0b00010001, 0b00011110,
      0b00010010, 0b00010001, 0b00000000, 0b00000000],
     [0b00000000, 0b10000000, 0b10000000, 0b10000000, 0b10000000, 0b10000000,
      0b11111000, 0b00000000, 0b00011111, 0b00010000, 0b00011100, 0b00010000,
      0b00010000, 0b00010000, 0b00000000, 0b00000000],
     [0b00000000, 0b00011000, 0b00100100, 0b00100100, 0b00011000, 0b00000000,
      0b00000000, 0b00000000, 0b00000000, 0b00000000, 0b00000000, 0b00000000,
      0b00000000, 0b00000000, 0b00000000, 0b00000000]]"

(* src/kernel/gfx/terminus.cpp:148-291 font_terminus *)
definition glyphs_08 :: "u8 list list" where
  "glyphs_08 = [
     [0b00000000, 0b00000000, 0b00000000, 0b00000000, 0b00000000, 0b00010000,
      0b00010000, 0b01111100, 0b00010000, 0b00010000, 0b00000000, 0b01111100,
      0b00000000, 0b00000000, 0b00000000, 0b00000000],
     [0b00000000, 0b10001000, 0b11001000, 0b10101000, 0b10011000, 0b10001000,
      0b10001000, 0b00000000, 0b00010000, 0b00010000, 0b00010000, 0b00010000,
      0b00010000, 0b00011111, 0b00000000, 0b00000000],
     [0b00000000, 0b10001000, 0b10001000, 0b01010000, 0b01010000, 0b00100000,
      0b00100000, 0b00000000, 0b00011111, 0b00000100, 0b00000100, 0b00000100,
      0b00000100, 0b00000100, 0b00000000, 0b00000000],
     [0b00010000, 0b00010000, 0b00010000, 0b00010000, 0b00010000, 0b00010000,
      0b00010000, 0b11110000, 0b00000000, 0b00000000, 0b00000000, 0b00000000,
      0b00000000, 0b00000000, 0b00000000, 0b00000000],
     [0b00000000, 0b00000000, 0b00000000, 0b00000000, 0b00000000, 0b00000000,
      0b00000000, 0b11110000, 0b00010000, 0b00010000, 0b00010000, 0b00010000,
      0b00010000, 0b00010000, 0b00010000, 0b00010000],
     [0b00000000, 0b00000000, 0b00000000, 0b00000000, 0b00000000, 0b00000000,
      0b00000000, 0b00011111, 0b00010000, 0b00010000, 0b00010000, 0b00010000,
      0b00010000, 0b00010000, 0b00010000, 0b00010000],
     [0b00010000, 0b00010000, 0b00010000, 0b00010000, 0b00010000, 0b00010000,
      0b00010000, 0b00011111, 0b00000000, 0b00000000, 0b00000000, 0b00000000,
      0b00000000, 0b00000000, 0b00000000, 0b00000000],
     [0b00010000, 0b00010000, 0b00010000, 0b00010000, 0b00010000, 0b00010000,
      0b00010000, 0b11111111, 0b00010000, 0b00010000, 0b00010000, 0b00010000,
      0b00010000, 0b00010000, 0b00010000, 0b00010000]]"

(* src/kernel/gfx/terminus.cpp:292-435 font_terminus *)
definition glyphs_10 :: "u8 list list" where
  "glyphs_10 = [
     [0b11111111, 0b00000000, 0b00000000, 0b00000000, 0b00000000, 0b00000000,
      0b00000000, 0b00000000, 0b00000000, 0b00000000, 0b00000000, 0b00000000,
      0b00000000, 0b00000000, 0b00000000, 0b00000000],
     [0b00000000, 0b00000000, 0b00000000, 0b00000000, 0b11111111, 0b00000000,
      0b00000000, 0b00000000, 0b00000000, 0b00000000, 0b00000000, 0b00000000,
      0b00000000, 0b00000000, 0b00000000, 0b00000000],
     [0b00000000, 0b00000000, 0b00000000, 0b00000000, 0b00000000, 0b00000000,
      0b00000000, 0b11111111, 0b00000000, 0b00000000, 0b00000000, 0b00000000,
      0b00000000, 0b00000000, 0b00000000, 0b00000000],
     [0b00000000, 0b00000000, 0b00000000, 0b00000000, 0b00000000, 0b00000000,
      0b00000000, 0b00000000, 0b00000000, 0b00000000, 0b00000000, 0b11111111,
      0b00000000, 0b00000000, 0b00000000, 0b00000000],
     [0b00000000, 0b00000000, 0b00000000, 0b00000000, 0b00000000, 0b00000000,
      0b00000000, 0b00000000, 0b00000000, 0b00000000, 0b00000000, 0b00000000,
      0b00000000, 0b00000000, 0b00000000, 0b11111111],
     [0b00010000, 0b00010000, 0b00010000, 0b00010000, 0b00010000, 0b00010000,
      0b00010000, 0b00011111, 0b00010000, 0b00010000, 0b00010000, 0b00010000,
      0b00010000, 0b00010000, 0b00010000, 0b00010000],
     [0b00010000, 0b00010000, 0b00010000, 0b00010000, 0b00010000, 0b00010000,
      0b00010000, 0b11110000, 0b00010000, 0b00010000, 0b00010000, 0b00010000,
      0b00010000, 0b00010000, 0b00010000, 0b00010000],
     [0b00010000, 0b00010000, 0b00010000, 0b00010000, 0b00010000, 0b00010000,
      0b00010000, 0b11111111, 0b00000000, 0b00000000, 0b00000000, 0b00000000,
      0b00000000, 0b00000000, 0b00000000, 0b00000000]]"

(* src/kernel/gfx/terminus.cpp:436-579 font_terminus *)
definition glyphs_18 :: "u8 list list" where
  "glyphs_18 = [
     [0b00000000, 0b00000000, 0b00000000, 0b00000000, 0b00000000, 0b00000000,
      0b00000000, 0b11111111, 0b00010000, 0b00010000, 0b00010000, 0b00010000,
      0b00010000, 0b00010000, 0b00010000, 0b00010000],
     [0b00010000, 0b00010000, 0b00010000, 0b00010000, 0b00010000, 0b00010000,
      0b00010000, 0b00010000, 0b00010000, 0b00010000, 0b00010000, 0b00010000,
      0b00010000, 0b00010000, 0b00010000, 0b00010000],
     [0b00000000, 0b00000000, 0b00000000, 0b00000100, 0b00001000, 0b00010000,
      0b00100000, 0b00010000, 0b00001000, 0b00000100, 0b00000000, 0b00111110,
      0b00000000, 0b00000000, 0b00000000, 0b00000000],
     [0b00000000, 0b00000000, 0b00000000, 0b00100000, 0b00010000, 0b00001000,
      0b00000100, 0b00001000, 0b00010000, 0b00100000, 0b00000000, 0b01111100,
      0b00000000, 0b00000000, 0b00000000, 0b00000000],
     [0b00000000, 0b00000000, 0b00000000, 0b00000000, 0b00000000, 0b01111110,
      0b01000010, 0b01000010, 0b01000010, 0b01000010, 0b01000010, 0b01000010,
      0b00000000, 0b00000000, 0b00000000, 0b00000000],
     [0b00000000, 0b00000000, 0b00000000, 0b00000000, 0b00000010, 0b01111110,
      0b00001000, 0b00010000, 0b01111110, 0b01000000, 0b00000000, 0b00000000,
      0b00000000, 0b00000000, 0b00000000, 0b00000000],
     [0b00000000, 0b00000000, 0b00011000, 0b00100100, 0b00100000, 0b00100000,
      0b01111000, 0b00100000, 0b00100000, 0b00100000, 0b00100010, 0b01111110,
      0b00000000, 0b00000000, 0b00000000, 0b00000000],
     [0b00000000, 0b00000000, 0b00000000, 0b00000000, 0b00000000, 0b00000000,
      0b00000000, 0b00010000, 0b00010000, 0b00000000, 0b00000000, 0b00000000,
      0b00000000, 0b00000000, 0b00000000, 0b00000000]]"

(* src/kernel/gfx/terminus.cpp:580-723 font_terminus *)
definition glyphs_20 :: "u8 list list" where
  "glyphs_20 = [
     [0b00000000, 0b00000000, 0b00000000, 0b00000000, 0b00000000, 0b00000000,
      0b00000000, 0b00000000, 0b00000000, 0b00000000, 0b00000000, 0b00000000,
      0b00000000, 0b00000000, 0b00000000, 0b00000000],
     [0b00000000, 0b00000000, 0b00010000, 0b00010000, 0b00010000, 0b00010000,
      0b00010000, 0b00010000, 0b00010000, 0b00000000, 0b00010000, 0b00010000,
      0b00000000, 0b00000000, 0b00000000, 0b00000000],
     [0b00000000, 0b00100100, 0b00100100, 0b00100100, 0b00000000, 0b00000000,
      0b00000000, 0b00000000, 0b00000000, 0b00000000, 0b00000000, 0b00000000,
      0b00000000, 0b00000000, 0b00000000, 0b00000000],
     [0b00000000, 0b00000000, 0b00100100, 0b00100100, 0b00100100, 0b01111110,
      0b00100100, 0b00100100, 0b01111110, 0b00100100, 0b00100100, 0b00100100,
      0b00000000, 0b00000000, 0b00000000, 0b00000000],
     [0b00000000, 0b00010000, 0b00010000, 0b01111100, 0b10010010, 0b10010000,
      0b10010000, 0b01111100, 0b00010010, 0b00010010, 0b10010010, 0b01111100,
      0b00010000, 0b00010000, 0b00000000, 0b00000000],
     [0b00000000, 0b00000000, 0b01100100, 0b10010100, 0b01101000, 0b00001000,
      0b00010000, 0b00010000, 0b00100000, 0b00101100, 0b01010010, 0b01001100,
      0b00000000, 0b00000000, 0b00000000, 0b00000000],
     [0b00000000, 0b00000000, 0b00011000, 0b00100100, 0b00100100, 0b00011000,
      0b00110000, 0b01001010, 0b01000100, 0b01000100, 0b01000100, 0b00111010,
      0b00000000, 0b00000000, 0b00000000, 0b00000000],
     [0b00000000, 0b00010000, 0b00010000, 0b00010000, 0b00000000, 0b00000000,
      0b00000000, 0b00000000, 0b00000000, 0b00000000, 0b00000000, 0b00000000,
      0b00000000, 0b00000000, 0b00000000, 0b00000000]]"

(* src/kernel/gfx/terminus.cpp:724-867 font_terminus *)
definition glyphs_28 :: "u8 list list" where
  "glyphs_28 = [
     [0b00000000, 0b00000000, 0b00001000, 0b00010000, 0b00100000, 0b00100000,
      0b00100000, 0b00100000, 0b00100000, 0b00100000, 0b00010000, 0b00001000,
      0b00000000, 0b00000000, 0b00000000, 0b00000000],
     [0b00000000, 0b00000000, 0b00100000, 0b00010000, 0b00001000, 0b00001000,
      0b00001000, 0b00001000, 0b00001000, 0b00001000, 0b00010000, 0b00100000,
      0b00000000, 0b00000000, 0b00000000, 0b00000000],
     [0b00000000, 0b00000000, 0b00000000, 0b00000000, 0b00000000, 0b00100100,
      0b00011000, 0b01111110, 0b00011000, 0b00100100, 0b00000000, 0b00000000,
      0b00000000, 0b00000000, 0b00000000, 0b00000000],
     [0b00000000, 0b00000000, 0b00000000, 0b00000000, 0b00000000, 0b00010000,
      0b00010000, 0b01111100, 0b00010000, 0b00010000, 0b00000000, 0b00000000,
      0b00000000, 0b00000000, 0b00000000, 0b00000000],
     [0b00000000, 0b00000000, 0b00000000, 0b00000000, 0b00000000, 0b00000000,
      0b00000000, 0b00000000, 0b00000000, 0b00000000, 0b00010000, 0b00010000,
      0b00100000, 0b00000000, 0b00000000, 0b00000000],
     [0b00000000, 0b00000000, 0b00000000, 0b00000000, 0b00000000, 0b00000000,
      0b00000000, 0b01111110, 0b00000000, 0b00000000, 0b00000000, 0b00000000,
      0b00000000, 0b00000000, 0b00000000, 0b00000000],
     [0b00000000, 0b00000000, 0b00000000, 0b00000000, 0b00000000, 0b00000000,
      0b00000000, 0b00000000, 0b00000000, 0b00000000, 0b00010000, 0b00010000,
      0b00000000, 0b00000000, 0b00000000, 0b00000000],
     [0b00000000, 0b00000000, 0b00000100, 0b00000100, 0b00001000, 0b00001000,
      0b00010000, 0b00010000, 0b00100000, 0b00100000, 0b01000000, 0b01000000,
      0b00000000, 0b00000000, 0b00000000, 0b00000000]]"

(* src/kernel/gfx/terminus.cpp:868-1011 font_terminus *)
definition glyphs_30 :: "u8 list list" where
  "glyphs_30 = [
     [0b00000000, 0b00000000, 0b00111100, 0b01000010, 0b01000010, 0b01000110,
      0b01001010, 0b01010010, 0b01100010, 0b01000010, 0b01000010, 0b00111100,
      0b00000000, 0b00000000, 0b00000000, 0b00000000],
     [0b00000000, 0b00000000, 0b00001000, 0b00011000, 0b00101000, 0b00001000,
      0b00001000, 0b00001000, 0b00001000, 0b00001000, 0b00001000, 0b00111110,
      0b00000000, 0b00000000, 0b00000000, 0b00000000],
     [0b00000000, 0b00000000, 0b00111100, 0b01000010, 0b01000010, 0b00000010,
      0b00000100, 0b00001000, 0b00010000, 0b00100000, 0b01000000, 0b01111110,
      0b00000000, 0b00000000, 0b00000000, 0b00000000],
     [0b00000000, 0b00000000, 0b00111100, 0b01000010, 0b01000010, 0b00000010,
      0b00011100, 0b00000010, 0b00000010, 0b01000010, 0b01000010, 0b00111100,
      0b00000000, 0b00000000, 0b00000000, 0b00000000],
     [0b00000000, 0b00000000, 0b00000010, 0b00000110, 0b00001010, 0b00010010,
      0b00100010, 0b01000010, 0b01111110, 0b00000010, 0b00000010, 0b00000010,
      0b00000000, 0b00000000, 0b00000000, 0b00000000],
     [0b00000000, 0b00000000, 0b01111110, 0b01000000, 0b01000000, 0b01000000,
      0b01111100, 0b00000010, 0b00000010, 0b00000010, 0b01000010, 0b00111100,
      0b00000000, 0b00000000, 0b00000000, 0b00000000],
     [0b00000000, 0b00000000, 0b00011100, 0b00100000, 0b01000000, 0b01000000,
      0b01111100, 0b01000010, 0b01000010, 0b01000010, 0b01000010, 0b00111100,
      0b00000000, 0b00000000, 0b00000000, 0b00000000],
     [0b00000000, 0b00000000, 0b01111110, 0b00000010, 0b00000010, 0b00000100,
      0b00000100, 0b00001000, 0b00001000, 0b00010000, 0b00010000, 0b00010000,
      0b00000000, 0b00000000, 0b00000000, 0b00000000]]"

(* src/kernel/gfx/terminus.cpp:1012-1155 font_terminus *)
definition glyphs_38 :: "u8 list list" where
  "glyphs_38 = [
     [0b00000000, 0b00000000, 0b00111100, 0b01000010, 0b01000010, 0b01000010,
      0b00111100, 0b01000010, 0b01000010, 0b01000010, 0b01000010, 0b00111100,
      0b00000000, 0b00000000, 0b00000000, 0b00000000],
     [0b00000000, 0b00000000, 0b00111100, 0b01000010, 0b01000010, 0b01000010,
      0b01000010, 0b00111110, 0b00000010, 0b00000010, 0b00000100, 0b00111000,
      0b00000000, 0b00000000, 0b00000000, 0b00000000],
     [0b00000000, 0b00000000, 0b00000000, 0b00000000, 0b00000000, 0b00010000,
      0b00010000, 0b00000000, 0b00000000, 0b00000000, 0b00010000, 0b00010000,
      0b00000000, 0b00000000, 0b00000000, 0b00000000],
     [0b00000000, 0b00000000, 0b00000000, 0b00000000, 0b00000000, 0b00010000,
      0b00010000, 0b00000000, 0b00000000, 0b00000000, 0b00010000, 0b00010000,
      0b00100000, 0b00000000, 0b00000000, 0b00000000],
     [0b00000000, 0b00000000, 0b00000000, 0b00000100, 0b00001000, 0b00010000,
      0b00100000, 0b01000000, 0b00100000, 0b00010000, 0b00001000, 0b00000100,
      0b00000000, 0b00000000, 0b00000000, 0b00000000],
     [0b00000000, 0b00000000, 0b00000000, 0b00000000, 0b00000000, 0b01111110,
      0b00000000, 0b00000000, 0b01111110, 0b00000000, 0b00000000, 0b00000000,
      0b00000000, 0b00000000, 0b00000000, 0b00000000],
     [0b00000000, 0b00000000, 0b00000000, 0b01000000, 0b00100000, 0b00010000,
      0b00001000, 0b00000100, 0b00001000, 0b00010000, 0b00100000, 0b01000000,
      0b00000000, 0b00000000, 0b00000000, 0b00000000],
     [0b00000000, 0b00000000, 0b00111100, 0b01000010, 0b01000010, 0b01000010,
      0b00000100, 0b00001000, 0b00001000, 0b00000000, 0b00001000, 0b00001000,
      0b00000000, 0b00000000, 0b00000000, 0b00000000]]"

(* src/kernel/gfx/terminus.cpp:1156-1299 font_terminus *)
definition glyphs_40 :: "u8 list list" where
  "glyphs_40 = [
     [0b00000000, 0b00000000, 0b01111100, 0b10000010, 0b10011110, 0b10100010,
      0b10100010, 0b10100010, 0b10100110, 0b10011010, 0b10000000, 0b01111110,
      0b00000000, 0b00000000, 0b00000000, 0b00000000],
     [0b00000000, 0b00000000, 0b00111100, 0b01000010, 0b01000010, 0b01000010,
      0b01000010, 0b01111110, 0b01000010, 0b01000010, 0b01000010, 0b01000010,
      0b00000000, 0b00000000, 0b00000000, 0b00000000],
     [0b00000000, 0b00000000, 0b01111100, 0b01000010, 0b01000010, 0b01000010,
      0b01111100, 0b01000010, 0b01000010, 0b01000010, 0b01000010, 0b01111100,
      0b00000000, 0b00000000, 0b00000000, 0b00000000],
     [0b00000000, 0b00000000, 0b00111100, 0b01000010, 0b01000010, 0b01000000,
      0b01000000, 0b01000000, 0b01000000, 0b01000010, 0b01000010, 0b00111100,
      0b00000000, 0b00000000, 0b00000000, 0b00000000],
     [0b00000000, 0b00000000, 0b01111000, 0b01000100, 0b01000010, 0b01000010,
      0b01000010, 0b01000010, 0b01000010, 0b01000010, 0b01000100, 0b01111000,
      0b00000000, 0b00000000, 0b00000000, 0b00000000],
     [0b00000000, 0b00000000, 0b01111110, 0b01000000, 0b01000000, 0b01000000,
      0b01111000, 0b01000000, 0b01000000, 0b01000000, 0b01000000, 0b01111110,
      0b00000000, 0b00000000, 0b00000000, 0b00000000],
     [0b00000000, 0b00000000, 0b01111110, 0b01000000, 0b01000000, 0b01000000,
      0b01111000, 0b01000000, 0b01000000, 0b01000000, 0b01000000, 0b01000000,
      0b00000000, 0b00000000, 0b00000000, 0b00000000],
     [0b00000000, 0b00000000, 0b00111100, 0b01000010, 0b01000010, 0b01000000,
      0b01000000, 0b01001110, 0b01000010, 0b01000010, 0b01000010, 0b00111100,
      0b00000000, 0b00000000, 0b00000000, 0b00000000]]"

(* src/kernel/gfx/terminus.cpp:1300-1443 font_terminus *)
definition glyphs_48 :: "u8 list list" where
  "glyphs_48 = [
     [0b00000000, 0b00000000, 0b01000010, 0b01000010, 0b01000010, 0b01000010,
      0b01111110, 0b01000010, 0b01000010, 0b01000010, 0b01000010, 0b01000010,
      0b00000000, 0b00000000, 0b00000000, 0b00000000],
     [0b00000000, 0b00000000, 0b00111000, 0b00010000, 0b00010000, 0b00010000,
      0b00010000, 0b00010000, 0b00010000, 0b00010000, 0b00010000, 0b00111000,
      0b00000000, 0b00000000, 0b00000000, 0b00000000],
     [0b00000000, 0b00000000, 0b00001110, 0b00000100, 0b00000100, 0b00000100,
      0b00000100, 0b00000100, 0b00000100, 0b01000100, 0b01000100, 0b00111000,
      0b00000000, 0b00000000, 0b00000000, 0b00000000],
     [0b00000000, 0b00000000, 0b01000010, 0b01000100, 0b01001000, 0b01010000,
      0b01100000, 0b01100000, 0b01010000, 0b01001000, 0b01000100, 0b01000010,
      0b00000000, 0b00000000, 0b00000000, 0b00000000],
     [0b00000000, 0b00000000, 0b01000000, 0b01000000, 0b01000000, 0b01000000,
      0b01000000, 0b01000000, 0b01000000, 0b01000000, 0b01000000, 0b01111110,
      0b00000000, 0b00000000, 0b00000000, 0b00000000],
     [0b00000000, 0b00000000, 0b10000010, 0b11000110, 0b10101010, 0b10010010,
      0b10010010, 0b10000010, 0b10000010, 0b10000010, 0b10000010, 0b10000010,
      0b00000000, 0b00000000, 0b00000000, 0b00000000],
     [0b00000000, 0b00000000, 0b01000010, 0b01000010, 0b01000010, 0b01100010,
      0b01010010, 0b01001010, 0b01000110, 0b01000010, 0b01000010, 0b01000010,
      0b00000000, 0b00000000, 0b00000000, 0b00000000],
     [0b00000000, 0b00000000, 0b00111100, 0b01000010, 0b01000010, 0b01000010,
      0b01000010, 0b01000010, 0b01000010, 0b01000010, 0b01000010, 0b00111100,
      0b00000000, 0b00000000, 0b00000000, 0b00000000]]"

(* src/kernel/gfx/terminus.cpp:1444-1587 font_terminus *)
definition glyphs_50 :: "u8 list list" where
  "glyphs_50 = [
     [0b00000000, 0b00000000, 0b01111100, 0b01000010, 0b01000010, 0b01000010,
      0b01000010, 0b01111100, 0b01000000, 0b01000000, 0b01000000, 0b01000000,
      0b00000000, 0b00000000, 0b00000000, 0b00000000],
     [0b00000000, 0b00000000, 0b00111100, 0b01000010, 0b01000010, 0b01000010,
      0b01000010, 0b01000010, 0b01000010, 0b01000010, 0b01001010, 0b00111100,
      0b00000010, 0b00000000, 0b00000000, 0b00000000],
     [0b00000000, 0b00000000, 0b01111100, 0b01000010, 0b01000010, 0b01000010,
      0b01000010, 0b01111100, 0b01010000, 0b01001000, 0b01000100, 0b01000010,
      0b00000000, 0b00000000, 0b00000000, 0b00000000],
     [0b00000000, 0b00000000, 0b00111100, 0b01000010, 0b01000000, 0b01000000,
      0b00111100, 0b00000010, 0b00000010, 0b01000010, 0b01000010, 0b00111100,
      0b00000000, 0b00000000, 0b00000000, 0b00000000],
     [0b00000000, 0b00000000, 0b11111110, 0b00010000, 0b00010000, 0b00010000,
      0b00010000, 0b00010000, 0b00010000, 0b00010000, 0b00010000, 0b00010000,
      0b00000000, 0b00000000, 0b00000000, 0b00000000],
     [0b00000000, 0b00000000, 0b01000010, 0b01000010, 0b01000010, 0b01000010,
      0b01000010, 0b01000010, 0b01000010, 0b01000010, 0b01000010, 0b00111100,
      0b00000000, 0b00000000, 0b00000000, 0b00000000],
     [0b00000000, 0b00000000, 0b01000010, 0b01000010, 0b01000010, 0b01000010,
      0b01000010, 0b00100100, 0b00100100, 0b00100100, 0b00011000, 0b00011000,
      0b00000000, 0b00000000, 0b00000000, 0b00000000],
     [0b00000000, 0b00000000, 0b10000010, 0b10000010, 0b10000010, 0b10000010,
      0b10000010, 0b10010010, 0b10010010, 0b10101010, 0b11000110, 0b10000010,
      0b00000000, 0b00000000, 0b00000000, 0b00000000]]"

(* src/kernel/gfx/terminus.cpp:1588-1731 font_terminus *)
definition glyphs_58 :: "u8 list list" where
  "glyphs_58 = [
     [0b00000000, 0b00000000, 0b01000010, 0b01000010, 0b00100100, 0b00100100,
      0b00011000, 0b00011000, 0b00100100, 0b00100100, 0b01000010, 0b01000010,
      0b00000000, 0b00000000, 0b00000000, 0b00000000],
     [0b00000000, 0b00000000, 0b10000010, 0b10000010, 0b01000100, 0b01000100,
      0b00101000, 0b00010000, 0b00010000, 0b00010000, 0b00010000, 0b00010000,
      0b00000000, 0b00000000, 0b00000000, 0b00000000],
     [0b00000000, 0b00000000, 0b01111110, 0b00000010, 0b00000010, 0b00000100,
      0b00001000, 0b00010000, 0b00100000, 0b01000000, 0b01000000, 0b01111110,
      0b00000000, 0b00000000, 0b00000000, 0b00000000],
     [0b00000000, 0b00000000, 0b00111000, 0b00100000, 0b00100000, 0b00100000,
      0b00100000, 0b00100000, 0b00100000, 0b00100000, 0b00100000, 0b00111000,
      0b00000000, 0b00000000, 0b00000000, 0b00000000],
     [0b00000000, 0b00000000, 0b01000000, 0b01000000, 0b00100000, 0b00100000,
      0b00010000, 0b00010000, 0b00001000, 0b00001000, 0b00000100, 0b00000100,
      0b00000000, 0b00000000, 0b00000000, 0b00000000],
     [0b00000000, 0b00000000, 0b00111000, 0b00001000, 0b00001000, 0b00001000,
      0b00001000, 0b00001000, 0b00001000, 0b00001000, 0b00001000, 0b00111000,
      0b00000000, 0b00000000, 0b00000000, 0b00000000],
     [0b00000000, 0b00010000, 0b00101000, 0b01000100, 0b00000000, 0b00000000,
      0b00000000, 0b00000000, 0b00000000, 0b00000000, 0b00000000, 0b00000000,
      0b00000000, 0b00000000, 0b00000000, 0b00000000],
     [0b00000000, 0b00000000, 0b00000000, 0b00000000, 0b00000000, 0b00000000,
      0b00000000, 0b00000000, 0b00000000, 0b00000000, 0b00000000, 0b00000000,
      0b00000000, 0b01111110, 0b00000000, 0b00000000]]"

(* src/kernel/gfx/terminus.cpp:1732-1875 font_terminus *)
definition glyphs_60 :: "u8 list list" where
  "glyphs_60 = [
     [0b00010000, 0b00001000, 0b00000000, 0b00000000, 0b00000000, 0b00000000,
      0b00000000, 0b00000000, 0b00000000, 0b00000000, 0b00000000, 0b00000000,
      0b00000000, 0b00000000, 0b00000000, 0b00000000],
     [0b00000000, 0b00000000, 0b00000000, 0b00000000, 0b00000000, 0b00111100,
      0b00000010, 0b00111110, 0b01000010, 0b01000010, 0b01000010, 0b00111110,
      0b00000000, 0b00000000, 0b00000000, 0b00000000],
     [0b00000000, 0b00000000, 0b01000000, 0b01000000, 0b01000000, 0b01111100,
      0b01000010, 0b01000010, 0b01000010, 0b01000010, 0b01000010, 0b01111100,
      0b00000000, 0b00000000, 0b00000000, 0b00000000],
     [0b00000000, 0b00000000, 0b00000000, 0b00000000, 0b00000000, 0b00111100,
      0b01000010, 0b01000000, 0b01000000, 0b01000000, 0b01000010, 0b00111100,
      0b00000000, 0b00000000, 0b00000000, 0b00000000],
     [0b00000000, 0b00000000, 0b00000010, 0b00000010, 0b00000010, 0b00111110,
      0b01000010, 0b01000010, 0b01000010, 0b01000010, 0b01000010, 0b00111110,
      0b00000000, 0b00000000, 0b00000000, 0b00000000],
     [0b00000000, 0b00000000, 0b00000000, 0b00000000, 0b00000000, 0b00111100,
      0b01000010, 0b01000010, 0b01111110, 0b01000000, 0b01000000, 0b00111100,
      0b00000000, 0b00000000, 0b00000000, 0b00000000],
     [0b00000000, 0b00000000, 0b00001110, 0b00010000, 0b00010000, 0b01111100,
      0b00010000, 0b00010000, 0b00010000, 0b00010000, 0b00010000, 0b00010000,
      0b00000000, 0b00000000, 0b00000000, 0b00000000],
     [0b00000000, 0b00000000, 0b00000000, 0b00000000, 0b00000000, 0b00111110,
      0b01000010, 0b01000010, 0b01000010, 0b01000010, 0b01000010, 0b00111110,
      0b00000010, 0b00000010, 0b00111100, 0b00000000]]"

(* src/kernel/gfx/terminus.cpp:1876-2019 font_terminus *)
definition glyphs_68 :: "u8 list list" where
  "glyphs_68 = [
     [0b00000000, 0b00000000, 0b01000000, 0b01000000, 0b01000000, 0b01111100,
      0b01000010, 0b01000010, 0b01000010, 0b01000010, 0b01000010, 0b01000010,
      0b00000000, 0b00000000, 0b00000000, 0b00000000],
     [0b00000000, 0b00000000, 0b00010000, 0b00010000, 0b00000000, 0b00110000,
      0b00010000, 0b00010000, 0b00010000, 0b00010000, 0b00010000, 0b00111000,
      0b00000000, 0b00000000, 0b00000000, 0b00000000],
     [0b00000000, 0b00000000, 0b00000100, 0b00000100, 0b00000000, 0b00001100,
      0b00000100, 0b00000100, 0b00000100, 0b00000100, 0b00000100, 0b00000100,
      0b01000100, 0b01000100, 0b00111000, 0b00000000],
     [0b00000000, 0b00000000, 0b01000000, 0b01000000, 0b01000000, 0b01000010,
      0b01000100, 0b01001000, 0b01110000, 0b01001000, 0b01000100, 0b01000010,
      0b00000000, 0b00000000, 0b00000000, 0b00000000],
     [0b00000000, 0b00000000, 0b00110000, 0b00010000, 0b00010000, 0b00010000,
      0b00010000, 0b00010000, 0b00010000, 0b00010000, 0b00010000, 0b00111000,
      0b00000000, 0b00000000, 0b00000000, 0b00000000],
     [0b00000000, 0b00000000, 0b00000000, 0b00000000, 0b00000000, 0b11111100,
      0b10010010, 0b10010010, 0b10010010, 0b10010010, 0b10010010, 0b10010010,
      0b00000000, 0b00000000, 0b00000000, 0b00000000],
     [0b00000000, 0b00000000, 0b00000000, 0b00000000, 0b00000000, 0b01111100,
      0b01000010, 0b01000010, 0b01000010, 0b01000010, 0b01000010, 0b01000010,
      0b00000000, 0b00000000, 0b00000000, 0b00000000],
     [0b00000000, 0b00000000, 0b00000000, 0b00000000, 0b00000000, 0b00111100,
      0b01000010, 0b01000010, 0b01000010, 0b01000010, 0b01000010, 0b00111100,
      0b00000000, 0b00000000, 0b00000000, 0b00000000]]"

(* src/kernel/gfx/terminus.cpp:2020-2163 font_terminus *)
definition glyphs_70 :: "u8 list list" where
  "glyphs_70 = [
     [0b00000000, 0b00000000, 0b00000000, 0b00000000, 0b00000000, 0b01111100,
      0b01000010, 0b01000010, 0b01000010, 0b01000010, 0b01000010, 0b01111100,
      0b01000000, 0b01000000, 0b01000000, 0b00000000],
     [0b00000000, 0b00000000, 0b00000000, 0b00000000, 0b00000000, 0b00111110,
      0b01000010, 0b01000010, 0b01000010, 0b01000010, 0b01000010, 0b00111110,
      0b00000010, 0b00000010, 0b00000010, 0b00000000],
     [0b00000000, 0b00000000, 0b00000000, 0b00000000, 0b00000000, 0b01011110,
      0b01100000, 0b01000000, 0b01000000, 0b01000000, 0b01000000, 0b01000000,
      0b00000000, 0b00000000, 0b00000000, 0b00000000],
     [0b00000000, 0b00000000, 0b00000000, 0b00000000, 0b00000000, 0b00111110,
      0b01000000, 0b01000000, 0b00111100, 0b00000010, 0b00000010, 0b01111100,
      0b00000000, 0b00000000, 0b00000000, 0b00000000],
     [0b00000000, 0b00000000, 0b00010000, 0b00010000, 0b00010000, 0b01111100,
      0b00010000, 0b00010000, 0b00010000, 0b00010000, 0b00010000, 0b00001110,
      0b00000000, 0b00000000, 0b00000000, 0b00000000],
     [0b00000000, 0b00000000, 0b00000000, 0b00000000, 0b00000000, 0b01000010,
      0b01000010, 0b01000010, 0b01000010, 0b01000010, 0b01000010, 0b00111110,
      0b00000000, 0b00000000, 0b00000000, 0b00000000],
     [0b00000000, 0b00000000, 0b00000000, 0b00000000, 0b00000000, 0b01000010,
      0b01000010, 0b01000010, 0b00100100, 0b00100100, 0b00011000, 0b00011000,
      0b00000000, 0b00000000, 0b00000000, 0b00000000],
     [0b00000000, 0b00000000, 0b00000000, 0b00000000, 0b00000000, 0b10000010,
      0b10000010, 0b10010010, 0b10010010, 0b10010010, 0b10010010, 0b01111100,
      0b00000000, 0b00000000, 0b00000000, 0b00000000]]"

(* src/kernel/gfx/terminus.cpp:2164-2307 font_terminus *)
definition glyphs_78 :: "u8 list list" where
  "glyphs_78 = [
     [0b00000000, 0b00000000, 0b00000000, 0b00000000, 0b00000000, 0b01000010,
      0b01000010, 0b00100100, 0b00011000, 0b00100100, 0b01000010, 0b01000010,
      0b00000000, 0b00000000, 0b00000000, 0b00000000],
     [0b00000000, 0b00000000, 0b00000000, 0b00000000, 0b00000000, 0b01000010,
      0b01000010, 0b01000010, 0b01000010, 0b01000010, 0b01000010, 0b00111110,
      0b00000010, 0b00000010, 0b00111100, 0b00000000],
     [0b00000000, 0b00000000, 0b00000000, 0b00000000, 0b00000000, 0b01111110,
      0b00000100, 0b00001000, 0b00010000, 0b00100000, 0b01000000, 0b01111110,
      0b00000000, 0b00000000, 0b00000000, 0b00000000],
     [0b00000000, 0b00000000, 0b00001100, 0b00010000, 0b00010000, 0b00010000,
      0b00100000, 0b00010000, 0b00010000, 0b00010000, 0b00010000, 0b00001100,
      0b00000000, 0b00000000, 0b00000000, 0b00000000],
     [0b00000000, 0b00000000, 0b00010000, 0b00010000, 0b00010000, 0b00010000,
      0b00010000, 0b00010000, 0b00010000, 0b00010000, 0b00010000, 0b00010000,
      0b00000000, 0b00000000, 0b00000000, 0b00000000],
     [0b00000000, 0b00000000, 0b00110000, 0b00001000, 0b00001000, 0b00001000,
      0b00000100, 0b00001000, 0b00001000, 0b00001000, 0b00001000, 0b00110000,
      0b00000000, 0b00000000, 0b00000000, 0b00000000],
     [0b00000000, 0b01100010, 0b10010010, 0b10001100, 0b00000000, 0b00000000,
      0b00000000, 0b00000000, 0b00000000, 0b00000000, 0b00000000, 0b00000000,
      0b00000000, 0b00000000, 0b00000000, 0b00000000],
     [0b00000000, 0b00000000, 0b00000000, 0b00000000, 0b00000000, 0b00000000,
      0b00000000, 0b00000000, 0b00000000, 0b00000000, 0b00000000, 0b00000000,
      0b00000000, 0b00000000, 0b00000000, 0b00000000]]"

(* src/kernel/gfx/terminus.cpp:2308-2451 font_terminus *)
definition glyphs_80 :: "u8 list list" where
  "glyphs_80 = [
     [0b00000000, 0b00000000, 0b00010000, 0b00010000, 0b00000000, 0b00010000,
      0b00010000, 0b00010000, 0b00010000, 0b00010000, 0b00010000, 0b00010000,
      0b00000000, 0b00000000, 0b00000000, 0b00000000],
     [0b00000000, 0b00000000, 0b00000000, 0b00010000, 0b00010000, 0b01111100,
      0b10010010, 0b10010000, 0b10010000, 0b10010000, 0b10010010, 0b01111100,
      0b00010000, 0b00010000, 0b00000000, 0b00000000],
     [0b00000000, 0b00000000, 0b00011000, 0b00100100, 0b00100000, 0b00100000,
      0b01111000, 0b00100000, 0b00100000, 0b00100000, 0b00100010, 0b01111110,
      0b00000000, 0b00000000, 0b00000000, 0b00000000],
     [0b00000000, 0b00000000, 0b00000000, 0b00000000, 0b01000100, 0b00111000,
      0b01000100, 0b01000100, 0b01000100, 0b00111000, 0b01000100, 0b00000000,
      0b00000000, 0b00000000, 0b00000000, 0b00000000],
     [0b00000000, 0b00000000, 0b10000010, 0b10000010, 0b01000100, 0b00101000,
      0b00010000, 0b01111100, 0b00010000, 0b01111100, 0b00010000, 0b00010000,
      0b00000000, 0b00000000, 0b00000000, 0b00000000],
     [0b00000000, 0b00000000, 0b00010000, 0b00010000, 0b00010000, 0b00010000,
      0b00000000, 0b00000000, 0b00010000, 0b00010000, 0b00010000, 0b00010000,
      0b00000000, 0b00000000, 0b00000000, 0b00000000],
     [0b00000000, 0b00111000, 0b01000100, 0b01000000, 0b00110000, 0b01001000,
      0b01000100, 0b01000100, 0b00100100, 0b00011000, 0b00000100, 0b01000100,
      0b00111000, 0b00000000, 0b00000000, 0b00000000],
     [0b00100100, 0b00100100, 0b00000000, 0b00000000, 0b00000000, 0b00000000,
      0b00000000, 0b00000000, 0b00000000, 0b00000000, 0b00000000, 0b00000000,
      0b00000000, 0b00000000, 0b00000000, 0b00000000]]"

(* src/kernel/gfx/terminus.cpp:2452-2595 font_terminus *)
definition glyphs_88 :: "u8 list list" where
  "glyphs_88 = [
     [0b00000000, 0b00000000, 0b00000000, 0b01111110, 0b10000001, 0b10011001,
      0b10100101, 0b10100001, 0b10100101, 0b10011001, 0b10000001, 0b01111110,
      0b00000000, 0b00000000, 0b00000000, 0b00000000],
     [0b00000000, 0b00111000, 0b00000100, 0b00111100, 0b01000100, 0b00111100,
      0b00000000, 0b01111100, 0b00000000, 0b00000000, 0b00000000, 0b00000000,
      0b00000000, 0b00000000, 0b00000000, 0b00000000],
     [0b00000000, 0b00000000, 0b00000000, 0b00000000, 0b00000000, 0b00010010,
      0b00100100, 0b01001000, 0b10010000, 0b01001000, 0b00100100, 0b00010010,
      0b00000000, 0b00000000, 0b00000000, 0b00000000],
     [0b00000000, 0b00000000, 0b00000000, 0b00000000, 0b00000000, 0b01111110,
      0b00000010, 0b00000010, 0b00000010, 0b00000000, 0b00000000, 0b00000000,
      0b00000000, 0b00000000, 0b00000000, 0b00000000],
     [0b00000000, 0b00000000, 0b00000000, 0b00000000, 0b00000000, 0b00000000,
      0b00000000, 0b00111100, 0b00000000, 0b00000000, 0b00000000, 0b00000000,
      0b00000000, 0b00000000, 0b00000000, 0b00000000],
     [0b00000000, 0b00000000, 0b00000000, 0b01111110, 0b10000001, 0b10111001,
      0b10100101, 0b10111001, 0b10101001, 0b10100101, 0b10000001, 0b01111110,
      0b00000000, 0b00000000, 0b00000000, 0b00000000],
     [0b00111100, 0b00000000, 0b00000000, 0b00000000, 0b00000000, 0b00000000,
      0b00000000, 0b00000000, 0b00000000, 0b00000000, 0b00000000, 0b00000000,
      0b00000000, 0b00000000, 0b00000000, 0b00000000],
     [0b00000000, 0b00011000, 0b00100100, 0b00100100, 0b00011000, 0b00000000,
      0b00000000, 0b00000000, 0b00000000, 0b00000000, 0b00000000, 0b00000000,
      0b00000000, 0b00000000, 0b00000000, 0b00000000]]"

(* src/kernel/gfx/terminus.cpp:2596-2739 font_terminus *)
definition glyphs_90 :: "u8 list list" where
  "glyphs_90 = [
     [0b00000000, 0b00000000, 0b00000000, 0b00000000, 0b00000000, 0b00010000,
      0b00010000, 0b01111100, 0b00010000, 0b00010000, 0b00000000, 0b01111100,
      0b00000000, 0b00000000, 0b00000000, 0b00000000],
     [0b00000000, 0b00011000, 0b00100100, 0b00001000, 0b00010000, 0b00111100,
      0b00000000, 0b00000000, 0b00000000, 0b00000000, 0b00000000, 0b00000000,
      0b00000000, 0b00000000, 0b00000000, 0b00000000],
     [0b00000000, 0b00111000, 0b00000100, 0b00011000, 0b00000100, 0b00111000,
      0b00000000, 0b00000000, 0b00000000, 0b00000000, 0b00000000, 0b00000000,
      0b00000000, 0b00000000, 0b00000000, 0b00000000],
     [0b00001000, 0b00010000, 0b00000000, 0b00000000, 0b00000000, 0b00000000,
      0b00000000, 0b00000000, 0b00000000, 0b00000000, 0b00000000, 0b00000000,
      0b00000000, 0b00000000, 0b00000000, 0b00000000],
     [0b00000000, 0b00000000, 0b00000000, 0b00000000, 0b00000000, 0b01000010,
      0b01000010, 0b01000010, 0b01000010, 0b01000010, 0b01000110, 0b01111010,
      0b01000000, 0b01000000, 0b01000000, 0b00000000],
     [0b00000000, 0b00000000, 0b01111110, 0b10010010, 0b10010010, 0b10010010,
      0b10010010, 0b01110010, 0b00010010, 0b00010010, 0b00010010, 0b00010010,
      0b00000000, 0b00000000, 0b00000000, 0b00000000],
     [0b00000000, 0b00000000, 0b00000000, 0b00000000, 0b00000000, 0b00000000,
      0b00000000, 0b00010000, 0b00010000, 0b00000000, 0b00000000, 0b00000000,
      0b00000000, 0b00000000, 0b00000000, 0b00000000],
     [0b00000000, 0b00000000, 0b00000000, 0b00000000, 0b00000000, 0b00000000,
      0b00000000, 0b00000000, 0b00000000, 0b00000000, 0b00000000, 0b00000000,
      0b00010000, 0b00010000, 0b00100000, 0b00000000]]"

(* src/kernel/gfx/terminus.cpp:2740-2883 font_terminus *)
definition glyphs_98 :: "u8 list list" where
  "glyphs_98 = [
     [0b00000000, 0b00010000, 0b00110000, 0b00010000, 0b00010000, 0b00010000,
      0b00000000, 0b00000000, 0b00000000, 0b00000000, 0b00000000, 0b00000000,
      0b00000000, 0b00000000, 0b00000000, 0b00000000],
     [0b00000000, 0b00111000, 0b01000100, 0b01000100, 0b01000100, 0b00111000,
      0b00000000, 0b01111100, 0b00000000, 0b00000000, 0b00000000, 0b00000000,
      0b00000000, 0b00000000, 0b00000000, 0b00000000],
     [0b00000000, 0b00000000, 0b00000000, 0b00000000, 0b00000000, 0b10010000,
      0b01001000, 0b00100100, 0b00010010, 0b00100100, 0b01001000, 0b10010000,
      0b00000000, 0b00000000, 0b00000000, 0b00000000],
     [0b00000000, 0b00100000, 0b01100000, 0b00100000, 0b00100010, 0b00100100,
      0b00001000, 0b00010000, 0b00100010, 0b01000110, 0b10001010, 0b00011110,
      0b00000010, 0b00000010, 0b00000000, 0b00000000],
     [0b00000000, 0b00100000, 0b01100000, 0b00100000, 0b00100010, 0b00100100,
      0b00001000, 0b00010000, 0b00100000, 0b01001100, 0b10010010, 0b00000100,
      0b00001000, 0b00011110, 0b00000000, 0b00000000],
     [0b00000000, 0b11100000, 0b00010000, 0b01100000, 0b00010010, 0b11100100,
      0b00001000, 0b00010000, 0b00100010, 0b01000110, 0b10001010, 0b00011110,
      0b00000010, 0b00000010, 0b00000000, 0b00000000],
     [0b00000000, 0b00000000, 0b00010000, 0b00010000, 0b00000000, 0b00010000,
      0b00010000, 0b00100000, 0b01000010, 0b01000010, 0b01000010, 0b00111100,
      0b00000000, 0b00000000, 0b00000000, 0b00000000],
     [0b00010000, 0b00001000, 0b00000000, 0b00111100, 0b01000010, 0b01000010,
      0b01000010, 0b01111110, 0b01000010, 0b01000010, 0b01000010, 0b01000010,
      0b00000000, 0b00000000, 0b00000000, 0b00000000]]"

(* src/kernel/gfx/terminus.cpp:2884-3027 font_terminus *)
definition glyphs_a0 :: "u8 list list" where
  "glyphs_a0 = [
     [0b00001000, 0b00010000, 0b00000000, 0b00111100, 0b01000010, 0b01000010,
      0b01000010, 0b01111110, 0b01000010, 0b01000010, 0b01000010, 0b01000010,
      0b00000000, 0b00000000, 0b00000000, 0b00000000],
     [0b00011000, 0b00100100, 0b00000000, 0b00111100, 0b01000010, 0b01000010,
      0b01000010, 0b01111110, 0b01000010, 0b01000010, 0b01000010, 0b01000010,
      0b00000000, 0b00000000, 0b00000000, 0b00000000],
     [0b00110010, 0b01001100, 0b00000000, 0b00111100, 0b01000010, 0b01000010,
      0b01000010, 0b01111110, 0b01000010, 0b01000010, 0b01000010, 0b01000010,
      0b00000000, 0b00000000, 0b00000000, 0b00000000],
     [0b00100100, 0b00100100, 0b00000000, 0b00111100, 0b01000010, 0b01000010,
      0b01000010, 0b01111110, 0b01000010, 0b01000010, 0b01000010, 0b01000010,
      0b00000000, 0b00000000, 0b00000000, 0b00000000],
     [0b00011000, 0b00100100, 0b00011000, 0b00111100, 0b01000010, 0b01000010,
      0b01000010, 0b01111110, 0b01000010, 0b01000010, 0b01000010, 0b01000010,
      0b00000000, 0b00000000, 0b00000000, 0b00000000],
     [0b00000000, 0b00000000, 0b01111110, 0b10010000, 0b10010000, 0b10010000,
      0b11111100, 0b10010000, 0b10010000, 0b10010000, 0b10010000, 0b10011110,
      0b00000000, 0b00000000, 0b00000000, 0b00000000],
     [0b00000000, 0b00000000, 0b00111100, 0b01000010, 0b01000010, 0b01000000,
      0b01000000, 0b01000000, 0b01000000, 0b01000010, 0b01000010, 0b00111100,
      0b00010000, 0b00010000, 0b00100000, 0b00000000],
     [0b00010000, 0b00001000, 0b00000000, 0b01111110, 0b01000000, 0b01000000,
      0b01000000, 0b01111000, 0b01000000, 0b01000000, 0b01000000, 0b01111110,
      0b00000000, 0b00000000, 0b00000000, 0b00000000]]"

(* src/kernel/gfx/terminus.cpp:3028-3171 font_terminus *)
definition glyphs_a8 :: "u8 list list" where
  "glyphs_a8 = [
     [0b00001000, 0b00010000, 0b00000000, 0b01111110, 0b01000000, 0b01000000,
      0b01000000, 0b01111000, 0b01000000, 0b01000000, 0b01000000, 0b01111110,
      0b00000000, 0b00000000, 0b00000000, 0b00000000],
     [0b00011000, 0b00100100, 0b00000000, 0b01111110, 0b01000000, 0b01000000,
      0b01000000, 0b01111000, 0b01000000, 0b01000000, 0b01000000, 0b01111110,
      0b00000000, 0b00000000, 0b00000000, 0b00000000],
     [0b00100100, 0b00100100, 0b00000000, 0b01111110, 0b01000000, 0b01000000,
      0b01000000, 0b01111000, 0b01000000, 0b01000000, 0b01000000, 0b01111110,
      0b00000000, 0b00000000, 0b00000000, 0b00000000],
     [0b00100000, 0b00010000, 0b00000000, 0b00111000, 0b00010000, 0b00010000,
      0b00010000, 0b00010000, 0b00010000, 0b00010000, 0b00010000, 0b00111000,
      0b00000000, 0b00000000, 0b00000000, 0b00000000],
     [0b00001000, 0b00010000, 0b00000000, 0b00111000, 0b00010000, 0b00010000,
      0b00010000, 0b00010000, 0b00010000, 0b00010000, 0b00010000, 0b00111000,
      0b00000000, 0b00000000, 0b00000000, 0b00000000],
     [0b00011000, 0b00100100, 0b00000000, 0b00111000, 0b00010000, 0b00010000,
      0b00010000, 0b00010000, 0b00010000, 0b00010000, 0b00010000, 0b00111000,
      0b00000000, 0b00000000, 0b00000000, 0b00000000],
     [0b01000100, 0b01000100, 0b00000000, 0b00111000, 0b00010000, 0b00010000,
      0b00010000, 0b00010000, 0b00010000, 0b00010000, 0b00010000, 0b00111000,
      0b00000000, 0b00000000, 0b00000000, 0b00000000],
     [0b00000000, 0b00000000, 0b01111000, 0b01000100, 0b01000010, 0b01000010,
      0b11110010, 0b01000010, 0b01000010, 0b01000010, 0b01000100, 0b01111000,
      0b00000000, 0b00000000, 0b00000000, 0b00000000]]"

(* src/kernel/gfx/terminus.cpp:3172-3315 font_terminus *)
definition glyphs_b0 :: "u8 list list" where
  "glyphs_b0 = [
     [0b00110010, 0b01001100, 0b00000000, 0b01000010, 0b01000010, 0b01100010,
      0b01010010, 0b01001010, 0b01000110, 0b01000010, 0b01000010, 0b01000010,
      0b00000000, 0b00000000, 0b00000000, 0b00000000],
     [0b00010000, 0b00001000, 0b00000000, 0b00111100, 0b01000010, 0b01000010,
      0b01000010, 0b01000010, 0b01000010, 0b01000010, 0b01000010, 0b00111100,
      0b00000000, 0b00000000, 0b00000000, 0b00000000],
     [0b00001000, 0b00010000, 0b00000000, 0b00111100, 0b01000010, 0b01000010,
      0b01000010, 0b01000010, 0b01000010, 0b01000010, 0b01000010, 0b00111100,
      0b00000000, 0b00000000, 0b00000000, 0b00000000],
     [0b00011000, 0b00100100, 0b00000000, 0b00111100, 0b01000010, 0b01000010,
      0b01000010, 0b01000010, 0b01000010, 0b01000010, 0b01000010, 0b00111100,
      0b00000000, 0b00000000, 0b00000000, 0b00000000],
     [0b00110010, 0b01001100, 0b00000000, 0b00111100, 0b01000010, 0b01000010,
      0b01000010, 0b01000010, 0b01000010, 0b01000010, 0b01000010, 0b00111100,
      0b00000000, 0b00000000, 0b00000000, 0b00000000],
     [0b00100100, 0b00100100, 0b00000000, 0b00111100, 0b01000010, 0b01000010,
      0b01000010, 0b01000010, 0b01000010, 0b01000010, 0b01000010, 0b00111100,
      0b00000000, 0b00000000, 0b00000000, 0b00000000],
     [0b00000000, 0b00000000, 0b00000000, 0b00000000, 0b00000000, 0b01000010,
      0b00100100, 0b00011000, 0b00011000, 0b00100100, 0b01000010, 0b00000000,
      0b00000000, 0b00000000, 0b00000000, 0b00000000],
     [0b00000000, 0b00000000, 0b00111100, 0b01000011, 0b01000010, 0b01000110,
      0b01001010, 0b01010010, 0b01100010, 0b01000010, 0b11000010, 0b00111100,
      0b00000000, 0b00000000, 0b00000000, 0b00000000]]"

(* src/kernel/gfx/terminus.cpp:3316-3459 font_terminus *)
definition glyphs_b8 :: "u8 list list" where
  "glyphs_b8 = [
     [0b00010000, 0b00001000, 0b01000010, 0b01000010, 0b01000010, 0b01000010,
      0b01000010, 0b01000010, 0b01000010, 0b01000010, 0b01000010, 0b00111100,
      0b00000000, 0b00000000, 0b00000000, 0b00000000],
     [0b00001000, 0b00010000, 0b01000010, 0b01000010, 0b01000010, 0b01000010,
      0b01000010, 0b01000010, 0b01000010, 0b01000010, 0b01000010, 0b00111100,
      0b00000000, 0b00000000, 0b00000000, 0b00000000],
     [0b00011000, 0b00100100, 0b00000000, 0b01000010, 0b01000010, 0b01000010,
      0b01000010, 0b01000010, 0b01000010, 0b01000010, 0b01000010, 0b00111100,
      0b00000000, 0b00000000, 0b00000000, 0b00000000],
     [0b00100100, 0b00100100, 0b00000000, 0b01000010, 0b01000010, 0b01000010,
      0b01000010, 0b01000010, 0b01000010, 0b01000010, 0b01000010, 0b00111100,
      0b00000000, 0b00000000, 0b00000000, 0b00000000],
     [0b00001000, 0b00010000, 0b10000010, 0b10000010, 0b01000100, 0b01000100,
      0b00101000, 0b00010000, 0b00010000, 0b00010000, 0b00010000, 0b00010000,
      0b00000000, 0b00000000, 0b00000000, 0b00000000],
     [0b00000000, 0b00000000, 0b01000000, 0b01000000, 0b01111100, 0b01000010,
      0b01000010, 0b01000010, 0b01000010, 0b01111100, 0b01000000, 0b01000000,
      0b00000000, 0b00000000, 0b00000000, 0b00000000],
     [0b00000000, 0b00000000, 0b00111000, 0b01000100, 0b01000100, 0b01001000,
      0b01111100, 0b01000010, 0b01000010, 0b01000010, 0b01100010, 0b01011100,
      0b00000000, 0b00000000, 0b00000000, 0b00000000],
     [0b00000000, 0b00000000, 0b00010000, 0b00001000, 0b00000000, 0b00111100,
      0b00000010, 0b00111110, 0b01000010, 0b01000010, 0b01000010, 0b00111110,
      0b00000000, 0b00000000, 0b00000000, 0b00000000]]"

(* src/kernel/gfx/terminus.cpp:3460-3603 font_terminus *)
definition glyphs_c0 :: "u8 list list" where
  "glyphs_c0 = [
     [0b00000000, 0b00000000, 0b00001000, 0b00010000, 0b00000000, 0b00111100,
      0b00000010, 0b00111110, 0b01000010, 0b01000010, 0b01000010, 0b00111110,
      0b00000000, 0b00000000, 0b00000000, 0b00000000],
     [0b00000000, 0b00000000, 0b00011000, 0b00100100, 0b00000000, 0b00111100,
      0b00000010, 0b00111110, 0b01000010, 0b01000010, 0b01000010, 0b00111110,
      0b00000000, 0b00000000, 0b00000000, 0b00000000],
     [0b00000000, 0b00000000, 0b00110010, 0b01001100, 0b00000000, 0b00111100,
      0b00000010, 0b00111110, 0b01000010, 0b01000010, 0b01000010, 0b00111110,
      0b00000000, 0b00000000, 0b00000000, 0b00000000],
     [0b00000000, 0b00000000, 0b00100100, 0b00100100, 0b00000000, 0b00111100,
      0b00000010, 0b00111110, 0b01000010, 0b01000010, 0b01000010, 0b00111110,
      0b00000000, 0b00000000, 0b00000000, 0b00000000],
     [0b00000000, 0b00000000, 0b00011000, 0b00100100, 0b00011000, 0b00111100,
      0b00000010, 0b00111110, 0b01000010, 0b01000010, 0b01000010, 0b00111110,
      0b00000000, 0b00000000, 0b00000000, 0b00000000],
     [0b00000000, 0b00000000, 0b00000000, 0b00000000, 0b00000000, 0b01101100,
      0b00010010, 0b01110010, 0b10011110, 0b10010000, 0b10010000, 0b01101100,
      0b00000000, 0b00000000, 0b00000000, 0b00000000],
     [0b00000000, 0b00000000, 0b00000000, 0b00000000, 0b00000000, 0b00111100,
      0b01000010, 0b01000000, 0b01000000, 0b01000000, 0b01000010, 0b00111100,
      0b00010000, 0b00010000, 0b00100000, 0b00000000],
     [0b00000000, 0b00000000, 0b00010000, 0b00001000, 0b00000000, 0b00111100,
      0b01000010, 0b01000010, 0b01111110, 0b01000000, 0b01000000, 0b00111100,
      0b00000000, 0b00000000, 0b00000000, 0b00000000]]"

(* src/kernel/gfx/terminus.cpp:3604-3747 font_terminus *)
definition glyphs_c8 :: "u8 list list" where
  "glyphs_c8 = [
     [0b00000000, 0b00000000, 0b00001000, 0b00010000, 0b00000000, 0b00111100,
      0b01000010, 0b01000010, 0b01111110, 0b01000000, 0b01000000, 0b00111100,
      0b00000000, 0b00000000, 0b00000000, 0b00000000],
     [0b00000000, 0b00000000, 0b00011000, 0b00100100, 0b00000000, 0b00111100,
      0b01000010, 0b01000010, 0b01111110, 0b01000000, 0b01000000, 0b00111100,
      0b00000000, 0b00000000, 0b00000000, 0b00000000],
     [0b00000000, 0b00000000, 0b00100100, 0b00100100, 0b00000000, 0b00111100,
      0b01000010, 0b01000010, 0b01111110, 0b01000000, 0b01000000, 0b00111100,
      0b00000000, 0b00000000, 0b00000000, 0b00000000],
     [0b00000000, 0b00000000, 0b00100000, 0b00010000, 0b00000000, 0b00110000,
      0b00010000, 0b00010000, 0b00010000, 0b00010000, 0b00010000, 0b00111000,
      0b00000000, 0b00000000, 0b00000000, 0b00000000],
     [0b00000000, 0b00000000, 0b00001000, 0b00010000, 0b00000000, 0b00110000,
      0b00010000, 0b00010000, 0b00010000, 0b00010000, 0b00010000, 0b00111000,
      0b00000000, 0b00000000, 0b00000000, 0b00000000],
     [0b00000000, 0b00000000, 0b00110000, 0b01001000, 0b00000000, 0b00110000,
      0b00010000, 0b00010000, 0b00010000, 0b00010000, 0b00010000, 0b00111000,
      0b00000000, 0b00000000, 0b00000000, 0b00000000],
     [0b00000000, 0b00000000, 0b01001000, 0b01001000, 0b00000000, 0b00110000,
      0b00010000, 0b00010000, 0b00010000, 0b00010000, 0b00010000, 0b00111000,
      0b00000000, 0b00000000, 0b00000000, 0b00000000],
     [0b00000000, 0b00000000, 0b00101000, 0b00010000, 0b00101000, 0b00111100,
      0b01000010, 0b01000010, 0b01000010, 0b01000010, 0b01000010, 0b00111100,
      0b00000000, 0b00000000, 0b00000000, 0b00000000]]"

(* src/kernel/gfx/terminus.cpp:3748-3891 font_terminus *)
definition glyphs_d0 :: "u8 list list" where
  "glyphs_d0 = [
     [0b00000000, 0b00000000, 0b00110010, 0b01001100, 0b00000000, 0b01111100,
      0b01000010, 0b01000010, 0b01000010, 0b01000010, 0b01000010, 0b01000010,
      0b00000000, 0b00000000, 0b00000000, 0b00000000],
     [0b00000000, 0b00000000, 0b00010000, 0b00001000, 0b00000000, 0b00111100,
      0b01000010, 0b01000010, 0b01000010, 0b01000010, 0b01000010, 0b00111100,
      0b00000000, 0b00000000, 0b00000000, 0b00000000],
     [0b00000000, 0b00000000, 0b00001000, 0b00010000, 0b00000000, 0b00111100,
      0b01000010, 0b01000010, 0b01000010, 0b01000010, 0b01000010, 0b00111100,
      0b00000000, 0b00000000, 0b00000000, 0b00000000],
     [0b00000000, 0b00000000, 0b00011000, 0b00100100, 0b00000000, 0b00111100,
      0b01000010, 0b01000010, 0b01000010, 0b01000010, 0b01000010, 0b00111100,
      0b00000000, 0b00000000, 0b00000000, 0b00000000],
     [0b00000000, 0b00000000, 0b00110010, 0b01001100, 0b00000000, 0b00111100,
      0b01000010, 0b01000010, 0b01000010, 0b01000010, 0b01000010, 0b00111100,
      0b00000000, 0b00000000, 0b00000000, 0b00000000],
     [0b00000000, 0b00000000, 0b00100100, 0b00100100, 0b00000000, 0b00111100,
      0b01000010, 0b01000010, 0b01000010, 0b01000010, 0b01000010, 0b00111100,
      0b00000000, 0b00000000, 0b00000000, 0b00000000],
     [0b00000000, 0b00000000, 0b00000000, 0b00000000, 0b00010000, 0b00010000,
      0b00000000, 0b01111100, 0b00000000, 0b00010000, 0b00010000, 0b00000000,
      0b00000000, 0b00000000, 0b00000000, 0b00000000],
     [0b00000000, 0b00000000, 0b00000000, 0b00000000, 0b00000010, 0b00111100,
      0b01000110, 0b01001010, 0b01010010, 0b01100010, 0b01000010, 0b10111100,
      0b00000000, 0b00000000, 0b00000000, 0b00000000]]"

(* src/kernel/gfx/terminus.cpp:3892-4035 font_terminus *)
definition glyphs_d8 :: "u8 list list" where
  "glyphs_d8 = [
     [0b00000000, 0b00000000, 0b00010000, 0b00001000, 0b00000000, 0b01000010,
      0b01000010, 0b01000010, 0b01000010, 0b01000010, 0b01000010, 0b00111110,
      0b00000000, 0b00000000, 0b00000000, 0b00000000],
     [0b00000000, 0b00000000, 0b00001000, 0b00010000, 0b00000000, 0b01000010,
      0b01000010, 0b01000010, 0b01000010, 0b01000010, 0b01000010, 0b00111110,
      0b00000000, 0b00000000, 0b00000000, 0b00000000],
     [0b00000000, 0b00000000, 0b00011000, 0b00100100, 0b00000000, 0b01000010,
      0b01000010, 0b01000010, 0b01000010, 0b01000010, 0b01000010, 0b00111110,
      0b00000000, 0b00000000, 0b00000000, 0b00000000],
     [0b00000000, 0b00000000, 0b00100100, 0b00100100, 0b00000000, 0b01000010,
      0b01000010, 0b01000010, 0b01000010, 0b01000010, 0b01000010, 0b00111110,
      0b00000000, 0b00000000, 0b00000000, 0b00000000],
     [0b00000000, 0b00000000, 0b00001000, 0b00010000, 0b00000000, 0b01000010,
      0b01000010, 0b01000010, 0b01000010, 0b01000010, 0b01000010, 0b00111110,
      0b00000010, 0b00000010, 0b00111100, 0b00000000],
     [0b00000000, 0b00000000, 0b01000000, 0b01000000, 0b01000000, 0b01111100,
      0b01000010, 0b01000010, 0b01000010, 0b01000010, 0b01000010, 0b01111100,
      0b01000000, 0b01000000, 0b01000000, 0b00000000],
     [0b00000000, 0b00000000, 0b00100100, 0b00100100, 0b00000000, 0b01000010,
      0b01000010, 0b01000010, 0b01000010, 0b01000010, 0b01000010, 0b00111110,
      0b00000010, 0b00000010, 0b00111100, 0b00000000],
     [0b00111100, 0b00000000, 0b00111100, 0b01000010, 0b01000010, 0b01000010,
      0b01000010, 0b01111110, 0b01000010, 0b01000010, 0b01000010, 0b01000010,
      0b00000000, 0b00000000, 0b00000000, 0b00000000]]"

(* src/kernel/gfx/terminus.cpp:4036-4179 font_terminus *)
definition glyphs_e0 :: "u8 list list" where
  "glyphs_e0 = [
     [0b00000000, 0b00000000, 0b00000000, 0b00111100, 0b00000000, 0b00111100,
      0b00000010, 0b00111110, 0b01000010, 0b01000010, 0b01000010, 0b00111110,
      0b00000000, 0b00000000, 0b00000000, 0b00000000],
     [0b00100100, 0b00011000, 0b00000000, 0b00111100, 0b01000010, 0b01000010,
      0b01000010, 0b01111110, 0b01000010, 0b01000010, 0b01000010, 0b01000010,
      0b00000000, 0b00000000, 0b00000000, 0b00000000],
     [0b00000000, 0b00000000, 0b00100100, 0b00011000, 0b00000000, 0b00111100,
      0b00000010, 0b00111110, 0b01000010, 0b01000010, 0b01000010, 0b00111110,
      0b00000000, 0b00000000, 0b00000000, 0b00000000],
     [0b00000000, 0b00000000, 0b00111100, 0b01000010, 0b01000010, 0b01000010,
      0b01000010, 0b01111110, 0b01000010, 0b01000010, 0b01000010, 0b01000010,
      0b00000010, 0b00000100, 0b00000011, 0b00000000],
     [0b00000000, 0b00000000, 0b00000000, 0b00000000, 0b00000000, 0b00111100,
      0b00000010, 0b00111110, 0b01000010, 0b01000010, 0b01000010, 0b00111110,
      0b00000010, 0b00000100, 0b00000011, 0b00000000],
     [0b00001000, 0b00010000, 0b00000000, 0b00111100, 0b01000010, 0b01000010,
      0b01000000, 0b01000000, 0b01000000, 0b01000010, 0b01000010, 0b00111100,
      0b00000000, 0b00000000, 0b00000000, 0b00000000],
     [0b00000000, 0b00000000, 0b00001000, 0b00010000, 0b00000000, 0b00111100,
      0b01000010, 0b01000000, 0b01000000, 0b01000000, 0b01000010, 0b00111100,
      0b00000000, 0b00000000, 0b00000000, 0b00000000],
     [0b00011000, 0b00100100, 0b00000000, 0b00111100, 0b01000010, 0b01000010,
      0b01000000, 0b01000000, 0b01000000, 0b01000010, 0b01000010, 0b00111100,
      0b00000000, 0b00000000, 0b00000000, 0b00000000]]"

(* src/kernel/gfx/terminus.cpp:4180-4323 font_terminus *)
definition glyphs_e8 :: "u8 list list" where
  "glyphs_e8 = [
     [0b00000000, 0b00000000, 0b00011000, 0b00100100, 0b00000000, 0b00111100,
      0b01000010, 0b01000000, 0b01000000, 0b01000000, 0b01000010, 0b00111100,
      0b00000000, 0b00000000, 0b00000000, 0b00000000],
     [0b00010000, 0b00010000, 0b00000000, 0b00111100, 0b01000010, 0b01000010,
      0b01000000, 0b01000000, 0b01000000, 0b01000010, 0b01000010, 0b00111100,
      0b00000000, 0b00000000, 0b00000000, 0b00000000],
     [0b00000000, 0b00000000, 0b00010000, 0b00010000, 0b00000000, 0b00111100,
      0b01000010, 0b01000000, 0b01000000, 0b01000000, 0b01000010, 0b00111100,
      0b00000000, 0b00000000, 0b00000000, 0b00000000],
     [0b00100100, 0b00011000, 0b00000000, 0b00111100, 0b01000010, 0b01000010,
      0b01000000, 0b01000000, 0b01000000, 0b01000010, 0b01000010, 0b00111100,
      0b00000000, 0b00000000, 0b00000000, 0b00000000],
     [0b00000000, 0b00000000, 0b00100100, 0b00011000, 0b00000000, 0b00111100,
      0b01000010, 0b01000000, 0b01000000, 0b01000000, 0b01000010, 0b00111100,
      0b00000000, 0b00000000, 0b00000000, 0b00000000],
     [0b00100100, 0b00011000, 0b00000000, 0b01111000, 0b01000100, 0b01000010,
      0b01000010, 0b01000010, 0b01000010, 0b01000010, 0b01000100, 0b01111000,
      0b00000000, 0b00000000, 0b00000000, 0b00000000],
     [0b00100100, 0b00011000, 0b00000010, 0b00000010, 0b00000010, 0b00111110,
      0b01000010, 0b01000010, 0b01000010, 0b01000010, 0b01000010, 0b00111110,
      0b00000000, 0b00000000, 0b00000000, 0b00000000],
     [0b00000000, 0b00000000, 0b01111000, 0b01000100, 0b01000010, 0b01000010,
      0b11110010, 0b01000010, 0b01000010, 0b01000010, 0b01000100, 0b01111000,
      0b00000000, 0b00000000, 0b00000000, 0b00000000]]"

(* src/kernel/gfx/terminus.cpp:4324-4467 font_terminus *)
definition glyphs_f0 :: "u8 list list" where
  "glyphs_f0 = [
     [0b00000000, 0b00000000, 0b00000010, 0b00001111, 0b00000010, 0b00111110,
      0b01000010, 0b01000010, 0b01000010, 0b01000010, 0b01000010, 0b00111110,
      0b00000000, 0b00000000, 0b00000000, 0b00000000],
     [0b00111100, 0b00000000, 0b01111110, 0b01000000, 0b01000000, 0b01000000,
      0b01111000, 0b01000000, 0b01000000, 0b01000000, 0b01000000, 0b01111110,
      0b00000000, 0b00000000, 0b00000000, 0b00000000],
     [0b00000000, 0b00000000, 0b00000000, 0b00111100, 0b00000000, 0b00111100,
      0b01000010, 0b01000010, 0b01111110, 0b01000000, 0b01000000, 0b00111100,
      0b00000000, 0b00000000, 0b00000000, 0b00000000],
     [0b00100100, 0b00011000, 0b00000000, 0b01111110, 0b01000000, 0b01000000,
      0b01000000, 0b01111000, 0b01000000, 0b01000000, 0b01000000, 0b01111110,
      0b00000000, 0b00000000, 0b00000000, 0b00000000],
     [0b00000000, 0b00000000, 0b00100100, 0b00011000, 0b00000000, 0b00111100,
      0b01000010, 0b01000010, 0b01111110, 0b01000000, 0b01000000, 0b00111100,
      0b00000000, 0b00000000, 0b00000000, 0b00000000],
     [0b00010000, 0b00010000, 0b00000000, 0b01111110, 0b01000000, 0b01000000,
      0b01000000, 0b01111000, 0b01000000, 0b01000000, 0b01000000, 0b01111110,
      0b00000000, 0b00000000, 0b00000000, 0b00000000],
     [0b00000000, 0b00000000, 0b00010000, 0b00010000, 0b00000000, 0b00111100,
      0b01000010, 0b01000010, 0b01111110, 0b01000000, 0b01000000, 0b00111100,
      0b00000000, 0b00000000, 0b00000000, 0b00000000],
     [0b00000000, 0b00000000, 0b01111110, 0b01000000, 0b01000000, 0b01000000,
      0b01111000, 0b01000000, 0b01000000, 0b01000000, 0b01000000, 0b01111110,
      0b00000010, 0b00000100, 0b00000011, 0b00000000]]"

(* src/kernel/gfx/terminus.cpp:4468-4611 font_terminus *)
definition glyphs_f8 :: "u8 list list" where
  "glyphs_f8 = [
     [0b00000000, 0b00000000, 0b00000000, 0b00000000, 0b00000000, 0b00111100,
      0b01000010, 0b01000010, 0b01111110, 0b01000000, 0b01000000, 0b00111100,
      0b00001000, 0b00010000, 0b00001100, 0b00000000],
     [0b00100100, 0b00011000, 0b00000000, 0b01111110, 0b01000000, 0b01000000,
      0b01000000, 0b01111000, 0b01000000, 0b01000000, 0b01000000, 0b01111110,
      0b00000000, 0b00000000, 0b00000000, 0b00000000],
     [0b00000000, 0b00000000, 0b00100100, 0b00011000, 0b00000000, 0b00111100,
      0b01000010, 0b01000010, 0b01111110, 0b01000000, 0b01000000, 0b00111100,
      0b00000000, 0b00000000, 0b00000000, 0b00000000],
     [0b00011000, 0b00100100, 0b00000000, 0b00111100, 0b01000010, 0b01000010,
      0b01000000, 0b01001110, 0b01000010, 0b01000010, 0b01000010, 0b00111100,
      0b00000000, 0b00000000, 0b00000000, 0b00000000],
     [0b00000000, 0b00000000, 0b00011000, 0b00100100, 0b00000000, 0b00111110,
      0b01000010, 0b01000010, 0b01000010, 0b01000010, 0b01000010, 0b00111110,
      0b00000010, 0b00000010, 0b00111100, 0b00000000],
     [0b00100100, 0b00011000, 0b00000000, 0b00111100, 0b01000010, 0b01000010,
      0b01000000, 0b01001110, 0b01000010, 0b01000010, 0b01000010, 0b00111100,
      0b00000000, 0b00000000, 0b00000000, 0b00000000],
     [0b00000000, 0b00000000, 0b00100100, 0b00011000, 0b00000000, 0b00111110,
      0b01000010, 0b01000010, 0b01000010, 0b01000010, 0b01000010, 0b00111110,
      0b00000010, 0b00000010, 0b00111100, 0b00000000],
     [0b00010000, 0b00010000, 0b00000000, 0b00111100, 0b01000010, 0b01000010,
      0b01000000, 0b01001110, 0b01000010, 0b01000010, 0b01000010, 0b00111100,
      0b00000000, 0b00000000, 0b00000000, 0b00000000]]"

(* src/kernel/gfx/terminus.cpp:3-3 font_terminus *)
definition font_terminus :: "u8 list list" where
  "font_terminus = glyphs_00 @ glyphs_08 @ glyphs_10 @ glyphs_18 @
     glyphs_20 @ glyphs_28 @ glyphs_30 @ glyphs_38 @
     glyphs_40 @ glyphs_48 @ glyphs_50 @ glyphs_58 @
     glyphs_60 @ glyphs_68 @ glyphs_70 @ glyphs_78 @
     glyphs_80 @ glyphs_88 @ glyphs_90 @ glyphs_98 @
     glyphs_a0 @ glyphs_a8 @ glyphs_b0 @ glyphs_b8 @
     glyphs_c0 @ glyphs_c8 @ glyphs_d0 @ glyphs_d8 @
     glyphs_e0 @ glyphs_e8 @ glyphs_f0 @ glyphs_f8"

lemmas glyphs_defs = glyphs_00_def glyphs_08_def glyphs_10_def glyphs_18_def glyphs_20_def glyphs_28_def
  glyphs_30_def glyphs_38_def glyphs_40_def glyphs_48_def glyphs_50_def glyphs_58_def
  glyphs_60_def glyphs_68_def glyphs_70_def glyphs_78_def glyphs_80_def glyphs_88_def
  glyphs_90_def glyphs_98_def glyphs_a0_def glyphs_a8_def glyphs_b0_def glyphs_b8_def
  glyphs_c0_def glyphs_c8_def glyphs_d0_def glyphs_d8_def glyphs_e0_def glyphs_e8_def
  glyphs_f0_def glyphs_f8_def

section \<open>Its shape\<close>

text \<open>Eight glyphs of sixteen rows.\<close>

definition glyph_block :: "u8 list list \<Rightarrow> bool" where
  "glyph_block gs \<longleftrightarrow> map length gs = replicate 8 16"

lemma shape_00: "glyph_block glyphs_00" "glyph_block glyphs_08" "glyph_block glyphs_10" "glyph_block glyphs_18"
  by (simp_all add: glyph_block_def glyphs_00_def glyphs_08_def glyphs_10_def glyphs_18_def eval_nat_numeral)

lemma shape_20: "glyph_block glyphs_20" "glyph_block glyphs_28" "glyph_block glyphs_30" "glyph_block glyphs_38"
  by (simp_all add: glyph_block_def glyphs_20_def glyphs_28_def glyphs_30_def glyphs_38_def eval_nat_numeral)

lemma shape_40: "glyph_block glyphs_40" "glyph_block glyphs_48" "glyph_block glyphs_50" "glyph_block glyphs_58"
  by (simp_all add: glyph_block_def glyphs_40_def glyphs_48_def glyphs_50_def glyphs_58_def eval_nat_numeral)

lemma shape_60: "glyph_block glyphs_60" "glyph_block glyphs_68" "glyph_block glyphs_70" "glyph_block glyphs_78"
  by (simp_all add: glyph_block_def glyphs_60_def glyphs_68_def glyphs_70_def glyphs_78_def eval_nat_numeral)

lemma shape_80: "glyph_block glyphs_80" "glyph_block glyphs_88" "glyph_block glyphs_90" "glyph_block glyphs_98"
  by (simp_all add: glyph_block_def glyphs_80_def glyphs_88_def glyphs_90_def glyphs_98_def eval_nat_numeral)

lemma shape_a0: "glyph_block glyphs_a0" "glyph_block glyphs_a8" "glyph_block glyphs_b0" "glyph_block glyphs_b8"
  by (simp_all add: glyph_block_def glyphs_a0_def glyphs_a8_def glyphs_b0_def glyphs_b8_def eval_nat_numeral)

lemma shape_c0: "glyph_block glyphs_c0" "glyph_block glyphs_c8" "glyph_block glyphs_d0" "glyph_block glyphs_d8"
  by (simp_all add: glyph_block_def glyphs_c0_def glyphs_c8_def glyphs_d0_def glyphs_d8_def eval_nat_numeral)

lemma shape_e0: "glyph_block glyphs_e0" "glyph_block glyphs_e8" "glyph_block glyphs_f0" "glyph_block glyphs_f8"
  by (simp_all add: glyph_block_def glyphs_e0_def glyphs_e8_def glyphs_f0_def glyphs_f8_def eval_nat_numeral)

lemmas glyph_shapes = shape_00 shape_20 shape_40 shape_60 shape_80 shape_a0 shape_c0 shape_e0

lemma glyph_blockD:
  assumes "glyph_block gs"
  shows "length gs = 8" and "\<forall>g \<in> set gs. length g = 16"
proof -
  have m: "map length gs = replicate 8 16" using assms by (simp add: glyph_block_def)
  from arg_cong [OF m, of length] show "length gs = 8" by simp
  have "length ` set gs = {16}" using arg_cong [OF m, of set] by simp
  then show "\<forall>g \<in> set gs. length g = 16" by blast
qed

lemma font_terminus_length [simp]: "length font_terminus = 256"
  using glyph_shapes [THEN glyph_blockD(1)] by (simp add: font_terminus_def)

lemma font_terminus_rows: "g \<in> set font_terminus \<Longrightarrow> length g = 16"
  using glyph_shapes [THEN glyph_blockD(2)] by (auto simp: font_terminus_def)

text \<open>The glyph an \<open>unsigned char\<close> selects.\<close>

definition glyph_of :: "u8 \<Rightarrow> u8 list" where
  "glyph_of c = font_terminus ! unat c"

lemma glyph_of_rows [simp]: "length (glyph_of c) = 16"
proof -
  have "unat c < length font_terminus" using unat_u8_less [of c] by simp
  then show ?thesis unfolding glyph_of_def by (intro font_terminus_rows nth_mem)
qed

end
