(* ===== verification/Gfx.thy ===== *)
theory Gfx
  imports Font
begin

text \<open>
  Drawing: colours and frame buffers (\<open>kernel/gfx/buffer.cpp\<close>), surfaces
  (\<open>kernel/gfx/surface.cpp\<close>) and the text mode cells of \<open>include/kernel/gfx/vga.hpp\<close>. A buffer
  is the list of the bytes from its first address on; a write outside it is \<^const>\<open>None\<close>.
\<close>

section \<open>Colours\<close>

(* src/include/kernel/gfx/buffer.hpp:11-15 RGB *)
record rgb =
  red :: u8
  green :: u8
  blue :: u8

(* src/include/kernel/gfx/buffer.hpp:18-22 RGB *)
definition rgb_of_hex :: "u32 \<Rightarrow> rgb" where
  "rgb_of_hex hex = \<lparr>red = ucast (drop_bit 16 hex), green = ucast (drop_bit 8 hex), blue = ucast hex\<rparr>"

(* src/include/kernel/gfx/buffer.hpp:24-24 RGB *)
definition rgb_white :: rgb where
  "rgb_white = \<lparr>red = 0xFF, green = 0xFF, blue = 0xFF\<rparr>"

(* src/include/kernel/gfx/buffer.hpp:28-30 RGBA *)
record rgba = rgb +
  alpha :: u8

(* src/include/kernel/gfx/buffer.hpp:33-39 RGBA *)
definition rgba_of_hex :: "u32 \<Rightarrow> rgba" where
  "rgba_of_hex hex = rgb.extend (rgb_of_hex hex) \<lparr>alpha = 0xFF\<rparr>"

(* src/include/kernel/gfx/buffer.hpp:45-58 Vector2 *)
record vector2 =
  vx :: u32
  vy :: u32

(* src/include/kernel/gfx/vga.hpp:5-22 vga_color *)
datatype vga_color =
  VGA_COLOR_BLACK | VGA_COLOR_BLUE | VGA_COLOR_GREEN | VGA_COLOR_CYAN | VGA_COLOR_RED
| VGA_COLOR_MAGENTA | VGA_COLOR_BROWN | VGA_COLOR_LIGHT_GREY | VGA_COLOR_DARK_GREY
| VGA_COLOR_LIGHT_BLUE | VGA_COLOR_LIGHT_GREEN | VGA_COLOR_LIGHT_CYAN | VGA_COLOR_LIGHT_RED
| VGA_COLOR_LIGHT_MAGENTA | VGA_COLOR_LIGHT_BROWN | VGA_COLOR_WHITE

primrec vga_code :: "vga_color \<Rightarrow> nat" where
  "vga_code VGA_COLOR_BLACK = 0"
| "vga_code VGA_COLOR_BLUE = 1"
| "vga_code VGA_COLOR_GREEN = 2"
| "vga_code VGA_COLOR_CYAN = 3"
| "vga_code VGA_COLOR_RED = 4"
| "vga_code VGA_COLOR_MAGENTA = 5"
| "vga_code VGA_COLOR_BROWN = 6"
| "vga_code VGA_COLOR_LIGHT_GREY = 7"
| "vga_code VGA_COLOR_DARK_GREY = 8"
| "vga_code VGA_COLOR_LIGHT_BLUE = 9"
| "vga_code VGA_COLOR_LIGHT_GREEN = 10"
| "vga_code VGA_COLOR_LIGHT_CYAN = 11"
| "vga_code VGA_COLOR_LIGHT_RED = 12"
| "vga_code VGA_COLOR_LIGHT_MAGENTA = 13"
| "vga_code VGA_COLOR_LIGHT_BROWN = 14"
| "vga_code VGA_COLOR_WHITE = 15"

lemma vga_code_less [word_bounds]: "vga_code c < 16"
  by (cases c) simp_all

lemma vga_code_inject: "vga_code c = vga_code d \<Longrightarrow> c = d"
  by (cases c; cases d) simp_all

instantiation vga_color :: linorder
begin

definition less_eq_vga_color :: "vga_color \<Rightarrow> vga_color \<Rightarrow> bool" where
  "c \<le> d \<longleftrightarrow> vga_code c \<le> vga_code d"

definition less_vga_color :: "vga_color \<Rightarrow> vga_color \<Rightarrow> bool" where
  "c < d \<longleftrightarrow> vga_code c < vga_code d"

instance
  by standard (auto simp: less_eq_vga_color_def less_vga_color_def dest: vga_code_inject)

end

(* src/include/kernel/gfx/vga.hpp:24-26 vga_entry_color *)
definition vga_entry_color :: "vga_color \<Rightarrow> vga_color \<Rightarrow> u8" where
  "vga_entry_color fg bg = of_nat (vga_code fg) OR push_bit 4 (of_nat (vga_code bg))"

(* src/include/kernel/gfx/vga.hpp:28-30 vga_entry *)
definition vga_entry :: "u8 \<Rightarrow> u8 \<Rightarrow> u16" where
  "vga_entry uc colour = ucast uc OR push_bit 8 (ucast colour)"

section \<open>Frame buffers\<close>

text \<open>\<open>memcpy\<close> from one object into another, or down in the same one: \<open>n\<close> bytes from \<open>si\<close> to \<open>di\<close>.\<close>

definition blit :: "u8 list \<Rightarrow> nat \<Rightarrow> u8 list \<Rightarrow> nat \<Rightarrow> nat \<Rightarrow> u8 list option" where
  "blit dst di src si n =
     (if di + n \<le> length dst \<and> si + n \<le> length src
      then Some (take di dst @ take n (drop si src) @ drop (di + n) dst) else None)"

text \<open>The three bytes of a pixel.\<close>

definition put_pixel :: "u8 list \<Rightarrow> u32 \<Rightarrow> rgb \<Rightarrow> u8 list option" where
  "put_pixel buf at_byte col = do {
     buf \<leftarrow> arr_set buf (unat at_byte) (blue col);
     buf \<leftarrow> arr_set buf (unat (at_byte + 1)) (green col);
     arr_set buf (unat (at_byte + 2)) (red col)
   }"

(* src/include/kernel/gfx/buffer.hpp:68-73 ScreenBuffer *)
record screen_buffer =
  sb_bytes :: "u8 list"
  sb_width :: u32
  sb_height :: u32
  sb_depth :: u32
  sb_pitch :: u32

text \<open>The constructor computes a pitch of its own, from the height and the depth.\<close>

(* src/include/kernel/gfx/buffer.hpp:74-80 ScreenBuffer *)
definition new_screen_buffer :: "u8 list \<Rightarrow> u32 \<Rightarrow> u32 \<Rightarrow> u32 \<Rightarrow> screen_buffer" where
  "new_screen_buffer bytes w h d =
     \<lparr>sb_bytes = bytes, sb_width = w, sb_height = h, sb_depth = d, sb_pitch = h * d\<rparr>"

(* src/kernel/gfx/buffer.cpp:17-25 ScreenBuffer::SetPixel *)
definition sb_set_pixel :: "screen_buffer \<Rightarrow> u32 \<Rightarrow> u32 \<Rightarrow> rgb \<Rightarrow> screen_buffer option" where
  "sb_set_pixel s x y col =
     (if x \<ge> sb_width s \<or> y \<ge> sb_height s then Some s
      else map_option (\<lambda>b. s\<lparr>sb_bytes := b\<rparr>)
        (put_pixel (sb_bytes s) (x * (sb_depth s div 8) + y * sb_pitch s) col))"

(* src/include/kernel/gfx/buffer.hpp:60-63 Update *)
datatype update = DELTA_REFRESH | FULL_REFRESH

text \<open>The rows \<open>y\<close>, \<open>y + 1\<close>, \dots, \<open>n\<close> of them.\<close>

(* src/kernel/gfx/buffer.cpp:27-37 ScreenBuffer::CopyFrom *)
fun copy_rows :: "u32 \<Rightarrow> bool list \<Rightarrow> update \<Rightarrow> u8 list \<Rightarrow> u8 list \<Rightarrow> nat \<Rightarrow> nat \<Rightarrow> u8 list option" where
  "copy_rows frame_pitch dirty how dst src y 0 = Some dst"
| "copy_rows frame_pitch dirty how dst src y (Suc n) = do {
     d \<leftarrow> (if how = FULL_REFRESH then Some True else arr_get dirty y);
     dst \<leftarrow> (if d then blit dst (unat (of_nat y * frame_pitch)) src (unat (of_nat y * frame_pitch)) (unat frame_pitch)
             else Some dst);
     copy_rows frame_pitch dirty how dst src (Suc y) n
   }"

text \<open>The index is a byte, so only the first 256 positions can be copied to.\<close>

(* src/kernel/gfx/buffer.cpp:39-42 ScreenBuffer::Copy *)
definition sb_copy :: "screen_buffer \<Rightarrow> u8 \<Rightarrow> u8 list \<Rightarrow> u32 \<Rightarrow> screen_buffer option" where
  "sb_copy s dest source sz =
     map_option (\<lambda>b. s\<lparr>sb_bytes := b\<rparr>) (blit (sb_bytes s) (unat dest) source 0 (unat sz))"

section \<open>Surfaces\<close>

(* src/include/kernel/gfx/surface.hpp:39-47 BaseSurface *)
record surface =
  z_index :: u8
  s_bytes :: "u8 list"
  s_dirty :: "bool list"
  s_pitch :: u32
  s_pos :: vector2
  s_dim :: vector2

text \<open>
  The pitch is computed in floating point as \<open>frame_pitch / frame_width * dim.x\<close> and truncated. It is
  taken here as the exact quotient, which it is for the one surface the kernel makes, whose width is
  the frame's. \<open>vmalloc\<close> returns zeroed memory.
\<close>

(* src/kernel/gfx/surface.cpp:15-28 BaseSurface::BaseSurface *)
definition new_surface :: "u32 \<Rightarrow> u32 \<Rightarrow> vector2 \<Rightarrow> vector2 \<Rightarrow> surface" where
  "new_surface frame_pitch frame_width pos dim =
     (let pitch = of_nat (unat frame_pitch * unat (vx dim) div unat frame_width)
      in \<lparr>z_index = 1, s_bytes = replicate (unat (vy dim * pitch)) 0,
          s_dirty = replicate (unat (vy dim)) False, s_pitch = pitch, s_pos = pos, s_dim = dim\<rparr>)"

(* src/kernel/gfx/surface.cpp:30-40 BaseSurface::setPixel *)
definition set_pixel :: "u32 \<Rightarrow> surface \<Rightarrow> u32 \<Rightarrow> u32 \<Rightarrow> rgb \<Rightarrow> surface option" where
  "set_pixel frame_depth s x y col =
     (if x \<ge> vx (s_dim s) \<or> y \<ge> vy (s_dim s) then Some s
      else do {
        b \<leftarrow> put_pixel (s_bytes s) (x * (frame_depth div 8) + y * s_pitch s) col;
        d \<leftarrow> arr_set (s_dirty s) (unat y) True;
        Some (s\<lparr>s_bytes := b, s_dirty := d\<rparr>)
      })"

text \<open>The rows of a surface that are dirty, copied to the back buffer \<open>back\<close> at the surface's position.\<close>

(* src/kernel/gfx/surface.cpp:57-64 BaseSurface::apply *)
fun apply_rows :: "u32 \<Rightarrow> surface \<Rightarrow> u8 list \<Rightarrow> nat \<Rightarrow> nat \<Rightarrow> u8 list option" where
  "apply_rows frame_depth s back y 0 = Some back"
| "apply_rows frame_depth s back y (Suc n) = do {
     d \<leftarrow> arr_get (s_dirty s) y;
     back \<leftarrow> (if d then
         blit back (unat (vx (s_pos s) * (frame_depth div 8) + (of_nat y + vy (s_pos s)) * s_pitch s))
           (s_bytes s) (unat (of_nat y * s_pitch s)) (unat (s_pitch s))
       else Some back);
     apply_rows frame_depth s back (Suc y) n
   }"

(* src/kernel/gfx/surface.cpp:42-66 BaseSurface::apply *)
definition surface_apply :: "u32 \<Rightarrow> surface \<Rightarrow> bool \<Rightarrow> u8 list \<Rightarrow> u8 list option" where
  "surface_apply frame_depth s full_refresh back =
     (if full_refresh then blit back 0 (s_bytes s) 0 (unat (s_pitch s * vy (s_dim s)))
      else apply_rows frame_depth s back 0 (unat (vy (s_dim s))))"

text \<open>
  The copy of \<open>scrollUp\<close>, which runs under the print lock and with scheduling locked; a forward copy
  to a lower address reads every byte before it is overwritten.
\<close>

(* src/kernel/gfx/surface.cpp:68-76 BaseSurface::scrollUp *)
definition scroll_up :: "u32 \<Rightarrow> surface \<Rightarrow> u32 \<Rightarrow> surface option" where
  "scroll_up vga_height s num_lines =
     map_option (\<lambda>b. s\<lparr>s_bytes := b\<rparr>)
       (blit (s_bytes s) 0 (s_bytes s) (unat (num_lines * s_pitch s))
         (unat (s_pitch s * vga_height * num_lines)))"

(* src/kernel/gfx/surface.cpp:78-80 BaseSurface::bringToFront *)
definition bring_to_front :: "surface \<Rightarrow> surface" where
  "bring_to_front s = s\<lparr>z_index := 10\<rparr>"

(* src/kernel/gfx/surface.cpp:81-83 BaseSurface::setZindex *)
definition set_zindex :: "surface \<Rightarrow> u8 \<Rightarrow> surface" where
  "set_zindex s z = s\<lparr>z_index := z\<rparr>"

fun set_pixels :: "u32 \<Rightarrow> rgb \<Rightarrow> (nat \<times> nat) list \<Rightarrow> surface \<Rightarrow> surface option" where
  "set_pixels frame_depth col [] s = Some s"
| "set_pixels frame_depth col ((x, y) # ps) s = do {
     s \<leftarrow> set_pixel frame_depth s (of_nat x) (of_nat y) col;
     set_pixels frame_depth col ps s
   }"

text \<open>The bound of the inner loop is \<open>dim.y - 1\<close>, in unsigned arithmetic.\<close>

(* src/kernel/gfx/surface.cpp:85-91 BaseSurface::setBackground *)
definition set_background :: "u32 \<Rightarrow> surface \<Rightarrow> rgb \<Rightarrow> surface option" where
  "set_background frame_depth s bg =
     set_pixels frame_depth bg
       (List.product [0..<unat (vx (s_dim s))] [0..<unat (vy (s_dim s) - 1)]) s"

section \<open>The display\<close>

(* src/kernel/gfx/buffer.cpp:8-15 Graphics *)
record gfx =
  frame_width :: u32
  frame_height :: u32
  frame_depth :: u32
  frame_pitch :: u32
  front_buffer :: "u8 list"
  back_buffer :: "u8 list"
  g_dirty :: "bool list"
  screen_surface :: surface

(* src/kernel/gfx/buffer.cpp:67-78 Graphics::UpdateBuffers *)
definition update_buffers :: "update \<Rightarrow> gfx \<Rightarrow> gfx option" where
  "update_buffers how g = do {
     back \<leftarrow> surface_apply (frame_depth g) (screen_surface g) True (back_buffer g);
     front \<leftarrow> copy_rows (frame_pitch g) (g_dirty g) how (front_buffer g) back 0 (unat (frame_height g));
     Some (g\<lparr>back_buffer := back, front_buffer := front,
       g_dirty := replicate (unat (frame_height g)) False\<rparr>)
   }"

definition char_mask :: "u8 list" where
  "char_mask = [1, 2, 4, 8, 16, 32, 64, 128]"

text \<open>
  The two loops of \<open>drawchar_transparent\<close> visit the pairs of a row and a column of the glyph. The row
  of the screen is computed in unsigned arithmetic, and the mark in the global dirty buffer is set
  without the test that guards the pixel.
\<close>

(* src/kernel/gfx/buffer.cpp:89-98 drawchar_transparent *)
fun draw_pixels :: "u8 \<Rightarrow> u32 \<Rightarrow> u32 \<Rightarrow> rgb \<Rightarrow> (nat \<times> nat) list \<Rightarrow> gfx \<Rightarrow> gfx option" where
  "draw_pixels c x y col [] g = Some g"
| "draw_pixels c x y col ((cy, cx) # ps) g = do {
     row \<leftarrow> arr_get (glyph_of c) cy;
     bitmask \<leftarrow> arr_get char_mask (7 - cx);
     g \<leftarrow> (if row AND bitmask \<noteq> 0 then do {
         let x_coord = x + of_nat cx;
         let y_coord = y + of_nat cy - 12;
         s \<leftarrow> set_pixel (frame_depth g) (screen_surface g) x_coord y_coord col;
         d \<leftarrow> arr_set (g_dirty g) (unat y_coord) True;
         Some (g\<lparr>screen_surface := s, g_dirty := d\<rparr>)
       } else Some g);
     draw_pixels c x y col ps g
   }"

(* src/kernel/gfx/buffer.cpp:80-99 drawchar_transparent *)
definition drawchar_transparent :: "u8 \<Rightarrow> u32 \<Rightarrow> u32 \<Rightarrow> rgb \<Rightarrow> gfx \<Rightarrow> gfx option" where
  "drawchar_transparent c x y col g = draw_pixels c x y col (List.product [0..<16] [0..<8]) g"

section \<open>Pixels of a surface\<close>

text \<open>
  A surface is well formed for a depth when a row of its pixels fits in the pitch and its two buffers
  have the size of its rows.
\<close>

definition surface_ok :: "u32 \<Rightarrow> surface \<Rightarrow> bool" where
  "surface_ok depth s \<longleftrightarrow> 24 \<le> unat depth
     \<and> unat (vx (s_dim s)) * (unat depth div 8) \<le> unat (s_pitch s)
     \<and> length (s_bytes s) = unat (s_pitch s) * unat (vy (s_dim s)) \<and> length (s_bytes s) < 2 ^ 32
     \<and> length (s_dirty s) = unat (vy (s_dim s))"

lemma surface_ok_bytes: "surface_ok depth s \<Longrightarrow> 3 \<le> unat depth div 8"
  by (auto simp: surface_ok_def)

definition on_surface :: "surface \<Rightarrow> nat \<Rightarrow> nat \<Rightarrow> bool" where
  "on_surface s x y \<longleftrightarrow> x < unat (vx (s_dim s)) \<and> y < unat (vy (s_dim s))"

definition pixel_offset :: "u32 \<Rightarrow> surface \<Rightarrow> nat \<Rightarrow> nat \<Rightarrow> nat" where
  "pixel_offset depth s x y = x * (unat depth div 8) + y * unat (s_pitch s)"

definition pixel_at :: "u32 \<Rightarrow> surface \<Rightarrow> nat \<Rightarrow> nat \<Rightarrow> rgb" where
  "pixel_at depth s x y =
     (let w = pixel_offset depth s x y
      in \<lparr>red = s_bytes s ! (w + 2), green = s_bytes s ! (w + 1), blue = s_bytes s ! w\<rparr>)"

text \<open>Both coordinates can be read off the offset of a byte of a pixel.\<close>

lemma offset_coords:
  fixes x y b p i n :: nat
  assumes "x < n" and "n * b \<le> p" and "i < b"
  shows "x * b + y * p + i < (y + 1) * p" and "(x * b + y * p + i) div p = y"
    and "((x * b + y * p + i) mod p) div b = x" and "((x * b + y * p + i) mod p) mod b = i"
proof -
  have "Suc x * b \<le> n * b" using assms(1) by (intro mult_le_mono1) simp
  then have lt: "x * b + i < p" using assms(2,3) by simp
  have e: "x * b + y * p + i = (x * b + i) + y * p" by simp
  show "x * b + y * p + i < (y + 1) * p" using lt by simp
  show "(x * b + y * p + i) div p = y" unfolding e using lt by simp
  have "(x * b + y * p + i) mod p = x * b + i" unfolding e using lt by simp
  then show "((x * b + y * p + i) mod p) div b = x" "((x * b + y * p + i) mod p) mod b = i"
    using assms(3) by simp_all
qed

lemma pixel_offset_bound:
  assumes ok: "surface_ok depth s" and xy: "on_surface s x y"
  shows "pixel_offset depth s x y + 2 < length (s_bytes s)"
proof -
  let ?p = "unat (s_pitch s)"
  have "pixel_offset depth s x y + 2 < (y + 1) * ?p"
    using offset_coords(1) [of x "unat (vx (s_dim s))" "unat depth div 8" ?p 2 y] ok xy surface_ok_bytes [OF ok]
    by (simp add: surface_ok_def on_surface_def pixel_offset_def)
  also have "(y + 1) * ?p \<le> unat (vy (s_dim s)) * ?p"
    using xy by (intro mult_le_mono1) (simp add: on_surface_def)
  finally show ?thesis using ok by (simp add: surface_ok_def mult.commute)
qed

lemma pixel_offset_inj:
  assumes "surface_ok depth s" and "on_surface s x y" and "on_surface s x' y'"
    and "i < 3" and "j < 3"
    and eq: "pixel_offset depth s x y + i = pixel_offset depth s x' y' + j"
  shows "x = x' \<and> y = y' \<and> i = j"
proof -
  let ?b = "unat depth div 8" and ?p = "unat (s_pitch s)" and ?n = "unat (vx (s_dim s))"
  have b: "?n * ?b \<le> ?p" "i < ?b" "j < ?b" "x < ?n" "x' < ?n"
    using assms surface_ok_bytes [OF assms(1)] by (simp_all add: surface_ok_def on_surface_def)
  note 1 = offset_coords [OF b(4,1,2), of y] and 2 = offset_coords [OF b(5,1,3), of y']
  have e: "x * ?b + y * ?p + i = x' * ?b + y' * ?p + j" using eq by (simp add: pixel_offset_def)
  show ?thesis using 1(2-4) 2(2-4) unfolding e by simp
qed

lemma unat_pixel_offset:
  assumes ok: "surface_ok depth s" and xy: "on_surface s (unat x) (unat y)"
  shows "unat (x * (depth div 8) + y * s_pitch s) = pixel_offset depth s (unat x) (unat y)"
    and "unat (x * (depth div 8) + y * s_pitch s + 1) = pixel_offset depth s (unat x) (unat y) + 1"
    and "unat (x * (depth div 8) + y * s_pitch s + 2) = pixel_offset depth s (unat x) (unat y) + 2"
proof -
  define n where "n = pixel_offset depth s (unat x) (unat y)"
  have lt: "n + 2 < 2 ^ 32"
    using pixel_offset_bound [OF ok xy] ok unfolding n_def [symmetric] by (simp add: surface_ok_def)
  have "depth = of_nat (unat depth)" by simp
  moreover have d: "unat (depth div 8) = unat depth div 8" by (simp add: unat_div)
  have "x * (depth div 8) + y * s_pitch s = of_nat n"
    unfolding n_def pixel_offset_def of_nat_add of_nat_mult d [symmetric] by simp
  moreover have "unat (of_nat (n + k) :: u32) = n + k" if "k \<le> 2" for k
    using lt that by (simp add: unat_of_nat del: of_nat_add)
  from this [of 0] this [of 1] this [of 2]
  have "unat (of_nat n :: u32) = n" "unat (of_nat n + 1 :: u32) = n + 1" "unat (of_nat n + 2 :: u32) = n + 2"
    by (simp_all add: add.commute)
  ultimately show "unat (x * (depth div 8) + y * s_pitch s) = pixel_offset depth s (unat x) (unat y)"
    "unat (x * (depth div 8) + y * s_pitch s + 1) = pixel_offset depth s (unat x) (unat y) + 1"
    "unat (x * (depth div 8) + y * s_pitch s + 2) = pixel_offset depth s (unat x) (unat y) + 2"
    by (simp_all add: n_def)
qed

text \<open>What a call of \<open>setPixel\<close> that is on the surface does.\<close>

definition painted :: "u32 \<Rightarrow> surface \<Rightarrow> nat \<Rightarrow> nat \<Rightarrow> rgb \<Rightarrow> surface" where
  "painted depth s x y col =
     (let w = pixel_offset depth s x y
      in s\<lparr>s_bytes := (s_bytes s)[w := blue col, w + 1 := green col, w + 2 := red col],
           s_dirty := (s_dirty s)[y := True]\<rparr>)"

lemma painted_simps [simp]:
  "s_dim (painted depth s x y col) = s_dim s" "s_pitch (painted depth s x y col) = s_pitch s"
  "s_pos (painted depth s x y col) = s_pos s" "s_dirty (painted depth s x y col) = (s_dirty s)[y := True]"
  "surface_ok depth' (painted depth s x y col) = surface_ok depth' s"
  "on_surface (painted depth s x y col) = on_surface s"
  by (simp_all add: painted_def Let_def surface_ok_def on_surface_def fun_eq_iff)

lemma set_pixel_on:
  assumes ok: "surface_ok depth s" and xy: "on_surface s (unat x) (unat y)"
  shows "set_pixel depth s x y col = Some (painted depth s (unat x) (unat y) col)"
proof -
  note off = unat_pixel_offset [OF ok xy]
  have "\<not> (x \<ge> vx (s_dim s) \<or> y \<ge> vy (s_dim s))"
    using xy by (simp add: on_surface_def word_le_nat_alt)
  moreover have "unat y < length (s_dirty s)" using ok xy by (simp add: surface_ok_def on_surface_def)
  ultimately show ?thesis
    using pixel_offset_bound [OF ok xy]
    by (simp add: set_pixel_def put_pixel_def off painted_def Let_def)
qed

lemma set_pixel_off:
  "\<not> on_surface s (unat x) (unat y) \<Longrightarrow> set_pixel depth s x y col = Some s"
  by (auto simp: set_pixel_def on_surface_def word_le_nat_alt)

lemma pixel_at_painted:
  assumes ok: "surface_ok depth s" and xy: "on_surface s x y" and xy': "on_surface s x' y'"
  shows "pixel_at depth (painted depth s x y col) x' y' =
    (if x' = x \<and> y' = y then col else pixel_at depth s x' y')"
proof -
  let ?w = "pixel_offset depth s x y" and ?w' = "pixel_offset depth s x' y'"
  have b: "?w + 2 < length (s_bytes s)" "?w' + 2 < length (s_bytes s)"
    using pixel_offset_bound [OF ok xy] pixel_offset_bound [OF ok xy'] .
  have o: "pixel_offset depth (painted depth s x y col) a b = pixel_offset depth s a b" for a b by (simp add: pixel_offset_def)
  have bytes: "s_bytes (painted depth s x y col) =
      (s_bytes s)[?w := blue col, ?w + 1 := green col, ?w + 2 := red col]"
    by (simp add: painted_def Let_def)
  have ne: "?w + i \<noteq> ?w' + j" if "\<not> (x' = x \<and> y' = y)" "i < 3" "j < 3" for i j
    using pixel_offset_inj [OF ok xy xy' that(2,3)] that(1) by blast
  show ?thesis
  proof (cases "x' = x \<and> y' = y")
    case True
    then show ?thesis using b by (simp add: pixel_at_def o Let_def bytes)
  next
    case False
    note n = ne [OF False]
    have "?w \<noteq> ?w'" "?w \<noteq> ?w' + 1" "?w \<noteq> ?w' + 2" "?w + 1 \<noteq> ?w'" "?w + 1 \<noteq> ?w' + 2"
      "?w + 2 \<noteq> ?w'" "?w + 2 \<noteq> ?w' + 1"
      using n [of 0 0] n [of 0 1] n [of 0 2] n [of 1 0] n [of 1 2] n [of 2 0] n [of 2 1] by simp_all
    then show ?thesis unfolding if_not_P [OF False] by (simp add: pixel_at_def o Let_def bytes)
  qed
qed

text \<open>
  \<open>setPixel\<close> on a well-formed surface stays inside its buffers, gives the pixel its colour, marks its
  row, and changes no other pixel and no other mark; outside the surface it does nothing.
\<close>

theorem set_pixel_correct:
  assumes "surface_ok depth s"
  shows "\<exists>s'. set_pixel depth s x y col = Some s' \<and> surface_ok depth s'
    \<and> (\<forall>x' y'. on_surface s x' y' \<longrightarrow> pixel_at depth s' x' y' =
         (if x' = unat x \<and> y' = unat y then col else pixel_at depth s x' y'))
    \<and> s_dirty s' = (if on_surface s (unat x) (unat y) then (s_dirty s)[unat y := True] else s_dirty s)"
proof (cases "on_surface s (unat x) (unat y)")
  case True
  then show ?thesis
    using assms set_pixel_on [OF assms True] pixel_at_painted [OF assms True] by auto
next
  case False
  then show ?thesis using assms set_pixel_off [OF False] by auto
qed

definition sample_surface :: surface where
  "sample_surface = new_surface 12 4 \<lparr>vx = 0, vy = 0\<rparr> \<lparr>vx = 4, vy = 2\<rparr>"

lemma sample_surface_ok: "surface_ok 24 sample_surface"
  by (simp add: surface_ok_def sample_surface_def new_surface_def)

theorem set_pixel_correct_witness:
  "\<exists>s'. set_pixel 24 sample_surface 3 1 (rgb_of_hex 0x288acc) = Some s' \<and> surface_ok 24 s'"
  using set_pixel_correct [OF sample_surface_ok] by blast

section \<open>Drawing a character\<close>

definition gfx_ok :: "gfx \<Rightarrow> bool" where
  "gfx_ok g \<longleftrightarrow> surface_ok (frame_depth g) (screen_surface g)
     \<and> vy (s_dim (screen_surface g)) = frame_height g \<and> length (g_dirty g) = unat (frame_height g)"

text \<open>The pixel in row \<open>cy\<close> and column \<open>cx\<close> of the picture of a character.\<close>

definition glyph_pixel :: "u8 \<Rightarrow> nat \<Rightarrow> nat \<Rightarrow> bool" where
  "glyph_pixel c cy cx \<longleftrightarrow> bit (glyph_of c ! cy) (7 - cx)"

lemma char_mask_bit:
  assumes "cx < 8"
  shows "arr_get char_mask (7 - cx) = Some (2 ^ (7 - cx))"
proof -
  have "cx = 0 \<or> cx = 1 \<or> cx = 2 \<or> cx = 3 \<or> cx = 4 \<or> cx = 5 \<or> cx = 6 \<or> cx = 7" using assms by linarith
  then show ?thesis by (elim disjE) (simp_all add: char_mask_def arr_get_def)
qed

lemma and_2p_u8: "(w :: u8) AND 2 ^ k = 0 \<longleftrightarrow> \<not> bit w k"
  by (simp add: and_exp_eq_0_iff_not_bit)

text \<open>The screen position of a pixel of a character drawn at \<open>x\<close>, \<open>y\<close>.\<close>

definition on_screen :: "gfx \<Rightarrow> u32 \<Rightarrow> u32 \<Rightarrow> bool" where
  "on_screen g x y \<longleftrightarrow> unat x + 8 \<le> unat (vx (s_dim (screen_surface g)))
     \<and> 12 \<le> unat y \<and> unat y + 4 \<le> unat (frame_height g)"

definition dot :: "gfx \<Rightarrow> nat \<Rightarrow> nat \<Rightarrow> rgb \<Rightarrow> gfx" where
  "dot g x y col = g\<lparr>screen_surface := painted (frame_depth g) (screen_surface g) x y col,
     g_dirty := (g_dirty g)[y := True]\<rparr>"

lemma dot_simps [simp]:
  "gfx_ok (dot g x y col) = gfx_ok g" "frame_depth (dot g x y col) = frame_depth g"
  "frame_height (dot g x y col) = frame_height g" "on_screen (dot g x y col) = on_screen g"
  "screen_surface (dot g x y col) = painted (frame_depth g) (screen_surface g) x y col"
  by (simp_all add: dot_def gfx_ok_def on_screen_def fun_eq_iff)

text \<open>What the loops do to the list \<open>ps\<close> of glyph positions.\<close>

fun dots :: "u8 \<Rightarrow> nat \<Rightarrow> nat \<Rightarrow> rgb \<Rightarrow> (nat \<times> nat) list \<Rightarrow> gfx \<Rightarrow> gfx" where
  "dots c x y col [] g = g"
| "dots c x y col ((cy, cx) # ps) g =
     dots c x y col ps (if glyph_pixel c cy cx then dot g (x + cx) (y + cy - 12) col else g)"

lemma screen_coords:
  assumes "gfx_ok g" and "on_screen g x y" and "cy < 16" and "cx < 8"
  shows "unat (x + of_nat cx) = unat x + cx" and "unat (y + of_nat cy - 12) = unat y + cy - 12"
    and "on_surface (screen_surface g) (unat x + cx) (unat y + cy - 12)"
    and "unat y + cy - 12 < length (g_dirty g)"
proof -
  let ?w = "unat (vx (s_dim (screen_surface g)))" and ?h = "unat (frame_height g)"
  have b: "unat x + 8 \<le> ?w" "12 \<le> unat y" "unat y + 4 \<le> ?h" "?w < 4294967296" "?h < 4294967296"
    using assms(2) unat_u32_less by (simp_all add: on_screen_def)
  have "unat (x + of_nat cx) = (unat x + unat (of_nat cx :: u32)) mod 4294967296"
    by (simp add: unat_word_ariths)
  moreover have "unat (of_nat cx :: u32) = cx" "unat (of_nat cy :: u32) = cy"
    using assms(3,4) by (simp_all add: unat_of_nat)
  ultimately show "unat (x + of_nat cx) = unat x + cx" using b assms(4) by simp
  have s: "unat (y + of_nat cy) = unat y + cy"
  proof -
    have "24 \<le> unat (s_pitch (screen_surface g))" "unat (s_pitch (screen_surface g)) * ?h < 4294967296"
      using assms(1) b(1) mult_le_mono [of 8 ?w 3 "unat (frame_depth g) div 8"]
        surface_ok_bytes [of "frame_depth g" "screen_surface g"]
      by (auto simp: gfx_ok_def surface_ok_def)
    then have "24 * ?h < 4294967296" using mult_le_mono1 [of 24 _ ?h] by (meson le_less_trans)
    then have "unat y + cy < 4294967296" using b assms(3) by linarith
    then show ?thesis using \<open>unat (of_nat cy :: u32) = cy\<close> by (simp add: unat_word_ariths)
  qed
  then have "12 \<le> y + of_nat cy" using b(2) by (simp add: word_le_nat_alt)
  then show "unat (y + of_nat cy - 12) = unat y + cy - 12" using s by (simp add: unat_sub)
  show "on_surface (screen_surface g) (unat x + cx) (unat y + cy - 12)"
    "unat y + cy - 12 < length (g_dirty g)"
    using b assms by (auto simp: on_surface_def gfx_ok_def)
qed

lemma draw_pixels_dots:
  assumes "gfx_ok g" and "on_screen g x y" and "\<forall>(cy, cx) \<in> set ps. cy < 16 \<and> cx < 8"
  shows "draw_pixels c x y col ps g = Some (dots c (unat x) (unat y) col ps g)
    \<and> gfx_ok (dots c (unat x) (unat y) col ps g)"
  using assms
proof (induction ps arbitrary: g)
  case (Cons p ps)
  obtain cy cx where p: "p = (cy, cx)" by (cases p)
  then have c: "cy < 16" "cx < 8" using Cons.prems(3) by auto
  note sc = screen_coords [OF Cons.prems(1,2) c]
  have row: "arr_get (glyph_of c) cy = Some (glyph_of c ! cy)" using c(1) by simp
  have ok: "surface_ok (frame_depth g) (screen_surface g)" using Cons.prems(1) by (simp add: gfx_ok_def)
  have px: "set_pixel (frame_depth g) (screen_surface g) (x + of_nat cx) (y + of_nat cy - 12) col
      = Some (painted (frame_depth g) (screen_surface g) (unat x + cx) (unat y + cy - 12) col)"
    using set_pixel_on [OF ok] sc(1-3) by simp
  let ?g = "if glyph_pixel c cy cx then dot g (unat x + cx) (unat y + cy - 12) col else g"
  have "draw_pixels c x y col (p # ps) g = draw_pixels c x y col ps ?g"
    using sc(4) by (simp add: p row char_mask_bit [OF c(2)] and_2p_u8 glyph_pixel_def px sc(2) dot_def)
  moreover have "draw_pixels c x y col ps ?g = Some (dots c (unat x) (unat y) col ps ?g)
      \<and> gfx_ok (dots c (unat x) (unat y) col ps ?g)"
    using Cons.prems by (intro Cons.IH) simp_all
  ultimately show ?case by (simp add: p)
qed simp

lemma dots_pixel:
  assumes "gfx_ok g" and "on_screen g x y" and "\<forall>(cy, cx) \<in> set ps. cy < 16 \<and> cx < 8"
    and "on_surface (screen_surface g) px py"
  shows "pixel_at (frame_depth g) (screen_surface (dots c (unat x) (unat y) col ps g)) px py =
    (if \<exists>(cy, cx) \<in> set ps. px = unat x + cx \<and> py = unat y + cy - 12 \<and> glyph_pixel c cy cx
     then col else pixel_at (frame_depth g) (screen_surface g) px py)"
  using assms
proof (induction ps arbitrary: g)
  case (Cons p ps)
  obtain cy cx where p: "p = (cy, cx)" by (cases p)
  then have c: "cy < 16" "cx < 8" using Cons.prems(3) by auto
  have ok: "surface_ok (frame_depth g) (screen_surface g)" using Cons.prems(1) by (simp add: gfx_ok_def)
  note at = pixel_at_painted [OF ok screen_coords(3) [OF Cons.prems(1,2) c] Cons.prems(4), of col]
  show ?case
  proof (cases "glyph_pixel c cy cx")
    case True
    let ?g = "dot g (unat x + cx) (unat y + cy - 12) col"
    have "pixel_at (frame_depth ?g) (screen_surface (dots c (unat x) (unat y) col ps ?g)) px py =
      (if \<exists>(cy, cx) \<in> set ps. px = unat x + cx \<and> py = unat y + cy - 12 \<and> glyph_pixel c cy cx
       then col else pixel_at (frame_depth ?g) (screen_surface ?g) px py)"
      using Cons.prems by (intro Cons.IH) simp_all
    moreover have "(\<exists>(cy, cx) \<in> set (p # ps). px = unat x + cx \<and> py = unat y + cy - 12 \<and> glyph_pixel c cy cx)
      \<longleftrightarrow> (\<exists>(cy, cx) \<in> set ps. px = unat x + cx \<and> py = unat y + cy - 12 \<and> glyph_pixel c cy cx)
        \<or> px = unat x + cx \<and> py = unat y + cy - 12"
      using True by (auto simp: p)
    ultimately show ?thesis using True by (simp only: p dots.simps dot_simps at if_True split: if_split) blast
  next
    case False
    then show ?thesis using Cons.IH [of g] Cons.prems by (simp add: p)
  qed
qed simp

lemma dots_frame:
  "frame_height (dots c x y col ps g) = frame_height g"
  "s_dim (screen_surface (dots c x y col ps g)) = s_dim (screen_surface g)"
  by (induction c x y col ps g rule: dots.induct) auto

lemma drawchar_frame:
  assumes "gfx_ok g" and "on_screen g x y"
  shows "\<exists>g'. drawchar_transparent c x y col g = Some g' \<and> gfx_ok g' \<and> frame_height g' = frame_height g
    \<and> s_dim (screen_surface g') = s_dim (screen_surface g)"
proof -
  have "\<forall>(cy, cx) \<in> set (List.product [0..<16] [0..<8 :: nat]). cy < 16 \<and> cx < 8" by auto
  from draw_pixels_dots [OF assms this, of c col] show ?thesis
    unfolding drawchar_transparent_def by (auto simp: dots_frame)
qed

text \<open>
  A character whose cell lies on the screen is drawn without leaving any buffer: a pixel of the screen
  gets the foreground colour when it is a set pixel of the glyph, in the cell that starts 12 rows above
  \<open>y\<close>, and keeps its own otherwise.
\<close>

theorem drawchar_correct:
  assumes ok: "gfx_ok g" and fits: "on_screen g x y"
  shows "\<exists>g'. drawchar_transparent c x y col g = Some g' \<and> gfx_ok g'
    \<and> (\<forall>px py. on_surface (screen_surface g) px py \<longrightarrow>
         pixel_at (frame_depth g) (screen_surface g') px py =
           (if unat x \<le> px \<and> px < unat x + 8 \<and> unat y \<le> py + 12 \<and> py < unat y + 4
               \<and> bit (font_terminus ! unat c ! (py + 12 - unat y)) (7 - (px - unat x))
            then col else pixel_at (frame_depth g) (screen_surface g) px py))"
proof -
  let ?ps = "List.product [0..<16] [0..<8 :: nat]"
  have ps: "\<forall>(cy, cx) \<in> set ?ps. cy < 16 \<and> cx < 8" by auto
  have y: "12 \<le> unat y" using fits by (simp add: on_screen_def)
  have hit: "(\<exists>(cy, cx) \<in> set ?ps. px = unat x + cx \<and> py = unat y + cy - 12 \<and> glyph_pixel c cy cx) \<longleftrightarrow>
      (unat x \<le> px \<and> px < unat x + 8 \<and> unat y \<le> py + 12 \<and> py < unat y + 4
        \<and> bit (font_terminus ! unat c ! (py + 12 - unat y)) (7 - (px - unat x)))" (is "?l = ?r") for px py
  proof
    assume ?l
    then show ?r using y by (auto simp: glyph_pixel_def glyph_of_def)
  next
    assume r: ?r
    then have "(py + 12 - unat y, px - unat x) \<in> set ?ps" "px = unat x + (px - unat x)"
      "py = unat y + (py + 12 - unat y) - 12" by auto
    moreover have "glyph_pixel c (py + 12 - unat y) (px - unat x)"
      using r unfolding glyph_pixel_def glyph_of_def by blast
    ultimately show ?l by blast
  qed
  show ?thesis
    using draw_pixels_dots [OF ok fits ps, of c col] dots_pixel [OF ok fits ps, of _ _ c col]
    unfolding drawchar_transparent_def hit by blast
qed

definition sample_gfx :: gfx where
  "sample_gfx = \<lparr>frame_width = 8, frame_height = 16, frame_depth = 24, frame_pitch = 24,
     front_buffer = replicate 384 0, back_buffer = replicate 384 0, g_dirty = replicate 16 False,
     screen_surface = new_surface 24 8 \<lparr>vx = 0, vy = 0\<rparr> \<lparr>vx = 8, vy = 16\<rparr>\<rparr>"

theorem drawchar_correct_witness:
  "\<exists>g'. drawchar_transparent 0x41 0 12 rgb_white sample_gfx = Some g' \<and> gfx_ok g'"
proof -
  have "gfx_ok sample_gfx" "on_screen sample_gfx 0 12"
    by (simp_all add: gfx_ok_def on_screen_def sample_gfx_def new_surface_def surface_ok_def)
  from drawchar_correct [OF this] show ?thesis by blast
qed

section \<open>Refreshing the display\<close>

lemma blit_nth:
  assumes "di + n \<le> length dst" and "si + n \<le> length src"
  shows "\<exists>r. blit dst di src si n = Some r \<and> length r = length dst
    \<and> (\<forall>i < length dst. r ! i = (if di \<le> i \<and> i < di + n then src ! (si + (i - di)) else dst ! i))"
proof -
  define m where "m = take n (drop si src)"
  have m: "length m = n" "\<And>k. k < n \<Longrightarrow> m ! k = src ! (si + k)" using assms(2) by (simp_all add: m_def)
  have "blit dst di src si n = Some (take di dst @ m @ drop (di + n) dst)"
    using assms by (simp add: blit_def m_def)
  moreover have "(take di dst @ m @ drop (di + n) dst) ! i =
      (if di \<le> i \<and> i < di + n then src ! (si + (i - di)) else dst ! i)" if "i < length dst" for i
    using that assms(1) m(2) [of "i - di"] by (auto simp: nth_append m(1) min_def)
  ultimately show ?thesis using assms(1) m(1) by simp
qed

text \<open>Byte \<open>i\<close> of a buffer belongs to row \<open>i div p\<close>.\<close>

lemma copy_rows_nth:
  fixes pitch :: u32
  assumes "(y + n) * unat pitch \<le> length dst" and "length src = length dst" and "length dst < 2 ^ 32"
    and "y + n \<le> length dirty"
  shows "\<exists>r. copy_rows pitch dirty how dst src y n = Some r \<and> length r = length dst
    \<and> (\<forall>i < length dst. r ! i =
         (if y * unat pitch \<le> i \<and> i < (y + n) * unat pitch \<and> (how = FULL_REFRESH \<or> dirty ! (i div unat pitch))
          then src ! i else dst ! i))"
  using assms
proof (induction n arbitrary: y dst)
  case (Suc n)
  let ?p = "unat pitch" and ?d = "how = FULL_REFRESH \<or> dirty ! y"
  have row: "y * ?p + ?p \<le> length dst" using Suc.prems(1) by (simp add: algebra_simps)
  then have "unat (of_nat (y * ?p) :: u32) = y * ?p" using Suc.prems(3) by (simp add: unat_of_nat del: of_nat_mult)
  then have at: "unat (of_nat y * pitch) = y * ?p" by simp
  obtain r where r: "blit dst (y * ?p) src (y * ?p) ?p = Some r" "length r = length dst"
    "\<forall>i < length dst. r ! i = (if y * ?p \<le> i \<and> i < y * ?p + ?p then src ! i else dst ! i)"
    using blit_nth [of "y * ?p" ?p dst "y * ?p" src] row Suc.prems(2) by auto
  let ?dst = "if ?d then r else dst"
  have step: "copy_rows pitch dirty how dst src y (Suc n) = copy_rows pitch dirty how ?dst src (Suc y) n"
    using Suc.prems(4) r(1) at by simp
  have "(Suc y + n) * ?p \<le> length ?dst" "length src = length ?dst" "length ?dst < 2 ^ 32" "Suc y + n \<le> length dirty"
    using Suc.prems r(2) by simp_all
  note ih = Suc.IH [OF this]
  have "length ?dst = length dst" using r(2) by simp
  with ih obtain t where t: "copy_rows pitch dirty how ?dst src (Suc y) n = Some t"
    "length t = length dst"
    "\<forall>i < length dst. t ! i = (if Suc y * ?p \<le> i \<and> i < (Suc y + n) * ?p \<and> (how = FULL_REFRESH \<or> dirty ! (i div ?p))
       then src ! i else ?dst ! i)"
    by auto
  have "t ! i = (if y * ?p \<le> i \<and> i < (y + Suc n) * ?p \<and> (how = FULL_REFRESH \<or> dirty ! (i div ?p))
      then src ! i else dst ! i)" if i: "i < length dst" for i
  proof (cases "y * ?p \<le> i \<and> i < y * ?p + ?p")
    case True
    then have "i div ?p = y" by (intro div_nat_eqI) (simp_all add: algebra_simps)
    then show ?thesis using True t(3) r(3) i by (simp add: algebra_simps)
  next
    case False
    then show ?thesis using t(3) r(3) i by (auto simp: algebra_simps)
  qed
  then show ?case using step t(1,2) by auto
qed auto

lemma apply_rows_copy_rows:
  assumes "s_pos s = \<lparr>vx = 0, vy = 0\<rparr>"
  shows "apply_rows depth s bb y n = copy_rows (s_pitch s) (s_dirty s) DELTA_REFRESH bb (s_bytes s) y n"
  using assms by (induction n arbitrary: bb y) (auto intro!: Option.bind_cong)

text \<open>Two buffers agree on the rows that are not marked.\<close>

definition agree_on_clean :: "nat \<Rightarrow> bool list \<Rightarrow> u8 list \<Rightarrow> u8 list \<Rightarrow> bool" where
  "agree_on_clean p dirty a b \<longleftrightarrow> length a = length b \<and> (\<forall>i < length b. \<not> dirty ! (i div p) \<longrightarrow> a ! i = b ! i)"

lemma copy_rows_all:
  fixes pitch :: u32
  assumes "length src = n * unat pitch" and "length src < 2 ^ 32" and "length dirty = n"
    and "how = FULL_REFRESH \<and> length dst = length src \<or> agree_on_clean (unat pitch) dirty dst src"
  shows "copy_rows pitch dirty how dst src 0 n = Some src"
proof -
  have l: "length dst = length src" using assms(4) by (auto simp: agree_on_clean_def)
  then obtain r where r: "copy_rows pitch dirty how dst src 0 n = Some r" "length r = length src"
    "\<forall>i < length src. r ! i = (if i < n * unat pitch \<and> (how = FULL_REFRESH \<or> dirty ! (i div unat pitch))
       then src ! i else dst ! i)"
    using copy_rows_nth [of 0 n pitch dst src dirty how] assms by auto
  have "r = src"
    using r assms(1,4) by (intro nth_equalityI) (auto simp: agree_on_clean_def)
  then show ?thesis using r(1) by simp
qed

text \<open>
  Copying only the dirty rows of a surface to the back buffer does what copying the whole surface
  does, whenever the back buffer agrees with the surface on the rows that are not dirty.
\<close>

theorem apply_incremental:
  assumes ok: "surface_ok depth s" and "s_pos s = \<lparr>vx = 0, vy = 0\<rparr>"
    and "agree_on_clean (unat (s_pitch s)) (s_dirty s) bb (s_bytes s)"
  shows "surface_apply depth s False bb = Some (s_bytes s) \<and> surface_apply depth s True bb = Some (s_bytes s)"
proof
  have len: "length (s_bytes s) = unat (vy (s_dim s)) * unat (s_pitch s)" "length (s_bytes s) < 2 ^ 32"
    "length (s_dirty s) = unat (vy (s_dim s))"
    using ok by (simp_all add: surface_ok_def mult.commute)
  show "surface_apply depth s False bb = Some (s_bytes s)"
    using copy_rows_all [OF len, of DELTA_REFRESH bb] assms(2,3)
    by (simp add: surface_apply_def apply_rows_copy_rows)
  have "unat (s_pitch s * vy (s_dim s)) = length (s_bytes s)"
    using len by (simp add: unat_word_ariths mult.commute)
  then show "surface_apply depth s True bb = Some (s_bytes s)"
    using assms(3) by (simp add: surface_apply_def blit_def agree_on_clean_def)
qed

theorem apply_incremental_witness:
  "surface_apply 24 sample_surface False (replicate 24 0) = Some (s_bytes sample_surface)
   \<and> surface_apply 24 sample_surface True (replicate 24 0) = Some (s_bytes sample_surface)"
proof -
  have "s_pos sample_surface = \<lparr>vx = 0, vy = 0\<rparr>"
    "agree_on_clean (unat (s_pitch sample_surface)) (s_dirty sample_surface) (replicate 24 0) (s_bytes sample_surface)"
    by (simp_all add: sample_surface_def new_surface_def agree_on_clean_def)
  from apply_incremental [OF sample_surface_ok this] show ?thesis .
qed

text \<open>The whole display: the buffers have the size of the surface, which covers the screen.\<close>

definition display_ok :: "gfx \<Rightarrow> bool" where
  "display_ok g \<longleftrightarrow> gfx_ok g \<and> s_pitch (screen_surface g) = frame_pitch g
     \<and> length (back_buffer g) = length (s_bytes (screen_surface g))
     \<and> length (front_buffer g) = length (s_bytes (screen_surface g))"

definition in_sync :: "gfx \<Rightarrow> bool" where
  "in_sync g \<longleftrightarrow> agree_on_clean (unat (frame_pitch g)) (g_dirty g) (front_buffer g) (s_bytes (screen_surface g))"

lemma display_size:
  assumes "display_ok g"
  shows "length (s_bytes (screen_surface g)) = unat (frame_height g) * unat (frame_pitch g)"
    and "length (s_bytes (screen_surface g)) < 2 ^ 32" and "length (g_dirty g) = unat (frame_height g)"
    and "unat (s_pitch (screen_surface g) * vy (s_dim (screen_surface g))) = length (s_bytes (screen_surface g))"
    and "length (back_buffer g) = length (s_bytes (screen_surface g))"
    and "length (front_buffer g) = length (s_bytes (screen_surface g))"
  using assms by (auto simp: display_ok_def gfx_ok_def surface_ok_def mult.commute unat_word_ariths)

lemma dot_sync:
  assumes "display_ok g" and "in_sync g" and "on_surface (screen_surface g) x y"
  shows "display_ok (dot g x y col) \<and> in_sync (dot g x y col)"
proof -
  let ?s = "screen_surface g" and ?p = "unat (frame_pitch g)"
  let ?w = "pixel_offset (frame_depth g) ?s x y"
  have ok: "surface_ok (frame_depth g) ?s" and p: "s_pitch ?s = frame_pitch g"
    and dl: "length (g_dirty g) = unat (vy (s_dim ?s))"
    using assms(1) by (simp_all add: display_ok_def gfx_ok_def)
  have y: "(?w + i) div ?p = y" if "i < 3" for i
    using offset_coords(2) [of x "unat (vx (s_dim ?s))" "unat (frame_depth g) div 8" ?p i y] ok p
      surface_ok_bytes [OF ok] assms(3) that
    by (simp add: surface_ok_def on_surface_def pixel_offset_def)
  have "y < length (g_dirty g)" using assms(3) dl by (simp add: on_surface_def)
  moreover have "?w div ?p = y" "(?w + 1) div ?p = y" "(?w + 2) div ?p = y"
    using y [of 0] y [of 1] y [of 2] by simp_all
  ultimately have ne: "i \<noteq> ?w \<and> i \<noteq> ?w + 1 \<and> i \<noteq> ?w + 2 \<and> \<not> g_dirty g ! (i div ?p)"
    if "\<not> (g_dirty g)[y := True] ! (i div ?p)" for i
    using that by (auto simp: nth_list_update split: if_splits)
  have "in_sync (dot g x y col)"
    unfolding in_sync_def agree_on_clean_def
  proof (intro conjI allI impI)
    show "length (front_buffer (dot g x y col)) = length (s_bytes (screen_surface (dot g x y col)))"
      using assms(2) by (simp add: in_sync_def agree_on_clean_def dot_def painted_def Let_def)
    fix i assume i: "i < length (s_bytes (screen_surface (dot g x y col)))"
      and c: "\<not> g_dirty (dot g x y col) ! (i div unat (frame_pitch (dot g x y col)))"
    have "\<not> (g_dirty g)[y := True] ! (i div ?p)" using c by (simp add: dot_def)
    from ne [OF this] show "front_buffer (dot g x y col) ! i = s_bytes (screen_surface (dot g x y col)) ! i"
      using i assms(2) by (simp add: in_sync_def agree_on_clean_def dot_def painted_def Let_def)
  qed
  moreover have "display_ok (dot g x y col)"
    using assms(1) by (simp add: display_ok_def) (simp add: dot_def painted_def Let_def gfx_ok_def surface_ok_def)
  ultimately show ?thesis by simp
qed

lemma dots_sync:
  assumes "display_ok g" and "in_sync g" and "on_screen g x y" and "\<forall>(cy, cx) \<in> set ps. cy < 16 \<and> cx < 8"
  shows "display_ok (dots c (unat x) (unat y) col ps g) \<and> in_sync (dots c (unat x) (unat y) col ps g)"
  using assms
proof (induction ps arbitrary: g)
  case (Cons p ps)
  obtain cy cx where p: "p = (cy, cx)" by (cases p)
  then have c: "cy < 16" "cx < 8" using Cons.prems(4) by auto
  have g: "gfx_ok g" using Cons.prems(1) by (simp add: display_ok_def)
  note dot_sync [OF Cons.prems(1,2) screen_coords(3) [OF g Cons.prems(3) c], of col]
  then show ?case using Cons.IH Cons.prems by (simp add: p)
qed simp

text \<open>
  Property C30: Drawing a character keeps the front buffer in step with the surface on every row that is not marked
  dirty, and then copying the marked rows brings the whole front buffer up to date and clears the
  marks; so does a full copy, from any contents.
\<close>

theorem display_refresh:
  assumes d: "display_ok g" and sync: "in_sync g" and fits: "on_screen g x y"
  shows "\<exists>g' g''. drawchar_transparent c x y col g = Some g' \<and> display_ok g' \<and> in_sync g'
    \<and> update_buffers DELTA_REFRESH g' = Some g'' \<and> update_buffers FULL_REFRESH g' = Some g''
    \<and> front_buffer g'' = s_bytes (screen_surface g') \<and> back_buffer g'' = s_bytes (screen_surface g')
    \<and> screen_surface g'' = screen_surface g' \<and> in_sync g'' \<and> True \<notin> set (g_dirty g'')"
proof -
  let ?ps = "List.product [0..<16] [0..<8 :: nat]"
  let ?g = "dots c (unat x) (unat y) col ?ps g"
  have ps: "\<forall>(cy, cx) \<in> set ?ps. cy < 16 \<and> cx < 8" by auto
  have "drawchar_transparent c x y col g = Some ?g"
    using draw_pixels_dots [OF _ fits ps] d by (simp add: drawchar_transparent_def display_ok_def)
  moreover have g: "display_ok ?g" "in_sync ?g" using dots_sync [OF d sync fits ps] by simp_all
  let ?s = "screen_surface ?g"
  note sz = display_size [OF g(1)]
  have bb: "surface_apply (frame_depth ?g) ?s True (back_buffer ?g) = Some (s_bytes ?s)"
    using sz(4,5) by (simp add: surface_apply_def blit_def)
  have "copy_rows (frame_pitch ?g) (g_dirty ?g) m (front_buffer ?g) (s_bytes ?s) 0 (unat (frame_height ?g))
      = Some (s_bytes ?s)" for m
    using copy_rows_all [OF sz(1-3)] g(2) by (simp add: in_sync_def)
  then have "update_buffers m ?g = Some (?g\<lparr>back_buffer := s_bytes ?s, front_buffer := s_bytes ?s,
      g_dirty := replicate (unat (frame_height ?g)) False\<rparr>)" for m
    by (simp add: update_buffers_def bb)
  moreover have "in_sync (?g\<lparr>back_buffer := s_bytes ?s, front_buffer := s_bytes ?s,
      g_dirty := replicate (unat (frame_height ?g)) False\<rparr>)"
    by (simp add: in_sync_def agree_on_clean_def)
  ultimately show ?thesis using g by (intro exI conjI) (assumption | simp)+
qed

theorem display_refresh_witness:
  "\<exists>g' g''. drawchar_transparent 0x41 0 12 rgb_white sample_gfx = Some g'
     \<and> update_buffers DELTA_REFRESH g' = Some g'' \<and> front_buffer g'' = s_bytes (screen_surface g')"
proof -
  have "display_ok sample_gfx" "in_sync sample_gfx" "on_screen sample_gfx 0 12"
    by (simp_all add: display_ok_def in_sync_def agree_on_clean_def gfx_ok_def on_screen_def sample_gfx_def
        new_surface_def surface_ok_def)
  from display_refresh [OF this] show ?thesis by blast
qed

section \<open>Scrolling\<close>

text \<open>
  Scrolling by \<open>n\<close> rows on a screen of \<open>h\<close> lines of \<open>n\<close> rows moves the pixels of all lines but the
  first up by one line; the last line keeps its pixels, and no row is marked dirty.
\<close>

theorem scroll_up_correct:
  assumes ok: "surface_ok depth s" and fits: "unat n + unat h * unat n \<le> unat (vy (s_dim s))"
  shows "\<exists>s'. scroll_up h s n = Some s' \<and> surface_ok depth s' \<and> s_dirty s' = s_dirty s
    \<and> (\<forall>x y. on_surface s x y \<longrightarrow> pixel_at depth s' x y =
         (if y < unat h * unat n then pixel_at depth s x (y + unat n) else pixel_at depth s x y))"
proof -
  let ?p = "unat (s_pitch s)" and ?n = "unat n" and ?k = "unat h * unat n" and ?b = "s_bytes s"
  have lenb: "length ?b = ?p * unat (vy (s_dim s))" "length ?b < 2 ^ 32" using ok by (simp_all add: surface_ok_def)
  have bound: "?n * ?p + ?k * ?p \<le> length ?b"
    using mult_le_mono1 [OF fits, of ?p] by (simp add: lenb(1) algebra_simps)
  have "unat (n * s_pitch s) = ?n * ?p"
    using bound lenb(2) by (simp add: unat_word_ariths)
  moreover have "unat (s_pitch s * h * n) = ?k * ?p"
  proof -
    have "s_pitch s * h * n = of_nat (?k * ?p)" by (simp add: mult.assoc mult.commute mult.left_commute)
    moreover have "?k * ?p < 2 ^ 32" using bound lenb(2) by linarith
    ultimately show ?thesis by (simp only: unat_of_nat) simp
  qed
  moreover obtain r where r: "blit ?b 0 ?b (?n * ?p) (?k * ?p) = Some r" "length r = length ?b"
    "\<And>i. i < length ?b \<Longrightarrow> r ! i = (if i < ?k * ?p then ?b ! (?n * ?p + i) else ?b ! i)"
    using blit_nth [of 0 "?k * ?p" ?b "?n * ?p" ?b] bound by auto
  ultimately have s': "scroll_up h s n = Some (s\<lparr>s_bytes := r\<rparr>)" by (simp add: scroll_up_def)
  have "pixel_at depth (s\<lparr>s_bytes := r\<rparr>) x y =
      (if y < ?k then pixel_at depth s x (y + ?n) else pixel_at depth s x y)" if xy: "on_surface s x y" for x y
  proof -
    let ?w = "pixel_offset depth s x y"
    have w: "?w + 2 < length ?b" by (rule pixel_offset_bound [OF ok xy])
    have off: "pixel_offset depth (s\<lparr>s_bytes := r\<rparr>) x y = ?w" "pixel_offset depth s x (y + ?n) = ?n * ?p + ?w"
      by (simp_all add: pixel_offset_def algebra_simps)
    have side: "?w + i < ?k * ?p \<longleftrightarrow> y < ?k" if i: "i < 3" for i
    proof -
      have lt: "?w + i < (y + 1) * ?p" and d: "(?w + i) div ?p = y"
        using offset_coords(1,2) [of x "unat (vx (s_dim s))" "unat depth div 8" ?p i y] ok xy i
          surface_ok_bytes [OF ok]
        by (simp_all add: surface_ok_def on_surface_def pixel_offset_def)
      show ?thesis
      proof
        assume "?w + i < ?k * ?p"
        then show "y < ?k" using d by (metis less_mult_imp_div_less)
      next
        assume "y < ?k"
        then have "(y + 1) * ?p \<le> ?k * ?p" by (intro mult_le_mono1) simp
        with lt show "?w + i < ?k * ?p" by (rule less_le_trans)
      qed
    qed
    show ?thesis
      using w side [of 0] side [of 1] side [of 2] r(3) [of ?w] r(3) [of "?w + 1"] r(3) [of "?w + 2"]
      by (simp add: pixel_at_def off Let_def add.assoc)
  qed
  moreover have "surface_ok depth (s\<lparr>s_bytes := r\<rparr>)" using ok r(2) by (simp add: surface_ok_def)
  ultimately show ?thesis using s' by auto
qed

theorem scroll_up_correct_witness:
  "\<exists>s'. scroll_up 1 sample_surface 1 = Some s' \<and> surface_ok 24 s' \<and> s_dirty s' = s_dirty sample_surface"
proof -
  have "unat (1 :: u32) + unat (1 :: u32) * unat (1 :: u32) \<le> unat (vy (s_dim sample_surface))"
    by (simp add: sample_surface_def new_surface_def)
  from scroll_up_correct [OF sample_surface_ok this] show ?thesis by blast
qed

text \<open>A text mode cell keeps its character and both of its colours.\<close>

lemma vga_entry_fields:
  "(ucast (vga_entry uc colour) :: u8) = uc" "ucast (drop_bit 8 (vga_entry uc colour)) = colour"
  by (rule bit_word_eqI; auto simp: vga_entry_def bit_simps dest: bit_imp_le_length)+

end
