(* ===== verification/Terminal.thy ===== *)
theory Terminal
  imports Gfx Messages Mutex CString
begin

text \<open>
  The terminal of \<open>kernel/tty.cpp\<close>: the position of the next character, the characters that move
  it, strings under the print lock, scrolling by message, and the line the terminal thread collects.
\<close>

section \<open>State and operations\<close>

(* src/kernel/tty.cpp:18-29 terminal_row *)
record tty =
  terminal_row :: u32
  terminal_column :: u32
  cursor_pos :: vector2
  vga_width :: u32
  vga_height :: u32
  tty_gfx :: gfx
  print_mutex :: mutex
  tty_ports :: postbox

(* src/kernel/gfx/surface.cpp:93-101 init_screens *)
definition init_screens :: "u32 \<Rightarrow> u32 \<Rightarrow> gfx \<Rightarrow> mutex \<Rightarrow> postbox \<Rightarrow> tty option" where
  "init_screens fb_width fb_height g lock ports =
     (let s = new_surface (frame_pitch g) (frame_width g) \<lparr>vx = 0, vy = 0\<rparr> \<lparr>vx = fb_width, vy = fb_height\<rparr>
      in do {
        back \<leftarrow> surface_apply (frame_depth g) s True (back_buffer g);
        Some \<lparr>terminal_row = 0, terminal_column = 0, cursor_pos = \<lparr>vx = 0, vy = 0\<rparr>,
          vga_width = fb_width div 8, vga_height = fb_height div 16 - 1,
          tty_gfx = g\<lparr>screen_surface := s, back_buffer := back\<rparr>, print_mutex = lock, tty_ports = ports\<rparr>
      })"

(* src/kernel/tty.cpp:126-131 update_cursor *)
definition update_cursor :: "u32 \<Rightarrow> u32 \<Rightarrow> tty \<Rightarrow> tty" where
  "update_cursor row col t = t\<lparr>cursor_pos := \<lparr>vx = col + 1, vy = row\<rparr>\<rparr>"

(* src/kernel/tty.cpp:133-135 tty_get_cursor_x *)
definition tty_get_cursor_x :: "tty \<Rightarrow> u32" where
  "tty_get_cursor_x t = terminal_column t"

(* src/kernel/tty.cpp:137-141 tty_set_cursor_x *)
definition tty_set_cursor_x :: "u32 \<Rightarrow> tty \<Rightarrow> tty" where
  "tty_set_cursor_x x t = update_cursor (terminal_row t) x (t\<lparr>terminal_column := x\<rparr>)"

(* src/kernel/tty.cpp:47-51 terminal_putentryat *)
definition terminal_putentryat :: "u8 \<Rightarrow> u32 \<Rightarrow> u32 \<Rightarrow> rgb \<Rightarrow> tty \<Rightarrow> tty option" where
  "terminal_putentryat c x y colour t =
     map_option (\<lambda>g. t\<lparr>tty_gfx := g\<rparr>) (drawchar_transparent c (x * 8) ((y + 1) * 16) colour (tty_gfx t))"

(* src/include/kernel/tty.hpp:12-12 TAB_WIDTH *)
definition TAB_WIDTH :: u32 where
  "TAB_WIDTH = 12"

(* src/kernel/tty.cpp:53-82 terminal_putchar *)
definition terminal_putchar :: "u8 \<Rightarrow> rgb \<Rightarrow> tty \<Rightarrow> tty option" where
  "terminal_putchar c colour t =
     (if c = 10 then Some (t\<lparr>terminal_column := 0, terminal_row := terminal_row t + 1\<rparr>)
      else if c = 13 then Some (t\<lparr>terminal_column := 0\<rparr>)
      else if c = 9 then
        Some (t\<lparr>terminal_column := terminal_column t + (TAB_WIDTH - terminal_column t mod TAB_WIDTH)\<rparr>)
      else do {
        t \<leftarrow> terminal_putentryat c (terminal_column t) (terminal_row t) colour t;
        let t = t\<lparr>terminal_column := terminal_column t + 1\<rparr>;
        let t = (if terminal_column t = vga_width t then
                   let t = t\<lparr>terminal_column := 0, terminal_row := terminal_row t + 1\<rparr>
                   in if terminal_row t = vga_height t then t\<lparr>terminal_row := 0\<rparr> else t
                 else t);
        Some (update_cursor (terminal_row t) (terminal_column t) t)
      })"

text \<open>The loop over the string: it ends at the terminator, and faults when there is none.\<close>

fun put_string :: "cbuf \<Rightarrow> rgb \<Rightarrow> tty \<Rightarrow> tty option" where
  "put_string [] colour t = None"
| "put_string (c # data) colour t =
     (if c = 0 then Some t else Option.bind (terminal_putchar c colour t) (put_string data colour))"

(* src/kernel/tty.cpp:112-124 terminal_scrollup *)
definition terminal_scrollup :: "int \<Rightarrow> tty \<Rightarrow> tty option" where
  "terminal_scrollup thread t =
     map_option (\<lambda>(ports, ok). t\<lparr>terminal_row := vga_height t - 1, tty_ports := ports\<rparr>)
       (send_message (tty_ports t) 3 thread 1)"

(* src/kernel/tty.cpp:31-45 terminal_writestring *)
definition terminal_writestring :: "cbuf \<Rightarrow> rgb \<Rightarrow> int \<Rightarrow> tty \<Rightarrow> tty option" where
  "terminal_writestring data colour thread t = do {
     t \<leftarrow> (if terminal_row t = vga_height t
           then map_option (\<lambda>t. t\<lparr>terminal_row := terminal_row t - 1\<rparr>) (terminal_scrollup thread t)
           else Some t);
     m \<leftarrow> spin_lock (print_mutex t) thread;
     t \<leftarrow> put_string data colour (t\<lparr>print_mutex := m\<rparr>);
     Some (t\<lparr>print_mutex := spin_unlock (print_mutex t) thread\<rparr>)
   }"

section \<open>The line of the terminal thread\<close>

(* src/kernel/tty.cpp:146-149 tty_update *)
record line =
  tty_buffer :: "u8 list"
  tty_idx :: nat

(* src/kernel/tty.cpp:160-164 tty_update *)
definition new_line :: "nat \<Rightarrow> line" where
  "new_line idx = \<lparr>tty_buffer = replicate 1024 0, tty_idx = idx\<rparr>"

text \<open>
  The loop that empties port 2: every character goes to the buffer, and to the screen unless it ends
  the line. It goes on as long as messages come, so it need not end.
\<close>

(* src/kernel/tty.cpp:178-184 tty_update *)
partial_function (option) poll_keys :: "line \<Rightarrow> tty \<Rightarrow> (line \<times> tty) option" where
  "poll_keys l t = do {
     (ports, msg) \<leftarrow> mq_pop (tty_ports t) 2;
     let t = t\<lparr>tty_ports := ports\<rparr>;
     if message_neq msg kMessageNull then do {
       b \<leftarrow> arr_set (tty_buffer l) (tty_idx l) (msg_data msg);
       t \<leftarrow> (if msg_data msg \<noteq> 10 then terminal_putchar (msg_data msg) rgb_white t else Some t);
       poll_keys \<lparr>tty_buffer = b, tty_idx = tty_idx l + 1\<rparr> t
     } else Some (l, t)
   }"

text \<open>The loop that empties port 3: every message scrolls the first surface by 16 rows.\<close>

(* src/kernel/tty.cpp:186-189 tty_update *)
partial_function (option) poll_scrolls :: "tty \<Rightarrow> tty option" where
  "poll_scrolls t = do {
     (ports, msg) \<leftarrow> mq_pop (tty_ports t) 3;
     let t = t\<lparr>tty_ports := ports\<rparr>;
     if message_neq msg kMessageNull then do {
       m \<leftarrow> spin_lock (print_mutex t) (-1);
       s \<leftarrow> scroll_up (vga_height t) (screen_surface (tty_gfx t)) 16;
       poll_scrolls (t\<lparr>tty_gfx := (tty_gfx t)\<lparr>screen_surface := s\<rparr>, print_mutex := spin_unlock m (-1)\<rparr>)
     } else Some t
   }"

(* src/kernel/tty.cpp:191-197 tty_update *)
definition line_complete :: "line \<Rightarrow> line \<times> bool" where
  "line_complete l = (if 10 \<in> set (tty_buffer l) then (l\<lparr>tty_idx := 0\<rparr>, True) else (l, False))"

(* src/kernel/tty.cpp:176-198 tty_update *)
definition tty_poll :: "line \<Rightarrow> tty \<Rightarrow> (line \<times> tty \<times> bool) option" where
  "tty_poll l t = do {
     (l, t) \<leftarrow> poll_keys l t;
     t \<leftarrow> poll_scrolls t;
     let (l, parsing) = line_complete l;
     Some (l, t, parsing)
   }"

section \<open>Where characters are drawn\<close>

definition tty_ok :: "tty \<Rightarrow> bool" where
  "tty_ok t \<longleftrightarrow> gfx_ok (tty_gfx t) \<and> 1 \<le> unat (vga_width t) \<and> 1 \<le> unat (vga_height t)
     \<and> unat (vga_width t) * 8 \<le> unat (vx (s_dim (screen_surface (tty_gfx t))))
     \<and> (unat (vga_height t) + 1) * 16 \<le> unat (frame_height (tty_gfx t))"

definition in_grid :: "tty \<Rightarrow> bool" where
  "in_grid t \<longleftrightarrow> terminal_row t < vga_height t \<and> terminal_column t < vga_width t"

lemma cell_on_screen:
  assumes ok: "tty_ok t" and g: "in_grid t"
  shows "on_screen (tty_gfx t) (terminal_column t * 8) ((terminal_row t + 1) * 16)"
    and "unat (terminal_column t * 8) = unat (terminal_column t) * 8"
    and "unat ((terminal_row t + 1) * 16) = (unat (terminal_row t) + 1) * 16"
proof -
  define r c where "r = unat (terminal_row t)" and "c = unat (terminal_column t)"
  have r: "r < unat (vga_height t)" and c: "c < unat (vga_width t)"
    using g by (simp_all add: in_grid_def word_less_nat_alt r_def c_def)
  let ?h = "unat (frame_height (tty_gfx t))" and ?w = "unat (vx (s_dim (screen_surface (tty_gfx t))))"
  have hw: "(r + 2) * 16 \<le> ?h" "(c + 1) * 8 \<le> ?w" "?h < 4294967296" "?w < 4294967296"
    using ok r c mult_le_mono1 [of "r + 2" "unat (vga_height t) + 1" 16]
      mult_le_mono1 [of "c + 1" "unat (vga_width t)" 8]
    by (auto simp: tty_ok_def)
  have "terminal_column t * 8 = of_nat (c * 8)" "(terminal_row t + 1) * 16 = of_nat ((r + 1) * 16)"
    by (simp_all add: r_def c_def algebra_simps)
  moreover have "unat (of_nat (c * 8) :: u32) = c * 8" "unat (of_nat ((r + 1) * 16) :: u32) = (r + 1) * 16"
  proof -
    have "c * 8 \<le> ?w" "(r + 1) * 16 \<le> ?h" using hw(1,2) by simp_all
    then have "c * 8 < 4294967296" "(r + 1) * 16 < 4294967296" using hw(3,4) le_less_trans by blast+
    then have "c * 8 < 2 ^ LENGTH(32)" "(r + 1) * 16 < 2 ^ LENGTH(32)" by simp_all
    then show "unat (of_nat (c * 8) :: u32) = c * 8" "unat (of_nat ((r + 1) * 16) :: u32) = (r + 1) * 16"
      by (simp_all only: unat_of_nat mod_less)
  qed
  ultimately show u: "unat (terminal_column t * 8) = unat (terminal_column t) * 8"
    "unat ((terminal_row t + 1) * 16) = (unat (terminal_row t) + 1) * 16"
    by (simp_all only: r_def c_def)
  show "on_screen (tty_gfx t) (terminal_column t * 8) ((terminal_row t + 1) * 16)"
    using hw unfolding on_screen_def u r_def [symmetric] c_def [symmetric] by simp
qed

lemma tty_ok_updates [simp]:
  "tty_ok (t\<lparr>terminal_row := r\<rparr>) = tty_ok t" "tty_ok (t\<lparr>terminal_column := c\<rparr>) = tty_ok t"
  "tty_ok (t\<lparr>cursor_pos := p\<rparr>) = tty_ok t"
  by (simp_all add: tty_ok_def)

lemma next_cell:
  assumes "r < H" and "c < (W :: nat)"
  shows "(r * W + c + 1) mod (W * H) = (if c + 1 < W then r * W + (c + 1) else if r + 1 < H then (r + 1) * W else 0)"
proof -
  have "Suc r * W \<le> H * W" using assms by (intro mult_le_mono1) simp
  then have le: "r * W + W \<le> W * H" by (simp add: mult.commute)
  show ?thesis
  proof (cases "c + 1 < W")
    case True
    then have "r * W + c + 1 < W * H" using le by linarith
    then show ?thesis using True by simp
  next
    case False
    then have c: "c + 1 = W" using assms by simp
    then have e: "r * W + c + 1 = (r + 1) * W" by simp
    show ?thesis
    proof (cases "r + 1 < H")
      case True
      have "(r + 1) * W < H * W" using True assms by (intro mult_less_mono1) simp_all
      then show ?thesis using False True unfolding e by (simp add: mult.commute)
    next
      case False
      then have "r + 1 = H" using assms by simp
      then show ?thesis using c unfolding e by (simp add: mult.commute)
    qed
  qed
qed

lemma putchar_in_grid:
  assumes ok: "tty_ok t" and g: "in_grid t" and "c \<noteq> 10" and "c \<noteq> 9"
  shows "\<exists>t'. terminal_putchar c colour t = Some t' \<and> tty_ok t' \<and> in_grid t'
    \<and> (c \<noteq> 13 \<longrightarrow> Some (tty_gfx t') = drawchar_transparent c (terminal_column t * 8)
          ((terminal_row t + 1) * 16) colour (tty_gfx t)
        \<and> unat (terminal_row t') * unat (vga_width t) + unat (terminal_column t') =
            (unat (terminal_row t) * unat (vga_width t) + unat (terminal_column t) + 1)
              mod (unat (vga_width t) * unat (vga_height t)))"
proof (cases "c = 13")
  case True
  have "0 < vga_width t" using ok by (simp add: tty_ok_def word_less_nat_alt)
  then show ?thesis using True assms by (simp add: terminal_putchar_def in_grid_def)
next
  case False
  let ?W = "unat (vga_width t)" and ?H = "unat (vga_height t)"
  let ?r = "unat (terminal_row t)" and ?c = "unat (terminal_column t)"
  have gok: "gfx_ok (tty_gfx t)" using ok by (simp add: tty_ok_def)
  obtain g' where g': "drawchar_transparent c (terminal_column t * 8) ((terminal_row t + 1) * 16) colour (tty_gfx t)
      = Some g'" "gfx_ok g'" "frame_height g' = frame_height (tty_gfx t)"
    "s_dim (screen_surface g') = s_dim (screen_surface (tty_gfx t))"
    using drawchar_frame [OF gok cell_on_screen(1) [OF ok g], of c colour] by blast
  have rc: "?r < ?H" "?c < ?W" using g by (simp_all add: in_grid_def word_less_nat_alt)
  have suc: "unat (terminal_column t + 1) = ?c + 1" "unat (terminal_row t + 1) = ?r + 1"
    using unat_plus_1 rc by blast+
  have eqW: "terminal_column t + 1 = vga_width t \<longleftrightarrow> ?c + 1 = ?W"
    and eqH: "terminal_row t + 1 = vga_height t \<longleftrightarrow> ?r + 1 = ?H"
    unfolding word_unat_eq_iff suc by simp_all
  let ?t1 = "t\<lparr>tty_gfx := g'\<rparr>"
  have base: "tty_ok ?t1" using ok g' by (simp add: tty_ok_def)
  note cell = next_cell [OF rc]
  define col where "col = (if terminal_column t + 1 = vga_width t then 0 else terminal_column t + 1)"
  define row where "row = (if terminal_column t + 1 = vga_width t
      then if terminal_row t + 1 = vga_height t then 0 else terminal_row t + 1 else terminal_row t)"
  let ?t = "update_cursor row col (t\<lparr>tty_gfx := g', terminal_column := col, terminal_row := row\<rparr>)"
  have "terminal_putentryat c (terminal_column t) (terminal_row t) colour t = Some ?t1"
    unfolding terminal_putentryat_def g'(1) by simp
  then have put: "terminal_putchar c colour t = Some ?t"
    using False assms(3,4) by (simp add: terminal_putchar_def col_def row_def Let_def update_cursor_def)
  have "tty_ok ?t" using base by (simp add: update_cursor_def)
  moreover have "row < vga_height t" "col < vga_width t"
    unfolding row_def col_def word_less_nat_alt using eqW eqH suc rc by auto
  then have "in_grid ?t" by (simp add: in_grid_def update_cursor_def)
  moreover have "unat row * ?W + unat col = (?r * ?W + ?c + 1) mod (?W * ?H)"
    unfolding cell row_def col_def eqW eqH using suc rc by auto
  then have "unat (terminal_row ?t) * ?W + unat (terminal_column ?t) = (?r * ?W + ?c + 1) mod (?W * ?H)"
    by (simp add: update_cursor_def)
  moreover have "tty_gfx ?t = g'" by (simp add: update_cursor_def)
  ultimately show ?thesis using put g'(1) by (intro exI [of _ ?t]) simp
qed


definition sample_tty :: tty where
  "sample_tty = \<lparr>terminal_row = 0, terminal_column = 0, cursor_pos = \<lparr>vx = 0, vy = 0\<rparr>,
     vga_width = 1, vga_height = 1, tty_gfx = sample_gfx\<lparr>frame_height := 32, g_dirty := replicate 32 False,
       screen_surface := new_surface 24 8 \<lparr>vx = 0, vy = 0\<rparr> \<lparr>vx = 8, vy = 32\<rparr>\<rparr>,
     print_mutex = new_mutex 0, tty_ports = []\<rparr>"

lemma sample_tty_ok: "tty_ok sample_tty" "in_grid sample_tty"
  by (simp_all add: tty_ok_def in_grid_def sample_tty_def gfx_ok_def surface_ok_def sample_gfx_def new_surface_def)


section \<open>Strings\<close>

text \<open>What a string is made of when none of its characters leaves the grid.\<close>

definition plain :: "u8 \<Rightarrow> bool" where
  "plain c \<longleftrightarrow> c \<noteq> 0 \<and> c \<noteq> 10 \<and> c \<noteq> 9"

lemma putchar_keeps:
  assumes "terminal_putchar c colour t = Some t'"
  shows "print_mutex t' = print_mutex t \<and> vga_width t' = vga_width t \<and> vga_height t' = vga_height t
    \<and> tty_ports t' = tty_ports t"
  using assms
  by (auto simp: terminal_putchar_def terminal_putentryat_def update_cursor_def Let_def split: if_splits Option.bind_splits)

lemma put_string_plain:
  assumes "tty_ok t" and "in_grid t" and "\<forall>c \<in> set s. plain c"
  shows "\<exists>t'. put_string (cstr s r) colour t = Some t' \<and> tty_ok t' \<and> in_grid t'
    \<and> print_mutex t' = print_mutex t \<and> tty_ports t' = tty_ports t"
  using assms
proof (induction s arbitrary: t)
  case (Cons c s)
  then obtain t1 where t1: "terminal_putchar c colour t = Some t1" "tty_ok t1" "in_grid t1"
    using putchar_in_grid [of t c colour] by (auto simp: plain_def)
  have "\<forall>c \<in> set s. plain c" using Cons.prems(3) by simp
  from Cons.IH [OF t1(2,3) this] show ?case using t1(1) putchar_keeps [OF t1(1)] Cons.prems(3) by (auto simp: plain_def)
qed simp

lemma tty_ok_lock [simp]: "tty_ok (t\<lparr>print_mutex := m\<rparr>) = tty_ok t" "in_grid (t\<lparr>print_mutex := m\<rparr>) = in_grid t"
  by (simp_all add: tty_ok_def in_grid_def)

lemma writestring_plain:
  assumes "tty_ok t" and "in_grid t" and "interlock (print_mutex t) = 0" and "\<forall>c \<in> set s. plain c"
  shows "\<exists>t'. terminal_writestring (cstr s r) colour self t = Some t' \<and> tty_ok t' \<and> in_grid t'
    \<and> interlock (print_mutex t') = 0 \<and> tty_ports t' = tty_ports t"
proof -
  let ?m = "(print_mutex t)\<lparr>l_threadid := self, interlock := 1\<rparr>"
  obtain t' where t': "put_string (cstr s r) colour (t\<lparr>print_mutex := ?m\<rparr>) = Some t'" "tty_ok t'" "in_grid t'"
    "print_mutex t' = ?m" "tty_ports t' = tty_ports t"
    using put_string_plain [of "t\<lparr>print_mutex := ?m\<rparr>" s r colour] assms by auto
  moreover have "terminal_row t \<noteq> vga_height t" using assms(2) by (auto simp: in_grid_def)
  ultimately show ?thesis using assms(3) by (auto simp: terminal_writestring_def spin_lock_def spin_unlock_def)
qed

text \<open>
  A string of plain characters written inside the grid returns, leaves the position inside the grid and
  sends no message, with the lock free again; while some thread holds the print lock, writing never
  returns, even to that thread itself.
\<close>

theorem terminal_writestring_correct:
  assumes ok: "tty_ok t" and g: "in_grid t" and s: "\<forall>c \<in> set s. plain c"
  shows "(interlock (print_mutex t) = 0 \<longrightarrow>
      (\<exists>t'. terminal_writestring (cstr s r) colour thread t = Some t' \<and> tty_ok t' \<and> in_grid t'
        \<and> interlock (print_mutex t') = 0 \<and> tty_ports t' = tty_ports t))
    \<and> (interlock (print_mutex t) \<noteq> 0 \<longrightarrow> terminal_writestring (cstr s r) colour thread t = None)"
proof
  show "interlock (print_mutex t) = 0 \<longrightarrow>
      (\<exists>t'. terminal_writestring (cstr s r) colour thread t = Some t' \<and> tty_ok t' \<and> in_grid t'
        \<and> interlock (print_mutex t') = 0 \<and> tty_ports t' = tty_ports t)"
    using writestring_plain [OF ok g _ s] by blast
  have "terminal_row t \<noteq> vga_height t" using g by (auto simp: in_grid_def)
  then show "interlock (print_mutex t) \<noteq> 0 \<longrightarrow> terminal_writestring (cstr s r) colour thread t = None"
    by (simp add: terminal_writestring_def spin_lock_def)
qed

theorem terminal_writestring_correct_witness:
  "\<exists>t'. terminal_writestring (cstr [0x41, 0x42] []) rgb_white 1 sample_tty = Some t' \<and> in_grid t'"
proof -
  have "\<forall>c \<in> set [0x41, 0x42]. plain c" "interlock (print_mutex sample_tty) = 0"
    by (simp_all add: plain_def sample_tty_def new_mutex_def)
  then show ?thesis
    using terminal_writestring_correct [OF sample_tty_ok, of "[0x41, 0x42]" "[]" rgb_white 1] by blast
qed

text \<open>
  The string that starts on the line behind the last asks for a scroll, and is written two lines up, not
  one: over the last line that was written, once the scroll is done.
\<close>

lemma writestring_scrolls:
  assumes "terminal_row t = vga_height t" and "send_message (tty_ports t) 3 thread 1 = Some (ports, b)"
  shows "terminal_writestring data colour thread t =
    terminal_writestring data colour thread (t\<lparr>tty_ports := ports, terminal_row := vga_height t - 2\<rparr>)"
proof -
  have "vga_height t - 2 \<noteq> vga_height t" by simp
  then show ?thesis
    using assms by (simp add: terminal_writestring_def terminal_scrollup_def)
qed

section \<open>Behind the grid\<close>

text \<open>Where the first pixel of a character falls, and whether it is marked.\<close>

lemma draw_pixels_faults:
  assumes "\<forall>(cy, cx) \<in> set ps. cy < 16 \<and> cx < 8" and "\<exists>(cy, cx) \<in> set ps. glyph_pixel c cy cx"
    and "\<forall>cy < 16. length (g_dirty g) \<le> unat (y + of_nat cy - 12)"
  shows "draw_pixels c x y col ps g = None"
  using assms
proof (induction ps)
  case (Cons p ps)
  obtain cy cx where p: "p = (cy, cx)" by (cases p)
  then have c: "cy < 16" "cx < 8" using Cons.prems(1) by auto
  have row: "arr_get (glyph_of c) cy = Some (glyph_of c ! cy)" using c(1) by simp
  have out: "arr_set (g_dirty g) (unat (y + of_nat cy - 12)) True = None" using Cons.prems(3) c(1) by simp
  show ?case
  proof (cases "glyph_pixel c cy cx")
    case True
    then show ?thesis
      by (simp add: p row char_mask_bit [OF c(2)] and_2p_u8 glyph_pixel_def out split: Option.bind_split)
  next
    case False
    then show ?thesis using Cons by (simp add: p row char_mask_bit [OF c(2)] and_2p_u8 glyph_pixel_def)
  qed
qed simp

text \<open>
  Newlines do not stop at the last line, and the test for scrolling is an equality made once per string:
  a string with a second newline behind the last line puts the position two lines below it, where any
  character with a pixel is marked outside the dirty buffer.
\<close>

theorem newline_runs_off:
  assumes ok: "tty_ok t" and h: "unat (frame_height (tty_gfx t)) = (unat (vga_height t) + 1) * 16"
    and small: "unat (vga_height t) < 2 ^ 24" and row: "terminal_row t + 1 = vga_height t"
    and ink: "\<exists>cy < 16. \<exists>cx < 8. glyph_pixel c cy cx" and "c \<noteq> 0" and "c \<noteq> 9" and "c \<noteq> 10" and "c \<noteq> 13"
  shows "terminal_writestring (cstr [10, 10, c] r) colour thread t = None"
proof -
  define H where "H = unat (vga_height t)"
  let ?t = "t\<lparr>terminal_column := 0, terminal_row := vga_height t + 1\<rparr>"
  have y: "unat ((vga_height t + 1 + 1) * 16 + of_nat cy - 12) = (H + 2) * 16 + cy - 12" if "cy < 16" for cy
  proof -
    have "vga_height t = of_nat H" by (simp add: H_def)
    then have "(vga_height t + 1 + 1) * 16 + of_nat cy - 12 = of_nat ((H + 2) * 16 + cy - 12)"
      by (simp add: algebra_simps of_nat_diff)
    moreover have "(H + 2) * 16 + cy - 12 < 4294967296" using small that by (simp add: H_def)
    ultimately show ?thesis by (simp add: unat_of_nat del: of_nat_add of_nat_mult)
  qed
  have len: "length (g_dirty (tty_gfx t)) = (H + 1) * 16"
    using ok h by (simp add: tty_ok_def gfx_ok_def H_def)
  have "drawchar_transparent c (0 * 8) ((vga_height t + 1 + 1) * 16) colour (tty_gfx t) = None"
    unfolding drawchar_transparent_def
  proof (rule draw_pixels_faults)
    show "\<exists>(cy, cx) \<in> set (List.product [0..<16] [0..<8]). glyph_pixel c cy cx"
    proof -
      from ink obtain cy cx where "cy < 16" "cx < 8" "glyph_pixel c cy cx" by blast
      then have "(cy, cx) \<in> set (List.product [0..<16] [0..<8])" "glyph_pixel c cy cx" by simp_all
      then show ?thesis by blast
    qed
    show "\<forall>cy<16. length (g_dirty (tty_gfx t)) \<le> unat ((vga_height t + 1 + 1) * 16 + of_nat cy - 12)"
      unfolding len using y by auto
  qed auto
  then have "terminal_putchar c colour (?t\<lparr>print_mutex := m\<rparr>) = None" for m
    using assms(6-9) by (simp add: terminal_putchar_def terminal_putentryat_def)
  moreover have "t\<lparr>print_mutex := m, terminal_column := 0, terminal_row := terminal_row t + 1,
      terminal_column := 0, terminal_row := terminal_row t + 1 + 1\<rparr> = ?t\<lparr>print_mutex := m\<rparr>" for m
    using row by simp
  ultimately have "put_string (cstr [10, 10, c] r) colour (t\<lparr>print_mutex := m\<rparr>) = None" for m
    using assms(6) by (simp add: terminal_putchar_def)
  moreover have "terminal_row t \<noteq> vga_height t" using row by auto
  ultimately show ?thesis
    by (cases "spin_lock (print_mutex t) thread")
      (simp_all add: terminal_writestring_def del: put_string.simps cstr_Cons cstr_Nil)
qed

theorem newline_runs_off_witness:
  "terminal_writestring (cstr [10, 10, 0x41] []) rgb_white 1 sample_tty = None"
proof (rule newline_runs_off)
  show "\<exists>cy<16. \<exists>cx<8. glyph_pixel 0x41 cy cx"
    by (intro exI [of _ 3] conjI exI [of _ 2])
      (simp_all add: glyph_pixel_def glyph_of_def font_terminus_def glyphs_defs nth_append)
qed (use sample_tty_ok in \<open>simp_all add: sample_tty_def\<close>)

end
