(* ===== verification/Threads.thy ===== *)
theory Threads
  imports CString
begin

text \<open>
  Threads and their scheduling: \<open>kernel/proc/thread.cpp\<close>, \<open>kernel/proc/scheduler.cpp\<close>,
  \<open>kernel/timer.cpp\<close> and the context switch of \<open>kernel/asm/switch.s\<close>. The threads form a ring of
  records linked by pointers, in a store from addresses to records; the stacks they run on are words
  in a memory; the machine is the part of the processor a switch saves and restores. Following a
  pointer that leads to no thread is \<^const>\<open>None\<close>. The addresses \<open>operator new\<close> returns are
  arguments of the operations that allocate.
\<close>

section \<open>State\<close>

(* src/include/kernel/cpu.hpp:13-36 registers_t *)
record registers =
  r_gs :: u32   r_fs :: u32   r_es :: u32   r_ds :: u32
  r_edi :: u32  r_esi :: u32  r_ebp :: u32  r_esp :: u32
  r_ebx :: u32  r_edx :: u32  r_ecx :: u32  r_eax :: u32
  isr_num :: u32  err_code :: u32
  r_eip :: u32  r_cs :: u32  r_eflags :: u32  r_useresp :: u32  r_ss :: u32

(* src/include/kernel/proc/thread.hpp:14-18 ThreadStatus *)
datatype thread_status = T_RUNNING | T_HANGED | T_SLEEPING

text \<open>The array \<open>stack\<close> of the object is part of the memory of words, from \<open>stack_offset\<close> on.\<close>

(* src/include/kernel/proc/thread.hpp:20-41 Thread *)
record thread =
  thread_id :: u32
  proc_id :: u32
  title :: cbuf
  state_reg :: registers
  entry_ptr :: addr
  stack_ptr :: addr
  prev :: addr
  nxt :: addr
  t_status :: thread_status

text \<open>The offsets in a \<open>Thread\<close>: \<open>registers\<close> is 19 words long and starts at 12, \<open>esp\<close> is its eighth word.\<close>

definition stack_offset :: addr where
  "stack_offset = 104"

definition esp_slot :: "addr \<Rightarrow> addr" where
  "esp_slot t = t + 40"

record machine =
  esp :: u32
  ebp :: u32
  ebx :: u32
  esi :: u32
  edi :: u32
  eip :: u32
  int_enabled :: bool

(* src/kernel/proc/thread.cpp:20-24 thread_root *)
record kernel =
  threads :: "addr \<rightharpoonup> thread"
  thread_root :: addr
  thread_running :: addr
  next_tid :: u32
  started :: bool
  sched_running :: bool
  stack_mem :: "addr \<Rightarrow> u32"
  cpu :: machine

section \<open>The context switch\<close>

definition push_word :: "u32 \<Rightarrow> kernel \<Rightarrow> kernel" where
  "push_word v s = s\<lparr>cpu := (cpu s)\<lparr>esp := esp (cpu s) - 4\<rparr>,
     stack_mem := (stack_mem s)(esp (cpu s) - 4 := v)\<rparr>"

definition pop_word :: "kernel \<Rightarrow> u32 \<times> kernel" where
  "pop_word s = (stack_mem s (esp (cpu s)), s\<lparr>cpu := (cpu s)\<lparr>esp := esp (cpu s) + 4\<rparr>\<rparr>)"

text \<open>The end of both routines: four registers, \<open>sti\<close>, and \<open>ret\<close>.\<close>

(* src/kernel/asm/switch.s:36-44 switch_context *)
definition restore :: "kernel \<Rightarrow> kernel" where
  "restore s =
     (let (v, s) = pop_word s; s = s\<lparr>cpu := (cpu s)\<lparr>edi := v\<rparr>\<rparr>;
          (v, s) = pop_word s; s = s\<lparr>cpu := (cpu s)\<lparr>esi := v\<rparr>\<rparr>;
          (v, s) = pop_word s; s = s\<lparr>cpu := (cpu s)\<lparr>ebx := v\<rparr>\<rparr>;
          (v, s) = pop_word s; s = s\<lparr>cpu := (cpu s)\<lparr>ebp := v\<rparr>\<rparr>;
          s = s\<lparr>cpu := (cpu s)\<lparr>int_enabled := True\<rparr>\<rparr>;
          (v, s) = pop_word s
      in s\<lparr>cpu := (cpu s)\<lparr>eip := v\<rparr>\<rparr>)"

(* src/kernel/asm/switch.s:5-19 set_context *)
definition set_context :: "u32 \<Rightarrow> kernel \<Rightarrow> kernel" where
  "set_context new_esp s = restore (s\<lparr>cpu := (cpu s)\<lparr>esp := new_esp\<rparr>\<rparr>)"

text \<open>The words the two arguments of \<open>switch_context\<close> point to: the saved \<open>esp\<close> of a thread.\<close>

definition load_esp :: "kernel \<Rightarrow> addr \<Rightarrow> u32 option" where
  "load_esp s p = map_option (\<lambda>t. r_esp (state_reg t)) (threads s (p - 40))"

definition store_esp :: "kernel \<Rightarrow> addr \<Rightarrow> u32 \<Rightarrow> kernel option" where
  "store_esp s p v = map_option
     (\<lambda>t. s\<lparr>threads := (threads s)(p - 40 \<mapsto> t\<lparr>state_reg := (state_reg t)\<lparr>r_esp := v\<rparr>\<rparr>)\<rparr>)
     (threads s (p - 40))"

text \<open>At the entry \<open>esp\<close> points to the return address.\<close>

(* src/kernel/asm/switch.s:22-44 switch_context *)
definition switch_context :: "addr \<Rightarrow> addr \<Rightarrow> kernel \<Rightarrow> kernel option" where
  "switch_context last_esp next_esp s = do {
     let s = push_word (edi (cpu s)) (push_word (esi (cpu s)) (push_word (ebx (cpu s)) (push_word (ebp (cpu s)) s)));
     s \<leftarrow> store_esp s last_esp (esp (cpu s));
     v \<leftarrow> load_esp s next_esp;
     Some (restore (s\<lparr>cpu := (cpu s)\<lparr>esp := v\<rparr>\<rparr>))
   }"

section \<open>Starting threads\<close>

text \<open>\<open>PUSH\<close> on the stack of a thread that does not run yet.\<close>

(* src/include/kernel/cpu.hpp:39-40 PUSH *)
definition PUSH :: "u32 \<Rightarrow> (addr \<Rightarrow> u32) \<times> addr \<Rightarrow> (addr \<Rightarrow> u32) \<times> addr" where
  "PUSH item ms = (let (m, stack) = ms; stack = stack - 4 in (m(stack := item), stack))"

(* src/kernel/proc/thread.cpp:66-67 start_thread *)
partial_function (option) ring_last :: "kernel \<Rightarrow> addr \<Rightarrow> addr option" where
  "ring_last s t = do {
     x \<leftarrow> threads s t;
     if nxt x \<noteq> thread_root s then ring_last s (nxt x) else Some t
   }"

definition set_prev :: "kernel \<Rightarrow> addr \<Rightarrow> addr \<Rightarrow> kernel option" where
  "set_prev s t p = map_option (\<lambda>x. s\<lparr>threads := (threads s)(t \<mapsto> x\<lparr>prev := p\<rparr>)\<rparr>) (threads s t)"

definition set_next :: "kernel \<Rightarrow> addr \<Rightarrow> addr \<Rightarrow> kernel option" where
  "set_next s t p = map_option (\<lambda>x. s\<lparr>threads := (threads s)(t \<mapsto> x\<lparr>nxt := p\<rparr>)\<rparr>) (threads s t)"

text \<open>The object before it is linked; \<open>raw\<close> is what the fields held that the code does not set.\<close>

(* src/kernel/proc/thread.cpp:32-59 start_thread *)
definition make_thread :: "kernel \<Rightarrow> addr \<Rightarrow> thread \<Rightarrow> cbuf \<Rightarrow> addr \<Rightarrow> (kernel \<times> thread) option" where
  "make_thread s p raw name entry = do {
     n \<leftarrow> strlen name;
     if 255 < n + 1 then None
     else
       let (m, sp) = PUSH 0 (PUSH 0 (PUSH 0 (PUSH 0 (PUSH entry (stack_mem s, p + stack_offset + 4096)))));
           regs = (state_reg raw)\<lparr>r_eax := 0, r_ebx := 0, r_ecx := 0, r_edx := 0, r_esi := 0, r_edi := 0,
             r_useresp := 0, r_ebp := 0, r_eip := entry, r_esp := sp, r_eflags := push_bit 9 1 OR 1\<rparr>
       in Some (s\<lparr>stack_mem := m\<rparr>,
            \<lparr>thread_id = next_tid s, proc_id = 1, title = take (n + 1) name @ drop (n + 1) (title raw),
             state_reg = regs, entry_ptr = entry, stack_ptr = sp, prev = 0, nxt = 0, t_status = T_RUNNING\<rparr>)
   }"

(* src/kernel/proc/thread.cpp:61-75 start_thread *)
definition link_thread :: "kernel \<Rightarrow> addr \<Rightarrow> kernel option" where
  "link_thread s p =
     (if thread_root s = 0 then set_next (s\<lparr>thread_root := p\<rparr>) p p
      else do {
        t \<leftarrow> ring_last s (thread_root s);
        s \<leftarrow> set_prev s p t;
        s \<leftarrow> set_next s t p;
        s \<leftarrow> set_next s p (thread_root s);
        set_prev s (thread_root s) p
      })"

(* src/kernel/proc/thread.cpp:31-78 start_thread *)
definition start_thread :: "kernel \<Rightarrow> addr \<Rightarrow> thread \<Rightarrow> cbuf \<Rightarrow> addr \<Rightarrow> kernel option" where
  "start_thread s p raw name entry = do {
     (s, t) \<leftarrow> make_thread s p raw name entry;
     s \<leftarrow> link_thread (s\<lparr>threads := (threads s)(p \<mapsto> t)\<rparr>) p;
     Some (s\<lparr>next_tid := next_tid s + 1\<rparr>)
   }"

section \<open>The scheduler\<close>

text \<open>
  The caller of \<open>switch_context\<close> pushes the two arguments and its return address \<open>ra\<close>.
\<close>

(* src/kernel/proc/scheduler.cpp:23-42 Scheduler::next *)
definition scheduler_next :: "u32 \<Rightarrow> registers \<Rightarrow> kernel \<Rightarrow> kernel option" where
  "scheduler_next ra r s =
     (let s = s\<lparr>cpu := (cpu s)\<lparr>int_enabled := False\<rparr>\<rparr> in
      if started s then do {
        t \<leftarrow> threads s (thread_running s);
        let t = (if r_esp r > 0xE0000000 then t\<lparr>state_reg := r\<rparr> else t);
        let s = s\<lparr>threads := (threads s)(thread_running s \<mapsto> t), thread_running := nxt t\<rparr>;
        t' \<leftarrow> threads s (thread_running s);
        let s = push_word ra (push_word (esp_slot (prev t')) (push_word (esp_slot (thread_running s)) s));
        switch_context (esp_slot (prev t')) (esp_slot (thread_running s)) s
      } else do {
        t \<leftarrow> threads s (thread_running s);
        Some (set_context (stack_ptr t) (s\<lparr>started := True\<rparr>))
      })"

(* src/kernel/proc/scheduler.cpp:50-56 Scheduler::lock *)
definition scheduler_lock :: "kernel \<Rightarrow> kernel \<times> bool" where
  "scheduler_lock s = (if sched_running s then (s\<lparr>sched_running := False\<rparr>, True) else (s, False))"

(* src/kernel/proc/scheduler.cpp:58-64 Scheduler::unlock *)
definition scheduler_unlock :: "kernel \<Rightarrow> kernel \<times> bool" where
  "scheduler_unlock s = (if \<not> sched_running s then (s\<lparr>sched_running := True\<rparr>, True) else (s, False))"

(* src/kernel/proc/scheduler.cpp:71-73 Scheduler::threadId *)
definition current_thread_id :: "kernel \<Rightarrow> int option" where
  "current_thread_id s = map_option (\<lambda>t. sint (thread_id t)) (threads s (thread_running s))"

section \<open>The timer\<close>

(* src/kernel/timer.cpp:12-14 timer_ticks *)
record timer =
  timer_ticks :: u64
  timer_tenths :: u32
  is_sleeping :: bool

text \<open>The flag says whether the handler calls \<open>Scheduler::next\<close>.\<close>

(* src/kernel/timer.cpp:16-27 timer_irq *)
definition timer_irq :: "timer \<Rightarrow> timer \<times> bool" where
  "timer_irq t =
     (let t = t\<lparr>timer_ticks := timer_ticks t + 1, timer_tenths := timer_tenths t + 1\<rparr>
      in if timer_tenths t > 25 \<and> \<not> is_sleeping t then (t\<lparr>timer_tenths := 0\<rparr>, True) else (t, False))"

(* src/kernel/timer.cpp:52-55 Timer::yield *)
definition timer_yield :: "timer \<Rightarrow> timer" where
  "timer_yield t = t\<lparr>timer_tenths := 100\<rparr>"

(* src/kernel/timer.cpp:57-60 Timer::initTimer *)
definition init_timer :: timer where
  "init_timer = \<lparr>timer_ticks = 0, timer_tenths = 0, is_sleeping = False\<rparr>"

text \<open>The count a frequency of \<open>num / den\<close> Hz gives, as the two bytes written to port \<open>0x40\<close>.\<close>

(* src/kernel/timer.cpp:29-36 Timer::setCount *)
definition timer_set_count :: "int \<Rightarrow> (u16 \<times> u8) list" where
  "timer_set_count count =
     [(0x43, 0x34), (0x40, word_of_int count AND 0xFF), (0x40, word_of_int (count div 2 ^ 8) AND 0xFF)]"

text \<open>
  \<open>Timer::sleep\<close>: \<open>sleep_done\<close> is the exit condition of its loop, which the timer interrupt, and
  nothing else, brings about.
\<close>

(* src/kernel/timer.cpp:38-41 Timer::sleep *)
definition sleep_begin :: "timer \<Rightarrow> u32 \<Rightarrow> timer \<times> u64" where
  "sleep_begin t ticks = (t\<lparr>is_sleeping := True\<rparr>, timer_ticks t + scast ticks)"

(* src/kernel/timer.cpp:43-49 Timer::sleep *)
definition sleep_done :: "timer \<Rightarrow> u64 \<Rightarrow> timer option" where
  "sleep_done t eticks = (if timer_ticks t < eticks then None else Some (t\<lparr>is_sleeping := False\<rparr>))"

section \<open>The ring of threads\<close>

definition nexts :: "kernel \<Rightarrow> addr \<rightharpoonup> addr" where
  "nexts s t = map_option nxt (threads s t)"

definition prevs :: "kernel \<Rightarrow> addr \<rightharpoonup> addr" where
  "prevs s t = map_option prev (threads s t)"

text \<open>
  \<open>ts\<close> are the threads in the order they were started. The back pointers of a ring of one are not
  set by the code.
\<close>

definition ring_of :: "(addr \<rightharpoonup> addr) \<Rightarrow> (addr \<rightharpoonup> addr) \<Rightarrow> addr list \<Rightarrow> bool" where
  "ring_of nx pv ts \<longleftrightarrow> (\<forall>i<length ts. nx (ts ! i) = Some (ts ! (Suc i mod length ts))
     \<and> (2 \<le> length ts \<longrightarrow> pv (ts ! i) = Some (ts ! ((i + length ts - 1) mod length ts))))"

definition threads_ok :: "kernel \<Rightarrow> addr list \<Rightarrow> bool" where
  "threads_ok s ts \<longleftrightarrow> distinct ts \<and> 0 \<notin> set ts \<and> thread_root s = (if ts = [] then 0 else hd ts)
     \<and> ring_of (nexts s) (prevs s) ts"

lemma set_next_links:
  assumes "threads s t = Some x"
  shows "\<exists>s'. set_next s t p = Some s' \<and> nexts s' = (nexts s)(t \<mapsto> p) \<and> prevs s' = prevs s
    \<and> thread_root s' = thread_root s \<and> stack_mem s' = stack_mem s \<and> next_tid s' = next_tid s
    \<and> threads s' = (threads s)(t \<mapsto> x\<lparr>nxt := p\<rparr>)"
  using assms by (auto simp: set_next_def nexts_def prevs_def fun_eq_iff)

lemma set_prev_links:
  assumes "threads s t = Some x"
  shows "\<exists>s'. set_prev s t p = Some s' \<and> nexts s' = nexts s \<and> prevs s' = (prevs s)(t \<mapsto> p)
    \<and> thread_root s' = thread_root s \<and> stack_mem s' = stack_mem s \<and> next_tid s' = next_tid s
    \<and> threads s' = (threads s)(t \<mapsto> x\<lparr>prev := p\<rparr>)"
  using assms by (auto simp: set_prev_def nexts_def prevs_def fun_eq_iff)

lemma ring_last_finds:
  assumes ring: "ring_of (nexts s) (prevs s) ts" and dist: "distinct ts" and root: "thread_root s = hd ts"
    and i: "i < length ts"
  shows "ring_last s (ts ! i) = Some (ts ! (length ts - 1))"
  using i
proof (induction "length ts - i" arbitrary: i)
  case 0
  then show ?case by simp
next
  case (Suc n)
  let ?n = "length ts"
  have "nexts s (ts ! i) = Some (ts ! (Suc i mod ?n))" using ring Suc.prems by (simp add: ring_of_def)
  then obtain x where x: "threads s (ts ! i) = Some x" "nxt x = ts ! (Suc i mod ?n)"
    by (auto simp: nexts_def)
  have hd: "hd ts = ts ! 0" using Suc.prems by (cases ts) auto
  have step: "ring_last s (ts ! i) = (if ts ! (Suc i mod ?n) \<noteq> ts ! 0 then ring_last s (ts ! (Suc i mod ?n)) else Some (ts ! i))"
    using x root hd by (subst ring_last.simps) simp
  show ?case
  proof (cases "Suc i < ?n")
    case True
    moreover have "0 < ?n" using True by linarith
    ultimately have "ts ! Suc i \<noteq> ts ! 0" using nth_eq_iff_index_eq [OF dist] by blast
    then show ?thesis using step True Suc.hyps by simp
  next
    case False
    then have "Suc i = ?n" using Suc.prems by simp
    then show ?thesis using step by (metis diff_Suc_1 mod_self)
  qed
qed

text \<open>A new node between the last and the first.\<close>

lemma ring_of_append:
  assumes ring: "ring_of nx pv ts" and ts: "ts \<noteq> []" "distinct ts" "p \<notin> set ts"
  shows "ring_of (nx(last ts \<mapsto> p, p \<mapsto> hd ts)) (pv(p \<mapsto> last ts, hd ts \<mapsto> p)) (ts @ [p])"
  unfolding ring_of_def
proof (intro allI impI)
  fix i assume i: "i < length (ts @ [p])"
  let ?n = "length ts" and ?nx = "nx(last ts \<mapsto> p, p \<mapsto> hd ts)" and ?pv = "pv(p \<mapsto> last ts, hd ts \<mapsto> p)"
  have n: "0 < ?n" using ts(1) by simp
  have last: "last ts = ts ! (?n - 1)" and hd: "hd ts = ts ! 0" using ts(1) by (auto simp: last_conv_nth hd_conv_nth)
  have p: "ts ! j \<noteq> p" if "j < ?n" for j using ts(3) that nth_mem by metis
  have nx: "?nx ((ts @ [p]) ! i) = Some ((ts @ [p]) ! (Suc i mod length (ts @ [p])))"
  proof -
    consider "Suc i < ?n" | "Suc i = ?n" | "i = ?n" using i by force
    then show ?thesis
    proof cases
      case 1
      then have "ts ! i \<noteq> last ts" using ts(2) by (simp add: last nth_eq_iff_index_eq)
      then show ?thesis using 1 ring p [of i] by (simp add: ring_of_def nth_append)
    next
      case 2
      then have "ts ! i = last ts" by (simp add: last flip: 2)
      then show ?thesis using 2 p [of i] by (simp add: nth_append)
    next
      case 3
      then show ?thesis using n hd by (simp add: nth_append)
    qed
  qed
  have pv: "?pv ((ts @ [p]) ! i) = Some ((ts @ [p]) ! ((i + length (ts @ [p]) - 1) mod length (ts @ [p])))"
  proof -
    consider "i = 0" | "0 < i" "i < ?n" | "i = ?n" using i by force
    then show ?thesis
    proof cases
      case 1
      then show ?thesis using n hd p [of 0] by (simp add: nth_append)
    next
      case 2
      have "ts ! i \<noteq> hd ts" using 2 n nth_eq_iff_index_eq [OF ts(2), of i 0] by (simp add: hd)
      moreover have "(i + ?n - 1) mod ?n = i - 1" and "(i + ?n) mod Suc ?n = i - 1"
        using 2 by (simp_all add: mod_if)
      moreover have "pv (ts ! i) = Some (ts ! ((i + ?n - 1) mod ?n))" using ring 2 by (simp add: ring_of_def)
      moreover have "i - 1 < ?n" using 2 by linarith
      ultimately show ?thesis using 2 p [of i] by (simp add: nth_append)
    next
      case 3
      have "p \<noteq> hd ts" using p [of 0] n hd by simp
      moreover have "(?n + ?n) mod Suc ?n = ?n - 1" using n by (simp add: mod_if)
      ultimately show ?thesis using 3 n last by (simp add: nth_append)
    qed
  qed
  show "?nx ((ts @ [p]) ! i) = Some ((ts @ [p]) ! (Suc i mod length (ts @ [p])))
    \<and> (2 \<le> length (ts @ [p]) \<longrightarrow>
       ?pv ((ts @ [p]) ! i) = Some ((ts @ [p]) ! ((i + length (ts @ [p]) - 1) mod length (ts @ [p]))))"
    using nx pv by blast
qed

lemma ring_thread:
  assumes "threads_ok s ts" and "t \<in> set ts"
  obtains x where "threads s t = Some x"
proof -
  obtain i where "i < length ts" "t = ts ! i" using assms(2) by (auto simp: in_set_conv_nth)
  then have "nexts s t \<noteq> None" using assms(1) by (simp add: threads_ok_def ring_of_def)
  then show thesis using that by (auto simp: nexts_def)
qed

lemma ring_of_cong:
  "(\<And>t. t \<in> set ts \<Longrightarrow> nx' t = nx t \<and> pv' t = pv t) \<Longrightarrow> ring_of nx pv ts \<Longrightarrow> ring_of nx' pv' ts"
  by (simp add: ring_of_def)

lemma link_thread_ring:
  assumes ring: "threads_ok s ts" and p: "p \<notin> set ts" "p \<noteq> 0" and new: "threads s p = Some x"
  shows "\<exists>s'. link_thread s p = Some s' \<and> threads_ok s' (ts @ [p]) \<and> stack_mem s' = stack_mem s
    \<and> next_tid s' = next_tid s
    \<and> (\<forall>t. map_option state_reg (threads s' t) = map_option state_reg (threads s t)
        \<and> map_option thread_id (threads s' t) = map_option thread_id (threads s t)
        \<and> map_option stack_ptr (threads s' t) = map_option stack_ptr (threads s t))"
proof (cases "ts = []")
  case True
  then have root: "thread_root s = 0" using ring by (simp add: threads_ok_def)
  obtain s' where s': "set_next (s\<lparr>thread_root := p\<rparr>) p p = Some s'" "nexts s' = (nexts (s\<lparr>thread_root := p\<rparr>))(p \<mapsto> p)"
    "thread_root s' = p" "stack_mem s' = stack_mem s" "next_tid s' = next_tid s"
    "threads s' = (threads s)(p \<mapsto> x\<lparr>nxt := p\<rparr>)"
    using set_next_links [of "s\<lparr>thread_root := p\<rparr>" p x p] new by auto
  have "threads_ok s' (ts @ [p])" using True s'(2,3) p by (simp add: threads_ok_def ring_of_def)
  then show ?thesis using s' root new by (auto simp: link_thread_def)
next
  case False
  have props: "distinct ts" "0 \<notin> set ts" "thread_root s = hd ts" "ring_of (nexts s) (prevs s) ts"
    using ring False by (auto simp: threads_ok_def)
  have "ring_last s (ts ! 0) = Some (ts ! (length ts - 1))"
    using False by (intro ring_last_finds [OF props(4,1,3)]) simp
  then have last: "ring_last s (thread_root s) = Some (last ts)"
    using False props(3) by (simp add: hd_conv_nth last_conv_nth)
  have root0: "thread_root s \<noteq> 0" using props False by (metis hd_in_set)
  have in_ts: "hd ts \<in> set ts" "last ts \<in> set ts" using False by simp_all
  obtain h l where h: "threads s (hd ts) = Some h" and l: "threads s (last ts) = Some l"
    using ring_thread [OF ring] in_ts by metis
  have ne: "hd ts \<noteq> p" "last ts \<noteq> p" using in_ts p by auto
  obtain s1 where s1: "set_prev s p (last ts) = Some s1" "nexts s1 = nexts s" "prevs s1 = (prevs s)(p \<mapsto> last ts)"
    "thread_root s1 = thread_root s" "stack_mem s1 = stack_mem s" "next_tid s1 = next_tid s"
    "threads s1 = (threads s)(p \<mapsto> x\<lparr>prev := last ts\<rparr>)"
    using set_prev_links [OF new] by blast
  have "threads s1 (last ts) = Some l" using s1(7) l ne by simp
  then obtain s2 where s2: "set_next s1 (last ts) p = Some s2" "nexts s2 = (nexts s1)(last ts \<mapsto> p)" "prevs s2 = prevs s1"
    "thread_root s2 = thread_root s1" "stack_mem s2 = stack_mem s1" "next_tid s2 = next_tid s1"
    "threads s2 = (threads s1)(last ts \<mapsto> l\<lparr>nxt := p\<rparr>)"
    using set_next_links by blast
  have "threads s2 p = Some (x\<lparr>prev := last ts\<rparr>)" using s2(7) s1(7) ne by simp
  then obtain s3 where s3: "set_next s2 p (thread_root s2) = Some s3" "nexts s3 = (nexts s2)(p \<mapsto> thread_root s2)" "prevs s3 = prevs s2"
    "thread_root s3 = thread_root s2" "stack_mem s3 = stack_mem s2" "next_tid s3 = next_tid s2"
    "threads s3 = (threads s2)(p \<mapsto> x\<lparr>prev := last ts, nxt := thread_root s2\<rparr>)"
    using set_next_links by fastforce
  obtain h' where h': "threads s3 (hd ts) = Some h'" "state_reg h' = state_reg h" "thread_id h' = thread_id h" "stack_ptr h' = stack_ptr h"
    using s3(7) s2(7) s1(7) h l ne by (cases "hd ts = last ts") auto
  obtain s4 where s4: "set_prev s3 (thread_root s3) p = Some s4" "nexts s4 = nexts s3" "prevs s4 = (prevs s3)(hd ts \<mapsto> p)"
    "thread_root s4 = thread_root s3" "stack_mem s4 = stack_mem s3" "next_tid s4 = next_tid s3"
    "threads s4 = (threads s3)(hd ts \<mapsto> h'\<lparr>prev := p\<rparr>)"
    using set_prev_links [OF h'(1), of p] s1(4) s2(4) s3(4) props(3) by auto
  have "link_thread s p = Some s4"
    using root0 last s1(1) s2(1) s3(1) s4(1) by (simp add: link_thread_def)
  moreover have "threads_ok s4 (ts @ [p])"
    using ring_of_append [OF props(4) False props(1) p(1)] props p False
      s1(2-4) s2(2-4) s3(2-4) s4(2-4) by (simp add: threads_ok_def)
  moreover have "stack_mem s4 = stack_mem s" "next_tid s4 = next_tid s"
    using s1 s2 s3 s4 by simp_all
  moreover have "map_option state_reg (threads s4 t) = map_option state_reg (threads s t)
        \<and> map_option thread_id (threads s4 t) = map_option thread_id (threads s t)
        \<and> map_option stack_ptr (threads s4 t) = map_option stack_ptr (threads s t)" for t
    using s4(7) s3(7) s2(7) s1(7) h' h l new by simp
  ultimately show ?thesis by blast
qed

lemma start_thread_appends:
  assumes ring: "threads_ok s ts" and p: "p \<notin> set ts" "p \<noteq> 0" and name: "strlen name = Some n" "n < 255"
  shows "\<exists>s' t. start_thread s p raw name entry = Some s' \<and> threads_ok s' (ts @ [p])
    \<and> threads s' p = Some t \<and> thread_id t = next_tid s \<and> next_tid s' = next_tid s + 1
    \<and> r_esp (state_reg t) = stack_ptr t
    \<and> map (\<lambda>i. stack_mem s' (stack_ptr t + 4 * i)) [0, 1, 2, 3, 4] = [0, 0, 0, 0, entry]
    \<and> (\<forall>q\<in>set ts. map_option state_reg (threads s' q) = map_option state_reg (threads s q))"
proof -
  obtain m sp where push: "PUSH 0 (PUSH 0 (PUSH 0 (PUSH 0 (PUSH entry (stack_mem s, p + stack_offset + 4096)))))
      = (m, sp)" by (metis surj_pair)
  have words: "m sp = 0" "m (sp + 4) = 0" "m (sp + 8) = 0" "m (sp + 12) = 0" "m (sp + 16) = entry"
    using push by (auto simp: PUSH_def Let_def)
  define t where "t = \<lparr>thread_id = next_tid s, proc_id = 1, title = take (n + 1) name @ drop (n + 1) (title raw),
     state_reg = (state_reg raw)\<lparr>r_eax := 0, r_ebx := 0, r_ecx := 0, r_edx := 0, r_esi := 0, r_edi := 0,
       r_useresp := 0, r_ebp := 0, r_eip := entry, r_esp := sp, r_eflags := push_bit 9 1 OR 1\<rparr>,
     entry_ptr = entry, stack_ptr = sp, prev = 0, nxt = 0, t_status = T_RUNNING\<rparr>"
  have make: "make_thread s p raw name entry = Some (s\<lparr>stack_mem := m\<rparr>, t)"
    using name unfolding make_thread_def push t_def by simp
  let ?s = "s\<lparr>stack_mem := m, threads := (threads s)(p \<mapsto> t)\<rparr>"
  have "ring_of (nexts ?s) (prevs ?s) ts"
    using ring p by (intro ring_of_cong [of ts "nexts ?s" "nexts s" "prevs ?s" "prevs s"])
      (auto simp: threads_ok_def nexts_def prevs_def)
  then have "threads_ok ?s ts" using ring by (simp add: threads_ok_def)
  from link_thread_ring [OF this p, of t] obtain s' where s': "link_thread ?s p = Some s'"
    "threads_ok s' (ts @ [p])" "stack_mem s' = m" "next_tid s' = next_tid s"
    and same: "\<And>q. map_option state_reg (threads s' q) = map_option state_reg (threads ?s q)
        \<and> map_option thread_id (threads s' q) = map_option thread_id (threads ?s q)
        \<and> map_option stack_ptr (threads s' q) = map_option stack_ptr (threads ?s q)" by auto
  obtain t' where t': "threads s' p = Some t'" "state_reg t' = state_reg t" "thread_id t' = thread_id t"
    "stack_ptr t' = stack_ptr t" using same [of p] by (cases "threads s' p") auto
  let ?s' = "s'\<lparr>next_tid := next_tid s' + 1\<rparr>"
  have start: "start_thread s p raw name entry = Some ?s'" using make s'(1) by (simp add: start_thread_def)
  have "nexts ?s' = nexts s'" "prevs ?s' = prevs s'" by (simp_all add: nexts_def prevs_def fun_eq_iff)
  then have "threads_ok ?s' (ts @ [p])" using s'(2) by (simp add: threads_ok_def)
  moreover have "map_option state_reg (threads s' q) = map_option state_reg (threads s q)" if "q \<in> set ts" for q
  proof -
    have "q \<noteq> p" using p that by blast
    then show ?thesis using same [of q] by simp
  qed
  ultimately show ?thesis
    using start t' s'(3,4) words by (intro exI [of _ ?s'] exI [of _ t']) (simp add: t_def)
qed

text \<open>
  Property C21: \<open>start_thread\<close> puts the new thread behind the last one of the ring, in both
  directions, under a fresh number; its saved stack pointer leads to four zeroes and the entry
  point, and the saved registers of the threads that were there are untouched.
\<close>

theorem start_thread_ring:
  assumes ring: "threads_ok s ts" and p: "p \<notin> set ts" "p \<noteq> 0" and name: "strlen name = Some n" "n < 255"
  shows "\<exists>s' t. start_thread s p raw name entry = Some s' \<and> threads_ok s' (ts @ [p])
    \<and> threads s' p = Some t \<and> thread_id t = next_tid s \<and> next_tid s' = next_tid s + 1
    \<and> r_esp (state_reg t) = stack_ptr t
    \<and> map (\<lambda>i. stack_mem s' (stack_ptr t + 4 * i)) [0, 1, 2, 3, 4] = [0, 0, 0, 0, entry]
    \<and> (\<forall>q\<in>set ts. map_option state_reg (threads s' q) = map_option state_reg (threads s q))"
  by (rule start_thread_appends [OF assms])

definition no_registers :: registers where
  "no_registers = \<lparr>r_gs = 0, r_fs = 0, r_es = 0, r_ds = 0, r_edi = 0, r_esi = 0, r_ebp = 0, r_esp = 0,
     r_ebx = 0, r_edx = 0, r_ecx = 0, r_eax = 0, isr_num = 0, err_code = 0,
     r_eip = 0, r_cs = 0, r_eflags = 0, r_useresp = 0, r_ss = 0\<rparr>"

definition raw_thread :: thread where
  "raw_thread = \<lparr>thread_id = 0, proc_id = 0, title = replicate 255 0, state_reg = no_registers,
     entry_ptr = 0, stack_ptr = 0, prev = 0, nxt = 0, t_status = T_RUNNING\<rparr>"

definition boot_kernel :: kernel where
  "boot_kernel = \<lparr>threads = Map.empty, thread_root = 0, thread_running = 0, next_tid = 1, started = False,
     sched_running = True, stack_mem = (\<lambda>_. 0),
     cpu = \<lparr>esp = 0xC0104000, ebp = 0, ebx = 0, esi = 0, edi = 0, eip = 0, int_enabled = False\<rparr>\<rparr>"

lemma boot_kernel_ring: "threads_ok boot_kernel []"
  by (simp add: boot_kernel_def threads_ok_def ring_of_def)

theorem start_thread_ring_witness:
  "\<exists>s'. start_thread boot_kernel 0xE0000010 raw_thread [107, 98, 0] 0xC0100000 = Some s'
    \<and> threads_ok s' [0xE0000010]"
  using start_thread_ring [OF boot_kernel_ring, of "0xE0000010" "[107, 98, 0]" 2 raw_thread "0xC0100000"] by auto

section \<open>Switching\<close>

lemma restore_eq:
  "restore s = s\<lparr>cpu := \<lparr>esp = esp (cpu s) + 20, ebp = stack_mem s (esp (cpu s) + 12),
     ebx = stack_mem s (esp (cpu s) + 8), esi = stack_mem s (esp (cpu s) + 4), edi = stack_mem s (esp (cpu s)),
     eip = stack_mem s (esp (cpu s) + 16), int_enabled = True\<rparr>\<rparr>"
  by (simp add: restore_def pop_word_def Let_def add.assoc)

text \<open>The frame \<open>switch_context\<close> leaves below the return address, and the words of it.\<close>

definition frame_word :: "u32 \<Rightarrow> u32 \<Rightarrow> bool" where
  "frame_word e a \<longleftrightarrow> a \<in> {e - 16, e - 12, e - 8, e - 4, e}"

lemma switch_context_eq:
  assumes "switch_context a b s = Some s'"
  obtains t v where "threads s (a - 40) = Some t"
    and "threads s' = (threads s)(a - 40 \<mapsto> t\<lparr>state_reg := (state_reg t)\<lparr>r_esp := esp (cpu s) - 16\<rparr>\<rparr>)"
    and "load_esp (s\<lparr>threads := threads s'\<rparr>) b = Some v"
    and "stack_mem s' = (stack_mem s)(esp (cpu s) - 4 := ebp (cpu s), esp (cpu s) - 8 := ebx (cpu s),
           esp (cpu s) - 12 := esi (cpu s), esp (cpu s) - 16 := edi (cpu s))"
    and "cpu s' = \<lparr>esp = v + 20, ebp = stack_mem s' (v + 12), ebx = stack_mem s' (v + 8),
           esi = stack_mem s' (v + 4), edi = stack_mem s' v, eip = stack_mem s' (v + 16), int_enabled = True\<rparr>"
    and "thread_running s' = thread_running s" and "thread_root s' = thread_root s" and "started s' = started s"
  using assms
  by (auto simp: switch_context_def push_word_def store_esp_def load_esp_def restore_eq Let_def
      bind_eq_Some_conv diff_diff_eq)

text \<open>
  Property C6: a thread that is switched away from resumes, when it is switched back to, exactly where
  it was: with the registers it had, behind its call, its stack pointer back in place and interrupts
  on; provided nobody wrote to its record or to the five words it left on its stack meanwhile.
\<close>

theorem switch_roundtrip:
  assumes out: "switch_context (esp_slot a) (esp_slot b) s = Some s1"
    and keep: "threads s2 a = threads s1 a" "\<And>w. frame_word (esp (cpu s)) w \<Longrightarrow> stack_mem s2 w = stack_mem s1 w"
    and other: "c \<noteq> a"
      "\<And>w. frame_word (esp (cpu s)) w \<Longrightarrow> w \<notin> {esp (cpu s2) - 4, esp (cpu s2) - 8, esp (cpu s2) - 12, esp (cpu s2) - 16}"
    and again: "switch_context (esp_slot c) (esp_slot a) s2 = Some s3"
  shows "cpu s3 = (cpu s)\<lparr>esp := esp (cpu s) + 4, eip := stack_mem s (esp (cpu s)), int_enabled := True\<rparr>"
proof -
  let ?e = "esp (cpu s)"
  obtain t v where out': "threads s a = Some t"
    "threads s1 = (threads s)(a \<mapsto> t\<lparr>state_reg := (state_reg t)\<lparr>r_esp := ?e - 16\<rparr>\<rparr>)"
    "stack_mem s1 = (stack_mem s)(?e - 4 := ebp (cpu s), ?e - 8 := ebx (cpu s), ?e - 12 := esi (cpu s), ?e - 16 := edi (cpu s))"
    by (rule switch_context_eq [OF out]) (simp add: esp_slot_def)
  obtain t2 v2 where again': "threads s3 = (threads s2)(c \<mapsto> t2)" "load_esp (s2\<lparr>threads := threads s3\<rparr>) (esp_slot a) = Some v2"
    "stack_mem s3 = (stack_mem s2)(esp (cpu s2) - 4 := ebp (cpu s2), esp (cpu s2) - 8 := ebx (cpu s2),
           esp (cpu s2) - 12 := esi (cpu s2), esp (cpu s2) - 16 := edi (cpu s2))"
    "cpu s3 = \<lparr>esp = v2 + 20, ebp = stack_mem s3 (v2 + 12), ebx = stack_mem s3 (v2 + 8),
           esi = stack_mem s3 (v2 + 4), edi = stack_mem s3 v2, eip = stack_mem s3 (v2 + 16), int_enabled = True\<rparr>"
    by (rule switch_context_eq [OF again]) (simp add: esp_slot_def)
  have v2: "v2 = ?e - 16"
    using again'(1,2) keep(1) out'(2) other(1) by (auto simp: load_esp_def esp_slot_def)
  have words: "stack_mem s3 w = stack_mem s1 w" if "frame_word ?e w" for w
    using other(2) [OF that] keep(2) [OF that] unfolding again'(3) by auto
  have "stack_mem s3 (?e - 16) = edi (cpu s)" "stack_mem s3 (?e - 12) = esi (cpu s)"
    "stack_mem s3 (?e - 8) = ebx (cpu s)" "stack_mem s3 (?e - 4) = ebp (cpu s)" "stack_mem s3 ?e = stack_mem s ?e"
    using words [of "?e - 16"] words [of "?e - 12"] words [of "?e - 8"] words [of "?e - 4"] words [of ?e]
    by (simp_all add: frame_word_def out'(3))
  moreover have "v2 + 12 = ?e - 4" "v2 + 8 = ?e - 8" "v2 + 4 = ?e - 12" "v2 + 16 = ?e" "v2 + 20 = ?e + 4"
    by (simp_all add: v2)
  ultimately show ?thesis using v2 unfolding again'(4) by simp
qed

definition two_threads :: kernel where
  "two_threads = boot_kernel\<lparr>threads :=
     [0x1000 \<mapsto> raw_thread\<lparr>nxt := 0x2000, prev := 0x2000\<rparr>,
      0x2000 \<mapsto> raw_thread\<lparr>nxt := 0x1000, prev := 0x1000, state_reg := no_registers\<lparr>r_esp := 0x900\<rparr>\<rparr>],
     thread_root := 0x1000, thread_running := 0x1000, started := True,
     cpu := \<lparr>esp = 0x500, ebp = 1, ebx = 2, esi = 3, edi = 4, eip = 5, int_enabled = False\<rparr>\<rparr>"

theorem switch_roundtrip_witness:
  "\<exists>s1 s3. switch_context (esp_slot 0x1000) (esp_slot 0x2000) two_threads = Some s1
    \<and> switch_context (esp_slot 0x2000) (esp_slot 0x1000) s1 = Some s3
    \<and> cpu s3 = \<lparr>esp = 0x504, ebp = 1, ebx = 2, esi = 3, edi = 4, eip = 0, int_enabled = True\<rparr>"
proof -
  obtain s1 where s1: "switch_context (esp_slot 0x1000) (esp_slot 0x2000) two_threads = Some s1"
    by (simp add: switch_context_def push_word_def store_esp_def load_esp_def Let_def esp_slot_def two_threads_def)
  obtain t v where t: "threads s1 = (threads two_threads)(0x1000 \<mapsto> t)" and v: "load_esp (two_threads\<lparr>threads := threads s1\<rparr>) (esp_slot 0x2000) = Some v"
    and cpu1: "esp (cpu s1) = v + 20"
    by (rule switch_context_eq [OF s1]) (simp add: esp_slot_def)
  have "v = 0x900" using v unfolding t by (simp add: load_esp_def esp_slot_def two_threads_def)
  then have e1: "esp (cpu s1) = 0x914" using cpu1 by simp
  obtain s3 where s3: "switch_context (esp_slot 0x2000) (esp_slot 0x1000) s1 = Some s3"
    using t by (simp add: switch_context_def push_word_def store_esp_def load_esp_def Let_def esp_slot_def two_threads_def)
  have "cpu s3 = (cpu two_threads)\<lparr>esp := esp (cpu two_threads) + 4,
      eip := stack_mem two_threads (esp (cpu two_threads)), int_enabled := True\<rparr>"
    by (rule switch_roundtrip [OF s1 refl refl _ _ s3]) (auto simp: frame_word_def e1 two_threads_def)
  then show ?thesis using s1 s3 by (simp add: two_threads_def boot_kernel_def)
qed

section \<open>Round robin\<close>

lemma push_word_running: "thread_running (push_word v s) = thread_running s"
  by (simp add: push_word_def)

lemma nexts_eq: "nexts s t = Some q \<Longrightarrow> \<exists>x. threads s t = Some x \<and> nxt x = q"
  by (auto simp: nexts_def)

lemma switch_context_links:
  assumes "switch_context a b s = Some s'"
  shows "nexts s' = nexts s" and "prevs s' = prevs s" and "thread_root s' = thread_root s"
    and "thread_running s' = thread_running s" and "started s' = started s"
  by (rule switch_context_eq [OF assms], simp add: nexts_def prevs_def fun_eq_iff)+

text \<open>
  What one switch has to do: the thread \<open>t\<close> is left with its four registers and the return address \<open>ra\<close> on its
  stack, below the two arguments, and its stack pointer in its record; and the cpu goes on as thread \<open>u\<close>,
  with the registers, return address and stack pointer that \<open>u\<close> has saved, and interrupts on. No other word of
  memory and no other thread changes.
\<close>

definition saved_esp :: "kernel \<Rightarrow> addr \<Rightarrow> u32 option" where
  "saved_esp s t = map_option (\<lambda>x. r_esp (state_reg x)) (threads s t)"

definition suspends :: "u32 \<Rightarrow> kernel \<Rightarrow> addr \<Rightarrow> kernel \<Rightarrow> bool" where
  "suspends ra s t s' \<longleftrightarrow> (let e = esp (cpu s) in
     saved_esp s' t = Some (e - 28)
     \<and> stack_mem s' (e - 28) = edi (cpu s) \<and> stack_mem s' (e - 24) = esi (cpu s)
     \<and> stack_mem s' (e - 20) = ebx (cpu s) \<and> stack_mem s' (e - 16) = ebp (cpu s) \<and> stack_mem s' (e - 12) = ra
     \<and> (\<forall>w. w \<notin> {e - 28, e - 24, e - 20, e - 16, e - 12, e - 8, e - 4} \<longrightarrow> stack_mem s' w = stack_mem s w)
     \<and> (\<forall>u. u \<noteq> t \<longrightarrow> threads s' u = threads s u))"

definition resumes :: "kernel \<Rightarrow> addr \<Rightarrow> kernel \<Rightarrow> bool" where
  "resumes s u s' \<longleftrightarrow> (\<exists>v. saved_esp s u = Some v
     \<and> cpu s' = \<lparr>esp = v + 20, ebp = stack_mem s' (v + 12), ebx = stack_mem s' (v + 8),
         esi = stack_mem s' (v + 4), edi = stack_mem s' v, eip = stack_mem s' (v + 16), int_enabled = True\<rparr>)"

lemma scheduler_next_ring:
  assumes ring: "threads_ok s ts" and n: "2 \<le> length ts" and st: "started s"
    and i: "i < length ts" "thread_running s = ts ! i"
  shows "\<exists>s'. scheduler_next ra r s = Some s' \<and> threads_ok s' ts \<and> started s'
    \<and> thread_running s' = ts ! (Suc i mod length ts)
    \<and> suspends ra s (ts ! i) s' \<and> resumes s (ts ! (Suc i mod length ts)) s'"
proof -
  let ?n = "length ts" and ?j = "Suc i mod length ts"
  have links: "ring_of (nexts s) (prevs s) ts" using ring by (simp add: threads_ok_def)
  have j: "?j < ?n" using n by (intro mod_less_divisor) linarith
  obtain t where t: "threads s (ts ! i) = Some t" "nxt t = ts ! ?j"
    using links i(1) nexts_eq unfolding ring_of_def by blast
  define t0 where "t0 = (if r_esp r > 0xE0000000 then t\<lparr>state_reg := r\<rparr> else t)"
  have t0: "nxt t0 = nxt t" "prev t0 = prev t" by (simp_all add: t0_def)
  define s0 where "s0 = s\<lparr>cpu := (cpu s)\<lparr>int_enabled := False\<rparr>, threads := (threads s)(ts ! i \<mapsto> t0),
    thread_running := ts ! ?j\<rparr>"
  have s0: "nexts s0 = nexts s" "prevs s0 = prevs s" "thread_root s0 = thread_root s" "started s0 = started s"
    "thread_running s0 = ts ! ?j"
    using t t0 by (auto simp: s0_def nexts_def prevs_def fun_eq_iff)
  have "prevs s (ts ! ?j) = Some (ts ! ((?j + ?n - 1) mod ?n))" using links j n by (simp add: ring_of_def)
  moreover have "(?j + ?n - 1) mod ?n = i"
  proof (cases "Suc i = ?n")
    case True
    then show ?thesis using n by simp
  next
    case False
    then have "?j = Suc i" using i(1) by simp
    then show ?thesis using i(1) by simp
  qed
  ultimately have "prevs s0 (ts ! ?j) = Some (ts ! i)" using s0 by simp
  then obtain t' where t': "threads s0 (ts ! ?j) = Some t'" "prev t' = ts ! i" by (auto simp: prevs_def)
  define s2 where "s2 = push_word ra (push_word (esp_slot (ts ! i)) (push_word (esp_slot (ts ! ?j)) s0))"
  have s2: "threads s2 = threads s0" "nexts s2 = nexts s0" "prevs s2 = prevs s0" "thread_root s2 = thread_root s0"
    "thread_running s2 = thread_running s0" "started s2 = started s0"
    by (simp_all add: s2_def push_word_def nexts_def prevs_def fun_eq_iff)
  have "threads s2 (ts ! i) \<noteq> None" "threads s2 (ts ! ?j) \<noteq> None" using s2 t'(1) by (auto simp: s0_def)
  then have "switch_context (esp_slot (ts ! i)) (esp_slot (ts ! ?j)) s2 \<noteq> None"
    by (cases "ts ! ?j = ts ! i")
      (auto simp: switch_context_def push_word_def store_esp_def load_esp_def esp_slot_def Let_def)
  then obtain s' where s': "switch_context (esp_slot (ts ! i)) (esp_slot (ts ! ?j)) s2 = Some s'"
    by blast
  have tj: "((threads s)(ts ! i \<mapsto> t0)) (ts ! ?j) = Some t'" using t'(1) by (simp add: s0_def)
  have "scheduler_next ra r s = switch_context (esp_slot (prev t')) (esp_slot (ts ! ?j))
      (push_word ra (push_word (esp_slot (prev t')) (push_word (esp_slot (ts ! ?j)) s0)))"
    unfolding scheduler_next_def Let_def using st t(1) i(2)
    by (simp del: fun_upd_apply add: tj t0(1) t(2) s0_def push_word_running flip: t0_def)
  then have "scheduler_next ra r s = Some s'" using s' t'(2) by (simp add: s2_def)
  moreover have "threads_ok s' ts" using switch_context_links [OF s'] s0 s2 ring by (simp add: threads_ok_def)
  moreover have "started s'" "thread_running s' = ts ! ?j" using switch_context_links [OF s'] s0 s2 st by simp_all
  moreover have "suspends ra s (ts ! i) s' \<and> resumes s (ts ! ?j) s'"
  proof -
    have "i \<noteq> ?j" using n i(1) by (cases "Suc i = ?n") auto
    then have ij: "ts ! ?j \<noteq> ts ! i" using ring i(1) j by (simp add: threads_ok_def nth_eq_iff_index_eq)
    obtain x v where x: "threads s' = (threads s2)(ts ! i \<mapsto> x\<lparr>state_reg := (state_reg x)\<lparr>r_esp := esp (cpu s2) - 16\<rparr>\<rparr>)"
      and v: "load_esp (s2\<lparr>threads := threads s'\<rparr>) (esp_slot (ts ! ?j)) = Some v"
      and m: "stack_mem s' = (stack_mem s2)(esp (cpu s2) - 4 := ebp (cpu s2), esp (cpu s2) - 8 := ebx (cpu s2),
           esp (cpu s2) - 12 := esi (cpu s2), esp (cpu s2) - 16 := edi (cpu s2))"
      and c: "cpu s' = \<lparr>esp = v + 20, ebp = stack_mem s' (v + 12), ebx = stack_mem s' (v + 8),
           esi = stack_mem s' (v + 4), edi = stack_mem s' v, eip = stack_mem s' (v + 16), int_enabled = True\<rparr>"
      by (rule switch_context_eq [OF s']) (simp add: esp_slot_def)
    have cpu2: "esp (cpu s2) = esp (cpu s) - 12" "ebp (cpu s2) = ebp (cpu s)" "ebx (cpu s2) = ebx (cpu s)"
      "esi (cpu s2) = esi (cpu s)" "edi (cpu s2) = edi (cpu s)"
      by (simp_all add: s2_def push_word_def s0_def diff_diff_eq)
    have mem2: "stack_mem s2 = (stack_mem s)(esp (cpu s) - 4 := esp_slot (ts ! ?j), esp (cpu s) - 8 := esp_slot (ts ! i),
        esp (cpu s) - 12 := ra)"
      by (simp add: s2_def push_word_def s0_def diff_diff_eq)
    have "saved_esp s (ts ! ?j) = Some v"
      using v ij unfolding x s2(1) by (simp add: load_esp_def esp_slot_def saved_esp_def s0_def)
    moreover have "saved_esp s' (ts ! i) = Some (esp (cpu s) - 28)"
      by (simp add: saved_esp_def x cpu2 diff_diff_eq)
    moreover have "threads s' u = threads s u" if "u \<noteq> ts ! i" for u using that by (simp add: x s2(1) s0_def)
    ultimately show ?thesis
      using c by (simp add: suspends_def resumes_def Let_def m mem2 cpu2 diff_diff_eq)
  qed
  ultimately show ?thesis by blast
qed

text \<open>Several switches, each from whatever register state the interrupt came with.\<close>

fun switches :: "(u32 \<times> registers) list \<Rightarrow> kernel \<Rightarrow> kernel option" where
  "switches [] s = Some s"
| "switches ((ra, r) # rs) s = Option.bind (scheduler_next ra r s) (switches rs)"

text \<open>
  Property C5: Scheduling is round robin: with at least two threads, \<open>k\<close> calls of the scheduler run without a fault and
  move on by \<open>k\<close> places in the ring, which is unchanged, so that every thread runs again after at most as many
  switches as there are threads. Each call leaves the registers and the return address of the running thread on
  its stack and its stack pointer in its record, and lets the cpu go on as the next thread of the ring, with
  the registers, the return address and the stack pointer that this thread has saved, and interrupts on.
\<close>

theorem round_robin:
  assumes "threads_ok s ts" and "2 \<le> length ts" and "started s"
    and "i < length ts" and "thread_running s = ts ! i"
  shows "\<exists>s'. switches rs s = Some s' \<and> threads_ok s' ts \<and> thread_running s' = ts ! ((i + length rs) mod length ts)
    \<and> (\<forall>k < length rs. \<exists>s1 s2. switches (take k rs) s = Some s1 \<and> switches (take (Suc k) rs) s = Some s2
        \<and> scheduler_next (fst (rs ! k)) (snd (rs ! k)) s1 = Some s2
        \<and> suspends (fst (rs ! k)) s1 (ts ! ((i + k) mod length ts)) s2
        \<and> resumes s1 (ts ! (Suc (i + k) mod length ts)) s2)"
  using assms
proof (induction rs arbitrary: s i)
  case (Cons e rs)
  let ?n = "length ts"
  obtain ra r where e: "e = (ra, r)" by (cases e)
  obtain s1 where s1: "scheduler_next ra r s = Some s1" "threads_ok s1 ts" "started s1"
    "thread_running s1 = ts ! (Suc i mod length ts)" "suspends ra s (ts ! i) s1" "resumes s (ts ! (Suc i mod length ts)) s1"
    using scheduler_next_ring [OF Cons.prems, of ra r] by blast
  have idx: "Suc (Suc i mod ?n + k) mod ?n = Suc (Suc (i + k)) mod ?n" for k
    by (metis add_Suc mod_Suc_eq mod_add_left_eq)
  have "Suc i mod length ts < length ts" using Cons.prems(2) by (intro mod_less_divisor) linarith
  from Cons.IH [OF s1(2) Cons.prems(2) s1(3) this s1(4)] obtain s' where
    s': "switches rs s1 = Some s'" "threads_ok s' ts" "thread_running s' = ts ! ((Suc i + length rs) mod ?n)"
    and steps: "\<forall>k < length rs. \<exists>t1 t2. switches (take k rs) s1 = Some t1 \<and> switches (take (Suc k) rs) s1 = Some t2
        \<and> scheduler_next (fst (rs ! k)) (snd (rs ! k)) t1 = Some t2
        \<and> suspends (fst (rs ! k)) t1 (ts ! ((Suc i + k) mod ?n)) t2 \<and> resumes t1 (ts ! (Suc (Suc i + k) mod ?n)) t2"
    by (auto simp: mod_simps idx)
  have "\<exists>t1 t2. switches (take k (e # rs)) s = Some t1 \<and> switches (take (Suc k) (e # rs)) s = Some t2
        \<and> scheduler_next (fst ((e # rs) ! k)) (snd ((e # rs) ! k)) t1 = Some t2
        \<and> suspends (fst ((e # rs) ! k)) t1 (ts ! ((i + k) mod ?n)) t2 \<and> resumes t1 (ts ! (Suc (i + k) mod ?n)) t2"
    if k: "k < length (e # rs)" for k
  proof (cases k)
    case 0
    then show ?thesis using s1 Cons.prems(4) by (simp add: e)
  next
    case (Suc j)
    then show ?thesis using steps [rule_format, of j] k s1(1) by (simp add: e)
  qed
  then show ?case using s' s1(1) by (simp add: e)
qed auto

theorem round_robin_witness:
  "\<exists>s' s1. switches [(9, no_registers), (9, no_registers), (9, no_registers)] two_threads = Some s'
    \<and> thread_running s' = 0x2000
    \<and> scheduler_next 9 no_registers two_threads = Some s1 \<and> esp (cpu s1) = 0x914"
proof -
  have ring: "threads_ok two_threads [0x1000, 0x2000]"
    by (simp add: two_threads_def threads_ok_def ring_of_def nexts_def prevs_def less_Suc_eq)
  have st: "started two_threads" "thread_running two_threads = [0x1000, 0x2000] ! 0"
    by (simp_all add: two_threads_def)
  have esp: "saved_esp two_threads 0x2000 = Some 0x900" by (simp add: saved_esp_def two_threads_def)
  define rs :: "(u32 \<times> registers) list" where "rs = [(9, no_registers), (9, no_registers), (9, no_registers)]"
  define ts :: "addr list" where "ts = [0x1000, 0x2000]"
  have ts: "threads_ok two_threads ts" "2 \<le> length ts" "0 < length ts" "thread_running two_threads = ts ! 0"
    using ring st(2) by (simp_all add: ts_def)
  obtain s' where s': "switches rs two_threads = Some s'" "thread_running s' = ts ! ((0 + length rs) mod length ts)"
    and step: "\<forall>k < length rs. \<exists>s1 s2. switches (take k rs) two_threads = Some s1
        \<and> switches (take (Suc k) rs) two_threads = Some s2 \<and> scheduler_next (fst (rs ! k)) (snd (rs ! k)) s1 = Some s2
        \<and> suspends (fst (rs ! k)) s1 (ts ! ((0 + k) mod length ts)) s2 \<and> resumes s1 (ts ! (Suc (0 + k) mod length ts)) s2"
    using round_robin [OF ts(1,2) st(1) ts(3,4), of rs] by blast
  have "0 < length rs" by (simp add: rs_def)
  from step [rule_format, OF this] obtain s1 where "scheduler_next 9 no_registers two_threads = Some s1"
    "resumes two_threads 0x2000 s1" by (auto simp: rs_def ts_def)
  moreover have "switches [(9, no_registers), (9, no_registers), (9, no_registers)] two_threads = Some s'" "thread_running s' = 0x2000"
    using s' by (simp_all add: rs_def ts_def mod_Suc)
  ultimately show ?thesis using esp by (auto simp: resumes_def)
qed

text \<open>
  with a single thread the scheduler faults on its second call: the ring of one has no back
  pointer, and \<open>switch_context\<close> is asked to save the stack pointer through it.
\<close>

theorem single_thread_faults:
  assumes "threads_ok s [t]" and "started s" and "thread_running s = t" and "prevs s t = Some 0"
    and "threads s 0 = None"
  shows "scheduler_next ra r s = None"
proof -
  have "nexts s t = Some t" using assms(1) by (simp add: threads_ok_def ring_of_def)
  then obtain x where x: "threads s t = Some x" "nxt x = t" "prev x = 0"
    using assms(4) by (auto simp: nexts_def prevs_def)
  have "t \<noteq> 0" using assms(1) by (simp add: threads_ok_def)
  then show ?thesis
    using assms x by (simp add: scheduler_next_def Let_def switch_context_def push_word_def store_esp_def esp_slot_def)
qed

theorem single_thread_faults_witness:
  "scheduler_next 9 no_registers (boot_kernel\<lparr>threads := [0x1000 \<mapsto> raw_thread\<lparr>nxt := 0x1000\<rparr>],
     thread_root := 0x1000, thread_running := 0x1000, started := True\<rparr>) = None"
  by (rule single_thread_faults [of _ "0x1000"])
    (simp_all add: threads_ok_def ring_of_def nexts_def prevs_def raw_thread_def boot_kernel_def)

section \<open>Time slices\<close>

fun timer_run :: "nat \<Rightarrow> timer \<Rightarrow> timer \<times> nat" where
  "timer_run 0 t = (t, 0)"
| "timer_run (Suc n) t =
     (let (t, sw) = timer_irq t; (t, k) = timer_run n t in (t, if sw then Suc k else k))"

lemma timer_run_add: "timer_run (m + n) t =
    (let (t1, j) = timer_run m t; (t2, k) = timer_run n t1 in (t2, j + k))"
  by (induction m arbitrary: t) (auto simp: Let_def split: prod.splits)

lemma timer_slice:
  "\<not> is_sleeping t \<Longrightarrow> unat (timer_tenths t) + n = 26 \<Longrightarrow> 0 < n \<Longrightarrow>
    timer_run n t = (t\<lparr>timer_ticks := timer_ticks t + of_nat n, timer_tenths := 0\<rparr>, 1)"
proof (induction n arbitrary: t)
  case (Suc n)
  note IH = Suc.IH and prems = Suc.prems
  have u: "unat (timer_tenths t + 1) = unat (timer_tenths t) + 1"
    using Suc.prems(2) by (simp add: unat_word_ariths)
  show ?case
  proof (cases n)
    case 0
    then have "25 < timer_tenths t + 1" using u Suc.prems(2) by (simp add: word_less_nat_alt)
    then show ?thesis using Suc.prems(1) 0 by (simp add: timer_irq_def Let_def)
  next
    case (Suc k)
    then have "\<not> 25 < timer_tenths t + 1" using u prems(2) by (simp add: word_less_nat_alt)
    then have irq: "timer_irq t = (t\<lparr>timer_ticks := timer_ticks t + 1, timer_tenths := timer_tenths t + 1\<rparr>, False)"
      by (simp add: timer_irq_def Let_def)
    show ?thesis
      using IH [of "t\<lparr>timer_ticks := timer_ticks t + 1, timer_tenths := timer_tenths t + 1\<rparr>"] prems u Suc
      by (simp add: irq add_ac)
  qed
qed simp

text \<open>
  while nobody sleeps, the timer interrupt calls the scheduler exactly once in every 26
  ticks, from the start of a slice on; after a yield it does so at the next tick.
\<close>

theorem timer_period:
  assumes "\<not> is_sleeping t"
  shows "(timer_tenths t = 0 \<longrightarrow>
      timer_run (26 * m) t = (t\<lparr>timer_ticks := timer_ticks t + of_nat (26 * m), timer_tenths := 0\<rparr>, m))
    \<and> snd (timer_irq (timer_yield t))"
proof (intro conjI impI)
  show "snd (timer_irq (timer_yield t))"
    using assms by (simp add: timer_irq_def timer_yield_def Let_def)
  show "timer_run (26 * m) t = (t\<lparr>timer_ticks := timer_ticks t + of_nat (26 * m), timer_tenths := 0\<rparr>, m)"
    if "timer_tenths t = 0"
    using that assms
  proof (induction m arbitrary: t)
    case (Suc m)
    let ?t = "t\<lparr>timer_ticks := timer_ticks t + of_nat 26, timer_tenths := 0\<rparr>"
    have "timer_run 26 t = (?t, 1)" using timer_slice [of t 26] Suc.prems by simp
    moreover have "timer_run (26 * m) ?t = (?t\<lparr>timer_ticks := timer_ticks ?t + of_nat (26 * m), timer_tenths := 0\<rparr>, m)"
      using Suc.IH [of ?t] Suc.prems by simp
    moreover have "26 * Suc m = 26 + 26 * m" by simp
    ultimately show ?case by (simp only: timer_run_add Let_def split) simp
  qed simp
qed

theorem timer_period_witness:
  "timer_run 52 init_timer = (\<lparr>timer_ticks = 52, timer_tenths = 0, is_sleeping = False\<rparr>, 2)"
  using timer_period [of init_timer 2] by (simp add: init_timer_def)

text \<open>While a thread sleeps in the kernel no thread at all is scheduled.\<close>

lemma sleeping_blocks_scheduling: "is_sleeping t \<Longrightarrow> snd (timer_run n t) = 0"
proof (induction n arbitrary: t)
  case (Suc n)
  have "timer_irq t = (t\<lparr>timer_ticks := timer_ticks t + 1, timer_tenths := timer_tenths t + 1\<rparr>, False)"
    using Suc.prems by (simp add: timer_irq_def Let_def)
  then show ?case
    using Suc.IH [of "t\<lparr>timer_ticks := timer_ticks t + 1, timer_tenths := timer_tenths t + 1\<rparr>"] Suc.prems
    by (simp split: prod.splits)
qed simp

end
