(* ===== verification/Shell.thy ===== *)
theory Shell
  imports Interfaces Tokens Std_String Printf Terminal Threads "HOL-Library.AList"
begin

text \<open>
  The command line: the table of programs of \<open>kernel/ext.cpp\<close>, the line that is taken apart and run by
  \<open>parse\<close> in \<open>kernel/tty.cpp\<close>, formatted output on the terminal, the list of threads of
  \<open>kernel/bin/ps.cpp\<close>, and the variables of \<open>kernel/user/env.cpp\<close>.
\<close>

section \<open>The table of programs\<close>

text \<open>A function pointer that is null is \<^const>\<open>None\<close>.\<close>

(* src/include/kernel/ext.hpp:23-25 Library *)
type_synonym 'f library = "(sstring \<times> 'f) list"

(* src/kernel/ext.cpp:13-15 Library::add *)
definition lib_add :: "cbuf \<Rightarrow> 'f \<Rightarrow> 'f library \<Rightarrow> 'f library option" where
  "lib_add cmd ptr commands = map_option (\<lambda>name. commands @ [(name, ptr)]) (string_of_cstr cmd)"

(* src/kernel/ext.cpp:17-24 Library::present *)
fun lib_present :: "'f library \<Rightarrow> cbuf \<Rightarrow> bool option" where
  "lib_present [] cmd = Some False"
| "lib_present (it # commands) cmd = do {
     name \<leftarrow> string_copy (fst it);
     name \<leftarrow> string_to_cstr name;
     r \<leftarrow> strcmp name cmd;
     if r = 0 then Some True else lib_present commands cmd
   }"

(* src/kernel/ext.cpp:36-43 Library::get *)
fun lib_get :: "'f library \<Rightarrow> cbuf \<Rightarrow> 'f option option" where
  "lib_get [] cmd = Some None"
| "lib_get (it # commands) cmd = do {
     name \<leftarrow> string_copy (fst it);
     name \<leftarrow> string_to_cstr name;
     r \<leftarrow> strcmp name cmd;
     if r = 0 then Some (Some (snd it)) else lib_get commands cmd
   }"

datatype program = Ps | Ls | Cat

(* src/kernel/ext.cpp:45-49 load *)
definition ext_load :: "program library \<Rightarrow> program library option" where
  "ext_load lib = do {
     lib \<leftarrow> lib_add [0x70, 0x73, 0] Ps lib;
     lib \<leftarrow> lib_add [0x6C, 0x73, 0] Ls lib;
     lib_add [0x63, 0x61, 0x74, 0] Cat lib
   }"

section \<open>A line is run\<close>

(* src/kernel/tty.cpp:84-92 terminal_printf *)
definition terminal_printf :: "cbuf \<Rightarrow> arg list \<Rightarrow> int \<Rightarrow> tty \<Rightarrow> tty option" where
  "terminal_printf fmt args thread t = do {
     (temp_buffer, r) \<leftarrow> vsprintf (replicate 80 0) fmt args;
     terminal_writestring temp_buffer rgb_white thread t
   }"

(* src/kernel/tty.cpp:94-102 terminal_printf_rgba *)
definition terminal_printf_rgba :: "cbuf \<Rightarrow> rgb \<Rightarrow> arg list \<Rightarrow> int \<Rightarrow> tty \<Rightarrow> tty option" where
  "terminal_printf_rgba fmt color args thread t = do {
     (temp_buffer, r) \<leftarrow> vsprintf (replicate 80 0) fmt args;
     terminal_writestring temp_buffer color thread t
   }"

text \<open>\<open>: command not found\<close> and a line break, after the percent sign and the letter s.\<close>

definition not_found :: "u8 list" where
  "not_found = [0x3A, 0x20, 0x63, 0x6F, 0x6D, 0x6D, 0x61, 0x6E, 0x64, 0x20, 0x6E, 0x6F, 0x74, 0x20,
     0x66, 0x6F, 0x75, 0x6E, 0x64, 0x0A]"

record console =
  con_tty :: tty
  con_kernel :: kernel

text \<open>
  \<open>run\<close> is what a program does to the state; \<open>r\<close> are the bytes behind the characters of the clipped
  line on the heap, before the loop and behind the header of the block that the loop allocates there.
  Calling a null pointer is a fault.
\<close>

(* src/kernel/tty.cpp:208-231 parse *)
definition parse ::
  "('f \<Rightarrow> sstring list \<Rightarrow> console \<Rightarrow> console option) \<Rightarrow> 'f library \<Rightarrow> tok \<Rightarrow> (nat \<Rightarrow> cbuf) \<Rightarrow> int \<Rightarrow> cbuf \<Rightarrow>
    console \<Rightarrow> console option" where
  "parse run lib tk r thread buffer c = do {
     str \<leftarrow> string_of_cstr buffer;
     s \<leftarrow> string_to_cstr str;
     n \<leftarrow> strlen s;
     clipped_str \<leftarrow> substr str 0 (of_nat n - 1);
     let c = c\<lparr>con_kernel := fst (scheduler_lock (con_kernel c))\<rparr>;
     args \<leftarrow> split_pushed r tk clipped_str (cstr [0x20] []);
     t \<leftarrow> terminal_writestring (cstr [0x0A] []) rgb_white thread (con_tty c);
     let c = c\<lparr>con_tty := t\<rparr>;
     cmd \<leftarrow> arr_get args 0;
     cmd \<leftarrow> string_to_cstr cmd;
     there \<leftarrow> lib_present lib cmd;
     c \<leftarrow> (if there then do {
             f \<leftarrow> lib_get lib cmd;
             case f of None \<Rightarrow> None | Some f \<Rightarrow> run f args c
           } else map_option (\<lambda>t. c\<lparr>con_tty := t\<rparr>)
                    (terminal_printf (0x25 # 0x73 # cstr not_found []) [AStr cmd] thread (con_tty c)));
     Some (c\<lparr>con_kernel := fst (scheduler_unlock (con_kernel c))\<rparr>)
   }"

section \<open>The list of threads\<close>

text \<open>The lines: process, thread and title, for every thread until the one whose successor is the root.\<close>

(* src/kernel/bin/ps.cpp:6-10 ps_p *)
partial_function (option) ps_p :: "kernel \<Rightarrow> addr \<Rightarrow> (u32 \<times> u32 \<times> cbuf) list option" where
  "ps_p s t = do {
     x \<leftarrow> threads s t;
     if nxt x \<noteq> thread_root s then do {
       rest \<leftarrow> ps_p s (nxt x);
       Some ((proc_id x, thread_id x, title x) # rest)
     } else Some []
   }"

text \<open>The loop over the arguments: what follows \<open>-p\<close> is read, and the list is printed whatever it is.\<close>

(* src/kernel/bin/ps.cpp:16-20 ps *)
fun ps_args :: "kernel \<Rightarrow> sstring list \<Rightarrow> (u32 \<times> u32 \<times> cbuf) list option" where
  "ps_args s [] = Some []"
| "ps_args s (a # args) = do {
     ac \<leftarrow> string_to_cstr a;
     r \<leftarrow> strncmp ac (cstr [0x2D, 0x70] []) 2;
     here \<leftarrow> (if r = 0 then do {
                b \<leftarrow> arr_get args 0;
                bc \<leftarrow> string_to_cstr b;
                proc_id \<leftarrow> atoi bc;
                ps_p s (thread_root s)
              } else Some []);
     rest \<leftarrow> ps_args s args;
     Some (here @ rest)
   }"

(* src/kernel/bin/ps.cpp:13-22 ps *)
definition ps :: "kernel \<Rightarrow> sstring list \<Rightarrow> (u32 \<times> u32 \<times> cbuf) list option" where
  "ps s args = ps_args s (tl args)"

section \<open>Variables\<close>

(* src/include/kernel/user/env.hpp:8-14 pair *)
type_synonym env = "(cbuf \<times> sstring) list"

(* src/kernel/user/env.cpp:10-17 ENV::get *)
fun env_get :: "env \<Rightarrow> cbuf \<Rightarrow> sstring option" where
  "env_get [] envVar = string_of_cstr [0]"
| "env_get (it # environment) envVar = do {
     r \<leftarrow> strcmp (fst it) envVar;
     if r = 0 then string_copy (snd it) else env_get environment envVar
   }"

text \<open>The loop of \<open>set\<close>; \<^const>\<open>None\<close> inside when no key matches.\<close>

(* src/kernel/user/env.cpp:21-26 ENV::set *)
fun env_replace :: "env \<Rightarrow> sstring \<Rightarrow> sstring \<Rightarrow> env option option" where
  "env_replace [] envVar envVal = Some None"
| "env_replace (it # environment) envVar envVal = do {
     name \<leftarrow> string_to_cstr envVar;
     r \<leftarrow> strcmp (fst it) name;
     if r = 0 then map_option (\<lambda>v. Some ((fst it, v) # environment)) (string_copy envVal)
     else map_option (map_option (Cons it)) (env_replace environment envVar envVal)
   }"

text \<open>
  The end of \<open>set\<close>: a key that was not found is added. The line for the debug port before it
  (\<open>env.cpp:28\<close>) is not part of the model: it hands two objects of class \<open>std::string\<close> to the
  variable arguments of \<open>bcprintf\<close>, which reads characters for them; it changes no variable.
\<close>

(* src/kernel/user/env.cpp:30-32 ENV::set *)
definition env_add :: "sstring \<Rightarrow> sstring \<Rightarrow> env \<Rightarrow> env option" where
  "env_add envVar envVal environment = do {
     name \<leftarrow> string_to_cstr envVar;
     v \<leftarrow> string_copy envVal;
     Some (environment @ [(name, v)])
   }"

(* src/kernel/user/env.cpp:19-26 ENV::set *)
definition env_set :: "sstring \<Rightarrow> sstring \<Rightarrow> env \<Rightarrow> env option" where
  "env_set envVar envVal environment = do {
     r \<leftarrow> env_replace environment envVar envVal;
     case r of
       Some environment \<Rightarrow> Some environment
     | None \<Rightarrow> env_add envVar envVal environment
   }"

section \<open>Looking up a program\<close>

definition lib_ok :: "'f library \<Rightarrow> bool" where
  "lib_ok lib \<longleftrightarrow> (\<forall>it \<in> set lib. 0 \<notin> set (fst it))"

lemma lib_lookup:
  assumes "lib_ok lib" and "0 \<notin> set w"
  shows "lib_present lib (cstr w []) = Some (map_of lib w \<noteq> None) \<and> lib_get lib (cstr w []) = Some (map_of lib w)"
  using assms(1)
proof (induction lib)
  case (Cons it lib)
  have "0 \<notin> set (fst it)" using Cons.prems by (simp add: lib_ok_def)
  then obtain d where "strcmp (cstr (fst it) []) (cstr w []) = Some d" "d = 0 \<longleftrightarrow> fst it = w"
    using strcmp_cstr [OF _ assms(2), of "fst it" "[]" "[]"] by auto
  then show ?case using Cons by (auto simp: lib_ok_def)
qed simp

section \<open>A message in its buffer\<close>

lemma put_string_unterminated: "0 \<notin> set b \<Longrightarrow> put_string b colour t = None"
proof (induction b arbitrary: t)
  case (Cons c b)
  then show ?case by (cases "terminal_putchar c colour t") auto
qed simp

lemma writestring_unterminated: "0 \<notin> set b \<Longrightarrow> terminal_writestring b colour thread t = None"
  by (simp add: terminal_writestring_def put_string_unterminated split: bind_splits)

lemma not_found_text: "length not_found = 20" "\<forall>c \<in> set not_found. c \<noteq> 0 \<and> c \<noteq> 0x25"
  by (simp_all add: not_found_def)

lemma not_found_fits:
  assumes "0 \<notin> set w" and "length w \<le> 59"
  shows "vsprintf (replicate 80 0) (0x25 # 0x73 # cstr not_found []) [AStr (cstr w [])] =
    Some (cstr (w @ not_found) (replicate (59 - length w) 0), int (length w + 20))"
proof -
  have "takeWhile (\<lambda>c. c \<noteq> 0) (cstr w []) = w" "0 \<in> set (cstr w [])"
    using assms(1) by (simp_all add: cstr_def takeWhile_append)
  moreover have "render (not_found @ [0]) [] e = Some (not_found, False)" for e
    using render_plain [OF not_found_text(2), of "[0]" "[]" e] by (simp add: not_found_def)
  ultimately have "render (0x25 # 0x73 # cstr not_found []) [AStr (cstr w [])] False = Some (w @ not_found, False)"
    by (simp add: cstr_def [of not_found])
  then show ?thesis
    using vsprintf_renders [of _ _ "w @ not_found" False 80] assms(2) not_found_text(1)
    by (simp add: cstr_def blot_def)
qed

lemma not_found_over:
  assumes w: "0 \<notin> set w" and n: "60 \<le> length w"
  shows "terminal_printf (0x25 # 0x73 # cstr not_found []) [AStr (cstr w [])] thread t = None"
proof -
  let ?f = "cstr not_found []" and ?b = "0x25 # replicate 79 0 :: u8 list"
  have zero: "vsprintf (replicate 80 0) (0x25 # 0x73 # ?f) [AStr (cstr w [])] =
      vs_loop (0x25 # 0x73 # ?f) [AStr (cstr w [])] ([] @ 0 # replicate 79 0) (length ([] :: u8 list))"
    using zero_out_zeros [of 80] by (simp add: vsprintf_def flip: replicate_Suc)
  show ?thesis
  proof (cases "length w \<le> 80")
    case True
    have sw: "show_arg 0x73 (AStr (cstr w [])) = Some w"
      using w by (simp add: cstr_def takeWhile_append)
    define z where "z = drop (length w) ?b"
    have "w \<noteq> []" using n by auto
    then have z: "z = replicate (80 - length w) 0" "length z = 80 - length w"
      using n True by (auto simp: z_def drop_Cons')
    have "vs_step (0x25 # 0x73 # ?f) [AStr (cstr w [])] ([] @ 0 # replicate 79 0) (length ([] :: u8 list)) =
        Some (w @ z, Some (?f, [], length w))"
      using conv_round [OF _ sw, of 79 ?f "[]" "[]" 0] True by (simp add: z_def)
    then have run: "vsprintf (replicate 80 0) (0x25 # 0x73 # ?f) [AStr (cstr w [])] = vs_loop ?f [] (w @ z) (length w)"
      unfolding zero by (subst vs_loop.simps) simp
    define nf where "nf = tl not_found"
    have nf: "not_found = 0x3A # nf" "length nf = 19" "\<forall>c \<in> set nf. c \<noteq> 0 \<and> c \<noteq> 0x25"
      by (simp_all add: nf_def not_found_def)
    have f: "?f = 0x3A # nf @ [0]" by (simp add: cstr_def nf(1))
    have step: "vs_step ?f [] (w @ z) (length w) = do {
        (rest, buffer, i) \<leftarrow> copy_plain (nf @ [0]) ((w @ [0x3A]) @ tl z) (length (w @ [0x3A]));
        if 2 ^ 31 - 1 < i then Some (buffer, None) else Some (buffer, Some (rest, [], i)) }" if "z \<noteq> []"
      using arr_set_append [OF that, of w "0x3A"] by (simp add: vs_step_def f)
    show ?thesis
    proof (cases "length w = 60")
      case True
      have "vs_step ?f [] (w @ z) (length w) = Some (w @ not_found, Some ([0], [], 80))"
        using step z(2) True nf copy_plain_run [OF nf(3), of 0 "tl z" "[]" "w @ [0x3A]"] by (cases z) auto
      moreover have "vs_loop [0] [] b m = Some (b, int m)" for b m by (subst vs_loop.simps) simp
      ultimately have "vs_loop ?f [] (w @ z) (length w) = Some (w @ not_found, 80)"
        by (subst vs_loop.simps) (simp add: f)
      then show ?thesis
        using w not_found_text(2) writestring_unterminated [of "w @ not_found"]
        by (auto simp: terminal_printf_def run)
    next
      case False
      have "vs_step ?f [] (w @ z) (length w) = None"
      proof (cases "z = []")
        case True
        then show ?thesis by (simp add: vs_step_def f arr_set_def)
      next
        case behind: False
        then have "length (tl z) < length nf" using z(2) nf(2) n False by simp
        from copy_plain_over [OF nf(3) this, of "[0]" "w @ [0x3A]"] show ?thesis unfolding step [OF behind] by simp
      qed
      then have "vs_loop ?f [] (w @ z) (length w) = None"
        by (subst vs_loop.simps) (simp add: f)
      then show ?thesis by (simp add: terminal_printf_def run)
    qed
  next
    case False
    have "copy_str (cstr w []) ?b 0 = None"
      using copy_str_over [OF w, of ?b "[0]" "[]"] False by (simp add: cstr_def)
    then have "vs_step (0x25 # 0x73 # ?f) [AStr (cstr w [])] (0 # replicate 79 0) 0 = None"
      by (simp add: vs_step_def vs_conv_def arr_set_def)
    then show ?thesis unfolding terminal_printf_def zero by (subst vs_loop.simps) simp
  qed
qed

lemma not_found_message:
  assumes "0 \<notin> set w"
  shows "terminal_printf (0x25 # 0x73 # cstr not_found []) [AStr (cstr w [])] thread t =
    (if length w \<le> 59 then terminal_writestring (cstr (w @ not_found) (replicate (59 - length w) 0)) rgb_white thread t
     else None)"
  using not_found_fits [OF assms] not_found_over [OF assms] by (simp add: terminal_printf_def)

section \<open>Running a line\<close>

lemma words_hd: "0 \<notin> set s \<Longrightarrow> \<exists>w ws. words D s = w # ws \<and> 0 \<notin> set w"
  by (subst words.simps) (auto dest: set_takeWhileD)

lemma clip_line:
  assumes "length s + 1 < 2 ^ 31" and "0 \<notin> set s"
  shows "substr (s @ [e]) 0 (of_nat (length (s @ [e])) - 1) = Some s"
proof -
  have c: "(of_nat (length (s @ [e])) - 1 :: u32) = of_nat (length s)" by simp
  have u: "unat (of_nat (length s) :: u32) = length s" using assms(1) by (simp add: unat_of_nat)
  have "unat npos = 2 ^ 32 - 1" by (simp add: npos_def unsigned_minus_1_eq_mask mask_eq_exp_minus_1)
  then have "(of_nat (length s) :: u32) \<noteq> npos" using u assms(1) by fastforce
  then show ?thesis
    using substr_value [of "s @ [e]" "of_nat (length s)" 0] assms u unfolding c by (simp add: takeWhile_eq_all_conv)
      (metis takeWhile_eq_all_conv)
qed

text \<open>The last character of the line is dropped, whatever it is.\<close>

lemma parse_line:
  assumes lib: "lib_ok lib" and e: "e \<noteq> 0" and s: "s \<noteq> []" "0 \<notin> set s" "length s < 2 ^ 22" and r: "r 0 = 0 # behind"
    and w: "words [0x20] s = w # ws"
  shows "parse run lib tk r thread (cstr (s @ [e]) q) c =
    (let c = c\<lparr>con_kernel := fst (scheduler_lock (con_kernel c))\<rparr> in do {
       t \<leftarrow> terminal_writestring (cstr [10] []) rgb_white thread (con_tty c);
       let c = c\<lparr>con_tty := t\<rparr>;
       c \<leftarrow> (case map_of lib w of
               Some f \<Rightarrow> run f (pushed_words [0x20] s) c
             | None \<Rightarrow> if length w \<le> 59
                 then map_option (\<lambda>t. c\<lparr>con_tty := t\<rparr>)
                   (terminal_writestring (cstr (w @ not_found) (replicate (59 - length w) 0)) rgb_white thread (con_tty c))
                 else None);
       Some (c\<lparr>con_kernel := fst (scheduler_unlock (con_kernel c))\<rparr>)
     })"
proof -
  have nz: "0 \<notin> set (s @ [e])" "0 \<notin> set [0x20 :: u8]" using s(2) e by simp_all
  have len: "length s + 1 < 2 ^ 31" using s(3) by simp
  have w0: "0 \<notin> set w" using words_hd [OF s(2), of "[0x20]"] w by auto
  obtain us where us: "pushed_words [0x20] s = w # us" using pushed_words_hd [of "[0x20]" s] w by auto
  have sp: "split_pushed r tk s (cstr [0x20] []) = Some (w # us)"
    using split_pushed_words [where r = r and behind = behind, OF s nz(2) r] us by simp
  note lk = conjunct1 [OF lib_lookup [OF lib w0]] conjunct2 [OF lib_lookup [OF lib w0]]
  show ?thesis
    unfolding parse_def Let_def us
    by (simp only: string_of_cstr_eq [OF nz(1)] string_to_cstr_eq strlen_cstr [OF nz(1)] clip_line [OF len s(2)] sp
        Option.bind.bind_lunit arr_get_Some [of 0 "w # us", simplified] lk)
      (cases "map_of lib w"; cases "length w \<le> 59"; simp add: lk not_found_message [OF w0])
qed

lemma pushed_args:
  assumes "words [0x20] s = w # ws" and "s \<noteq> []"
  shows "pushed_words [0x20] s = (if ws = [] \<or> List.last s = 0x20 then w # ws
    else w # butlast ws @ [List.last ws @ header_tail [0x20] (length w)])"
  using assms by (simp add: pushed_words_def words_behind_def)

text \<open>
  Property C31: A line that ends in a line break and is not empty is run by its first word: the program of that name that
  was added first, with the words of the line as arguments, of which the last one, when there are several
  and the line does not end with a space, is followed by the first bytes of the heap block that the loop
  over the words allocates behind the line; and when there is no such program, the message with the word,
  which overruns its buffer when the word has 60 characters or more. The scheduler is locked before and
  unlocked after. The line is shorter than 4 MB, and the heap behind it is fresh when the loop starts.
\<close>

theorem parse_dispatch:
  assumes lib: "lib_ok lib" and s: "s \<noteq> []" "0 \<notin> set s" "length s < 2 ^ 22" and r: "r 0 = 0 # behind"
    and w: "words [0x20] s = w # ws"
  shows "parse run lib tk r thread (cstr (s @ [10]) q) c =
    (let c = c\<lparr>con_kernel := fst (scheduler_lock (con_kernel c))\<rparr> in do {
       t \<leftarrow> terminal_writestring (cstr [10] []) rgb_white thread (con_tty c);
       let c = c\<lparr>con_tty := t\<rparr>;
       c \<leftarrow> (case map_of lib w of
               Some f \<Rightarrow> run f (if ws = [] \<or> List.last s = 0x20 then w # ws
                             else w # butlast ws @ [List.last ws @ header_tail [0x20] (length w)]) c
             | None \<Rightarrow> if length w \<le> 59
                 then map_option (\<lambda>t. c\<lparr>con_tty := t\<rparr>)
                   (terminal_writestring (cstr (w @ not_found) (replicate (59 - length w) 0)) rgb_white thread (con_tty c))
                 else None);
       Some (c\<lparr>con_kernel := fst (scheduler_unlock (con_kernel c))\<rparr>)
     })"
  unfolding pushed_args [OF w s(1), symmetric]
  by (rule parse_line [where e = 10 and r = r and behind = behind, OF lib _ s r w]) simp

lemma ls_words: "words [0x20] [0x6C, 0x73, 0x20, 0x2F] = [[0x6C, 0x73], [0x2F]]"
  by (subst words.simps, simp, subst words.simps, simp)

lemma header_tail_two: "header_tail [0x20] 2 = [0x1D]"
  by (simp add: header_tail_def header_bytes_def Let_def)

theorem parse_dispatch_witness:
  "\<forall>run c. parse run [([0x6C, 0x73], Ls)] \<lparr>tok_str = [], tok_nxt = 0, tok_size = 0\<rparr> (\<lambda>k. [0]) 1
      (cstr [0x6C, 0x73, 0x20, 0x2F, 10] []) c =
    (let c = c\<lparr>con_kernel := fst (scheduler_lock (con_kernel c))\<rparr> in do {
       t \<leftarrow> terminal_writestring (cstr [10] []) rgb_white 1 (con_tty c);
       c \<leftarrow> run Ls [[0x6C, 0x73], [0x2F, 0x1D]] (c\<lparr>con_tty := t\<rparr>);
       Some (c\<lparr>con_kernel := fst (scheduler_unlock (con_kernel c))\<rparr>)
     })"
proof -
  have "lib_ok [([0x6C, 0x73], Ls)]" by (simp add: lib_ok_def)
  from parse_dispatch [where r = "\<lambda>k. [0]" and behind = "[]", OF this _ _ _ _ ls_words] show ?thesis
    by (simp add: header_tail_two [unfolded numeral_2_eq_2])
qed

text \<open>The table after \<open>load\<close>, and the lookups in it.\<close>

lemma ext_load_lookup:
  "\<exists>lib. ext_load [] = Some lib \<and> lib_ok lib \<and> map_of lib [0x70, 0x73] = Some Ps \<and> map_of lib [0x6C, 0x73] = Some Ls
    \<and> map_of lib [0x63, 0x61, 0x74] = Some Cat"
  using string_of_cstr_eq [of "[0x70, 0x73]" "[]"] string_of_cstr_eq [of "[0x6C, 0x73]" "[]"]
    string_of_cstr_eq [of "[0x63, 0x61, 0x74]" "[]"]
  by (simp add: ext_load_def lib_add_def cstr_def lib_ok_def)

section \<open>Threads\<close>

text \<open>
  On a ring of threads the list ends, and shows every thread but the last: it stops at the thread whose
  successor is the root before that thread is printed. With a single thread it shows nothing.
\<close>

theorem ps_skips_last:
  assumes ring: "threads_ok s ts" and ne: "ts \<noteq> []"
  shows "\<exists>rows. ps_p s (thread_root s) = Some rows
    \<and> map Some rows = map (\<lambda>t. map_option (\<lambda>x. (proc_id x, thread_id x, title x)) (threads s t)) (butlast ts)"
proof -
  let ?n = "length ts" and ?row = "\<lambda>t. map_option (\<lambda>x. (proc_id x, thread_id x, title x)) (threads s t)"
  have props: "distinct ts" "thread_root s = ts ! 0" "ring_of (nexts s) (prevs s) ts"
    using ring ne by (auto simp: threads_ok_def hd_conv_nth)
  have "\<exists>rows. ps_p s (ts ! i) = Some rows \<and> map Some rows = map ?row (drop i (butlast ts))" if "i < ?n" for i
    using that
  proof (induction "?n - i" arbitrary: i)
    case (Suc m)
    have "nexts s (ts ! i) = Some (ts ! (Suc i mod ?n))" using props(3) Suc.prems by (simp add: ring_of_def)
    then obtain x where x: "threads s (ts ! i) = Some x" "nxt x = ts ! (Suc i mod ?n)" by (auto simp: nexts_def)
    show ?case
    proof (cases "Suc i < ?n")
      case True
      have nx: "nxt x = ts ! Suc i" using x(2) True by simp
      have "0 < ?n" using ne by simp
      then have "ts ! Suc i \<noteq> ts ! 0" using nth_eq_iff_index_eq [OF props(1) True] by blast
      then have step: "ps_p s (ts ! i) =
          map_option (Cons (proc_id x, thread_id x, title x)) (ps_p s (ts ! Suc i))"
        unfolding ps_p.simps [of s "ts ! i"] x(1) props(2) by (cases "ps_p s (ts ! Suc i)") (simp_all add: nx)
      have "m = ?n - Suc i" using Suc.hyps(2) by simp
      from Suc.hyps(1) [OF this True] obtain rows where rows: "ps_p s (ts ! Suc i) = Some rows"
        "map Some rows = map ?row (drop (Suc i) (butlast ts))" by blast
      have "drop i (butlast ts) = ts ! i # drop (Suc i) (butlast ts)"
        using True by (simp add: Cons_nth_drop_Suc [symmetric] nth_butlast)
      then show ?thesis using rows(2) unfolding step rows(1) by (simp add: x(1))
    next
      case False
      then have "Suc i = ?n" using Suc.prems by simp
      then have "nxt x = thread_root s" using x(2) props(2) by simp
      then show ?thesis using \<open>Suc i = ?n\<close> unfolding ps_p.simps [of s "ts ! i"] x(1) by simp
    qed
  qed simp
  from this [of 0] show ?thesis using ne props(2) by simp
qed

theorem ps_skips_last_witness:
  "\<exists>rows. ps_p two_threads (thread_root two_threads) = Some rows \<and> length rows = 1"
proof -
  have ring: "threads_ok two_threads [0x1000, 0x2000]"
    by (simp add: two_threads_def threads_ok_def ring_of_def nexts_def prevs_def less_Suc_eq)
  from ps_skips_last [OF this] obtain rows where rows: "ps_p two_threads (thread_root two_threads) = Some rows"
    "map Some rows = map (\<lambda>t. map_option (\<lambda>x. (proc_id x, thread_id x, title x)) (threads two_threads t)) [0x1000]"
    by auto
  have "length rows = 1" using arg_cong [OF rows(2), of length] by simp
  then show ?thesis using rows(1) by blast
qed

section \<open>Variables are a dictionary\<close>

text \<open>The keys are C strings.\<close>

definition env_ok :: "env \<Rightarrow> bool" where
  "env_ok e \<longleftrightarrow> (\<forall>it \<in> set e. \<exists>k. fst it = cstr k [] \<and> 0 \<notin> set k)"

definition env_lookup :: "env \<Rightarrow> u8 list \<Rightarrow> u8 list" where
  "env_lookup e k = (case map_of e (cstr k []) of None \<Rightarrow> [] | Some v \<Rightarrow> v)"

lemma cstr_inject [simp]: "cstr s [] = cstr t [] \<longleftrightarrow> s = t"
  by (simp add: cstr_def)

lemma env_get_lookup:
  assumes "env_ok e" and "0 \<notin> set k"
  shows "env_get e (cstr k []) = Some (env_lookup e k)"
  using assms(1)
proof (induction e)
  case Nil
  show ?case using string_of_cstr_eq [of "[]" "[]"] by (simp add: env_lookup_def)
next
  case (Cons it e)
  then obtain j where j: "fst it = cstr j []" "0 \<notin> set j" by (auto simp: env_ok_def)
  then obtain d where "strcmp (fst it) (cstr k []) = Some d" "d = 0 \<longleftrightarrow> j = k"
    using strcmp_cstr [OF j(2) assms(2), of "[]" "[]"] by auto
  then show ?case using Cons j(1) by (cases it) (auto simp: env_ok_def env_lookup_def)
qed

lemma env_set_update:
  assumes ok: "env_ok e" and k: "0 \<notin> set k"
  shows "\<exists>e'. env_set k v e = Some e' \<and> env_ok e' \<and> env_lookup e' k = v
    \<and> (\<forall>j. 0 \<notin> set j \<and> j \<noteq> k \<longrightarrow> env_lookup e' j = env_lookup e j)"
proof -
  have rep: "env_replace e k v = Some (if cstr k [] \<in> fst ` set e then Some (AList.update (cstr k []) v e) else None)"
    using ok
  proof (induction e)
    case (Cons it e)
    then obtain j where j: "fst it = cstr j []" "0 \<notin> set j" by (auto simp: env_ok_def)
    then obtain d where "strcmp (fst it) (cstr k []) = Some d" "d = 0 \<longleftrightarrow> j = k"
      using strcmp_cstr [OF j(2) k, of "[]" "[]"] by auto
    then show ?case using Cons j(1) by (cases it) (auto simp: env_ok_def)
  qed simp
  have set: "env_set k v e = Some (AList.update (cstr k []) v e)"
  proof -
    have "cstr k [] \<notin> fst ` set e \<Longrightarrow> AList.update (cstr k []) v e = e @ [(cstr k [], v)]"
      by (induction e) auto
    then show ?thesis by (simp add: env_set_def env_add_def rep)
  qed
  have "env_ok (AList.update (cstr k []) v e)"
    using ok k by (induction e) (auto simp: env_ok_def)
  then show ?thesis using set by (auto simp: env_lookup_def AList.update_conv)
qed

interpretation env: dictionary env_lookup env_set env_ok "\<lambda>k. 0 \<notin> set k"
  using env_set_update by unfold_locales blast

text \<open>
  Property C37: After any sequence of \<open>set\<close> calls \<open>get\<close> returns the value that was set last under its key, and the empty
  string when there was none.
\<close>

theorem env_last_set:
  assumes "\<forall>kv \<in> set kvs. 0 \<notin> set (fst kv)" and "0 \<notin> set k"
  shows "\<exists>e. env.put_all kvs [] = Some e \<and>
    env_get e (cstr k []) = Some (case map_of (rev kvs) k of None \<Rightarrow> [] | Some v \<Rightarrow> v)"
proof -
  have "env_ok []" by (simp add: env_ok_def)
  from env.put_all_get [OF this assms(1)] obtain e where e: "env.put_all kvs [] = Some e" "env_ok e"
    "env_lookup e k = (case map_of (rev kvs) k of None \<Rightarrow> env_lookup [] k | Some v \<Rightarrow> v)"
    using assms(2) by blast
  have "env_lookup [] k = []" by (simp add: env_lookup_def)
  then show ?thesis using e env_get_lookup [OF e(2) assms(2)] by (simp cong: option.case_cong)
qed

theorem env_last_set_witness:
  "\<exists>e. env.put_all [([0x63, 0x64], [0x2F]), ([0x75], [0x61]), ([0x63, 0x64], [0x2F, 0x62])] [] = Some e
    \<and> env_get e (cstr [0x63, 0x64] []) = Some [0x2F, 0x62]"
  using env_last_set [of "[([0x63, 0x64], [0x2F]), ([0x75], [0x61]), ([0x63, 0x64], [0x2F, 0x62])]" "[0x63, 0x64]"]
  by simp

end
