(* ===== verification/Console_Input.thy ===== *)
theory Console_Input
  imports Keyboard Shell
begin

text \<open>
  The way of a key from its interrupt to the command line, through three threads that run in any
  order: the keyboard thread of \<open>kernel/drivers/keyboard.cpp\<close> reads the ring buffer that the interrupt
  fills and sends to port 1, the forwarding thread of \<open>kernel/proc/message.cpp\<close> sends on to port 2, and
  the terminal thread of \<open>kernel/tty.cpp\<close> collects the line and runs it. A sequence of events is an
  interleaving; each event is one round of the loop of one of the threads, or one interrupt. The timer
  can also switch threads inside a round; such a sequence is not among the interleavings here, where a
  round is one step.
\<close>

section \<open>The threads\<close>

text \<open>
  The state of the keyboard thread between two rounds of the loop of \<open>getc\<close>: the index its caller stores
  the next character at, and how often it was woken up with nothing to read since it was called.
\<close>

record kb_thread =
  kb_index :: nat
  kb_loops :: nat

text \<open>
  One wake-up: \<open>getc\<close> goes round its loop, and when it has a character its caller goes round too. After
  1024 rounds without a character \<open>getc\<close> ends without a value.
\<close>

(* src/kernel/drivers/keyboard.cpp:102-117 kb_update *)
definition kb_wake :: "int \<Rightarrow> kb_thread \<Rightarrow> ring \<Rightarrow> postbox \<Rightarrow> (kb_thread \<times> ring \<times> postbox) option" where
  "kb_wake self k b ports = do {
     (b, r) \<leftarrow> buffer_read b;
     let c = (word_of_int r :: u8);
     if sint c = -1 then
       (if kb_loops k + 1 < 1024 then Some (k\<lparr>kb_loops := kb_loops k + 1\<rparr>, b, ports) else None)
     else do {
       (ports, ok) \<leftarrow> send_message ports 1 self c;
       (b, i) \<leftarrow> kb_round (kb_index k) c b;
       let i = (case i of None \<Rightarrow> 0 | Some i \<Rightarrow> if i < 1024 then i else 0);
       Some (\<lparr>kb_index = i, kb_loops = 0\<rparr>, b, ports)
     }
   }"

text \<open>One message of the keyboard port, as the terminal thread takes it; the flag says whether there was one.\<close>

(* src/kernel/tty.cpp:178-184 tty_update *)
definition poll_key :: "line \<Rightarrow> tty \<Rightarrow> (line \<times> tty \<times> bool) option" where
  "poll_key l t = do {
     (ports, msg) \<leftarrow> mq_pop (tty_ports t) 2;
     let t = t\<lparr>tty_ports := ports\<rparr>;
     if message_neq msg kMessageNull then do {
       b \<leftarrow> arr_set (tty_buffer l) (tty_idx l) (msg_data msg);
       t \<leftarrow> (if msg_data msg \<noteq> 10 then terminal_putchar (msg_data msg) rgb_white t else Some t);
       Some (\<lparr>tty_buffer = b, tty_idx = tty_idx l + 1\<rparr>, t, True)
     } else Some (l, t, False)
   }"






text \<open>A round of the keyboard thread is the call of \<open>getc\<close> and what its caller does with the result.\<close>

lemma kb_wake_getc:
  assumes "getc [] b ports self = Some (c, irqs, b', ports')"
  shows "kb_wake self k b ports = do {
    (b, i) \<leftarrow> kb_round (kb_index k) c b';
    Some (\<lparr>kb_index = (case i of None \<Rightarrow> 0 | Some i \<Rightarrow> if i < 1024 then i else 0), kb_loops = 0\<rparr>, b, ports') }"
proof -
  have "getc_loop (Suc 1023) [] b ports self = Some (c, irqs, b', ports')" using assms by (simp add: getc_def)
  then show ?thesis
    unfolding getc_loop.simps kb_wake_def Let_def by (auto split: Option.bind_splits if_splits)
qed

text \<open>The loop over the keyboard port takes one message after the other.\<close>

lemma poll_keys_step:
  "poll_keys l t = do { (l, t, more) \<leftarrow> poll_key l t; if more then poll_keys l t else Some (l, t) }"
  by (subst poll_keys.simps) (auto simp: poll_key_def Let_def split: Option.bind_split prod.split)

section \<open>Starting up, and the prompt\<close>

text \<open>
  The forwarding thread and the terminal thread open their ports under the messaging lock, which is an
  argument; \<open>tty_start\<close> returns it with the terminal.
\<close>

(* src/kernel/proc/message.cpp:105-111 postbox_debug *)
definition postbox_start :: "int \<Rightarrow> mutex \<Rightarrow> postbox \<Rightarrow> (postbox \<times> mutex) option" where
  "postbox_start self lock ports = do {
     lock \<leftarrow> spin_lock lock self;
     ports \<leftarrow> listen ports 1;
     Some (ports, spin_unlock lock self)
   }"

text \<open>The greeting of the kernel, and the line break behind it.\<close>

definition greeting :: "u8 list" where
  "greeting = [0x5B, 0x49, 0x4E, 0x46, 0x4F, 0x5D, 0x20, 0x57, 0x65, 0x6C, 0x63, 0x6F, 0x6D, 0x65, 0x20,
     0x74, 0x6F, 0x20, 0x6D, 0x75, 0x4B, 0x21, 0x0A]"

(* src/kernel/tty.cpp:146-158 tty_update *)
definition tty_start :: "int \<Rightarrow> mutex \<Rightarrow> tty \<Rightarrow> (tty \<times> mutex) option" where
  "tty_start self lock t = do {
     lock \<leftarrow> spin_lock lock self;
     ports \<leftarrow> listen (tty_ports t) 2;
     ports \<leftarrow> listen ports 3;
     t \<leftarrow> terminal_writestring (cstr greeting []) rgb_white self (t\<lparr>tty_ports := ports\<rparr>);
     Some (t, spin_unlock lock self)
   }"

fun write_all :: "(u8 list \<times> u32) list \<Rightarrow> int \<Rightarrow> tty \<Rightarrow> tty option" where
  "write_all [] self t = Some t"
| "write_all ((s, colour) # ss) self t =
     Option.bind (terminal_writestring (cstr s []) (rgb_of_hex colour) self t) (write_all ss self)"

(* src/kernel/tty.cpp:165-174 tty_update *)
definition tty_prompt :: "int \<Rightarrow> tty \<Rightarrow> tty option" where
  "tty_prompt = write_all
     [([0x5B], 0xe4e4c8),
      ([0x6A, 0x61, 0x6D, 0x65, 0x73], 0xff6064),
      ([0x40], 0xff6064),
      ([0x6C, 0x6F, 0x63, 0x61, 0x6C, 0x68, 0x6F, 0x73, 0x74, 0x20], 0xff6064),
      ([0x30, 0x3A], 0x288acc),
      ([0x2F], 0x288acc),
      ([0x5D, 0x20], 0xe4e4c8)]"

text \<open>What follows a complete line; the loop then starts over with an empty buffer and the prompt.\<close>

(* src/kernel/tty.cpp:200-202 tty_update *)
definition tty_run_line ::
  "('f \<Rightarrow> sstring list \<Rightarrow> console \<Rightarrow> console option) \<Rightarrow> 'f library \<Rightarrow> tok \<Rightarrow> (nat \<Rightarrow> cbuf) \<Rightarrow> int \<Rightarrow> line \<Rightarrow>
    console \<Rightarrow> console option" where
  "tty_run_line run lib tk r thread l c = do {
     c \<leftarrow> parse run lib tk r thread (tty_buffer l) c;
     t \<leftarrow> terminal_writestring (cstr [0x0A] []) rgb_white thread (con_tty c);
     Some (c\<lparr>con_tty := t\<rparr>)
   }"

section \<open>Where every character is\<close>


text \<open>Keys that are mapped to 0 (shift, control and others) send a message that the forwarding thread drops.\<close>

definition struck :: "u8 list \<Rightarrow> u8 list" where
  "struck cs = filter (\<lambda>c. c \<noteq> 0) cs"

lemma struck_simps [simp]: "struck [] = []" "struck (c # cs) = (if c = 0 then struck cs else c # struck cs)"
  "struck (cs @ ds) = struck cs @ struck ds"
  by (simp_all add: struck_def)










section \<open>The rounds of the threads\<close>











section \<open>Any interleaving\<close>






section \<open>Delivery\<close>



















section \<open>Typing ahead\<close>





section \<open>The prompt\<close>

text \<open>Written inside the grid, the prompt stays inside it.\<close>

lemma write_all_plain:
  assumes "tty_ok t" and "in_grid t" and "interlock (print_mutex t) = 0" and "\<forall>(s, colour) \<in> set ss. \<forall>c \<in> set s. plain c"
  shows "\<exists>t'. write_all ss self t = Some t' \<and> tty_ok t' \<and> in_grid t' \<and> interlock (print_mutex t') = 0
    \<and> tty_ports t' = tty_ports t"
  using assms
proof (induction ss arbitrary: t)
  case (Cons x ss)
  obtain s colour where x: "x = (s, colour)" by (cases x)
  have "\<forall>c \<in> set s. plain c" using Cons.prems(4) x by simp
  from writestring_plain [OF Cons.prems(1-3) this, of "[]" "rgb_of_hex colour" self] obtain t1 where
    t1: "terminal_writestring (cstr s []) (rgb_of_hex colour) self t = Some t1" "tty_ok t1" "in_grid t1"
    "interlock (print_mutex t1) = 0" "tty_ports t1 = tty_ports t" by blast
  from Cons.IH [OF t1(2-4)] Cons.prems(4) show ?case using t1(1,5) by (simp add: x)
qed simp

lemma tty_prompt_in_grid:
  assumes "tty_ok t" and "in_grid t" and "interlock (print_mutex t) = 0"
  shows "\<exists>t'. tty_prompt self t = Some t' \<and> tty_ok t' \<and> in_grid t' \<and> interlock (print_mutex t') = 0
    \<and> tty_ports t' = tty_ports t"
  unfolding tty_prompt_def by (rule write_all_plain [OF assms]) (simp add: plain_def)

text \<open>The ports that are opened are empty, in whichever order the two threads start.\<close>

lemma startup_ports:
  "\<exists>ports. Option.bind (Option.bind (listen [] 1) (\<lambda>p. listen p 2)) (\<lambda>p. listen p 3) = Some ports
    \<and> queue_at ports 1 = Some new_msg_list \<and> queue_at ports 2 = Some new_msg_list"
  "\<exists>ports. Option.bind (Option.bind (listen [] 2) (\<lambda>p. listen p 3)) (\<lambda>p. listen p 1) = Some ports
    \<and> queue_at ports 1 = Some new_msg_list \<and> queue_at ports 2 = Some new_msg_list"
  by (simp_all add: listen_def search_def find_if.simps queue_at_def)

end
