(* ===== verification/Display_Setup.thy ===== *)
theory Display_Setup
  imports Kernel_Heap Gfx
begin

text \<open>
  How the display comes to its memory: \<open>Setup\<close> of \<open>kernel/gfx/buffer.cpp\<close> maps the frame buffer of the
  boot loader at \<open>0xD0000000\<close>, page by page, and takes the back buffer and the dirty buffer from the
  heap. The region of the frame buffer is the 256 MiB below the heap.
\<close>

section \<open>The operation\<close>

(* src/kernel/gfx/buffer.cpp:57-59 Graphics::Setup *)
partial_function (option) map_frame_pages :: "addr \<Rightarrow> addr \<Rightarrow> u32 \<Rightarrow> u32 \<Rightarrow> vm \<Rightarrow> vm option" where
  "map_frame_pages fb_addr_base fb_phys_loc fb_size pg_num v =
     (if pg_num * kPageSize < fb_size then do {
        v \<leftarrow> map_page v (fb_addr_base + pg_num * kPageSize) (fb_phys_loc + pg_num * kPageSize);
        map_frame_pages fb_addr_base fb_phys_loc fb_size (pg_num + 1) v
      } else Some v)"

text \<open>The global variables of the file, with the addresses of the buffers.\<close>

(* src/kernel/gfx/buffer.cpp:8-15 Graphics *)
record display =
  d_width :: u32
  d_height :: u32
  d_depth :: u32
  d_pitch :: u32
  d_front :: addr
  d_back :: addr
  d_dirty :: addr

text \<open>The arguments are the fields of the boot information, the address cut to 32 bits.\<close>

(* src/kernel/gfx/buffer.cpp:44-66 Graphics::Setup *)
definition graphics_setup :: "u64 \<Rightarrow> u32 \<Rightarrow> u32 \<Rightarrow> u8 \<Rightarrow> u32 \<Rightarrow> heap \<Rightarrow> (heap \<times> display) option" where
  "graphics_setup framebuffer_addr width height bpp pitch s =
     (let fb_addr_base = 0xD0000000;
          fb_phys_loc = (ucast framebuffer_addr :: addr);
          fb_size = height * pitch
      in do {
        v \<leftarrow> map_frame_pages fb_addr_base fb_phys_loc fb_size 0 (hvm s);
        (s, back_addr) \<leftarrow> vmalloc (s\<lparr>hvm := v\<rparr>) (height * pitch);
        (s, dirty) \<leftarrow> vmalloc s (1 * height);
        s \<leftarrow> hmemset s dirty (1 * height);
        Some (s, \<lparr>d_width = width, d_height = height, d_depth = ucast bpp, d_pitch = pitch,
          d_front = fb_addr_base, d_back = back_addr, d_dirty = dirty\<rparr>)
      })"

section \<open>Mapping the frame buffer\<close>

text \<open>The \<open>n\<close> pages of the frame buffer.\<close>

definition fb_region :: "nat \<Rightarrow> addr \<Rightarrow> bool" where
  "fb_region n a \<longleftrightarrow> 0xD0000000 \<le> a \<and> a < 0xE0000000 \<and> unat a div 4096 < 851968 + n"

definition fb_frame :: "addr \<Rightarrow> addr \<Rightarrow> addr" where
  "fb_frame phys a = phys + (page_base a - 0xD0000000)"

definition fb_present :: "addr \<Rightarrow> vm \<Rightarrow> addr \<Rightarrow> bool" where
  "fb_present phys v a \<longleftrightarrow> mmu_translate v (page_base a) = Some (fb_frame phys a)"

text \<open>Nothing but the frame buffer is mapped in its region, and it does not lie at address 0.\<close>

definition fb_ready :: "nat \<Rightarrow> addr \<Rightarrow> vm \<Rightarrow> bool" where
  "fb_ready n phys v \<longleftrightarrow> vm_ready v \<and> aligned phys \<and> 0 < phys \<and> unat phys + n * 4096 \<le> 2 ^ 32
     \<and> (\<forall>i. 832 \<le> i \<and> i < 896 \<longrightarrow> \<not> is_present (pde_at v i) \<or> is_table (pde_at v i))
     \<and> (\<forall>a. fb_region n a \<and> is_mapped v a \<longrightarrow> fb_present phys v a)"

definition same_behind_frame :: "nat \<Rightarrow> vm \<Rightarrow> vm \<Rightarrow> bool" where
  "same_behind_frame n v v' \<longleftrightarrow>
     (\<forall>a. \<not> fb_region n a \<and> drop_bit 22 a \<noteq> 1023 \<longrightarrow> mmu_translate v' a = mmu_translate v a)
     \<and> free_frames (phys_manager v') \<subseteq> free_frames (phys_manager v)"

lemma fb_region_index: "fb_region n a \<Longrightarrow> 832 \<le> drop_bit 22 a \<and> drop_bit 22 a < 896"
  by (simp add: fb_region_def word_less_nat_alt word_le_nat_alt unat_drop_bit)
    (simp add: less_mult_imp_div_less div_le_mono [of 3489660928 _ 4194304, simplified])

lemma fb_region_page: "page_base a = page_base b \<Longrightarrow> fb_region n a = fb_region n b"
proof -
  assume "page_base a = page_base b"
  then have eq: "unat a div 4096 = unat b div 4096" by (metis unat_page_base nat_mult_eq_cancel1 zero_less_numeral)
  have "fb_region n c \<longleftrightarrow> 851968 \<le> unat c div 4096 \<and> unat c div 4096 < 917504 \<and> unat c div 4096 < 851968 + n"
    for c by (simp add: fb_region_def word_le_nat_alt word_less_nat_alt less_eq_div_iff_mult_less_eq div_less_iff_less_mult)
  then show ?thesis using eq by simp
qed

lemma page_base_twice [simp]: "page_base (page_base a) = page_base a"
  using aligned_page_base [of a] by (simp only: aligned_def)

lemma fb_frame_ok:
  assumes "fb_ready n phys v" and "fb_region n a"
  shows "aligned (fb_frame phys a)" and "fb_frame phys a \<noteq> 0"
proof -
  have p: "4096 dvd unat phys" "0 < unat phys" "unat phys + n * 4096 \<le> 2 ^ 32"
    using assms(1) by (simp_all add: fb_ready_def aligned_unat word_less_nat_alt)
  have "fb_region n (page_base a)" using assms(2) fb_region_page [of "page_base a" a] by simp
  then have b: "0xD0000000 \<le> unat (page_base a)" "unat (page_base a) < 0xD0000000 + n * 4096"
    by (simp_all add: fb_region_def word_le_nat_alt word_less_nat_alt div_less_iff_less_mult)
  have "unat (page_base a - 0xD0000000) = unat (page_base a) - 0xD0000000"
    using b(1) by (simp add: unat_sub_if')
  then have u: "unat (fb_frame phys a) = unat phys + (unat (page_base a) - 0xD0000000)"
    using b p(3) by (simp add: fb_frame_def unat_word_ariths)
  have "4096 dvd unat (page_base a) - 0xD0000000" by (simp add: unat_page_base dvd_diff_nat)
  then show "aligned (fb_frame phys a)" unfolding aligned_unat u using p(1) by simp
  show "fb_frame phys a \<noteq> 0" using u p(2) by (auto simp: unat_eq_0)
qed

lemma fb_present_page: "page_base a = page_base b \<Longrightarrow> fb_present phys v a = fb_present phys v b"
  by (simp add: fb_present_def fb_frame_def)

lemma page_base_offset: "page_base a AND 0xFFF = 0"
  by (simp add: page_base_def and.assoc)

interpretation fb_pages: page_mapper "\<lambda>v a. map_page v (page_base a) (fb_frame phys a)" "fb_present phys" frames_left
  "fb_ready n phys" "fb_region n" "same_behind_frame n" for n phys
proof unfold_locales
  fix v a
  assume ready: "fb_ready n phys v" and a: "fb_region n a" and room: "2 \<le> frames_left v"
  let ?a = "page_base a"
  have a': "fb_region n ?a" using a fb_region_page [of ?a a] by simp
  note idx = fb_region_index [OF a']
  obtain T where "T \<subseteq> free_frames (phys_manager v)" "card T = 2"
    using room obtain_subset_with_card_n unfolding frames_left_def by metis
  then obtain f g where fg: "f \<in> free_frames (phys_manager v)" "g \<in> free_frames (phys_manager v)" "f \<noteq> g"
    by (auto simp: card_2_iff)
  have small: "\<not> is_present (pde_at v (drop_bit 22 ?a)) \<or> is_table (pde_at v (drop_bit 22 ?a))"
    and inv: "vm_inv v" and vmr: "vm_ready v" and ne: "drop_bit 22 ?a \<noteq> 1023"
    using ready idx by (auto simp: fb_ready_def vm_ready_def)
  obtain v' where v': "map_page v ?a (fb_frame phys a) = Some v'" "vm_inv v'" "page_mapped v ?a (fb_frame phys a) v'"
    "uses v (drop_bit 22 ?a) 2 v'"
    using map_page_maps [OF inv ne small fb_frame_ok(1) [OF ready a] fg] by blast
  have pde: "\<not> is_present (pde_at v' i) \<or> is_table (pde_at v' i)" if i: "832 \<le> i \<and> i < 960" for i
  proof -
    have "i < 1024" using i by (simp add: word_less_nat_alt)
    then have "i = drop_bit 22 ?a \<and> is_table (pde_at v' i) \<or> pde_at v' i = pde_at v i"
      using v'(4) unfolding uses_def by blast
    moreover have "832 \<le> i \<and> i < 896 \<or> 896 \<le> i \<and> i < 960" using i by (cases "i < 896") (auto simp: not_less)
    ultimately show ?thesis using ready vmr unfolding fb_ready_def vm_ready_def by metis
  qed
  have here: "fb_present phys v' a"
  proof (cases "mmu_translate v ?a")
    case None
    then show ?thesis using v'(3) fb_frame_ok(2) [OF ready a]
      by (auto simp: page_mapped_def fb_present_def page_base_offset)
  next
    case (Some pa)
    then have "fb_present phys v ?a" using ready a' unfolding fb_ready_def is_mapped_def by blast
    then show ?thesis using v'(3) Some by (auto simp: page_mapped_def fb_present_def fb_frame_def)
  qed
  have elsewhere: "drop_bit 22 b = 1023 \<or> page_base b = ?a \<or> mmu_translate v' b = mmu_translate v b" for b
    using v'(3) unfolding page_mapped_def by simp
  have keep: "fb_present phys v' b" if b: "fb_region n b" "fb_present phys v b" for b
  proof (cases "page_base b = ?a")
    case True
    then show ?thesis using here fb_present_page by blast
  next
    case False
    have "fb_region n (page_base b)" using b(1) fb_region_page [of "page_base b" b] by simp
    from fb_region_index [OF this] have "drop_bit 22 (page_base b) \<noteq> 1023" by auto
    then have "mmu_translate v' (page_base b) = mmu_translate v (page_base b)" using elsewhere [of "page_base b"] False by simp
    then show ?thesis using b(2) by (simp add: fb_present_def)
  qed
  have "fb_present phys v' b" if b: "fb_region n b" "is_mapped v' b" for b
  proof (cases "page_base b = ?a")
    case True
    then show ?thesis using here fb_present_page by blast
  next
    case False
    have "drop_bit 22 b \<noteq> 1023" using fb_region_index [OF b(1)] by auto
    then have "is_mapped v b" using elsewhere [of b] False b(2) by (simp add: is_mapped_def)
    then show ?thesis using ready b(1) keep unfolding fb_ready_def by blast
  qed
  moreover have "\<not> is_present (pde_at v' i) \<or> is_table (pde_at v' i)" if "896 \<le> i \<and> i < 960" for i
    using pde [of i] that order_trans [of 832 896 i] by simp
  moreover have "\<not> is_present (pde_at v' i) \<or> is_table (pde_at v' i)" if "832 \<le> i \<and> i < 896" for i
    using pde [of i] that less_trans [of i 896 960] by simp
  ultimately have "fb_ready n phys v'" using ready v'(2) unfolding fb_ready_def vm_ready_def by blast
  moreover have "same_behind_frame n v v'"
    unfolding same_behind_frame_def using v'(3) elsewhere a fb_region_page [of a] unfolding page_mapped_def
    by (metis a' fb_region_page page_base_twice)
  moreover have "frames_left v \<le> frames_left v' + 2" using v'(4) by (simp add: uses_def frames_left_def)
  ultimately show "\<exists>v'. map_page v ?a (fb_frame phys a) = Some v' \<and> fb_ready n phys v' \<and> fb_present phys v' a
      \<and> frames_left v \<le> frames_left v' + 2 \<and> same_behind_frame n v v'
      \<and> (\<forall>b. fb_region n b \<and> fb_present phys v b \<longrightarrow> fb_present phys v' b)"
    using v'(1) here keep by blast
next
  show "same_behind_frame n v v" for v by (simp add: same_behind_frame_def)
  show "same_behind_frame n v v''" if "same_behind_frame n v v'" "same_behind_frame n v' v''" for v v' v''
    using that unfolding same_behind_frame_def by (metis order_trans)
qed (rule fb_present_page)

section \<open>The loop\<close>

lemma page_number:
  assumes "n \<le> 65536" and "k < n"
  shows "unat (of_nat k * kPageSize :: u32) = k * 4096"
    and "unat (0xD0000000 + of_nat k * kPageSize :: u32) = 0xD0000000 + k * 4096"
proof -
  have k: "k * 4096 < 0x10000000" using assms by simp
  then show u: "unat (of_nat k * kPageSize :: u32) = k * 4096"
    by (simp add: unat_word_ariths unat_of_nat kPageSize_def)
  show "unat (0xD0000000 + of_nat k * kPageSize :: u32) = 0xD0000000 + k * 4096"
    using k by (subst unat_plus_if') (simp add: u)
qed

lemma map_frame_pages_all:
  assumes n: "n \<le> 65536" and sz: "unat sz \<le> n * 4096" "\<And>k. k < n \<Longrightarrow> k * 4096 < unat sz" and k: "k \<le> n"
  shows "map_frame_pages 0xD0000000 phys sz (of_nat k) v =
    fb_pages.map_all phys v (map (\<lambda>i. 0xD0000000 + of_nat i * kPageSize) [k..<n])"
  using k
proof (induction "n - k" arbitrary: k v)
  case 0
  then have "k = n" by simp
  have "n * 4096 < 2 ^ 32" using n by simp
  then have "unat (of_nat n * kPageSize :: u32) = n * 4096" by (simp add: unat_word_ariths unat_of_nat kPageSize_def)
  then have "\<not> of_nat n * kPageSize < sz" using sz(1) by (simp add: word_less_nat_alt)
  then show ?case unfolding \<open>k = n\<close> by (subst map_frame_pages.simps) simp
next
  case (Suc m)
  then have k: "k < n" by simp
  let ?a = "0xD0000000 + of_nat k * kPageSize :: u32"
  note u = page_number [OF n k]
  have less: "of_nat k * kPageSize < sz" using sz(2) [OF k] u(1) by (simp add: word_less_nat_alt)
  have "4096 dvd unat ?a" unfolding u(2) by simp
  then have al: "page_base ?a = ?a" using aligned_unat by (simp add: aligned_def)
  then have f: "fb_frame phys ?a = phys + of_nat k * kPageSize" by (simp add: fb_frame_def)
  have "(of_nat k + 1 :: u32) = of_nat (Suc k)" by simp
  moreover have "[k..<n] = k # [Suc k..<n]" using k by (simp add: upt_conv_Cons)
  moreover have "map_frame_pages 0xD0000000 phys sz (of_nat (Suc k)) =
      (\<lambda>v. fb_pages.map_all phys v (map (\<lambda>i. 0xD0000000 + of_nat i * kPageSize) [Suc k..<n]))"
    using Suc.hyps(1) [of "Suc k"] Suc.hyps(2) k by (intro ext) simp
  ultimately show ?case
    using less al f by (subst map_frame_pages.simps) (simp del: of_nat_Suc)
qed

lemma page_base_index:
  "drop_bit 22 (page_base a) = drop_bit 22 a" "drop_bit 12 (page_base a) = drop_bit 12 a"
proof -
  have "unat a div 4096 * 4096 div 4194304 = unat a div 4194304"
    using div_mult2_eq [of "unat a div 4096 * 4096" 4096 1024] div_mult2_eq [of "unat a" 4096 1024] by simp
  then show "drop_bit 22 (page_base a) = drop_bit 22 a" "drop_bit 12 (page_base a) = drop_bit 12 a"
    by (auto intro!: unat_eqI simp: unat_drop_bit unat_page_base mult.commute)
qed

lemma translate_in_page:
  assumes "mmu_translate v (page_base a) = Some f" and "aligned (cr3 v)"
    and "\<not> is_present (pde_at v (drop_bit 22 a)) \<or> is_table (pde_at v (drop_bit 22 a))"
  shows "mmu_translate v a = Some (f + (a AND 0xFFF))"
  using assms by (auto simp: mmu_translate_eq Let_def page_base_index page_base_offset split: if_splits)

text \<open>Every byte of the frame buffer is where it should be once its pages are mapped.\<close>

lemma map_frame_pages_maps:
  assumes ready: "fb_ready n phys v" and sz: "unat sz \<le> 0x10000000" and n_def: "n = (unat sz + 4095) div 4096"
    and room: "2 * n + r \<le> frames_left v"
  shows "\<exists>v'. map_frame_pages 0xD0000000 phys sz 0 v = Some v' \<and> fb_ready n phys v' \<and> r \<le> frames_left v'
    \<and> same_behind_frame n v v'
    \<and> (\<forall>k < unat sz. mmu_translate v' (0xD0000000 + of_nat k) = Some (phys + of_nat k))"
proof -
  have n: "n \<le> 65536" "unat sz \<le> n * 4096" using sz by (simp_all add: n_def)
  have ks: "k * 4096 < unat sz" if "k < n" for k
    using that by (simp add: n_def)
  let ?as = "map (\<lambda>i. 0xD0000000 + of_nat i * kPageSize) [0..<n] :: addr list"
  have "fb_region n a" if a: "a \<in> set ?as" for a
  proof -
    obtain k where k: "k < n" "a = 0xD0000000 + of_nat k * kPageSize" using a by auto
    then show ?thesis using page_number(2) [OF n(1) k(1)] n(1)
      by (simp add: fb_region_def word_le_nat_alt word_less_nat_alt)
  qed
  moreover have "2 * length ?as + r \<le> frames_left v" using room by (simp add: n_def)
  ultimately obtain v' where v': "fb_pages.map_all phys v ?as = Some v'" "fb_ready n phys v'" "r \<le> frames_left v'"
    "same_behind_frame n v v'" "\<forall>a \<in> set ?as. fb_present phys v' a"
    using fb_pages.map_all_maps [OF ready, of ?as r] by blast
  have "mmu_translate v' (0xD0000000 + of_nat k) = Some (phys + of_nat k)" if k: "k < unat sz" for k
  proof -
    define p where "p = k div 4096"
    have p: "p < n" using k by (simp add: p_def n_def)
    let ?a = "0xD0000000 + of_nat p * kPageSize :: addr" and ?b = "0xD0000000 + of_nat k :: addr"
    have b: "unat ?b = 0xD0000000 + k" using k sz by (simp add: unat_word_ariths unat_of_nat)
    have a: "unat ?a = 0xD0000000 + p * 4096" using page_number(2) [OF n(1) p] .
    have "(0xD0000000 + k) div 4096 = 851968 + p" using div_mult_self1 [of 4096 k 851968] by (simp add: p_def)
    then have pb: "page_base ?b = ?a" by (intro unat_eqI) (simp only: unat_page_base b a, simp)
    have "fb_region n ?b"
      using b k sz p div_mult_self1 [of 4096 k 851968] by (simp add: fb_region_def word_le_nat_alt word_less_nat_alt p_def)
    from fb_region_index [OF this] have small: "\<not> is_present (pde_at v' (drop_bit 22 ?b)) \<or> is_table (pde_at v' (drop_bit 22 ?b))"
      and cr3: "aligned (cr3 v')" using v'(2) by (simp_all add: fb_ready_def vm_ready_def vm_inv_def windows_def)
    have "fb_present phys v' ?a" using v'(5) p by auto
    then have tr: "mmu_translate v' (page_base ?b) = Some (fb_frame phys ?a)"
      by (simp add: fb_present_def flip: pb)
    have "fb_frame phys ?a + (?b AND 0xFFF) = phys + of_nat k"
    proof -
      have "page_base ?a = ?a" by (simp flip: pb)
      moreover have "(0xD0000000 + k) mod 4096 = k mod 4096" using mod_mult_self1 [of k 851968 4096] by (simp add: add.commute)
      then have "?b AND 0xFFF = of_nat (k mod 4096)" by (intro unat_eqI) (simp only: unat_and_low12 b, simp add: unat_of_nat)
      moreover have "of_nat p * kPageSize + of_nat (k mod 4096) = (of_nat (p * 4096 + k mod 4096) :: addr)"
        by (simp add: kPageSize_def)
      ultimately show ?thesis by (simp add: fb_frame_def p_def)
    qed
    then show ?thesis using translate_in_page [OF tr cr3 small] by simp
  qed
  then show ?thesis using v' map_frame_pages_all [OF n(1,2) ks, of 0 phys v] by auto
qed

section \<open>The whole set-up\<close>

lemma heap_keeps_frame:
  assumes "same_elsewhere v v'" and "fb_region n a"
  shows "mmu_translate v' a = mmu_translate v a"
proof -
  have "\<not> heap_region a" "drop_bit 22 a \<noteq> 1023"
    using assms(2) fb_region_index [OF assms(2)] by (auto simp: fb_region_def heap_region_def)
  then show ?thesis using assms(1) unfolding same_elsewhere_def by blast
qed

lemma heap_before_frame:
  assumes inv: "heap_inv s szs" and v: "vm_ready v" and same: "same_behind_frame n (hvm s) v"
  shows "heap_inv (s\<lparr>hvm := v\<rparr>) szs"
proof -
  have "is_mapped v a" if "0xE0000000 \<le> unat a" "unat a < unat (kheap_top s)" "is_mapped (hvm s) a" for a
  proof -
    have top: "unat (kheap_top s) \<le> 0xF0000000" using inv unfolding heap_inv_def heap_core_def by blast
    then have "heap_region a" "\<not> fb_region n a"
      using that by (simp_all add: heap_region_def fb_region_def word_le_nat_alt word_less_nat_alt)
    moreover from heap_region_index [OF this(1)] have "drop_bit 22 a \<noteq> 1023" by auto
    ultimately show ?thesis using same that(3) unfolding same_behind_frame_def is_mapped_def by metis
  qed
  then show ?thesis using inv v unfolding heap_inv_def heap_core_def by simp
qed

lemma memset_zeros:
  assumes "\<And>a. unat p \<le> unat a \<Longrightarrow> unat a < unat p + unat n \<Longrightarrow> m a = 0" and "unat p + unat n \<le> 2 ^ 32"
  shows "memset m p 0 n = m"
proof
  fix a
  show "memset m p 0 n a = m a" using assms(1) in_region_nat [OF assms(2)] by (auto simp: memset_eq)
qed

text \<open>The set-up of the display, from a heap with room for both buffers.\<close>

lemma graphics_setup_maps:
  fixes width height pitch :: u32
  defines "n \<equiv> unat height * unat pitch" and "pgs \<equiv> (unat height * unat pitch + 4095) div 4096"
  assumes inv: "heap_inv s szs" and fb: "fb_ready pgs (ucast addr) (hvm s)" and pos: "0 < n" and le: "n \<le> 0x10000000"
    and fits: "heap_end szs + n + unat height + 24 \<le> 0xF0000000"
    and room: "2 * pgs + 2 * ((n + 12) div 4096 + 2) + 2 * ((unat height + 12) div 4096 + 2)
      \<le> frames_left (hvm s)"
  shows "\<exists>s' d. graphics_setup addr width height bpp pitch s = Some (s', d)
    \<and> heap_inv s' (szs @ [n + 12, unat height + 12])
    \<and> d_front d = 0xD0000000 \<and> unat (d_back d) = heap_end szs + 12 \<and> unat (d_dirty d) = heap_end szs + n + 24
    \<and> (\<forall>k < n. mmu_translate (hvm s') (d_front d + of_nat k) = Some (ucast addr + of_nat k))
    \<and> (\<forall>a. unat (d_back d) \<le> unat a \<and> unat a < unat (d_back d) + n \<longrightarrow> is_mapped (hvm s') a \<and> bytes s' a = 0)
    \<and> (\<forall>a. unat (d_dirty d) \<le> unat a \<and> unat a < unat (d_dirty d) + unat height
         \<longrightarrow> is_mapped (hvm s') a \<and> bytes s' a = 0)
    \<and> (\<forall>i a. payload szs i a \<longrightarrow> bytes s' a = bytes s a)"
proof -
  let ?phys = "ucast addr :: addr" and ?r2 = "2 * ((unat height + 12) div 4096 + 2)"
  let ?r1 = "2 * ((n + 12) div 4096 + 2) + ?r2"
  have sz: "unat (height * pitch) = n" using le by (simp add: n_def unat_word_ariths)
  have sz1: "0 < height * pitch" using pos sz by (simp add: word_less_nat_alt)
  have pgs: "pgs = (unat (height * pitch) + 4095) div 4096" "2 * pgs + ?r1 \<le> frames_left (hvm s)"
    using room sz by (simp_all add: pgs_def n_def)
  from map_frame_pages_maps [OF fb _ pgs] le sz obtain v where
    v: "map_frame_pages 0xD0000000 ?phys (height * pitch) 0 (hvm s) = Some v" "fb_ready pgs ?phys v" "?r1 \<le> frames_left v"
      "same_behind_frame pgs (hvm s) v"
    and frame: "\<And>k. k < n \<Longrightarrow> mmu_translate v (0xD0000000 + of_nat k) = Some (?phys + of_nat k)" by auto
  let ?s0 = "s\<lparr>hvm := v\<rparr>"
  have inv0: "heap_inv ?s0 szs" by (rule heap_before_frame [OF inv _ v(4)]) (use v(2) in \<open>simp add: fb_ready_def\<close>)
  have "2 * ((unat (height * pitch) + 12) div 4096 + 2) + ?r2 \<le> frames_left (hvm ?s0)" using v(3) sz by simp
  from vmalloc_allocates [OF inv0 sz1 _ this] fits obtain s1 bk where
    s1: "vmalloc ?s0 (height * pitch) = Some (s1, bk)" "heap_inv s1 (szs @ [n + 12])" "unat bk = heap_end szs + 12"
      "same_elsewhere v (hvm s1)" "?r2 \<le> frames_left (hvm s1)"
    and pay1: "\<And>i a. payload szs i a \<Longrightarrow> bytes s1 a = bytes s a"
    and bk: "\<And>a. unat bk \<le> unat a \<Longrightarrow> unat a < unat bk + n \<Longrightarrow> bytes s1 a = 0"
    by (auto simp: sz)
  have h: "0 < height" using pos by (auto simp: n_def word_less_nat_alt)
  have "heap_end (szs @ [n + 12]) + unat height + 12 \<le> 0xF0000000" using fits by simp
  from vmalloc_allocates [OF s1(2) h this, of 0] s1(5) obtain s2 dirty where
    s2: "vmalloc s1 height = Some (s2, dirty)" "heap_inv s2 ((szs @ [n + 12]) @ [unat height + 12])"
      "unat dirty = heap_end szs + n + 24" "same_elsewhere (hvm s1) (hvm s2)"
    and pay2: "\<And>i a. payload (szs @ [n + 12]) i a \<Longrightarrow> bytes s2 a = bytes s1 a"
    and dirty: "\<And>a. unat dirty \<le> unat a \<Longrightarrow> unat a < unat dirty + unat height \<Longrightarrow> is_mapped (hvm s2) a \<and> bytes s2 a = 0"
    by auto
  have whole: "unat dirty + unat height \<le> 2 ^ 32" using s2(3) fits by simp
  have "accessible s2 dirty (unat height)"
    unfolding accessible_def
  proof (intro allI impI)
    fix i assume i: "i < unat height"
    then have "unat (dirty + of_nat i) = unat dirty + i" using whole by (simp add: unat_word_ariths unat_of_nat)
    then show "is_mapped (hvm s2) (dirty + of_nat i)" using dirty i by simp
  qed
  moreover have "memset (bytes s2) dirty 0 height = bytes s2" using dirty whole by (intro memset_zeros) auto
  ultimately have "hmemset s2 dirty height = Some s2" by (simp add: hmemset_def)
  then have run: "graphics_setup addr width height bpp pitch s = Some (s2, \<lparr>d_width = width, d_height = height,
      d_depth = ucast bpp, d_pitch = pitch, d_front = 0xD0000000, d_back = bk, d_dirty = dirty\<rparr>)"
    using v(1) s1(1) s2(1) by (simp add: graphics_setup_def Let_def)
  have "mmu_translate (hvm s2) (0xD0000000 + of_nat k) = Some (?phys + of_nat k)" if k: "k < n" for k
  proof -
    have "unat (0xD0000000 + of_nat k :: addr) = 0xD0000000 + k" using k le by (simp add: unat_word_ariths unat_of_nat)
    then have "fb_region pgs (0xD0000000 + of_nat k)"
      using k le div_mult_self1 [of 4096 k 851968] pgs(1) sz by (simp add: fb_region_def word_le_nat_alt word_less_nat_alt)
    then show ?thesis using heap_keeps_frame [OF heap_pages.kept_trans [OF s1(4) s2(4)]] frame [OF k] by simp
  qed
  moreover have "is_mapped (hvm s2) a \<and> bytes s2 a = 0" if "unat bk \<le> unat a" "unat a < unat bk + n" for a
  proof -
    have "payload (szs @ [n + 12]) (length szs) a"
      using that s1(3) by (simp add: payload_def block_at_Suc flip: heap_end_def)
    then have "bytes s2 a = 0" using pay2 bk [OF that] by simp
    moreover have "is_mapped (hvm s2) a"
    proof -
      have core: "heap_core s2 ((szs @ [n + 12]) @ [unat height + 12])" using s2(2) by (simp add: heap_inv_def)
      then have "heap_end ((szs @ [n + 12]) @ [unat height + 12]) \<le> unat (kheap_top s2)"
        unfolding heap_core_def by blast
      then have "heap_end szs + n + 12 \<le> unat (kheap_top s2)" unfolding heap_end_append by simp
      moreover have "0xE0000000 \<le> heap_end szs" by (simp add: heap_end_def block_at_ge)
      ultimately have "0xE0000000 \<le> unat a" "unat a < unat (kheap_top s2)" using that s1(3) by simp_all
      then show ?thesis using core unfolding heap_core_def by blast
    qed
    ultimately show ?thesis by simp
  qed
  moreover have "bytes s2 a = bytes s a" if p: "payload szs i a" for i a
  proof -
    have "payload (szs @ [n + 12]) i a" using p by (simp add: payload_def)
    then show ?thesis using pay1 [OF p] pay2 by simp
  qed
  ultimately show ?thesis using run s2(2,3) s1(3) dirty by (intro exI conjI) (assumption | simp)+
qed

text \<open>
  The set-up of the display maps every byte of the frame buffer at \<open>0xD0000000\<close> to its place in
  physical memory, and takes a back buffer of the size of the frame buffer and a dirty buffer of one byte per
  row from the heap: zeroed, mapped, apart from each other and from everything allocated before.
\<close>

theorem graphics_setup_correct:
  fixes width height pitch :: u32
  defines "n \<equiv> unat height * unat pitch" and "pgs \<equiv> (unat height * unat pitch + 4095) div 4096"
  assumes inv: "heap_inv s szs" and fb: "fb_ready pgs (ucast addr) (hvm s)" and pos: "0 < n" and le: "n \<le> 0x10000000"
    and fits: "heap_end szs + n + unat height + 24 \<le> 0xF0000000"
    and room: "2 * pgs + 2 * ((n + 12) div 4096 + 2) + 2 * ((unat height + 12) div 4096 + 2)
      \<le> frames_left (hvm s)"
  shows "\<exists>s' d. graphics_setup addr width height bpp pitch s = Some (s', d)
    \<and> heap_inv s' (szs @ [n + 12, unat height + 12])
    \<and> d_front d = 0xD0000000 \<and> unat (d_back d) = heap_end szs + 12 \<and> unat (d_dirty d) = heap_end szs + n + 24
    \<and> (\<forall>k < n. mmu_translate (hvm s') (d_front d + of_nat k) = Some (ucast addr + of_nat k))
    \<and> (\<forall>a. unat (d_back d) \<le> unat a \<and> unat a < unat (d_back d) + n \<longrightarrow> is_mapped (hvm s') a \<and> bytes s' a = 0)
    \<and> (\<forall>a. unat (d_dirty d) \<le> unat a \<and> unat a < unat (d_dirty d) + unat height
         \<longrightarrow> is_mapped (hvm s') a \<and> bytes s' a = 0)
    \<and> (\<forall>i a. payload szs i a \<longrightarrow> bytes s' a = bytes s a)"
  using inv fb pos le fits room unfolding n_def pgs_def by (rule graphics_setup_maps)

theorem graphics_setup_correct_witness:
  "\<exists>s s' d. heap_inv s [] \<and> graphics_setup 0xFD000000 2 2 24 8 s = Some (s', d)
    \<and> mmu_translate (hvm s') (d_front d + of_nat 5) = Some (0xFD000000 + of_nat 5) \<and> unat (d_back d) = 0xE000000C"
proof -
  obtain v where v: "vm_inv v" "phys_manager v = phys_manager sample_vm"
    and new: "\<And>i. i < 1023 \<Longrightarrow> i \<noteq> 768 \<Longrightarrow> pde_at v i = 0" using sample_ready by blast
  have none: "\<not> is_present (pde_at v i)" if "832 \<le> i" "i < 960" for i
  proof -
    have "i < 1023" "i \<noteq> 768" using that by (auto simp: word_less_nat_alt)
    then show ?thesis using new by (simp add: is_present_def)
  qed
  have lo: "\<not> is_present (pde_at v i)" if "896 \<le> i" "i < 960" for i
    using none [OF order_trans [OF _ that(1)] that(2)] by simp
  have hi: "\<not> is_present (pde_at v i)" if "832 \<le> i" "i < 896" for i
    using none [OF that(1) less_trans [OF that(2)]] by simp
  have ready: "vm_ready v" using v(1) lo by (simp add: vm_ready_def)
  let ?s = "\<lparr>hvm = v, bytes = \<lambda>_. 0, kheap_top = kHeapStart, kheap_start = 0, irq_on = True\<rparr>"
  have inv: "heap_inv ?s []" using ready by (auto simp: heap_inv_def heap_core_def kHeapStart_def)
  have room: "frames_left v = 32" using v(2) sample_frames_card by (simp add: frames_left_def)
  have cr3: "aligned (cr3 v)" using v(1) by (simp add: vm_inv_def windows_def)
  have "\<not> is_mapped v a" if "fb_region 1 a" for a
    using fb_region_index [OF that] hi cr3 by (simp add: is_mapped_def mmu_translate_eq)
  then have "fb_ready 1 0xFD000000 v"
    using ready hi by (auto simp: fb_ready_def aligned_unat)
  then have fb: "fb_ready ((unat (2 :: u32) * unat (8 :: u32) + 4095) div 4096) (ucast (0xFD000000 :: u64)) (hvm ?s)" by simp
  from graphics_setup_correct [OF inv fb, of 2 24] obtain s' d where
    "graphics_setup 0xFD000000 2 2 24 8 ?s = Some (s', d)" "unat (d_back d) = 0xE000000C"
    "\<forall>k < 16. mmu_translate (hvm s') (d_front d + of_nat k) = Some (0xFD000000 + of_nat k)"
    using room by auto
  moreover from this(3) have "mmu_translate (hvm s') (d_front d + of_nat 5) = Some (0xFD000000 + of_nat 5)"
    by (elim allE [of _ 5]) simp
  ultimately show ?thesis using inv by blast
qed

end
