(* ===== verification/Boot.thy ===== *)
theory Boot
  imports Display_Setup
begin

text \<open>
  The start of the kernel: what \<open>kernel/asm/boot.s\<close> leaves, the set-up of the memory managers
  (\<open>Memory::Setup\<close>), the allocations of the components that \<open>kernel_main\<close> sets up after it, and the set-up of
  the display. The bitmap of the allocator is built on the stack, from whatever is there.
\<close>

section \<open>From the boot code to the first allocation\<close>

text \<open>
  The page directory: one page of 4 MiB with the kernel in it, at \<open>0xC0000000\<close> and, for the jump there, at 0;
  \<open>_boot\<close> clears the first entry.
\<close>

(* src/kernel/asm/boot.s:47-57 PDVirtualAddress *)
definition PDVirtualAddress :: "u32 \<Rightarrow> u32" where
  "PDVirtualAddress i = (if i = 0 then 0x83 else if i < 768 then 0 else if i = 768 then 0x83 else 0)"

(* src/kernel/asm/boot.s:85-92 _boot *)
definition boot_pde :: "u32 \<Rightarrow> u32" where
  "boot_pde = PDVirtualAddress(0 := 0)"

lemma boot_pde_eq: "boot_pde i = (if i = 768 then 0x83 else 0)"
  by (simp add: boot_pde_def PDVirtualAddress_def)

definition booted :: "vm \<Rightarrow> addr \<Rightarrow> bool" where
  "booted s dir \<longleftrightarrow> aligned dir \<and> drop_bit 22 dir = 768 \<and> cr3 s = dir - 0xC0000000
     \<and> (\<forall>i < 1024. pde_at s i = boot_pde i)"

(* src/kernel/memory/manager.cpp:12-15 Memory::Setup *)
definition memory_setup :: "u32 list \<Rightarrow> memory_map list \<Rightarrow> u32 \<Rightarrow> addr \<Rightarrow> vm \<Rightarrow> vm option" where
  "memory_setup garbage mmap kernel_end dir s = do {
     pm \<leftarrow> boot_allocator garbage mmap kernel_end;
     init_page_tables (s\<lparr>phys_manager := pm\<rparr>) dir (dir - 0xC0000000)
   }"

text \<open>The pages above the kernel that the memory map offers, and all that are free after the set-up.\<close>

definition available :: "memory_map list \<Rightarrow> u32 \<Rightarrow> nat \<Rightarrow> bool" where
  "available mmap kernel_end q \<longleftrightarrow> unat kernel_end div 4096 < q
     \<and> (\<exists>e \<in> set mmap. usable e \<and> entry_first e \<le> q \<and> q < entry_end e)"

definition free_at_boot :: "u32 list \<Rightarrow> memory_map list \<Rightarrow> u32 \<Rightarrow> nat \<Rightarrow> bool" where
  "free_at_boot garbage mmap kernel_end q \<longleftrightarrow>
     available mmap kernel_end q \<or> unat kernel_end div 4096 < q \<and> chunk_bit garbage q"

definition start_heap :: "vm \<Rightarrow> mem \<Rightarrow> heap" where
  "start_heap v b = \<lparr>hvm = v, bytes = b, kheap_top = kHeapStart, kheap_start = 0, irq_on = False\<rparr>"

lemma start_heap_inv: "vm_ready v \<Longrightarrow> heap_inv (start_heap v b) []"
  by (auto simp: start_heap_def heap_inv_def heap_core_def kHeapStart_def)

lemma card_frames:
  assumes "n_pages pm \<le> 2 ^ 20"
  shows "card (free_frames pm) = card {q. page_is_free pm q}"
proof -
  have "free_frames pm = (\<lambda>q. push_bit 12 (of_nat q)) ` {q. page_is_free pm q}" by (auto simp: free_frames_def)
  moreover have "inj_on (\<lambda>q. push_bit 12 (of_nat q) :: addr) {q. page_is_free pm q}"
    using assms frame_inject by (auto simp: inj_on_def page_is_free_def)
  ultimately show ?thesis by (simp add: card_image)
qed

lemma directory_offset:
  assumes "drop_bit 22 (a :: addr) = 768"
  shows "unat (a - 0xC0000000) = unat a - 0xC0000000" and "a AND 0x3FFFFF = a - 0xC0000000" and "0xC0000000 \<le> unat a"
    and "unat a < 0xC0400000"
proof -
  have d: "unat a div 4194304 = 768" using arg_cong [OF assms, of unat] by (simp add: unat_drop_bit)
  have split: "unat a = 3221225472 + unat a mod 4194304" using div_mult_mod_eq [of "unat a" 4194304] d by simp
  moreover have "unat a mod 4194304 < 4194304" by simp
  ultimately show ge: "0xC0000000 \<le> unat a" and "unat a < 0xC0400000" by linarith+
  from ge have sub: "(0xC0000000 :: addr) \<le> a" by (simp add: word_le_nat_alt)
  then show un: "unat (a - 0xC0000000) = unat a - 0xC0000000" by (simp add: unat_sub)
  show "a AND 0x3FFFFF = a - 0xC0000000"
    by (rule unat_eqI) (use split in \<open>simp add: un unat_and_low\<close>)
qed

lemma booted_facts:
  assumes "booted s dir"
  shows "aligned dir" and "aligned (cr3 s)" and "cr3 s = dir - 0xC0000000" and "pde_at s 768 = 0x83"
    and "\<And>i. i < 1024 \<Longrightarrow> i \<noteq> 768 \<Longrightarrow> pde_at s i = 0"
proof -
  show dir: "aligned dir" and cr3: "cr3 s = dir - 0xC0000000" using assms by (simp_all add: booted_def)
  have "drop_bit 22 dir = 768" using assms by (simp add: booted_def)
  note off = directory_offset [OF this]
  have "4096 dvd unat dir - 0xC0000000" using dir by (intro dvd_diff_nat) (simp_all add: aligned_unat)
  then show "aligned (cr3 s)" by (simp add: aligned_unat cr3 off(1))
  show "pde_at s 768 = 0x83" using assms by (simp add: booted_def boot_pde_eq)
  show "pde_at s i = 0" if "i < 1024" "i \<noteq> 768" for i using assms that by (simp add: booted_def boot_pde_eq)
qed


lemma memory_setup_ready:
  assumes boot: "booted s dir" "unat (cr3 s) div 4096 \<le> unat kernel_end div 4096"
    and map: "\<forall>e \<in> set mmap. usable e \<longrightarrow> entry_end e \<le> 131072" and kernel: "unat kernel_end < 0x20000000"
    and stack: "length garbage = 4096"
  shows "\<exists>v. memory_setup garbage mmap kernel_end dir s = Some v
    \<and> heap_inv (start_heap v b) []
    \<and> (\<forall>q. page_is_free (phys_manager v) q \<longleftrightarrow> free_at_boot garbage mmap kernel_end q)
    \<and> frames_left v = card {q. free_at_boot garbage mmap kernel_end q}
    \<and> (\<forall>a. drop_bit 22 a \<noteq> 1023 \<longrightarrow> mmu_translate v a = (if drop_bit 22 a = 768 then Some (a - 0xC0000000) else None))
    \<and> (\<forall>i < 1023. pde_at v i = boot_pde i)"
proof -
  note b = booted_facts [OF boot(1)]
  have d: "drop_bit 22 dir = 768" using boot(1) by (simp add: booted_def)
  have "unat kernel_end div 4096 < 131072" using kernel by (simp add: less_mult_imp_div_less)
  then obtain pm where pm: "boot_allocator garbage mmap kernel_end = Some pm" "n_pages pm = 131072"
    "\<And>q. page_is_free pm q \<longleftrightarrow> free_at_boot garbage mmap kernel_end q"
    using boot_allocator_cases [of garbage mmap kernel_end] map stack
    by (force simp: available_def free_at_boot_def split: option.splits)
  let ?s = "s\<lparr>phys_manager := pm\<rparr>"
  have pde: "pde_at ?s i = pde_at s i" for i by (simp add: pde_at_def)
  have "\<not> page_is_free pm (unat (cr3 s) div 4096)" using boot(2) by (simp add: pm(3) free_at_boot_def available_def)
  then have "cr3 s \<notin> free_frames pm"
  proof (rule contrapos_nn)
    assume "cr3 s \<in> free_frames pm"
    then obtain p where p: "cr3 s = push_bit 12 (of_nat p)" "page_is_free pm p" by (auto simp: free_frames_def)
    then have "p < 131072" using pm(2) by (simp add: page_is_free_def)
    then have "unat (cr3 s) = p * 4096" by (simp add: p(1) push_bit_eq_mult unat_word_ariths unat_of_nat)
    then show "page_is_free pm (unat (cr3 s) div 4096)" using p(2) by simp
  qed
  moreover have "pmm_ok pm" by (simp add: pmm_ok_def pm(2,3) free_at_boot_def available_def)
  moreover have "\<not> is_table (pde_at s i)" if "i < 1023" for i
    using that b(4) b(5) [of i] by (cases "i = 768") (simp_all add: is_table_def is_present_def word_less_nat_alt)
  ultimately have "boot_directory ?s dir"
    using b(1-4) d directory_offset(2) [OF d] by (simp add: boot_directory_def pde is_present_def)
  from init_page_tables_inv [OF this] obtain v where v: "init_page_tables ?s dir (cr3 s) = Some v" "vm_inv v"
    "phys_manager v = pm" "\<forall>i < 1023. pde_at v i = pde_at s i" by (auto simp: pde)
  have cr3: "cr3 v = cr3 s" using v(1) by (auto simp: init_page_tables_def vwrite_def Let_def split: option.splits)
  have pdev: "pde_at v i = boot_pde i" if "i < 1023" for i
    using v(4) that b(4,5) by (cases "i = 768") (auto simp: boot_pde_eq word_less_nat_alt)
  then have "vm_ready v" using v(2) by (auto simp: vm_ready_def boot_pde_eq is_present_def word_less_nat_alt)
  moreover have "frames_left v = card {q. free_at_boot garbage mmap kernel_end q}"
    using card_frames [of pm] pm(2,3) by (simp add: frames_left_def v(3))
  moreover have "mmu_translate v a = (if drop_bit 22 a = 768 then Some (a - 0xC0000000) else None)" if "drop_bit 22 a \<noteq> 1023" for a
  proof -
    have "unat (drop_bit 22 a) \<noteq> 1023" using that unat_eqI [of "drop_bit 22 a" 1023] by auto
    then have "drop_bit 22 a < 1023" using directory_index_less [of a] by (simp add: word_less_nat_alt)
    then show ?thesis
      using b(2) pdev [of "drop_bit 22 a"] directory_offset(2) [of a]
      by (simp add: mmu_translate_eq cr3 boot_pde_eq is_present_def is_table_def Let_def)
  qed
  ultimately show ?thesis using pm(1,3) v(1,3) pdev b(3) start_heap_inv by (simp add: memory_setup_def)
qed

text \<open>
  Property C14: After the set-up of the memory managers a page is free exactly when it lies above the kernel and the
  memory map offers it, or the stack on which the bitmap is built happened to have its bit set, for the
  bitmap is not cleared. The kernel stays mapped and nothing else is, and the page tables and the empty heap
  are ready for the first allocation. The memory map has nothing usable above 512 MiB, and the kernel lies below.
\<close>

theorem memory_setup_correct:
  assumes boot: "booted s dir" "unat (cr3 s) div 4096 \<le> unat kernel_end div 4096"
    and map: "\<forall>e \<in> set mmap. usable e \<longrightarrow> entry_end e \<le> 131072" and kernel: "unat kernel_end < 0x20000000"
    and stack: "length garbage = 4096"
  shows "\<exists>v. memory_setup garbage mmap kernel_end dir s = Some v
    \<and> heap_inv (start_heap v b) []
    \<and> (\<forall>q. page_is_free (phys_manager v) q \<longleftrightarrow> free_at_boot garbage mmap kernel_end q)
    \<and> frames_left v = card {q. free_at_boot garbage mmap kernel_end q}
    \<and> (\<forall>a. drop_bit 22 a \<noteq> 1023 \<longrightarrow> mmu_translate v a = (if drop_bit 22 a = 768 then Some (a - 0xC0000000) else None))
    \<and> (\<forall>i < 1023. pde_at v i = boot_pde i)"
  using assms by (rule memory_setup_ready)

text \<open>A machine with 32 MiB, the kernel in the second MiB, its directory at the start.\<close>

definition sample_boot :: vm where
  "sample_boot = \<lparr>phys_manager = \<lparr>free_pages = 0, bitmap = []\<rparr>, page_dir = 0, cr3 = 0x100000, ram = (\<lambda>_. 0)(0x100C00 := 0x83)\<rparr>"

definition sample_ram :: memory_map where
  "sample_ram = \<lparr>mm_size = 20, base_addr_low = 0x100000, base_addr_high = 0, length_low = 0x1F00000, length_high = 0, mm_type = 1\<rparr>"

lemma sample_booted: "booted sample_boot 0xC0100000"
proof -
  have "pde_at sample_boot i = boot_pde i" if "i < 1024" for i
  proof -
    have "(0x100000 + 4 * i = 0x100C00) \<longleftrightarrow> i = 768"
      using slot_inject [of "0x100000" "0x100000" i 768] that by (simp add: aligned_def page_base_def)
    then show ?thesis by (simp add: pde_at_def sample_boot_def boot_pde_eq)
  qed
  then show ?thesis by (simp add: booted_def aligned_def page_base_def) (simp add: sample_boot_def)
qed

lemma sample_available: "available [sample_ram] 0x1FFFFF q \<longleftrightarrow> 512 \<le> q \<and> q < 8192"
  by (auto simp: available_def sample_ram_def usable_def entry_first_def entry_end_def MULTIBOOT_MEMORY_AVAILABLE_def)

lemma sample_free: "free_at_boot (replicate 4096 0) [sample_ram] 0x1FFFFF q \<longleftrightarrow> 512 \<le> q \<and> q < 8192"
proof -
  have "\<not> chunk_bit (replicate 4096 0) q" by (cases "q div 32 < 4096") (simp_all add: chunk_bit_def)
  then show ?thesis by (simp only: free_at_boot_def sample_available simp_thms)
qed

theorem memory_setup_correct_witness:
  "\<exists>v. memory_setup (replicate 4096 0) [sample_ram] 0x1FFFFF 0xC0100000 sample_boot = Some v
    \<and> heap_inv (start_heap v (\<lambda>_. 0)) [] \<and> (\<forall>q. page_is_free (phys_manager v) q \<longleftrightarrow> 512 \<le> q \<and> q < 8192)"
proof -
  have "\<forall>e \<in> set [sample_ram]. usable e \<longrightarrow> entry_end e \<le> 131072" by (simp add: sample_ram_def entry_end_def)
  then show ?thesis
    using memory_setup_correct [OF sample_booted, of "0x1FFFFF" "[sample_ram]" "replicate 4096 0" "\<lambda>_. 0"]
    by (auto simp: sample_boot_def sample_free)
qed

section \<open>From the first allocation to the display\<close>

text \<open>
  Between \<open>Memory::Setup\<close> and \<open>start_display_driver\<close>, \<open>kernel_main\<close> sets up the programs, the file system and
  the threads, which take memory from the heap; what they put there they may write, for it is theirs.
\<close>

fun vmallocs :: "u32 list \<Rightarrow> heap \<Rightarrow> (heap \<times> addr list) option" where
  "vmallocs [] s = Some (s, [])"
| "vmallocs (sz # szs) s = do {
     (s, p) \<leftarrow> vmalloc s sz;
     (s, ps) \<leftarrow> vmallocs szs s;
     Some (s, p # ps)
   }"

definition block_sizes :: "u32 list \<Rightarrow> nat list" where
  "block_sizes szs = map (\<lambda>sz. unat sz + 12) szs"

definition frames_needed :: "u32 list \<Rightarrow> nat" where
  "frames_needed szs = sum_list (map (\<lambda>sz. 2 * ((unat sz + 12) div 4096 + 2)) szs)"

lemma vmallocs_correct:
  assumes "heap_inv s hs" and "0 \<notin> set szs" and "heap_end hs + sum_list (block_sizes szs) \<le> 0xF0000000"
    and "frames_needed szs + r \<le> frames_left (hvm s)"
  shows "\<exists>s' ps. vmallocs szs s = Some (s', ps) \<and> heap_inv s' (hs @ block_sizes szs)
    \<and> same_elsewhere (hvm s) (hvm s') \<and> r \<le> frames_left (hvm s')
    \<and> (\<forall>i a. payload hs i a \<longrightarrow> bytes s' a = bytes s a)"
  using assms
proof (induction szs arbitrary: s hs)
  case Nil
  then show ?case by (simp add: block_sizes_def frames_needed_def same_elsewhere_def)
next
  case (Cons sz szs)
  let ?h = "unat sz + 12"
  have sizes: "block_sizes (sz # szs) = ?h # block_sizes szs" by (simp add: block_sizes_def)
  have room: "2 * ((unat sz + 12) div 4096 + 2) + (frames_needed szs + r) \<le> frames_left (hvm s)"
    using Cons.prems(4) by (simp add: frames_needed_def)
  have pos: "0 < sz" using Cons.prems(2) by (auto simp: word_neq_0_conv)
  have "heap_end hs + unat sz + 12 \<le> 0xF0000000" using Cons.prems(3) by (simp add: sizes)
  from vmalloc_allocates [OF Cons.prems(1) pos this room] obtain s1 p where
    s1: "vmalloc s sz = Some (s1, p)" "heap_inv s1 (hs @ [?h])" "same_elsewhere (hvm s) (hvm s1)"
    "frames_needed szs + r \<le> frames_left (hvm s1)" "\<forall>i a. payload hs i a \<longrightarrow> bytes s1 a = bytes s a" by blast
  have "heap_end (hs @ [?h]) + sum_list (block_sizes szs) \<le> 0xF0000000" using Cons.prems(3) by (simp add: sizes)
  from Cons.IH [OF s1(2) _ this s1(4)] Cons.prems(2) obtain s2 ps where
    s2: "vmallocs szs s1 = Some (s2, ps)" "heap_inv s2 ((hs @ [?h]) @ block_sizes szs)" "same_elsewhere (hvm s1) (hvm s2)"
    "r \<le> frames_left (hvm s2)" "\<forall>i a. payload (hs @ [?h]) i a \<longrightarrow> bytes s2 a = bytes s1 a" by auto
  have "payload hs i a \<Longrightarrow> payload (hs @ [?h]) i a" for i a
    by (cases "i < length hs") (auto simp: payload_def nth_append)
  then have "\<forall>i a. payload hs i a \<longrightarrow> bytes s2 a = bytes s a" using s1(5) s2(5) by metis
  moreover have "same_elsewhere (hvm s) (hvm s2)" by (rule heap_pages.kept_trans [OF s1(3) s2(3)])
  ultimately show ?case using s1(1) s2 by (simp add: sizes)
qed

lemma fb_ready_start:
  assumes v: "\<forall>a. drop_bit 22 a \<noteq> 1023 \<longrightarrow> mmu_translate v a = (if drop_bit 22 a = 768 then Some (a - 0xC0000000) else None)"
    and same: "same_elsewhere v v'" and "vm_ready v'" and fb: "aligned phys" "0 < phys" "unat phys + n * 4096 \<le> 2 ^ 32"
  shows "fb_ready n phys v'"
proof -
  have free: "mmu_translate v' a = None" if "832 \<le> drop_bit 22 a" "drop_bit 22 a < 896" for a
  proof -
    have "\<not> heap_region a" using that heap_region_index [of a] by auto
    moreover have "drop_bit 22 a \<noteq> 1023" "drop_bit 22 a \<noteq> 768" using that by auto
    ultimately show ?thesis using v same unfolding same_elsewhere_def by metis
  qed
  have cr3: "aligned (cr3 v')" using assms(3) by (simp add: vm_ready_def vm_inv_def windows_def)
  have "\<not> is_present (pde_at v' i) \<or> is_table (pde_at v' i)" if i: "832 \<le> i" "i < 896" for i
  proof -
    have "drop_bit 22 (push_bit 22 i) = i" using i by (intro unat_eqI) (simp add: unat_drop_bit push_bit_eq_mult unat_word_ariths word_less_nat_alt)
    then show ?thesis using free [of "push_bit 22 i"] i mmu_translate_eq [OF cr3, of "push_bit 22 i"]
      by (auto simp: Let_def split: if_splits)
  qed
  moreover have "\<not> is_mapped v' a" if "fb_region n a" for a
    using free fb_region_index [OF that] by (simp add: is_mapped_def)
  ultimately show ?thesis using assms(3) fb by (auto simp: fb_ready_def)
qed

lemma graphics_setup_geometry:
  "graphics_setup addr width height bpp pitch s = Some (s', d) \<Longrightarrow> d_width d = width \<and> d_height d = height
    \<and> d_pitch d = pitch \<and> d_depth d = ucast bpp"
  by (auto simp: graphics_setup_def Let_def split: bind_splits)

text \<open>
  Property C4: The memory and the display come up together: from the page directory of the boot code, with enough
  memory in the memory map, the memory managers are set up, every allocation of the other components succeeds,
  the frame buffer is mapped byte for byte at 0xD0000000, and behind all those allocations lie the back buffer,
  of the size of the frame buffer, and behind that the dirty buffer, one byte per row, both mapped and zero.
  The stack on which the allocator's bitmap is built may hold anything that marks no page the memory map does
  not offer. The memory map has nothing usable above 512 MiB.
\<close>

theorem kernel_display_comes_up:
  fixes width height pitch :: u32
  defines "n \<equiv> unat height * unat pitch" and "pgs \<equiv> (unat height * unat pitch + 4095) div 4096"
  assumes boot: "booted s dir" "unat (cr3 s) div 4096 \<le> unat kernel_end div 4096"
    and map: "\<forall>e \<in> set mmap. usable e \<longrightarrow> entry_end e \<le> 131072" and kernel: "unat kernel_end < 0x20000000"
    and stack: "length garbage = 4096" "\<forall>q. unat kernel_end div 4096 < q \<and> chunk_bit garbage q \<longrightarrow> available mmap kernel_end q"
    and fb: "aligned (ucast addr)" "0 < (ucast addr :: addr)" "unat (ucast addr :: addr) + pgs * 4096 \<le> 2 ^ 32"
    and pos: "0 < n" "0 \<notin> set szs" and le: "n \<le> 0x10000000"
    and fits: "0xE0000000 + sum_list (block_sizes szs) + n + unat height + 24 \<le> 0xF0000000"
    and room: "frames_needed szs + (2 * pgs + 2 * ((n + 12) div 4096 + 2) + 2 * ((unat height + 12) div 4096 + 2))
      \<le> card {q. available mmap kernel_end q}"
  shows "\<exists>v s1 ps s2 d. memory_setup garbage mmap kernel_end dir s = Some v
    \<and> vmallocs szs (start_heap v b) = Some (s1, ps) \<and> graphics_setup addr width height bpp pitch s1 = Some (s2, d)
    \<and> heap_inv s2 (block_sizes szs @ [n + 12, unat height + 12])
    \<and> d_width d = width \<and> d_height d = height \<and> d_pitch d = pitch
    \<and> d_front d = 0xD0000000 \<and> unat (d_back d) = 0xE0000000 + sum_list (block_sizes szs) + 12
    \<and> unat (d_dirty d) = unat (d_back d) + n + 12
    \<and> (\<forall>k < n. mmu_translate (hvm s2) (d_front d + of_nat k) = Some (ucast addr + of_nat k))
    \<and> (\<forall>a. unat (d_back d) \<le> unat a \<and> unat a < unat (d_back d) + n \<longrightarrow> is_mapped (hvm s2) a \<and> bytes s2 a = 0)
    \<and> (\<forall>a. unat (d_dirty d) \<le> unat a \<and> unat a < unat (d_dirty d) + unat height \<longrightarrow> is_mapped (hvm s2) a \<and> bytes s2 a = 0)
    \<and> (\<forall>i a. payload (block_sizes szs) i a \<longrightarrow> bytes s2 a = bytes s1 a)"
proof -
  have free: "free_at_boot garbage mmap kernel_end q \<longleftrightarrow> available mmap kernel_end q" for q
    using stack(2) by (auto simp: free_at_boot_def)
  obtain v where v: "memory_setup garbage mmap kernel_end dir s = Some v" "heap_inv (start_heap v b) []"
    "frames_left v = card {q. available mmap kernel_end q}"
    "\<forall>a. drop_bit 22 a \<noteq> 1023 \<longrightarrow> mmu_translate v a = (if drop_bit 22 a = 768 then Some (a - 0xC0000000) else None)"
    using memory_setup_ready [OF boot map kernel stack(1)] unfolding free by blast
  let ?r = "2 * pgs + 2 * ((n + 12) div 4096 + 2) + 2 * ((unat height + 12) div 4096 + 2)"
  have hvm: "hvm (start_heap v b) = v" by (simp add: start_heap_def)
  have "heap_end [] + sum_list (block_sizes szs) \<le> 0xF0000000" using fits by simp
  from vmallocs_correct [OF v(2) pos(2) this, of ?r] room obtain s1 ps where
    s1: "vmallocs szs (start_heap v b) = Some (s1, ps)" "heap_inv s1 (block_sizes szs)" "same_elsewhere v (hvm s1)"
    "?r \<le> frames_left (hvm s1)" by (auto simp: hvm v(3))
  have "vm_ready (hvm s1)" using s1(2) by (simp add: heap_inv_def heap_core_def)
  then have "fb_ready pgs (ucast addr) (hvm s1)" using fb_ready_start [OF v(4) s1(3)] fb by blast
  moreover have "heap_end (block_sizes szs) + n + unat height + 24 \<le> 0xF0000000"
    using fits by (simp add: heap_end_def block_at_def)
  ultimately obtain s2 d where d: "graphics_setup addr width height bpp pitch s1 = Some (s2, d)"
    "heap_inv s2 (block_sizes szs @ [n + 12, unat height + 12])" "d_front d = 0xD0000000"
    "unat (d_back d) = heap_end (block_sizes szs) + 12" "unat (d_dirty d) = heap_end (block_sizes szs) + n + 24"
    and rest: "\<forall>k < n. mmu_translate (hvm s2) (d_front d + of_nat k) = Some (ucast addr + of_nat k)"
    "\<forall>a. unat (d_back d) \<le> unat a \<and> unat a < unat (d_back d) + n \<longrightarrow> is_mapped (hvm s2) a \<and> bytes s2 a = 0"
    "\<forall>a. unat (d_dirty d) \<le> unat a \<and> unat a < unat (d_dirty d) + unat height \<longrightarrow> is_mapped (hvm s2) a \<and> bytes s2 a = 0"
    "\<forall>i a. payload (block_sizes szs) i a \<longrightarrow> bytes s2 a = bytes s1 a"
    using graphics_setup_maps [of s1 "block_sizes szs" height pitch addr width bpp] s1(2,4) pos(1) le
    unfolding n_def pgs_def by blast
  have "heap_end (block_sizes szs) = 0xE0000000 + sum_list (block_sizes szs)" by (simp add: heap_end_def block_at_def)
  then show ?thesis using v(1) s1(1) d rest graphics_setup_geometry [OF d(1)] by (intro exI conjI) (assumption | simp)+
qed

text \<open>A screen of 800 by 600 pixels of three bytes, and three earlier allocations.\<close>

theorem kernel_display_comes_up_witness:
  "\<exists>v s1 ps s2 d. memory_setup (replicate 4096 0) [sample_ram] 0x1FFFFF 0xC0100000 sample_boot = Some v
    \<and> vmallocs [68, 0x2000, 40] (start_heap v (\<lambda>_. 0)) = Some (s1, ps) \<and> graphics_setup 0xFD000000 800 600 24 2400 s1 = Some (s2, d)
    \<and> mmu_translate (hvm s2) (d_front d + 1439999) = Some (0xFD15F8FF)"
proof -
  have q: "{q. available [sample_ram] 0x1FFFFF q} = {512..<8192}" by (auto simp: sample_available)
  have region: "\<forall>e \<in> set [sample_ram]. usable e \<longrightarrow> entry_end e \<le> 131072" by (simp add: sample_ram_def entry_end_def)
  have phys: "(ucast (0xFD000000 :: u64) :: addr) = 0xFD000000" by simp
  have stack: "\<forall>q. unat (0x1FFFFF :: u32) div 4096 < q \<and> chunk_bit (replicate 4096 0) q \<longrightarrow> available [sample_ram] 0x1FFFFF q"
    using sample_free by (auto simp: free_at_boot_def sample_available)
  have "\<exists>v s1 ps s2 d. memory_setup (replicate 4096 0) [sample_ram] 0x1FFFFF 0xC0100000 sample_boot = Some v
    \<and> vmallocs [68, 0x2000, 40] (start_heap v (\<lambda>_. 0)) = Some (s1, ps) \<and> graphics_setup 0xFD000000 800 600 24 2400 s1 = Some (s2, d)
    \<and> (\<forall>k < unat (600 :: u32) * unat (2400 :: u32). mmu_translate (hvm s2) (d_front d + of_nat k) = Some (ucast (0xFD000000 :: u64) + of_nat k))"
    using kernel_display_comes_up [OF sample_booted _ region _ _ stack, of "0xFD000000" 600 2400 "[68, 0x2000, 40]" "\<lambda>_. 0" 800 24]
    by (simp add: q sample_boot_def phys aligned_def page_base_def block_sizes_def frames_needed_def) blast
  then obtain v s1 ps s2 d where *: "memory_setup (replicate 4096 0) [sample_ram] 0x1FFFFF 0xC0100000 sample_boot = Some v"
    "vmallocs [68, 0x2000, 40] (start_heap v (\<lambda>_. 0)) = Some (s1, ps)" "graphics_setup 0xFD000000 800 600 24 2400 s1 = Some (s2, d)"
    "\<forall>k < unat (600 :: u32) * unat (2400 :: u32). mmu_translate (hvm s2) (d_front d + of_nat k) = Some (ucast (0xFD000000 :: u64) + of_nat k)"
    by blast
  have "mmu_translate (hvm s2) (d_front d + 1439999) = Some 0xFD15F8FF" using *(4) [rule_format, of 1439999] by simp
  then show ?thesis using *(1-3) by blast
qed

end
