(* ===== verification/Kernel_Threads.thy ===== *)
theory Kernel_Threads
  imports Threads
begin

text \<open>
  The threads the kernel starts with: \<open>init_kthreads\<close> of \<open>kernel/proc/thread.cpp\<close> and the calls of the
  scheduler that enter each of them for the first time. The addresses of the four objects and of the
  functions they run are arguments.
\<close>

section \<open>The operation\<close>

text \<open>The titles \<open>keyboard_driver\<close>, \<open>graphics_driver\<close>, \<open>postbox_debug\<close> and \<open>tty_driver\<close>.\<close>

definition kthread_titles :: "u8 list list" where
  "kthread_titles =
     [[0x6B, 0x65, 0x79, 0x62, 0x6F, 0x61, 0x72, 0x64, 0x5F, 0x64, 0x72, 0x69, 0x76, 0x65, 0x72],
      [0x67, 0x72, 0x61, 0x70, 0x68, 0x69, 0x63, 0x73, 0x5F, 0x64, 0x72, 0x69, 0x76, 0x65, 0x72],
      [0x70, 0x6F, 0x73, 0x74, 0x62, 0x6F, 0x78, 0x5F, 0x64, 0x65, 0x62, 0x75, 0x67],
      [0x74, 0x74, 0x79, 0x5F, 0x64, 0x72, 0x69, 0x76, 0x65, 0x72]]"

fun start_threads :: "((addr \<times> thread) \<times> u8 list \<times> addr) list \<Rightarrow> kernel \<Rightarrow> kernel option" where
  "start_threads [] s = Some s"
| "start_threads (((p, raw), name, entry) # xs) s =
     Option.bind (start_thread s p raw (cstr name []) entry) (start_threads xs)"

(* src/kernel/proc/thread.cpp:80-89 init_kthreads *)
definition init_kthreads :: "(addr \<times> thread) list \<Rightarrow> addr list \<Rightarrow> kernel \<Rightarrow> kernel option" where
  "init_kthreads objects entries s = do {
     s \<leftarrow> start_threads (zip objects (zip kthread_titles entries)) s;
     Some (s\<lparr>thread_running := thread_root s\<rparr>)
   }"

section \<open>A thread that has not run yet\<close>

text \<open>The record of a thread but for its links, and the five words on its stack.\<close>

definition body :: "thread \<Rightarrow> thread" where
  "body t = t\<lparr>prev := 0, nxt := 0\<rparr>"

lemma body_eq:
  "body t = body t' \<longleftrightarrow> thread_id t = thread_id t' \<and> proc_id t = proc_id t' \<and> title t = title t'
     \<and> state_reg t = state_reg t' \<and> entry_ptr t = entry_ptr t' \<and> stack_ptr t = stack_ptr t' \<and> t_status t = t_status t'"
  by (cases t; cases t') (simp add: body_def)

definition first_frame :: "addr \<Rightarrow> addr set" where
  "first_frame p = {p + 4180, p + 4184, p + 4188, p + 4192, p + 4196}"

definition ready_at :: "kernel \<Rightarrow> addr \<Rightarrow> addr \<Rightarrow> bool" where
  "ready_at s p entry \<longleftrightarrow>
     (\<exists>t. threads s p = Some t \<and> r_esp (state_reg t) = p + 4180 \<and> stack_ptr t = p + 4180)
     \<and> map (stack_mem s) [p + 4180, p + 4184, p + 4188, p + 4192, p + 4196] = [0, 0, 0, 0, entry]"

lemma set_next_body:
  "set_next s t p = Some s' \<Longrightarrow> map_option body (threads s' q) = map_option body (threads s q)
    \<and> thread_running s' = thread_running s \<and> started s' = started s \<and> stack_mem s' = stack_mem s \<and> cpu s' = cpu s"
  by (auto simp: set_next_def body_def)

lemma set_prev_body:
  "set_prev s t p = Some s' \<Longrightarrow> map_option body (threads s' q) = map_option body (threads s q)
    \<and> thread_running s' = thread_running s \<and> started s' = started s \<and> stack_mem s' = stack_mem s \<and> cpu s' = cpu s"
  by (auto simp: set_prev_def body_def)

lemma link_thread_body:
  assumes "link_thread s p = Some s'"
  shows "map_option body (threads s' q) = map_option body (threads s q)
    \<and> thread_running s' = thread_running s \<and> started s' = started s \<and> stack_mem s' = stack_mem s \<and> cpu s' = cpu s"
proof (cases "thread_root s = 0")
  case True
  then show ?thesis using assms set_next_body [of "s\<lparr>thread_root := p\<rparr>" p p s' q] by (simp add: link_thread_def)
next
  case False
  then obtain t s1 s2 s3 where s: "set_prev s p t = Some s1" "set_next s1 t p = Some s2"
    "set_next s2 p (thread_root s2) = Some s3" "set_prev s3 (thread_root s3) p = Some s'"
    using assms by (auto simp: link_thread_def split: Option.bind_splits)
  show ?thesis
    using set_prev_body [OF s(1), of q] set_next_body [OF s(2), of q] set_next_body [OF s(3), of q]
      set_prev_body [OF s(4), of q] by simp
qed

text \<open>What \<open>start_thread\<close> leaves of the new thread and of the others.\<close>

lemma start_thread_new:
  assumes start: "start_thread s p raw (cstr name []) entry = Some s'" and name: "0 \<notin> set name"
  shows "ready_at s' p entry"
    and "\<exists>t. threads s' p = Some t \<and> thread_id t = next_tid s \<and> takeWhile (\<lambda>c. c \<noteq> 0) (title t) = name"
proof -
  obtain s0 t s1 where s: "make_thread s p raw (cstr name []) entry = Some (s0, t)"
    "link_thread (s0\<lparr>threads := (threads s0)(p \<mapsto> t)\<rparr>) p = Some s1" "s' = s1\<lparr>next_tid := next_tid s1 + 1\<rparr>"
    using start by (auto simp: start_thread_def split: Option.bind_splits)
  note link = link_thread_body [OF s(2)]
  have t: "r_esp (state_reg t) = p + 4180" "stack_ptr t = p + 4180" "thread_id t = next_tid s"
    "title t = name @ 0 # drop (Suc (length name)) (title raw)"
    "map (stack_mem s0) [p + 4180, p + 4184, p + 4188, p + 4192, p + 4196] = [0, 0, 0, 0, entry]"
    using s(1) strlen_cstr [OF name, of "[]"]
    by (auto simp: make_thread_def PUSH_def Let_def stack_offset_def cstr_def split: if_splits)
  obtain t' where t': "threads s' p = Some t'" "body t' = body t"
    using link [of p] by (cases "threads s1 p") (auto simp: s(3))
  then have eq: "state_reg t' = state_reg t" "stack_ptr t' = stack_ptr t" "thread_id t' = thread_id t" "title t' = title t"
    by (simp_all add: body_eq)
  show "ready_at s' p entry" using t t'(1) eq link s(3) by (simp add: ready_at_def)
  show "\<exists>t. threads s' p = Some t \<and> thread_id t = next_tid s \<and> takeWhile (\<lambda>c. c \<noteq> 0) (title t) = name"
    using t t'(1) eq name by (auto simp: takeWhile_append)
qed

lemma start_thread_others:
  assumes start: "start_thread s p raw name entry = Some s'"
  shows "q \<noteq> p \<Longrightarrow> map_option body (threads s' q) = map_option body (threads s q)"
    and "a \<notin> first_frame p \<Longrightarrow> stack_mem s' a = stack_mem s a"
    and "thread_running s' = thread_running s" and "started s' = started s" and "cpu s' = cpu s"
proof -
  obtain s0 t s1 where s: "make_thread s p raw name entry = Some (s0, t)"
    "link_thread (s0\<lparr>threads := (threads s0)(p \<mapsto> t)\<rparr>) p = Some s1" "s' = s1\<lparr>next_tid := next_tid s1 + 1\<rparr>"
    using start by (auto simp: start_thread_def split: Option.bind_splits)
  note link = link_thread_body [OF s(2)]
  have s0: "threads s0 = threads s" "thread_running s0 = thread_running s" "started s0 = started s" "cpu s0 = cpu s"
    "a \<notin> first_frame p \<Longrightarrow> stack_mem s0 a = stack_mem s a" for a
    using s(1) by (auto simp: make_thread_def PUSH_def Let_def stack_offset_def first_frame_def split: if_splits Option.bind_splits)
  show "map_option body (threads s' q) = map_option body (threads s q)" if "q \<noteq> p"
    using link [of q] that by (simp add: s(3) s0)
  show "stack_mem s' a = stack_mem s a" if "a \<notin> first_frame p"
    using link [of p] s0(5) [OF that] by (simp add: s(3))
  show "thread_running s' = thread_running s" "started s' = started s" "cpu s' = cpu s"
    using link [of p] s0 by (simp_all add: s(3))
qed

lemma ready_at_cong:
  assumes "ready_at s p entry" and "map_option body (threads s' p) = map_option body (threads s p)"
    and "\<And>a. a \<in> first_frame p \<Longrightarrow> stack_mem s' a = stack_mem s a"
  shows "ready_at s' p entry"
proof -
  obtain t where t: "threads s p = Some t" "r_esp (state_reg t) = p + 4180" "stack_ptr t = p + 4180"
    using assms(1) by (auto simp: ready_at_def)
  then obtain t' where "threads s' p = Some t'" "body t' = body t" using assms(2) by (cases "threads s' p") auto
  then show ?thesis using assms(1,3) t by (simp add: ready_at_def body_eq first_frame_def)
qed

section \<open>Starting all of them\<close>

definition apart :: "addr list \<Rightarrow> bool" where
  "apart ps \<longleftrightarrow> distinct ps \<and> 0 \<notin> set ps
     \<and> (\<forall>p \<in> set ps. \<forall>q \<in> set ps. p \<noteq> q \<longrightarrow> first_frame p \<inter> first_frame q = {})"

text \<open>Thread \<open>p\<close> was started under a number with a title, and has not run.\<close>

definition fresh_thread :: "kernel \<Rightarrow> addr \<Rightarrow> u32 \<Rightarrow> u8 list \<Rightarrow> addr \<Rightarrow> bool" where
  "fresh_thread s p tid name entry \<longleftrightarrow> ready_at s p entry
     \<and> (\<exists>t. threads s p = Some t \<and> thread_id t = tid \<and> takeWhile (\<lambda>c. c \<noteq> 0) (title t) = name)"

lemma fresh_thread_cong:
  assumes "fresh_thread s p tid name entry" and "map_option body (threads s' p) = map_option body (threads s p)"
    and "\<And>a. a \<in> first_frame p \<Longrightarrow> stack_mem s' a = stack_mem s a"
  shows "fresh_thread s' p tid name entry"
proof -
  obtain t where t: "threads s p = Some t" "thread_id t = tid" "takeWhile (\<lambda>c. c \<noteq> 0) (title t) = name"
    using assms(1) by (auto simp: fresh_thread_def)
  then obtain t' where "threads s' p = Some t'" "body t' = body t" using assms(2) by (cases "threads s' p") auto
  moreover have "ready_at s' p entry" using ready_at_cong [OF _ assms(2,3)] assms(1) by (simp add: fresh_thread_def)
  ultimately show ?thesis using t by (auto simp: fresh_thread_def body_eq)
qed

lemma start_threads_ring:
  assumes "threads_ok s ts" and "apart (ts @ map (\<lambda>x. fst (fst x)) xs)"
    and "\<forall>x \<in> set xs. 0 \<notin> set (fst (snd x)) \<and> length (fst (snd x)) < 255"
  shows "\<exists>s'. start_threads xs s = Some s' \<and> threads_ok s' (ts @ map (\<lambda>x. fst (fst x)) xs)
    \<and> started s' = started s \<and> cpu s' = cpu s
    \<and> (\<forall>i < length xs. fresh_thread s' (fst (fst (xs ! i))) (next_tid s + of_nat i) (fst (snd (xs ! i))) (snd (snd (xs ! i))))
    \<and> (\<forall>p tid name entry. p \<in> set ts \<and> fresh_thread s p tid name entry \<longrightarrow> fresh_thread s' p tid name entry)"
  using assms
proof (induction xs arbitrary: s ts)
  case (Cons x xs)
  obtain p raw name entry where x: "x = ((p, raw), name, entry)" by (metis prod.exhaust)
  have p: "p \<notin> set ts" "p \<noteq> 0" and name: "0 \<notin> set name" "length name < 255"
    using Cons.prems(2,3) by (auto simp: x apart_def)
  have "strlen (cstr name []) = Some (length name)" using strlen_cstr [OF name(1)] .
  from start_thread_appends [OF Cons.prems(1) p this name(2), of raw entry] obtain s1 where
    s1: "start_thread s p raw (cstr name []) entry = Some s1" "threads_ok s1 (ts @ [p])" "next_tid s1 = next_tid s + 1" by blast
  note other = start_thread_others [OF s1(1)]
  have new: "fresh_thread s1 p (next_tid s) name entry"
    using start_thread_new [OF s1(1) name(1)] by (simp add: fresh_thread_def)
  have old: "fresh_thread s1 q tid nm e" if "q \<in> set ts" "fresh_thread s q tid nm e" for q tid nm e
  proof (rule fresh_thread_cong [OF that(2)])
    have "q \<noteq> p" using that(1) p(1) by blast
    then show "map_option body (threads s1 q) = map_option body (threads s q)" by (rule other(1))
    have "first_frame q \<inter> first_frame p = {}"
      using Cons.prems(2) that(1) \<open>q \<noteq> p\<close> unfolding apart_def x by auto
    then show "stack_mem s1 a = stack_mem s a" if "a \<in> first_frame q" for a using other(2) that by blast
  qed
  have "apart ((ts @ [p]) @ map (\<lambda>x. fst (fst x)) xs)" "\<forall>x \<in> set xs. 0 \<notin> set (fst (snd x)) \<and> length (fst (snd x)) < 255"
    using Cons.prems(2,3) by (simp_all add: x)
  from Cons.IH [OF s1(2) this] obtain s' where s': "start_threads xs s1 = Some s'"
    "threads_ok s' ((ts @ [p]) @ map (\<lambda>x. fst (fst x)) xs)" "started s' = started s1" "cpu s' = cpu s1"
    and rest: "\<And>i. i < length xs \<Longrightarrow> fresh_thread s' (fst (fst (xs ! i))) (next_tid s1 + of_nat i) (fst (snd (xs ! i))) (snd (snd (xs ! i)))"
    and kept: "\<And>q tid nm e. q \<in> set (ts @ [p]) \<Longrightarrow> fresh_thread s1 q tid nm e \<Longrightarrow> fresh_thread s' q tid nm e"
    by blast
  have "fresh_thread s' (fst (fst ((x # xs) ! i))) (next_tid s + of_nat i) (fst (snd ((x # xs) ! i))) (snd (snd ((x # xs) ! i)))"
    if "i < length (x # xs)" for i
  proof (cases i)
    case 0
    then show ?thesis using kept [OF _ new] by (simp add: x)
  next
    case (Suc k)
    then show ?thesis using rest [of k] that s1(3) by (simp add: add.assoc)
  qed
  moreover have "start_threads (x # xs) s = Some s'" using s1(1) s'(1) by (simp add: x)
  ultimately show ?case using s' other(4,5) old kept by (auto simp: x)
qed simp

section \<open>Entering a thread\<close>

text \<open>The words the scheduler and \<open>switch_context\<close> push on the stack they are called on.\<close>

definition below :: "addr \<Rightarrow> addr set" where
  "below e = {e - 4, e - 8, e - 12, e - 16, e - 20, e - 24, e - 28}"

lemma scheduler_next_enters:
  assumes "next": "scheduler_next ra r s = Some s'" and st: "started s"
    and a: "thread_running s = a" "threads s a = Some t" "nxt t = p"
    and p: "threads s p = Some t'" "prev t' = a" "p \<noteq> a"
    and rdy: "ready_at s p entry" and clear: "below (esp (cpu s)) \<inter> first_frame p = {}"
  shows "eip (cpu s') = entry" and "int_enabled (cpu s')" and "esp (cpu s') = p + 4200"
    and "\<And>q. q \<noteq> a \<Longrightarrow> threads s' q = threads s q"
    and "\<And>w. w \<notin> below (esp (cpu s)) \<Longrightarrow> stack_mem s' w = stack_mem s w"
proof -
  define t0 where "t0 = (if r_esp r > 0xE0000000 then t\<lparr>state_reg := r\<rparr> else t)"
  define s0 where "s0 = s\<lparr>cpu := (cpu s)\<lparr>int_enabled := False\<rparr>, threads := (threads s)(a \<mapsto> t0), thread_running := p\<rparr>"
  define s2 where "s2 = push_word ra (push_word (esp_slot a) (push_word (esp_slot p) s0))"
  have t0: "nxt t0 = p" "prev t0 = prev t" using a(3) by (simp_all add: t0_def)
  have s2: "threads s2 = (threads s)(a \<mapsto> t0)" "esp (cpu s2) = esp (cpu s) - 12"
    "\<And>w. w \<notin> {esp (cpu s) - 4, esp (cpu s) - 8, esp (cpu s) - 12} \<Longrightarrow> stack_mem s2 w = stack_mem s w"
    by (simp_all add: s2_def s0_def push_word_def diff_diff_eq)
  have at_p: "((threads s)(a \<mapsto> t0)) p = Some t'" using p(1,3) by simp
  have "scheduler_next ra r s = switch_context (esp_slot (prev t')) (esp_slot p)
      (push_word ra (push_word (esp_slot (prev t')) (push_word (esp_slot p) s0)))"
    unfolding scheduler_next_def Let_def using st a
    by (simp del: fun_upd_apply add: at_p t0(1) s0_def push_word_running flip: t0_def)
  then have sw: "switch_context (esp_slot a) (esp_slot p) s2 = Some s'" using "next" p(2) by (simp add: s2_def)
  obtain x v where x: "threads s2 (esp_slot a - 40) = Some x"
    "threads s' = (threads s2)(esp_slot a - 40 \<mapsto> x\<lparr>state_reg := (state_reg x)\<lparr>r_esp := esp (cpu s2) - 16\<rparr>\<rparr>)"
    "load_esp (s2\<lparr>threads := threads s'\<rparr>) (esp_slot p) = Some v"
    "stack_mem s' = (stack_mem s2)(esp (cpu s2) - 4 := ebp (cpu s2), esp (cpu s2) - 8 := ebx (cpu s2),
           esp (cpu s2) - 12 := esi (cpu s2), esp (cpu s2) - 16 := edi (cpu s2))"
    "cpu s' = \<lparr>esp = v + 20, ebp = stack_mem s' (v + 12), ebx = stack_mem s' (v + 8),
           esi = stack_mem s' (v + 4), edi = stack_mem s' v, eip = stack_mem s' (v + 16), int_enabled = True\<rparr>"
    by (rule switch_context_eq [OF sw])
  have slot: "esp_slot q - 40 = q" for q by (simp add: esp_slot_def)
  have th: "threads s' q = threads s q" if "q \<noteq> a" for q using x(2) s2(1) that by (simp add: slot)
  have mem: "stack_mem s' w = stack_mem s w" if "w \<notin> below (esp (cpu s))" for w
  proof -
    have "w \<notin> {esp (cpu s2) - 4, esp (cpu s2) - 8, esp (cpu s2) - 12, esp (cpu s2) - 16}"
      "w \<notin> {esp (cpu s) - 4, esp (cpu s) - 8, esp (cpu s) - 12}"
      using that by (auto simp: below_def s2(2) diff_diff_eq)
    then show ?thesis using x(4) s2(3) [of w] by simp
  qed
  have "r_esp (state_reg t') = p + 4180" "stack_mem s (p + 4196) = entry"
    using rdy p(1) by (auto simp: ready_at_def)
  moreover have "v = r_esp (state_reg t')" using x(3) th [OF p(3)] p(1) by (simp add: load_esp_def slot)
  moreover have "p + 4196 \<notin> below (esp (cpu s))" using clear by (auto simp: first_frame_def)
  ultimately show "eip (cpu s') = entry" "int_enabled (cpu s')" "esp (cpu s') = p + 4200"
    using x(5) mem by (simp_all add: add.assoc)
  show "threads s' q = threads s q" if "q \<noteq> a" for q by (rule th [OF that])
  show "stack_mem s' w = stack_mem s w" if "w \<notin> below (esp (cpu s))" for w by (rule mem [OF that])
qed

text \<open>The first call of all enters the first thread, and pushes nothing.\<close>

lemma scheduler_first_enters:
  assumes "\<not> started s" and "ready_at s (thread_running s) entry"
  shows "\<exists>s'. scheduler_next ra r s = Some s' \<and> eip (cpu s') = entry \<and> int_enabled (cpu s')
    \<and> esp (cpu s') = thread_running s + 4200 \<and> threads s' = threads s \<and> thread_root s' = thread_root s
    \<and> stack_mem s' = stack_mem s \<and> thread_running s' = thread_running s \<and> started s'"
  using assms by (auto simp: scheduler_next_def Let_def ready_at_def set_context_def restore_eq add.assoc)

section \<open>The first round\<close>

text \<open>
  Between two calls of the scheduler the thread that runs does what it likes with the processor and with
  memory, as long as it leaves alone the records of the threads and the stacks of those that have not run,
  also by what the next call of the scheduler pushes.
\<close>

definition slice_ok :: "addr list \<Rightarrow> (kernel \<Rightarrow> kernel) \<Rightarrow> bool" where
  "slice_ok later f \<longleftrightarrow> (\<forall>s. threads (f s) = threads s \<and> thread_root (f s) = thread_root s
     \<and> thread_running (f s) = thread_running s \<and> started (f s) = started s
     \<and> (\<forall>p \<in> set later. below (esp (cpu (f s))) \<inter> first_frame p = {}
          \<and> (\<forall>a \<in> first_frame p. stack_mem (f s) a = stack_mem s a)))"

fun slices :: "((u32 \<times> registers) \<times> (kernel \<Rightarrow> kernel)) list \<Rightarrow> kernel \<Rightarrow> kernel option" where
  "slices [] s = Some s"
| "slices (((ra, r), f) # xs) s = Option.bind (scheduler_next ra r s) (\<lambda>s. slices xs (f s))"

text \<open>After \<open>k\<close> slices the last \<open>length ps - k\<close> threads have not run.\<close>

definition entered :: "addr list \<Rightarrow> addr list \<Rightarrow> nat \<Rightarrow> kernel \<Rightarrow> bool" where
  "entered ps entries k s \<longleftrightarrow> threads_ok s ps \<and> (started s \<longleftrightarrow> 0 < k) \<and> thread_running s = ps ! (k - 1)
     \<and> (\<forall>j < length ps. k \<le> j \<longrightarrow> ready_at s (ps ! j) (entries ! j)
          \<and> (0 < k \<longrightarrow> below (esp (cpu s)) \<inter> first_frame (ps ! j) = {}))"

lemma entered_next:
  assumes inv: "entered ps entries k s" and k: "k < length ps" and n: "2 \<le> length ps" and "apart ps"
  shows "\<exists>s'. scheduler_next ra r s = Some s' \<and> eip (cpu s') = entries ! k \<and> int_enabled (cpu s')
    \<and> thread_running s' = ps ! k \<and> threads_ok s' ps \<and> started s'
    \<and> (\<forall>j < length ps. k < j \<longrightarrow> ready_at s' (ps ! j) (entries ! j))"
proof (cases k)
  case 0
  have I: "threads_ok s ps" "\<not> started s" "thread_running s = ps ! 0" "ready_at s (ps ! 0) (entries ! 0)"
    "\<forall>j < length ps. ready_at s (ps ! j) (entries ! j)" using inv k 0 by (simp_all add: entered_def)
  obtain s' where s': "scheduler_next ra r s = Some s'" "eip (cpu s') = entries ! 0" "int_enabled (cpu s')"
    "threads s' = threads s" "thread_root s' = thread_root s" "stack_mem s' = stack_mem s"
    "thread_running s' = thread_running s" "started s'"
    using scheduler_first_enters [OF I(2), of "entries ! 0" ra r] I(3,4) by auto
  have "threads_ok s' ps" using I(1) s'(4,5) by (simp add: threads_ok_def nexts_def [abs_def] prevs_def [abs_def])
  then show ?thesis using s' I(3,5) 0 by (simp add: ready_at_def)
next
  case (Suc i)
  have I: "threads_ok s ps" "started s" "thread_running s = ps ! i"
    and rdy: "\<And>j. j < length ps \<Longrightarrow> k \<le> j \<Longrightarrow> ready_at s (ps ! j) (entries ! j)
      \<and> below (esp (cpu s)) \<inter> first_frame (ps ! j) = {}"
    using inv Suc by (simp_all add: entered_def)
  have i: "i < length ps" and mod: "Suc i mod length ps = k" "(k + length ps - 1) mod length ps = i"
    using k Suc by simp_all
  have dist: "distinct ps" using I(1) by (simp add: threads_ok_def)
  have ring: "nexts s (ps ! i) = Some (ps ! k)" "prevs s (ps ! k) = Some (ps ! i)"
    using I(1) n k i mod by (simp_all add: threads_ok_def ring_of_def)
  obtain t where t: "threads s (ps ! i) = Some t" "nxt t = ps ! k" using ring(1) nexts_eq by blast
  obtain t' where t': "threads s (ps ! k) = Some t'" "prev t' = ps ! i" using ring(2) by (auto simp: prevs_def)
  have ne: "ps ! k \<noteq> ps ! i" using dist k i Suc by (simp add: nth_eq_iff_index_eq)
  obtain s' where s': "scheduler_next ra r s = Some s'" "threads_ok s' ps" "started s'" "thread_running s' = ps ! k"
    using scheduler_next_ring [OF I(1) n I(2) i I(3), of ra r] mod by auto
  have r: "ready_at s (ps ! k) (entries ! k)" "below (esp (cpu s)) \<inter> first_frame (ps ! k) = {}"
    using rdy [OF k] by simp_all
  note enter = scheduler_next_enters [OF s'(1) I(2,3) t t' ne r]
  have "ready_at s' (ps ! j) (entries ! j)" if j: "j < length ps" "k < j" for j
  proof (rule ready_at_cong)
    show "ready_at s (ps ! j) (entries ! j)" using rdy [OF j(1)] j(2) by simp
    have "ps ! j \<noteq> ps ! i" using dist j i Suc by (simp add: nth_eq_iff_index_eq)
    then show "map_option body (threads s' (ps ! j)) = map_option body (threads s (ps ! j))" using enter(4) by simp
    show "stack_mem s' a = stack_mem s a" if "a \<in> first_frame (ps ! j)" for a
      using rdy [OF j(1)] j(2) that by (intro enter(5)) auto
  qed
  then show ?thesis using s' enter(1,2) by blast
qed

lemma slices_enter:
  assumes "entered ps entries k s" and "k + length xs \<le> length ps" and n: "2 \<le> length ps" and apart: "apart ps"
    and "\<forall>i < length xs. slice_ok (drop (Suc (k + i)) ps) (snd (xs ! i))"
  shows "\<exists>s'. slices xs s = Some s' \<and> entered ps entries (k + length xs) s'"
  using assms(1,2,5)
proof (induction xs arbitrary: k s)
  case (Cons x xs)
  obtain ra r f where x: "x = ((ra, r), f)" by (metis prod.exhaust)
  have k: "k < length ps" using Cons.prems(2) by simp
  from entered_next [OF Cons.prems(1) k n apart, of ra r] obtain s1 where s1: "scheduler_next ra r s = Some s1"
    "thread_running s1 = ps ! k" "threads_ok s1 ps" "started s1"
    "\<forall>j < length ps. k < j \<longrightarrow> ready_at s1 (ps ! j) (entries ! j)" by blast
  have f: "slice_ok (drop (Suc k) ps) f" using Cons.prems(3) [rule_format, of 0] by (simp add: x)
  have later: "ps ! j \<in> set (drop (Suc k) ps)" if "j < length ps" "k < j" for j
    using that by (auto simp: in_set_conv_nth intro!: exI [of _ "j - Suc k"])
  have "entered ps entries (Suc k) (f s1)"
    unfolding entered_def
  proof (intro conjI allI impI)
    show "threads_ok (f s1) ps"
      using f s1(3) by (simp add: slice_ok_def threads_ok_def nexts_def [abs_def] prevs_def [abs_def])
    show "started (f s1) \<longleftrightarrow> 0 < Suc k" "thread_running (f s1) = ps ! (Suc k - 1)"
      using f s1(2,4) by (simp_all add: slice_ok_def)
    fix j assume j: "j < length ps" "Suc k \<le> j"
    then have l: "ps ! j \<in> set (drop (Suc k) ps)" using later by simp
    show "ready_at (f s1) (ps ! j) (entries ! j)"
      by (rule ready_at_cong [of s1]) (use f l s1(5) j in \<open>auto simp: slice_ok_def\<close>)
    show "below (esp (cpu (f s1))) \<inter> first_frame (ps ! j) = {}" using f l by (simp add: slice_ok_def)
  qed
  moreover have "\<forall>i < length xs. slice_ok (drop (Suc (Suc k + i)) ps) (snd (xs ! i))"
    using Cons.prems(3) by (auto dest: spec [of _ "Suc _"])
  ultimately show ?case using Cons.IH [of "Suc k" "f s1"] Cons.prems(2) s1(1) by (simp add: x)
qed simp

lemma kthread_titles_ok: "length kthread_titles = 4" "\<forall>name \<in> set kthread_titles. 0 \<notin> set name \<and> length name < 255"
  by (simp_all add: kthread_titles_def)

text \<open>
  Property C7: After \<open>init_kthreads\<close> the four threads form the ring in the order they were started, under the
  numbers 1 to 4 and their titles; and each of the first four calls of the scheduler enters the next one of
  them at its function, with interrupts on, whatever the threads before it did to the processor and to
  memory outside the other threads.
\<close>

theorem kernel_threads_enter:
  assumes ps: "map fst objects = ps" "apart ps" "length ps = 4" "length entries = 4"
    and s: "threads_ok s []" "next_tid s = 1" "\<not> started s"
    and xs: "length xs < 4" "\<forall>i < length xs. slice_ok (drop (Suc i) ps) (snd (xs ! i))"
  shows "\<exists>s0 s1 s2. init_kthreads objects entries s = Some s0 \<and> threads_ok s0 ps
    \<and> (\<forall>i < 4. fresh_thread s0 (ps ! i) (1 + of_nat i) (kthread_titles ! i) (entries ! i))
    \<and> slices xs s0 = Some s1 \<and> scheduler_next ra r s1 = Some s2
    \<and> thread_running s2 = ps ! length xs \<and> eip (cpu s2) = entries ! length xs \<and> int_enabled (cpu s2)"
proof -
  let ?xs = "zip objects (zip kthread_titles entries)"
  have len: "length objects = 4" using ps(1,3) by (metis length_map)
  have "map (\<lambda>x. fst (fst x)) ?xs = map fst (map fst ?xs)" by simp
  also have "map fst ?xs = objects" using len ps(4) kthread_titles_ok(1) by simp
  finally have fsts: "map (\<lambda>x. fst (fst x)) ?xs = ps" using ps(1) by simp
  have names: "\<forall>x \<in> set ?xs. 0 \<notin> set (fst (snd x)) \<and> length (fst (snd x)) < 255"
    using kthread_titles_ok(2) by (auto simp: set_zip)
  have "apart ([] @ map (\<lambda>x. fst (fst x)) ?xs)" using fsts ps(2) by simp
  from start_threads_ring [OF s(1) this names] obtain s' where s': "start_threads ?xs s = Some s'"
    "threads_ok s' ps" "started s' = started s"
    and fresh: "\<And>i. i < 4 \<Longrightarrow> fresh_thread s' (ps ! i) (1 + of_nat i) (kthread_titles ! i) (entries ! i)"
    using fsts len ps(1,4) kthread_titles_ok(1) s(2) by (auto simp: min_def)
  let ?s0 = "s'\<lparr>thread_running := thread_root s'\<rparr>"
  have "ps \<noteq> []" using ps(3) by auto
  then have root: "thread_root s' = ps ! 0" using s'(2) by (simp add: threads_ok_def hd_conv_nth)
  have ok: "threads_ok ?s0 ps" using s'(2) by (simp add: threads_ok_def nexts_def [abs_def] prevs_def [abs_def])
  have fr: "fresh_thread ?s0 (ps ! i) (1 + of_nat i) (kthread_titles ! i) (entries ! i)" if "i < 4" for i
    using fresh [OF that] by (simp add: fresh_thread_def ready_at_def)
  have "entered ps entries 0 ?s0"
    using ok s(3) s'(3) fr ps(3) root by (simp add: entered_def fresh_thread_def)
  from slices_enter [OF this _ _ ps(2), of xs] xs ps(3) obtain s1 where
    s1: "slices xs ?s0 = Some s1" "entered ps entries (length xs) s1" by auto
  from entered_next [OF s1(2) _ _ ps(2), of ra r] xs(1) ps(3) obtain s2 where "scheduler_next ra r s1 = Some s2"
    "eip (cpu s2) = entries ! length xs" "int_enabled (cpu s2)" "thread_running s2 = ps ! length xs" by auto
  moreover have "init_kthreads objects entries s = Some ?s0" using s'(1) by (simp add: init_kthreads_def)
  ultimately show ?thesis using ok fr s1(1) by blast
qed

text \<open>Two slices: the keyboard thread returns from an interrupt, the display thread pushes a word.\<close>

theorem kernel_threads_enter_witness:
  "\<exists>s0 s1 s2. init_kthreads [(0xE0001000, raw_thread), (0xE0003000, raw_thread), (0xE0005000, raw_thread), (0xE0007000, raw_thread)]
      [0xC0100000, 0xC0200000, 0xC0300000, 0xC0400000] boot_kernel = Some s0
    \<and> slices [((9, no_registers), \<lambda>s. s\<lparr>cpu := (cpu s)\<lparr>esp := 0xE0001800\<rparr>\<rparr>),
        ((9, no_registers), \<lambda>s. s\<lparr>cpu := (cpu s)\<lparr>esp := 0xE0003800\<rparr>, stack_mem := (stack_mem s)(0xE0003800 := 5)\<rparr>)] s0 = Some s1
    \<and> scheduler_next 9 no_registers s1 = Some s2 \<and> thread_running s2 = 0xE0005000 \<and> eip (cpu s2) = 0xC0300000"
proof -
  let ?ps = "[0xE0001000, 0xE0003000, 0xE0005000, 0xE0007000] :: addr list"
  let ?objs = "[(0xE0001000, raw_thread), (0xE0003000, raw_thread), (0xE0005000, raw_thread), (0xE0007000, raw_thread)]"
  let ?xs = "[((9 :: u32, no_registers), \<lambda>s. s\<lparr>cpu := (cpu s)\<lparr>esp := 0xE0001800\<rparr>\<rparr>),
        ((9, no_registers), \<lambda>s. s\<lparr>cpu := (cpu s)\<lparr>esp := 0xE0003800\<rparr>, stack_mem := (stack_mem s)(0xE0003800 := 5)\<rparr>)]"
  let ?es = "[0xC0100000, 0xC0200000, 0xC0300000, 0xC0400000] :: addr list"
  have ps: "map fst ?objs = ?ps" "apart ?ps" "length ?ps = 4" "length ?es = 4"
    by (simp_all add: apart_def first_frame_def)
  have s: "next_tid boot_kernel = 1" "\<not> started boot_kernel" by (simp_all add: boot_kernel_def)
  have xs: "length ?xs < 4" "\<forall>i < length ?xs. slice_ok (drop (Suc i) ?ps) (snd (?xs ! i))"
    by simp (simp add: less_Suc_eq slice_ok_def below_def first_frame_def)
  show ?thesis using kernel_threads_enter [OF ps boot_kernel_ring s xs, of 9 no_registers] by auto
qed

end
