(* ===== verification/Type_Info.thy ===== *)
theory Type_Info
  imports Prelude
begin

unbundle bit_operations_syntax

text \<open>
  Run-time types: \<open>include/libcxxrt/typeinfo.h\<close> and \<open>libcxxrt/dynamic_cast.cpp\<close>. The compiler emits one
  object per type, which says what kind of type it is and names the types it is made of; two types are the
  same when these objects are at the same address. A table \<open>T\<close> maps the addresses to the objects, and \<open>w\<close>
  reads a word of memory: the pointer to the table of virtual functions at the start of an object, and what
  lies around that table.
\<close>

section \<open>Types\<close>

(* src/include/libcxxrt/typeinfo.h:186-231 __base_class_type_info *)
record base_class =
  base_type :: addr
  offset_flags :: u32

(* src/include/libcxxrt/typeinfo.h:212-215 __base_class_type_info::offset *)
definition base_offset :: "base_class \<Rightarrow> u32" where
  "base_offset b = signed_drop_bit 8 (offset_flags b)"

(* src/include/libcxxrt/typeinfo.h:219-222 __base_class_type_info::flags *)
definition base_flags :: "base_class \<Rightarrow> u32" where
  "base_flags b = offset_flags b AND (push_bit 8 1 - 1)"

(* src/include/libcxxrt/typeinfo.h:226-226 __base_class_type_info::isPublic *)
definition is_public :: "base_class \<Rightarrow> bool" where
  "is_public b \<longleftrightarrow> base_flags b AND 2 \<noteq> 0"

(* src/include/libcxxrt/typeinfo.h:230-230 __base_class_type_info::isVirtual *)
definition is_virtual :: "base_class \<Rightarrow> bool" where
  "is_virtual b \<longleftrightarrow> base_flags b AND 1 \<noteq> 0"

text \<open>The classes that derive from \<open>type_info\<close>; \<open>__base_info\<close> has \<open>__base_count\<close> entries.\<close>

(* src/include/libcxxrt/typeinfo.h:124-263 __class_type_info *)
datatype type_kind =
    Fundamental_Type
  | Array_Type
  | Function_Type
  | Enum_Type
  | Class_Type
  | Si_Class_Type addr
  | Vmi_Class_Type u32 "base_class list"
  | Pointer_Type u32 addr
  | Pointer_To_Member_Type u32 addr addr

(* src/include/libcxxrt/typeinfo.h:52-69 type_info *)
record type_info =
  type_name :: addr
  type_kind :: type_kind

type_synonym types = "addr \<Rightarrow> type_info option"
type_synonym word_reads = "addr \<Rightarrow> u32 option"

fun is_class :: "type_kind \<Rightarrow> bool" where
  "is_class Class_Type = True"
| "is_class (Si_Class_Type b) = True"
| "is_class (Vmi_Class_Type fl bs) = True"
| "is_class _ = False"

(* src/include/libcxxrt/typeinfo.h:304-308 __pointer_type_info::__is_pointer_p *)
fun is_pointer_p :: "type_kind \<Rightarrow> bool" where
  "is_pointer_p (Pointer_Type fl p) = True"
| "is_pointer_p _ = False"

(* src/include/libcxxrt/typeinfo.h:138-142 __function_type_info::__is_function_p *)
fun is_function_p :: "type_kind \<Rightarrow> bool" where
  "is_function_p Function_Type = True"
| "is_function_p _ = False"

(* src/libcxxrt/typeinfo.cpp:36-39 type_info::operator== *)
definition type_eq :: "type_info \<Rightarrow> type_info \<Rightarrow> bool" where
  "type_eq t other \<longleftrightarrow> type_name t = type_name other"

(* src/libcxxrt/typeinfo.cpp:40-43 type_info::operator!= *)
definition type_neq :: "type_info \<Rightarrow> type_info \<Rightarrow> bool" where
  "type_neq t other \<longleftrightarrow> type_name t \<noteq> type_name other"

(* src/libcxxrt/typeinfo.cpp:44-47 type_info::before *)
definition type_before :: "type_info \<Rightarrow> type_info \<Rightarrow> bool" where
  "type_before t other \<longleftrightarrow> type_name t < type_name other"

section \<open>Upcasts\<close>

text \<open>Where a base class of the object at \<open>obj\<close> is: a virtual one is found through the object's table.\<close>

(* src/libcxxrt/dynamic_cast.cpp:156-176 __vmi_class_type_info::__do_upcast *)
definition base_object :: "word_reads \<Rightarrow> base_class \<Rightarrow> addr \<Rightarrow> addr option" where
  "base_object w info obj =
     (if is_virtual info then do {
        vtable \<leftarrow> w obj;
        off \<leftarrow> w (vtable + base_offset info);
        Some (obj + off)
      } else Some (obj + base_offset info))"

text \<open>The loop over the bases; \<open>up\<close> is the upcast of a base. The result has the flag and the object's address.\<close>

(* src/libcxxrt/dynamic_cast.cpp:153-184 __vmi_class_type_info::__do_upcast *)
primrec try_bases :: "(addr \<Rightarrow> addr \<Rightarrow> (bool \<times> addr) option) \<Rightarrow> word_reads \<Rightarrow> addr \<Rightarrow> addr \<Rightarrow> base_class list \<Rightarrow> (bool \<times> addr) option" where
  "try_bases up w target obj [] = Some (False, obj)"
| "try_bases up w target obj (info # infos) = do {
     cast \<leftarrow> base_object w info obj;
     if base_type info = target then Some (True, cast)
     else do {
       (ok, cast) \<leftarrow> up (base_type info) cast;
       if ok then Some (True, cast) else try_bases up w target obj infos
     }
   }"

lemma try_bases_mono [partial_function_mono]:
  assumes "\<And>b obj. mono_option (\<lambda>f. up f b obj)"
  shows "mono_option (\<lambda>f. try_bases (up f) w target obj infos)"
proof (induction infos)
  case (Cons info infos)
  show ?case
    unfolding try_bases.simps case_prod_beta
    by (intro bind_mono option.const_mono if_mono) (use Cons.IH assms in \<open>auto simp: monotone_def\<close>)
qed (simp add: monotone_def fun_ord_def flat_ord_def)

text \<open>
  The three classes' own versions of the virtual function, and the one of \<open>type_info\<close> for all other types.
\<close>

(* src/libcxxrt/dynamic_cast.cpp:127-184 __si_class_type_info::__do_upcast *)
partial_function (option) do_upcast :: "types \<Rightarrow> word_reads \<Rightarrow> addr \<Rightarrow> addr \<Rightarrow> addr \<Rightarrow> (bool \<times> addr) option" where
  "do_upcast T w target this obj = do {
     t \<leftarrow> T this;
     case type_kind t of
       Class_Type \<Rightarrow> Some (this = target, obj)
     | Si_Class_Type base \<Rightarrow> if this = target then Some (True, obj) else do_upcast T w target base obj
     | Vmi_Class_Type fl infos \<Rightarrow>
         if this = target then Some (True, obj) else try_bases (do_upcast T w target) w target obj infos
     | _ \<Rightarrow> Some (False, obj)
   }"

(* src/libcxxrt/dynamic_cast.cpp:110-144 __class_type_info::cast_to *)
partial_function (option) cast_to :: "types \<Rightarrow> word_reads \<Rightarrow> addr \<Rightarrow> addr \<Rightarrow> addr \<Rightarrow> addr option" where
  "cast_to T w this obj other = do {
     t \<leftarrow> T this;
     case type_kind t of
       Class_Type \<Rightarrow> Some (if this = other then obj else 0)
     | Si_Class_Type base \<Rightarrow> if this = other then Some obj else cast_to T w base obj other
     | Vmi_Class_Type fl infos \<Rightarrow> do {
         (ok, obj) \<leftarrow> do_upcast T w other this obj;
         Some (if ok then obj else 0)
       }
     | _ \<Rightarrow> None
   }"

text \<open>The header in front of the table of virtual functions: where the whole object starts, and its type.\<close>

(* src/libcxxrt/dynamic_cast.cpp:200-210 __dynamic_cast *)
definition dynamic_cast :: "types \<Rightarrow> word_reads \<Rightarrow> addr \<Rightarrow> addr \<Rightarrow> addr \<Rightarrow> u32 \<Rightarrow> addr option" where
  "dynamic_cast T w sub src dst src2dst_offset = do {
     vtable_location \<leftarrow> w sub;
     leaf_offset \<leftarrow> w (vtable_location - 8);
     type \<leftarrow> w (vtable_location - 4);
     cast_to T w type (sub + leaf_offset) dst
   }"

section \<open>Base class subobjects\<close>

text \<open>
  What a cast is for: the object of class \<open>c\<close> at \<open>obj\<close> contains an object of each of its base classes,
  and those contain objects of theirs.
\<close>

definition base_infos :: "types \<Rightarrow> addr \<Rightarrow> base_class list" where
  "base_infos T c = (case T c of
     Some t \<Rightarrow> (case type_kind t of Vmi_Class_Type fl infos \<Rightarrow> infos | _ \<Rightarrow> [])
   | None \<Rightarrow> [])"

inductive direct_base :: "types \<Rightarrow> word_reads \<Rightarrow> addr \<times> addr \<Rightarrow> addr \<times> addr \<Rightarrow> bool" for T w where
  single: "T c = Some t \<Longrightarrow> type_kind t = Si_Class_Type b \<Longrightarrow> direct_base T w (c, obj) (b, obj)"
| multiple: "info \<in> set (base_infos T c) \<Longrightarrow> base_object w info obj = Some obj'
    \<Longrightarrow> direct_base T w (c, obj) (base_type info, obj')"

inductive_cases direct_baseE: "direct_base T w (c, obj) s"

definition subobject :: "types \<Rightarrow> word_reads \<Rightarrow> addr \<times> addr \<Rightarrow> addr \<times> addr \<Rightarrow> bool" where
  "subobject T w = (direct_base T w)\<^sup>*\<^sup>*"

text \<open>
  Types as a compiler emits them: whatever a type is made of has an object too and comes before it in some
  order, base classes are classes, and the tables of the subobjects can be read.
\<close>

fun parts :: "type_kind \<Rightarrow> addr set" where
  "parts (Si_Class_Type b) = {b}"
| "parts (Vmi_Class_Type fl infos) = base_type ` set infos"
| "parts (Pointer_Type fl p) = {p}"
| "parts (Pointer_To_Member_Type fl p c) = {p}"
| "parts _ = {}"

definition emitted :: "types \<Rightarrow> (addr \<Rightarrow> nat) \<Rightarrow> bool" where
  "emitted T rank \<longleftrightarrow> (\<forall>c t. T c = Some t \<longrightarrow> (\<forall>b \<in> parts (type_kind t). rank b < rank c
     \<and> (\<exists>u. T b = Some u \<and> (is_class (type_kind t) \<longrightarrow> is_class (type_kind u)))))"

definition tables_readable :: "types \<Rightarrow> word_reads \<Rightarrow> addr \<times> addr \<Rightarrow> bool" where
  "tables_readable T w s \<longleftrightarrow> (\<forall>d obj. subobject T w s (d, obj)
     \<longrightarrow> (\<forall>info \<in> set (base_infos T d). base_object w info obj \<noteq> None))"

lemma subobject_refl: "subobject T w s s"
  by (simp add: subobject_def)

lemma subobject_step: "direct_base T w s t \<Longrightarrow> subobject T w t u \<Longrightarrow> subobject T w s u"
  by (simp add: subobject_def converse_rtranclp_into_rtranclp)

lemma subobject_cases:
  "subobject T w s u \<longleftrightarrow> s = u \<or> (\<exists>t. direct_base T w s t \<and> subobject T w t u)"
  unfolding subobject_def by (auto elim: converse_rtranclpE intro: converse_rtranclp_into_rtranclp)

lemma tables_readable_step: "tables_readable T w s \<Longrightarrow> direct_base T w s t \<Longrightarrow> tables_readable T w t"
  unfolding tables_readable_def by (blast intro: subobject_step)

lemma emittedD:
  assumes "emitted T rank" and "T c = Some t" and "b \<in> parts (type_kind t)"
  shows "rank b < rank c" and "\<exists>u. T b = Some u \<and> (is_class (type_kind t) \<longrightarrow> is_class (type_kind u))"
  using assms unfolding emitted_def by blast+

lemma direct_base_class: "T c = Some t \<Longrightarrow> type_kind t = Class_Type \<Longrightarrow> \<not> direct_base T w (c, obj) s"
  by (auto elim!: direct_baseE simp: base_infos_def)

lemma direct_base_single: "T c = Some t \<Longrightarrow> type_kind t = Si_Class_Type b
    \<Longrightarrow> direct_base T w (c, obj) s \<longleftrightarrow> s = (b, obj)"
  by (auto elim!: direct_baseE simp: base_infos_def intro: direct_base.intros)

lemma direct_base_multiple: "T c = Some t \<Longrightarrow> type_kind t = Vmi_Class_Type fl infos
    \<Longrightarrow> direct_base T w (c, obj) s
      \<longleftrightarrow> (\<exists>info \<in> set infos. base_type info = fst s \<and> base_object w info obj = Some (snd s))"
  by (cases s) (auto elim!: direct_baseE simp: base_infos_def intro: direct_base.multiple)

text \<open>What an upcast returns, seen from the subobjects.\<close>

definition upcast_result :: "types \<Rightarrow> word_reads \<Rightarrow> addr \<Rightarrow> addr \<times> addr \<Rightarrow> bool \<times> addr \<Rightarrow> bool" where
  "upcast_result T w target s r \<longleftrightarrow>
     (if fst r then subobject T w s (target, snd r)
      else snd r = snd s \<and> \<not> (\<exists>obj. subobject T w s (target, obj)))"

definition bases_result :: "types \<Rightarrow> word_reads \<Rightarrow> addr \<Rightarrow> addr \<Rightarrow> base_class list \<Rightarrow> bool \<times> addr \<Rightarrow> bool" where
  "bases_result T w target obj infos r \<longleftrightarrow>
     (if fst r then \<exists>info \<in> set infos. \<exists>b. base_object w info obj = Some b \<and> subobject T w (base_type info, b) (target, snd r)
      else snd r = obj \<and> (\<forall>info \<in> set infos. \<forall>b. base_object w info obj = Some b
        \<longrightarrow> \<not> (\<exists>o'. subobject T w (base_type info, b) (target, o'))))"

lemma try_bases_correct:
  assumes "\<And>info obj'. info \<in> set infos \<Longrightarrow> base_object w info obj = Some obj'
      \<Longrightarrow> \<exists>r. up (base_type info) obj' = Some r \<and> upcast_result T w target (base_type info, obj') r"
    and "\<forall>info \<in> set infos. base_object w info obj \<noteq> None"
  shows "\<exists>r. try_bases up w target obj infos = Some r \<and> bases_result T w target obj infos r"
  using assms
proof (induction infos)
  case (Cons info infos)
  obtain b where b: "base_object w info obj = Some b" using Cons.prems(2) by auto
  obtain ok o1 where up: "up (base_type info) b = Some (ok, o1)" "upcast_result T w target (base_type info, b) (ok, o1)"
    using Cons.prems(1) [of info b] b by (metis list.set_intros(1) surj_pair)
  show ?case
  proof (cases "base_type info = target \<or> ok")
    case True
    then have "try_bases up w target obj (info # infos) = Some (True, if base_type info = target then b else o1)"
      "subobject T w (base_type info, b) (target, if base_type info = target then b else o1)"
      using b up by (auto simp: subobject_refl upcast_result_def)
    then show ?thesis using b by (auto simp: bases_result_def)
  next
    case False
    then have skip: "try_bases up w target obj (info # infos) = try_bases up w target obj infos"
      "\<not> (\<exists>o'. subobject T w (base_type info, b) (target, o'))" using b up by (simp_all add: upcast_result_def)
    have "\<exists>r. try_bases up w target obj infos = Some r \<and> bases_result T w target obj infos r"
      by (rule Cons.IH) (use Cons.prems in simp_all)
    moreover have "bases_result T w target obj infos r \<Longrightarrow> bases_result T w target obj (info # infos) r" for r
      using b skip(2) by (auto simp: bases_result_def)
    ultimately show ?thesis unfolding skip(1) by blast
  qed
qed (simp add: bases_result_def)

lemma do_upcast_total:
  assumes "emitted T rank" and "T this = Some t" and "is_class (type_kind t)" and "tables_readable T w (this, obj)"
  shows "\<exists>r. do_upcast T w target this obj = Some r \<and> upcast_result T w target (this, obj) r"
  using assms(2-4)
proof (induction "rank this" arbitrary: this t obj rule: less_induct)
  case less
  note T = less.prems(1)
  show ?case
  proof (cases "this = target")
    case True
    then have "do_upcast T w target this obj = Some (True, obj)"
      using less.prems(2) T by (subst do_upcast.simps) (cases "type_kind t"; simp)
    then show ?thesis using True by (simp add: upcast_result_def subobject_refl)
  next
    case False
    show ?thesis
    proof (cases "type_kind t")
      case Class_Type
      moreover have "\<not> subobject T w (this, obj) (target, o')" for o'
        using False direct_base_class [of T this t] T Class_Type by (subst subobject_cases) simp
      ultimately show ?thesis using False T by (subst do_upcast.simps) (simp add: upcast_result_def)
    next
      case (Si_Class_Type b)
      obtain u where u: "rank b < rank this" "T b = Some u" "is_class (type_kind u)"
        using emittedD [OF assms(1) T, of b] Si_Class_Type by auto
      have base: "direct_base T w (this, obj) s \<longleftrightarrow> s = (b, obj)" for s using direct_base_single [of T this t] T Si_Class_Type by blast
      obtain r where r: "do_upcast T w target b obj = Some r" "upcast_result T w target (b, obj) r"
        using less.hyps [OF u] tables_readable_step [OF less.prems(3)] base by blast
      have "upcast_result T w target (this, obj) r"
        using r(2) False unfolding upcast_result_def by (subst (1 2) subobject_cases) (auto simp: base)
      then show ?thesis using r(1) False T Si_Class_Type by (subst do_upcast.simps) simp
    next
      case (Vmi_Class_Type fl infos)
      have base: "direct_base T w (this, obj) s
          \<longleftrightarrow> (\<exists>info \<in> set infos. base_type info = fst s \<and> base_object w info obj = Some (snd s))" for s
        using direct_base_multiple [of T this t] T Vmi_Class_Type by blast
      have "\<exists>r. do_upcast T w target (base_type info) obj' = Some r \<and> upcast_result T w target (base_type info, obj') r"
        if info: "info \<in> set infos" "base_object w info obj = Some obj'" for info obj'
      proof -
        obtain u where "rank (base_type info) < rank this" "T (base_type info) = Some u" "is_class (type_kind u)"
          using emittedD [OF assms(1) T, of "base_type info"] Vmi_Class_Type info(1) by auto
        then show ?thesis using less.hyps tables_readable_step [OF less.prems(3)] base info by fastforce
      qed
      moreover have "\<forall>info \<in> set infos. base_object w info obj \<noteq> None"
        using less.prems(3) Vmi_Class_Type T subobject_refl [of T w "(this, obj)"]
        by (auto simp: tables_readable_def base_infos_def split: option.splits)
      ultimately obtain r where tb: "try_bases (do_upcast T w target) w target obj infos = Some r"
        "bases_result T w target obj infos r" using try_bases_correct by blast
      have "upcast_result T w target (this, obj) r"
        using tb(2) False unfolding upcast_result_def bases_result_def
        by (subst (1 2) subobject_cases) (fastforce simp: base split: if_splits)
      then show ?thesis using tb(1) False T Vmi_Class_Type by (subst do_upcast.simps) simp
    qed (use less.prems in simp_all)
  qed
qed

section \<open>Dynamic casts\<close>

lemma cast_to_upcast:
  assumes "emitted T rank" and "T this = Some t" and "is_class (type_kind t)"
  shows "cast_to T w this obj other = map_option (\<lambda>(ok, obj). if ok then obj else 0) (do_upcast T w other this obj)"
  using assms(2,3)
proof (induction "rank this" arbitrary: this t rule: less_induct)
  case less
  note T = less.prems(1)
  show ?case
  proof (cases "type_kind t")
    case Class_Type
    then show ?thesis using T by (subst cast_to.simps, subst do_upcast.simps) simp
  next
    case (Si_Class_Type b)
    then obtain u where "rank b < rank this" "T b = Some u" "is_class (type_kind u)"
      using emittedD [OF assms(1) T, of b] by auto
    then have "cast_to T w b obj other = map_option (\<lambda>(ok, obj). if ok then obj else 0) (do_upcast T w other b obj)"
      using less.hyps by blast
    then show ?thesis using T Si_Class_Type by (subst cast_to.simps, subst do_upcast.simps) simp
  next
    case (Vmi_Class_Type fl infos)
    then show ?thesis using T by (subst cast_to.simps) (simp add: map_option_case split: option.splits)
  qed (use less.prems in simp_all)
qed

text \<open>
  Property C26: A dynamic cast starts at the whole object, wherever in it the pointer points, and returns an object
  of the class asked for that is a base class object of the whole object, and null when there is none.
\<close>

theorem dynamic_cast_correct:
  assumes T: "emitted T rank" "T type = Some t" "is_class (type_kind t)"
    and header: "w sub = Some vt" "w (vt - 8) = Some off" "w (vt - 4) = Some type"
    and tables: "tables_readable T w (type, sub + off)"
  shows "\<exists>r. dynamic_cast T w sub src dst hint = Some r
    \<and> (if \<exists>obj. subobject T w (type, sub + off) (dst, obj) then subobject T w (type, sub + off) (dst, r) else r = 0)
    \<and> (\<forall>obj. (\<forall>obj'. subobject T w (type, sub + off) (dst, obj') \<longleftrightarrow> obj' = obj) \<longrightarrow> r = obj)"
proof -
  obtain ok r where r: "do_upcast T w dst type (sub + off) = Some (ok, r)" "upcast_result T w dst (type, sub + off) (ok, r)"
    using do_upcast_total [OF T tables] by (metis surj_pair)
  have "dynamic_cast T w sub src dst hint = Some (if ok then r else 0)"
    using header by (simp add: dynamic_cast_def cast_to_upcast [OF T] r(1))
  then show ?thesis using r(2) by (cases ok; simp add: upcast_result_def; blast)
qed

text \<open>
  A class with two bases that are each derived from a third class, and an object of it: the compiler puts the
  second base four bytes behind the first one. Further, pointers to a fundamental type, to a base class and to a
  derived class, and pointers to those.
\<close>

definition sample_types :: types where
  "sample_types = [0x10 \<mapsto> \<lparr>type_name = 1, type_kind = Class_Type\<rparr>, 0x20 \<mapsto> \<lparr>type_name = 2, type_kind = Si_Class_Type 0x10\<rparr>,
     0x30 \<mapsto> \<lparr>type_name = 3, type_kind = Si_Class_Type 0x10\<rparr>,
     0x40 \<mapsto> \<lparr>type_name = 4, type_kind = Vmi_Class_Type 1 [\<lparr>base_type = 0x20, offset_flags = 2\<rparr>, \<lparr>base_type = 0x30, offset_flags = 0x402\<rparr>]\<rparr>,
     0x50 \<mapsto> \<lparr>type_name = 5, type_kind = Fundamental_Type\<rparr>, 0x60 \<mapsto> \<lparr>type_name = 6, type_kind = Pointer_Type 0 0x50\<rparr>,
     0x70 \<mapsto> \<lparr>type_name = 7, type_kind = Pointer_Type 1 0x50\<rparr>, 0x80 \<mapsto> \<lparr>type_name = 8, type_kind = Pointer_Type 0 0x60\<rparr>,
     0x90 \<mapsto> \<lparr>type_name = 9, type_kind = Pointer_Type 1 0x70\<rparr>, 0xA0 \<mapsto> \<lparr>type_name = 10, type_kind = Pointer_Type 0 0x20\<rparr>,
     0xB0 \<mapsto> \<lparr>type_name = 11, type_kind = Pointer_Type 0 0x10\<rparr>, 0xC0 \<mapsto> \<lparr>type_name = 12, type_kind = Pointer_Type 0 0xA0\<rparr>,
     0xD0 \<mapsto> \<lparr>type_name = 13, type_kind = Pointer_Type 1 0xB0\<rparr>]"

definition sample_words :: word_reads where
  "sample_words = [0x2000 \<mapsto> 0x1108, 0x2004 \<mapsto> 0x1208, 0x1100 \<mapsto> 0, 0x1104 \<mapsto> 0x40, 0x1200 \<mapsto> - 4, 0x1204 \<mapsto> 0x40]"

definition sample_rank :: "addr \<Rightarrow> nat" where
  "sample_rank a = (if a \<in> {0x10, 0x50} then 0 else if a \<in> {0x20, 0x30, 0x60, 0x70, 0xB0} then 1 else if a = 0xC0 then 3 else 2)"

lemma sample_emitted: "emitted sample_types sample_rank"
  by (simp add: emitted_def sample_types_def sample_rank_def)

lemma sample_vtables: "tables_readable sample_types sample_words s"
  unfolding tables_readable_def
  by (auto simp: sample_types_def base_infos_def base_object_def is_virtual_def base_flags_def)

theorem dynamic_cast_correct_witness:
  "dynamic_cast sample_types sample_words 0x2004 0x30 0x20 (- 1) = Some 0x2000"
proof -
  have base: "direct_base sample_types sample_words (0x40, o') s \<longleftrightarrow> s = (0x20, o') \<or> s = (0x30, o' + 4)"
    "direct_base sample_types sample_words (0x20, o') s \<longleftrightarrow> s = (0x10, o')"
    "direct_base sample_types sample_words (0x30, o') s \<longleftrightarrow> s = (0x10, o')"
    "\<not> direct_base sample_types sample_words (0x10, o') s" for o' s
    by (cases s, simp_all add: sample_types_def direct_base_multiple direct_base_single direct_base_class
        base_object_def is_virtual_def base_flags_def base_offset_def) auto
  have "subobject sample_types sample_words (0x10, o') (0x20, obj) \<longleftrightarrow> False" for o' obj
    by (subst subobject_cases) (simp add: base)
  then have "subobject sample_types sample_words (0x20, o') (0x20, obj) \<longleftrightarrow> obj = o'"
    "subobject sample_types sample_words (0x30, o') (0x20, obj) \<longleftrightarrow> False" for o' obj
    by (subst subobject_cases; auto simp: base)+
  then have leaf: "subobject sample_types sample_words (0x40, 0x2004 + (- 4)) (0x20, obj) \<longleftrightarrow> obj = 0x2000" for obj
    by (subst subobject_cases) (auto simp: base)
  obtain t where t: "sample_types 0x40 = Some t" "is_class (type_kind t)" by (simp add: sample_types_def)
  have word_reads: "sample_words 0x2004 = Some 0x1208" "sample_words (0x1208 - 8) = Some (- 4)"
    "sample_words (0x1208 - 4) = Some 0x40" by (simp_all add: sample_words_def)
  show ?thesis using dynamic_cast_correct [OF sample_emitted t word_reads sample_vtables, where src = "0x30" and dst = "0x20" and hint = "- 1"] leaf by metis
qed

text \<open>
  The flag that says whether a base class is public is never looked at, and the search ends at the first
  subobject: the language asks for null where the base class is private or where there are two of them.
\<close>

theorem dynamic_cast_ambiguous:
  assumes header: "w sub = Some vt" "w (vt - 8) = Some off" "w (vt - 4) = Some type"
    and type: "T type = Some \<lparr>type_name = n, type_kind = Vmi_Class_Type fl (info # infos)\<rparr>" "dst \<noteq> type"
    and first: "\<not> is_virtual info" "\<not> is_public info" "T (base_type info) = Some \<lparr>type_name = k, type_kind = Si_Class_Type dst\<rparr>"
    and second: "info' \<in> set infos" "\<not> is_virtual info'" "T (base_type info') = Some \<lparr>type_name = l, type_kind = Si_Class_Type dst\<rparr>"
      "base_offset info' \<noteq> base_offset info"
    and dst: "T dst = Some \<lparr>type_name = m, type_kind = Class_Type\<rparr>"
  shows "\<exists>other. dynamic_cast T w sub src dst hint = Some (sub + off + base_offset info)
    \<and> subobject T w (type, sub + off) (dst, sub + off + base_offset info)
    \<and> subobject T w (type, sub + off) (dst, other) \<and> other \<noteq> sub + off + base_offset info"
proof -
  let ?leaf = "sub + off"
  have base: "base_type info \<noteq> dst" using first(3) dst by auto
  have up: "do_upcast T w dst dst obj = Some (True, obj)" for obj by (subst do_upcast.simps) (simp add: dst)
  then have "do_upcast T w dst (base_type info) obj = Some (True, obj)" for obj
    using base first(3) by (subst do_upcast.simps) simp
  then have "do_upcast T w dst type ?leaf = Some (True, ?leaf + base_offset info)"
    using type base first(1) by (subst do_upcast.simps) (simp add: base_object_def)
  then have "dynamic_cast T w sub src dst hint = Some (?leaf + base_offset info)"
    using header type by (simp add: dynamic_cast_def) (subst cast_to.simps, simp)
  moreover have "subobject T w (type, ?leaf) (dst, ?leaf + base_offset i)"
    if i: "i \<in> set (info # infos)" "\<not> is_virtual i" "T (base_type i) = Some \<lparr>type_name = j, type_kind = Si_Class_Type dst\<rparr>" for i j
  proof -
    have "direct_base T w (type, ?leaf) (base_type i, ?leaf + base_offset i)"
      using i(1,2) type(1) by (intro direct_base.multiple) (auto simp: base_infos_def base_object_def)
    moreover have "direct_base T w (base_type i, ?leaf + base_offset i) (dst, ?leaf + base_offset i)"
      by (subst direct_base_single [of T _ _ dst]) (use i(3) in auto)
    ultimately show ?thesis by (blast intro: subobject_step subobject_refl)
  qed
  ultimately show ?thesis using first second by (intro exI [of _ "?leaf + base_offset info'"]) auto
qed

theorem dynamic_cast_ambiguous_witness:
  "\<exists>other. dynamic_cast (sample_types(0x40 \<mapsto> \<lparr>type_name = 4, type_kind = Vmi_Class_Type 1
        [\<lparr>base_type = 0x20, offset_flags = 0\<rparr>, \<lparr>base_type = 0x30, offset_flags = 0x402\<rparr>]\<rparr>)) sample_words 0x2004 0x30 0x10 (- 1)
      = Some 0x2000 \<and> other \<noteq> (0x2000 :: addr)"
proof -
  let ?T = "sample_types(0x40 \<mapsto> \<lparr>type_name = 4, type_kind = Vmi_Class_Type 1
        [\<lparr>base_type = 0x20, offset_flags = 0\<rparr>, \<lparr>base_type = 0x30, offset_flags = 0x402\<rparr>]\<rparr>)"
  have "sample_words 0x2004 = Some 0x1208" "sample_words (0x1208 - 8) = Some (- 4)"
    "sample_words (0x1208 - 4) = Some 0x40" by (simp_all add: sample_words_def)
  from dynamic_cast_ambiguous [OF this, where T = ?T and n = 4 and fl = 1 and dst = "0x10" and src = "0x30"
      and info = "\<lparr>base_type = 0x20, offset_flags = 0\<rparr>" and infos = "[\<lparr>base_type = 0x30, offset_flags = 0x402\<rparr>]"
      and info' = "\<lparr>base_type = 0x30, offset_flags = 0x402\<rparr>" and k = 2 and l = 3 and m = 1 and hint = "- 1"]
  show ?thesis by (simp add: sample_types_def is_virtual_def is_public_def base_flags_def base_offset_def) blast
qed

section \<open>Catching an exception\<close>

text \<open>
  Whether a handler for the type at \<open>this\<close> takes an exception of the type at \<open>ex_type\<close>; \<open>obj\<close> is where the
  exception is, adjusted when a base class is caught. The lowest bit of \<open>outer\<close> says that every pointer on
  the way here points to something constant; \<open>void_type\<close> is the type object of \<open>void\<close>.
\<close>

(* src/include/libcxxrt/typeinfo.h:268-299 __pbase_type_info *)
fun pbase_fields :: "type_kind \<Rightarrow> (u32 \<times> addr) option" where
  "pbase_fields (Pointer_Type flags pointee) = Some (flags, pointee)"
| "pbase_fields (Pointer_To_Member_Type flags pointee context_class) = Some (flags, pointee)"
| "pbase_fields _ = None"

(* src/libcxxrt/dynamic_cast.cpp:49-108 __pbase_type_info::__do_catch *)
partial_function (option) do_catch :: "types \<Rightarrow> word_reads \<Rightarrow> type_info \<Rightarrow> addr \<Rightarrow> addr \<Rightarrow> addr \<Rightarrow> u32 \<Rightarrow> (bool \<times> addr) option" where
  "do_catch T w void_type this ex_type obj outer = do {
     t \<leftarrow> T this;
     ex \<leftarrow> T ex_type;
     case pbase_fields (type_kind t) of
       None \<Rightarrow>
         if this = ex_type then Some (True, obj)
         else if is_class (type_kind t) then do_upcast T w this ex_type obj
         else Some (False, obj)
     | Some (flags, pointee) \<Rightarrow>
         if ex_type = this then Some (True, obj)
         else if \<not> is_pointer_p (type_kind ex) then Some (False, obj)
         else if outer AND 1 = 0 then Some (False, obj)
         else do {
           (ex_flags, ex_pointee) \<leftarrow> pbase_fields (type_kind ex);
           if ex_flags AND NOT flags \<noteq> 0 then Some (False, obj)
           else do {
             p \<leftarrow> T pointee;
             if type_eq p void_type then Some (True, obj)
             else do_catch T w void_type pointee ex_pointee obj (if flags AND 1 = 0 then outer AND NOT 1 else outer)
           }
         }
   }"

text \<open>
  The rule of the language for pointers to pointers: a qualifier may be added at a level only when all levels
  above it are constant, and none may be dropped. \<open>points_to T a qs c\<close> says that the type \<open>a\<close> is
  a pointer of \<open>length qs\<close> levels to the type \<open>c\<close>, with the qualifiers \<open>qs\<close> from the outermost level on.
\<close>

fun points_to :: "types \<Rightarrow> addr \<Rightarrow> u32 list \<Rightarrow> addr \<Rightarrow> bool" where
  "points_to T a [] c \<longleftrightarrow> a = c"
| "points_to T a (q # qs) c \<longleftrightarrow> (\<exists>t p. T a = Some t \<and> type_kind t = Pointer_Type q p \<and> points_to T p qs c)"

definition qualifies :: "u32 list \<Rightarrow> u32 list \<Rightarrow> bool" where
  "qualifies ex qs \<longleftrightarrow> length ex = length qs \<and> (\<forall>i < length qs. ex ! i AND NOT (qs ! i) = 0
     \<and> (ex ! i \<noteq> qs ! i \<longrightarrow> (\<forall>k < i. qs ! k AND 1 \<noteq> 0)))"

definition one_object_per_type :: "types \<Rightarrow> bool" where
  "one_object_per_type T \<longleftrightarrow> (\<forall>a b t u q p. T a = Some t \<longrightarrow> T b = Some u
     \<longrightarrow> type_kind t = Pointer_Type q p \<longrightarrow> type_kind u = Pointer_Type q p \<longrightarrow> a = b)"

definition void_named :: "types \<Rightarrow> type_info \<Rightarrow> bool" where
  "void_named T void_type \<longleftrightarrow> (\<forall>a u. T a = Some u \<longrightarrow> type_eq u void_type \<longrightarrow> type_kind u = Fundamental_Type)"

lemma points_to_inj: "one_object_per_type T \<Longrightarrow> points_to T a qs c \<Longrightarrow> points_to T b qs c \<Longrightarrow> a = b"
proof (induction qs arbitrary: a b)
  case (Cons q qs)
  then obtain t u p p' where "T a = Some t" "type_kind t = Pointer_Type q p" "points_to T p qs c"
    "T b = Some u" "type_kind u = Pointer_Type q p'" "points_to T p' qs c" by auto
  then show ?case using Cons.IH Cons.prems(1) unfolding one_object_per_type_def by metis
qed simp

lemma qualifies_Cons:
  "qualifies (e # ex) (q # qs) \<longleftrightarrow> e AND NOT q = 0 \<and> qualifies ex qs \<and> (ex = qs \<or> q AND 1 \<noteq> 0)"
proof -
  have "(\<exists>i < length qs. ex ! i \<noteq> qs ! i) \<longleftrightarrow> ex \<noteq> qs" if "length ex = length qs"
    using that by (auto simp: list_eq_iff_nth_eq)
  then show ?thesis by (simp add: qualifies_def All_less_Suc2) blast
qed

lemma qualifies_refl: "qualifies qs qs"
  by (simp add: qualifies_def)

lemma qualifies_Nil [simp]: "qualifies [] qs \<longleftrightarrow> qs = []" "qualifies qs [] \<longleftrightarrow> qs = []"
  by (auto simp: qualifies_def)

lemma points_to_unique:
  assumes "points_to T a qs c" and "points_to T a qs' c'" and "T c = Some t" "\<And>q p. type_kind t \<noteq> Pointer_Type q p"
    and "T c' = Some t'" "\<And>q p. type_kind t' \<noteq> Pointer_Type q p"
  shows "qs = qs'"
  using assms
proof (induction qs arbitrary: a qs')
  case Nil
  then show ?case by (cases qs') auto
next
  case (Cons q qs)
  then show ?case by (cases qs') auto
qed

lemma do_catch_levels:
  assumes T: "one_object_per_type T" and c: "T c = Some t" "type_kind t = Fundamental_Type" "\<not> type_eq t void_type"
    and named: "void_named T void_type"
    and h: "points_to T this qs c" and e: "points_to T ex_type ex c"
  shows "do_catch T w void_type this ex_type obj outer
    = Some (qualifies ex qs \<and> (ex = qs \<or> outer AND 1 \<noteq> 0), obj)"
  using h e
proof (induction qs arbitrary: this ex_type ex outer)
  case Nil
  then have th: "this = c" by simp
  show ?case
  proof (cases ex)
    case Nil
    then show ?thesis using Nil.prems th c(1,2) by (subst do_catch.simps) simp
  next
    case (Cons q ex')
    then obtain u p where "T ex_type = Some u" "type_kind u = Pointer_Type q p" using Nil.prems(2) by auto
    moreover from calculation have "ex_type \<noteq> c" using c by auto
    ultimately show ?thesis using th c(1,2) Cons by (subst do_catch.simps) simp
  qed
next
  case (Cons q qs)
  then obtain u p where u: "T this = Some u" "type_kind u = Pointer_Type q p" "points_to T p qs c" by auto
  have same: "this = ex_type \<longleftrightarrow> ex = q # qs"
  proof
    assume eq: "this = ex_type"
    show "ex = q # qs"
      by (rule points_to_unique [of T this ex c "q # qs" c t t]) (use eq Cons.prems c in simp_all)
  next
    assume "ex = q # qs"
    then show "this = ex_type" using points_to_inj [OF T] Cons.prems by blast
  qed
  show ?case
  proof (cases ex)
    case Nil
    then have "ex_type = c" using Cons.prems by simp
    then show ?thesis using u c(1,2) Nil same by (subst do_catch.simps) auto
  next
    case (Cons e ex')
    then obtain v r where v: "T ex_type = Some v" "type_kind v = Pointer_Type e r" "points_to T r ex' c"
      using \<open>points_to T ex_type ex c\<close> by auto
    obtain pu where pu: "T p = Some pu" "\<not> type_eq pu void_type"
      using u(3) c named unfolding void_named_def by (cases qs) fastforce+
    have rec: "do_catch T w void_type p r obj outer = Some (qualifies ex' qs \<and> (ex' = qs \<or> outer AND 1 \<noteq> 0), obj)" for outer
      by (rule Cons.IH [OF u(3) v(3)])
    have odd: "(outer AND NOT 1) AND 1 = 0" by (simp add: and.assoc)
    show ?thesis
    proof (cases "this = ex_type")
      case True
      then show ?thesis using u same qualifies_refl by (subst do_catch.simps) simp
    next
      case False
      then show ?thesis
        using same Cons u(1,2) v(1,2) pu rec odd by (subst do_catch.simps) (auto simp: Let_def qualifies_Cons)
    qed
  qed
qed

text \<open>
  Property C27: A handler for a pointer to a fundamental type other than \<open>void\<close>, of any number of levels, takes a thrown
  pointer of any number of levels to the same type exactly when the language converts the qualifiers of the thrown
  pointer to the ones of the handler. Pointers to classes and to \<open>void\<close> are not covered.
\<close>

theorem do_catch_qualifiers:
  assumes "one_object_per_type T" and "T c = Some t" "type_kind t = Fundamental_Type" "\<not> type_eq t void_type"
    and "void_named T void_type"
    and "points_to T this qs c" and "points_to T ex_type ex c"
  shows "do_catch T w void_type this ex_type obj 1 = Some (qualifies ex qs, obj)"
  using do_catch_levels [OF assms, where w = w and obj = obj and outer = 1] by simp

definition sample_void :: type_info where
  "sample_void = \<lparr>type_name = 99, type_kind = Fundamental_Type\<rparr>"

lemma sample_one_object: "one_object_per_type sample_types"
  unfolding one_object_per_type_def by (simp add: sample_types_def)

theorem do_catch_qualifiers_witness:
  "do_catch sample_types sample_words sample_void 0x90 0x80 0x2000 1 = Some (True, 0x2000)
   \<and> do_catch sample_types sample_words sample_void 0x80 0x90 0x2000 1 = Some (False, 0x2000)"
proof -
  let ?t = "\<lparr>type_name = 5, type_kind = Fundamental_Type\<rparr>"
  have c: "sample_types 0x50 = Some ?t" "type_kind ?t = Fundamental_Type" "\<not> type_eq ?t sample_void"
    by (simp_all add: sample_types_def type_eq_def sample_void_def)
  have named: "void_named sample_types sample_void"
    by (simp add: void_named_def sample_types_def type_eq_def sample_void_def)
  have "points_to sample_types 0x80 [0, 0] 0x50" "points_to sample_types 0x90 [1, 1] 0x50"
    by (simp_all add: sample_types_def)
  then have "do_catch sample_types sample_words sample_void 0x90 0x80 0x2000 1 = Some (qualifies [0, 0] [1, 1], 0x2000)"
    "do_catch sample_types sample_words sample_void 0x80 0x90 0x2000 1 = Some (qualifies [1, 1] [0, 0], 0x2000)"
    using do_catch_qualifiers [OF sample_one_object c named] by blast+
  then show ?thesis by (simp add: qualifies_Cons)
qed

text \<open>
  With classes and with \<open>void\<close> at the end the levels are not told apart: the conversions that the language
  allows for the outermost level only, to \<open>void\<close> and to a base class, are made at any level. A handler for
  \<open>void* const*\<close> takes every pointer to a pointer, and one for \<open>B* const*\<close> takes a \<open>D**\<close>.
\<close>

theorem catch_too_generous:
  assumes handler: "T this = Some t" "type_kind t = Pointer_Type q p" "q AND 1 \<noteq> 0" "T p = Some tp"
      "type_kind tp = Pointer_Type q' c" "\<not> type_eq tp void_type" "T c = Some tc"
    and thrown: "T ex_type = Some e" "type_kind e = Pointer_Type 0 ep" "T ep = Some te" "type_kind te = Pointer_Type 0 d"
      "T d = Some td"
    and type: "type_eq tc void_type \<or> type_kind tc = Class_Type \<and> type_kind td = Si_Class_Type c"
  shows "do_catch T w void_type this ex_type obj 1 = Some (True, obj)"
proof -
  have up: "do_upcast T w c c obj = Some (True, obj)" if "type_kind tc = Class_Type"
    using that handler by (subst do_upcast.simps) simp
  have c: "do_catch T w void_type c d obj x = Some (True, obj)" if "type_kind tc = Class_Type" "type_kind td = Si_Class_Type c" for x
    using that handler thrown up by (subst do_catch.simps) (auto, subst do_upcast.simps, simp)
  have p: "do_catch T w void_type p ep obj 1 = Some (True, obj)"
    using handler thrown type c by (subst do_catch.simps) auto
  then show ?thesis
    using handler thrown by (subst do_catch.simps) simp
qed

theorem catch_too_generous_witness: "do_catch sample_types sample_words sample_void 0xD0 0xC0 0x2000 1 = Some (True, 0x2000)"
  by (rule catch_too_generous [where q = 1 and p = "0xB0" and q' = 0 and c = "0x10" and ep = "0xA0" and d = "0x20"])
    (auto simp: sample_types_def sample_void_def type_eq_def)

text \<open>A handler for a pointer to a member takes ordinary pointers to the type of the member.\<close>

theorem catch_pointer_to_member:
  assumes "T this = Some t" "type_kind t = Pointer_To_Member_Type q p context_class" "T p = Some tp"
    and "T ex_type = Some e" "type_kind e = Pointer_Type 0 p" "type_kind tp = Fundamental_Type"
  shows "do_catch T w void_type this ex_type obj 1 = Some (True, obj)"
proof -
  have "do_catch T w void_type p p obj x = Some (True, obj)" for x
    using assms by (subst do_catch.simps) simp
  then show ?thesis using assms by (subst do_catch.simps) simp
qed

end
