(* ===== verification/Exit_Handlers.thy ===== *)
theory Exit_Handlers
  imports Prelude
begin

text \<open>
  The list of destructors that \<open>libcxxrt/cxa_atexit.cpp\<close> keeps: nodes from \<open>malloc\<close>, linked from the last
  registration to the first. The run-time library has it where the kernel has a table
  (\<open>kernel/icxxabi.cpp\<close>). The kernel's \<open>free\<close> does nothing, so a node can still be read after it.
\<close>

section \<open>Registration and finalisation\<close>

(* src/libcxxrt/cxa_atexit.cpp:33-38 atexit_handler *)
record atexit_handler =
  eh_f :: addr
  eh_p :: addr
  eh_d :: addr
  eh_next :: addr

text \<open>The variable \<open>head\<close> and the nodes in memory.\<close>

record exit_list =
  eh_head :: addr
  eh_nodes :: "addr \<Rightarrow> atexit_handler option"

text \<open>\<open>h\<close> is what \<open>malloc\<close> returns.\<close>

(* src/libcxxrt/cxa_atexit.cpp:42-56 __cxa_atexit *)
definition exit_register :: "addr \<Rightarrow> addr \<Rightarrow> addr \<Rightarrow> addr \<Rightarrow> exit_list \<Rightarrow> exit_list \<times> int" where
  "exit_register h f p d s =
     (if h = 0 then (s, 1)
      else (s\<lparr>eh_nodes := (eh_nodes s)(h \<mapsto> \<lparr>eh_f = f, eh_p = p, eh_d = d, eh_next = eh_head s\<rparr>), eh_head := h\<rparr>, 0))"

text \<open>
  \<open>last_next\<close> (\<open>last\<close> in the code) is the address of the pointer to the current node: \<open>None\<close> for \<open>head\<close>, otherwise the node whose
  \<open>next\<close> it is.
\<close>

(* src/libcxxrt/cxa_atexit.cpp:63-63 __cxa_finalize *)
definition unlink :: "addr option \<Rightarrow> addr \<Rightarrow> exit_list \<Rightarrow> exit_list option" where
  "unlink last_next next_node s = (case last_next of
     None \<Rightarrow> Some (s\<lparr>eh_head := next_node\<rparr>)
   | Some a \<Rightarrow> do {
       n \<leftarrow> eh_nodes s a;
       Some (s\<lparr>eh_nodes := (eh_nodes s)(a \<mapsto> n\<lparr>eh_next := next_node\<rparr>)\<rparr>)
     })"

text \<open>\<open>run\<close> is what a destructor does to the list; the result has the calls in their order.\<close>

(* src/libcxxrt/cxa_atexit.cpp:61-69 __cxa_finalize *)
partial_function (option) finalize_from ::
  "(addr \<Rightarrow> addr \<Rightarrow> exit_list \<Rightarrow> exit_list) \<Rightarrow> addr \<Rightarrow> addr option \<Rightarrow> addr \<Rightarrow> exit_list \<Rightarrow> (exit_list \<times> (addr \<times> addr) list) option" where
  "finalize_from run d last_next h s =
     (if h = 0 then Some (s, [])
      else do {
        n \<leftarrow> eh_nodes s h;
        if eh_d n = d \<or> d = 0 then do {
          s \<leftarrow> unlink last_next (eh_next n) s;
          let s = run (eh_f n) (eh_p n) s;
          n' \<leftarrow> eh_nodes s h;
          (s, calls) \<leftarrow> finalize_from run d last_next (eh_next n') s;
          Some (s, (eh_f n, eh_p n) # calls)
        } else finalize_from run d (Some h) (eh_next n) s
      })"

(* src/libcxxrt/cxa_atexit.cpp:58-71 __cxa_finalize *)
definition exit_finalize :: "(addr \<Rightarrow> addr \<Rightarrow> exit_list \<Rightarrow> exit_list) \<Rightarrow> addr \<Rightarrow> exit_list \<Rightarrow> (exit_list \<times> (addr \<times> addr) list) option" where
  "exit_finalize run d s = finalize_from run d None (eh_head s) s"

section \<open>The list behind the nodes\<close>

text \<open>The registrations, last one first, with the addresses of their nodes.\<close>

fun chained :: "(addr \<Rightarrow> atexit_handler option) \<Rightarrow> addr \<Rightarrow> (addr \<times> addr \<times> addr \<times> addr) list \<Rightarrow> addr \<Rightarrow> bool" where
  "chained m a [] b \<longleftrightarrow> a = b"
| "chained m a ((h, f, p, d) # xs) b \<longleftrightarrow> a = h \<and> h \<noteq> 0
     \<and> (\<exists>c. m h = Some \<lparr>eh_f = f, eh_p = p, eh_d = d, eh_next = c\<rparr> \<and> chained m c xs b)"

definition registered :: "exit_list \<Rightarrow> (addr \<times> addr \<times> addr \<times> addr) list \<Rightarrow> bool" where
  "registered s xs \<longleftrightarrow> chained (eh_nodes s) (eh_head s) xs 0 \<and> distinct (map fst xs)"

lemma chained_append: "chained m a (ys @ xs) c \<longleftrightarrow> (\<exists>b. chained m a ys b \<and> chained m b xs c)"
  by (induction ys arbitrary: a) (auto, blast+)

lemma chained_cong: "\<forall>h \<in> fst ` set xs. m h = m' h \<Longrightarrow> chained m a xs b = chained m' a xs b"
  by (induction xs arbitrary: a) auto

lemma chained_update: "h \<notin> fst ` set xs \<Longrightarrow> chained (m(h \<mapsto> n)) a xs b = chained m a xs b"
  by (induction xs arbitrary: a) auto

text \<open>The pointer to the current node is in the last node before it.\<close>

definition last_node :: "(addr \<times> addr \<times> addr \<times> addr) list \<Rightarrow> addr option" where
  "last_node ys = (if ys = [] then None else Some (fst (last ys)))"

lemma unlink_chained:
  assumes "chained (eh_nodes s) (eh_head s) ys h" and "distinct (map fst ys)"
  shows "\<exists>s'. unlink (last_node ys) b s = Some s' \<and> chained (eh_nodes s') (eh_head s') ys b
    \<and> (\<forall>a. a \<notin> fst ` set ys \<longrightarrow> eh_nodes s' a = eh_nodes s a)"
proof (cases ys rule: rev_cases)
  case Nil
  then show ?thesis by (simp add: unlink_def last_node_def)
next
  case (snoc zs z)
  obtain a f p d where z: "z = (a, f, p, d)" by (cases z)
  from assms(1) obtain c where zs: "chained (eh_nodes s) (eh_head s) zs a" "a \<noteq> 0"
    "eh_nodes s a = Some \<lparr>eh_f = f, eh_p = p, eh_d = d, eh_next = c\<rparr>" by (auto simp: snoc z chained_append)
  have "a \<notin> fst ` set zs" using assms(2) by (simp add: snoc z)
  then show ?thesis using zs by (simp add: unlink_def last_node_def snoc z chained_append chained_update)
qed

definition quiet :: "addr \<Rightarrow> addr \<Rightarrow> exit_list \<Rightarrow> exit_list" where
  "quiet f p s = s"

definition belongs :: "addr \<Rightarrow> addr \<times> addr \<times> addr \<times> addr \<Rightarrow> bool" where
  "belongs d x \<longleftrightarrow> (case x of (h, f, p, d') \<Rightarrow> d' = d \<or> d = 0)"

lemma finalize_from_chained:
  assumes "chained (eh_nodes s) (eh_head s) ys h" and "chained (eh_nodes s) h xs 0" and "distinct (map fst (ys @ xs))"
  shows "\<exists>s'. finalize_from quiet d (last_node ys) h s = Some (s', map (\<lambda>(h, f, p, d). (f, p)) (filter (belongs d) xs))
    \<and> registered s' (ys @ filter (\<lambda>x. \<not> belongs d x) xs)"
  using assms
proof (induction xs arbitrary: ys h s)
  case Nil
  then show ?case by (subst finalize_from.simps) (simp add: registered_def)
next
  case (Cons x xs)
  obtain a f p d' where x: "x = (a, f, p, d')" by (cases x)
  from Cons.prems(2) obtain b where b: "h = a" "a \<noteq> 0" "chained (eh_nodes s) b xs 0"
    "eh_nodes s a = Some \<lparr>eh_f = f, eh_p = p, eh_d = d', eh_next = b\<rparr>" by (auto simp: x)
  show ?case
  proof (cases "belongs d x")
    case True
    have "distinct (map fst ys)" using Cons.prems(3) by simp
    then obtain s1 where s1: "unlink (last_node ys) b s = Some s1" "chained (eh_nodes s1) (eh_head s1) ys b"
      "\<forall>a. a \<notin> fst ` set ys \<longrightarrow> eh_nodes s1 a = eh_nodes s a"
      using unlink_chained [OF Cons.prems(1)] by blast
    have "a \<notin> fst ` set ys" using Cons.prems(3) by (auto simp: x)
    then have a: "eh_nodes s1 a = eh_nodes s a" using s1(3) by blast
    have "fst ` set ys \<inter> fst ` set xs = {}" using Cons.prems(3) by simp
    then have "\<forall>n \<in> fst ` set xs. eh_nodes s1 n = eh_nodes s n" using s1(3) by blast
    then have "chained (eh_nodes s1) b xs 0" using b(3) chained_cong by metis
    from Cons.IH [OF s1(2) this] Cons.prems(3) obtain s' where
      s': "finalize_from quiet d (last_node ys) b s1 = Some (s', map (\<lambda>(h, f, p, d). (f, p)) (filter (belongs d) xs))"
      "registered s' (ys @ filter (\<lambda>x. \<not> belongs d x) xs)" by auto
    then show ?thesis using True b s1(1) a
      by (subst finalize_from.simps) (auto simp: quiet_def belongs_def x)
  next
    case False
    have "chained (eh_nodes s) (eh_head s) (ys @ [x]) b" using Cons.prems(1) b by (simp add: chained_append x)
    from Cons.IH [OF this b(3)] Cons.prems(3) obtain s' where
      s': "finalize_from quiet d (Some a) b s = Some (s', map (\<lambda>(h, f, p, d). (f, p)) (filter (belongs d) xs))"
      "registered s' (ys @ x # filter (\<lambda>x. \<not> belongs d x) xs)" by (auto simp: last_node_def x)
    then show ?thesis using False b
      by (subst finalize_from.simps) (auto simp: belongs_def x)
  qed
qed

text \<open>
  The nodes refine a list: a registration goes to its front unless there is no memory, and finalisation
  calls the destructors of the object it is asked for, the last registered first, each once, and keeps the
  others in their order.
\<close>

theorem exit_handlers_refine:
  assumes "registered s xs" and "h \<notin> fst ` set xs"
  shows "(\<exists>s1 r. exit_register h f p d s = (s1, r)
      \<and> (if h = 0 then r = 1 \<and> registered s1 xs else r = 0 \<and> registered s1 ((h, f, p, d) # xs)))
    \<and> (\<exists>s2. exit_finalize quiet dso s = Some (s2, map (\<lambda>(h, f, p, d). (f, p)) (filter (belongs dso) xs))
      \<and> registered s2 (filter (\<lambda>x. \<not> belongs dso x) xs))"
proof
  show "\<exists>s1 r. exit_register h f p d s = (s1, r)
      \<and> (if h = 0 then r = 1 \<and> registered s1 xs else r = 0 \<and> registered s1 ((h, f, p, d) # xs))"
    using assms by (auto simp: exit_register_def registered_def chained_update)
  show "\<exists>s2. exit_finalize quiet dso s = Some (s2, map (\<lambda>(h, f, p, d). (f, p)) (filter (belongs dso) xs))
      \<and> registered s2 (filter (\<lambda>x. \<not> belongs dso x) xs)"
    using finalize_from_chained [of s "[]" "eh_head s" xs dso] assms(1)
    by (simp add: exit_finalize_def registered_def last_node_def)
qed

text \<open>Three registrations, of two shared objects; the second object is unloaded.\<close>

theorem exit_handlers_refine_witness:
  "\<exists>s s2. registered s [(0x30, 3, 3, 7), (0x20, 2, 2, 8), (0x10, 1, 1, 7)]
    \<and> exit_finalize quiet 7 s = Some (s2, [(3, 3), (1, 1)]) \<and> registered s2 [(0x20, 2, 2, 8)]"
proof -
  define s where "s = \<lparr>eh_head = 0x30, eh_nodes = [0x30 \<mapsto> \<lparr>eh_f = 3, eh_p = 3, eh_d = 7, eh_next = 0x20\<rparr>,
    0x20 \<mapsto> \<lparr>eh_f = 2, eh_p = 2, eh_d = 8, eh_next = 0x10\<rparr>, 0x10 \<mapsto> \<lparr>eh_f = 1, eh_p = 1, eh_d = 7, eh_next = 0\<rparr>]\<rparr>"
  have s: "registered s [(0x30, 3, 3, 7), (0x20, 2, 2, 8), (0x10, 1, 1, 7)]" by (simp add: registered_def s_def)
  from exit_handlers_refine [OF s, of "0x40" f p d 7] show ?thesis using s by (auto simp: belongs_def)
qed

text \<open>
  A destructor may register another one. When it is not the last in the list, the pointer to the next node is
  then written over the new registration, and it is lost.
\<close>

definition re_registers :: "addr \<Rightarrow> addr \<Rightarrow> addr \<Rightarrow> addr \<Rightarrow> addr \<Rightarrow> exit_list \<Rightarrow> exit_list" where
  "re_registers f new d f' p' s = (if f' = f then fst (exit_register new f p' d s) else s)"

theorem finalize_loses_registration:
  assumes "registered s [(a, f, p, d), (b, g, q, d)]" and "new \<notin> {0, a, b}" and "f \<noteq> g"
  shows "\<exists>s'. exit_finalize (re_registers f new d) d s = Some (s', [(f, p), (g, q)]) \<and> registered s' []"
proof -
  have "a \<noteq> 0" "b \<noteq> 0" "a \<noteq> b" "eh_head s = a" "eh_nodes s a = Some \<lparr>eh_f = f, eh_p = p, eh_d = d, eh_next = b\<rparr>"
    "eh_nodes s b = Some \<lparr>eh_f = g, eh_p = q, eh_d = d, eh_next = 0\<rparr>"
    using assms(1) by (auto simp: registered_def)
  moreover have "b \<noteq> new" using assms(2) by auto
  ultimately show ?thesis using assms(2,3)
    by (simp add: exit_finalize_def re_registers_def exit_register_def unlink_def finalize_from.simps [of _ _ _ a]
        finalize_from.simps [of _ _ _ b] finalize_from.simps [of _ _ _ 0] registered_def)
qed

end
