(* ===== verification/Dwarf_EH.thy ===== *)
theory Dwarf_EH
  imports Prelude
begin

unbundle bit_operations_syntax

text \<open>
  The exception tables of a function as \<open>include/libcxxrt/dwarf_eh.h\<close> reads them: numbers in base 128, encoded
  pointers, the header of the language-specific data, and the table that says which landing pad belongs to which
  call. The tables are bytes in memory, \<open>None\<close> where there is none; an operation that reads takes the
  address of the next byte and returns the one behind what it read. \<open>abort\<close> and a failed assertion are
  \<open>None\<close> too. Shifts of signed numbers have the meaning GCC gives them: on the bits of the 32-bit \<open>int\<close>,
  with no meaning for counts of 32 and more.
\<close>

type_synonym table = "addr \<Rightarrow> u8 option"

section \<open>Encodings\<close>

(* src/include/libcxxrt/dwarf_eh.h:58-78 dwarf_data_encoding *)
datatype dwarf_data_encoding =
  Absptr | Uleb128 | Udata2 | Udata4 | Udata8 | Sleb128 | Sdata2 | Sdata4 | Sdata8

(* src/include/libcxxrt/dwarf_eh.h:84-87 get_encoding *)
definition get_encoding :: "u8 \<Rightarrow> dwarf_data_encoding option" where
  "get_encoding x = map_of [(0, Absptr), (1, Uleb128), (2, Udata2), (3, Udata4), (4, Udata8),
     (9, Sleb128), (10, Sdata2), (11, Sdata4), (12, Sdata8)] (x AND 0xF)"

(* src/include/libcxxrt/dwarf_eh.h:96-112 dwarf_data_relative *)
datatype dwarf_data_relative = Relative_None | Pcrel | Textrel | Datarel | Funcrel | Aligned

definition omit :: u8 where
  "omit = 0xFF"

(* src/include/libcxxrt/dwarf_eh.h:116-119 get_base *)
definition get_base :: "u8 \<Rightarrow> dwarf_data_relative" where
  "get_base x = (case map_of [(0x10, Pcrel), (0x20, Textrel), (0x30, Datarel), (0x40, Funcrel), (0x50, Aligned)] (x AND 0x70) of
     Some r \<Rightarrow> r | None \<Rightarrow> Relative_None)"

(* src/include/libcxxrt/dwarf_eh.h:123-126 is_indirect *)
definition is_indirect :: "u8 \<Rightarrow> bool" where
  "is_indirect x \<longleftrightarrow> x AND 0x80 = 0x80"

(* src/include/libcxxrt/dwarf_eh.h:132-145 dwarf_size_of_fixed_size_field *)
definition dwarf_size_of_fixed_size_field :: "u8 \<Rightarrow> u32 option" where
  "dwarf_size_of_fixed_size_field type = do {
     e \<leftarrow> get_encoding type;
     case e of
       Sdata2 \<Rightarrow> Some 2
     | Udata2 \<Rightarrow> Some 2
     | Sdata4 \<Rightarrow> Some 4
     | Udata4 \<Rightarrow> Some 4
     | Sdata8 \<Rightarrow> Some 8
     | Udata8 \<Rightarrow> Some 8
     | Absptr \<Rightarrow> Some 4
     | _ \<Rightarrow> None
   }"

section \<open>Numbers in base 128\<close>

text \<open>\<open>digit << bit\<close> is computed as an \<open>int\<close> and then widened to 64 bits with its sign.\<close>

(* src/include/libcxxrt/dwarf_eh.h:171-171 read_leb128 *)
definition shifted_digit :: "u8 \<Rightarrow> nat \<Rightarrow> u64 option" where
  "shifted_digit digit sh = (if sh < 32 then Some (scast (push_bit sh (ucast digit :: u32))) else None)"

(* src/include/libcxxrt/dwarf_eh.h:163-178 read_leb128 *)
function leb128_loop :: "table \<Rightarrow> addr \<Rightarrow> u64 \<Rightarrow> nat \<Rightarrow> (u64 \<times> nat \<times> addr) option" where
  "leb128_loop m data uleb sh =
     (if sh < 64 then do {
        byte \<leftarrow> m data;
        let digit = byte AND 0x7F;
        v \<leftarrow> shifted_digit digit sh;
        if byte \<noteq> digit then leb128_loop m (data + 1) (uleb + v) (sh + 7)
        else Some (uleb + v, sh + 7, data + 1)
      } else None)"
  by pat_completeness auto
termination by (relation "measure (\<lambda>(m, data, uleb, sh). 64 - sh)") auto

declare leb128_loop.simps [simp del]

(* src/include/libcxxrt/dwarf_eh.h:156-182 read_leb128 *)
definition read_leb128 :: "table \<Rightarrow> addr \<Rightarrow> (u64 \<times> nat \<times> addr) option" where
  "read_leb128 m data = leb128_loop m data 0 0"

(* src/include/libcxxrt/dwarf_eh.h:189-193 read_uleb128 *)
definition read_uleb128 :: "table \<Rightarrow> addr \<Rightarrow> (u64 \<times> addr) option" where
  "read_uleb128 m data = do {
     (uleb, b, data) \<leftarrow> read_leb128 m data;
     Some (uleb, data)
   }"

(* src/include/libcxxrt/dwarf_eh.h:200-212 read_sleb128 *)
definition read_sleb128 :: "table \<Rightarrow> addr \<Rightarrow> (u64 \<times> addr) option" where
  "read_sleb128 m data = do {
     (uleb, bits, data) \<leftarrow> read_leb128 m data;
     if drop_bit (bits - 1) uleb = 1 then
       (if bits < 64 then Some (uleb OR push_bit bits (- 1), data) else None)
     else Some (uleb, data)
   }"

section \<open>Encoded values\<close>

text \<open>\<open>unwind.cpp\<close> implements none of the base addresses: they are all 0.\<close>

(* src/libcxxrt/unwind.cpp:4-11 _Unwind_Context *)
record unwind_context =
  generic_register :: "u32 list"
  instruction_pointer :: u32

(* src/libcxxrt/unwind.cpp:22-24 _Unwind_GetTextRelBase *)
definition unwind_text_rel_base :: "unwind_context \<Rightarrow> u32" where
  "unwind_text_rel_base c = 0"

(* src/libcxxrt/unwind.cpp:26-28 _Unwind_GetDataRelBase *)
definition unwind_data_rel_base :: "unwind_context \<Rightarrow> u32" where
  "unwind_data_rel_base c = 0"

(* src/libcxxrt/unwind.cpp:30-32 _Unwind_GetLanguageSpecificData *)
definition unwind_language_specific_data :: "unwind_context \<Rightarrow> u32" where
  "unwind_language_specific_data c = 0"

(* src/libcxxrt/unwind.cpp:34-36 _Unwind_GetRegionStart *)
definition unwind_region_start :: "unwind_context \<Rightarrow> u32" where
  "unwind_region_start c = 0"

(* src/libcxxrt/unwind.cpp:43-46 _Unwind_SetGR *)
definition unwind_set_gr :: "nat \<Rightarrow> u32 \<Rightarrow> unwind_context \<Rightarrow> unwind_context option" where
  "unwind_set_gr index v c = map_option (\<lambda>rs. c\<lparr>generic_register := rs\<rparr>) (arr_set (generic_register c) index v)"

(* src/libcxxrt/unwind.cpp:48-50 _Unwind_SetIP *)
definition unwind_set_ip :: "u32 \<Rightarrow> unwind_context \<Rightarrow> unwind_context" where
  "unwind_set_ip v c = c\<lparr>instruction_pointer := v\<rparr>"

(* src/libcxxrt/unwind.cpp:61-63 _Unwind_GetIP *)
definition unwind_get_ip :: "unwind_context \<Rightarrow> u32" where
  "unwind_get_ip c = instruction_pointer c"

text \<open>\<open>memcpy\<close> of \<open>n\<close> bytes into an integer of the machine, lowest byte first.\<close>

fun read_le :: "table \<Rightarrow> addr \<Rightarrow> nat \<Rightarrow> nat option" where
  "read_le m data 0 = Some 0"
| "read_le m data (Suc n) = do {
     b \<leftarrow> m data;
     v \<leftarrow> read_le m (data + 1) n;
     Some (unat b + 256 * v)
   }"

definition read_fixed :: "table \<Rightarrow> addr \<Rightarrow> nat \<Rightarrow> (nat \<Rightarrow> u64) \<Rightarrow> (u64 \<times> addr) option" where
  "read_fixed m data n f = map_option (\<lambda>v. (f v, data + of_nat n)) (read_le m data n)"

(* src/include/libcxxrt/dwarf_eh.h:218-247 read_value *)
definition read_value :: "table \<Rightarrow> u8 \<Rightarrow> addr \<Rightarrow> (u64 \<times> addr) option" where
  "read_value m encoding data = do {
     type \<leftarrow> get_encoding encoding;
     case type of
       Udata2 \<Rightarrow> read_fixed m data 2 (\<lambda>v. ucast (of_nat v :: u16))
     | Udata4 \<Rightarrow> read_fixed m data 4 (\<lambda>v. ucast (of_nat v :: u32))
     | Udata8 \<Rightarrow> read_fixed m data 8 of_nat
     | Sdata2 \<Rightarrow> read_fixed m data 2 (\<lambda>v. scast (of_nat v :: u16))
     | Sdata4 \<Rightarrow> read_fixed m data 4 (\<lambda>v. scast (of_nat v :: u32))
     | Sdata8 \<Rightarrow> read_fixed m data 8 of_nat
     | Absptr \<Rightarrow> read_fixed m data 4 (\<lambda>v. scast (of_nat v :: u32))
     | Sleb128 \<Rightarrow> read_sleb128 m data
     | Uleb128 \<Rightarrow> read_uleb128 m data
   }"

(* src/include/libcxxrt/dwarf_eh.h:256-286 resolve_indirect_value *)
definition resolve_indirect_value :: "table \<Rightarrow> unwind_context \<Rightarrow> u8 \<Rightarrow> u64 \<Rightarrow> addr \<Rightarrow> u64 option" where
  "resolve_indirect_value m c encoding v start =
     (let v = (case get_base encoding of
         Pcrel \<Rightarrow> v + ucast start
       | Textrel \<Rightarrow> v + ucast (unwind_text_rel_base c)
       | Datarel \<Rightarrow> v + ucast (unwind_data_rel_base c)
       | Funcrel \<Rightarrow> v + ucast (unwind_region_start c)
       | _ \<Rightarrow> v) in
      if is_indirect encoding then map_option of_nat (read_le m (ucast v) 4) else Some v)"

text \<open>The value stays \<open>out\<close> when it is omitted.\<close>

(* src/include/libcxxrt/dwarf_eh.h:292-303 read_value_with_encoding *)
definition read_value_with_encoding :: "table \<Rightarrow> unwind_context \<Rightarrow> addr \<Rightarrow> u64 \<Rightarrow> (u64 \<times> addr) option" where
  "read_value_with_encoding m c data out = do {
     let start = data;
     encoding \<leftarrow> m data;
     let data = data + 1;
     if encoding = omit then Some (out, data)
     else do {
       (v, data) \<leftarrow> read_value m encoding data;
       v \<leftarrow> resolve_indirect_value m c encoding v start;
       Some (v, data)
     }
   }"

section \<open>The language-specific data of a function\<close>

(* src/include/libcxxrt/dwarf_eh.h:315-332 dwarf_eh_lsda *)
record dwarf_eh_lsda =
  region_start :: addr
  landing_pads :: addr
  type_table :: addr
  type_table_encoding :: u8
  call_site_table :: addr
  action_table :: addr
  callsite_encoding :: u8

(* src/include/libcxxrt/dwarf_eh.h:338-381 parse_lsda *)
definition parse_lsda :: "table \<Rightarrow> unwind_context \<Rightarrow> addr \<Rightarrow> dwarf_eh_lsda option" where
  "parse_lsda m c data = do {
     let region = unwind_region_start c;
     (v, data) \<leftarrow> read_value_with_encoding m c data (ucast region);
     let pads = ucast v;
     type_encoding \<leftarrow> m data;
     let data = data + 1;
     (types, data) \<leftarrow> (if type_encoding \<noteq> omit then do {
         (v, data) \<leftarrow> read_uleb128 m data;
         Some (data + ucast v, data)
       } else Some (0, data));
     site_encoding \<leftarrow> m data;
     let data = data + 1;
     (callsite_size, data) \<leftarrow> read_uleb128 m data;
     Some \<lparr>region_start = region, landing_pads = pads, type_table = types, type_table_encoding = type_encoding,
       call_site_table = data, action_table = data + ucast callsite_size, callsite_encoding = site_encoding\<rparr>
   }"

(* src/include/libcxxrt/dwarf_eh.h:388-397 dwarf_eh_action *)
record dwarf_eh_action =
  landing_pad :: addr
  action_record :: addr

definition no_action :: dwarf_eh_action where
  "no_action = \<lparr>landing_pad = 0, action_record = 0\<rparr>"

(* src/include/libcxxrt/dwarf_eh.h:416-459 dwarf_eh_find_callsite *)
partial_function (option) find_callsite_loop :: "table \<Rightarrow> dwarf_eh_lsda \<Rightarrow> u64 \<Rightarrow> addr \<Rightarrow> (bool \<times> dwarf_eh_action) option" where
  "find_callsite_loop m lsda ip callsite_table =
     (if callsite_table \<le> action_table lsda then do {
        (call_site_start, callsite_table) \<leftarrow> read_value m (callsite_encoding lsda) callsite_table;
        (call_site_size, callsite_table) \<leftarrow> read_value m (callsite_encoding lsda) callsite_table;
        if call_site_start > ip then Some (False, no_action)
        else do {
          (pad, callsite_table) \<leftarrow> read_value m (callsite_encoding lsda) callsite_table;
          (action, callsite_table) \<leftarrow> read_uleb128 m callsite_table;
          if call_site_start < ip \<and> ip \<le> call_site_start + call_site_size then
            Some (True, \<lparr>landing_pad = (if pad \<noteq> 0 then landing_pads lsda + ucast pad else 0),
              action_record = (if action \<noteq> 0 then action_table lsda + ucast action - 1 else 0)\<rparr>)
          else find_callsite_loop m lsda ip callsite_table
        }
      } else Some (False, no_action))"

(* src/include/libcxxrt/dwarf_eh.h:406-460 dwarf_eh_find_callsite *)
definition dwarf_eh_find_callsite :: "table \<Rightarrow> unwind_context \<Rightarrow> dwarf_eh_lsda \<Rightarrow> (bool \<times> dwarf_eh_action) option" where
  "dwarf_eh_find_callsite m c lsda =
     find_callsite_loop m lsda (ucast (unwind_get_ip c - unwind_region_start c)) (call_site_table lsda)"

section \<open>Reading what was written\<close>

text \<open>The bytes at an address, and the encodings of numbers in base 128 as the standard defines them.\<close>

fun stored :: "table \<Rightarrow> addr \<Rightarrow> u8 list \<Rightarrow> bool" where
  "stored m p [] \<longleftrightarrow> True"
| "stored m p (b # bs) \<longleftrightarrow> m p = Some b \<and> stored m (p + 1) bs"

lemma stored_append: "stored m p (bs @ cs) \<longleftrightarrow> stored m p bs \<and> stored m (p + of_nat (length bs)) cs"
  by (induction bs arbitrary: p) (auto simp: algebra_simps)

fun uleb128 :: "nat \<Rightarrow> u8 list" where
  "uleb128 n = (if n < 128 then [of_nat n] else of_nat (n mod 128 + 128) # uleb128 (n div 128))"

declare uleb128.simps [simp del]

function sleb128 :: "int \<Rightarrow> u8 list" where
  "sleb128 x = (if - 64 \<le> x \<and> x < 64 then [word_of_int (x mod 128)]
     else word_of_int (x mod 128 + 128) # sleb128 (x div 128))"
  by pat_completeness auto
termination by (relation "measure (\<lambda>x. nat \<bar>x\<bar>)") auto

declare sleb128.simps [simp del]

text \<open>The digit of a byte, and whether another byte follows.\<close>

lemma digit_of_byte:
  assumes "n < 128"
  shows "(of_nat n :: u8) AND 0x7F = of_nat n" and "(of_nat (n + 128) :: u8) AND 0x7F = of_nat n"
    and "(of_nat (n + 128) :: u8) \<noteq> of_nat n"
proof -
  have m: "(w :: u8) AND 0x7F = take_bit 7 w" for w by (simp add: take_bit_eq_mask mask_eq_exp_minus_1)
  have "unat (of_nat n :: u8) = n" "unat (of_nat (n + 128) :: u8) = n + 128" 
    using assms by (simp_all add: unat_of_nat del: of_nat_add)
  then show "(of_nat n :: u8) AND 0x7F = of_nat n" "(of_nat (n + 128) :: u8) AND 0x7F = of_nat n"
    "(of_nat (n + 128) :: u8) \<noteq> of_nat n"
    using assms by (auto simp: m unat_take_bit intro!: unat_eqI)
qed

text \<open>
  The value of a sequence of digits, and the \<open>int\<close> it becomes on the way to 64 bits: all digits are shifted as
  32-bit numbers.
\<close>

fun leb_value :: "nat list \<Rightarrow> nat" where
  "leb_value [] = 0"
| "leb_value (d # ds) = d + 128 * leb_value ds"

fun digits_bytes :: "nat list \<Rightarrow> u8 list" where
  "digits_bytes [] = []"
| "digits_bytes [d] = [of_nat d]"
| "digits_bytes (d # ds) = of_nat (d + 128) # digits_bytes ds"

definition widened :: "nat \<Rightarrow> u64" where
  "widened n = scast (of_nat n :: u32)"

lemma length_digits_bytes [simp]: "length (digits_bytes ds) = length ds"
  by (induction ds rule: digits_bytes.induct) simp_all

lemma widened_small: "n < 2 ^ 31 \<Longrightarrow> widened n = of_nat n"
  by (simp add: widened_def scast_small unat_of_nat)

lemma shifted_digit_value: "n < 128 \<Longrightarrow> sh < 32 \<Longrightarrow> shifted_digit (of_nat n) sh = Some (widened (n * 2 ^ sh))"
  by (simp add: shifted_digit_def widened_def push_bit_eq_mult ucast_of_unat unat_of_nat)

lemma widened_add:
  assumes "a < 2 ^ k" and "k \<le> 31"
  shows "widened (a + 2 ^ k * b) = widened a + widened (2 ^ k * b)"
proof -
  define c where "c = b mod 2 ^ (32 - k)"
  have low: "2 ^ k * b mod 2 ^ 32 = 2 ^ k * c"
    using assms(2) by (simp add: c_def mult_mod_right flip: power_add)
  have "c < 2 ^ (32 - k)" by (simp add: c_def)
  then have "2 ^ k * (c + 1) \<le> 2 ^ k * 2 ^ (32 - k)" by (intro mult_left_mono) simp_all
  also have "\<dots> = (2 ^ 32 :: nat)" using assms(2) by (simp flip: power_add)
  finally have top: "2 ^ k * c + 2 ^ k \<le> 2 ^ 32" by simp
  have sum: "(a + 2 ^ k * b) mod 2 ^ 32 = a + 2 ^ k * c"
  proof -
    have "(a + 2 ^ k * b) mod 2 ^ 32 = (a + 2 ^ k * c) mod 2 ^ 32" by (subst mod_add_right_eq [symmetric]) (simp only: low)
    also have "\<dots> = a + 2 ^ k * c" by (rule mod_less) (use top assms(1) in linarith)
    finally show ?thesis .
  qed
  have sign: "a + 2 ^ k * c < 2 ^ 31 \<longleftrightarrow> 2 ^ k * c < 2 ^ 31"
  proof
    assume "2 ^ k * c < (2 ^ 31 :: nat)"
    also have "(2 ^ 31 :: nat) = 2 ^ k * 2 ^ (31 - k)" using assms(2) by (simp flip: power_add)
    finally have "c + 1 \<le> 2 ^ (31 - k)" by simp
    then have "2 ^ k * (c + 1) \<le> 2 ^ k * 2 ^ (31 - k)" by (intro mult_left_mono) simp_all
    also have "\<dots> = (2 ^ 31 :: nat)" using assms(2) by (simp flip: power_add)
    finally show "a + 2 ^ k * c < 2 ^ 31" using assms(1) by simp
  qed simp
  have "(2 :: nat) ^ k \<le> 2 ^ 31" using assms(2) by (intro power_increasing) simp_all
  then have "a < 2 ^ 31" using assms(1) by (rule order_less_le_trans [rotated])
  then have "sint (of_nat (a + 2 ^ k * b) :: u32) = sint (of_nat a :: u32) + sint (of_nat (2 ^ k * b) :: u32)"
    using sum low sign by (simp add: sint_u32 uint_nat unat_of_nat del: of_nat_add of_nat_mult)
  then show ?thesis by (simp only: widened_def scast_eq of_int_add)
qed

lemma leb128_loop_digits:
  assumes "ds \<noteq> []" and "\<forall>d \<in> set ds. d < 128" and "stored m p (digits_bytes ds)" and "7 dvd sh" "sh \<le> 35"
  shows "leb128_loop m p u sh = (if sh + 7 * length ds \<le> 35
      then Some (u + widened (leb_value ds * 2 ^ sh), sh + 7 * length ds, p + of_nat (length ds)) else None)"
  using assms
proof (induction ds arbitrary: p u sh rule: digits_bytes.induct)
  case (2 d)
  have "sh < 32 \<longleftrightarrow> sh + 7 \<le> 35" using 2(4,5) by presburger
  then show ?case
    using 2 digit_of_byte [of d] shifted_digit_value [of d sh]
    by (subst leb128_loop.simps) (auto simp: shifted_digit_def)
next
  case (3 d e ds)
  let ?rest = "e # ds"
  have d: "d < 128" and rest: "\<forall>d \<in> set ?rest. d < 128" using "3.prems"(2) by simp_all
  show ?case
  proof (cases "sh + 7 \<le> 28 \<or> sh = 28")
    case True
    have "leb_value (d # ?rest) * 2 ^ sh = d * 2 ^ sh + 2 ^ (sh + 7) * leb_value ?rest"
      by (simp add: power_add algebra_simps)
    moreover have "d * 2 ^ sh < 2 ^ (sh + 7)" using d by (simp add: power_add)
    ultimately have sum: "sh \<le> 21 \<Longrightarrow> widened (leb_value (d # ?rest) * 2 ^ sh)
        = widened (d * 2 ^ sh) + widened (leb_value ?rest * 2 ^ (sh + 7))"
      using widened_add [of "d * 2 ^ sh" "sh + 7" "leb_value ?rest"] by (simp add: mult.commute)
    have "sh < 32" "sh < 64" using True by auto
    then have "leb128_loop m p u sh = leb128_loop m (p + 1) (u + widened (d * 2 ^ sh)) (sh + 7)"
      using "3.prems"(3) digit_of_byte [OF d] shifted_digit_value [OF d, of sh] by (subst leb128_loop.simps) simp
    also have "\<dots> = (if sh + 7 + 7 * length ?rest \<le> 35 then Some (u + widened (d * 2 ^ sh)
        + widened (leb_value ?rest * 2 ^ (sh + 7)), sh + 7 + 7 * length ?rest, p + 1 + of_nat (length ?rest)) else None)"
      by (rule "3.IH") (use "3.prems"(3,4) True rest in auto)
    finally show ?thesis using sum True by (auto simp: add.assoc)
  next
    case False
    then have "sh = 35" using "3.prems"(4,5) by presburger
    then show ?thesis using "3.prems"(3) by (subst leb128_loop.simps) (auto simp: shifted_digit_def)
  qed
qed simp

text \<open>The encodings are such sequences of digits.\<close>

fun uleb_digits :: "nat \<Rightarrow> nat list" where
  "uleb_digits n = (if n < 128 then [n] else (n mod 128) # uleb_digits (n div 128))"

declare uleb_digits.simps [simp del]

lemma uleb_digits_ok:
  "uleb_digits n \<noteq> []" "\<forall>d \<in> set (uleb_digits n). d < 128" "leb_value (uleb_digits n) = n"
proof (induction n rule: uleb_digits.induct)
  case (1 n)
  {
    case 1
    show ?case by (simp add: uleb_digits.simps [of n])
  next
    case 2
    then show ?case using 1 by (simp add: uleb_digits.simps [of n])
  next
    case 3
    then show ?case using 1 by (simp add: uleb_digits.simps [of n])
  }
qed

lemma uleb128_digits: "uleb128 n = digits_bytes (uleb_digits n)"
proof (induction n rule: uleb_digits.induct)
  case (1 n)
  then show ?case
    by (cases "uleb_digits (n div 128)") (auto simp: uleb128.simps [of n] uleb_digits.simps [of n] uleb_digits_ok(1))
qed

lemma length_uleb_digits: "length (uleb_digits n) \<le> Suc k \<longleftrightarrow> n < 128 ^ Suc k"
proof (induction k arbitrary: n)
  case 0
  then show ?case using uleb_digits_ok(1) [of "n div 128"] by (simp add: uleb_digits.simps [of n])
next
  case (Suc k)
  have "n < 128 ^ Suc (Suc k) \<longleftrightarrow> n div 128 < 128 ^ Suc k" by (simp add: div_less_iff_less_mult mult.commute)
  moreover have "n < 128 \<Longrightarrow> n div 128 < 128 ^ Suc k" by simp
  ultimately show ?case using Suc.IH [of "n div 128"] by (simp add: uleb_digits.simps [of n])
qed

lemma read_uleb128_value:
  assumes "stored m p (uleb128 n)"
  shows "read_uleb128 m p = (if n < 2 ^ 35 then Some (widened n, p + of_nat (length (uleb128 n))) else None)"
proof -
  let ?ds = "uleb_digits n"
  have "n < 2 ^ 35 \<longleftrightarrow> 7 * length ?ds \<le> 35" using length_uleb_digits [of n 4] by simp
  moreover have "leb128_loop m p 0 0 = (if 7 * length ?ds \<le> 35
      then Some (widened n, 7 * length ?ds, p + of_nat (length ?ds)) else None)"
    using leb128_loop_digits [of ?ds m p 0 0] assms by (simp add: uleb_digits_ok uleb128_digits)
  ultimately show ?thesis by (simp add: read_uleb128_def read_leb128_def uleb128_digits)
qed

text \<open>
  An unsigned number in base 128 is read back when it is below 2^31. A larger one of up to five digits
  is cut to 32 bits and gets their sign, and one of more digits shifts an \<open>int\<close> by more than its width.
\<close>

theorem uleb128_roundtrip:
  assumes "stored m p (uleb128 n)"
  shows "(n < 2 ^ 31 \<longrightarrow> read_uleb128 m p = Some (of_nat n, p + of_nat (length (uleb128 n))))
    \<and> (2 ^ 31 \<le> n \<longrightarrow> n < 2 ^ 32 \<longrightarrow> read_uleb128 m p = Some (of_nat n - 2 ^ 32, p + of_nat (length (uleb128 n))))
    \<and> (2 ^ 35 \<le> n \<longrightarrow> read_uleb128 m p = None)"
proof -
  have "widened n = of_nat n - 2 ^ 32" if "2 ^ 31 \<le> n" "n < 2 ^ 32"
    using that by (simp add: widened_def scast_eq sint_u32 uint_nat unat_of_nat)
  then show ?thesis using read_uleb128_value [OF assms] by (auto simp: widened_small)
qed

theorem uleb128_roundtrip_witness:
  "read_uleb128 [0x10 \<mapsto> 0xE5, 0x11 \<mapsto> 0x8E, 0x12 \<mapsto> 0x26] 0x10 = Some (624485, 0x13)"
proof -
  have bytes: "uleb128 624485 = [0xE5, 0x8E, 0x26]" by (simp add: uleb128.simps)
  have "stored [0x10 \<mapsto> 0xE5, 0x11 \<mapsto> 0x8E, 0x12 \<mapsto> 0x26] 0x10 (uleb128 624485)" by (simp add: bytes)
  from uleb128_roundtrip [OF this] show ?thesis by (simp add: bytes)
qed

text \<open>Signed numbers: the last digit carries the sign.\<close>

function sleb_digits :: "int \<Rightarrow> nat list" where
  "sleb_digits x = (if - 64 \<le> x \<and> x < 64 then [nat (x mod 128)] else nat (x mod 128) # sleb_digits (x div 128))"
  by pat_completeness auto
termination by (relation "measure (\<lambda>x. nat \<bar>x\<bar>)") auto

declare sleb_digits.simps [simp del]

lemma sleb_digits_more:
  "\<not> (- 64 \<le> x \<and> x < 64) \<Longrightarrow> sleb_digits x = nat (x mod 128) # sleb_digits (x div 128)"
  by (subst sleb_digits.simps) (rule if_not_P)

lemma sleb_digits_nonempty: "sleb_digits x \<noteq> []"
  by (subst sleb_digits.simps) simp

lemma sleb_digits_small: "\<forall>d \<in> set (sleb_digits x). d < 128"
proof (induction x rule: sleb_digits.induct)
  case (1 x)
  then show ?case by (simp add: sleb_digits.simps [of x] nat_less_iff)
qed

lemma sleb_digits_value: "int (leb_value (sleb_digits x)) = x mod 128 ^ length (sleb_digits x)"
proof (induction x rule: sleb_digits.induct)
  case (1 x)
  show ?case
  proof (cases "- 64 \<le> x \<and> x < 64")
    case True
    then show ?thesis by (simp add: sleb_digits.simps [of x])
  next
    case False
    then have "int (leb_value (sleb_digits x)) = x mod 128 + 128 * (x div 128 mod 128 ^ length (sleb_digits (x div 128)))"
      using 1 [OF False] by (simp add: sleb_digits_more)
    also have "\<dots> = x mod (128 * 128 ^ length (sleb_digits (x div 128)))" by (simp add: zmod_zmult2_eq)
    finally show ?thesis using False by (simp add: sleb_digits_more)
  qed
qed

lemma sleb128_digits: "sleb128 x = digits_bytes (sleb_digits x)"
proof (induction x rule: sleb_digits.induct)
  case (1 x)
  have byte: "(of_nat (nat (x mod 128)) :: u8) = word_of_int (x mod 128)"
    "(of_nat (nat (x mod 128) + 128) :: u8) = word_of_int (x mod 128 + 128)" by simp_all
  show ?case
    using 1 sleb_digits_nonempty [of "x div 128"]
    by (cases "sleb_digits (x div 128)") (auto simp: sleb128.simps [of x] sleb_digits.simps [of x] byte simp del: of_nat_nat of_nat_add)
qed

lemma length_sleb_digits: "length (sleb_digits x) \<le> Suc k \<longleftrightarrow> - (64 * 128 ^ k) \<le> x \<and> x < 64 * 128 ^ k"
proof (induction k arbitrary: x)
  case 0
  then show ?case using sleb_digits_nonempty [of "x div 128"] by (simp add: sleb_digits.simps [of x])
next
  case (Suc k)
  have "x = 128 * (x div 128) + x mod 128" "0 \<le> x mod 128" "x mod 128 < 128" by simp_all
  then have "- (64 * (128 * y)) \<le> x \<longleftrightarrow> - (64 * y) \<le> x div 128" "x < 64 * (128 * y) \<longleftrightarrow> x div 128 < 64 * y" for y :: int
    by linarith+
  then have "- (64 * 128 ^ Suc k) \<le> x \<longleftrightarrow> - (64 * 128 ^ k) \<le> x div 128" "x < 64 * 128 ^ Suc k \<longleftrightarrow> x div 128 < 64 * 128 ^ k"
    by simp_all
  moreover have "1 \<le> (128 :: int) ^ k" by simp
  then have "- 64 \<le> x \<Longrightarrow> x < 64 \<Longrightarrow> - (64 * 128 ^ Suc k) \<le> x \<and> x < 64 * 128 ^ Suc k" unfolding power_Suc by linarith
  moreover have "- 64 \<le> x \<and> x < 64 \<Longrightarrow> length (sleb_digits x) = 1" by (simp add: sleb_digits.simps [of x])
  moreover have "\<not> (- 64 \<le> x \<and> x < 64) \<Longrightarrow> length (sleb_digits x) = Suc (length (sleb_digits (x div 128)))"
    by (simp add: sleb_digits_more)
  ultimately show ?case using Suc.IH [of "x div 128"] by (cases "- 64 \<le> x \<and> x < 64") (simp_all del: power_Suc)
qed

text \<open>Filling the bits from \<open>b\<close> on with ones subtracts a power of two.\<close>

lemma or_extends_sign:
  assumes "N < 2 ^ b" and "b \<le> 64"
  shows "(of_nat N :: u64) OR push_bit b (- 1) = of_nat N - 2 ^ b"
proof -
  have "(2 :: nat) ^ b \<le> 2 ^ 64" using assms(2) by (intro power_increasing) simp_all
  then have low: "take_bit b (of_nat N :: u64) = of_nat N"
    using assms(1) by (intro unat_eqI) (simp add: unat_take_bit unat_of_nat)
  have "take_bit b (w :: u64) AND push_bit b (- 1) = 0" for w
    by (rule bit_eqI) (auto simp: bit_and_iff bit_take_bit_iff bit_push_bit_iff bit_not_iff bit_mask_iff)
  from this [of "of_nat N"] have "(of_nat N :: u64) AND push_bit b (- 1) = 0" unfolding low .
  then have "(of_nat N :: u64) OR push_bit b (- 1) = of_nat N + push_bit b (- 1)"
    by (rule disjunctive_add_eq_or [symmetric])
  also have "\<dots> = of_nat N - 2 ^ b" by (simp only: push_bit_eq_mult mult_minus1 diff_conv_add_uminus)
  finally show ?thesis .
qed

text \<open>Up to four digits are extended by the code, and five by the widening of the \<open>int\<close>.\<close>

lemma read_sleb128_short:
  assumes "stored m p (sleb128 x)" and "length (sleb_digits x) \<le> 4"
  shows "read_sleb128 m p = Some (word_of_int x, p + of_nat (length (sleb128 x)))"
proof -
  define L where "L = length (sleb_digits x)"
  define N where "N = leb_value (sleb_digits x)"
  obtain k where L: "L = Suc k" "k < 4" using assms(2) sleb_digits_nonempty [of x] by (cases "sleb_digits x") (auto simp: L_def)
  have range: "- (64 * 128 ^ k) \<le> x" "x < 64 * 128 ^ k" using length_sleb_digits [of x k] L by (simp_all add: L_def)
  have N: "int N = x mod 128 ^ L" using sleb_digits_value [of x] by (simp add: N_def L_def)
  have top: "(128 :: int) ^ L = 2 * (64 * 128 ^ k)" by (simp add: L(1))
  have N': "int N = (if x < 0 then x + 128 ^ L else x)"
  proof (cases "x < 0")
    case True
    have "x mod 128 ^ L = (x + 128 ^ L) mod 128 ^ L" by simp
    also have "\<dots> = x + 128 ^ L" by (rule mod_pos_pos_trivial) (use range True top in linarith)+
    finally show ?thesis using True N by simp
  next
    case False
    then show ?thesis using range top by (simp add: N mod_pos_pos_trivial)
  qed
  have pow: "(2 :: nat) ^ (7 * L) = 128 ^ L" "(2 :: nat) ^ (7 * L - 1) = 64 * 128 ^ k"
    by (simp_all add: L(1) power_mult power_add)
  have "int N < 128 ^ L" by (simp add: N)
  also have "(128 :: int) ^ L \<le> 128 ^ 4" using L by (intro power_increasing) simp_all
  finally have small: "N < 2 ^ 28" by simp
  have "leb128_loop m p 0 0 = Some (of_nat N, 7 * L, p + of_nat L)"
    using leb128_loop_digits [of "sleb_digits x" m p 0 0] assms small
    by (simp add: sleb_digits_nonempty sleb_digits_small sleb128_digits N_def L_def widened_small)
  moreover have "drop_bit (7 * L - 1) (of_nat N :: u64) = 1 \<longleftrightarrow> x < 0"
  proof -
    define y where "y = (64 :: nat) * 128 ^ k"
    have y: "0 < y" "int N = (if x < 0 then x + 2 * int y else x)" "- int y \<le> x" "x < int y"
      using N' range by (simp_all add: y_def top)
    have "N div y = (if x < 0 then 1 else 0)"
      using y by (auto intro!: div_nat_eqI)
    moreover have "unat (of_nat N :: u64) = N" using small by (simp add: unat_of_nat)
    ultimately have "unat (drop_bit (7 * L - 1) (of_nat N :: u64)) = (if x < 0 then 1 else 0)"
      by (simp add: unat_drop_bit pow(2) y_def del: One_nat_def)
    then show ?thesis by (metis unat_0 unat_1 unat_eqI zero_neq_one)
  qed
  moreover have "of_nat N OR push_bit (7 * L) (- 1 :: u64) = word_of_int x" if "x < 0"
  proof -
    have "int N < 128 ^ L" by (simp add: N)
    then have "N < 2 ^ (7 * L)" unfolding pow(1) by (metis of_nat_less_iff of_nat_numeral of_nat_power)
    then have "(of_nat N :: u64) OR push_bit (7 * L) (- 1) = of_nat N - 2 ^ (7 * L)"
      by (rule or_extends_sign) (use L in simp)
    moreover have "x = int N - 2 ^ (7 * L)" using N' that by (simp add: power_mult)
    ultimately show ?thesis by (simp only: of_int_diff of_int_power of_int_numeral of_int_of_nat_eq)
  qed
  moreover have "\<not> x < 0 \<Longrightarrow> (of_nat N :: u64) = word_of_int x" using N' by (metis of_int_of_nat_eq)
  ultimately show ?thesis using L by (simp add: read_sleb128_def read_leb128_def sleb128_digits L_def)
qed

lemma widened_sign: "drop_bit 34 (scast (w :: u32) :: u64) \<noteq> 1"
proof
  assume one: "drop_bit 34 (scast w :: u64) = 1"
  have "bit (drop_bit 34 (scast w :: u64)) 1 = bit (drop_bit 34 (scast w :: u64)) 0"
    by (auto simp: bit_drop_bit_eq bit_word_scast_iff dest: bit_imp_le_length)
  then show False by (simp add: one)
qed

lemma read_sleb128_five:
  assumes "stored m p (sleb128 x)" and "length (sleb_digits x) = 5"
  shows "read_sleb128 m p = Some (scast (word_of_int x :: u32), p + of_nat (length (sleb128 x)))"
proof -
  define N where "N = leb_value (sleb_digits x)"
  have "int N mod 2 ^ 32 = x mod 2 ^ 32"
    using sleb_digits_value [of x] assms(2) by (simp add: N_def mod_mod_cancel)
  then have "(word_of_int (int N) :: u32) = word_of_int x" by (simp only: word_of_int_eq_iff take_bit_eq_mod) simp
  then have "(of_nat N :: u32) = word_of_int x" by simp
  then have "widened N = scast (word_of_int x :: u32)" by (simp add: widened_def)
  moreover have "leb128_loop m p 0 0 = Some (widened N, 35, p + 5)"
    using leb128_loop_digits [of "sleb_digits x" m p 0 0] assms
    by (simp add: sleb_digits_nonempty sleb_digits_small sleb128_digits N_def)
  ultimately show ?thesis
    using widened_sign by (simp add: read_sleb128_def read_leb128_def sleb128_digits assms(2))
qed

lemma read_sleb128_value:
  assumes "stored m p (sleb128 x)" and x: "- (2 ^ 31) \<le> x" "x < 2 ^ 31"
  shows "read_sleb128 m p = Some (word_of_int x, p + of_nat (length (sleb128 x)))"
proof (cases "length (sleb_digits x) \<le> 4")
  case True
  then show ?thesis using read_sleb128_short [OF assms(1)] by blast
next
  case False
  then have "length (sleb_digits x) = 5" using length_sleb_digits [of x 4] x by simp
  moreover have "sint (word_of_int x :: u32) = x" using x by (simp add: int_word_sint)
  then have "(scast (word_of_int x :: u32) :: u64) = word_of_int x" by (simp add: scast_eq)
  ultimately show ?thesis using read_sleb128_five [OF assms(1)] by simp
qed

text \<open>
  A signed number in base 128 is read back when it fits into 32 bits, negative numbers included;
  numbers with six digits or more shift an \<open>int\<close> by more than its width.
\<close>

theorem sleb128_roundtrip:
  assumes "stored m p (sleb128 x)"
  shows "(- (2 ^ 31) \<le> x \<and> x < 2 ^ 31 \<longrightarrow> read_sleb128 m p = Some (word_of_int x, p + of_nat (length (sleb128 x))))
    \<and> (x < - (2 ^ 34) \<or> 2 ^ 34 \<le> x \<longrightarrow> read_sleb128 m p = None)"
proof -
  have "read_sleb128 m p = None" if "x < - (2 ^ 34) \<or> 2 ^ 34 \<le> x"
  proof -
    have "\<not> length (sleb_digits x) \<le> 5" using length_sleb_digits [of x 4] that by auto
    then show ?thesis
      using leb128_loop_digits [of "sleb_digits x" m p 0 0] assms
      by (simp add: sleb_digits_nonempty sleb_digits_small sleb128_digits read_sleb128_def read_leb128_def)
  qed
  then show ?thesis using read_sleb128_value [OF assms] by blast
qed

theorem sleb128_roundtrip_witness:
  "read_sleb128 [0x10 \<mapsto> 0xC0, 0x11 \<mapsto> 0xBB, 0x12 \<mapsto> 0x78] 0x10 = Some (- 123456, 0x13)"
proof -
  have bytes: "sleb128 (- 123456) = [0xC0, 0xBB, 0x78]" by (simp add: sleb128.simps)
  have "stored [0x10 \<mapsto> 0xC0, 0x11 \<mapsto> 0xBB, 0x12 \<mapsto> 0x78] 0x10 (sleb128 (- 123456))" by (simp add: bytes)
  from sleb128_roundtrip [OF this] show ?thesis by (simp add: bytes)
qed

section \<open>Looking up a call\<close>

text \<open>
  The data as GCC emits it: landing pads relative to the function, call sites in base 128; \<open>type_part\<close> is the
  encoding of the type table with the offset of its end.
\<close>

record call_site =
  cs_start :: nat
  cs_size :: nat
  cs_pad :: nat
  cs_action :: nat

definition site_bytes :: "call_site \<Rightarrow> u8 list" where
  "site_bytes e = uleb128 (cs_start e) @ uleb128 (cs_size e) @ uleb128 (cs_pad e) @ uleb128 (cs_action e)"

definition site_small :: "call_site \<Rightarrow> bool" where
  "site_small e \<longleftrightarrow> cs_start e < 2 ^ 31 \<and> cs_size e < 2 ^ 31 \<and> cs_pad e < 2 ^ 31 \<and> cs_action e < 2 ^ 31"

definition table_bytes :: "call_site list \<Rightarrow> u8 list" where
  "table_bytes es = concat (map site_bytes es)"

definition covers :: "nat \<Rightarrow> call_site \<Rightarrow> bool" where
  "covers ip e \<longleftrightarrow> cs_start e < ip \<and> ip \<le> cs_start e + cs_size e"

definition site_action :: "addr \<Rightarrow> addr \<Rightarrow> call_site \<Rightarrow> dwarf_eh_action" where
  "site_action pads actions e = \<lparr>landing_pad = (if cs_pad e = 0 then 0 else pads + of_nat (cs_pad e)),
     action_record = (if cs_action e = 0 then 0 else actions + of_nat (cs_action e) - 1)\<rparr>"

lemma read_uleb128_small:
  "stored m p (uleb128 n) \<Longrightarrow> n < 2 ^ 31 \<Longrightarrow> read_uleb128 m p = Some (of_nat n, p + of_nat (length (uleb128 n)))"
  by (simp add: read_uleb128_value widened_small)

lemma ucast_small: "n < 2 ^ 31 \<Longrightarrow> ucast (of_nat n :: u64) = (of_nat n :: u32)"
  by (simp add: ucast_of_unat unat_of_nat)

lemma of_nat_u64_zero: "n < 2 ^ 31 \<Longrightarrow> (of_nat n :: u64) = 0 \<longleftrightarrow> n = 0"
  by (auto simp: word_of_nat_eq_0_iff dest: dvd_imp_le)

text \<open>One round of the loop over an entry.\<close>

lemma find_callsite_entry:
  assumes "stored m p (site_bytes e)" and "site_small e" and "callsite_encoding lsda = 1"
    and "p \<le> action_table lsda" and "ip < 2 ^ 32"
  shows "find_callsite_loop m lsda (of_nat ip) p =
    (if cs_start e > ip then Some (False, no_action)
     else if covers ip e then Some (True, site_action (landing_pads lsda) (action_table lsda) e)
     else find_callsite_loop m lsda (of_nat ip) (p + of_nat (length (site_bytes e))))"
proof -
  have val: "read_value m 1 q = read_uleb128 m q" for q by (simp add: read_value_def get_encoding_def)
  have small: "cs_start e < 2 ^ 31" "cs_size e < 2 ^ 31" "cs_pad e < 2 ^ 31" "cs_action e < 2 ^ 31"
    using assms(2) by (simp_all add: site_small_def)
  define p1 p2 p3 where ps: "p1 = p + of_nat (length (uleb128 (cs_start e)))" "p2 = p1 + of_nat (length (uleb128 (cs_size e)))"
    "p3 = p2 + of_nat (length (uleb128 (cs_pad e)))"
  have end_of_site: "p3 + of_nat (length (uleb128 (cs_action e))) = p + of_nat (length (site_bytes e))"
    by (simp add: ps site_bytes_def)
  have bytes: "stored m p (uleb128 (cs_start e))" "stored m p1 (uleb128 (cs_size e))" "stored m p2 (uleb128 (cs_pad e))"
    "stored m p3 (uleb128 (cs_action e))"
    using assms(1) by (simp_all add: site_bytes_def stored_append ps)
  have reads: "read_uleb128 m p = Some (of_nat (cs_start e), p1)" "read_uleb128 m p1 = Some (of_nat (cs_size e), p2)"
    "read_uleb128 m p2 = Some (of_nat (cs_pad e), p3)"
    "read_uleb128 m p3 = Some (of_nat (cs_action e), p + of_nat (length (site_bytes e)))"
    using bytes [THEN read_uleb128_small] small by (simp_all only: flip: ps end_of_site)
  have less: "(of_nat a :: u64) < of_nat b \<longleftrightarrow> a < b" if "a < 2 ^ 33" "b < 2 ^ 33" for a b
    using that by (simp add: word_less_nat_alt unat_of_nat)
  have cmp: "(of_nat ip :: u64) < of_nat (cs_start e) \<longleftrightarrow> ip < cs_start e"
    "(of_nat (cs_start e) :: u64) < of_nat ip \<longleftrightarrow> cs_start e < ip"
    "(of_nat ip :: u64) \<le> of_nat (cs_start e) + of_nat (cs_size e) \<longleftrightarrow> ip \<le> cs_start e + cs_size e"
    using less [of ip "cs_start e"] less [of "cs_start e" ip] less [of "cs_start e + cs_size e" ip] small assms(5)
    by (simp_all flip: of_nat_add not_less)
  show ?thesis
    using assms(3,4) cmp small
    by (subst find_callsite_loop.simps) (simp add: val reads covers_def site_action_def ucast_small of_nat_u64_zero)
qed

text \<open>Entries that end before the instruction are passed over.\<close>

lemma unat_add_below: "unat (p :: addr) + n \<le> unat (q :: addr) \<Longrightarrow> unat (p + of_nat n) = unat p + n"
proof -
  assume "unat p + n \<le> unat q"
  then have "unat p + n < 2 ^ 32" by (rule order_le_less_trans) simp
  then show ?thesis by (simp add: unat_word_ariths unat_of_nat mod_simps)
qed

lemma find_callsite_skip:
  assumes "stored m p (table_bytes es)" and "\<forall>e \<in> set es. site_small e \<and> cs_start e \<le> ip \<and> \<not> covers ip e"
    and "callsite_encoding lsda = 1" and "unat p + length (table_bytes es) \<le> unat (action_table lsda)" and "ip < 2 ^ 32"
  shows "find_callsite_loop m lsda (of_nat ip) p = find_callsite_loop m lsda (of_nat ip) (p + of_nat (length (table_bytes es)))"
  using assms(1,2,4)
proof (induction es arbitrary: p)
  case Nil
  then show ?case by (simp add: table_bytes_def)
next
  case (Cons e es)
  let ?q = "p + of_nat (length (site_bytes e))"
  have es: "table_bytes (e # es) = site_bytes e @ table_bytes es" by (simp add: table_bytes_def)
  have "unat ?q = unat p + length (site_bytes e)"
    using Cons.prems(3) by (intro unat_add_below [where q = "action_table lsda"]) (simp add: es)
  then have "find_callsite_loop m lsda (of_nat ip) ?q = find_callsite_loop m lsda (of_nat ip) (?q + of_nat (length (table_bytes es)))"
    using Cons.prems by (intro Cons.IH) (simp_all add: es stored_append)
  moreover have "find_callsite_loop m lsda (of_nat ip) p = find_callsite_loop m lsda (of_nat ip) ?q"
    using find_callsite_entry [of m p e lsda ip] Cons.prems assms(3,5) by (simp add: es stored_append word_le_nat_alt)
  ultimately show ?case by (simp add: es add.assoc)
qed

text \<open>What the table says: the first entry that covers the instruction.\<close>

definition site_for :: "nat \<Rightarrow> call_site list \<Rightarrow> call_site option" where
  "site_for ip es = find (covers ip) es"

lemma find_callsite_table:
  assumes "stored m p (table_bytes es)" and "\<forall>e \<in> set es. site_small e" and "sorted (map cs_start es)"
    and "\<exists>e \<in> set es. covers ip e \<or> ip < cs_start e"
    and "callsite_encoding lsda = 1" and "unat p + length (table_bytes es) \<le> unat (action_table lsda)" and "ip < 2 ^ 32"
  shows "find_callsite_loop m lsda (of_nat ip) p = Some (case site_for ip es of None \<Rightarrow> (False, no_action)
    | Some e \<Rightarrow> (True, site_action (landing_pads lsda) (action_table lsda) e))"
proof -
  let ?stop = "\<lambda>e. covers ip e \<or> ip < cs_start e"
  obtain pre e post where es: "es = pre @ e # post" "?stop e" "\<forall>x \<in> set pre. \<not> ?stop x"
    using split_list_first_prop [OF assms(4)] by blast
  let ?q = "p + of_nat (length (table_bytes pre))"
  have bytes: "table_bytes es = table_bytes pre @ site_bytes e @ table_bytes post" by (simp add: es(1) table_bytes_def)
  have st: "stored m p (table_bytes pre)" "stored m ?q (site_bytes e)" using assms(1) by (simp_all add: bytes stored_append)
  have len: "unat p + length (table_bytes pre) \<le> unat (action_table lsda)" using assms(6) by (simp add: bytes)
  have e: "site_small e" "\<forall>x \<in> set pre. site_small x" using assms(2) by (simp_all add: es(1))
  have "find_callsite_loop m lsda (of_nat ip) p = find_callsite_loop m lsda (of_nat ip) ?q"
    using st(1) len e(2) es(3) assms(5,7) by (intro find_callsite_skip) auto
  moreover have "unat ?q = unat p + length (table_bytes pre)"
    using len by (rule unat_add_below)
  then have "find_callsite_loop m lsda (of_nat ip) ?q = (if cs_start e > ip then Some (False, no_action)
      else if covers ip e then Some (True, site_action (landing_pads lsda) (action_table lsda) e)
      else find_callsite_loop m lsda (of_nat ip) (?q + of_nat (length (site_bytes e))))"
    using st(2) len e(1) assms(5,7) by (intro find_callsite_entry) (simp_all add: word_le_nat_alt)
  moreover have "site_for ip es = (if covers ip e then Some e else None)"
  proof -
    have "find (covers ip) pre = None" using es(3) by (simp add: find_None_iff)
    moreover have "\<not> covers ip x" if "x \<in> set post" "\<not> covers ip e" for x
      using that es assms(3) by (auto simp: sorted_append covers_def)
    then have "\<not> covers ip e \<Longrightarrow> find (covers ip) post = None" by (simp add: find_None_iff)
    ultimately show ?thesis by (simp add: site_for_def es(1) find_append)
  qed
  moreover have "covers ip e \<Longrightarrow> \<not> ip < cs_start e" by (simp add: covers_def)
  ultimately show ?thesis using es(2) by auto
qed

text \<open>The header in front of the table.\<close>

definition lsda_bytes :: "(u8 \<times> nat) option \<Rightarrow> call_site list \<Rightarrow> u8 list" where
  "lsda_bytes type_part es = omit # (case type_part of None \<Rightarrow> [omit] | Some (enc, n) \<Rightarrow> enc # uleb128 n)
     @ 1 # uleb128 (length (table_bytes es)) @ table_bytes es"

lemma parse_lsda_bytes:
  assumes "stored m p (lsda_bytes type_part es)" and "length (table_bytes es) < 2 ^ 31"
    and "case type_part of None \<Rightarrow> True | Some (enc, n) \<Rightarrow> enc \<noteq> omit \<and> n < 2 ^ 31"
  shows "\<exists>lsda. parse_lsda m c p = Some lsda \<and> landing_pads lsda = 0 \<and> callsite_encoding lsda = 1
    \<and> action_table lsda = p + of_nat (length (lsda_bytes type_part es))
    \<and> call_site_table lsda + of_nat (length (table_bytes es)) = action_table lsda
    \<and> stored m (call_site_table lsda) (table_bytes es)
    \<and> (case type_part of None \<Rightarrow> type_table lsda = 0
       | Some (enc, n) \<Rightarrow> type_table lsda = p + 2 + of_nat (length (uleb128 n)) + of_nat n \<and> type_table_encoding lsda = enc)"
proof (cases type_part)
  case None
  have "stored m (p + 3) (uleb128 (length (table_bytes es)))" using assms(1)
    by (simp add: lsda_bytes_def None stored_append add_ac)
  from read_uleb128_small [OF this assms(2)] show ?thesis using assms(1)
    by (simp add: lsda_bytes_def None stored_append parse_lsda_def read_value_with_encoding_def
        unwind_region_start_def Let_def ucast_small [OF assms(2)] omit_def algebra_simps)
next
  case (Some t)
  obtain enc n where t: "t = (enc, n)" by (cases t)
  have "stored m (p + 2) (uleb128 n)" "n < 2 ^ 31" using assms by (simp_all add: lsda_bytes_def Some t stored_append add_ac)
  note r1 = read_uleb128_small [OF this]
  define q where "q = p + 2 + of_nat (length (uleb128 n))"
  have "stored m (q + 1) (uleb128 (length (table_bytes es)))" "m q = Some 1"
    "stored m (q + 1 + of_nat (length (uleb128 (length (table_bytes es))))) (table_bytes es)"
    using assms(1) by (simp_all add: lsda_bytes_def Some t stored_append q_def algebra_simps)
  moreover note r2 = read_uleb128_small [OF this(1) assms(2)]
  ultimately show ?thesis using assms r1
    by (simp add: lsda_bytes_def Some t stored_append parse_lsda_def read_value_with_encoding_def
        unwind_region_start_def Let_def ucast_small flip: q_def) (simp add: q_def ucast_small algebra_simps)
qed

lemma lsda_search_parts:
  assumes "stored m p (lsda_bytes type_part es)" and "unat p + length (lsda_bytes type_part es) < 2 ^ 32"
    and "\<forall>e \<in> set es. site_small e" and "length (table_bytes es) < 2 ^ 31" and "sorted (map cs_start es)"
    and "case type_part of None \<Rightarrow> True | Some (enc, n) \<Rightarrow> enc \<noteq> omit \<and> n < 2 ^ 31"
    and "ip < 2 ^ 32" and "\<exists>e \<in> set es. covers ip e \<or> ip < cs_start e"
  shows "\<exists>lsda. parse_lsda m c p = Some lsda
    \<and> find_callsite_loop m lsda (of_nat ip) (call_site_table lsda) = Some (case site_for ip es of
        None \<Rightarrow> (False, no_action)
      | Some e \<Rightarrow> (True, site_action 0 (p + of_nat (length (lsda_bytes type_part es))) e))
    \<and> (case type_part of None \<Rightarrow> type_table lsda = 0
       | Some (enc, n) \<Rightarrow> type_table lsda = p + 2 + of_nat (length (uleb128 n)) + of_nat n \<and> type_table_encoding lsda = enc)"
proof -
  let ?n = "length (lsda_bytes type_part es)" and ?k = "length (table_bytes es)"
  obtain lsda where lsda: "parse_lsda m c p = Some lsda" "landing_pads lsda = 0" "callsite_encoding lsda = 1"
    "action_table lsda = p + of_nat ?n" "call_site_table lsda + of_nat ?k = action_table lsda"
    "stored m (call_site_table lsda) (table_bytes es)"
    "case type_part of None \<Rightarrow> type_table lsda = 0
     | Some (enc, n) \<Rightarrow> type_table lsda = p + 2 + of_nat (length (uleb128 n)) + of_nat n \<and> type_table_encoding lsda = enc"
    using parse_lsda_bytes [OF assms(1,4,6)] by blast
  have k: "?k \<le> ?n" by (simp add: lsda_bytes_def)
  have unat: "unat (p + of_nat j) = unat p + j" if "j \<le> ?n" for j
  proof -
    have "unat p + j < 2 ^ 32" using that assms(2) by linarith
    then show ?thesis by (simp add: unat_word_ariths unat_of_nat mod_simps)
  qed
  have "call_site_table lsda = p + of_nat (?n - ?k)"
    using lsda(4,5) by (simp add: of_nat_diff [OF k] algebra_simps)
  then have "unat (call_site_table lsda) = unat p + (?n - ?k)" using unat [of "?n - ?k"] by simp
  then have "unat (call_site_table lsda) + ?k \<le> unat (action_table lsda)" using k unat [OF order_refl] by (simp add: lsda(4))
  then have "find_callsite_loop m lsda (of_nat ip) (call_site_table lsda) = Some (case site_for ip es of
      None \<Rightarrow> (False, no_action) | Some e \<Rightarrow> (True, site_action (landing_pads lsda) (action_table lsda) e))"
    using find_callsite_table [OF lsda(6) assms(3,5,8) lsda(3)] assms(7) by blast
  then show ?thesis using lsda(1,7) by (simp only: lsda(2,4)) blast
qed

lemma find_callsite_absolute:
  "dwarf_eh_find_callsite m c lsda = find_callsite_loop m lsda (of_nat (unat (instruction_pointer c))) (call_site_table lsda)"
  by (simp only: dwarf_eh_find_callsite_def unwind_get_ip_def unwind_region_start_def diff_zero ucast_of_unat)

lemma lsda_lookup_parts:
  assumes "stored m p (lsda_bytes type_part es)" and "unat p + length (lsda_bytes type_part es) < 2 ^ 32"
    and "\<forall>e \<in> set es. site_small e" and "length (table_bytes es) < 2 ^ 31" and "sorted (map cs_start es)"
    and "case type_part of None \<Rightarrow> True | Some (enc, n) \<Rightarrow> enc \<noteq> omit \<and> n < 2 ^ 31"
    and ip: "ip = unat (instruction_pointer c)" and "\<exists>e \<in> set es. covers ip e \<or> ip < cs_start e"
  shows "\<exists>lsda. parse_lsda m c p = Some lsda
    \<and> dwarf_eh_find_callsite m c lsda = Some (case site_for ip es of
        None \<Rightarrow> (False, no_action)
      | Some e \<Rightarrow> (True, site_action 0 (p + of_nat (length (lsda_bytes type_part es))) e))
    \<and> (case type_part of None \<Rightarrow> type_table lsda = 0
       | Some (enc, n) \<Rightarrow> type_table lsda = p + 2 + of_nat (length (uleb128 n)) + of_nat n \<and> type_table_encoding lsda = enc)"
proof -
  have "ip < 2 ^ 32" using ip unat_u32_less by simp
  then show ?thesis
    unfolding find_callsite_absolute ip [symmetric] by (rule lsda_search_parts [OF assms(1-6) _ assms(8)])
qed

text \<open>
  Property C28: The data of a function, in the form that GCC emits, are parsed, and the search for an offset in the
  function finds the entry of the table that covers it, with its landing pad, relative to the start of the function,
  and its action, and reports that there is none when an entry behind the offset follows. The lookup searches
  for the address of the instruction itself: the start of the function, which it takes off, is always 0.
  An offset behind all entries is not covered: the search runs on past the table.
\<close>

theorem lsda_lookup:
  assumes "stored m p (lsda_bytes type_part es)" and "unat p + length (lsda_bytes type_part es) < 2 ^ 32"
    and "\<forall>e \<in> set es. site_small e" and "length (table_bytes es) < 2 ^ 31" and "sorted (map cs_start es)"
    and "case type_part of None \<Rightarrow> True | Some (enc, n) \<Rightarrow> enc \<noteq> omit \<and> n < 2 ^ 31"
    and "off < 2 ^ 32" and "\<exists>e \<in> set es. covers off e \<or> off < cs_start e"
  shows "\<exists>lsda. parse_lsda m c p = Some lsda
    \<and> find_callsite_loop m lsda (of_nat off) (call_site_table lsda) = Some (case site_for off es of
        None \<Rightarrow> (False, no_action)
      | Some e \<Rightarrow> (True, site_action 0 (p + of_nat (length (lsda_bytes type_part es))) e))
    \<and> dwarf_eh_find_callsite m c lsda
        = find_callsite_loop m lsda (of_nat (unat (instruction_pointer c))) (call_site_table lsda)"
  using lsda_search_parts [OF assms, of c] find_callsite_absolute by blast

text \<open>A function with two calls; the second one has a landing pad and an action.\<close>

definition sample_sites :: "call_site list" where
  "sample_sites = [\<lparr>cs_start = 0x10, cs_size = 5, cs_pad = 0, cs_action = 0\<rparr>, \<lparr>cs_start = 0x20, cs_size = 8, cs_pad = 0x90, cs_action = 1\<rparr>]"

definition table_at :: "addr \<Rightarrow> u8 list \<Rightarrow> table" where
  "table_at p bs a = (if unat (a - p) < length bs then Some (bs ! unat (a - p)) else None)"

lemma sample_sites_bytes: "lsda_bytes None sample_sites = [0xFF, 0xFF, 1, 9, 0x10, 5, 0, 0, 0x20, 8, 0x90, 1, 1]"
  by (simp add: sample_sites_def lsda_bytes_def table_bytes_def site_bytes_def uleb128.simps omit_def)

theorem lsda_lookup_witness:
  "\<exists>lsda. parse_lsda (table_at 0x1000 (lsda_bytes None sample_sites)) \<lparr>generic_register = [], instruction_pointer = 0x8025\<rparr> 0x1000 = Some lsda
     \<and> find_callsite_loop (table_at 0x1000 (lsda_bytes None sample_sites)) lsda 0x25 (call_site_table lsda)
         = Some (True, \<lparr>landing_pad = 0x90, action_record = 0x100D\<rparr>)"
proof -
  have "stored (table_at 0x1000 (lsda_bytes None sample_sites)) 0x1000 (lsda_bytes None sample_sites)"
    unfolding sample_sites_bytes by (simp add: table_at_def)
  moreover have "\<forall>e \<in> set sample_sites. site_small e" "sorted (map cs_start sample_sites)"
    "\<exists>e \<in> set sample_sites. covers 0x25 e \<or> 0x25 < cs_start e" "length (table_bytes sample_sites) < 2 ^ 31"
    by (simp_all add: sample_sites_def site_small_def covers_def table_bytes_def site_bytes_def uleb128.simps)
  moreover have "site_for 0x25 sample_sites = Some \<lparr>cs_start = 0x20, cs_size = 8, cs_pad = 0x90, cs_action = 1\<rparr>"
    by (simp add: site_for_def sample_sites_def covers_def)
  ultimately show ?thesis
    using lsda_lookup [of _ "0x1000" None sample_sites "0x25" "\<lparr>generic_register = [], instruction_pointer = 0x8025\<rparr>"]
    by (auto simp: sample_sites_bytes site_action_def)
qed

text \<open>
  The loop ends at the action table only when it is behind it: when the table ends before the instruction, the
  first action record is read as an entry.
\<close>

theorem find_callsite_reads_past_end:
  assumes "stored m (call_site_table lsda) (table_bytes es)"
    and "\<forall>e \<in> set es. site_small e \<and> cs_start e + cs_size e < unat (instruction_pointer c)"
    and "callsite_encoding lsda = 1" and "action_table lsda = call_site_table lsda + of_nat (length (table_bytes es))"
    and "unat (call_site_table lsda) + length (table_bytes es) < 2 ^ 32" and "m (action_table lsda) = None"
  shows "dwarf_eh_find_callsite m c lsda = None"
proof -
  let ?ip = "unat (instruction_pointer c)"
  have "unat (action_table lsda) = unat (call_site_table lsda) + length (table_bytes es)"
    using assms(5) by (simp add: assms(4) unat_word_ariths unat_of_nat mod_simps)
  moreover have "\<forall>e \<in> set es. site_small e \<and> cs_start e \<le> ?ip \<and> \<not> covers ?ip e"
    using assms(2) by (fastforce simp: covers_def)
  ultimately have "find_callsite_loop m lsda (of_nat ?ip) (call_site_table lsda) = find_callsite_loop m lsda (of_nat ?ip) (action_table lsda)"
    using find_callsite_skip [OF assms(1) _ assms(3), of ?ip] by (simp add: assms(4))
  also have "\<dots> = None"
    by (subst find_callsite_loop.simps)
      (simp add: assms(3,6) read_value_def get_encoding_def read_uleb128_def read_leb128_def leb128_loop.simps [of _ "action_table lsda"])
  finally show ?thesis
    by (simp only: dwarf_eh_find_callsite_def unwind_get_ip_def unwind_region_start_def ucast_of_unat diff_zero)
qed

end
