(* ===== verification/Exceptions.thy ===== *)
theory Exceptions
  imports Type_Info Dwarf_EH
begin

text \<open>
  The exceptions of C++ in \<open>libcxxrt/exception.cc\<close>: the header that stands before a thrown object, the stack
  of the exceptions that are being handled, the counts that decide when an object is destroyed, and the
  search for a handler in the tables of a function. The file is in the library but not among the files
  that its build compiles, and the kernel's unwinder (\<open>libcxxrt/unwind.cpp\<close>) only fails an assertion; the
  unwinder is an argument here. The thread functions it asks for are weak symbols without a definition,
  so there is one \<open>__cxa_thread_info\<close>. Destructors and handlers return nothing to the model: an event
  says that they were called.
\<close>

section \<open>Headers and the state of the run-time library\<close>

(* src/include/libcxxrt/dwarf_eh.h:463-471 EXCEPTION_CLASS *)
definition make_exception_class :: "nat list \<Rightarrow> u64" where
  "make_exception_class cs = foldl (\<lambda>v c. push_bit 8 v + of_nat c) 0 cs"

(* src/libcxxrt/exception.cc:246-247 exception_class *)
definition cxx_exception_class :: u64 where
  "cxx_exception_class = make_exception_class (map of_char ''GNUCC++'' @ [0])"

(* src/libcxxrt/exception.cc:251-252 dependent_exception_class *)
definition dependent_exception_class :: u64 where
  "dependent_exception_class = make_exception_class (map of_char ''GNUCC++'' @ [1])"

(* src/libcxxrt/exception.cc:262-265 isCXXException *)
definition is_cxx_exception :: "u64 \<Rightarrow> bool" where
  "is_cxx_exception cls \<longleftrightarrow> cls = cxx_exception_class \<or> cls = dependent_exception_class"

(* src/libcxxrt/exception.cc:267-270 isDependentException *)
definition is_dependent_exception :: "u64 \<Rightarrow> bool" where
  "is_dependent_exception cls \<longleftrightarrow> cls = dependent_exception_class"

text \<open>
  The header has twelve words and then the part that every language has (\<open>_Unwind_Exception\<close>, twenty bytes).
  A dependent exception has the address of the primary object in the place of the reference count.
\<close>

datatype cleanup_function = Cxx_Cleanup | Dependent_Cleanup | Foreign_Cleanup addr

(* src/include/libcxxrt/cxxabi.h:77-165 __cxa_exception *)
record cxa_exception =
  exception_type :: addr
  exception_destructor :: addr
  ex_unexpected_handler :: addr
  ex_terminate_handler :: addr
  next_exception :: addr
  handler_count :: int
  handler_switch_value :: u32
  ex_action_record :: addr
  language_specific_data :: addr
  catch_temp :: addr
  adjusted_ptr :: addr
  reference_count :: u32
  exception_class :: u64
  exception_cleanup :: cleanup_function

definition zero_exception :: cxa_exception where
  "zero_exception = \<lparr>exception_type = 0, exception_destructor = 0, ex_unexpected_handler = 0, ex_terminate_handler = 0,
     next_exception = 0, handler_count = 0, handler_switch_value = 0, ex_action_record = 0, language_specific_data = 0,
     catch_temp = 0, adjusted_ptr = 0, reference_count = 0, exception_class = 0, exception_cleanup = Foreign_Cleanup 0\<rparr>"

(* src/libcxxrt/exception.cc:200-224 __cxa_dependent_exception *)
definition primary_exception :: "cxa_exception \<Rightarrow> addr" where
  "primary_exception e = reference_count e"

definition header_words :: "cxa_exception \<Rightarrow> u32 list" where
  "header_words e = [exception_type e, exception_destructor e, ex_unexpected_handler e, ex_terminate_handler e,
     next_exception e, word_of_int (handler_count e), handler_switch_value e, ex_action_record e,
     language_specific_data e, catch_temp e, adjusted_ptr e, reference_count e]"

definition ex_header_size :: addr where
  "ex_header_size = 68"

definition unwind_header :: addr where
  "unwind_header = 48"

(* src/libcxxrt/exception.cc:272-276 exceptionFromPointer *)
definition exception_from_pointer :: "addr \<Rightarrow> addr" where
  "exception_from_pointer p = p - unwind_header"

datatype foreign_exception_state = Foreign_None | Foreign_Caught | Foreign_Rethrown

(* src/libcxxrt/exception.cc:162-196 __cxa_thread_info *)
record cxa_thread_info =
  ti_terminate_handler :: addr
  ti_unexpected_handler :: addr
  emergency_buffers_held :: int
  foreign_state :: foreign_exception_state
  caught_exceptions :: addr
  uncaught_exceptions :: u32

datatype eh_event = Destroy addr addr | Free addr | Cleanup addr addr | Terminated addr

text \<open>The thread's part, the global handlers, the headers in memory, and what was called.\<close>

record eh_state = cxa_thread_info +
  g_terminate_handler :: addr
  g_unexpected_handler :: addr
  eh_headers :: "addr \<Rightarrow> cxa_exception option"
  eh_events :: "eh_event list"

definition put_header :: "addr \<Rightarrow> cxa_exception \<Rightarrow> eh_state \<Rightarrow> eh_state" where
  "put_header h e s = s\<lparr>eh_headers := (eh_headers s)(h \<mapsto> e)\<rparr>"

definition note_event :: "eh_event \<Rightarrow> eh_state \<Rightarrow> eh_state" where
  "note_event ev s = s\<lparr>eh_events := eh_events s @ [ev]\<rparr>"

(* src/libcxxrt/exception.cc:277-281 realExceptionFromException *)
definition real_exception :: "addr \<Rightarrow> cxa_exception \<Rightarrow> addr" where
  "real_exception h e = (if is_dependent_exception (exception_class e) then primary_exception e - ex_header_size else h)"

section \<open>Handlers for the end of the program\<close>

(* src/libcxxrt/exception.cc:1445-1456 terminate *)
definition std_terminate :: "eh_state \<Rightarrow> eh_state" where
  "std_terminate s = note_event (Terminated (if ti_terminate_handler s \<noteq> 0 then ti_terminate_handler s
     else g_terminate_handler s)) s"

(* src/libcxxrt/exception.cc:1462-1473 unexpected *)
definition std_unexpected :: "eh_state \<Rightarrow> eh_state" where
  "std_unexpected s = note_event (Terminated (if ti_unexpected_handler s \<noteq> 0 then ti_unexpected_handler s
     else g_unexpected_handler s)) s"

(* src/libcxxrt/exception.cc:1411-1417 pathscale::set_terminate *)
definition set_thread_terminate :: "addr \<Rightarrow> eh_state \<Rightarrow> addr \<times> eh_state" where
  "set_thread_terminate f s = (ti_terminate_handler s, s\<lparr>ti_terminate_handler := f\<rparr>)"

(* src/libcxxrt/exception.cc:1401-1407 pathscale::set_unexpected *)
definition set_thread_unexpected :: "addr \<Rightarrow> eh_state \<Rightarrow> addr \<times> eh_state" where
  "set_thread_unexpected f s = (ti_unexpected_handler s, s\<lparr>ti_unexpected_handler := f\<rparr>)"

text \<open>\<open>local\<close> is the flag \<open>thread_local_handlers\<close>.\<close>

(* src/libcxxrt/exception.cc:1435-1440 set_terminate *)
definition set_terminate :: "bool \<Rightarrow> addr \<Rightarrow> eh_state \<Rightarrow> addr \<times> eh_state" where
  "set_terminate local f s = (if local then set_thread_terminate f s
     else (g_terminate_handler s, s\<lparr>g_terminate_handler := f\<rparr>))"

(* src/libcxxrt/exception.cc:1426-1431 set_unexpected *)
definition set_unexpected :: "bool \<Rightarrow> addr \<Rightarrow> eh_state \<Rightarrow> addr \<times> eh_state" where
  "set_unexpected local f s = (if local then set_thread_unexpected f s
     else (g_unexpected_handler s, s\<lparr>g_unexpected_handler := f\<rparr>))"

(* src/libcxxrt/exception.cc:1507-1515 get_terminate *)
definition get_terminate :: "eh_state \<Rightarrow> addr" where
  "get_terminate s = (if ti_terminate_handler s \<noteq> 0 then ti_terminate_handler s else g_terminate_handler s)"

(* src/libcxxrt/exception.cc:1495-1503 get_unexpected *)
definition get_unexpected :: "eh_state \<Rightarrow> addr" where
  "get_unexpected s = (if ti_unexpected_handler s \<noteq> 0 then ti_unexpected_handler s else g_unexpected_handler s)"

(* src/libcxxrt/exception.cc:1478-1482 uncaught_exception *)
definition uncaught_exception :: "eh_state \<Rightarrow> bool" where
  "uncaught_exception s \<longleftrightarrow> uncaught_exceptions s \<noteq> 0"


section \<open>Destroying an exception\<close>

text \<open>The memory of a header is given back (\<open>give_back\<close> in \<open>Exception_Memory\<close>); it can no longer be used.\<close>

definition free_exception :: "addr \<Rightarrow> eh_state \<Rightarrow> eh_state" where
  "free_exception h s = note_event (Free h) (s\<lparr>eh_headers := (eh_headers s)(h := None)\<rparr>)"

(* src/libcxxrt/exception.cc:607-625 __cxa_free_exception *)
definition cxa_free_exception :: "addr \<Rightarrow> eh_state \<Rightarrow> eh_state option" where
  "cxa_free_exception obj s = do {
     let h = obj - ex_header_size;
     e \<leftarrow> eh_headers s h;
     let s = (if exception_destructor e \<noteq> 0 then note_event (Destroy (exception_destructor e) obj) s else s);
     Some (free_exception h s)
   }"

text \<open>\<open>releaseException\<close> and \<open>__cxa_free_dependent_exception\<close>, which call each other.\<close>

(* src/libcxxrt/exception.cc:627-652 releaseException *)
partial_function (option) release_exception :: "addr \<Rightarrow> eh_state \<Rightarrow> eh_state option" where
  "release_exception h s = do {
     e \<leftarrow> eh_headers s h;
     if is_dependent_exception (exception_class e) then do {
       s \<leftarrow> (if primary_exception e \<noteq> 0 then release_exception (real_exception h e) s else Some s);
       Some (free_exception h s)
     } else do {
       let e = e\<lparr>reference_count := reference_count e - 1\<rparr>;
       let s = put_header h e s;
       if reference_count e = 0 then cxa_free_exception (h + ex_header_size) s else Some s
     }
   }"

(* src/libcxxrt/exception.cc:327-336 free_exception_list *)
partial_function (option) free_exception_list :: "addr \<Rightarrow> eh_state \<Rightarrow> eh_state option" where
  "free_exception_list h s = do {
     e \<leftarrow> eh_headers s h;
     s \<leftarrow> (if next_exception e \<noteq> 0 then free_exception_list (next_exception e) s else Some s);
     cxa_free_exception (h + ex_header_size) s
   }"

(* src/libcxxrt/exception.cc:643-652 __cxa_free_dependent_exception *)
definition cxa_free_dependent_exception :: "addr \<Rightarrow> eh_state \<Rightarrow> eh_state option" where
  "cxa_free_dependent_exception obj s = do {
     e \<leftarrow> eh_headers s (obj - ex_header_size);
     if is_dependent_exception (exception_class e) then release_exception (obj - ex_header_size) s else None
   }"

text \<open>
  The cleanup function of an exception is a pointer in its header, to one of the two functions here or to
  one that another language brings. Of a foreign exception only the last part of the header means anything.
\<close>

(* src/libcxxrt/exception.cc:308-322 exception_cleanup *)
definition foreign_cleanup :: "addr \<Rightarrow> eh_state \<Rightarrow> eh_state option" where
  "foreign_cleanup u s = do {
     e \<leftarrow> eh_headers s (exception_from_pointer u);
     case exception_cleanup e of
       Cxx_Cleanup \<Rightarrow> cxa_free_exception (u + 20) s
     | Dependent_Cleanup \<Rightarrow> cxa_free_dependent_exception (u + 20) s
     | Foreign_Cleanup f \<Rightarrow> Some (if f \<noteq> 0 then note_event (Cleanup f u) s else s)
   }"

(* src/libcxxrt/exception.cc:342-360 thread_cleanup *)
definition thread_cleanup :: "eh_state \<Rightarrow> eh_state option" where
  "thread_cleanup s =
     (if caught_exceptions s = 0 then Some s
      else if foreign_state s \<noteq> Foreign_None then foreign_cleanup (caught_exceptions s) s
      else free_exception_list (caught_exceptions s) s)"

section \<open>Entering and leaving a handler\<close>

text \<open>\<open>u\<close> points to the part of the header that every language has; the result is the caught object.\<close>

(* src/libcxxrt/exception.cc:1203-1271 __cxa_begin_catch *)
definition cxa_begin_catch :: "addr \<Rightarrow> eh_state \<Rightarrow> (addr \<times> eh_state) option" where
  "cxa_begin_catch u s = do {
     let h = exception_from_pointer u;
     let s = s\<lparr>uncaught_exceptions := uncaught_exceptions s - 1\<rparr>;
     e \<leftarrow> eh_headers s h;
     if is_cxx_exception (exception_class e) then do {
       let (e, s) = (if handler_count e = 0
          then (e\<lparr>next_exception := caught_exceptions s\<rparr>, s\<lparr>caught_exceptions := h\<rparr>) else (e, s));
       let e = (if handler_count e < 0 then e\<lparr>handler_count := - handler_count e + 1\<rparr>
          else e\<lparr>handler_count := handler_count e + 1\<rparr>);
       Some (adjusted_ptr e, (put_header h e s)\<lparr>foreign_state := Foreign_None\<rparr>)
     } else if caught_exceptions s \<noteq> 0 then Some (0, std_terminate s)
     else Some (u + 20, s\<lparr>caught_exceptions := u, foreign_state := Foreign_Caught\<rparr>)
   }"

(* src/libcxxrt/exception.cc:1279-1338 __cxa_end_catch *)
definition cxa_end_catch :: "eh_state \<Rightarrow> eh_state option" where
  "cxa_end_catch s = do {
     let h = caught_exceptions s;
     if h = 0 then None
     else if foreign_state s \<noteq> Foreign_None then do {
       s \<leftarrow> (if foreign_state s \<noteq> Foreign_Rethrown then foreign_cleanup h s else Some s);
       Some (s\<lparr>caught_exceptions := 0, foreign_state := Foreign_None\<rparr>)
     } else do {
       e \<leftarrow> eh_headers s h;
       let (e, delete) = (if handler_count e < 0 then (e\<lparr>handler_count := handler_count e + 1\<rparr>, False)
          else (e\<lparr>handler_count := handler_count e - 1\<rparr>, True));
       let s = put_header h e s;
       if handler_count e = 0 then do {
         let s = s\<lparr>caught_exceptions := next_exception e\<rparr>;
         if delete then release_exception h s else Some s
       } else Some s
     }
   }"

section \<open>Throwing\<close>

text \<open>
  The unwinder \<open>raise\<close> gets the address of the language-independent part of the header. It gives the state in which the program
  goes on at a landing pad, or the reason why it came back to the code that threw.
\<close>

datatype unwind_reason = Phase1_Error | Phase2_Error | End_Of_Stack

type_synonym unwinder = "addr \<Rightarrow> eh_state \<Rightarrow> (unwind_reason option \<times> eh_state) option"

(* src/libcxxrt/unwind.cpp:17-20 _Unwind_RaiseException *)
definition unwind_raise_exception :: unwinder where
  "unwind_raise_exception u s = None"

(* src/libcxxrt/exception.cc:690-741 report_failure *)
definition report_failure :: "unwind_reason \<Rightarrow> addr \<Rightarrow> eh_state \<Rightarrow> eh_state option" where
  "report_failure err h s = (case err of
     End_Of_Stack \<Rightarrow> do {
       (p, s) \<leftarrow> cxa_begin_catch (h + unwind_header) s;
       Some (std_terminate s)
     }
   | _ \<Rightarrow> Some (std_terminate s))"

definition unwind_from :: "unwinder \<Rightarrow> addr \<Rightarrow> eh_state \<Rightarrow> eh_state option" where
  "unwind_from raise h s = do {
     (err, s) \<leftarrow> raise (h + unwind_header) s;
     case err of None \<Rightarrow> Some s | Some err \<Rightarrow> report_failure err h s
   }"

(* src/libcxxrt/exception.cc:743-763 throw_exception *)
definition throw_exception :: "unwinder \<Rightarrow> addr \<Rightarrow> eh_state \<Rightarrow> eh_state option" where
  "throw_exception raise h s = do {
     e \<leftarrow> eh_headers s h;
     let e = e\<lparr>ex_unexpected_handler := (if ti_unexpected_handler s = 0 then g_unexpected_handler s else ti_unexpected_handler s),
       ex_terminate_handler := (if ti_terminate_handler s = 0 then g_terminate_handler s else ti_terminate_handler s)\<rparr>;
     let s = (put_header h e s)\<lparr>uncaught_exceptions := uncaught_exceptions s + 1\<rparr>;
     unwind_from raise h s
   }"

(* src/libcxxrt/exception.cc:771-786 __cxa_throw *)
definition cxa_throw :: "unwinder \<Rightarrow> addr \<Rightarrow> addr \<Rightarrow> addr \<Rightarrow> eh_state \<Rightarrow> eh_state option" where
  "cxa_throw raise obj tinfo dest s = do {
     let h = obj - ex_header_size;
     e \<leftarrow> eh_headers s h;
     let e = e\<lparr>reference_count := 1, exception_type := tinfo, exception_destructor := dest,
       exception_class := cxx_exception_class, exception_cleanup := Cxx_Cleanup\<rparr>;
     throw_exception raise h (put_header h e s)
   }"

(* src/libcxxrt/exception.cc:837-879 __cxa_rethrow *)
definition cxa_rethrow :: "unwinder \<Rightarrow> eh_state \<Rightarrow> eh_state option" where
  "cxa_rethrow raise s = do {
     let h = caught_exceptions s;
     if h = 0 then Some (std_terminate s)
     else if foreign_state s \<noteq> Foreign_None then do {
       let s = s\<lparr>foreign_state := Foreign_Rethrown\<rparr>;
       (err, s) \<leftarrow> raise h s;
       case err of None \<Rightarrow> Some s | Some err \<Rightarrow> report_failure err h s
     } else do {
       e \<leftarrow> eh_headers s h;
       if handler_count e > 0 then
         unwind_from raise h (put_header h (e\<lparr>handler_count := - handler_count e\<rparr>) s)
       else None
     }
   }"

section \<open>Pointers to exceptions\<close>

(* src/libcxxrt/exception.cc:805-814 __cxa_current_primary_exception *)
definition cxa_current_primary_exception :: "eh_state \<Rightarrow> (addr \<times> eh_state) option" where
  "cxa_current_primary_exception s = do {
     let h = caught_exceptions s;
     if h = 0 then Some (0, s)
     else do {
       e \<leftarrow> eh_headers s h;
       let h = real_exception h e;
       e \<leftarrow> eh_headers s h;
       Some (h + ex_header_size, put_header h (e\<lparr>reference_count := reference_count e + 1\<rparr>) s)
     }
   }"

(* src/libcxxrt/exception.cc:816-822 __cxa_increment_exception_refcount *)
definition cxa_increment_exception_refcount :: "addr \<Rightarrow> eh_state \<Rightarrow> eh_state option" where
  "cxa_increment_exception_refcount obj s =
     (if obj = 0 then Some s
      else do {
        let h = obj - ex_header_size;
        e \<leftarrow> eh_headers s h;
        Some (if is_dependent_exception (exception_class e) then s
          else put_header h (e\<lparr>reference_count := reference_count e + 1\<rparr>) s)
      })"

(* src/libcxxrt/exception.cc:823-828 __cxa_decrement_exception_refcount *)
definition cxa_decrement_exception_refcount :: "addr \<Rightarrow> eh_state \<Rightarrow> eh_state option" where
  "cxa_decrement_exception_refcount obj s =
     (if obj = 0 then Some s else release_exception (obj - ex_header_size) s)"

text \<open>
  \<open>d\<close> is the header of the dependent exception that is allocated. The code takes the object's address for
  that of the language-independent part of the header, so that the word it reads as the type is at another
  place: \<open>word_before\<close> reads the word that is some bytes before the object.
\<close>

definition word_before :: "addr \<Rightarrow> nat \<Rightarrow> eh_state \<Rightarrow> u32 option" where
  "word_before obj n s = do {
     e \<leftarrow> eh_headers s (obj - ex_header_size);
     if n mod 4 = 0 \<and> 20 < n \<and> n \<le> 68 then Some (header_words e ! ((68 - n) div 4)) else None
   }"

(* src/libcxxrt/exception.cc:788-803 __cxa_rethrow_primary_exception *)
definition cxa_rethrow_primary_exception :: "unwinder \<Rightarrow> addr \<Rightarrow> addr \<Rightarrow> eh_state \<Rightarrow> eh_state option" where
  "cxa_rethrow_primary_exception raise d obj s =
     (if obj = 0 then Some s
      else do {
        s \<leftarrow> cxa_increment_exception_refcount obj (put_header d (zero_exception\<lparr>reference_count := obj\<rparr>) s);
        type \<leftarrow> word_before obj (unat unwind_header) s;
        e \<leftarrow> eh_headers s d;
        throw_exception raise d (put_header d (e\<lparr>exception_type := type, exception_class := dependent_exception_class,
          exception_cleanup := Dependent_Cleanup\<rparr>) s)
      })"

(* src/libcxxrt/exception.cc:1343-1348 __cxa_current_exception_type *)
definition cxa_current_exception_type :: "eh_state \<Rightarrow> addr option" where
  "cxa_current_exception_type s =
     (if caught_exceptions s = 0 then Some 0 else map_option exception_type (eh_headers s (caught_exceptions s)))"

(* src/libcxxrt/exception.cc:1376-1379 __cxa_get_exception_ptr *)
definition cxa_get_exception_ptr :: "addr \<Rightarrow> eh_state \<Rightarrow> addr option" where
  "cxa_get_exception_ptr u s = map_option adjusted_ptr (eh_headers s (exception_from_pointer u))"

(* src/libcxxrt/exception.cc:1355-1371 __cxa_call_unexpected *)
definition cxa_call_unexpected :: "addr \<Rightarrow> eh_state \<Rightarrow> eh_state option" where
  "cxa_call_unexpected u s = do {
     e \<leftarrow> eh_headers s (exception_from_pointer u);
     Some (if exception_class e = cxx_exception_class \<and> ex_unexpected_handler e \<noteq> 0
       then note_event (Terminated (ex_unexpected_handler e)) s else std_unexpected s)
   }"


section \<open>What the language promises\<close>

text \<open>
  The abstract machine: one stack, with an entry for every catch block that is running and one for every
  exception that is looking for its handler. A throw pushes an exception in flight, a handler that is entered takes the
  place of the one on top, and a block is left either normally or because an exception passes through it.
  Apart from the stack, objects are kept by pointers (\<open>std::exception_ptr\<close>). \<open>gone\<close> lists the objects that were
  destroyed, in order, with their destructors.
\<close>

datatype eh_frame = Handling addr | Flying addr

fun frame_exception :: "eh_frame \<Rightarrow> addr" where
  "frame_exception (Handling h) = h"
| "frame_exception (Flying h) = h"

record eh_abs =
  frames :: "eh_frame list"
  pointers :: "addr \<Rightarrow> nat"
  destructors :: "addr \<Rightarrow> addr"
  gone :: "(addr \<times> addr) list"
  rethrows :: nat

datatype eh_op = Throw addr addr addr | Catch addr | End_Catch | Rethrow | Copy_Pointer addr | Drop_Pointer addr

definition on_stack :: "eh_abs \<Rightarrow> addr \<Rightarrow> bool" where
  "on_stack a h \<longleftrightarrow> h \<in> frame_exception ` set (frames a)"

definition alive :: "eh_abs \<Rightarrow> addr \<Rightarrow> bool" where
  "alive a h \<longleftrightarrow> on_stack a h \<or> pointers a h > 0"

definition settle :: "addr \<Rightarrow> eh_abs \<Rightarrow> eh_abs" where
  "settle h a = (if alive a h then a else a\<lparr>gone := gone a @ [(h, destructors a h)]\<rparr>)"

text \<open>\<open>Throw h t d\<close> is for an object whose header is newly allocated at \<open>h\<close>; \<open>None\<close> is what no program does.\<close>

fun abs_call :: "eh_op \<Rightarrow> eh_abs \<Rightarrow> eh_abs option" where
  "abs_call (Throw h t d) a =
     (if h \<noteq> 0 \<and> h + ex_header_size \<noteq> 0 \<and> \<not> alive a h then Some (a\<lparr>frames := Flying h # frames a, destructors := (destructors a)(h := d)\<rparr>) else None)"
| "abs_call (Catch h) a = (case frames a of
     Flying g # fs \<Rightarrow> if g = h then Some (a\<lparr>frames := Handling h # fs\<rparr>) else None
   | _ \<Rightarrow> None)"
| "abs_call End_Catch a = (case frames a of
     Handling h # fs \<Rightarrow> Some (settle h (a\<lparr>frames := fs\<rparr>))
   | Flying g # Handling h # fs \<Rightarrow> Some (settle h (a\<lparr>frames := Flying g # fs\<rparr>))
   | _ \<Rightarrow> None)"
| "abs_call Rethrow a = (case frames a of
     Handling h # fs \<Rightarrow> Some (a\<lparr>frames := Flying h # frames a, rethrows := rethrows a + 1\<rparr>)
   | _ \<Rightarrow> None)"
| "abs_call (Copy_Pointer h) a =
     (if alive a h \<and> pointers a h + 3 < 2 ^ 32 then Some (a\<lparr>pointers := (pointers a)(h := pointers a h + 1)\<rparr>) else None)"
| "abs_call (Drop_Pointer h) a =
     (if pointers a h > 0 then Some (settle h (a\<lparr>pointers := (pointers a)(h := pointers a h - 1)\<rparr>)) else None)"

text \<open>
  The calls of the library that a program makes there, with the unwinder \<open>raise\<close>. \<open>lands\<close> is the unwinder
  that finds a handler for every exception and goes on at its landing pad; the one of \<open>unwind.cpp\<close>,
  \<^const>\<open>unwind_raise_exception\<close>, is an assertion that fails.
\<close>

definition lands :: unwinder where
  "lands u s = Some (None, s)"

fun perform :: "unwinder \<Rightarrow> eh_op \<Rightarrow> eh_state \<Rightarrow> eh_state option" where
  "perform raise (Throw h t d) s = cxa_throw raise (h + ex_header_size) t d (put_header h zero_exception s)"
| "perform raise (Catch h) s = map_option snd (cxa_begin_catch (h + unwind_header) s)"
| "perform raise End_Catch s = cxa_end_catch s"
| "perform raise Rethrow s = cxa_rethrow raise s"
| "perform raise (Copy_Pointer h) s = cxa_increment_exception_refcount (h + ex_header_size) s"
| "perform raise (Drop_Pointer h) s = cxa_decrement_exception_refcount (h + ex_header_size) s"

fun run_calls :: "('c \<Rightarrow> 's \<Rightarrow> 's option) \<Rightarrow> 'c list \<Rightarrow> 's \<Rightarrow> 's option" where
  "run_calls f [] s = Some s"
| "run_calls f (c # cs) s = do { s \<leftarrow> f c s; run_calls f cs s }"

section \<open>How the headers represent the stack\<close>

fun handled :: "eh_frame list \<Rightarrow> addr list" where
  "handled [] = []"
| "handled (Handling h # fs) = h # handled fs"
| "handled (Flying h # fs) = handled fs"

fun in_flight :: "eh_frame list \<Rightarrow> addr list" where
  "in_flight [] = []"
| "in_flight (Flying h # fs) = h # in_flight fs"
| "in_flight (Handling h # fs) = in_flight fs"

text \<open>The entries of an exception are together, one in flight above those that are handled.\<close>

fun grouped :: "eh_frame list \<Rightarrow> bool" where
  "grouped [] \<longleftrightarrow> True"
| "grouped (f # fs) \<longleftrightarrow> grouped fs \<and> (frame_exception f \<notin> frame_exception ` set fs
     \<or> (\<exists>gs. fs = Handling (frame_exception f) # gs))"

fun linked_headers :: "(addr \<Rightarrow> cxa_exception option) \<Rightarrow> addr \<Rightarrow> addr list \<Rightarrow> bool" where
  "linked_headers m a [] \<longleftrightarrow> a = 0"
| "linked_headers m a (h # hs) \<longleftrightarrow> a = h \<and> (\<exists>e. m h = Some e \<and> linked_headers m (next_exception e) hs)"

definition active_handlers :: "eh_frame list \<Rightarrow> addr \<Rightarrow> int" where
  "active_handlers fs h = (if Flying h \<in> set fs then - int (count_list (handled fs) h) else int (count_list (handled fs) h))"

definition references :: "eh_abs \<Rightarrow> addr \<Rightarrow> nat" where
  "references a h = (if on_stack a h then 1 else 0) + pointers a h"

definition header_of :: "eh_abs \<Rightarrow> nat \<Rightarrow> addr \<Rightarrow> cxa_exception \<Rightarrow> bool" where
  "header_of a extra h e \<longleftrightarrow> h \<noteq> 0 \<and> h + ex_header_size \<noteq> 0 \<and> exception_class e = cxx_exception_class \<and> exception_destructor e = destructors a h
     \<and> handler_count e = active_handlers (frames a) h \<and> reference_count e = of_nat (references a h + extra)"

definition release_events :: "addr \<times> addr \<Rightarrow> eh_event list" where
  "release_events x = (case x of (h, d) \<Rightarrow> (if d \<noteq> 0 then [Destroy d (h + ex_header_size)] else []) @ [Free h])"

text \<open>\<open>owed\<close> is an exception whose reference count still has one that is about to be given up.\<close>

definition header_at :: "addr option \<Rightarrow> eh_abs \<Rightarrow> addr \<Rightarrow> cxa_exception option \<Rightarrow> bool" where
  "header_at owed a h x \<longleftrightarrow> (if alive a h \<or> owed = Some h
     then \<exists>e. x = Some e \<and> header_of a (if owed = Some h then 1 else 0) h e else x = None)"

definition represents :: "addr option \<Rightarrow> eh_state \<Rightarrow> eh_abs \<Rightarrow> bool" where
  "represents owed s a \<longleftrightarrow>
     grouped (frames a) \<and> foreign_state s = Foreign_None
     \<and> linked_headers (eh_headers s) (caught_exceptions s) (remdups_adj (handled (frames a)))
     \<and> (\<forall>h. header_at owed a h (eh_headers s h))
     \<and> (\<forall>h. pointers a h + 2 < 2 ^ 32)
     \<and> uncaught_exceptions s = of_nat (length (in_flight (frames a))) - of_nat (rethrows a)
     \<and> eh_events s = concat (map release_events (gone a))"

definition no_exceptions :: eh_abs where
  "no_exceptions = \<lparr>frames = [], pointers = (\<lambda>h. 0), destructors = (\<lambda>h. 0), gone = [], rethrows = 0\<rparr>"

lemma handled_frames: "set (handled fs) \<subseteq> frame_exception ` set fs"
  by (induction fs rule: handled.induct) auto

lemma grouped_handled_top: "grouped (Handling h # fs) \<Longrightarrow> Flying h \<notin> set fs"
proof (induction fs)
  case (Cons f fs)
  show ?case
  proof (cases "h \<in> frame_exception ` set (f # fs)")
    case True
    then have "f = Handling h" using Cons.prems by auto
    then show ?thesis using Cons by auto
  qed force
qed simp

lemma grouped_flying_top: "grouped (Flying h # fs) \<Longrightarrow> Flying h \<notin> set fs"
  using grouped_handled_top [of h "tl fs"] by (cases fs) force+

lemma grouped_tail_count:
  "grouped (Handling h # fs) \<Longrightarrow> h \<in> set (handled fs) \<longleftrightarrow> (\<exists>gs. fs = Handling h # gs)"
  using handled_frames [of fs] by auto


lemma on_frames: "h \<in> frame_exception ` set fs \<longleftrightarrow> h \<in> set (handled fs) \<or> Flying h \<in> set fs"
  by (induction fs rule: handled.induct) auto

lemma groups_push:
  assumes "grouped (f # fs)" and "frame_exception f = h"
  shows "remdups_adj (h # handled fs)
    = (if h \<in> set (handled fs) then remdups_adj (handled fs) else h # remdups_adj (handled fs))"
proof (cases "h \<in> set (handled fs)")
  case True
  then obtain gs where "fs = Handling h # gs" using assms handled_frames [of fs] by auto
  then show ?thesis by simp
next
  case False
  then show ?thesis by (cases "handled fs") auto
qed

lemma linked_update: "h \<notin> set hs \<Longrightarrow> linked_headers (m(h := x)) a hs \<longleftrightarrow> linked_headers m a hs"
  by (induction hs arbitrary: a) auto

lemma linked_same: "m h = Some e \<Longrightarrow> next_exception e' = next_exception e \<Longrightarrow> linked_headers (m(h \<mapsto> e')) a hs \<longleftrightarrow> linked_headers m a hs"
  by (induction hs arbitrary: a) auto

lemma active_handlers_zero: "active_handlers fs h = 0 \<longleftrightarrow> h \<notin> set (handled fs)"
  by (simp add: active_handlers_def count_list_0_iff)

lemma cxx_class [simp]: "is_cxx_exception cxx_exception_class" "\<not> is_dependent_exception cxx_exception_class"
  by (simp_all add: is_cxx_exception_def is_dependent_exception_def cxx_exception_class_def dependent_exception_class_def
      make_exception_class_def)


lemma representsI:
  assumes "grouped (frames a)" and "foreign_state s = Foreign_None"
    and "linked_headers (eh_headers s) (caught_exceptions s) (remdups_adj (handled (frames a)))"
    and "\<And>h. header_at owed a h (eh_headers s h)" and "\<And>h. pointers a h + 2 < 2 ^ 32"
    and "uncaught_exceptions s = of_nat (length (in_flight (frames a))) - of_nat (rethrows a)"
    and "eh_events s = concat (map release_events (gone a))"
  shows "represents owed s a"
  using assms by (simp add: represents_def)

lemma representsD:
  assumes "represents owed s a"
  shows "grouped (frames a)" and "foreign_state s = Foreign_None"
    and "linked_headers (eh_headers s) (caught_exceptions s) (remdups_adj (handled (frames a)))"
    and "header_at owed a h (eh_headers s h)" and "pointers a h + 2 < 2 ^ 32"
    and "uncaught_exceptions s = of_nat (length (in_flight (frames a))) - of_nat (rethrows a)"
    and "eh_events s = concat (map release_events (gone a))"
  using assms by (simp_all add: represents_def)

lemma represents_header:
  assumes "represents owed s a" and "alive a h \<or> owed = Some h"
  obtains e where "eh_headers s h = Some e" and "header_of a (if owed = Some h then 1 else 0) h e"
  using representsD(4) [OF assms(1), of h] assms(2) by (auto simp: header_at_def)

text \<open>A header depends only on what the abstract state says of its own exception.\<close>

lemma header_at_cong:
  assumes "header_at owed a k x" and "on_stack a' k = on_stack a k" and "pointers a' k = pointers a k"
    and "destructors a' k = destructors a k" and "active_handlers (frames a') k = active_handlers (frames a) k"
    and "(owed' = Some k) = (owed = Some k)"
  shows "header_at owed' a' k x"
  using assms by (auto simp: header_at_def header_of_def alive_def references_def)

lemma settle_frames [simp]: "frames (settle h a) = frames a" "pointers (settle h a) = pointers a"
  "destructors (settle h a) = destructors a" "rethrows (settle h a) = rethrows a" "alive (settle h a) = alive a"
  by (simp_all add: settle_def alive_def on_stack_def fun_eq_iff)

lemma release_settles:
  assumes "represents (Some h) s a"
  shows "\<exists>s'. release_exception h s = Some s' \<and> represents None s' (settle h a)"
proof -
  note R = representsD [OF assms]
  obtain e where e: "eh_headers s h = Some e" "header_of a 1 h e" using represents_header [OF assms, of h] by auto
  have few: "references a h < 2 ^ 32" using R(5) [of h] by (simp add: references_def)
  have none: "references a h = 0 \<longleftrightarrow> \<not> alive a h" by (auto simp: references_def alive_def)
  have zero: "(of_nat (references a h) :: u32) = 0 \<longleftrightarrow> \<not> alive a h"
    using few none by (auto simp: word_of_nat_eq_0_iff dest: dvd_imp_le)
  let ?e = "e\<lparr>reference_count := of_nat (references a h)\<rparr>"
  have count: "reference_count e - 1 = of_nat (references a h)" using e(2) by (simp add: header_of_def)
  show ?thesis
  proof (cases "alive a h")
    case True
    have "release_exception h s = Some (put_header h ?e s)"
      using e True zero count by (subst release_exception.simps) (simp add: header_of_def)
    moreover have "represents None (put_header h ?e s) a"
    proof (rule representsI)
      fix k
      show "header_at None a k (eh_headers (put_header h ?e s) k)"
        using R(4) [of k] e(2) True by (cases "k = h") (auto simp: put_header_def header_at_def header_of_def)
    qed (use R e in \<open>simp_all add: put_header_def linked_same\<close>)
    ultimately show ?thesis using True by (simp add: settle_def)
  next
    case False
    let ?s = "(if destructors a h \<noteq> 0 then note_event (Destroy (destructors a h) (h + ex_header_size)) (put_header h ?e s)
        else put_header h ?e s)"
    have "release_exception h s = Some (free_exception h ?s)"
      using e False zero count by (subst release_exception.simps) (simp add: header_of_def cxa_free_exception_def put_header_def)
    moreover have "h \<notin> set (handled (frames a))" using False handled_frames [of "frames a"] by (auto simp: alive_def on_stack_def)
    then have "represents None (free_exception h ?s) (settle h a)"
    proof (intro representsI)
      fix k
      show "header_at None (settle h a) k (eh_headers (free_exception h ?s) k)"
        using R(4) [of k] False
        by (cases "k = h") (auto simp: free_exception_def note_event_def put_header_def header_at_def header_of_def references_def on_stack_def)
    qed (use R False in \<open>auto simp: free_exception_def note_event_def put_header_def linked_update settle_def release_events_def\<close>)
    ultimately show ?thesis by blast
  qed
qed


section \<open>Every call keeps the promise\<close>

lemma header_arith [simp]: "h + ex_header_size - ex_header_size = h" "exception_from_pointer (h + unwind_header) = h"
  by (simp_all add: exception_from_pointer_def)

lemma caught_top:
  assumes "represents owed s a" and "handled (frames a) = h # hs"
  shows "caught_exceptions s = h"
proof -
  have "hd (remdups_adj (handled (frames a))) = h" "remdups_adj (handled (frames a)) \<noteq> []"
    using assms(2) by simp_all
  then show ?thesis using representsD(3) [OF assms(1)] by (cases "remdups_adj (handled (frames a))") auto
qed

lemma performs_throw:
  assumes R: "represents None s a" and a': "abs_call (Throw h t d) a = Some a'"
  shows "\<exists>s'. perform lands (Throw h t d) s = Some s' \<and> represents None s' a'"
proof -
  note D = representsD [OF R]
  have h: "h \<noteq> 0" "\<not> alive a h" "h + ex_header_size \<noteq> 0" and a: "a' = a\<lparr>frames := Flying h # frames a, destructors := (destructors a)(h := d)\<rparr>"
    using a' by (auto split: if_splits)
  have off: "h \<notin> frame_exception ` set (frames a)" "pointers a h = 0" using h(2) by (auto simp: alive_def on_stack_def)
  then have out: "h \<notin> set (handled (frames a))" "Flying h \<notin> set (frames a)" by (auto simp: on_frames)
  define e where "e = zero_exception\<lparr>reference_count := 1, exception_type := t, exception_destructor := d,
    exception_class := cxx_exception_class, exception_cleanup := Cxx_Cleanup,
    ex_unexpected_handler := (if ti_unexpected_handler s = 0 then g_unexpected_handler s else ti_unexpected_handler s),
    ex_terminate_handler := (if ti_terminate_handler s = 0 then g_terminate_handler s else ti_terminate_handler s)\<rparr>"
  let ?s = "(put_header h e s)\<lparr>uncaught_exceptions := uncaught_exceptions s + 1\<rparr>"
  have "perform lands (Throw h t d) s = Some ?s"
    by (simp add: cxa_throw_def throw_exception_def unwind_from_def lands_def put_header_def e_def)
  moreover have "represents None ?s a'"
  proof (rule representsI)
    fix k
    show "header_at None a' k (eh_headers ?s k)"
      using D(4) [of k] h off out
      by (cases "k = h") (auto simp: a put_header_def header_at_def header_of_def alive_def on_stack_def references_def
          active_handlers_def e_def zero_exception_def)
  qed (use D off out in \<open>auto simp: a put_header_def linked_update\<close>)
  ultimately show ?thesis by blast
qed

lemma performs_catch:
  assumes R: "represents None s a" and a': "abs_call (Catch h) a = Some a'"
  shows "\<exists>s'. perform lands (Catch h) s = Some s' \<and> represents None s' a'"
proof -
  note D = representsD [OF R]
  obtain fs where fs: "frames a = Flying h # fs" and a: "a' = a\<lparr>frames := Handling h # fs\<rparr>"
    using a' by (auto split: list.splits eh_frame.splits if_splits)
  have "alive a h" by (simp add: alive_def on_stack_def fs)
  then obtain e where e: "eh_headers s h = Some e" "header_of a 0 h e" using represents_header [OF R, of h] by auto
  have top: "grouped (Flying h # fs)" "Flying h \<notin> set fs" using D(1) grouped_flying_top [of h fs] by (simp_all add: fs)
  then have groups: "remdups_adj (handled (Handling h # fs))
      = (if h \<in> set (handled fs) then remdups_adj (handled fs) else h # remdups_adj (handled fs))"
    using groups_push [of "Flying h" fs h] by simp
  have count: "handler_count e = - int (count_list (handled fs) h)" using e(2) by (simp add: header_of_def active_handlers_def fs)
  have cls: "exception_class e = cxx_exception_class" using e(2) by (simp add: header_of_def)
  let ?n = "if h \<in> set (handled fs) then next_exception e else caught_exceptions s"
  let ?e = "e\<lparr>next_exception := ?n, handler_count := int (count_list (handled fs) h) + 1\<rparr>"
  let ?c = "if h \<in> set (handled fs) then caught_exceptions s else h"
  let ?s = "(put_header h ?e s)\<lparr>uncaught_exceptions := uncaught_exceptions s - 1, caught_exceptions := ?c, foreign_state := Foreign_None\<rparr>"
  have "perform lands (Catch h) s = Some ?s"
  proof (cases "h \<in> set (handled fs)")
    case True
    then have "handler_count e < 0" using count count_list_0_iff [of "handled fs" h] by simp
    then show ?thesis using e(1) cls True count by (simp add: cxa_begin_catch_def put_header_def)
  next
    case False
    then have "handler_count e = 0" using count by simp
    then show ?thesis using e(1) cls False count by (simp add: cxa_begin_catch_def put_header_def)
  qed
  moreover have "represents None ?s a'"
  proof (rule representsI)
    fix k
    show "header_at None a' k (eh_headers ?s k)"
    proof (cases "k = h")
      case True
      have "references a' h = references a h" "active_handlers (frames a') h = int (count_list (handled fs) h) + 1" "alive a' h"
        using top by (simp_all add: a fs references_def on_stack_def active_handlers_def alive_def)
      then have "header_of a' 0 h ?e" using e(2) by (simp add: header_of_def a)
      then show ?thesis using True \<open>alive a' h\<close> by (simp add: header_at_def put_header_def)
    next
      case False
      then have "eh_headers ?s k = eh_headers s k" by (simp add: put_header_def)
      then show ?thesis
        using header_at_cong [OF D(4) [of k]] False by (simp add: a fs on_stack_def active_handlers_def)
    qed
  next
    have "h \<in> set (handled fs) \<Longrightarrow> linked_headers (eh_headers ?s) (caught_exceptions s) (remdups_adj (handled fs))"
      "h \<notin> set (handled fs) \<Longrightarrow> linked_headers (eh_headers ?s) (caught_exceptions s) (remdups_adj (handled fs))"
      using D(3) e(1) by (simp_all add: fs put_header_def linked_same linked_update)
    then show "linked_headers (eh_headers ?s) (caught_exceptions ?s) (remdups_adj (handled (frames a')))"
      using groups by (simp add: a put_header_def)
  qed (use D top in \<open>auto simp: a fs put_header_def\<close>)
  ultimately show ?thesis by blast
qed

lemma performs_rethrow:
  assumes R: "represents None s a" and a': "abs_call Rethrow a = Some a'"
  shows "\<exists>s'. perform lands Rethrow s = Some s' \<and> represents None s' a'"
proof -
  note D = representsD [OF R]
  obtain h fs where fs: "frames a = Handling h # fs" and a: "a' = a\<lparr>frames := Flying h # frames a, rethrows := rethrows a + 1\<rparr>"
    using a' by (auto split: list.splits eh_frame.splits)
  have "alive a h" by (simp add: alive_def on_stack_def fs)
  then obtain e where e: "eh_headers s h = Some e" "header_of a 0 h e" using represents_header [OF R, of h] by auto
  have top: "Flying h \<notin> set fs" using D(1) grouped_handled_top [of h fs] by (simp add: fs)
  have caught: "caught_exceptions s = h" using caught_top [OF R, of h] by (simp add: fs)
  have count: "handler_count e = int (count_list (handled fs) h) + 1" "h \<noteq> 0"
    using e(2) top by (simp_all add: header_of_def active_handlers_def fs)
  let ?s = "put_header h (e\<lparr>handler_count := - handler_count e\<rparr>) s"
  have "perform lands Rethrow s = Some ?s"
    using e count caught D(2) by (simp add: cxa_rethrow_def unwind_from_def lands_def)
  moreover have "represents None ?s a'"
  proof (rule representsI)
    fix k
    show "header_at None a' k (eh_headers ?s k)"
      using D(4) [of k] e top
      by (cases "k = h") (auto simp: a fs put_header_def header_at_def header_of_def alive_def on_stack_def references_def
          active_handlers_def)
  qed (use D e in \<open>auto simp: a fs put_header_def linked_same\<close>)
  ultimately show ?thesis by blast
qed


lemma handled_append: "handled (xs @ ys) = handled xs @ handled ys"
  by (induction xs rule: handled.induct) simp_all

lemma in_flight_append: "in_flight (xs @ ys) = in_flight xs @ in_flight ys"
  by (induction xs rule: in_flight.induct) simp_all

lemma grouped_suffix: "grouped (xs @ ys) \<Longrightarrow> grouped ys"
  by (induction xs) auto

text \<open>A block is left with its exception, or with another one in flight above it (\<open>pre\<close>).\<close>

lemma end_catch_leaves:
  assumes R: "represents None s a" and fs: "frames a = pre @ Handling h # fs"
    and pre: "handled pre = []" "h \<notin> frame_exception ` set pre" "grouped (pre @ fs)"
  shows "\<exists>s'. cxa_end_catch s = Some s' \<and> represents None s' (settle h (a\<lparr>frames := pre @ fs\<rparr>))"
proof -
  note D = representsD [OF R]
  let ?a = "a\<lparr>frames := pre @ fs\<rparr>"
  have "alive a h" by (simp add: alive_def on_stack_def fs)
  then obtain e where e: "eh_headers s h = Some e" "header_of a 0 h e" using represents_header [OF R, of h] by auto
  have caught: "caught_exceptions s = h" using caught_top [OF R, of h "handled fs"] by (simp add: fs handled_append pre)
  have top: "grouped (Handling h # fs)" by (rule grouped_suffix [of pre]) (use D(1) fs in simp)
  have landed: "Flying h \<notin> set pre" "Flying h \<notin> set fs"
    using grouped_handled_top [OF top] pre(2) by force+
  have count: "handler_count e = int (count_list (handled fs) h) + 1" "h \<noteq> 0"
    using e(2) landed by (simp_all add: header_of_def active_handlers_def fs handled_append pre)
  let ?e = "e\<lparr>handler_count := int (count_list (handled fs) h)\<rparr>"
  have others: "header_at None ?a k (eh_headers s k)" if "k \<noteq> h" for k
    using header_at_cong [OF D(4) [of k]] that by (simp add: fs on_stack_def active_handlers_def handled_append pre)
  have groups: "remdups_adj (handled (frames a)) = (if h \<in> set (handled fs) then remdups_adj (handled fs) else h # remdups_adj (handled fs))"
    using groups_push [OF top] by (simp add: fs handled_append pre)
  have active: "active_handlers (frames ?a) h = int (count_list (handled fs) h)"
    using landed by (simp add: active_handlers_def handled_append pre)
  show ?thesis
  proof (cases "h \<in> set (handled fs)")
    case True
    then have "count_list (handled fs) h \<noteq> 0" by (simp add: count_list_0_iff)
    then have "cxa_end_catch s = Some (put_header h ?e s)"
      using e(1) count caught D(2) by (simp add: cxa_end_catch_def)
    moreover have on: "on_stack ?a h" using True handled_frames [of fs] by (auto simp: on_stack_def)
    moreover have "represents None (put_header h ?e s) ?a"
    proof (rule representsI)
      fix k
      have "references ?a h = references a h" using on by (simp add: references_def on_stack_def fs)
      then show "header_at None ?a k (eh_headers (put_header h ?e s) k)"
        using others [of k] e(2) active on by (auto simp: put_header_def header_at_def header_of_def alive_def)
    qed (use D e(1) groups True in \<open>simp_all add: fs put_header_def linked_same handled_append in_flight_append pre\<close>)
    ultimately show ?thesis by (simp add: settle_def alive_def)
  next
    case False
    let ?s = "(put_header h ?e s)\<lparr>caught_exceptions := next_exception e\<rparr>"
    have zero: "count_list (handled fs) h = 0" using False by simp
    have "cxa_end_catch s = release_exception h ?s"
      using e(1) count caught D(2) zero by (simp add: cxa_end_catch_def put_header_def)
    moreover have "represents (Some h) ?s ?a"
    proof (rule representsI)
      fix k
      have "\<not> on_stack ?a h" using False landed pre(2) on_frames [of h fs] by (auto simp: on_stack_def)
      then have "references a h = references ?a h + 1" by (simp add: references_def on_stack_def fs)
      then show "header_at (Some h) ?a k (eh_headers ?s k)"
        using others [of k] e(2) active by (auto simp: put_header_def header_at_def header_of_def)
    next
      have "linked_headers (eh_headers s) (next_exception e) (remdups_adj (handled fs))" using D(3) groups False e(1) by simp
      then show "linked_headers (eh_headers ?s) (caught_exceptions ?s) (remdups_adj (handled (frames ?a)))"
        using False by (simp add: put_header_def linked_update handled_append pre)
    qed (use D pre in \<open>simp_all add: fs put_header_def handled_append in_flight_append\<close>)
    ultimately show ?thesis using release_settles [of h ?s ?a] by simp
  qed
qed


text \<open>A block is left by its own exception, which was thrown again: it stays alive.\<close>

lemma end_catch_passes:
  assumes R: "represents None s a" and fs: "frames a = Flying h # Handling h # fs"
  shows "\<exists>s'. cxa_end_catch s = Some s' \<and> represents None s' (a\<lparr>frames := Flying h # fs\<rparr>)"
proof -
  note D = representsD [OF R]
  let ?a = "a\<lparr>frames := Flying h # fs\<rparr>"
  have "alive a h" by (simp add: alive_def on_stack_def fs)
  then obtain e where e: "eh_headers s h = Some e" "header_of a 0 h e" using represents_header [OF R, of h] by auto
  have caught: "caught_exceptions s = h" using caught_top [OF R, of h] by (simp add: fs)
  have groups: "remdups_adj (handled (frames a)) = (if h \<in> set (handled fs) then remdups_adj (handled fs) else h # remdups_adj (handled fs))"
    using groups_push [of "Handling h" fs h] D(1) by (simp add: fs)
  have count: "handler_count e = - int (count_list (handled fs) h) - 1" "h \<noteq> 0"
    using e(2) by (simp_all add: header_of_def active_handlers_def fs)
  let ?c = "if h \<in> set (handled fs) then h else next_exception e"
  let ?s = "(put_header h (e\<lparr>handler_count := - int (count_list (handled fs) h)\<rparr>) s)\<lparr>caught_exceptions := ?c\<rparr>"
  have "cxa_end_catch s = Some ?s"
    using e(1) count caught D(2) count_list_0_iff [of "handled fs" h] by (simp add: cxa_end_catch_def put_header_def)
  moreover have "represents None ?s ?a"
  proof (rule representsI)
    fix k
    have "references ?a h = references a h" by (simp add: references_def on_stack_def fs)
    then have "header_at None ?a h (eh_headers ?s h)"
      using e(2) by (simp add: put_header_def header_at_def header_of_def alive_def on_stack_def active_handlers_def)
    moreover have "k \<noteq> h \<Longrightarrow> header_at None ?a k (eh_headers ?s k)"
      using header_at_cong [OF D(4) [of k], of ?a None] by (simp add: put_header_def fs on_stack_def active_handlers_def)
    ultimately show "header_at None ?a k (eh_headers ?s k)" by blast
  next
    have "linked_headers (eh_headers s) ?c (remdups_adj (handled fs))" using D(3) groups e(1) caught by (auto split: if_splits)
    then show "linked_headers (eh_headers ?s) (caught_exceptions ?s) (remdups_adj (handled (frames ?a)))"
      using e(1) by (simp add: put_header_def linked_same)
  qed (use D in \<open>auto simp: fs put_header_def\<close>)
  ultimately show ?thesis by blast
qed

lemma performs_end:
  assumes R: "represents None s a" and a': "abs_call End_Catch a = Some a'"
  shows "\<exists>s'. perform lands End_Catch s = Some s' \<and> represents None s' a'"
proof -
  note D = representsD(1) [OF R]
  consider h fs where "frames a = Handling h # fs" "a' = settle h (a\<lparr>frames := fs\<rparr>)"
    | h fs where "frames a = Flying h # Handling h # fs" "a' = settle h (a\<lparr>frames := Flying h # fs\<rparr>)"
    | g h fs where "frames a = Flying g # Handling h # fs" "g \<noteq> h" "a' = settle h (a\<lparr>frames := Flying g # fs\<rparr>)"
    using a' by (auto split: list.splits eh_frame.splits)
  then show ?thesis
  proof cases
    case 1
    then show ?thesis using end_catch_leaves [OF R, of "[]" h fs] D by simp
  next
    case 2
    then show ?thesis using end_catch_passes [OF R 2(1)] by (simp add: settle_def alive_def on_stack_def)
  next
    case (3 g h fs)
    then have "grouped (Flying g # fs)" using D by auto
    then show ?thesis using end_catch_leaves [OF R, of "[Flying g]" h fs] 3 by simp
  qed
qed


lemma performs_copy:
  assumes R: "represents None s a" and a': "abs_call (Copy_Pointer h) a = Some a'"
  shows "\<exists>s'. perform lands (Copy_Pointer h) s = Some s' \<and> represents None s' a'"
proof -
  note D = representsD [OF R]
  have h: "alive a h" "pointers a h + 3 < 2 ^ 32" and a: "a' = a\<lparr>pointers := (pointers a)(h := pointers a h + 1)\<rparr>"
    using a' by (auto split: if_splits)
  obtain e where e: "eh_headers s h = Some e" "header_of a 0 h e" using represents_header [OF R, of h] h by auto
  let ?s = "put_header h (e\<lparr>reference_count := reference_count e + 1\<rparr>) s"
  have "perform lands (Copy_Pointer h) s = Some ?s"
    using e by (simp add: cxa_increment_exception_refcount_def header_of_def)
  moreover have "represents None ?s a'"
  proof (rule representsI)
    fix k
    have "header_at None a' h (eh_headers ?s h)" using e(2) h(1)
      by (auto simp: a put_header_def header_at_def header_of_def references_def on_stack_def alive_def)
    moreover have "k \<noteq> h \<Longrightarrow> header_at None a' k (eh_headers ?s k)"
      using header_at_cong [OF D(4) [of k], of a' None] by (simp add: a put_header_def on_stack_def)
    ultimately show "header_at None a' k (eh_headers ?s k)" by blast
    show "pointers a' k + 2 < 2 ^ 32" using D(5) [of k] h(2) by (simp add: a)
  qed (use D e in \<open>simp_all add: a put_header_def linked_same\<close>)
  ultimately show ?thesis by blast
qed

lemma performs_drop:
  assumes R: "represents None s a" and a': "abs_call (Drop_Pointer h) a = Some a'"
  shows "\<exists>s'. perform lands (Drop_Pointer h) s = Some s' \<and> represents None s' a'"
proof -
  note D = representsD [OF R]
  let ?a = "a\<lparr>pointers := (pointers a)(h := pointers a h - 1)\<rparr>"
  have h: "pointers a h > 0" and a: "a' = settle h ?a" using a' by (auto split: if_splits)
  then obtain e where e: "eh_headers s h = Some e" "header_of a 0 h e"
    using represents_header [OF R, of h] by (auto simp: alive_def)
  have "represents (Some h) s ?a"
  proof (rule representsI)
    fix k
    have "references a h = references ?a h + 1" using h by (simp add: references_def on_stack_def)
    then have "header_at (Some h) ?a h (eh_headers s h)" using e by (simp add: header_at_def header_of_def)
    moreover have "k \<noteq> h \<Longrightarrow> header_at (Some h) ?a k (eh_headers s k)"
      using header_at_cong [OF D(4) [of k], of ?a "Some h"] by (simp add: on_stack_def)
    ultimately show "header_at (Some h) ?a k (eh_headers s k)" by blast
    show "pointers ?a k + 2 < 2 ^ 32" using D(5) [of k] D(5) [of h] by auto
  qed (use D in simp_all)
  then show ?thesis
    using release_settles [of h s ?a] e(2) a by (simp add: cxa_decrement_exception_refcount_def header_of_def)
qed

lemma performs:
  assumes "represents None s a" and "abs_call c a = Some a'"
  shows "\<exists>s'. perform lands c s = Some s' \<and> represents None s' a'"
  using assms performs_throw performs_catch performs_end performs_rethrow performs_copy performs_drop
  by (cases c) (simp_all only:)

lemma runs:
  assumes "represents None s a" and "run_calls abs_call cs a = Some a'"
  shows "\<exists>s'. run_calls (perform lands) cs s = Some s' \<and> represents None s' a'"
  using assms
proof (induction cs arbitrary: s a)
  case (Cons c cs)
  then obtain a1 where a1: "abs_call c a = Some a1" "run_calls abs_call cs a1 = Some a'" by (auto split: bind_splits)
  from performs [OF Cons.prems(1) a1(1)] obtain s1 where "perform lands c s = Some s1" "represents None s1 a1" by blast
  then show ?case using Cons.IH [of s1 a1] a1(2) by simp
qed simp


section \<open>Programs\<close>

fun is_throw :: "eh_op \<Rightarrow> bool" where
  "is_throw (Throw h t d) = True"
| "is_throw _ = False"

definition accounted :: "eh_abs \<Rightarrow> nat \<Rightarrow> bool" where
  "accounted a n \<longleftrightarrow> finite {h. alive a h} \<and> card {h. alive a h} + length (gone a) = n"

lemma accounted_same: "alive a' = alive a \<Longrightarrow> gone a' = gone a \<Longrightarrow> accounted a' n = accounted a n"
  by (simp add: accounted_def)

lemma accounted_settle:
  assumes "accounted a n" and "alive a h" and "\<And>k. k \<noteq> h \<Longrightarrow> alive a' k = alive a k" and "gone a' = gone a"
  shows "accounted (settle h a') n"
proof (cases "alive a' h")
  case True
  have "alive a' k = alive a k" for k using True assms(2,3) by (cases "k = h") simp_all
  then have "alive a' = alive a" by blast
  then have "accounted a' n" using accounted_same [of a' a n] assms(1,4) by blast
  then show ?thesis using True by (simp add: settle_def)
next
  case False
  then have "alive a' k \<longleftrightarrow> alive a k \<and> k \<noteq> h" for k using assms(3) [of k] by (cases "k = h") simp_all
  then have less: "{k. alive a' k} = {k. alive a k} - {h}" by auto
  have "finite {k. alive a k}" using assms(1) by (simp add: accounted_def)
  then have "card {k. alive a k} = Suc (card ({k. alive a k} - {h}))" by (rule card.remove) (simp add: assms(2))
  moreover have "alive (settle h a') = alive a'" by (rule settle_frames)
  moreover have "length (gone (settle h a')) = Suc (length (gone a))" using False assms(4) by (simp add: settle_def)
  ultimately show ?thesis using assms(1) less unfolding accounted_def by (metis (no_types) add_Suc_right add_Suc finite_Diff)
qed

lemma accounted_call:
  assumes "accounted a n" and "abs_call c a = Some a'"
  shows "accounted a' (n + (if is_throw c then 1 else 0))"
proof (cases c)
  case (Throw h t d)
  then have h: "\<not> alive a h" and a: "alive a' = (\<lambda>k. k = h \<or> alive a k)" "gone a' = gone a"
    using assms(2) by (auto split: if_splits simp: alive_def on_stack_def fun_eq_iff)
  have "{k. alive a' k} = insert h {k. alive a k}" by (auto simp: a)
  then show ?thesis using assms(1) h a by (simp add: Throw accounted_def)
next
  case End_Catch
  then obtain pre h fs where "frames a = pre @ Handling h # fs" "a' = settle h (a\<lparr>frames := pre @ fs\<rparr>)"
    using assms(2) by (auto split: list.splits eh_frame.splits intro: that [of "[]"] that [of "[Flying _]"])
  then show ?thesis using accounted_settle [OF assms(1), of h "a\<lparr>frames := pre @ fs\<rparr>"] End_Catch
    by (auto simp: alive_def on_stack_def)
next
  case (Drop_Pointer h)
  then have "alive a h" "a' = settle h (a\<lparr>pointers := (pointers a)(h := pointers a h - 1)\<rparr>)"
    using assms(2) by (auto split: if_splits simp: alive_def)
  then show ?thesis using accounted_settle [OF assms(1), of h "a\<lparr>pointers := (pointers a)(h := pointers a h - 1)\<rparr>"] Drop_Pointer
    by (auto simp: alive_def on_stack_def)
next
  case (Catch h)
  then have "alive a' = alive a" "gone a' = gone a"
    using assms(2) by (auto split: list.splits eh_frame.splits if_splits simp: alive_def on_stack_def fun_eq_iff)
  then show ?thesis using assms(1) accounted_same [of a' a n] Catch by simp
next
  case Rethrow
  then have "alive a' = alive a" "gone a' = gone a"
    using assms(2) by (auto split: list.splits eh_frame.splits simp: alive_def on_stack_def fun_eq_iff)
  then show ?thesis using assms(1) accounted_same [of a' a n] Rethrow by simp
next
  case (Copy_Pointer h)
  then have "alive a' = alive a" "gone a' = gone a"
    using assms(2) by (auto split: if_splits simp: alive_def on_stack_def fun_eq_iff)
  then show ?thesis using assms(1) accounted_same [of a' a n] Copy_Pointer by simp
qed

lemma accounted_run:
  "run_calls abs_call cs a = Some a' \<Longrightarrow> accounted a n \<Longrightarrow> accounted a' (n + length (filter is_throw cs))"
proof (induction cs arbitrary: a n)
  case (Cons c cs)
  then obtain a1 where a1: "abs_call c a = Some a1" "run_calls abs_call cs a1 = Some a'" by (auto split: bind_splits)
  from Cons.IH [OF a1(2) accounted_call [OF Cons.prems(2) a1(1)]] show ?case by (auto split: if_splits)
qed simp

text \<open>A thread that has thrown nothing yet.\<close>

definition eh_start :: "eh_state \<Rightarrow> bool" where
  "eh_start s \<longleftrightarrow> foreign_state s = Foreign_None \<and> caught_exceptions s = 0 \<and> uncaught_exceptions s = 0
     \<and> eh_headers s = Map.empty \<and> eh_events s = []"

lemma start_represents: "eh_start s \<Longrightarrow> represents None s no_exceptions"
  by (simp add: eh_start_def represents_def no_exceptions_def header_at_def alive_def on_stack_def)

lemma top_of_linked: "linked_headers m c (remdups_adj hs) \<Longrightarrow> c = (case hs of [] \<Rightarrow> 0 | h # _ \<Rightarrow> h)"
proof (induction hs)
  case (Cons h hs)
  have "hd (remdups_adj (h # hs)) = h" "remdups_adj (h # hs) \<noteq> []" by simp_all
  with Cons.prems show ?case by (cases "remdups_adj (h # hs)") auto
qed simp

text \<open>With the unwinder of \<open>unwind.cpp\<close> no throw reaches a handler, and no program gets past its first call.\<close>

lemma kernel_throw_stops: "cxa_throw unwind_raise_exception obj t d s = None"
  by (cases "eh_headers s (obj - ex_header_size)")
    (simp_all add: cxa_throw_def throw_exception_def unwind_from_def unwind_raise_exception_def put_header_def)

lemma first_call_throws: "abs_call c no_exceptions = Some a \<Longrightarrow> is_throw c"
  by (cases c) (auto simp: no_exceptions_def alive_def on_stack_def split: if_splits)

lemma kernel_stops:
  assumes "run_calls abs_call cs no_exceptions = Some a"
  shows "run_calls (perform unwind_raise_exception) cs s = (if cs = [] then Some s else None)"
proof (cases cs)
  case (Cons c cs')
  then obtain a1 where "abs_call c no_exceptions = Some a1" using assms by (auto split: bind_splits)
  then have "is_throw c" by (rule first_call_throws)
  then show ?thesis using Cons by (cases c) (simp_all add: kernel_throw_stops)
qed simp

text \<open>
  Property C8: The run-time library keeps the promise of the language to whatever a program throws, catches, throws
  again, and copies and drops pointers to, when the unwinder finds the handlers: the current exception is
  that of the innermost handler that is running; a header is in memory exactly as long as its exception is in
  flight, being handled or pointed to; when that ends, its object is destroyed at once and its memory given
  back; and no object is lost or destroyed twice, as the throws are the exceptions alive and the ones
  destroyed. Only the count of exceptions in flight is one too low for every exception that was thrown again.
  With the unwinder that the repository has, which is a failing assertion, no program gets past its first
  throw. Throwing what a pointer points to (\<open>std::rethrow_exception\<close>) is not among the calls.
\<close>

theorem exceptions_refine:
  assumes "run_calls abs_call cs no_exceptions = Some a" and "eh_start s"
  shows "(\<exists>s'. run_calls (perform lands) cs s = Some s'
      \<and> caught_exceptions s' = (case handled (frames a) of [] \<Rightarrow> 0 | h # hs \<Rightarrow> h)
      \<and> (\<forall>h. eh_headers s' h \<noteq> None \<longleftrightarrow> alive a h)
      \<and> eh_events s' = concat (map release_events (gone a))
      \<and> length (filter is_throw cs) = card {h. alive a h} + length (gone a)
      \<and> uncaught_exceptions s' = of_nat (length (in_flight (frames a))) - of_nat (rethrows a))
    \<and> run_calls (perform unwind_raise_exception) cs s = (if cs = [] then Some s else None)"
proof -
  from runs [OF start_represents [OF assms(2)] assms(1)] obtain s' where
    s': "run_calls (perform lands) cs s = Some s'" "represents None s' a" by blast
  note D = representsD [OF s'(2)]
  have "accounted no_exceptions 0" by (simp add: accounted_def no_exceptions_def alive_def on_stack_def)
  from accounted_run [OF assms(1) this] have "length (filter is_throw cs) = card {h. alive a h} + length (gone a)"
    by (simp add: accounted_def)
  moreover have "eh_headers s' h \<noteq> None \<longleftrightarrow> alive a h" for h using D(4) [of h] by (auto simp: header_at_def split: if_splits)
  ultimately show ?thesis using s' D(6,7) top_of_linked [OF D(3)] kernel_stops [OF assms(1)] by blast
qed


definition empty_eh_state :: eh_state where
  "empty_eh_state = \<lparr>ti_terminate_handler = 0, ti_unexpected_handler = 0, emergency_buffers_held = 0, foreign_state = Foreign_None,
     caught_exceptions = 0, uncaught_exceptions = 0, g_terminate_handler = 0, g_unexpected_handler = 0,
     eh_headers = Map.empty, eh_events = []\<rparr>"

text \<open>
  An exception is caught; its handler throws a second one, which is caught, thrown again and leaves both blocks; a
  pointer to the first one outlives its handler.
\<close>

definition sample_calls :: "eh_op list" where
  "sample_calls = [Throw 0x1000 1 7, Catch 0x1000, Throw 0x2000 2 0, Catch 0x2000, Rethrow, End_Catch, Copy_Pointer 0x1000,
     End_Catch, Catch 0x2000, Drop_Pointer 0x1000, End_Catch]"

theorem exceptions_refine_witness:
  "\<exists>s'. run_calls (perform lands) sample_calls empty_eh_state = Some s' \<and> caught_exceptions s' = 0
    \<and> eh_headers s' 0x1000 = None \<and> eh_events s' = [Destroy 7 0x1044, Free 0x1000, Free 0x2000] \<and> uncaught_exceptions s' = - 1
    \<and> run_calls (perform unwind_raise_exception) sample_calls empty_eh_state = None"
proof -
  define a where "a = \<lparr>frames = [], pointers = (\<lambda>h. 0), destructors = (\<lambda>h. 0)(0x1000 := 7, 0x2000 := 0),
    gone = [(0x1000, 7), (0x2000, 0)], rethrows = 1\<rparr>"
  have run: "run_calls abs_call sample_calls no_exceptions = Some a"
    by (simp add: sample_calls_def no_exceptions_def alive_def on_stack_def settle_def ex_header_size_def a_def fun_upd_idem)
  have "eh_start empty_eh_state" by (simp add: eh_start_def empty_eh_state_def)
  from exceptions_refine [OF run this] show ?thesis
    by (auto simp: a_def alive_def on_stack_def release_events_def ex_header_size_def sample_calls_def simp del: run_calls.simps)
qed

text \<open>
  \<open>__cxa_rethrow\<close> does not count the exception that is in flight again, but its handler takes it off: after
  it \<open>std::uncaught_exception\<close> says that there is one, for good.
\<close>

theorem rethrow_miscounted:
  assumes "run_calls abs_call cs no_exceptions = Some a" and "eh_start s" and "in_flight (frames a) = []"
    and "0 < rethrows a" "rethrows a < 2 ^ 32"
  shows "\<exists>s'. run_calls (perform lands) cs s = Some s' \<and> uncaught_exception s'"
proof -
  from runs [OF start_represents [OF assms(2)] assms(1)] obtain s' where
    s': "run_calls (perform lands) cs s = Some s'" "represents None s' a" by blast
  have "(of_nat (rethrows a) :: u32) \<noteq> 0" using assms(4,5) by (auto simp: word_of_nat_eq_0_iff dest: dvd_imp_le)
  then have "uncaught_exceptions s' \<noteq> 0" using representsD(6) [OF s'(2)] assms(3) by simp
  then show ?thesis using s'(1) by (simp add: uncaught_exception_def)
qed

text \<open>
  What \<open>std::rethrow_exception\<close> throws has a wrong type: the word that the code takes for the type
  of the primary exception is the count of its handlers, so that no handler but \<open>catch (...)\<close> takes it.
\<close>

theorem rethrow_primary_wrong_type:
  assumes "eh_headers s (obj - ex_header_size) = Some e" and "exception_class e = cxx_exception_class" and "obj \<noteq> 0" and "d \<noteq> obj - ex_header_size"
  shows "\<exists>s' e'. cxa_rethrow_primary_exception lands d obj s = Some s' \<and> eh_headers s' d = Some e'
    \<and> exception_type e' = word_of_int (handler_count e) \<and> primary_exception e' = obj"
  using assms by (auto simp: cxa_rethrow_primary_exception_def cxa_increment_exception_refcount_def put_header_def word_before_def
      unwind_header_def header_words_def throw_exception_def unwind_from_def lands_def primary_exception_def zero_exception_def)

theorem rethrow_primary_wrong_type_witness:
  "\<exists>s' e'. cxa_rethrow_primary_exception lands 0x2000 0x1044 (put_header 0x1000
      (zero_exception\<lparr>exception_type := 0x500, exception_class := cxx_exception_class, handler_count := 1, reference_count := 1\<rparr>) empty_eh_state)
    = Some s' \<and> eh_headers s' 0x2000 = Some e' \<and> exception_type e' = 1"
  using rethrow_primary_wrong_type [of "put_header 0x1000 (zero_exception\<lparr>exception_type := 0x500,
      exception_class := cxx_exception_class, handler_count := 1, reference_count := 1\<rparr>) empty_eh_state" "0x1044" _ "0x2000"]
  by (auto simp: put_header_def ex_header_size_def)

end
