(* ===== verification/Handler_Search.thy ===== *)
theory Handler_Search
  imports Exceptions
begin

text \<open>
  How an exception finds its handler (\<open>libcxxrt/exception.cc\<close>): the chain of action records of the call that
  threw, the types in the type table, and the two phases of the personality function. The kernel's
  unwinder gives no language-specific data for a function, so that \<open>gxx_personality_v0\<close> passes over every
  frame; what it would do with data stands in \<open>personality_body\<close>, with their address as an argument.
\<close>

section \<open>Matching one handler\<close>

(* src/libcxxrt/exception.cc:884-902 get_type_info_entry *)
definition get_type_info_entry :: "table \<Rightarrow> unwind_context \<Rightarrow> dwarf_eh_lsda \<Rightarrow> u32 \<Rightarrow> addr option" where
  "get_type_info_entry m c lsda entry = do {
     size \<leftarrow> dwarf_size_of_fixed_size_field (type_table_encoding lsda);
     let start = type_table lsda - size * entry;
     (offset, _) \<leftarrow> read_value m (type_table_encoding lsda) start;
     if offset = 0 then Some 0
     else do {
       v \<leftarrow> resolve_indirect_value m c (type_table_encoding lsda) offset start;
       Some (ucast v)
     }
   }"

text \<open>
  A C++ exception is the address of its object and its type, a foreign one is \<open>None\<close>. The second part of the
  result is \<open>adjustedPtr\<close>, which is \<open>adj\<close> before.
\<close>

type_synonym thrown = "(addr \<times> addr) option"

(* src/libcxxrt/exception.cc:911-953 check_type_signature *)
definition check_type_signature :: "types \<Rightarrow> word_reads \<Rightarrow> type_info \<Rightarrow> thrown \<Rightarrow> addr \<Rightarrow> addr \<Rightarrow> (bool \<times> addr) option" where
  "check_type_signature T w void_type ex type adj = (case ex of
     None \<Rightarrow> Some (type = 0, adj)
   | Some (obj, ex_type) \<Rightarrow> do {
       et \<leftarrow> T ex_type;
       obj \<leftarrow> (if is_pointer_p (type_kind et) then w obj else Some obj);
       if type = 0 then Some (True, obj)
       else do {
         t \<leftarrow> T type;
         if type_eq t et then Some (True, obj)
         else do {
           (ok, obj) \<leftarrow> do_catch T w void_type type ex_type obj 1;
           Some (ok, if ok then obj else adj)
         }
       }
     })"

(* src/libcxxrt/exception.cc:137-151 handler_type *)
datatype handler_type = Handler_None | Handler_Cleanup | Handler_Catch

text \<open>An entry of the type table and the exception: what both loops look at.\<close>

(* src/libcxxrt/exception.cc:982-983 check_action_record *)
definition check_entry ::
  "table \<Rightarrow> unwind_context \<Rightarrow> types \<Rightarrow> word_reads \<Rightarrow> type_info \<Rightarrow> dwarf_eh_lsda \<Rightarrow> thrown \<Rightarrow> u32 \<Rightarrow> addr \<Rightarrow> (bool \<times> addr) option" where
  "check_entry m c T w void_type lsda ex entry adj = do {
     type \<leftarrow> get_type_info_entry m c lsda entry;
     check_type_signature T w void_type ex type adj
   }"

text \<open>The types that an exception specification allows, up to a zero byte; \<open>check\<close> compares one.\<close>

(* src/libcxxrt/exception.cc:1006-1018 check_action_record *)
partial_function (option) check_allowed :: "table \<Rightarrow> (u32 \<Rightarrow> addr \<Rightarrow> (bool \<times> addr) option) \<Rightarrow> addr \<Rightarrow> addr \<Rightarrow> (bool \<times> addr) option" where
  "check_allowed m check type_index adj = do {
     b \<leftarrow> m type_index;
     if b = 0 then Some (False, adj)
     else do {
       (ok, adj) \<leftarrow> check (ucast b) adj;
       if ok then Some (True, adj) else check_allowed m check (type_index + 1) adj
     }
   }"

definition record_after :: "addr \<Rightarrow> u32 \<Rightarrow> addr" where
  "record_after base displacement = (if displacement \<noteq> 0 then base + displacement else 0)"

text \<open>
  The loop over the records; a filter is positive for a handler, zero for a cleanup, negative for a specification.
  \<open>cxx\<close> says that the exception is not a foreign one, \<open>types\<close> is the type table.
\<close>

(* src/libcxxrt/exception.cc:971-1032 check_action_record *)
partial_function (option) check_actions ::
  "table \<Rightarrow> (u32 \<Rightarrow> addr \<Rightarrow> (bool \<times> addr) option) \<Rightarrow> bool \<Rightarrow> addr \<Rightarrow> addr \<Rightarrow> handler_type \<Rightarrow> u32 \<Rightarrow> addr
     \<Rightarrow> (handler_type \<times> u32 \<times> addr) option" where
  "check_actions m check cxx types record found sel adj =
     (if record = 0 then Some (found, sel, adj)
      else do {
        (f, base) \<leftarrow> read_sleb128 m record;
        (d, _) \<leftarrow> read_sleb128 m base;
        (filter, record) \<leftarrow> Some (ucast f :: u32, record_after base (ucast d));
        if 0 < sint filter then do {
          (ok, adj) \<leftarrow> check filter adj;
          if ok then Some (Handler_Catch, filter, adj)
          else check_actions m check cxx types record found sel adj
        } else if sint filter < 0 \<and> cxx then do {
          (matched, adj) \<leftarrow> check_allowed m check (types - filter - 1) adj;
          if matched then check_actions m check cxx types record found filter adj
          else Some (Handler_Catch, filter, adj)
        } else if filter = 0 then check_actions m check cxx types record Handler_Cleanup 0 adj
        else check_actions m check cxx types record found sel adj
      })"

(* src/libcxxrt/exception.cc:962-1033 check_action_record *)
definition check_action_record ::
  "table \<Rightarrow> unwind_context \<Rightarrow> types \<Rightarrow> word_reads \<Rightarrow> type_info \<Rightarrow> dwarf_eh_lsda \<Rightarrow> addr \<Rightarrow> thrown \<Rightarrow> u32 \<Rightarrow> addr
     \<Rightarrow> (handler_type \<times> u32 \<times> addr) option" where
  "check_action_record m c T w void_type lsda record ex sel adj =
     (if record = 0 then Some (Handler_Cleanup, sel, adj)
      else check_actions m (check_entry m c T w void_type lsda ex) (ex \<noteq> None) (type_table lsda) record Handler_None sel adj)"

section \<open>The personality function\<close>

datatype personality_result = Fatal_Phase1_Error | Continue_Unwind | Handler_Found | Install_Context | Program_Terminates

(* src/libcxxrt/exception.cc:72-91 saveLandingPad *)
definition save_landing_pad :: "u32 \<Rightarrow> addr \<Rightarrow> cxa_exception \<Rightarrow> cxa_exception" where
  "save_landing_pad sel pad e = e\<lparr>handler_switch_value := sel, catch_temp := pad\<rparr>"

(* src/libcxxrt/exception.cc:96-115 loadLandingPad *)
definition load_landing_pad :: "cxa_exception \<Rightarrow> u32 \<times> addr" where
  "load_landing_pad e = (handler_switch_value e, catch_temp e)"

text \<open>The registers that the landing pad reads; \<open>regno\<close> is \<open>__builtin_eh_return_data_regno\<close> of the compiler.\<close>

(* src/libcxxrt/exception.cc:1185-1190 __gxx_personality_v0 *)
definition install_context :: "(nat \<Rightarrow> nat) \<Rightarrow> addr \<Rightarrow> u32 \<Rightarrow> addr \<Rightarrow> unwind_context \<Rightarrow> unwind_context option" where
  "install_context regno pad sel u c = do {
     c \<leftarrow> unwind_set_gr (regno 0) u (unwind_set_ip pad c);
     unwind_set_gr (regno 1) sel c
   }"

definition set_adjusted :: "cxa_exception option \<Rightarrow> addr \<Rightarrow> addr \<Rightarrow> eh_state \<Rightarrow> eh_state" where
  "set_adjusted e h adj s = (case e of None \<Rightarrow> s | Some e \<Rightarrow> put_header h (e\<lparr>adjusted_ptr := adj\<rparr>) s)"

text \<open>The lookup in the tables that each phase starts with, when it does one.\<close>

definition look_up :: "table \<Rightarrow> addr \<Rightarrow> unwind_context \<Rightarrow> (dwarf_eh_lsda \<times> bool \<times> dwarf_eh_action) option" where
  "look_up m lsda_addr c = do {
     lsda \<leftarrow> parse_lsda m c lsda_addr;
     (ok, action) \<leftarrow> dwarf_eh_find_callsite m c lsda;
     Some (lsda, ok, action)
   }"


text \<open>
  \<open>ex\<close> in the code is the header that was thrown, \<open>real\<close> the one of its primary exception; its type and its
  object are looked at.
\<close>

definition thrown_by :: "eh_state \<Rightarrow> addr \<Rightarrow> (cxa_exception \<times> thrown) option" where
  "thrown_by s h = do {
     e \<leftarrow> eh_headers s h;
     let real = real_exception h e;
     r \<leftarrow> eh_headers s real;
     Some (e, Some (real + ex_header_size, exception_type r))
   }"

text \<open>What follows the test for the language-specific data, whose address is \<open>lsda_addr\<close>.\<close>

(* src/libcxxrt/exception.cc:1097-1191 __gxx_personality_v0 *)
definition personality_body ::
  "addr \<Rightarrow> (nat \<Rightarrow> nat) \<Rightarrow> table \<Rightarrow> types \<Rightarrow> word_reads \<Rightarrow> type_info \<Rightarrow> u32 \<Rightarrow> cxa_exception option \<Rightarrow> thrown \<Rightarrow> addr
     \<Rightarrow> unwind_context \<Rightarrow> eh_state \<Rightarrow> (personality_result \<times> unwind_context \<times> eh_state) option" where
  "personality_body lsda_addr regno m T w void_type actions e ex u c s =
     (let h = exception_from_pointer u; adj = (case e of None \<Rightarrow> 0 | Some e \<Rightarrow> adjusted_ptr e) in
      if actions AND 1 \<noteq> 0 then do {
        (lsda, ok, action) \<leftarrow> look_up m lsda_addr c;
        if \<not> ok then Some (Handler_Found, c, s)
        else do {
          (found, sel, adj) \<leftarrow> check_action_record m c T w void_type lsda (action_record action) ex 0 adj;
          let s = set_adjusted e h adj s;
          if found = Handler_Catch then
            Some (Handler_Found, c, case e of None \<Rightarrow> s
              | Some e \<Rightarrow> put_header h ((save_landing_pad sel (landing_pad action) e)\<lparr>adjusted_ptr := adj,
                  language_specific_data := lsda_addr, ex_action_record := action_record action\<rparr>) s)
          else Some (Continue_Unwind, c, s)
        }
      } else if actions AND 4 = 0 then do {
        (lsda, ok, action) \<leftarrow> look_up m lsda_addr c;
        if landing_pad action = 0 then Some (Continue_Unwind, c, s)
        else do {
          (found, sel, adj) \<leftarrow> check_action_record m c T w void_type lsda (action_record action) ex 0 adj;
          let s = set_adjusted e h adj s;
          if found \<noteq> Handler_Cleanup then Some (Continue_Unwind, c, s)
          else map_option (\<lambda>c. (Install_Context, c, s)) (install_context regno (landing_pad action) sel u c)
        }
      } else (case e of
        None \<Rightarrow> do {
          (lsda, ok, action) \<leftarrow> look_up m lsda_addr c;
          (found, sel, adj) \<leftarrow> check_action_record m c T w void_type lsda (action_record action) None 0 0;
          map_option (\<lambda>c. (Install_Context, c, s)) (install_context regno (landing_pad action) sel u c)
        }
      | Some e \<Rightarrow>
          if catch_temp e = 0 then Some (Program_Terminates, c, std_terminate s)
          else let (sel, pad) = load_landing_pad e; s = put_header h (e\<lparr>catch_temp := 0, handler_switch_value := 0\<rparr>) s in
            map_option (\<lambda>c. (Install_Context, c, s)) (install_context regno pad sel u c)))"

(* src/libcxxrt/exception.cc:1059-1191 __gxx_personality_v0 *)
definition gxx_personality_v0 ::
  "(nat \<Rightarrow> nat) \<Rightarrow> table \<Rightarrow> types \<Rightarrow> word_reads \<Rightarrow> type_info \<Rightarrow> int \<Rightarrow> u32 \<Rightarrow> u64 \<Rightarrow> addr \<Rightarrow> unwind_context \<Rightarrow> eh_state
     \<Rightarrow> (personality_result \<times> unwind_context \<times> eh_state) option" where
  "gxx_personality_v0 regno m T w void_type version actions cls u c s =
     (if version \<noteq> 1 then Some (Fatal_Phase1_Error, c, s)
      else do {
        let foreign = (\<not> is_cxx_exception cls);
        (e, ex) \<leftarrow> (if foreign then Some (None, None)
          else map_option (\<lambda>(e, ex). (Some e, ex)) (thrown_by s (exception_from_pointer u)));
        let lsda_addr = unwind_language_specific_data c;
        if lsda_addr = 0 then Some (Continue_Unwind, c, s)
        else personality_body lsda_addr regno m T w void_type actions e ex u c s
      })"

text \<open>The kernel's unwinder has no language-specific data: every frame is passed over, in both phases.\<close>

lemma personality_passes_over:
  assumes "is_cxx_exception cls \<longrightarrow> thrown_by s (exception_from_pointer u) \<noteq> None"
  shows "gxx_personality_v0 regno m T w void_type 1 actions cls u c s = Some (Continue_Unwind, c, s)"
  using assms by (auto simp: gxx_personality_v0_def unwind_language_specific_data_def)

section \<open>The first handler that matches\<close>

text \<open>
  Which handlers the code lets take an object of a class: those for the class, for any base class of it, and
  \<open>catch (...)\<close>, whose type is 0. Types are as a compiler emits them, one object for each.
\<close>

definition takes_base :: "types \<Rightarrow> word_reads \<Rightarrow> addr \<times> addr \<Rightarrow> addr \<Rightarrow> bool" where
  "takes_base T w s type \<longleftrightarrow> type = 0 \<or> (\<exists>obj. subobject T w s (type, obj))"

definition names_unique :: "types \<Rightarrow> bool" where
  "names_unique T \<longleftrightarrow> (\<forall>a b t u. T a = Some t \<longrightarrow> T b = Some u \<longrightarrow> type_eq t u \<longrightarrow> a = b)"

text \<open>
  The language wants a base class that is reached through public bases only, and that the object contains
  once. Where all bases are public and no class occurs twice, there is no difference.
\<close>

inductive public_base :: "types \<Rightarrow> word_reads \<Rightarrow> addr \<times> addr \<Rightarrow> addr \<times> addr \<Rightarrow> bool" for T w where
  single: "T c = Some t \<Longrightarrow> type_kind t = Si_Class_Type b \<Longrightarrow> public_base T w (c, obj) (b, obj)"
| multiple: "info \<in> set (base_infos T c) \<Longrightarrow> is_public info \<Longrightarrow> base_object w info obj = Some obj'
    \<Longrightarrow> public_base T w (c, obj) (base_type info, obj')"

definition language_takes :: "types \<Rightarrow> word_reads \<Rightarrow> addr \<times> addr \<Rightarrow> addr \<Rightarrow> bool" where
  "language_takes T w s type \<longleftrightarrow> type = 0
     \<or> (\<exists>obj. (public_base T w)\<^sup>*\<^sup>* s (type, obj) \<and> (\<forall>obj'. subobject T w s (type, obj') \<longrightarrow> obj' = obj))"

definition plain_bases :: "types \<Rightarrow> word_reads \<Rightarrow> addr \<times> addr \<Rightarrow> bool" where
  "plain_bases T w s \<longleftrightarrow> (\<forall>c. \<forall>info \<in> set (base_infos T c). is_public info)
     \<and> (\<forall>c obj obj'. subobject T w s (c, obj) \<longrightarrow> subobject T w s (c, obj') \<longrightarrow> obj = obj')"

lemma plain_bases_takes:
  assumes "plain_bases T w s"
  shows "takes_base T w s = language_takes T w s"
proof
  fix type
  have pub: "\<forall>c. \<forall>info \<in> set (base_infos T c). is_public info"
    and once: "\<And>c obj obj'. subobject T w s (c, obj) \<Longrightarrow> subobject T w s (c, obj') \<Longrightarrow> obj = obj'"
    using assms by (auto simp: plain_bases_def)
  have "direct_base T w t u \<longleftrightarrow> public_base T w t u" for t u
    using pub by (auto elim!: direct_base.cases public_base.cases intro: direct_base.intros public_base.intros)
  then have "public_base T w = direct_base T w" by (intro ext) simp
  then have same: "(public_base T w)\<^sup>*\<^sup>* = subobject T w" by (simp add: subobject_def)
  show "takes_base T w s type = language_takes T w s type"
    unfolding takes_base_def language_takes_def same using once by metis
qed

text \<open>Where the object that the handler sees is.\<close>

definition seen_at :: "types \<Rightarrow> word_reads \<Rightarrow> addr \<times> addr \<Rightarrow> addr \<Rightarrow> addr \<Rightarrow> bool" where
  "seen_at T w s type p \<longleftrightarrow> (if type = 0 then p = snd s else subobject T w s (type, p))"

lemma subobject_is_class:
  assumes "emitted T rank" and "T c = Some t" and "is_class (type_kind t)" and "subobject T w (c, obj) s"
  shows "\<exists>u. T (fst s) = Some u \<and> is_class (type_kind u)"
  using assms(4) unfolding subobject_def
proof (induction rule: rtranclp_induct)
  case (step s s')
  then obtain u where u: "T (fst s) = Some u" "is_class (type_kind u)" by blast
  have "fst s' \<in> parts (type_kind u)" using step.hyps(2) u(1)
    by (cases rule: direct_base.cases) (auto simp: base_infos_def split: option.splits type_kind.splits dest: sym [of _ "type_kind u"])
  then show ?case using emittedD(2) [OF assms(1) u(1)] u(2) by blast
qed (use assms in simp)

lemma check_type_signature_class:
  assumes T: "emitted T rank" "names_unique T" "T ex_type = Some et" "is_class (type_kind et)"
    and tables: "tables_readable T w (ex_type, obj)" and type: "type = 0 \<or> T type \<noteq> None"
  shows "\<exists>ok p. check_type_signature T w void_type (Some (obj, ex_type)) type adj = Some (ok, p)
    \<and> ok = takes_base T w (ex_type, obj) type \<and> (if ok then seen_at T w (ex_type, obj) type p else p = adj)"
proof (cases "type = 0")
  case True
  then show ?thesis using T(3,4)
    by (cases "type_kind et") (auto simp: check_type_signature_def takes_base_def seen_at_def)
next
  case False
  then obtain t where t: "T type = Some t" using type by auto
  have no_pointer: "\<not> is_pointer_p (type_kind et)" using T(4) by (cases "type_kind et") simp_all
  show ?thesis
  proof (cases "type_eq t et")
    case True
    then have "type = ex_type" using T(2,3) t by (auto simp: names_unique_def)
    then show ?thesis using T(3) t True no_pointer False
      by (auto simp: check_type_signature_def takes_base_def seen_at_def intro: subobject_refl)
  next
    case other: False
    then have neq: "type \<noteq> ex_type" using t T(3) by (auto simp: type_eq_def)
    obtain up p where r: "do_upcast T w type ex_type obj = Some (up, p)" "upcast_result T w type (ex_type, obj) (up, p)"
      using do_upcast_total [OF T(1,3,4) tables, of type] by auto
    have "do_catch T w void_type type ex_type obj 1 = (if is_class (type_kind t) then do_upcast T w type ex_type obj else Some (False, obj))"
      using t T(3) neq no_pointer by (subst do_catch.simps) (cases "pbase_fields (type_kind t)"; cases "type_kind t"; auto)
    moreover have "\<not> is_class (type_kind t) \<Longrightarrow> \<not> (\<exists>o'. subobject T w (ex_type, obj) (type, o'))"
      using subobject_is_class [OF T(1,3,4)] t by fastforce
    ultimately show ?thesis using t T(3) other no_pointer False r
      by (cases up) (auto simp: check_type_signature_def takes_base_def seen_at_def upcast_result_def)
  qed
qed


text \<open>
  What an action record says: a handler for the type at an entry of the table, a cleanup, or a specification
  with the types that it allows. \<open>action_chain\<close> says that the records stand in memory, each with the
  distance to the next one; \<open>entries_ok\<close> that the type table has the types.
\<close>

datatype clause = Catch_Clause nat addr | Cleanup_Clause | Allowed_Clause nat "addr list"

fun clause_filter :: "clause \<Rightarrow> int" where
  "clause_filter (Catch_Clause i t) = int i"
| "clause_filter Cleanup_Clause = 0"
| "clause_filter (Allowed_Clause i ts) = - int i"

definition filter_bytes :: "clause \<Rightarrow> u8 list" where
  "filter_bytes cl = sleb128 (clause_filter cl)"

fun action_chain :: "table \<Rightarrow> addr \<Rightarrow> clause list \<Rightarrow> bool" where
  "action_chain m p [] \<longleftrightarrow> p = 0"
| "action_chain m p (cl # cls) \<longleftrightarrow> p \<noteq> 0 \<and> stored m p (filter_bytes cl)
     \<and> (\<exists>d. - (2 ^ 31) \<le> d \<and> d < 2 ^ 31 \<and> stored m (p + of_nat (length (filter_bytes cl))) (sleb128 d)
        \<and> action_chain m (record_after (p + of_nat (length (filter_bytes cl))) (word_of_int d)) cls)"

fun allowed_at :: "table \<Rightarrow> (u32 \<Rightarrow> addr option) \<Rightarrow> addr \<Rightarrow> addr list \<Rightarrow> bool" where
  "allowed_at m entry p [] \<longleftrightarrow> m p = Some 0"
| "allowed_at m entry p (t # ts) \<longleftrightarrow> (\<exists>b. m p = Some b \<and> b \<noteq> 0 \<and> entry (ucast b) = Some t \<and> allowed_at m entry (p + 1) ts)"

fun entries_ok :: "table \<Rightarrow> (u32 \<Rightarrow> addr option) \<Rightarrow> addr \<Rightarrow> clause \<Rightarrow> bool" where
  "entries_ok m entry types (Catch_Clause i t) \<longleftrightarrow> 0 < i \<and> i < 2 ^ 31 \<and> entry (of_nat i) = Some t"
| "entries_ok m entry types Cleanup_Clause \<longleftrightarrow> True"
| "entries_ok m entry types (Allowed_Clause i ts) \<longleftrightarrow> 0 < i \<and> i < 2 ^ 31 \<and> allowed_at m entry (types + of_nat i - 1) ts"

text \<open>Where the search ends: at a handler that takes the exception, or at a specification that does not allow it.\<close>

fun stops_at :: "(addr \<Rightarrow> bool) \<Rightarrow> clause \<Rightarrow> bool" where
  "stops_at P (Catch_Clause i t) = P t"
| "stops_at P Cleanup_Clause = False"
| "stops_at P (Allowed_Clause i ts) = (\<forall>t \<in> set ts. \<not> P t)"

fun clause_types :: "clause \<Rightarrow> addr set" where
  "clause_types (Catch_Clause i t) = {t}"
| "clause_types Cleanup_Clause = {}"
| "clause_types (Allowed_Clause i ts) = set ts"

text \<open>A comparison as the code makes it, for a thrown object: \<open>P\<close> says which types match, \<open>Q\<close> where the object is then.\<close>

definition compares :: "(u32 \<Rightarrow> addr \<Rightarrow> (bool \<times> addr) option) \<Rightarrow> (u32 \<Rightarrow> addr option) \<Rightarrow> (addr \<Rightarrow> bool) \<Rightarrow> (addr \<Rightarrow> addr \<Rightarrow> bool) \<Rightarrow> addr set \<Rightarrow> bool" where
  "compares check entry P Q S \<longleftrightarrow> (\<forall>i t adj. entry i = Some t \<longrightarrow> t \<in> S
     \<longrightarrow> (\<exists>p. check i adj = Some (P t, p) \<and> (if P t then Q t p else p = adj)))"

lemma check_allowed_list:
  assumes "allowed_at m entry p ts" and "compares check entry P Q S" and "set ts \<subseteq> S"
  shows "\<exists>q. check_allowed m check p adj = Some (\<exists>t \<in> set ts. P t, q) \<and> ((\<forall>t \<in> set ts. \<not> P t) \<longrightarrow> q = adj)"
  using assms
proof (induction ts arbitrary: p)
  case Nil
  then show ?case by (subst check_allowed.simps) simp
next
  case (Cons t ts)
  then obtain b where b: "m p = Some b" "b \<noteq> 0" "entry (ucast b) = Some t" "allowed_at m entry (p + 1) ts" by auto
  obtain q where q: "check (ucast b) adj = Some (P t, q)" "if P t then Q t q else q = adj"
    using Cons.prems(2,3) b(3) by (fastforce simp: compares_def)
  obtain q' where "check_allowed m check (p + 1) adj = Some (\<exists>t \<in> set ts. P t, q')" "(\<forall>t \<in> set ts. \<not> P t) \<longrightarrow> q' = adj"
    using Cons.IH [OF b(4) Cons.prems(2)] Cons.prems(3) by auto
  then show ?case using b(1,2) q by (subst check_allowed.simps) auto
qed

lemma filter_word:
  assumes "- (2 ^ 31) \<le> x" and "x < 2 ^ 31"
  shows "ucast (word_of_int x :: u64) = (word_of_int x :: u32)" and "sint (word_of_int x :: u32) = x"
proof -
  show "ucast (word_of_int x :: u64) = (word_of_int x :: u32)" by transfer simp
  show "sint (word_of_int x :: u32) = x" using assms by (simp add: signed_of_int signed_take_bit_int_eq_self)
qed

text \<open>One round of the loop, and the records that do not end it.\<close>

lemma check_actions_record:
  assumes "action_chain m p (cl # cls)" and "- (2 ^ 31) \<le> clause_filter cl" "clause_filter cl < 2 ^ 31"
  obtains next_record where "action_chain m next_record cls"
    and "\<And>found sel adj. check_actions m check cxx types p found sel adj = (let filter = word_of_int (clause_filter cl) in
      if 0 < clause_filter cl then do {
        (ok, adj) \<leftarrow> check filter adj;
        if ok then Some (Handler_Catch, filter, adj) else check_actions m check cxx types next_record found sel adj
      } else if clause_filter cl < 0 \<and> cxx then do {
        (matched, adj) \<leftarrow> check_allowed m check (types - filter - 1) adj;
        if matched then check_actions m check cxx types next_record found filter adj else Some (Handler_Catch, filter, adj)
      } else if clause_filter cl = 0 then check_actions m check cxx types next_record Handler_Cleanup 0 adj
      else check_actions m check cxx types next_record found sel adj)"
proof -
  obtain d where d: "p \<noteq> 0" "stored m p (filter_bytes cl)" "- (2 ^ 31) \<le> d" "d < 2 ^ 31"
    "stored m (p + of_nat (length (filter_bytes cl))) (sleb128 d)"
    "action_chain m (record_after (p + of_nat (length (filter_bytes cl))) (word_of_int d)) cls" using assms(1) by auto
  have f: "read_sleb128 m p = Some (word_of_int (clause_filter cl), p + of_nat (length (filter_bytes cl)))"
    using read_sleb128_value [OF d(2) [unfolded filter_bytes_def]] assms(2,3) by (simp add: filter_bytes_def)
  obtain q where g: "read_sleb128 m (p + of_nat (length (filter_bytes cl))) = Some (word_of_int d, q)"
    using read_sleb128_value [OF d(5)] d(3,4) by simp
  have zero: "(word_of_int (clause_filter cl) :: u32) = 0 \<longleftrightarrow> clause_filter cl = 0"
    using filter_word(2) [OF assms(2,3)] by (metis signed_0 word_of_int_0)
  show thesis
    by (rule that [OF d(6)], subst check_actions.simps)
      (simp only: if_not_P [OF d(1)] f g bind.bind_lunit prod.case filter_word [OF assms(2,3)] filter_word(1) [OF d(3,4)]
        zero Let_def)
qed


text \<open>What the search finds, over a list of clauses.\<close>

definition search_result :: "(addr \<Rightarrow> bool) \<Rightarrow> (addr \<Rightarrow> addr \<Rightarrow> bool) \<Rightarrow> clause list \<Rightarrow> handler_type \<Rightarrow> (handler_type \<times> u32 \<times> addr) option \<Rightarrow> bool" where
  "search_result P Q cls found r \<longleftrightarrow> (case find (stops_at P) cls of
     Some cl \<Rightarrow> \<exists>adj. r = Some (Handler_Catch, word_of_int (clause_filter cl), adj) \<and> (\<forall>i t. cl = Catch_Clause i t \<longrightarrow> Q t adj)
   | None \<Rightarrow> \<exists>sel adj. r = Some (if Cleanup_Clause \<in> set cls then Handler_Cleanup else found, sel, adj))"

lemma search_result_skip:
  "\<not> stops_at P cl \<Longrightarrow> search_result P Q cls (if cl = Cleanup_Clause then Handler_Cleanup else found) r
    \<Longrightarrow> search_result P Q (cl # cls) found r"
  by (auto simp: search_result_def split: option.splits if_splits)

lemma search_result_stop:
  "stops_at P cl \<Longrightarrow> \<forall>i t. cl = Catch_Clause i t \<longrightarrow> Q t adj
    \<Longrightarrow> search_result P Q (cl # cls) found (Some (Handler_Catch, word_of_int (clause_filter cl), adj))"
  by (auto simp: search_result_def)

lemma check_actions_list:
  assumes "action_chain m p cls" and "\<forall>cl \<in> set cls. entries_ok m entry types cl"
    and "compares check entry P Q S" and "\<Union> (clause_types ` set cls) \<subseteq> S"
  shows "search_result P Q cls found (check_actions m check True types p found sel adj)"
  using assms(1,2,4)
proof (induction cls arbitrary: p found sel adj)
  case Nil
  then show ?case by (subst check_actions.simps) (simp add: search_result_def)
next
  case (Cons cl cls)
  have bounds: "- (2 ^ 31) \<le> clause_filter cl" "clause_filter cl < 2 ^ 31"
    using Cons.prems(2) by (cases cl; simp)+
  obtain next_record where chain: "action_chain m next_record cls"
    and step: "\<And>found sel adj. check_actions m check True types p found sel adj = (let filter = word_of_int (clause_filter cl) in
      if 0 < clause_filter cl then do {
        (ok, adj) \<leftarrow> check filter adj;
        if ok then Some (Handler_Catch, filter, adj) else check_actions m check True types next_record found sel adj
      } else if clause_filter cl < 0 \<and> True then do {
        (matched, adj) \<leftarrow> check_allowed m check (types - filter - 1) adj;
        if matched then check_actions m check True types next_record found filter adj else Some (Handler_Catch, filter, adj)
      } else if clause_filter cl = 0 then check_actions m check True types next_record Handler_Cleanup 0 adj
      else check_actions m check True types next_record found sel adj)"
    using check_actions_record [OF Cons.prems(1) bounds, where cxx = True and check = check and types = types] by blast
  have rest: "search_result P Q cls found' (check_actions m check True types next_record found' sel' adj')" for found' sel' adj'
    by (rule Cons.IH [OF chain]) (use Cons.prems in auto)
  show ?case
  proof (cases cl)
    case (Catch_Clause i t)
    then have i: "0 < i" "entry (of_nat i) = Some t" "t \<in> S" using Cons.prems(2,3) by auto
    then obtain q where q: "check (of_nat i) adj = Some (P t, q)" "if P t then Q t q else q = adj"
      using assms(3) by (fastforce simp: compares_def)
    then show ?thesis
      using i(1) step [of found sel adj] rest [of found sel adj] search_result_stop [of P cl Q q cls found] search_result_skip [of P cl Q cls found]
      by (cases "P t") (auto simp: Catch_Clause)
  next
    case Cleanup_Clause
    then show ?thesis
      using step [of found sel adj] rest [of Handler_Cleanup 0 adj] search_result_skip [of P cl Q cls found] by simp
  next
    case (Allowed_Clause i ts)
    then have i: "0 < i" "allowed_at m entry (types + of_nat i - 1) ts" "set ts \<subseteq> S" using Cons.prems(2,3) by auto
    obtain q where q: "check_allowed m check (types + of_nat i - 1) adj = Some (\<exists>t \<in> set ts. P t, q)"
      using check_allowed_list [OF i(2) assms(3) i(3)] by blast
    then show ?thesis
      using i(1) step [of found sel adj] rest [of found "- of_nat i" q] search_result_stop [of P cl Q q cls found] search_result_skip [of P cl Q cls found]
      by (cases "\<exists>t \<in> set ts. P t") (auto simp: Allowed_Clause)
  qed
qed

text \<open>
  The types of a program and a thrown object of a class: what a compiler emits, with a readable table at every
  subobject.
\<close>

definition class_thrown :: "types \<Rightarrow> word_reads \<Rightarrow> addr \<times> addr \<Rightarrow> bool" where
  "class_thrown T w s \<longleftrightarrow> (\<exists>rank. emitted T rank) \<and> names_unique T \<and> tables_readable T w s
     \<and> (\<exists>et. T (fst s) = Some et \<and> is_class (type_kind et))"

definition known_types :: "types \<Rightarrow> clause list \<Rightarrow> bool" where
  "known_types T cls \<longleftrightarrow> (\<forall>t \<in> \<Union> (clause_types ` set cls). t = 0 \<or> T t \<noteq> None)"

lemma check_entry_compares:
  assumes "class_thrown T w (ex_type, obj)" and "known_types T cls"
  shows "compares (check_entry m c T w void_type lsda (Some (obj, ex_type))) (get_type_info_entry m c lsda)
    (takes_base T w (ex_type, obj)) (seen_at T w (ex_type, obj)) (\<Union> (clause_types ` set cls))"
  unfolding compares_def
proof (intro allI impI)
  fix i t adj assume t: "get_type_info_entry m c lsda i = Some t" "t \<in> \<Union> (clause_types ` set cls)"
  obtain rank et where T: "emitted T rank" "names_unique T" "T ex_type = Some et" "is_class (type_kind et)"
    "tables_readable T w (ex_type, obj)" using assms(1) by (auto simp: class_thrown_def)
  have "t = 0 \<or> T t \<noteq> None" using assms(2) t(2) by (auto simp: known_types_def)
  from check_type_signature_class [OF T this, of void_type adj] t(1)
  show "\<exists>p. check_entry m c T w void_type lsda (Some (obj, ex_type)) i adj = Some (takes_base T w (ex_type, obj) t, p)
    \<and> (if takes_base T w (ex_type, obj) t then seen_at T w (ex_type, obj) t p else p = adj)"
    by (auto simp: check_entry_def)
qed

lemma search_finds:
  assumes "action_chain m record cls" and "record \<noteq> 0" and "\<forall>cl \<in> set cls. entries_ok m (get_type_info_entry m c lsda) (type_table lsda) cl"
    and "class_thrown T w (ex_type, obj)" and "known_types T cls"
  shows "search_result (takes_base T w (ex_type, obj)) (seen_at T w (ex_type, obj)) cls Handler_None
    (check_action_record m c T w void_type lsda record (Some (obj, ex_type)) sel adj)"
  using check_actions_list [OF assms(1,3) check_entry_compares [OF assms(4,5), of m c void_type lsda] order_refl,
      where found = Handler_None and sel = sel and adj = adj] assms(2)
  by (simp add: check_action_record_def)

text \<open>
  Property C25: For a thrown class object, the search takes the first clause that concerns it: a handler for its class, for
  a base class of it or for everything, or a specification that does not allow it. Its filter is the selector,
  and a handler sees the subobject of the class that it names. When there is none, the frame has a cleanup
  exactly when a clause says so. Any base class counts, private and ambiguous ones too; when all bases
  are public and no class occurs twice in the object, these are the handlers that the language allows.
\<close>

theorem handler_search_correct:
  assumes "action_chain m record cls" and "record \<noteq> 0" and "\<forall>cl \<in> set cls. entries_ok m (get_type_info_entry m c lsda) (type_table lsda) cl"
    and "class_thrown T w (ex_type, obj)" and "known_types T cls"
  shows "(case find (stops_at (takes_base T w (ex_type, obj))) cls of
      Some cl \<Rightarrow> \<exists>seen. check_action_record m c T w void_type lsda record (Some (obj, ex_type)) sel adj
          = Some (Handler_Catch, word_of_int (clause_filter cl), seen)
        \<and> (\<forall>i t. cl = Catch_Clause i t \<longrightarrow> seen_at T w (ex_type, obj) t seen)
    | None \<Rightarrow> \<exists>sel' adj'. check_action_record m c T w void_type lsda record (Some (obj, ex_type)) sel adj
          = Some (if Cleanup_Clause \<in> set cls then Handler_Cleanup else Handler_None, sel', adj'))
    \<and> (plain_bases T w (ex_type, obj) \<longrightarrow> takes_base T w (ex_type, obj) = language_takes T w (ex_type, obj))"
  using search_finds [OF assms, of void_type sel adj] plain_bases_takes
  by (auto simp: search_result_def split: option.splits if_splits)


section \<open>From the throw to the handler\<close>

lemma install_context_sets:
  assumes "regno 0 < length (generic_register c)" and "regno 1 < length (generic_register c)" and "regno 0 \<noteq> regno 1"
  shows "\<exists>c'. install_context regno pad sel u c = Some c' \<and> instruction_pointer c' = pad
    \<and> generic_register c' ! regno 0 = u \<and> generic_register c' ! regno 1 = sel"
  using assms by (simp add: install_context_def unwind_set_gr_def unwind_set_ip_def arr_set_def)

text \<open>
  Both phases of what follows the test for the language-specific data, for an exception of a class whose call has a handler: the first phase finds it, the second one
  installs its landing pad with the exception and the selector of the clause in the registers, and
  \<open>__cxa_begin_catch\<close> gives the handler the subobject of the class it names.
\<close>

lemma exception_reaches_handler:
  assumes "eh_headers s h = Some e" and "exception_class e = cxx_exception_class"
    and "look_up m p c = Some (lsda, True, action)" and "p \<noteq> 0" "landing_pad action \<noteq> 0" "action_record action \<noteq> 0"
    and "action_chain m (action_record action) cls"
    and "\<forall>cl \<in> set cls. entries_ok m (get_type_info_entry m c lsda) (type_table lsda) cl"
    and "class_thrown T w (exception_type e, h + ex_header_size)" and "known_types T cls"
    and "find (stops_at (takes_base T w (exception_type e, h + ex_header_size))) cls = Some (Catch_Clause i t)"
    and "regno 0 < length (generic_register c)" "regno 1 < length (generic_register c)" "regno 0 \<noteq> regno 1"
  shows "\<exists>e1 s1 s2 s3 c' seen.
    thrown_by s h = Some (e, Some (h + ex_header_size, exception_type e))
    \<and> personality_body p regno m T w void_type 1 (Some e) (Some (h + ex_header_size, exception_type e)) (h + unwind_header) c s
        = Some (Handler_Found, c, s1)
    \<and> thrown_by s1 h = Some (e1, Some (h + ex_header_size, exception_type e))
    \<and> personality_body p regno m T w void_type 6 (Some e1) (Some (h + ex_header_size, exception_type e)) (h + unwind_header) c s1
        = Some (Install_Context, c', s2)
    \<and> instruction_pointer c' = landing_pad action \<and> generic_register c' ! regno 0 = h + unwind_header
    \<and> generic_register c' ! regno 1 = of_nat i
    \<and> cxa_begin_catch (h + unwind_header) s2 = Some (seen, s3) \<and> seen_at T w (exception_type e, h + ex_header_size) t seen"
proof -
  obtain seen where found: "check_action_record m c T w void_type lsda (action_record action) (Some (h + ex_header_size, exception_type e)) 0 (adjusted_ptr e)
      = Some (Handler_Catch, of_nat i, seen)" "seen_at T w (exception_type e, h + ex_header_size) t seen"
    using search_finds [OF assms(7,6,8,9,10), of void_type 0 "adjusted_ptr e"] assms(11) by (auto simp: search_result_def)
  let ?e1 = "(save_landing_pad (of_nat i) (landing_pad action) e)\<lparr>adjusted_ptr := seen, language_specific_data := p,
    ex_action_record := action_record action\<rparr>"
  let ?s1 = "put_header h ?e1 s"
  let ?e2 = "?e1\<lparr>catch_temp := 0, handler_switch_value := 0\<rparr>"
  have thrown: "thrown_by s h = Some (e, Some (h + ex_header_size, exception_type e))"
    "thrown_by ?s1 h = Some (?e1, Some (h + ex_header_size, exception_type e))"
    using assms(1,2) by (simp_all add: thrown_by_def real_exception_def put_header_def save_landing_pad_def)
  have first: "personality_body p regno m T w void_type 1 (Some e) (Some (h + ex_header_size, exception_type e)) (h + unwind_header) c s
      = Some (Handler_Found, c, ?s1)"
    by (simp add: personality_body_def assms(3,4) found(1) set_adjusted_def put_header_def)
  obtain c' where c': "install_context regno (landing_pad action) (of_nat i) (h + unwind_header) c = Some c'"
    "instruction_pointer c' = landing_pad action" "generic_register c' ! regno 0 = h + unwind_header" "generic_register c' ! regno 1 = of_nat i"
    using install_context_sets [OF assms(12,13,14)] by blast
  have second: "personality_body p regno m T w void_type 6 (Some ?e1) (Some (h + ex_header_size, exception_type e)) (h + unwind_header) c ?s1
      = Some (Install_Context, c', put_header h ?e2 ?s1)"
    using c'(1) assms(4,5) by (simp add: personality_body_def load_landing_pad_def save_landing_pad_def)
  have third: "\<exists>s3. cxa_begin_catch (h + unwind_header) (put_header h ?e2 ?s1) = Some (seen, s3)"
    using assms(2) by (cases "handler_count e = 0") (simp_all add: cxa_begin_catch_def put_header_def save_landing_pad_def Let_def)
  show ?thesis using thrown first second third c'(2-4) found(2) by blast
qed


text \<open>
  A function with one call in a try block, with a handler for a fundamental type and one for a base class of
  what is thrown; behind the two action records is the type table.
\<close>

lemma type_entry_absptr:
  assumes "type_table_encoding lsda = 0" and "read_le m (type_table lsda - 4 * i) 4 = Some v" and "v < 2 ^ 31"
  shows "get_type_info_entry m c lsda i = Some (of_nat v)"
  using assms by (auto simp: get_type_info_entry_def dwarf_size_of_fixed_size_field_def get_encoding_def read_value_def
      read_fixed_def resolve_indirect_value_def get_base_def is_indirect_def scast_small unat_of_nat word_of_nat_eq_0_iff
      ucast_small dest: dvd_imp_le)

definition sample_call_sites :: "call_site list" where
  "sample_call_sites = [\<lparr>cs_start = 0x20, cs_size = 8, cs_pad = 0x70, cs_action = 1\<rparr>]"

definition sample_tables :: table where
  "sample_tables = table_at 0x3000 [0xFF, 0, 18, 1, 4, 0x20, 8, 0x70, 1, 1, 1, 2, 0, 0x10, 0, 0, 0, 0x50, 0, 0, 0]"

definition sample_context :: unwind_context where
  "sample_context = \<lparr>generic_register = [0, 0, 0], instruction_pointer = 0x25\<rparr>"

definition sample_clauses :: "clause list" where
  "sample_clauses = [Catch_Clause 1 0x50, Catch_Clause 2 0x10]"

lemma sample_look_up:
  "\<exists>lsda. look_up sample_tables 0x3000 sample_context = Some (lsda, True, \<lparr>landing_pad = 0x70, action_record = 0x3009\<rparr>)
    \<and> type_table lsda = 0x3015 \<and> type_table_encoding lsda = 0"
proof -
  have bytes: "lsda_bytes (Some (0, 18)) sample_call_sites = [0xFF, 0, 18, 1, 4, 0x20, 8, 0x70, 1]"
    by (simp add: sample_call_sites_def lsda_bytes_def table_bytes_def site_bytes_def uleb128.simps omit_def)
  have "stored sample_tables 0x3000 (lsda_bytes (Some (0, 18)) sample_call_sites)"
    unfolding bytes by (simp add: sample_tables_def table_at_def)
  moreover have "\<forall>e \<in> set sample_call_sites. site_small e" "sorted (map cs_start sample_call_sites)"
    "\<exists>e \<in> set sample_call_sites. covers 0x25 e \<or> 0x25 < cs_start e" "length (table_bytes sample_call_sites) < 2 ^ 31"
    by (simp_all add: sample_call_sites_def site_small_def covers_def table_bytes_def site_bytes_def uleb128.simps)
  moreover have "site_for 0x25 sample_call_sites = Some \<lparr>cs_start = 0x20, cs_size = 8, cs_pad = 0x70, cs_action = 1\<rparr>"
    by (simp add: site_for_def sample_call_sites_def covers_def)
  ultimately show ?thesis
    using lsda_lookup_parts [of sample_tables "0x3000" "Some (0, 18)" sample_call_sites "0x25" sample_context]
    by (auto simp: look_up_def bytes site_action_def sample_context_def omit_def uleb128.simps)
qed

lemma sample_thrown: "class_thrown sample_types sample_words (0x20, obj)" "known_types sample_types sample_clauses"
proof -
  have "names_unique sample_types"
    unfolding names_unique_def sample_types_def type_eq_def by (auto split: if_splits)
  then show "class_thrown sample_types sample_words (0x20, obj)"
    using sample_emitted sample_vtables by (auto simp: class_thrown_def sample_types_def)
qed (simp add: known_types_def sample_clauses_def sample_types_def)

lemma sample_subobjects: "subobject sample_types sample_words (0x20, obj) s \<longleftrightarrow> s = (0x20, obj) \<or> s = (0x10, obj)"
proof -
  have "direct_base sample_types sample_words (0x20, obj) t \<longleftrightarrow> t = (0x10, obj)"
    "\<not> direct_base sample_types sample_words (0x10, obj) t" for t
    by (simp_all add: direct_base_single direct_base_class sample_types_def)
  then show ?thesis using subobject_cases [of sample_types sample_words "(0x20, obj)" s]
      subobject_cases [of sample_types sample_words "(0x10, obj)" s] by auto
qed

lemma sample_search:
  "find (stops_at (takes_base sample_types sample_words (0x20, obj))) sample_clauses = Some (Catch_Clause 2 0x10)"
  by (simp add: sample_clauses_def takes_base_def sample_subobjects)

lemma sample_chain: "action_chain sample_tables 0x3009 sample_clauses"
proof -
  have "\<exists>d::int. - (2 ^ 31) \<le> d \<and> d < 2 ^ 31 \<and> stored sample_tables 0x300A (sleb128 d) \<and> action_chain sample_tables (record_after 0x300A (word_of_int d)) [Catch_Clause 2 0x10]"
    if "action_chain sample_tables 0x300B [Catch_Clause 2 0x10]"
    using that by (intro exI [of _ 1]) (simp add: sample_tables_def table_at_def sleb128.simps record_after_def)
  moreover have "\<exists>d::int. - (2 ^ 31) \<le> d \<and> d < 2 ^ 31 \<and> stored sample_tables 0x300C (sleb128 d) \<and> action_chain sample_tables (record_after 0x300C (word_of_int d)) []"
    by (intro exI [of _ 0]) (simp add: sample_tables_def table_at_def sleb128.simps record_after_def)
  ultimately show ?thesis
    by (simp add: sample_clauses_def filter_bytes_def sleb128.simps [of 1] sleb128.simps [of 2]) (simp add: sample_tables_def table_at_def)
qed

lemma sample_entries:
  assumes "type_table lsda = 0x3015" and "type_table_encoding lsda = 0"
  shows "\<forall>cl \<in> set sample_clauses. entries_ok sample_tables (get_type_info_entry sample_tables c lsda) (type_table lsda) cl"
proof -
  have four: "(4 :: nat) = Suc (Suc (Suc (Suc 0)))" by simp
  have bytes: "sample_tables 0x3011 = Some 0x50" "sample_tables 0x3012 = Some 0" "sample_tables 0x3013 = Some 0" "sample_tables 0x3014 = Some 0"
    "sample_tables 0x300D = Some 0x10" "sample_tables 0x300E = Some 0" "sample_tables 0x300F = Some 0" "sample_tables 0x3010 = Some 0"
    by (simp_all add: sample_tables_def table_at_def)
  have "read_le sample_tables 0x3011 4 = Some 0x50" "read_le sample_tables 0x300D 4 = Some 0x10"
    by (simp_all only: four read_le.simps) (simp_all add: bytes)
  then have "get_type_info_entry sample_tables c lsda 1 = Some 0x50" "get_type_info_entry sample_tables c lsda 2 = Some 0x10"
    using type_entry_absptr [of lsda sample_tables 1 "0x50" c] type_entry_absptr [of lsda sample_tables 2 "0x10" c] assms
    by simp_all
  then show ?thesis by (simp add: sample_clauses_def)
qed

lemma sample_plain: "plain_bases sample_types sample_words (0x20, obj)"
proof -
  have "\<forall>info \<in> set (base_infos sample_types c). is_public info" for c
    by (auto simp: base_infos_def sample_types_def is_public_def base_flags_def)
  then show ?thesis by (simp add: plain_bases_def sample_subobjects)
qed

theorem handler_search_correct_witness:
  "(\<exists>lsda. check_action_record sample_tables sample_context sample_types sample_words \<lparr>type_name = 0, type_kind = Fundamental_Type\<rparr>
      lsda 0x3009 (Some (0x1044, 0x20)) 0 0 = Some (Handler_Catch, 2, 0x1044))
    \<and> language_takes sample_types sample_words (0x20, 0x1044) 0x10"
proof -
  obtain lsda :: dwarf_eh_lsda where lsda: "type_table lsda = 0x3015" "type_table_encoding lsda = 0" using sample_look_up by blast
  note found = handler_search_correct [OF sample_chain _ sample_entries [OF lsda] sample_thrown, of sample_context
        "\<lparr>type_name = 0, type_kind = Fundamental_Type\<rparr>" "0x1044" 0 0, simplified]
  have "takes_base sample_types sample_words (0x20, 0x1044) 0x10" by (simp add: takes_base_def sample_subobjects)
  then have "language_takes sample_types sample_words (0x20, 0x1044) 0x10" using found sample_plain by metis
  moreover have "check_action_record sample_tables sample_context sample_types sample_words \<lparr>type_name = 0, type_kind = Fundamental_Type\<rparr>
      lsda 0x3009 (Some (0x1044, 0x20)) 0 0 = Some (Handler_Catch, 2, 0x1044)"
    using found by (auto simp: sample_search seen_at_def sample_subobjects)
  ultimately show ?thesis by blast
qed

end
