(* ===== verification/Exception_Memory.thy ===== *)
theory Exception_Memory
  imports Exceptions
begin

text \<open>
  Where an exception is stored (\<open>libcxxrt/exception.cc\<close>): memory from \<open>calloc\<close>, and sixteen buffers of 1 KB for
  when there is none. What \<open>calloc\<close> returns is an argument; a thread that finds all buffers in use waits
  for one (\<open>Must_Wait\<close>) and then tries again.
\<close>

section \<open>The emergency buffers\<close>

(* src/libcxxrt/exception.cc:443-447 emergency_buffer *)
record emergency_state = eh_state +
  buffer_allocated :: "bool list"
  emergency_buffer :: "u8 list list"

definition buffers_ok :: "'a emergency_state_scheme \<Rightarrow> bool" where
  "buffers_ok s \<longleftrightarrow> length (buffer_allocated s) = 16 \<and> length (emergency_buffer s) = 16
     \<and> (\<forall>i < 16. \<not> buffer_allocated s ! i \<longrightarrow> emergency_buffer s ! i = replicate 1024 0)"

datatype memory_result = Refused | Heap_Memory addr | Buffer addr | Must_Wait

text \<open>The first of the sixteen flags that is not set.\<close>

(* src/libcxxrt/exception.cc:487-495 emergency_malloc *)
definition free_buffer :: "bool list \<Rightarrow> nat option" where
  "free_buffer flags = find (\<lambda>i. \<not> flags ! i) [0..<16]"

text \<open>\<open>base\<close> is the address of the buffers, \<open>m\<close> what \<open>calloc\<close> returns.\<close>

(* src/libcxxrt/exception.cc:464-506 emergency_malloc *)
definition emergency_malloc :: "addr \<Rightarrow> addr \<Rightarrow> u32 \<Rightarrow> 'a emergency_state_scheme \<Rightarrow> memory_result \<times> 'a emergency_state_scheme" where
  "emergency_malloc base m sz s =
     (if sz > 1024 then (Refused, s)
      else if emergency_buffers_held s > 3 then (Refused, s)
      else if m \<noteq> 0 then (Heap_Memory m, s)
      else case free_buffer (buffer_allocated s) of
        None \<Rightarrow> (Must_Wait, s)
      | Some i \<Rightarrow> (Buffer (base + 1024 * of_nat i), s\<lparr>buffer_allocated := (buffer_allocated s)[i := True],
          emergency_buffers_held := emergency_buffers_held s + 1\<rparr>))"

(* src/libcxxrt/exception.cc:516-543 emergency_malloc_free *)
definition emergency_malloc_free :: "addr \<Rightarrow> addr \<Rightarrow> 'a emergency_state_scheme \<Rightarrow> 'a emergency_state_scheme option" where
  "emergency_malloc_free base ptr s = do {
     i \<leftarrow> find (\<lambda>i. ptr = base + 1024 * of_nat i) [0..<16];
     Some (s\<lparr>emergency_buffer := (emergency_buffer s)[i := replicate 1024 0],
       buffer_allocated := (buffer_allocated s)[i := False]\<rparr>)
   }"

text \<open>The two results of \<open>calloc\<close>, here and in the loop of \<open>emergency_malloc\<close>; \<open>Refused\<close> ends the program.\<close>

(* src/libcxxrt/exception.cc:545-563 alloc_or_die *)
definition alloc_or_die :: "addr \<Rightarrow> addr \<Rightarrow> addr \<Rightarrow> u32 \<Rightarrow> 'a emergency_state_scheme \<Rightarrow> memory_result \<times> 'a emergency_state_scheme" where
  "alloc_or_die base m m' sz s = (if m \<noteq> 0 then (Heap_Memory m, s) else emergency_malloc base m' sz s)"

definition past_header :: "memory_result \<Rightarrow> memory_result" where
  "past_header r = (case r of Heap_Memory p \<Rightarrow> Heap_Memory (p + ex_header_size) | Buffer p \<Rightarrow> Buffer (p + ex_header_size) | r \<Rightarrow> r)"

(* src/libcxxrt/exception.cc:585-590 __cxa_allocate_exception *)
definition cxa_allocate_exception :: "addr \<Rightarrow> addr \<Rightarrow> addr \<Rightarrow> u32 \<Rightarrow> 'a emergency_state_scheme \<Rightarrow> memory_result \<times> 'a emergency_state_scheme" where
  "cxa_allocate_exception base m m' thrown_size s =
     (let (r, s) = alloc_or_die base m m' (thrown_size + ex_header_size) s in (past_header r, s))"

(* src/libcxxrt/exception.cc:592-597 __cxa_allocate_dependent_exception *)
definition cxa_allocate_dependent_exception :: "addr \<Rightarrow> addr \<Rightarrow> addr \<Rightarrow> 'a emergency_state_scheme \<Rightarrow> memory_result \<times> 'a emergency_state_scheme" where
  "cxa_allocate_dependent_exception base m m' s = (let (r, s) = alloc_or_die base m m' ex_header_size s in (past_header r, s))"

(* src/libcxxrt/exception.cc:564-577 free_exception *)
definition give_back :: "addr \<Rightarrow> addr \<Rightarrow> 'a emergency_state_scheme \<Rightarrow> 'a emergency_state_scheme option" where
  "give_back base e s = (if base \<le> e \<and> e < base + 16384 then emergency_malloc_free base e s else Some s)"

section \<open>Which buffers are handed out\<close>

lemma free_buffer_Some: "free_buffer flags = Some i \<longleftrightarrow> i < 16 \<and> \<not> flags ! i \<and> (\<forall>j < i. flags ! j)"
  by (auto simp: free_buffer_def find_Some_iff)

lemma buffer_address_inj:
  assumes "(base :: addr) + 1024 * of_nat i = base + 1024 * of_nat j" and "i < 16" and "j < 16"
  shows "i = j"
proof -
  have "(1024 * of_nat i :: addr) = 1024 * of_nat j" using assms(1) by simp
  then have "unat (1024 * of_nat i :: addr) = unat (1024 * of_nat j :: addr)" by simp
  then show ?thesis using assms(2,3) by (simp add: unat_word_ariths unat_of_nat)
qed

lemma find_buffer:
  assumes "i < 16"
  shows "find (\<lambda>j. base + 1024 * of_nat i = (base :: addr) + 1024 * of_nat j) [0..<16] = Some i"
proof -
  have "1024 * of_nat i \<noteq> (1024 * of_nat j :: addr)" if "j < i" for j
    using buffer_address_inj [of base i j] assms that by auto
  then show ?thesis using assms unfolding find_Some_iff by (intro exI [of _ i]) simp
qed

text \<open>
  A buffer that is handed out was free, is the lowest one and zeroed; giving it back makes it free and zeroed
  again, however it was written to, and touches no other.
\<close>

theorem emergency_buffer_roundtrip:
  assumes "buffers_ok s" and "emergency_malloc base m sz s = (Buffer p, s1)" and "length bs = 1024"
  shows "\<exists>i < 16. p = base + 1024 * of_nat i \<and> \<not> buffer_allocated s ! i \<and> (\<forall>j < i. buffer_allocated s ! j)
    \<and> emergency_buffer s1 ! i = replicate 1024 0
    \<and> emergency_malloc_free base p (s1\<lparr>emergency_buffer := (emergency_buffer s1)[i := bs]\<rparr>)
      = Some (s\<lparr>emergency_buffers_held := emergency_buffers_held s + 1\<rparr>)"
proof -
  obtain i where i: "free_buffer (buffer_allocated s) = Some i" and p: "p = base + 1024 * of_nat i"
    and s1: "s1 = s\<lparr>buffer_allocated := (buffer_allocated s)[i := True], emergency_buffers_held := emergency_buffers_held s + 1\<rparr>"
    using assms(2) by (auto simp: emergency_malloc_def split: if_splits option.splits)
  have free: "i < 16" "\<not> buffer_allocated s ! i" "\<forall>j < i. buffer_allocated s ! j" using i by (simp_all add: free_buffer_Some)
  moreover have "emergency_buffer s ! i = replicate 1024 0" "length (buffer_allocated s) = 16" "length (emergency_buffer s) = 16"
    using assms(1) free(1,2) by (auto simp: buffers_ok_def)
  moreover have "(buffer_allocated s)[i := False] = buffer_allocated s" "(emergency_buffer s)[i := replicate 1024 0] = emergency_buffer s"
    using calculation list_update_id [of "buffer_allocated s" i] list_update_id [of "emergency_buffer s" i] by auto
  ultimately show ?thesis using p s1 find_buffer [of i base]
    by (intro exI [of _ i]) (simp add: emergency_malloc_free_def)
qed

section \<open>How often\<close>

datatype memory_op = Allocate addr u32 | Give_Back addr

fun memory_step :: "addr \<Rightarrow> memory_op \<Rightarrow> emergency_state \<Rightarrow> (nat \<times> emergency_state) option" where
  "memory_step base (Allocate m sz) s = (case emergency_malloc base m sz s of
     (Buffer p, s) \<Rightarrow> Some (1, s) | (r, s) \<Rightarrow> Some (0, s))"
| "memory_step base (Give_Back p) s = map_option (Pair 0) (emergency_malloc_free base p s)"

text \<open>How many buffers a thread gets in a run.\<close>

fun buffers_got :: "addr \<Rightarrow> memory_op list \<Rightarrow> emergency_state \<Rightarrow> (nat \<times> emergency_state) option" where
  "buffers_got base [] s = Some (0, s)"
| "buffers_got base (x # xs) s = do {
     (n, s) \<leftarrow> memory_step base x s;
     (k, s) \<leftarrow> buffers_got base xs s;
     Some (n + k, s)
   }"

lemma memory_step_held:
  "memory_step base x s = Some (n, s1) \<Longrightarrow> emergency_buffers_held s1 = emergency_buffers_held s + int n \<and> (emergency_buffers_held s > 3 \<longrightarrow> n = 0) \<and> n \<le> 1"
  by (cases x) (auto simp: emergency_malloc_def emergency_malloc_free_def split: if_splits option.splits bind_splits)

text \<open>
  The limit of four buffers is not one on what a thread holds: giving a buffer back does not lower the count, so
  that a thread gets at most four in its whole life, and none after that even when all sixteen are free.
\<close>

theorem emergency_buffers_used_up:
  assumes "buffers_got base xs s = Some (n, s1)" and "0 \<le> emergency_buffers_held s"
  shows "emergency_buffers_held s1 = emergency_buffers_held s + int n \<and> (0 < n \<longrightarrow> emergency_buffers_held s1 \<le> 4)"
  using assms
proof (induction xs arbitrary: s n)
  case (Cons x xs)
  then obtain k j s2 where s2: "memory_step base x s = Some (k, s2)" "buffers_got base xs s2 = Some (j, s1)" "n = k + j"
    by (auto split: bind_splits)
  with memory_step_held [OF s2(1)] Cons.IH [OF s2(2)] Cons.prems(2) show ?case by auto
qed simp

end
