(* ===== verification/Font_256.thy ===== *)
theory Font_256
  imports Font
begin

text \<open>
  The entries 256 to 511 of the table of \<open>kernel/gfx/terminus.cpp\<close>: Latin, Greek and Cyrillic letters, U+0121 to U+0432.
\<close>

section \<open>The table, continued\<close>

(* src/kernel/gfx/terminus.cpp:4612-4755 font_terminus *)
definition glyphs_100 :: "u8 list list" where
  "glyphs_100 = [
     [0b00000000, 0b00000000, 0b00001000, 0b00001000, 0b00000000, 0b00111110,
      0b01000010, 0b01000010, 0b01000010, 0b01000010, 0b01000010, 0b00111110,
      0b00000010, 0b00000010, 0b00111100, 0b00000000],
     [0b00000000, 0b00000000, 0b00111100, 0b01000010, 0b01000010, 0b01000000,
      0b01000000, 0b01001110, 0b01000010, 0b01000010, 0b01000010, 0b00111100,
      0b00000000, 0b00010000, 0b00010000, 0b00100000],
     [0b00000000, 0b00000100, 0b00001000, 0b00001000, 0b00000000, 0b00111110,
      0b01000010, 0b01000010, 0b01000010, 0b01000010, 0b01000010, 0b00111110,
      0b00000010, 0b00000010, 0b00111100, 0b00000000],
     [0b00011000, 0b00100100, 0b00000000, 0b01000010, 0b01000010, 0b01000010,
      0b01000010, 0b01111110, 0b01000010, 0b01000010, 0b01000010, 0b01000010,
      0b00000000, 0b00000000, 0b00000000, 0b00000000],
     [0b00001100, 0b00010010, 0b01000000, 0b01000000, 0b01000000, 0b01111100,
      0b01000010, 0b01000010, 0b01000010, 0b01000010, 0b01000010, 0b01000010,
      0b00000000, 0b00000000, 0b00000000, 0b00000000],
     [0b00000000, 0b00000000, 0b01000010, 0b11111111, 0b01000010, 0b01000010,
      0b01111110, 0b01000010, 0b01000010, 0b01000010, 0b01000010, 0b01000010,
      0b00000000, 0b00000000, 0b00000000, 0b00000000],
     [0b00000000, 0b00000000, 0b01000000, 0b11111000, 0b01000000, 0b01111100,
      0b01000010, 0b01000010, 0b01000010, 0b01000010, 0b01000010, 0b01000010,
      0b00000000, 0b00000000, 0b00000000, 0b00000000],
     [0b00110010, 0b01001100, 0b00000000, 0b00111000, 0b00010000, 0b00010000,
      0b00010000, 0b00010000, 0b00010000, 0b00010000, 0b00010000, 0b00111000,
      0b00000000, 0b00000000, 0b00000000, 0b00000000]]"

(* src/kernel/gfx/terminus.cpp:4756-4899 font_terminus *)
definition glyphs_108 :: "u8 list list" where
  "glyphs_108 = [
     [0b00000000, 0b00000000, 0b00110100, 0b01011000, 0b00000000, 0b00110000,
      0b00010000, 0b00010000, 0b00010000, 0b00010000, 0b00010000, 0b00111000,
      0b00000000, 0b00000000, 0b00000000, 0b00000000],
     [0b01111100, 0b00000000, 0b00111000, 0b00010000, 0b00010000, 0b00010000,
      0b00010000, 0b00010000, 0b00010000, 0b00010000, 0b00010000, 0b00111000,
      0b00000000, 0b00000000, 0b00000000, 0b00000000],
     [0b00000000, 0b00000000, 0b00000000, 0b01111000, 0b00000000, 0b00110000,
      0b00010000, 0b00010000, 0b00010000, 0b00010000, 0b00010000, 0b00111000,
      0b00000000, 0b00000000, 0b00000000, 0b00000000],
     [0b00100100, 0b00011000, 0b00000000, 0b00111000, 0b00010000, 0b00010000,
      0b00010000, 0b00010000, 0b00010000, 0b00010000, 0b00010000, 0b00111000,
      0b00000000, 0b00000000, 0b00000000, 0b00000000],
     [0b00000000, 0b00000000, 0b01001000, 0b00110000, 0b00000000, 0b00110000,
      0b00010000, 0b00010000, 0b00010000, 0b00010000, 0b00010000, 0b00111000,
      0b00000000, 0b00000000, 0b00000000, 0b00000000],
     [0b00000000, 0b00000000, 0b00111000, 0b00010000, 0b00010000, 0b00010000,
      0b00010000, 0b00010000, 0b00010000, 0b00010000, 0b00010000, 0b00111000,
      0b00010000, 0b00100000, 0b00011000, 0b00000000],
     [0b00000000, 0b00000000, 0b00010000, 0b00010000, 0b00000000, 0b00110000,
      0b00010000, 0b00010000, 0b00010000, 0b00010000, 0b00010000, 0b00111000,
      0b00010000, 0b00100000, 0b00011000, 0b00000000],
     [0b00010000, 0b00010000, 0b00000000, 0b00111000, 0b00010000, 0b00010000,
      0b00010000, 0b00010000, 0b00010000, 0b00010000, 0b00010000, 0b00111000,
      0b00000000, 0b00000000, 0b00000000, 0b00000000]]"

(* src/kernel/gfx/terminus.cpp:4900-5043 font_terminus *)
definition glyphs_110 :: "u8 list list" where
  "glyphs_110 = [
     [0b00000000, 0b00000000, 0b00000000, 0b00000000, 0b00000000, 0b00110000,
      0b00010000, 0b00010000, 0b00010000, 0b00010000, 0b00010000, 0b00111000,
      0b00000000, 0b00000000, 0b00000000, 0b00000000],
     [0b00000000, 0b00000000, 0b11100111, 0b01000010, 0b01000010, 0b01000010,
      0b01000010, 0b01000010, 0b01000010, 0b01010010, 0b01010010, 0b11101100,
      0b00000000, 0b00000000, 0b00000000, 0b00000000],
     [0b00000000, 0b00000000, 0b01000010, 0b01000010, 0b00000000, 0b11000110,
      0b01000010, 0b01000010, 0b01000010, 0b01000010, 0b01000010, 0b11100010,
      0b00010010, 0b00010010, 0b00001100, 0b00000000],
     [0b00001100, 0b00010010, 0b00000000, 0b00001110, 0b00000100, 0b00000100,
      0b00000100, 0b00000100, 0b00000100, 0b01000100, 0b01000100, 0b00111000,
      0b00000000, 0b00000000, 0b00000000, 0b00000000],
     [0b00000000, 0b00000000, 0b00001100, 0b00010010, 0b00000000, 0b00001100,
      0b00000100, 0b00000100, 0b00000100, 0b00000100, 0b00000100, 0b00000100,
      0b01000100, 0b01000100, 0b00111000, 0b00000000],
     [0b00000000, 0b00000000, 0b01000010, 0b01000100, 0b01001000, 0b01010000,
      0b01100000, 0b01100000, 0b01010000, 0b01001000, 0b01000100, 0b01000010,
      0b00000000, 0b00010000, 0b00010000, 0b00100000],
     [0b00000000, 0b00000000, 0b01000000, 0b01000000, 0b01000000, 0b01000010,
      0b01000100, 0b01001000, 0b01110000, 0b01001000, 0b01000100, 0b01000010,
      0b00000000, 0b00010000, 0b00010000, 0b00100000],
     [0b00000000, 0b00000000, 0b00000000, 0b00000000, 0b00000000, 0b01000010,
      0b01000100, 0b01001000, 0b01110000, 0b01001000, 0b01000100, 0b01000010,
      0b00000000, 0b00000000, 0b00000000, 0b00000000]]"

(* src/kernel/gfx/terminus.cpp:5044-5187 font_terminus *)
definition glyphs_118 :: "u8 list list" where
  "glyphs_118 = [
     [0b00100000, 0b01000000, 0b00000000, 0b01000000, 0b01000000, 0b01000000,
      0b01000000, 0b01000000, 0b01000000, 0b01000000, 0b01000000, 0b01111110,
      0b00000000, 0b00000000, 0b00000000, 0b00000000],
     [0b00001000, 0b00010000, 0b00000000, 0b00110000, 0b00010000, 0b00010000,
      0b00010000, 0b00010000, 0b00010000, 0b00010000, 0b00010000, 0b00111000,
      0b00000000, 0b00000000, 0b00000000, 0b00000000],
     [0b00000000, 0b00000000, 0b01000000, 0b01000000, 0b01000000, 0b01000000,
      0b01000000, 0b01000000, 0b01000000, 0b01000000, 0b01000000, 0b01111110,
      0b00000000, 0b00010000, 0b00010000, 0b00100000],
     [0b00000000, 0b00000000, 0b00110000, 0b00010000, 0b00010000, 0b00010000,
      0b00010000, 0b00010000, 0b00010000, 0b00010000, 0b00010000, 0b00111000,
      0b00000000, 0b00010000, 0b00010000, 0b00100000],
     [0b00100100, 0b00011000, 0b01000000, 0b01000000, 0b01000000, 0b01000000,
      0b01000000, 0b01000000, 0b01000000, 0b01000000, 0b01000000, 0b01111110,
      0b00000000, 0b00000000, 0b00000000, 0b00000000],
     [0b01001000, 0b00110000, 0b00000000, 0b00110000, 0b00010000, 0b00010000,
      0b00010000, 0b00010000, 0b00010000, 0b00010000, 0b00010000, 0b00111000,
      0b00000000, 0b00000000, 0b00000000, 0b00000000],
     [0b00000000, 0b00000000, 0b01000000, 0b01000000, 0b01000000, 0b01000000,
      0b01000100, 0b01000100, 0b01000000, 0b01000000, 0b01000000, 0b01111110,
      0b00000000, 0b00000000, 0b00000000, 0b00000000],
     [0b00000000, 0b00000000, 0b00110000, 0b00010000, 0b00010000, 0b00010000,
      0b00010001, 0b00010001, 0b00010000, 0b00010000, 0b00010000, 0b00111000,
      0b00000000, 0b00000000, 0b00000000, 0b00000000]]"

(* src/kernel/gfx/terminus.cpp:5188-5331 font_terminus *)
definition glyphs_120 :: "u8 list list" where
  "glyphs_120 = [
     [0b00000000, 0b00000000, 0b01000000, 0b01000000, 0b01000000, 0b01000000,
      0b01100000, 0b11000000, 0b01000000, 0b01000000, 0b01000000, 0b01111110,
      0b00000000, 0b00000000, 0b00000000, 0b00000000],
     [0b00000000, 0b00000000, 0b00110000, 0b00010000, 0b00010000, 0b00010000,
      0b00011000, 0b00110000, 0b00010000, 0b00010000, 0b00010000, 0b00111000,
      0b00000000, 0b00000000, 0b00000000, 0b00000000],
     [0b00001000, 0b00010000, 0b01000010, 0b01000010, 0b01000010, 0b01100010,
      0b01010010, 0b01001010, 0b01000110, 0b01000010, 0b01000010, 0b01000010,
      0b00000000, 0b00000000, 0b00000000, 0b00000000],
     [0b00000000, 0b00000000, 0b00001000, 0b00010000, 0b00000000, 0b01111100,
      0b01000010, 0b01000010, 0b01000010, 0b01000010, 0b01000010, 0b01000010,
      0b00000000, 0b00000000, 0b00000000, 0b00000000],
     [0b00000000, 0b00000000, 0b01000010, 0b01000010, 0b01000010, 0b01100010,
      0b01010010, 0b01001010, 0b01000110, 0b01000010, 0b01000010, 0b01000010,
      0b00000000, 0b00010000, 0b00010000, 0b00100000],
     [0b00000000, 0b00000000, 0b00000000, 0b00000000, 0b00000000, 0b01111100,
      0b01000010, 0b01000010, 0b01000010, 0b01000010, 0b01000010, 0b01000010,
      0b00000000, 0b00010000, 0b00010000, 0b00100000],
     [0b00100100, 0b00011000, 0b01000010, 0b01000010, 0b01000010, 0b01100010,
      0b01010010, 0b01001010, 0b01000110, 0b01000010, 0b01000010, 0b01000010,
      0b00000000, 0b00000000, 0b00000000, 0b00000000],
     [0b00000000, 0b00000000, 0b00100100, 0b00011000, 0b00000000, 0b01111100,
      0b01000010, 0b01000010, 0b01000010, 0b01000010, 0b01000010, 0b01000010,
      0b00000000, 0b00000000, 0b00000000, 0b00000000]]"

(* src/kernel/gfx/terminus.cpp:5332-5475 font_terminus *)
definition glyphs_128 :: "u8 list list" where
  "glyphs_128 = [
     [0b00000000, 0b01000000, 0b01000000, 0b10000000, 0b00000000, 0b01111100,
      0b01000010, 0b01000010, 0b01000010, 0b01000010, 0b01000010, 0b01000010,
      0b00000000, 0b00000000, 0b00000000, 0b00000000],
     [0b00000000, 0b00000000, 0b01000010, 0b01000010, 0b01000010, 0b01100010,
      0b01010010, 0b01001010, 0b01000110, 0b01000010, 0b01000010, 0b01000010,
      0b00000010, 0b00000010, 0b00001100, 0b00000000],
     [0b00000000, 0b00000000, 0b00000000, 0b00000000, 0b00000000, 0b01111100,
      0b01000010, 0b01000010, 0b01000010, 0b01000010, 0b01000010, 0b01000010,
      0b00000010, 0b00000010, 0b00001100, 0b00000000],
     [0b00111100, 0b00000000, 0b00111100, 0b01000010, 0b01000010, 0b01000010,
      0b01000010, 0b01000010, 0b01000010, 0b01000010, 0b01000010, 0b00111100,
      0b00000000, 0b00000000, 0b00000000, 0b00000000],
     [0b00000000, 0b00000000, 0b00000000, 0b00111100, 0b00000000, 0b00111100,
      0b01000010, 0b01000010, 0b01000010, 0b01000010, 0b01000010, 0b00111100,
      0b00000000, 0b00000000, 0b00000000, 0b00000000],
     [0b00100100, 0b00011000, 0b00000000, 0b00111100, 0b01000010, 0b01000010,
      0b01000010, 0b01000010, 0b01000010, 0b01000010, 0b01000010, 0b00111100,
      0b00000000, 0b00000000, 0b00000000, 0b00000000],
     [0b00000000, 0b00000000, 0b00100100, 0b00011000, 0b00000000, 0b00111100,
      0b01000010, 0b01000010, 0b01000010, 0b01000010, 0b01000010, 0b00111100,
      0b00000000, 0b00000000, 0b00000000, 0b00000000],
     [0b00010010, 0b00100100, 0b00000000, 0b00111100, 0b01000010, 0b01000010,
      0b01000010, 0b01000010, 0b01000010, 0b01000010, 0b01000010, 0b00111100,
      0b00000000, 0b00000000, 0b00000000, 0b00000000]]"

(* src/kernel/gfx/terminus.cpp:5476-5619 font_terminus *)
definition glyphs_130 :: "u8 list list" where
  "glyphs_130 = [
     [0b00000000, 0b00000000, 0b00010010, 0b00100100, 0b00000000, 0b00111100,
      0b01000010, 0b01000010, 0b01000010, 0b01000010, 0b01000010, 0b00111100,
      0b00000000, 0b00000000, 0b00000000, 0b00000000],
     [0b00000000, 0b00000000, 0b01111110, 0b10010000, 0b10010000, 0b10010000,
      0b10011100, 0b10010000, 0b10010000, 0b10010000, 0b10010000, 0b01111110,
      0b00000000, 0b00000000, 0b00000000, 0b00000000],
     [0b00000000, 0b00000000, 0b00000000, 0b00000000, 0b00000000, 0b01111100,
      0b10010010, 0b10010010, 0b10011110, 0b10010000, 0b10010000, 0b01111100,
      0b00000000, 0b00000000, 0b00000000, 0b00000000],
     [0b00001000, 0b00010000, 0b00000000, 0b01111100, 0b01000010, 0b01000010,
      0b01000010, 0b01111100, 0b01010000, 0b01001000, 0b01000100, 0b01000010,
      0b00000000, 0b00000000, 0b00000000, 0b00000000],
     [0b00000000, 0b00000000, 0b00001000, 0b00010000, 0b00000000, 0b01011110,
      0b01100000, 0b01000000, 0b01000000, 0b01000000, 0b01000000, 0b01000000,
      0b00000000, 0b00000000, 0b00000000, 0b00000000],
     [0b00000000, 0b00000000, 0b01111100, 0b01000010, 0b01000010, 0b01000010,
      0b01000010, 0b01111100, 0b01010000, 0b01001000, 0b01000100, 0b01000010,
      0b00000000, 0b00010000, 0b00010000, 0b00100000],
     [0b00000000, 0b00000000, 0b00000000, 0b00000000, 0b00000000, 0b01011110,
      0b01100000, 0b01000000, 0b01000000, 0b01000000, 0b01000000, 0b01000000,
      0b00000000, 0b01000000, 0b01000000, 0b10000000],
     [0b00100100, 0b00011000, 0b00000000, 0b01111100, 0b01000010, 0b01000010,
      0b01000010, 0b01111100, 0b01010000, 0b01001000, 0b01000100, 0b01000010,
      0b00000000, 0b00000000, 0b00000000, 0b00000000]]"

(* src/kernel/gfx/terminus.cpp:5620-5763 font_terminus *)
definition glyphs_138 :: "u8 list list" where
  "glyphs_138 = [
     [0b00000000, 0b00000000, 0b00100100, 0b00011000, 0b00000000, 0b01011110,
      0b01100000, 0b01000000, 0b01000000, 0b01000000, 0b01000000, 0b01000000,
      0b00000000, 0b00000000, 0b00000000, 0b00000000],
     [0b00001000, 0b00010000, 0b00000000, 0b00111100, 0b01000010, 0b01000000,
      0b01000000, 0b00111100, 0b00000010, 0b00000010, 0b01000010, 0b00111100,
      0b00000000, 0b00000000, 0b00000000, 0b00000000],
     [0b00000000, 0b00000000, 0b00000100, 0b00001000, 0b00000000, 0b00111110,
      0b01000000, 0b01000000, 0b00111100, 0b00000010, 0b00000010, 0b01111100,
      0b00000000, 0b00000000, 0b00000000, 0b00000000],
     [0b00011000, 0b00100100, 0b00000000, 0b00111100, 0b01000010, 0b01000000,
      0b01000000, 0b00111100, 0b00000010, 0b00000010, 0b01000010, 0b00111100,
      0b00000000, 0b00000000, 0b00000000, 0b00000000],
     [0b00000000, 0b00000000, 0b00011000, 0b00100100, 0b00000000, 0b00111110,
      0b01000000, 0b01000000, 0b00111100, 0b00000010, 0b00000010, 0b01111100,
      0b00000000, 0b00000000, 0b00000000, 0b00000000],
     [0b00000000, 0b00000000, 0b00111100, 0b01000010, 0b01000000, 0b01000000,
      0b00111100, 0b00000010, 0b00000010, 0b01000010, 0b01000010, 0b00111100,
      0b00010000, 0b00010000, 0b00100000, 0b00000000],
     [0b00000000, 0b00000000, 0b00000000, 0b00000000, 0b00000000, 0b00111110,
      0b01000000, 0b01000000, 0b00111100, 0b00000010, 0b00000010, 0b01111100,
      0b00010000, 0b00010000, 0b00100000, 0b00000000],
     [0b00100100, 0b00011000, 0b00000000, 0b00111100, 0b01000010, 0b01000000,
      0b01000000, 0b00111100, 0b00000010, 0b00000010, 0b01000010, 0b00111100,
      0b00000000, 0b00000000, 0b00000000, 0b00000000]]"

(* src/kernel/gfx/terminus.cpp:5764-5907 font_terminus *)
definition glyphs_140 :: "u8 list list" where
  "glyphs_140 = [
     [0b00000000, 0b00000000, 0b00100100, 0b00011000, 0b00000000, 0b00111110,
      0b01000000, 0b01000000, 0b00111100, 0b00000010, 0b00000010, 0b01111100,
      0b00000000, 0b00000000, 0b00000000, 0b00000000],
     [0b00000000, 0b00000000, 0b11111110, 0b00010000, 0b00010000, 0b00010000,
      0b00010000, 0b00010000, 0b00010000, 0b00010000, 0b00010000, 0b00010000,
      0b00001000, 0b00001000, 0b00010000, 0b00000000],
     [0b00000000, 0b00000000, 0b00010000, 0b00010000, 0b00010000, 0b01111100,
      0b00010000, 0b00010000, 0b00010000, 0b00010000, 0b00010000, 0b00001110,
      0b00000100, 0b00000100, 0b00001000, 0b00000000],
     [0b00100100, 0b00011000, 0b00000000, 0b11111110, 0b00010000, 0b00010000,
      0b00010000, 0b00010000, 0b00010000, 0b00010000, 0b00010000, 0b00010000,
      0b00000000, 0b00000000, 0b00000000, 0b00000000],
     [0b00100100, 0b00011000, 0b00000000, 0b00010000, 0b00010000, 0b01111100,
      0b00010000, 0b00010000, 0b00010000, 0b00010000, 0b00010000, 0b00001110,
      0b00000000, 0b00000000, 0b00000000, 0b00000000],
     [0b00000000, 0b00000000, 0b11111110, 0b00010000, 0b00010000, 0b00010000,
      0b01111100, 0b00010000, 0b00010000, 0b00010000, 0b00010000, 0b00010000,
      0b00000000, 0b00000000, 0b00000000, 0b00000000],
     [0b00000000, 0b00000000, 0b00010000, 0b00010000, 0b00010000, 0b01111100,
      0b00010000, 0b00111000, 0b00010000, 0b00010000, 0b00010000, 0b00001110,
      0b00000000, 0b00000000, 0b00000000, 0b00000000],
     [0b00110010, 0b01001100, 0b00000000, 0b01000010, 0b01000010, 0b01000010,
      0b01000010, 0b01000010, 0b01000010, 0b01000010, 0b01000010, 0b00111100,
      0b00000000, 0b00000000, 0b00000000, 0b00000000]]"

(* src/kernel/gfx/terminus.cpp:5908-6051 font_terminus *)
definition glyphs_148 :: "u8 list list" where
  "glyphs_148 = [
     [0b00000000, 0b00000000, 0b00110010, 0b01001100, 0b00000000, 0b01000010,
      0b01000010, 0b01000010, 0b01000010, 0b01000010, 0b01000010, 0b00111110,
      0b00000000, 0b00000000, 0b00000000, 0b00000000],
     [0b00111100, 0b00000000, 0b01000010, 0b01000010, 0b01000010, 0b01000010,
      0b01000010, 0b01000010, 0b01000010, 0b01000010, 0b01000010, 0b00111100,
      0b00000000, 0b00000000, 0b00000000, 0b00000000],
     [0b00000000, 0b00000000, 0b00000000, 0b00111100, 0b00000000, 0b01000010,
      0b01000010, 0b01000010, 0b01000010, 0b01000010, 0b01000010, 0b00111110,
      0b00000000, 0b00000000, 0b00000000, 0b00000000],
     [0b00100100, 0b00011000, 0b01000010, 0b01000010, 0b01000010, 0b01000010,
      0b01000010, 0b01000010, 0b01000010, 0b01000010, 0b01000010, 0b00111100,
      0b00000000, 0b00000000, 0b00000000, 0b00000000],
     [0b00000000, 0b00000000, 0b00100100, 0b00011000, 0b00000000, 0b01000010,
      0b01000010, 0b01000010, 0b01000010, 0b01000010, 0b01000010, 0b00111110,
      0b00000000, 0b00000000, 0b00000000, 0b00000000],
     [0b00011000, 0b00100100, 0b00011000, 0b01000010, 0b01000010, 0b01000010,
      0b01000010, 0b01000010, 0b01000010, 0b01000010, 0b01000010, 0b00111100,
      0b00000000, 0b00000000, 0b00000000, 0b00000000],
     [0b00000000, 0b00000000, 0b00011000, 0b00100100, 0b00011000, 0b01000010,
      0b01000010, 0b01000010, 0b01000010, 0b01000010, 0b01000010, 0b00111110,
      0b00000000, 0b00000000, 0b00000000, 0b00000000],
     [0b00010010, 0b00100100, 0b00000000, 0b01000010, 0b01000010, 0b01000010,
      0b01000010, 0b01000010, 0b01000010, 0b01000010, 0b01000010, 0b00111100,
      0b00000000, 0b00000000, 0b00000000, 0b00000000]]"

(* src/kernel/gfx/terminus.cpp:6052-6195 font_terminus *)
definition glyphs_150 :: "u8 list list" where
  "glyphs_150 = [
     [0b00000000, 0b00000000, 0b00010010, 0b00100100, 0b00000000, 0b01000010,
      0b01000010, 0b01000010, 0b01000010, 0b01000010, 0b01000010, 0b00111110,
      0b00000000, 0b00000000, 0b00000000, 0b00000000],
     [0b00000000, 0b00000000, 0b01000010, 0b01000010, 0b01000010, 0b01000010,
      0b01000010, 0b01000010, 0b01000010, 0b01000010, 0b01000010, 0b00111100,
      0b00001000, 0b00010000, 0b00001100, 0b00000000],
     [0b00000000, 0b00000000, 0b00000000, 0b00000000, 0b00000000, 0b01000010,
      0b01000010, 0b01000010, 0b01000010, 0b01000010, 0b01000010, 0b00111110,
      0b00000010, 0b00000100, 0b00000011, 0b00000000],
     [0b00011000, 0b00100100, 0b00000000, 0b10000010, 0b10000010, 0b10000010,
      0b10000010, 0b10010010, 0b10010010, 0b10101010, 0b11000110, 0b10000010,
      0b00000000, 0b00000000, 0b00000000, 0b00000000],
     [0b00000000, 0b00000000, 0b00011000, 0b00100100, 0b00000000, 0b10000010,
      0b10000010, 0b10010010, 0b10010010, 0b10010010, 0b10010010, 0b01111100,
      0b00000000, 0b00000000, 0b00000000, 0b00000000],
     [0b01000100, 0b01000100, 0b00000000, 0b10000010, 0b10000010, 0b01000100,
      0b01000100, 0b00101000, 0b00010000, 0b00010000, 0b00010000, 0b00010000,
      0b00000000, 0b00000000, 0b00000000, 0b00000000],
     [0b00001000, 0b00010000, 0b00000000, 0b01111110, 0b00000010, 0b00000100,
      0b00001000, 0b00010000, 0b00100000, 0b01000000, 0b01000000, 0b01111110,
      0b00000000, 0b00000000, 0b00000000, 0b00000000],
     [0b00000000, 0b00000000, 0b00001000, 0b00010000, 0b00000000, 0b01111110,
      0b00000100, 0b00001000, 0b00010000, 0b00100000, 0b01000000, 0b01111110,
      0b00000000, 0b00000000, 0b00000000, 0b00000000]]"

(* src/kernel/gfx/terminus.cpp:6196-6339 font_terminus *)
definition glyphs_158 :: "u8 list list" where
  "glyphs_158 = [
     [0b00010000, 0b00010000, 0b00000000, 0b01111110, 0b00000010, 0b00000100,
      0b00001000, 0b00010000, 0b00100000, 0b01000000, 0b01000000, 0b01111110,
      0b00000000, 0b00000000, 0b00000000, 0b00000000],
     [0b00000000, 0b00000000, 0b00010000, 0b00010000, 0b00000000, 0b01111110,
      0b00000100, 0b00001000, 0b00010000, 0b00100000, 0b01000000, 0b01111110,
      0b00000000, 0b00000000, 0b00000000, 0b00000000],
     [0b00100100, 0b00011000, 0b00000000, 0b01111110, 0b00000010, 0b00000100,
      0b00001000, 0b00010000, 0b00100000, 0b01000000, 0b01000000, 0b01111110,
      0b00000000, 0b00000000, 0b00000000, 0b00000000],
     [0b00000000, 0b00000000, 0b00100100, 0b00011000, 0b00000000, 0b01111110,
      0b00000100, 0b00001000, 0b00010000, 0b00100000, 0b01000000, 0b01111110,
      0b00000000, 0b00000000, 0b00000000, 0b00000000],
     [0b00000000, 0b00000000, 0b00001110, 0b00010000, 0b00010000, 0b00010000,
      0b00010000, 0b00010000, 0b00010000, 0b00010000, 0b00010000, 0b00010000,
      0b00000000, 0b00000000, 0b00000000, 0b00000000],
     [0b00000000, 0b00000000, 0b00111100, 0b01000010, 0b01000010, 0b00000010,
      0b00000010, 0b00000010, 0b00000010, 0b01000010, 0b01000010, 0b00111100,
      0b00000000, 0b00000000, 0b00000000, 0b00000000],
     [0b00000000, 0b00000000, 0b01111110, 0b00000010, 0b00000010, 0b00000010,
      0b00011110, 0b00000010, 0b00000010, 0b00000010, 0b00000010, 0b01111110,
      0b00000000, 0b00000000, 0b00000000, 0b00000000],
     [0b00000000, 0b00000000, 0b00111100, 0b01000010, 0b00000010, 0b00000010,
      0b01111110, 0b01000010, 0b01000010, 0b01000010, 0b01000010, 0b00111100,
      0b00000000, 0b00000000, 0b00000000, 0b00000000]]"

(* src/kernel/gfx/terminus.cpp:6340-6483 font_terminus *)
definition glyphs_160 :: "u8 list list" where
  "glyphs_160 = [
     [0b00000000, 0b00000000, 0b00111100, 0b01000010, 0b01000010, 0b01000000,
      0b00111000, 0b01000000, 0b01000000, 0b01000010, 0b01000010, 0b00111100,
      0b00000000, 0b00000000, 0b00000000, 0b00000000],
     [0b00000000, 0b00000000, 0b00001100, 0b00010010, 0b00010000, 0b00010000,
      0b01111100, 0b00010000, 0b00010000, 0b00010000, 0b00010000, 0b00010000,
      0b00010000, 0b10010000, 0b01100000, 0b00000000],
     [0b00000000, 0b00000000, 0b01000010, 0b01000010, 0b01000010, 0b01100010,
      0b01010010, 0b01001010, 0b01000110, 0b01000010, 0b01000010, 0b01000010,
      0b01000000, 0b01000000, 0b10000000, 0b00000000],
     [0b00000000, 0b00000000, 0b00000000, 0b00000000, 0b00000000, 0b01111100,
      0b01000010, 0b01000010, 0b01000010, 0b01000010, 0b01000010, 0b01000010,
      0b00000010, 0b00000010, 0b00000010, 0b00000000],
     [0b00000000, 0b00000000, 0b01111110, 0b00000010, 0b00000100, 0b00001000,
      0b00011100, 0b00000010, 0b00000010, 0b01000010, 0b01000010, 0b00111100,
      0b00000000, 0b00000000, 0b00000000, 0b00000000],
     [0b00000000, 0b00000000, 0b00111100, 0b01000010, 0b01000000, 0b01000000,
      0b00111100, 0b00000010, 0b00000010, 0b01000010, 0b01000010, 0b00111100,
      0b00000000, 0b00010000, 0b00010000, 0b00100000],
     [0b00000000, 0b00000000, 0b00000000, 0b00000000, 0b00000000, 0b00111110,
      0b01000000, 0b01000000, 0b00111100, 0b00000010, 0b00000010, 0b01111100,
      0b00000000, 0b00010000, 0b00010000, 0b00100000],
     [0b00000000, 0b00000000, 0b11111110, 0b00010000, 0b00010000, 0b00010000,
      0b00010000, 0b00010000, 0b00010000, 0b00010000, 0b00010000, 0b00010000,
      0b00000000, 0b00010000, 0b00010000, 0b00100000]]"

(* src/kernel/gfx/terminus.cpp:6484-6627 font_terminus *)
definition glyphs_168 :: "u8 list list" where
  "glyphs_168 = [
     [0b00000000, 0b00000000, 0b00010000, 0b00010000, 0b00010000, 0b01111100,
      0b00010000, 0b00010000, 0b00010000, 0b00010000, 0b00010000, 0b00001110,
      0b00000000, 0b00000100, 0b00000100, 0b00001000],
     [0b01111100, 0b00000000, 0b10000010, 0b10000010, 0b01000100, 0b01000100,
      0b00101000, 0b00010000, 0b00010000, 0b00010000, 0b00010000, 0b00010000,
      0b00000000, 0b00000000, 0b00000000, 0b00000000],
     [0b00000000, 0b00000000, 0b00000000, 0b00111100, 0b00000000, 0b01000010,
      0b01000010, 0b01000010, 0b01000010, 0b01000010, 0b01000010, 0b00111110,
      0b00000010, 0b00000010, 0b00111100, 0b00000000],
     [0b00000000, 0b00000000, 0b00000000, 0b00000000, 0b00000000, 0b00001100,
      0b00000100, 0b00000100, 0b00000100, 0b00000100, 0b00000100, 0b00000100,
      0b01000100, 0b01000100, 0b00111000, 0b00000000],
     [0b00000000, 0b00000000, 0b00000000, 0b00000000, 0b00000000, 0b00111100,
      0b01000010, 0b00000010, 0b00000010, 0b00000010, 0b01000010, 0b00111100,
      0b00000000, 0b00000000, 0b00000000, 0b00000000],
     [0b00000000, 0b00000000, 0b00000000, 0b00000000, 0b00000000, 0b00111100,
      0b01000010, 0b01000010, 0b01111110, 0b00000010, 0b00000010, 0b00111100,
      0b00000000, 0b00000000, 0b00000000, 0b00000000],
     [0b00000000, 0b00000000, 0b00000000, 0b00000000, 0b00000000, 0b00111100,
      0b00000010, 0b00000010, 0b01111110, 0b01000010, 0b01000010, 0b00111100,
      0b00000000, 0b00000000, 0b00000000, 0b00000000],
     [0b00000000, 0b00000000, 0b00000000, 0b00000000, 0b00000000, 0b00111100,
      0b01000010, 0b01000000, 0b00111000, 0b01000000, 0b01000010, 0b00111100,
      0b00000000, 0b00000000, 0b00000000, 0b00000000]]"

(* src/kernel/gfx/terminus.cpp:6628-6771 font_terminus *)
definition glyphs_170 :: "u8 list list" where
  "glyphs_170 = [
     [0b00000000, 0b00000000, 0b00000000, 0b00000000, 0b00000000, 0b01111100,
      0b01000010, 0b01000010, 0b01000010, 0b01000010, 0b01000010, 0b01000010,
      0b01000000, 0b01000000, 0b10000000, 0b00000000],
     [0b00000000, 0b00000000, 0b00000000, 0b00000000, 0b00000000, 0b01111110,
      0b00000010, 0b00000100, 0b00001000, 0b00011100, 0b00000010, 0b00000010,
      0b01000010, 0b01000010, 0b00111100, 0b00000000],
     [0b00001000, 0b00010000, 0b00010000, 0b00000000, 0b00000000, 0b00000000,
      0b00000000, 0b00000000, 0b00000000, 0b00000000, 0b00000000, 0b00000000,
      0b00000000, 0b00000000, 0b00000000, 0b00000000],
     [0b00001000, 0b00001000, 0b00010000, 0b00000000, 0b00000000, 0b00000000,
      0b00000000, 0b00000000, 0b00000000, 0b00000000, 0b00000000, 0b00000000,
      0b00000000, 0b00000000, 0b00000000, 0b00000000],
     [0b00010000, 0b00010000, 0b00001000, 0b00000000, 0b00000000, 0b00000000,
      0b00000000, 0b00000000, 0b00000000, 0b00000000, 0b00000000, 0b00000000,
      0b00000000, 0b00000000, 0b00000000, 0b00000000],
     [0b00011000, 0b00100100, 0b00000000, 0b00000000, 0b00000000, 0b00000000,
      0b00000000, 0b00000000, 0b00000000, 0b00000000, 0b00000000, 0b00000000,
      0b00000000, 0b00000000, 0b00000000, 0b00000000],
     [0b00100100, 0b00011000, 0b00000000, 0b00000000, 0b00000000, 0b00000000,
      0b00000000, 0b00000000, 0b00000000, 0b00000000, 0b00000000, 0b00000000,
      0b00000000, 0b00000000, 0b00000000, 0b00000000],
     [0b00100100, 0b00011000, 0b00000000, 0b00000000, 0b00000000, 0b00000000,
      0b00000000, 0b00000000, 0b00000000, 0b00000000, 0b00000000, 0b00000000,
      0b00000000, 0b00000000, 0b00000000, 0b00000000]]"

(* src/kernel/gfx/terminus.cpp:6772-6915 font_terminus *)
definition glyphs_178 :: "u8 list list" where
  "glyphs_178 = [
     [0b00010000, 0b00010000, 0b00000000, 0b00000000, 0b00000000, 0b00000000,
      0b00000000, 0b00000000, 0b00000000, 0b00000000, 0b00000000, 0b00000000,
      0b00000000, 0b00000000, 0b00000000, 0b00000000],
     [0b00000000, 0b00000000, 0b00000000, 0b00000000, 0b00000000, 0b00000000,
      0b00000000, 0b00000000, 0b00000000, 0b00000000, 0b00000000, 0b00000000,
      0b00000010, 0b00000100, 0b00000011, 0b00000000],
     [0b00110010, 0b01001100, 0b00000000, 0b00000000, 0b00000000, 0b00000000,
      0b00000000, 0b00000000, 0b00000000, 0b00000000, 0b00000000, 0b00000000,
      0b00000000, 0b00000000, 0b00000000, 0b00000000],
     [0b00010010, 0b00100100, 0b00000000, 0b00000000, 0b00000000, 0b00000000,
      0b00000000, 0b00000000, 0b00000000, 0b00000000, 0b00000000, 0b00000000,
      0b00000000, 0b00000000, 0b00000000, 0b00000000],
     [0b00010000, 0b00001000, 0b00000000, 0b00000000, 0b00000000, 0b00000000,
      0b00000000, 0b00000000, 0b00000000, 0b00000000, 0b00000000, 0b00000000,
      0b00000000, 0b00000000, 0b00000000, 0b00000000],
     [0b00001000, 0b00010000, 0b00000000, 0b00000000, 0b00000000, 0b00000000,
      0b00000000, 0b00000000, 0b00000000, 0b00000000, 0b00000000, 0b00000000,
      0b00000000, 0b00000000, 0b00000000, 0b00000000],
     [0b00011000, 0b00100100, 0b00000000, 0b00000000, 0b00000000, 0b00000000,
      0b00000000, 0b00000000, 0b00000000, 0b00000000, 0b00000000, 0b00000000,
      0b00000000, 0b00000000, 0b00000000, 0b00000000],
     [0b00110010, 0b01001100, 0b00000000, 0b00000000, 0b00000000, 0b00000000,
      0b00000000, 0b00000000, 0b00000000, 0b00000000, 0b00000000, 0b00000000,
      0b00000000, 0b00000000, 0b00000000, 0b00000000]]"

(* src/kernel/gfx/terminus.cpp:6916-7059 font_terminus *)
definition glyphs_180 :: "u8 list list" where
  "glyphs_180 = [
     [0b00100100, 0b00011000, 0b00000000, 0b00000000, 0b00000000, 0b00000000,
      0b00000000, 0b00000000, 0b00000000, 0b00000000, 0b00000000, 0b00000000,
      0b00000000, 0b00000000, 0b00000000, 0b00000000],
     [0b00100100, 0b00011000, 0b00000000, 0b00000000, 0b00000000, 0b00000000,
      0b00000000, 0b00000000, 0b00000000, 0b00000000, 0b00000000, 0b00000000,
      0b00000000, 0b00000000, 0b00000000, 0b00000000],
     [0b00000000, 0b00000000, 0b00000000, 0b00000000, 0b00000000, 0b00000000,
      0b00000000, 0b00000000, 0b00000000, 0b00000000, 0b00000000, 0b00000000,
      0b00000000, 0b00010000, 0b00010000, 0b00000000],
     [0b01000000, 0b10000000, 0b00000000, 0b00000000, 0b00000000, 0b00000000,
      0b00000000, 0b00000000, 0b00000000, 0b00000000, 0b00000000, 0b00000000,
      0b00000000, 0b00000000, 0b00000000, 0b00000000],
     [0b00001000, 0b00010000, 0b00000000, 0b00100100, 0b00000000, 0b00000000,
      0b00000000, 0b00000000, 0b00000000, 0b00000000, 0b00000000, 0b00000000,
      0b00000000, 0b00000000, 0b00000000, 0b00000000],
     [0b01000000, 0b10000000, 0b00111100, 0b01000010, 0b01000010, 0b01000010,
      0b01000010, 0b01111110, 0b01000010, 0b01000010, 0b01000010, 0b01000010,
      0b00000000, 0b00000000, 0b00000000, 0b00000000],
     [0b00000000, 0b00000000, 0b00000000, 0b00000000, 0b00000000, 0b00010000,
      0b00010000, 0b00000000, 0b00000000, 0b00000000, 0b00000000, 0b00000000,
      0b00000000, 0b00000000, 0b00000000, 0b00000000],
     [0b01000000, 0b10000000, 0b01111110, 0b01000000, 0b01000000, 0b01000000,
      0b01111000, 0b01000000, 0b01000000, 0b01000000, 0b01000000, 0b01111110,
      0b00000000, 0b00000000, 0b00000000, 0b00000000]]"

(* src/kernel/gfx/terminus.cpp:7060-7203 font_terminus *)
definition glyphs_188 :: "u8 list list" where
  "glyphs_188 = [
     [0b01000000, 0b10000000, 0b01000010, 0b01000010, 0b01000010, 0b01000010,
      0b01111110, 0b01000010, 0b01000010, 0b01000010, 0b01000010, 0b01000010,
      0b00000000, 0b00000000, 0b00000000, 0b00000000],
     [0b01000000, 0b10000000, 0b00111000, 0b00010000, 0b00010000, 0b00010000,
      0b00010000, 0b00010000, 0b00010000, 0b00010000, 0b00010000, 0b00111000,
      0b00000000, 0b00000000, 0b00000000, 0b00000000],
     [0b01000000, 0b10000000, 0b00111100, 0b01000010, 0b01000010, 0b01000010,
      0b01000010, 0b01000010, 0b01000010, 0b01000010, 0b01000010, 0b00111100,
      0b00000000, 0b00000000, 0b00000000, 0b00000000],
     [0b01000000, 0b10000000, 0b00000000, 0b10000010, 0b10000010, 0b01000100,
      0b01000100, 0b00101000, 0b00010000, 0b00010000, 0b00010000, 0b00010000,
      0b00000000, 0b00000000, 0b00000000, 0b00000000],
     [0b01000000, 0b10000000, 0b00111100, 0b01000010, 0b01000010, 0b01000010,
      0b01000010, 0b01000010, 0b01000010, 0b00100100, 0b00100100, 0b01100110,
      0b00000000, 0b00000000, 0b00000000, 0b00000000],
     [0b00001000, 0b00010000, 0b01001000, 0b01001000, 0b00000000, 0b00110000,
      0b00010000, 0b00010000, 0b00010000, 0b00010000, 0b00010000, 0b00001100,
      0b00000000, 0b00000000, 0b00000000, 0b00000000],
     [0b00000000, 0b00000000, 0b00111100, 0b01000010, 0b01000010, 0b01000010,
      0b01000010, 0b01111110, 0b01000010, 0b01000010, 0b01000010, 0b01000010,
      0b00000000, 0b00000000, 0b00000000, 0b00000000],
     [0b00000000, 0b00000000, 0b01111100, 0b01000010, 0b01000010, 0b01000010,
      0b01111100, 0b01000010, 0b01000010, 0b01000010, 0b01000010, 0b01111100,
      0b00000000, 0b00000000, 0b00000000, 0b00000000]]"

(* src/kernel/gfx/terminus.cpp:7204-7347 font_terminus *)
definition glyphs_190 :: "u8 list list" where
  "glyphs_190 = [
     [0b00000000, 0b00000000, 0b01111110, 0b01000000, 0b01000000, 0b01000000,
      0b01000000, 0b01000000, 0b01000000, 0b01000000, 0b01000000, 0b01000000,
      0b00000000, 0b00000000, 0b00000000, 0b00000000],
     [0b00000000, 0b00000000, 0b00010000, 0b00010000, 0b00101000, 0b00101000,
      0b01000100, 0b01000100, 0b01000100, 0b10000010, 0b10000010, 0b11111110,
      0b00000000, 0b00000000, 0b00000000, 0b00000000],
     [0b00000000, 0b00000000, 0b01111110, 0b01000000, 0b01000000, 0b01000000,
      0b01111000, 0b01000000, 0b01000000, 0b01000000, 0b01000000, 0b01111110,
      0b00000000, 0b00000000, 0b00000000, 0b00000000],
     [0b00000000, 0b00000000, 0b01111110, 0b00000010, 0b00000010, 0b00000100,
      0b00001000, 0b00010000, 0b00100000, 0b01000000, 0b01000000, 0b01111110,
      0b00000000, 0b00000000, 0b00000000, 0b00000000],
     [0b00000000, 0b00000000, 0b01000010, 0b01000010, 0b01000010, 0b01000010,
      0b01111110, 0b01000010, 0b01000010, 0b01000010, 0b01000010, 0b01000010,
      0b00000000, 0b00000000, 0b00000000, 0b00000000],
     [0b00000000, 0b00000000, 0b00111100, 0b01000010, 0b01000010, 0b01000010,
      0b01011010, 0b01000010, 0b01000010, 0b01000010, 0b01000010, 0b00111100,
      0b00000000, 0b00000000, 0b00000000, 0b00000000],
     [0b00000000, 0b00000000, 0b00111000, 0b00010000, 0b00010000, 0b00010000,
      0b00010000, 0b00010000, 0b00010000, 0b00010000, 0b00010000, 0b00111000,
      0b00000000, 0b00000000, 0b00000000, 0b00000000],
     [0b00000000, 0b00000000, 0b01000010, 0b01000100, 0b01001000, 0b01010000,
      0b01100000, 0b01100000, 0b01010000, 0b01001000, 0b01000100, 0b01000010,
      0b00000000, 0b00000000, 0b00000000, 0b00000000]]"

(* src/kernel/gfx/terminus.cpp:7348-7491 font_terminus *)
definition glyphs_198 :: "u8 list list" where
  "glyphs_198 = [
     [0b00000000, 0b00000000, 0b00010000, 0b00010000, 0b00101000, 0b00101000,
      0b01000100, 0b01000100, 0b01000100, 0b10000010, 0b10000010, 0b10000010,
      0b00000000, 0b00000000, 0b00000000, 0b00000000],
     [0b00000000, 0b00000000, 0b10000010, 0b11000110, 0b10101010, 0b10010010,
      0b10010010, 0b10000010, 0b10000010, 0b10000010, 0b10000010, 0b10000010,
      0b00000000, 0b00000000, 0b00000000, 0b00000000],
     [0b00000000, 0b00000000, 0b01000010, 0b01000010, 0b01000010, 0b01100010,
      0b01010010, 0b01001010, 0b01000110, 0b01000010, 0b01000010, 0b01000010,
      0b00000000, 0b00000000, 0b00000000, 0b00000000],
     [0b00000000, 0b00000000, 0b01111110, 0b00000000, 0b00000000, 0b00000000,
      0b00111100, 0b00000000, 0b00000000, 0b00000000, 0b00000000, 0b01111110,
      0b00000000, 0b00000000, 0b00000000, 0b00000000],
     [0b00000000, 0b00000000, 0b00111100, 0b01000010, 0b01000010, 0b01000010,
      0b01000010, 0b01000010, 0b01000010, 0b01000010, 0b01000010, 0b00111100,
      0b00000000, 0b00000000, 0b00000000, 0b00000000],
     [0b00000000, 0b00000000, 0b01111110, 0b01000010, 0b01000010, 0b01000010,
      0b01000010, 0b01000010, 0b01000010, 0b01000010, 0b01000010, 0b01000010,
      0b00000000, 0b00000000, 0b00000000, 0b00000000],
     [0b00000000, 0b00000000, 0b01111100, 0b01000010, 0b01000010, 0b01000010,
      0b01000010, 0b01111100, 0b01000000, 0b01000000, 0b01000000, 0b01000000,
      0b00000000, 0b00000000, 0b00000000, 0b00000000],
     [0b00000000, 0b00000000, 0b01111110, 0b01000000, 0b00100000, 0b00010000,
      0b00001000, 0b00001000, 0b00010000, 0b00100000, 0b01000000, 0b01111110,
      0b00000000, 0b00000000, 0b00000000, 0b00000000]]"

(* src/kernel/gfx/terminus.cpp:7492-7635 font_terminus *)
definition glyphs_1a0 :: "u8 list list" where
  "glyphs_1a0 = [
     [0b00000000, 0b00000000, 0b11111110, 0b00010000, 0b00010000, 0b00010000,
      0b00010000, 0b00010000, 0b00010000, 0b00010000, 0b00010000, 0b00010000,
      0b00000000, 0b00000000, 0b00000000, 0b00000000],
     [0b00000000, 0b00000000, 0b10000010, 0b10000010, 0b01000100, 0b01000100,
      0b00101000, 0b00010000, 0b00010000, 0b00010000, 0b00010000, 0b00010000,
      0b00000000, 0b00000000, 0b00000000, 0b00000000],
     [0b00000000, 0b00000000, 0b00010000, 0b01111100, 0b10010010, 0b10010010,
      0b10010010, 0b10010010, 0b10010010, 0b10010010, 0b01111100, 0b00010000,
      0b00000000, 0b00000000, 0b00000000, 0b00000000],
     [0b00000000, 0b00000000, 0b01000010, 0b01000010, 0b00100100, 0b00100100,
      0b00011000, 0b00011000, 0b00100100, 0b00100100, 0b01000010, 0b01000010,
      0b00000000, 0b00000000, 0b00000000, 0b00000000],
     [0b00000000, 0b00000000, 0b10010010, 0b10010010, 0b10010010, 0b10010010,
      0b10010010, 0b10010010, 0b10010010, 0b01111100, 0b00010000, 0b00010000,
      0b00000000, 0b00000000, 0b00000000, 0b00000000],
     [0b00000000, 0b00000000, 0b00111100, 0b01000010, 0b01000010, 0b01000010,
      0b01000010, 0b01000010, 0b01000010, 0b00100100, 0b00100100, 0b01100110,
      0b00000000, 0b00000000, 0b00000000, 0b00000000],
     [0b01000100, 0b01000100, 0b00000000, 0b00111000, 0b00010000, 0b00010000,
      0b00010000, 0b00010000, 0b00010000, 0b00010000, 0b00010000, 0b00111000,
      0b00000000, 0b00000000, 0b00000000, 0b00000000],
     [0b01000100, 0b01000100, 0b00000000, 0b10000010, 0b10000010, 0b01000100,
      0b01000100, 0b00101000, 0b00010000, 0b00010000, 0b00010000, 0b00010000,
      0b00000000, 0b00000000, 0b00000000, 0b00000000]]"

(* src/kernel/gfx/terminus.cpp:7636-7779 font_terminus *)
definition glyphs_1a8 :: "u8 list list" where
  "glyphs_1a8 = [
     [0b00000000, 0b00000000, 0b00001000, 0b00010000, 0b00000000, 0b00111010,
      0b01000110, 0b01000100, 0b01000100, 0b01000100, 0b01000110, 0b00111010,
      0b00000000, 0b00000000, 0b00000000, 0b00000000],
     [0b00000000, 0b00000000, 0b00001000, 0b00010000, 0b00000000, 0b00111100,
      0b01000010, 0b01000000, 0b00111000, 0b01000000, 0b01000010, 0b00111100,
      0b00000000, 0b00000000, 0b00000000, 0b00000000],
     [0b00000000, 0b00000000, 0b00001000, 0b00010000, 0b00000000, 0b01111100,
      0b01000010, 0b01000010, 0b01000010, 0b01000010, 0b01000010, 0b01000010,
      0b00000010, 0b00000010, 0b00000010, 0b00000000],
     [0b00000000, 0b00000000, 0b00001000, 0b00010000, 0b00000000, 0b00110000,
      0b00010000, 0b00010000, 0b00010000, 0b00010000, 0b00010000, 0b00001100,
      0b00000000, 0b00000000, 0b00000000, 0b00000000],
     [0b00001000, 0b00010000, 0b00000000, 0b00100100, 0b00000000, 0b01000010,
      0b01000010, 0b01000010, 0b01000010, 0b01000010, 0b01000010, 0b00111100,
      0b00000000, 0b00000000, 0b00000000, 0b00000000],
     [0b00000000, 0b00000000, 0b00000000, 0b00000000, 0b00000000, 0b00111010,
      0b01000110, 0b01000100, 0b01000100, 0b01000100, 0b01000110, 0b00111010,
      0b00000000, 0b00000000, 0b00000000, 0b00000000],
     [0b00000000, 0b00000000, 0b00111000, 0b01000100, 0b01000100, 0b01001000,
      0b01111100, 0b01000010, 0b01000010, 0b01000010, 0b01000010, 0b01111100,
      0b01000000, 0b01000000, 0b01000000, 0b00000000],
     [0b00000000, 0b00000000, 0b00000000, 0b00000000, 0b00000000, 0b10000010,
      0b10000010, 0b01000100, 0b01000100, 0b00101000, 0b00101000, 0b00010000,
      0b00010000, 0b00010000, 0b00010000, 0b00000000]]"

(* src/kernel/gfx/terminus.cpp:7780-7923 font_terminus *)
definition glyphs_1b0 :: "u8 list list" where
  "glyphs_1b0 = [
     [0b00000000, 0b00000000, 0b00111110, 0b00010000, 0b00001000, 0b00111100,
      0b01000010, 0b01000010, 0b01000010, 0b01000010, 0b01000010, 0b00111100,
      0b00000000, 0b00000000, 0b00000000, 0b00000000],
     [0b00000000, 0b00000000, 0b00000000, 0b00000000, 0b00000000, 0b00111100,
      0b01000010, 0b01000000, 0b00111000, 0b01000000, 0b01000010, 0b00111100,
      0b00000000, 0b00000000, 0b00000000, 0b00000000],
     [0b00000000, 0b00000000, 0b01111110, 0b00000100, 0b00001000, 0b00010000,
      0b00100000, 0b01000000, 0b01000000, 0b01000000, 0b01000000, 0b00111100,
      0b00000010, 0b00000010, 0b00000100, 0b00000000],
     [0b00000000, 0b00000000, 0b00000000, 0b00000000, 0b00000000, 0b01111100,
      0b01000010, 0b01000010, 0b01000010, 0b01000010, 0b01000010, 0b01000010,
      0b00000010, 0b00000010, 0b00000010, 0b00000000],
     [0b00000000, 0b00000000, 0b00111000, 0b01000100, 0b01000100, 0b01000100,
      0b01111100, 0b01000100, 0b01000100, 0b01000100, 0b01000100, 0b00111000,
      0b00000000, 0b00000000, 0b00000000, 0b00000000],
     [0b00000000, 0b00000000, 0b00000000, 0b00000000, 0b00000000, 0b00110000,
      0b00010000, 0b00010000, 0b00010000, 0b00010000, 0b00010000, 0b00001100,
      0b00000000, 0b00000000, 0b00000000, 0b00000000],
     [0b00000000, 0b00000000, 0b00000000, 0b00000000, 0b00000000, 0b01000010,
      0b01000100, 0b01001000, 0b01110000, 0b01001000, 0b01000100, 0b01000010,
      0b00000000, 0b00000000, 0b00000000, 0b00000000],
     [0b00000000, 0b00000000, 0b00100000, 0b00100000, 0b00010000, 0b00010000,
      0b00101000, 0b00101000, 0b01000100, 0b01000100, 0b10000010, 0b10000010,
      0b00000000, 0b00000000, 0b00000000, 0b00000000]]"

(* src/kernel/gfx/terminus.cpp:7924-8067 font_terminus *)
definition glyphs_1b8 :: "u8 list list" where
  "glyphs_1b8 = [
     [0b00000000, 0b00000000, 0b00000000, 0b00000000, 0b00000000, 0b01000010,
      0b01000010, 0b01000010, 0b01000010, 0b01000010, 0b01000110, 0b01111010,
      0b01000000, 0b01000000, 0b01000000, 0b00000000],
     [0b00000000, 0b00000000, 0b00000000, 0b00000000, 0b00000000, 0b01000010,
      0b01000010, 0b01000010, 0b00100100, 0b00100100, 0b00011000, 0b00011000,
      0b00000000, 0b00000000, 0b00000000, 0b00000000],
     [0b00000000, 0b00000000, 0b00111110, 0b01000000, 0b01000000, 0b01000000,
      0b00111100, 0b01000000, 0b01000000, 0b01000000, 0b01000000, 0b00111100,
      0b00000010, 0b00000010, 0b00000100, 0b00000000],
     [0b00000000, 0b00000000, 0b00000000, 0b00000000, 0b00000000, 0b00111100,
      0b01000010, 0b01000010, 0b01000010, 0b01000010, 0b01000010, 0b00111100,
      0b00000000, 0b00000000, 0b00000000, 0b00000000],
     [0b00000000, 0b00000000, 0b00000000, 0b00000000, 0b00000000, 0b01111110,
      0b01000010, 0b01000010, 0b01000010, 0b01000010, 0b01000010, 0b01000010,
      0b00000000, 0b00000000, 0b00000000, 0b00000000],
     [0b00000000, 0b00000000, 0b00000000, 0b00000000, 0b00000000, 0b00111100,
      0b01000010, 0b01000010, 0b01000010, 0b01000010, 0b01000010, 0b01111100,
      0b01000000, 0b01000000, 0b01000000, 0b00000000],
     [0b00000000, 0b00000000, 0b00000000, 0b00000000, 0b00000000, 0b00111100,
      0b01000010, 0b01000000, 0b01000000, 0b01000000, 0b01000000, 0b00111100,
      0b00000010, 0b00000010, 0b00000100, 0b00000000],
     [0b00000000, 0b00000000, 0b00000000, 0b00000000, 0b00000000, 0b00111110,
      0b01000100, 0b01000100, 0b01000100, 0b01000100, 0b01000100, 0b00111000,
      0b00000000, 0b00000000, 0b00000000, 0b00000000]]"

(* src/kernel/gfx/terminus.cpp:8068-8211 font_terminus *)
definition glyphs_1c0 :: "u8 list list" where
  "glyphs_1c0 = [
     [0b00000000, 0b00000000, 0b00000000, 0b00000000, 0b00000000, 0b11111110,
      0b00010000, 0b00010000, 0b00010000, 0b00010000, 0b00010000, 0b00001100,
      0b00000000, 0b00000000, 0b00000000, 0b00000000],
     [0b00000000, 0b00000000, 0b00000000, 0b00000000, 0b00000000, 0b01000010,
      0b01000010, 0b01000010, 0b01000010, 0b01000010, 0b01000010, 0b00111100,
      0b00000000, 0b00000000, 0b00000000, 0b00000000],
     [0b00000000, 0b00000000, 0b00000000, 0b00000000, 0b00000000, 0b01001100,
      0b10010010, 0b10010010, 0b10010010, 0b10010010, 0b10010010, 0b01111100,
      0b00010000, 0b00010000, 0b00010000, 0b00000000],
     [0b00000000, 0b00000000, 0b00000000, 0b00000000, 0b00000000, 0b01000010,
      0b01000010, 0b00100100, 0b00100100, 0b00011000, 0b00011000, 0b00100100,
      0b00100100, 0b01000010, 0b01000010, 0b00000000],
     [0b00000000, 0b00000000, 0b00000000, 0b00000000, 0b00000000, 0b10010010,
      0b10010010, 0b10010010, 0b10010010, 0b10010010, 0b10010010, 0b01111100,
      0b00010000, 0b00010000, 0b00010000, 0b00000000],
     [0b00000000, 0b00000000, 0b00000000, 0b00000000, 0b00000000, 0b01000100,
      0b10000010, 0b10010010, 0b10010010, 0b10010010, 0b10010010, 0b01101100,
      0b00000000, 0b00000000, 0b00000000, 0b00000000],
     [0b00000000, 0b00000000, 0b01001000, 0b01001000, 0b00000000, 0b00110000,
      0b00010000, 0b00010000, 0b00010000, 0b00010000, 0b00010000, 0b00001100,
      0b00000000, 0b00000000, 0b00000000, 0b00000000],
     [0b00000000, 0b00000000, 0b00100100, 0b00100100, 0b00000000, 0b01000010,
      0b01000010, 0b01000010, 0b01000010, 0b01000010, 0b01000010, 0b00111100,
      0b00000000, 0b00000000, 0b00000000, 0b00000000]]"

(* src/kernel/gfx/terminus.cpp:8212-8355 font_terminus *)
definition glyphs_1c8 :: "u8 list list" where
  "glyphs_1c8 = [
     [0b00000000, 0b00000000, 0b00001000, 0b00010000, 0b00000000, 0b00111100,
      0b01000010, 0b01000010, 0b01000010, 0b01000010, 0b01000010, 0b00111100,
      0b00000000, 0b00000000, 0b00000000, 0b00000000],
     [0b00000000, 0b00000000, 0b00001000, 0b00010000, 0b00000000, 0b01000010,
      0b01000010, 0b01000010, 0b01000010, 0b01000010, 0b01000010, 0b00111100,
      0b00000000, 0b00000000, 0b00000000, 0b00000000],
     [0b00000000, 0b00000000, 0b00001000, 0b00010000, 0b00000000, 0b01000100,
      0b10000010, 0b10010010, 0b10010010, 0b10010010, 0b10010010, 0b01101100,
      0b00000000, 0b00000000, 0b00000000, 0b00000000],
     [0b00000000, 0b00000000, 0b00000100, 0b00000100, 0b00000000, 0b00001100,
      0b00000100, 0b00000100, 0b00000100, 0b00000100, 0b00000100, 0b00000100,
      0b01000100, 0b01000100, 0b00111000, 0b00000000],
     [0b00000000, 0b00000000, 0b00111100, 0b01000010, 0b01000010, 0b01000010,
      0b01111110, 0b01000010, 0b01000010, 0b01000010, 0b01000010, 0b00111100,
      0b00000000, 0b00000000, 0b00000000, 0b00000000],
     [0b00010000, 0b00001000, 0b00000000, 0b01111110, 0b01000000, 0b01000000,
      0b01000000, 0b01111000, 0b01000000, 0b01000000, 0b01000000, 0b01111110,
      0b00000000, 0b00000000, 0b00000000, 0b00000000],
     [0b00100100, 0b00100100, 0b00000000, 0b01111110, 0b01000000, 0b01000000,
      0b01000000, 0b01111000, 0b01000000, 0b01000000, 0b01000000, 0b01111110,
      0b00000000, 0b00000000, 0b00000000, 0b00000000],
     [0b00000000, 0b00000000, 0b11111000, 0b00100000, 0b00100000, 0b00111100,
      0b00100010, 0b00100010, 0b00100010, 0b00100010, 0b00100010, 0b00100100,
      0b00000000, 0b00000000, 0b00000000, 0b00000000]]"

(* src/kernel/gfx/terminus.cpp:8356-8499 font_terminus *)
definition glyphs_1d0 :: "u8 list list" where
  "glyphs_1d0 = [
     [0b00001000, 0b00010000, 0b00000000, 0b01111110, 0b01000000, 0b01000000,
      0b01000000, 0b01000000, 0b01000000, 0b01000000, 0b01000000, 0b01000000,
      0b00000000, 0b00000000, 0b00000000, 0b00000000],
     [0b00000000, 0b00000000, 0b00111100, 0b01000010, 0b01000000, 0b01000000,
      0b01111000, 0b01000000, 0b01000000, 0b01000000, 0b01000010, 0b00111100,
      0b00000000, 0b00000000, 0b00000000, 0b00000000],
     [0b00000000, 0b00000000, 0b00111100, 0b01000010, 0b01000000, 0b01000000,
      0b00111100, 0b00000010, 0b00000010, 0b01000010, 0b01000010, 0b00111100,
      0b00000000, 0b00000000, 0b00000000, 0b00000000],
     [0b00000000, 0b00000000, 0b00111000, 0b00010000, 0b00010000, 0b00010000,
      0b00010000, 0b00010000, 0b00010000, 0b00010000, 0b00010000, 0b00111000,
      0b00000000, 0b00000000, 0b00000000, 0b00000000],
     [0b01000100, 0b01000100, 0b00000000, 0b00111000, 0b00010000, 0b00010000,
      0b00010000, 0b00010000, 0b00010000, 0b00010000, 0b00010000, 0b00111000,
      0b00000000, 0b00000000, 0b00000000, 0b00000000],
     [0b00000000, 0b00000000, 0b00001110, 0b00000100, 0b00000100, 0b00000100,
      0b00000100, 0b00000100, 0b00000100, 0b01000100, 0b01000100, 0b00111000,
      0b00000000, 0b00000000, 0b00000000, 0b00000000],
     [0b00000000, 0b00000000, 0b00110000, 0b01010000, 0b10010000, 0b10011100,
      0b10010010, 0b10010010, 0b10010010, 0b10010010, 0b10010010, 0b10011100,
      0b00000000, 0b00000000, 0b00000000, 0b00000000],
     [0b00000000, 0b00000000, 0b10010000, 0b10010000, 0b10010000, 0b10011100,
      0b11110010, 0b10010010, 0b10010010, 0b10010010, 0b10010010, 0b10011100,
      0b00000000, 0b00000000, 0b00000000, 0b00000000]]"

(* src/kernel/gfx/terminus.cpp:8500-8643 font_terminus *)
definition glyphs_1d8 :: "u8 list list" where
  "glyphs_1d8 = [
     [0b00000000, 0b00000000, 0b11111000, 0b00100000, 0b00100000, 0b00111100,
      0b00100010, 0b00100010, 0b00100010, 0b00100010, 0b00100010, 0b00100010,
      0b00000000, 0b00000000, 0b00000000, 0b00000000],
     [0b00001000, 0b00010000, 0b01000010, 0b01000100, 0b01001000, 0b01010000,
      0b01100000, 0b01100000, 0b01010000, 0b01001000, 0b01000100, 0b01000010,
      0b00000000, 0b00000000, 0b00000000, 0b00000000],
     [0b00010000, 0b00001000, 0b01000010, 0b01000010, 0b01000010, 0b01000110,
      0b01001010, 0b01010010, 0b01100010, 0b01000010, 0b01000010, 0b01000010,
      0b00000000, 0b00000000, 0b00000000, 0b00000000],
     [0b00100100, 0b00011000, 0b01000010, 0b01000010, 0b01000010, 0b01000010,
      0b01000010, 0b00111110, 0b00000010, 0b00000010, 0b00000010, 0b00111100,
      0b00000000, 0b00000000, 0b00000000, 0b00000000],
     [0b00000000, 0b00000000, 0b01000010, 0b01000010, 0b01000010, 0b01000010,
      0b01000010, 0b01000010, 0b01000010, 0b01000010, 0b01000010, 0b01111110,
      0b00011000, 0b00011000, 0b00000000, 0b00000000],
     [0b00000000, 0b00000000, 0b00111100, 0b01000010, 0b01000010, 0b01000010,
      0b01000010, 0b01111110, 0b01000010, 0b01000010, 0b01000010, 0b01000010,
      0b00000000, 0b00000000, 0b00000000, 0b00000000],
     [0b00000000, 0b00000000, 0b01111100, 0b01000000, 0b01000000, 0b01111100,
      0b01000010, 0b01000010, 0b01000010, 0b01000010, 0b01000010, 0b01111100,
      0b00000000, 0b00000000, 0b00000000, 0b00000000],
     [0b00000000, 0b00000000, 0b01111100, 0b01000010, 0b01000010, 0b01000010,
      0b01111100, 0b01000010, 0b01000010, 0b01000010, 0b01000010, 0b01111100,
      0b00000000, 0b00000000, 0b00000000, 0b00000000]]"

(* src/kernel/gfx/terminus.cpp:8644-8787 font_terminus *)
definition glyphs_1e0 :: "u8 list list" where
  "glyphs_1e0 = [
     [0b00000000, 0b00000000, 0b01111110, 0b01000000, 0b01000000, 0b01000000,
      0b01000000, 0b01000000, 0b01000000, 0b01000000, 0b01000000, 0b01000000,
      0b00000000, 0b00000000, 0b00000000, 0b00000000],
     [0b00000000, 0b00000000, 0b00111100, 0b01000100, 0b01000100, 0b01000100,
      0b01000100, 0b01000100, 0b01000100, 0b01000100, 0b01000100, 0b11111110,
      0b10000010, 0b00000000, 0b00000000, 0b00000000],
     [0b00000000, 0b00000000, 0b01111110, 0b01000000, 0b01000000, 0b01000000,
      0b01111000, 0b01000000, 0b01000000, 0b01000000, 0b01000000, 0b01111110,
      0b00000000, 0b00000000, 0b00000000, 0b00000000],
     [0b00000000, 0b00000000, 0b10010010, 0b10010010, 0b10010010, 0b01010100,
      0b00111000, 0b01010100, 0b10010010, 0b10010010, 0b10010010, 0b10010010,
      0b00000000, 0b00000000, 0b00000000, 0b00000000],
     [0b00000000, 0b00000000, 0b00111100, 0b01000010, 0b01000010, 0b00000010,
      0b00011100, 0b00000010, 0b00000010, 0b01000010, 0b01000010, 0b00111100,
      0b00000000, 0b00000000, 0b00000000, 0b00000000],
     [0b00000000, 0b00000000, 0b01000010, 0b01000010, 0b01000010, 0b01000110,
      0b01001010, 0b01010010, 0b01100010, 0b01000010, 0b01000010, 0b01000010,
      0b00000000, 0b00000000, 0b00000000, 0b00000000],
     [0b00100100, 0b00011000, 0b01000010, 0b01000010, 0b01000010, 0b01000110,
      0b01001010, 0b01010010, 0b01100010, 0b01000010, 0b01000010, 0b01000010,
      0b00000000, 0b00000000, 0b00000000, 0b00000000],
     [0b00000000, 0b00000000, 0b01000010, 0b01000100, 0b01001000, 0b01010000,
      0b01100000, 0b01100000, 0b01010000, 0b01001000, 0b01000100, 0b01000010,
      0b00000000, 0b00000000, 0b00000000, 0b00000000]]"

(* src/kernel/gfx/terminus.cpp:8788-8931 font_terminus *)
definition glyphs_1e8 :: "u8 list list" where
  "glyphs_1e8 = [
     [0b00000000, 0b00000000, 0b00001110, 0b00010010, 0b00100010, 0b00100010,
      0b00100010, 0b00100010, 0b00100010, 0b00100010, 0b00100010, 0b01000010,
      0b00000000, 0b00000000, 0b00000000, 0b00000000],
     [0b00000000, 0b00000000, 0b10000010, 0b11000110, 0b10101010, 0b10010010,
      0b10010010, 0b10000010, 0b10000010, 0b10000010, 0b10000010, 0b10000010,
      0b00000000, 0b00000000, 0b00000000, 0b00000000],
     [0b00000000, 0b00000000, 0b01000010, 0b01000010, 0b01000010, 0b01000010,
      0b01111110, 0b01000010, 0b01000010, 0b01000010, 0b01000010, 0b01000010,
      0b00000000, 0b00000000, 0b00000000, 0b00000000],
     [0b00000000, 0b00000000, 0b00111100, 0b01000010, 0b01000010, 0b01000010,
      0b01000010, 0b01000010, 0b01000010, 0b01000010, 0b01000010, 0b00111100,
      0b00000000, 0b00000000, 0b00000000, 0b00000000],
     [0b00000000, 0b00000000, 0b01111110, 0b01000010, 0b01000010, 0b01000010,
      0b01000010, 0b01000010, 0b01000010, 0b01000010, 0b01000010, 0b01000010,
      0b00000000, 0b00000000, 0b00000000, 0b00000000],
     [0b00000000, 0b00000000, 0b01111100, 0b01000010, 0b01000010, 0b01000010,
      0b01000010, 0b01111100, 0b01000000, 0b01000000, 0b01000000, 0b01000000,
      0b00000000, 0b00000000, 0b00000000, 0b00000000],
     [0b00000000, 0b00000000, 0b00111100, 0b01000010, 0b01000010, 0b01000000,
      0b01000000, 0b01000000, 0b01000000, 0b01000010, 0b01000010, 0b00111100,
      0b00000000, 0b00000000, 0b00000000, 0b00000000],
     [0b00000000, 0b00000000, 0b11111110, 0b00010000, 0b00010000, 0b00010000,
      0b00010000, 0b00010000, 0b00010000, 0b00010000, 0b00010000, 0b00010000,
      0b00000000, 0b00000000, 0b00000000, 0b00000000]]"

(* src/kernel/gfx/terminus.cpp:8932-9075 font_terminus *)
definition glyphs_1f0 :: "u8 list list" where
  "glyphs_1f0 = [
     [0b00000000, 0b00000000, 0b01000010, 0b01000010, 0b01000010, 0b01000010,
      0b01000010, 0b00111110, 0b00000010, 0b00000010, 0b00000010, 0b00111100,
      0b00000000, 0b00000000, 0b00000000, 0b00000000],
     [0b00000000, 0b00010000, 0b01111100, 0b10010010, 0b10010010, 0b10010010,
      0b10010010, 0b10010010, 0b10010010, 0b10010010, 0b10010010, 0b01111100,
      0b00010000, 0b00000000, 0b00000000, 0b00000000],
     [0b00000000, 0b00000000, 0b01000010, 0b01000010, 0b00100100, 0b00100100,
      0b00011000, 0b00011000, 0b00100100, 0b00100100, 0b01000010, 0b01000010,
      0b00000000, 0b00000000, 0b00000000, 0b00000000],
     [0b00000000, 0b00000000, 0b01000010, 0b01000010, 0b01000010, 0b01000010,
      0b01000010, 0b01000010, 0b01000010, 0b01000010, 0b01000010, 0b00111111,
      0b00000001, 0b00000001, 0b00000000, 0b00000000],
     [0b00000000, 0b00000000, 0b01000010, 0b01000010, 0b01000010, 0b01000010,
      0b01000010, 0b00111110, 0b00000010, 0b00000010, 0b00000010, 0b00000010,
      0b00000000, 0b00000000, 0b00000000, 0b00000000],
     [0b00000000, 0b00000000, 0b10010010, 0b10010010, 0b10010010, 0b10010010,
      0b10010010, 0b10010010, 0b10010010, 0b10010010, 0b10010010, 0b01111110,
      0b00000000, 0b00000000, 0b00000000, 0b00000000],
     [0b00000000, 0b00000000, 0b10010010, 0b10010010, 0b10010010, 0b10010010,
      0b10010010, 0b10010010, 0b10010010, 0b10010010, 0b10010010, 0b01111111,
      0b00000001, 0b00000001, 0b00000000, 0b00000000],
     [0b00000000, 0b00000000, 0b11000000, 0b01000000, 0b01000000, 0b01111100,
      0b01000010, 0b01000010, 0b01000010, 0b01000010, 0b01000010, 0b01111100,
      0b00000000, 0b00000000, 0b00000000, 0b00000000]]"

(* src/kernel/gfx/terminus.cpp:9076-9219 font_terminus *)
definition glyphs_1f8 :: "u8 list list" where
  "glyphs_1f8 = [
     [0b00000000, 0b00000000, 0b10000010, 0b10000010, 0b10000010, 0b11110010,
      0b10001010, 0b10001010, 0b10001010, 0b10001010, 0b10001010, 0b11110010,
      0b00000000, 0b00000000, 0b00000000, 0b00000000],
     [0b00000000, 0b00000000, 0b01000000, 0b01000000, 0b01000000, 0b01111100,
      0b01000010, 0b01000010, 0b01000010, 0b01000010, 0b01000010, 0b01111100,
      0b00000000, 0b00000000, 0b00000000, 0b00000000],
     [0b00000000, 0b00000000, 0b00111100, 0b01000010, 0b00000010, 0b00000010,
      0b00011110, 0b00000010, 0b00000010, 0b00000010, 0b01000010, 0b00111100,
      0b00000000, 0b00000000, 0b00000000, 0b00000000],
     [0b00000000, 0b00000000, 0b10001100, 0b10010010, 0b10010010, 0b10010010,
      0b10010010, 0b11110010, 0b10010010, 0b10010010, 0b10010010, 0b10001100,
      0b00000000, 0b00000000, 0b00000000, 0b00000000],
     [0b00000000, 0b00000000, 0b00111110, 0b01000010, 0b01000010, 0b01000010,
      0b01000010, 0b00111110, 0b00001010, 0b00010010, 0b00100010, 0b01000010,
      0b00000000, 0b00000000, 0b00000000, 0b00000000],
     [0b00000000, 0b00000000, 0b00000000, 0b00000000, 0b00000000, 0b00111100,
      0b00000010, 0b00111110, 0b01000010, 0b01000010, 0b01000010, 0b00111110,
      0b00000000, 0b00000000, 0b00000000, 0b00000000],
     [0b00000000, 0b00000000, 0b00111100, 0b01000000, 0b01000000, 0b01111100,
      0b01000010, 0b01000010, 0b01000010, 0b01000010, 0b01000010, 0b01111100,
      0b00000000, 0b00000000, 0b00000000, 0b00000000],
     [0b00000000, 0b00000000, 0b00111000, 0b01000100, 0b01000100, 0b01001000,
      0b01111100, 0b01000010, 0b01000010, 0b01000010, 0b01000010, 0b01111100,
      0b00000000, 0b00000000, 0b00000000, 0b00000000]]"

definition glyphs_from_256 :: "u8 list list" where
  "glyphs_from_256 = glyphs_100 @ glyphs_108 @ glyphs_110 @ glyphs_118 @ glyphs_120 @ glyphs_128 @ 
     glyphs_130 @ glyphs_138 @ glyphs_140 @ glyphs_148 @ glyphs_150 @ glyphs_158 @ 
     glyphs_160 @ glyphs_168 @ glyphs_170 @ glyphs_178 @ glyphs_180 @ glyphs_188 @ 
     glyphs_190 @ glyphs_198 @ glyphs_1a0 @ glyphs_1a8 @ glyphs_1b0 @ glyphs_1b8 @ 
     glyphs_1c0 @ glyphs_1c8 @ glyphs_1d0 @ glyphs_1d8 @ glyphs_1e0 @ glyphs_1e8 @ 
     glyphs_1f0 @ glyphs_1f8"

section \<open>Its shape\<close>

lemma shape_100: "glyph_block glyphs_100" "glyph_block glyphs_108" "glyph_block glyphs_110" "glyph_block glyphs_118"
  by (simp_all add: glyph_block_def glyphs_100_def glyphs_108_def glyphs_110_def glyphs_118_def eval_nat_numeral)

lemma shape_120: "glyph_block glyphs_120" "glyph_block glyphs_128" "glyph_block glyphs_130" "glyph_block glyphs_138"
  by (simp_all add: glyph_block_def glyphs_120_def glyphs_128_def glyphs_130_def glyphs_138_def eval_nat_numeral)

lemma shape_140: "glyph_block glyphs_140" "glyph_block glyphs_148" "glyph_block glyphs_150" "glyph_block glyphs_158"
  by (simp_all add: glyph_block_def glyphs_140_def glyphs_148_def glyphs_150_def glyphs_158_def eval_nat_numeral)

lemma shape_160: "glyph_block glyphs_160" "glyph_block glyphs_168" "glyph_block glyphs_170" "glyph_block glyphs_178"
  by (simp_all add: glyph_block_def glyphs_160_def glyphs_168_def glyphs_170_def glyphs_178_def eval_nat_numeral)

lemma shape_180: "glyph_block glyphs_180" "glyph_block glyphs_188" "glyph_block glyphs_190" "glyph_block glyphs_198"
  by (simp_all add: glyph_block_def glyphs_180_def glyphs_188_def glyphs_190_def glyphs_198_def eval_nat_numeral)

lemma shape_1a0: "glyph_block glyphs_1a0" "glyph_block glyphs_1a8" "glyph_block glyphs_1b0" "glyph_block glyphs_1b8"
  by (simp_all add: glyph_block_def glyphs_1a0_def glyphs_1a8_def glyphs_1b0_def glyphs_1b8_def eval_nat_numeral)

lemma shape_1c0: "glyph_block glyphs_1c0" "glyph_block glyphs_1c8" "glyph_block glyphs_1d0" "glyph_block glyphs_1d8"
  by (simp_all add: glyph_block_def glyphs_1c0_def glyphs_1c8_def glyphs_1d0_def glyphs_1d8_def eval_nat_numeral)

lemma shape_1e0: "glyph_block glyphs_1e0" "glyph_block glyphs_1e8" "glyph_block glyphs_1f0" "glyph_block glyphs_1f8"
  by (simp_all add: glyph_block_def glyphs_1e0_def glyphs_1e8_def glyphs_1f0_def glyphs_1f8_def eval_nat_numeral)

lemmas shapes_256 = shape_100 shape_120 shape_140 shape_160 shape_180 shape_1a0 shape_1c0 shape_1e0

lemma glyphs_from_256_length [simp]: "length glyphs_from_256 = 256"
  using shapes_256 [THEN glyph_blockD(1)] by (simp add: glyphs_from_256_def)

lemma glyphs_from_256_rows: "g \<in> set glyphs_from_256 \<Longrightarrow> length g = 16"
  using shapes_256 [THEN glyph_blockD(2)] by (auto simp: glyphs_from_256_def)

end
