(* ===== verification/Font_512.thy ===== *)
theory Font_512
  imports Font_256
begin

text \<open>
  The entries 512 to 767 of the table of \<open>kernel/gfx/terminus.cpp\<close>: Cyrillic letters, punctuation, signs and
  lines of frames, U+0433 to U+2522.
\<close>

section \<open>The table, continued\<close>

(* src/kernel/gfx/terminus.cpp:9220-9363 font_terminus *)
definition glyphs_200 :: "u8 list list" where
  "glyphs_200 = [
     [0b00000000, 0b00000000, 0b00000000, 0b00000000, 0b00000000, 0b00111100,
      0b00000010, 0b00000010, 0b00111100, 0b01000000, 0b01000000, 0b00111100,
      0b00000000, 0b00000000, 0b00000000, 0b00000000],
     [0b00000000, 0b00000000, 0b00000000, 0b00000000, 0b00000000, 0b00111110,
      0b01000010, 0b01000010, 0b01000010, 0b01000010, 0b01000010, 0b00111110,
      0b00000010, 0b00000010, 0b00111100, 0b00000000],
     [0b00000000, 0b00000000, 0b00000000, 0b00000000, 0b00000000, 0b00111100,
      0b01000010, 0b01000010, 0b01111110, 0b01000000, 0b01000000, 0b00111100,
      0b00000000, 0b00000000, 0b00000000, 0b00000000],
     [0b00000000, 0b00000000, 0b00000000, 0b00000000, 0b00000000, 0b10010010,
      0b10010010, 0b01010100, 0b00111000, 0b01010100, 0b10010010, 0b10010010,
      0b00000000, 0b00000000, 0b00000000, 0b00000000],
     [0b00000000, 0b00000000, 0b00000000, 0b00000000, 0b00000000, 0b00111100,
      0b01000010, 0b00000010, 0b00011100, 0b00000010, 0b01000010, 0b00111100,
      0b00000000, 0b00000000, 0b00000000, 0b00000000],
     [0b00000000, 0b00000000, 0b00000000, 0b00000000, 0b00000000, 0b01000010,
      0b01000010, 0b01000010, 0b01000010, 0b01000010, 0b01000010, 0b00111110,
      0b00000000, 0b00000000, 0b00000000, 0b00000000],
     [0b00000000, 0b00000000, 0b00100100, 0b00011000, 0b00000000, 0b01000010,
      0b01000010, 0b01000010, 0b01000010, 0b01000010, 0b01000010, 0b00111110,
      0b00000000, 0b00000000, 0b00000000, 0b00000000],
     [0b00000000, 0b00000000, 0b00000000, 0b00000000, 0b00000000, 0b01000010,
      0b01000100, 0b01001000, 0b01110000, 0b01001000, 0b01000100, 0b01000010,
      0b00000000, 0b00000000, 0b00000000, 0b00000000]]"

(* src/kernel/gfx/terminus.cpp:9364-9507 font_terminus *)
definition glyphs_208 :: "u8 list list" where
  "glyphs_208 = [
     [0b00000000, 0b00000000, 0b00000000, 0b00000000, 0b00000000, 0b00011110,
      0b00100010, 0b00100010, 0b00100010, 0b00100010, 0b00100010, 0b01000010,
      0b00000000, 0b00000000, 0b00000000, 0b00000000],
     [0b00000000, 0b00000000, 0b00000000, 0b00000000, 0b00000000, 0b10000010,
      0b11000110, 0b10101010, 0b10010010, 0b10000010, 0b10000010, 0b10000010,
      0b00000000, 0b00000000, 0b00000000, 0b00000000],
     [0b00000000, 0b00000000, 0b00000000, 0b00000000, 0b00000000, 0b01000010,
      0b01000010, 0b01000010, 0b01111110, 0b01000010, 0b01000010, 0b01000010,
      0b00000000, 0b00000000, 0b00000000, 0b00000000],
     [0b00000000, 0b00000000, 0b00000000, 0b00000000, 0b00000000, 0b00111100,
      0b01000010, 0b01000010, 0b01000010, 0b01000010, 0b01000010, 0b00111100,
      0b00000000, 0b00000000, 0b00000000, 0b00000000],
     [0b00000000, 0b00000000, 0b00000000, 0b00000000, 0b00000000, 0b01111110,
      0b01000010, 0b01000010, 0b01000010, 0b01000010, 0b01000010, 0b01000010,
      0b00000000, 0b00000000, 0b00000000, 0b00000000],
     [0b00000000, 0b00000000, 0b00000000, 0b00000000, 0b00000000, 0b01111100,
      0b01000010, 0b01000010, 0b01000010, 0b01000010, 0b01000010, 0b01111100,
      0b01000000, 0b01000000, 0b01000000, 0b00000000],
     [0b00000000, 0b00000000, 0b00000000, 0b00000000, 0b00000000, 0b00111100,
      0b01000010, 0b01000000, 0b01000000, 0b01000000, 0b01000010, 0b00111100,
      0b00000000, 0b00000000, 0b00000000, 0b00000000],
     [0b00000000, 0b00000000, 0b00000000, 0b00000000, 0b00000000, 0b11111110,
      0b00010000, 0b00010000, 0b00010000, 0b00010000, 0b00010000, 0b00010000,
      0b00000000, 0b00000000, 0b00000000, 0b00000000]]"

(* src/kernel/gfx/terminus.cpp:9508-9651 font_terminus *)
definition glyphs_210 :: "u8 list list" where
  "glyphs_210 = [
     [0b00000000, 0b00000000, 0b00000000, 0b00000000, 0b00000000, 0b01000010,
      0b01000010, 0b01000010, 0b01000010, 0b01000010, 0b01000010, 0b00111110,
      0b00000010, 0b00000010, 0b00111100, 0b00000000],
     [0b00000000, 0b00000000, 0b00000000, 0b00000000, 0b00010000, 0b01111100,
      0b10010010, 0b10010010, 0b10010010, 0b10010010, 0b10010010, 0b01111100,
      0b00010000, 0b00000000, 0b00000000, 0b00000000],
     [0b00000000, 0b00000000, 0b00000000, 0b00000000, 0b00000000, 0b01000010,
      0b01000010, 0b00100100, 0b00011000, 0b00100100, 0b01000010, 0b01000010,
      0b00000000, 0b00000000, 0b00000000, 0b00000000],
     [0b00000000, 0b00000000, 0b00000000, 0b00000000, 0b00000000, 0b01000010,
      0b01000010, 0b01000010, 0b01000010, 0b01000010, 0b01000010, 0b00111111,
      0b00000001, 0b00000001, 0b00000000, 0b00000000],
     [0b00000000, 0b00000000, 0b00000000, 0b00000000, 0b00000000, 0b01000010,
      0b01000010, 0b01000010, 0b00111110, 0b00000010, 0b00000010, 0b00000010,
      0b00000000, 0b00000000, 0b00000000, 0b00000000],
     [0b00000000, 0b00000000, 0b00000000, 0b00000000, 0b00000000, 0b10010010,
      0b10010010, 0b10010010, 0b10010010, 0b10010010, 0b10010010, 0b01111110,
      0b00000000, 0b00000000, 0b00000000, 0b00000000],
     [0b00000000, 0b00000000, 0b00000000, 0b00000000, 0b00000000, 0b10010010,
      0b10010010, 0b10010010, 0b10010010, 0b10010010, 0b10010010, 0b01111111,
      0b00000001, 0b00000001, 0b00000000, 0b00000000],
     [0b00000000, 0b00000000, 0b00000000, 0b00000000, 0b00000000, 0b01100000,
      0b00100000, 0b00111100, 0b00100010, 0b00100010, 0b00100010, 0b00111100,
      0b00000000, 0b00000000, 0b00000000, 0b00000000]]"

(* src/kernel/gfx/terminus.cpp:9652-9795 font_terminus *)
definition glyphs_218 :: "u8 list list" where
  "glyphs_218 = [
     [0b00000000, 0b00000000, 0b00000000, 0b00000000, 0b00000000, 0b10000010,
      0b10000010, 0b11110010, 0b10001010, 0b10001010, 0b10001010, 0b11110010,
      0b00000000, 0b00000000, 0b00000000, 0b00000000],
     [0b00000000, 0b00000000, 0b00000000, 0b00000000, 0b00000000, 0b01000000,
      0b01000000, 0b01111000, 0b01000100, 0b01000100, 0b01000100, 0b01111000,
      0b00000000, 0b00000000, 0b00000000, 0b00000000],
     [0b00000000, 0b00000000, 0b00000000, 0b00000000, 0b00000000, 0b00111100,
      0b01000010, 0b00000010, 0b00011110, 0b00000010, 0b01000010, 0b00111100,
      0b00000000, 0b00000000, 0b00000000, 0b00000000],
     [0b00000000, 0b00000000, 0b00000000, 0b00000000, 0b00000000, 0b10001100,
      0b10010010, 0b10010010, 0b11110010, 0b10010010, 0b10010010, 0b10001100,
      0b00000000, 0b00000000, 0b00000000, 0b00000000],
     [0b00000000, 0b00000000, 0b00000000, 0b00000000, 0b00000000, 0b00111110,
      0b01000010, 0b01000010, 0b00111110, 0b00010010, 0b00100010, 0b01000010,
      0b00000000, 0b00000000, 0b00000000, 0b00000000],
     [0b00000000, 0b00000000, 0b00010000, 0b00001000, 0b00000000, 0b00111100,
      0b01000010, 0b01000010, 0b01111110, 0b01000000, 0b01000000, 0b00111100,
      0b00000000, 0b00000000, 0b00000000, 0b00000000],
     [0b00000000, 0b00000000, 0b00100100, 0b00100100, 0b00000000, 0b00111100,
      0b01000010, 0b01000010, 0b01111110, 0b01000000, 0b01000000, 0b00111100,
      0b00000000, 0b00000000, 0b00000000, 0b00000000],
     [0b00000000, 0b00000000, 0b01000000, 0b11111000, 0b01000000, 0b01111100,
      0b01000010, 0b01000010, 0b01000010, 0b01000010, 0b01000010, 0b01000010,
      0b00000010, 0b00000010, 0b00001100, 0b00000000]]"

(* src/kernel/gfx/terminus.cpp:9796-9939 font_terminus *)
definition glyphs_220 :: "u8 list list" where
  "glyphs_220 = [
     [0b00000000, 0b00000000, 0b00001000, 0b00010000, 0b00000000, 0b00111100,
      0b00000010, 0b00000010, 0b00111100, 0b01000000, 0b01000000, 0b00111100,
      0b00000000, 0b00000000, 0b00000000, 0b00000000],
     [0b00000000, 0b00000000, 0b00000000, 0b00000000, 0b00000000, 0b00111100,
      0b01000010, 0b01000000, 0b01111000, 0b01000000, 0b01000010, 0b00111100,
      0b00000000, 0b00000000, 0b00000000, 0b00000000],
     [0b00000000, 0b00000000, 0b00000000, 0b00000000, 0b00000000, 0b00111110,
      0b01000000, 0b01000000, 0b00111100, 0b00000010, 0b00000010, 0b01111100,
      0b00000000, 0b00000000, 0b00000000, 0b00000000],
     [0b00000000, 0b00000000, 0b00010000, 0b00010000, 0b00000000, 0b00110000,
      0b00010000, 0b00010000, 0b00010000, 0b00010000, 0b00010000, 0b00111000,
      0b00000000, 0b00000000, 0b00000000, 0b00000000],
     [0b00000000, 0b00000000, 0b01001000, 0b01001000, 0b00000000, 0b00110000,
      0b00010000, 0b00010000, 0b00010000, 0b00010000, 0b00010000, 0b00111000,
      0b00000000, 0b00000000, 0b00000000, 0b00000000],
     [0b00000000, 0b00000000, 0b00000100, 0b00000100, 0b00000000, 0b00001100,
      0b00000100, 0b00000100, 0b00000100, 0b00000100, 0b00000100, 0b00000100,
      0b01000100, 0b01000100, 0b00111000, 0b00000000],
     [0b00000000, 0b00000000, 0b00000000, 0b00000000, 0b00000000, 0b01110000,
      0b10010000, 0b10011100, 0b10010010, 0b10010010, 0b10010010, 0b10011100,
      0b00000000, 0b00000000, 0b00000000, 0b00000000],
     [0b00000000, 0b00000000, 0b00000000, 0b00000000, 0b00000000, 0b10010000,
      0b10010000, 0b10011100, 0b11110010, 0b10010010, 0b10010010, 0b10011100,
      0b00000000, 0b00000000, 0b00000000, 0b00000000]]"

(* src/kernel/gfx/terminus.cpp:9940-10083 font_terminus *)
definition glyphs_228 :: "u8 list list" where
  "glyphs_228 = [
     [0b00000000, 0b00000000, 0b01000000, 0b11111000, 0b01000000, 0b01111100,
      0b01000010, 0b01000010, 0b01000010, 0b01000010, 0b01000010, 0b01000010,
      0b00000000, 0b00000000, 0b00000000, 0b00000000],
     [0b00000000, 0b00000000, 0b00001000, 0b00010000, 0b00000000, 0b01000010,
      0b01000100, 0b01001000, 0b01110000, 0b01001000, 0b01000100, 0b01000010,
      0b00000000, 0b00000000, 0b00000000, 0b00000000],
     [0b00000000, 0b00000000, 0b00010000, 0b00001000, 0b00000000, 0b01000010,
      0b01000010, 0b01000010, 0b01000010, 0b01000010, 0b01000010, 0b00111110,
      0b00000000, 0b00000000, 0b00000000, 0b00000000],
     [0b00000000, 0b00000000, 0b00100100, 0b00011000, 0b00000000, 0b01000010,
      0b01000010, 0b01000010, 0b01000010, 0b01000010, 0b01000010, 0b00111110,
      0b00000010, 0b00000010, 0b00111100, 0b00000000],
     [0b00000000, 0b00000000, 0b00000000, 0b00000000, 0b00000000, 0b01000010,
      0b01000010, 0b01000010, 0b01000010, 0b01000010, 0b01000010, 0b01111110,
      0b00011000, 0b00011000, 0b00000000, 0b00000000],
     [0b00000010, 0b00000010, 0b01111110, 0b01000000, 0b01000000, 0b01000000,
      0b01000000, 0b01000000, 0b01000000, 0b01000000, 0b01000000, 0b01000000,
      0b00000000, 0b00000000, 0b00000000, 0b00000000],
     [0b00000000, 0b00000000, 0b00000000, 0b00100000, 0b00100000, 0b00111100,
      0b00000010, 0b00000010, 0b00111100, 0b01000000, 0b01000000, 0b00111100,
      0b00000000, 0b00000000, 0b00000000, 0b00000000],
     [0b00000000, 0b00000000, 0b01111110, 0b01000000, 0b01000000, 0b01000000,
      0b11111000, 0b01000000, 0b01000000, 0b01000000, 0b01000000, 0b01000000,
      0b00000000, 0b00000000, 0b00000000, 0b00000000]]"

(* src/kernel/gfx/terminus.cpp:10084-10227 font_terminus *)
definition glyphs_230 :: "u8 list list" where
  "glyphs_230 = [
     [0b00000000, 0b00000000, 0b00000000, 0b00000000, 0b00000000, 0b01111110,
      0b01000000, 0b01000000, 0b11111000, 0b01000000, 0b01000000, 0b01000000,
      0b00000000, 0b00000000, 0b00000000, 0b00000000],
     [0b00000000, 0b00000000, 0b01111110, 0b01000000, 0b01000000, 0b01000000,
      0b01000000, 0b01111100, 0b01000010, 0b01000010, 0b01000010, 0b01000010,
      0b00000010, 0b00000100, 0b00000000, 0b00000000],
     [0b00000000, 0b00000000, 0b00000000, 0b00000000, 0b00000000, 0b01111110,
      0b01000000, 0b01000000, 0b01111000, 0b01000100, 0b01000100, 0b01000100,
      0b00000100, 0b00001000, 0b00000000, 0b00000000],
     [0b00000000, 0b00000000, 0b10010010, 0b10010010, 0b10010010, 0b01010100,
      0b00111000, 0b01010100, 0b10010010, 0b10010010, 0b10010010, 0b10010011,
      0b00000001, 0b00000001, 0b00000000, 0b00000000],
     [0b00000000, 0b00000000, 0b00000000, 0b00000000, 0b00000000, 0b10010010,
      0b10010010, 0b01010100, 0b00111000, 0b01010100, 0b10010010, 0b10010011,
      0b00000001, 0b00000001, 0b00000000, 0b00000000],
     [0b00000000, 0b00000000, 0b00111100, 0b01000010, 0b01000010, 0b00000010,
      0b00011100, 0b00000010, 0b00000010, 0b01000010, 0b01000010, 0b00111100,
      0b00010000, 0b00010000, 0b00010000, 0b00000000],
     [0b00000000, 0b00000000, 0b00000000, 0b00000000, 0b00000000, 0b00111100,
      0b01000010, 0b00000010, 0b00011100, 0b00000010, 0b01000010, 0b00111100,
      0b00010000, 0b00010000, 0b00010000, 0b00000000],
     [0b00000000, 0b00000000, 0b01000010, 0b01000100, 0b01001000, 0b01010000,
      0b01100000, 0b01100000, 0b01010000, 0b01001000, 0b01000100, 0b01000011,
      0b00000001, 0b00000001, 0b00000000, 0b00000000]]"

(* src/kernel/gfx/terminus.cpp:10228-10371 font_terminus *)
definition glyphs_238 :: "u8 list list" where
  "glyphs_238 = [
     [0b00000000, 0b00000000, 0b00000000, 0b00000000, 0b00000000, 0b01000010,
      0b01000100, 0b01001000, 0b01110000, 0b01001000, 0b01000100, 0b01000011,
      0b00000001, 0b00000001, 0b00000000, 0b00000000],
     [0b00000000, 0b00000000, 0b01000010, 0b01000010, 0b01010100, 0b01011000,
      0b01110000, 0b01110000, 0b01011000, 0b01010100, 0b01000010, 0b01000010,
      0b00000000, 0b00000000, 0b00000000, 0b00000000],
     [0b00000000, 0b00000000, 0b00000000, 0b00000000, 0b00000000, 0b01000010,
      0b01010100, 0b01011000, 0b01110000, 0b01011000, 0b01010100, 0b01000010,
      0b00000000, 0b00000000, 0b00000000, 0b00000000],
     [0b00000000, 0b00000000, 0b11000010, 0b01000100, 0b01001000, 0b01010000,
      0b01100000, 0b01100000, 0b01010000, 0b01001000, 0b01000100, 0b01000010,
      0b00000000, 0b00000000, 0b00000000, 0b00000000],
     [0b00000000, 0b00000000, 0b00000000, 0b00000000, 0b00000000, 0b11000010,
      0b01000100, 0b01001000, 0b01110000, 0b01001000, 0b01000100, 0b01000010,
      0b00000000, 0b00000000, 0b00000000, 0b00000000],
     [0b00000000, 0b00000000, 0b01000010, 0b01000010, 0b01000010, 0b01000010,
      0b01111110, 0b01000010, 0b01000010, 0b01000010, 0b01000010, 0b01000011,
      0b00000001, 0b00000001, 0b00000000, 0b00000000],
     [0b00000000, 0b00000000, 0b00000000, 0b00000000, 0b00000000, 0b01000010,
      0b01000010, 0b01000010, 0b01111110, 0b01000010, 0b01000010, 0b01000011,
      0b00000001, 0b00000001, 0b00000000, 0b00000000],
     [0b00000000, 0b00000000, 0b01000111, 0b01000100, 0b01000100, 0b01000100,
      0b01111100, 0b01000100, 0b01000100, 0b01000100, 0b01000100, 0b01000100,
      0b00000000, 0b00000000, 0b00000000, 0b00000000]]"

(* src/kernel/gfx/terminus.cpp:10372-10515 font_terminus *)
definition glyphs_240 :: "u8 list list" where
  "glyphs_240 = [
     [0b00000000, 0b00000000, 0b00000000, 0b00000000, 0b00000000, 0b01000111,
      0b01000100, 0b01000100, 0b01111100, 0b01000100, 0b01000100, 0b01000100,
      0b00000000, 0b00000000, 0b00000000, 0b00000000],
     [0b00000000, 0b00000000, 0b00111100, 0b01000010, 0b01000010, 0b01000000,
      0b01000000, 0b01000000, 0b01000000, 0b01000010, 0b01000010, 0b00111100,
      0b00010000, 0b00010000, 0b00010000, 0b00000000],
     [0b00000000, 0b00000000, 0b00000000, 0b00000000, 0b00000000, 0b00111100,
      0b01000010, 0b01000000, 0b01000000, 0b01000000, 0b01000010, 0b00111100,
      0b00010000, 0b00010000, 0b00010000, 0b00000000],
     [0b00000000, 0b00000000, 0b10000010, 0b10000010, 0b01000100, 0b01000100,
      0b00101000, 0b00010000, 0b00010000, 0b00010000, 0b00010000, 0b00010000,
      0b00000000, 0b00000000, 0b00000000, 0b00000000],
     [0b00000000, 0b00000000, 0b00000000, 0b00000000, 0b00000000, 0b10000010,
      0b10000010, 0b01000100, 0b01000100, 0b00101000, 0b00101000, 0b00010000,
      0b00010000, 0b00010000, 0b00010000, 0b00000000],
     [0b00000000, 0b00000000, 0b10000010, 0b10000010, 0b01000100, 0b01000100,
      0b00101000, 0b00010000, 0b01111100, 0b00010000, 0b00010000, 0b00010000,
      0b00000000, 0b00000000, 0b00000000, 0b00000000],
     [0b00000000, 0b00000000, 0b00000000, 0b00000000, 0b00000000, 0b10000010,
      0b10000010, 0b01000100, 0b01000100, 0b00101000, 0b00101000, 0b00010000,
      0b01111100, 0b00010000, 0b00010000, 0b00000000],
     [0b00000000, 0b00000000, 0b01000010, 0b01000010, 0b00100100, 0b00100100,
      0b00011000, 0b00011000, 0b00100100, 0b00100100, 0b01000010, 0b01000011,
      0b00000001, 0b00000001, 0b00000000, 0b00000000]]"

(* src/kernel/gfx/terminus.cpp:10516-10659 font_terminus *)
definition glyphs_248 :: "u8 list list" where
  "glyphs_248 = [
     [0b00000000, 0b00000000, 0b00000000, 0b00000000, 0b00000000, 0b01000010,
      0b01000010, 0b00100100, 0b00011000, 0b00100100, 0b01000010, 0b01000011,
      0b00000001, 0b00000001, 0b00000000, 0b00000000],
     [0b00000000, 0b00000000, 0b01000010, 0b01000010, 0b01000010, 0b01000010,
      0b01000010, 0b00111110, 0b00000010, 0b00000010, 0b00000010, 0b00000011,
      0b00000001, 0b00000001, 0b00000000, 0b00000000],
     [0b00000000, 0b00000000, 0b00000000, 0b00000000, 0b00000000, 0b01000010,
      0b01000010, 0b01000010, 0b00111110, 0b00000010, 0b00000010, 0b00000011,
      0b00000001, 0b00000001, 0b00000000, 0b00000000],
     [0b00000000, 0b00000000, 0b01000010, 0b01000010, 0b01000010, 0b01001010,
      0b01001010, 0b00111110, 0b00001010, 0b00001010, 0b00000010, 0b00000010,
      0b00000000, 0b00000000, 0b00000000, 0b00000000],
     [0b00000000, 0b00000000, 0b00000000, 0b00000000, 0b00000000, 0b01000010,
      0b01001010, 0b01001010, 0b00111110, 0b00001010, 0b00000010, 0b00000010,
      0b00000000, 0b00000000, 0b00000000, 0b00000000],
     [0b00000000, 0b00000000, 0b01000000, 0b01000000, 0b01000000, 0b01000000,
      0b01111100, 0b01000010, 0b01000010, 0b01000010, 0b01000010, 0b01000010,
      0b00000000, 0b00000000, 0b00000000, 0b00000000],
     [0b00000000, 0b00000000, 0b00000000, 0b00000000, 0b00000000, 0b01000000,
      0b01000000, 0b01111100, 0b01000010, 0b01000010, 0b01000010, 0b01000010,
      0b00000000, 0b00000000, 0b00000000, 0b00000000],
     [0b00100100, 0b00011000, 0b00000000, 0b00111100, 0b01000010, 0b01000010,
      0b01000010, 0b01111110, 0b01000010, 0b01000010, 0b01000010, 0b01000010,
      0b00000000, 0b00000000, 0b00000000, 0b00000000]]"

(* src/kernel/gfx/terminus.cpp:10660-10803 font_terminus *)
definition glyphs_250 :: "u8 list list" where
  "glyphs_250 = [
     [0b00000000, 0b00000000, 0b00100100, 0b00011000, 0b00000000, 0b00111100,
      0b00000010, 0b00111110, 0b01000010, 0b01000010, 0b01000010, 0b00111110,
      0b00000000, 0b00000000, 0b00000000, 0b00000000],
     [0b00100100, 0b00100100, 0b00000000, 0b00111100, 0b01000010, 0b01000010,
      0b01000010, 0b01111110, 0b01000010, 0b01000010, 0b01000010, 0b01000010,
      0b00000000, 0b00000000, 0b00000000, 0b00000000],
     [0b00000000, 0b00000000, 0b00100100, 0b00100100, 0b00000000, 0b00111100,
      0b00000010, 0b00111110, 0b01000010, 0b01000010, 0b01000010, 0b00111110,
      0b00000000, 0b00000000, 0b00000000, 0b00000000],
     [0b00000000, 0b00000000, 0b01111110, 0b10010000, 0b10010000, 0b10010000,
      0b11111100, 0b10010000, 0b10010000, 0b10010000, 0b10010000, 0b10011110,
      0b00000000, 0b00000000, 0b00000000, 0b00000000],
     [0b00000000, 0b00000000, 0b00000000, 0b00000000, 0b00000000, 0b01101100,
      0b00010010, 0b01110010, 0b10011110, 0b10010000, 0b10010000, 0b01101100,
      0b00000000, 0b00000000, 0b00000000, 0b00000000],
     [0b00100100, 0b00011000, 0b00000000, 0b01111110, 0b01000000, 0b01000000,
      0b01000000, 0b01111000, 0b01000000, 0b01000000, 0b01000000, 0b01111110,
      0b00000000, 0b00000000, 0b00000000, 0b00000000],
     [0b00000000, 0b00000000, 0b00100100, 0b00011000, 0b00000000, 0b00111100,
      0b01000010, 0b01000010, 0b01111110, 0b01000000, 0b01000000, 0b00111100,
      0b00000000, 0b00000000, 0b00000000, 0b00000000],
     [0b00000000, 0b00000000, 0b00111100, 0b01000010, 0b00000010, 0b00000010,
      0b01111110, 0b01000010, 0b01000010, 0b01000010, 0b01000010, 0b00111100,
      0b00000000, 0b00000000, 0b00000000, 0b00000000]]"

(* src/kernel/gfx/terminus.cpp:10804-10947 font_terminus *)
definition glyphs_258 :: "u8 list list" where
  "glyphs_258 = [
     [0b00000000, 0b00000000, 0b00000000, 0b00000000, 0b00000000, 0b00111100,
      0b00000010, 0b00000010, 0b01111110, 0b01000010, 0b01000010, 0b00111100,
      0b00000000, 0b00000000, 0b00000000, 0b00000000],
     [0b00100100, 0b00100100, 0b00000000, 0b00111100, 0b01000010, 0b00000010,
      0b00000010, 0b01111110, 0b01000010, 0b01000010, 0b01000010, 0b00111100,
      0b00000000, 0b00000000, 0b00000000, 0b00000000],
     [0b00000000, 0b00000000, 0b00100100, 0b00100100, 0b00000000, 0b00111100,
      0b00000010, 0b00000010, 0b01111110, 0b01000010, 0b01000010, 0b00111100,
      0b00000000, 0b00000000, 0b00000000, 0b00000000],
     [0b01000100, 0b01000100, 0b00000000, 0b10010010, 0b10010010, 0b10010010,
      0b01010100, 0b00111000, 0b01010100, 0b10010010, 0b10010010, 0b10010010,
      0b00000000, 0b00000000, 0b00000000, 0b00000000],
     [0b00000000, 0b00000000, 0b01000100, 0b01000100, 0b00000000, 0b10010010,
      0b10010010, 0b01010100, 0b00111000, 0b01010100, 0b10010010, 0b10010010,
      0b00000000, 0b00000000, 0b00000000, 0b00000000],
     [0b00100100, 0b00100100, 0b00000000, 0b00111100, 0b01000010, 0b01000010,
      0b00000010, 0b00011100, 0b00000010, 0b01000010, 0b01000010, 0b00111100,
      0b00000000, 0b00000000, 0b00000000, 0b00000000],
     [0b00000000, 0b00000000, 0b00100100, 0b00100100, 0b00000000, 0b00111100,
      0b01000010, 0b00000010, 0b00011100, 0b00000010, 0b01000010, 0b00111100,
      0b00000000, 0b00000000, 0b00000000, 0b00000000],
     [0b00111100, 0b00000000, 0b01000010, 0b01000010, 0b01000010, 0b01000110,
      0b01001010, 0b01010010, 0b01100010, 0b01000010, 0b01000010, 0b01000010,
      0b00000000, 0b00000000, 0b00000000, 0b00000000]]"

(* src/kernel/gfx/terminus.cpp:10948-11091 font_terminus *)
definition glyphs_260 :: "u8 list list" where
  "glyphs_260 = [
     [0b00000000, 0b00000000, 0b00000000, 0b00111100, 0b00000000, 0b01000010,
      0b01000010, 0b01000010, 0b01000010, 0b01000010, 0b01000010, 0b00111110,
      0b00000000, 0b00000000, 0b00000000, 0b00000000],
     [0b00100100, 0b00100100, 0b00000000, 0b01000010, 0b01000010, 0b01000010,
      0b01000110, 0b01001010, 0b01010010, 0b01100010, 0b01000010, 0b01000010,
      0b00000000, 0b00000000, 0b00000000, 0b00000000],
     [0b00000000, 0b00000000, 0b00100100, 0b00100100, 0b00000000, 0b01000010,
      0b01000010, 0b01000010, 0b01000010, 0b01000010, 0b01000010, 0b00111110,
      0b00000000, 0b00000000, 0b00000000, 0b00000000],
     [0b00100100, 0b00100100, 0b00000000, 0b00111100, 0b01000010, 0b01000010,
      0b01000010, 0b01000010, 0b01000010, 0b01000010, 0b01000010, 0b00111100,
      0b00000000, 0b00000000, 0b00000000, 0b00000000],
     [0b00000000, 0b00000000, 0b00100100, 0b00100100, 0b00000000, 0b00111100,
      0b01000010, 0b01000010, 0b01000010, 0b01000010, 0b01000010, 0b00111100,
      0b00000000, 0b00000000, 0b00000000, 0b00000000],
     [0b00000000, 0b00000000, 0b00111100, 0b01000010, 0b01000010, 0b01000010,
      0b01111110, 0b01000010, 0b01000010, 0b01000010, 0b01000010, 0b00111100,
      0b00000000, 0b00000000, 0b00000000, 0b00000000],
     [0b00000000, 0b00000000, 0b00000000, 0b00000000, 0b00000000, 0b00111100,
      0b01000010, 0b01000010, 0b01111110, 0b01000010, 0b01000010, 0b00111100,
      0b00000000, 0b00000000, 0b00000000, 0b00000000],
     [0b00100100, 0b00100100, 0b00000000, 0b00111100, 0b01000010, 0b01000010,
      0b01000010, 0b01111110, 0b01000010, 0b01000010, 0b01000010, 0b00111100,
      0b00000000, 0b00000000, 0b00000000, 0b00000000]]"

(* src/kernel/gfx/terminus.cpp:11092-11235 font_terminus *)
definition glyphs_268 :: "u8 list list" where
  "glyphs_268 = [
     [0b00000000, 0b00000000, 0b00100100, 0b00100100, 0b00000000, 0b00111100,
      0b01000010, 0b01000010, 0b01111110, 0b01000010, 0b01000010, 0b00111100,
      0b00000000, 0b00000000, 0b00000000, 0b00000000],
     [0b00100100, 0b00100100, 0b00000000, 0b00111100, 0b01000010, 0b00000010,
      0b00000010, 0b00011110, 0b00000010, 0b00000010, 0b01000010, 0b00111100,
      0b00000000, 0b00000000, 0b00000000, 0b00000000],
     [0b00000000, 0b00000000, 0b00100100, 0b00100100, 0b00000000, 0b00111100,
      0b01000010, 0b00000010, 0b00011110, 0b00000010, 0b01000010, 0b00111100,
      0b00000000, 0b00000000, 0b00000000, 0b00000000],
     [0b00111100, 0b00000000, 0b01000010, 0b01000010, 0b01000010, 0b01000010,
      0b01000010, 0b00111110, 0b00000010, 0b00000010, 0b00000010, 0b00111100,
      0b00000000, 0b00000000, 0b00000000, 0b00000000],
     [0b00000000, 0b00000000, 0b00000000, 0b00111100, 0b00000000, 0b01000010,
      0b01000010, 0b01000010, 0b01000010, 0b01000010, 0b01000010, 0b00111110,
      0b00000010, 0b00000010, 0b00111100, 0b00000000],
     [0b00100100, 0b00100100, 0b00000000, 0b01000010, 0b01000010, 0b01000010,
      0b01000010, 0b00111110, 0b00000010, 0b00000010, 0b00000010, 0b00111100,
      0b00000000, 0b00000000, 0b00000000, 0b00000000],
     [0b00000000, 0b00000000, 0b00100100, 0b00100100, 0b00000000, 0b01000010,
      0b01000010, 0b01000010, 0b01000010, 0b01000010, 0b01000010, 0b00111110,
      0b00000010, 0b00000010, 0b00111100, 0b00000000],
     [0b00010010, 0b00100100, 0b00000000, 0b01000010, 0b01000010, 0b01000010,
      0b01000010, 0b00111110, 0b00000010, 0b00000010, 0b00000010, 0b00111100,
      0b00000000, 0b00000000, 0b00000000, 0b00000000]]"

(* src/kernel/gfx/terminus.cpp:11236-11379 font_terminus *)
definition glyphs_270 :: "u8 list list" where
  "glyphs_270 = [
     [0b00000000, 0b00000000, 0b00010010, 0b00100100, 0b00000000, 0b01000010,
      0b01000010, 0b01000010, 0b01000010, 0b01000010, 0b01000010, 0b00111110,
      0b00000010, 0b00000010, 0b00111100, 0b00000000],
     [0b00100100, 0b00100100, 0b00000000, 0b01000010, 0b01000010, 0b01000010,
      0b01000010, 0b00111110, 0b00000010, 0b00000010, 0b00000010, 0b00000010,
      0b00000000, 0b00000000, 0b00000000, 0b00000000],
     [0b00000000, 0b00000000, 0b00100100, 0b00100100, 0b00000000, 0b01000010,
      0b01000010, 0b01000010, 0b00111110, 0b00000010, 0b00000010, 0b00000010,
      0b00000000, 0b00000000, 0b00000000, 0b00000000],
     [0b01001000, 0b01001000, 0b00000000, 0b10000010, 0b10000010, 0b10000010,
      0b11110010, 0b10001010, 0b10001010, 0b10001010, 0b10001010, 0b11110010,
      0b00000000, 0b00000000, 0b00000000, 0b00000000],
     [0b00000000, 0b00000000, 0b01001000, 0b01001000, 0b00000000, 0b10000010,
      0b10000010, 0b11110010, 0b10001010, 0b10001010, 0b10001010, 0b11110010,
      0b00000000, 0b00000000, 0b00000000, 0b00000000],
     [0b00000000, 0b00000000, 0b01000010, 0b01000100, 0b01001000, 0b01010000,
      0b01100000, 0b01100000, 0b01010000, 0b01001000, 0b01000100, 0b01000010,
      0b00000000, 0b00111100, 0b00000000, 0b00000000],
     [0b00000000, 0b00000000, 0b01000000, 0b01000000, 0b01000000, 0b01000010,
      0b01000100, 0b01001000, 0b01110000, 0b01001000, 0b01000100, 0b01000010,
      0b00000000, 0b00111100, 0b00000000, 0b00000000],
     [0b00000000, 0b00000000, 0b01111110, 0b01000000, 0b01000000, 0b01000000,
      0b01111000, 0b01000000, 0b01000000, 0b01000000, 0b01000000, 0b01111110,
      0b00000000, 0b00010000, 0b00010000, 0b00000000]]"

(* src/kernel/gfx/terminus.cpp:11380-11523 font_terminus *)
definition glyphs_278 :: "u8 list list" where
  "glyphs_278 = [
     [0b00000000, 0b00000000, 0b00000000, 0b00000000, 0b00000000, 0b00111100,
      0b01000010, 0b01000010, 0b01111110, 0b01000000, 0b01000000, 0b00111100,
      0b00000000, 0b00010000, 0b00010000, 0b00000000],
     [0b00110010, 0b01001100, 0b00000000, 0b01111110, 0b01000000, 0b01000000,
      0b01000000, 0b01111000, 0b01000000, 0b01000000, 0b01000000, 0b01111110,
      0b00000000, 0b00000000, 0b00000000, 0b00000000],
     [0b00000000, 0b00000000, 0b00110010, 0b01001100, 0b00000000, 0b00111100,
      0b01000010, 0b01000010, 0b01111110, 0b01000000, 0b01000000, 0b00111100,
      0b00000000, 0b00000000, 0b00000000, 0b00000000],
     [0b00000000, 0b00000000, 0b00111000, 0b00010000, 0b00010000, 0b00010000,
      0b00010000, 0b00010000, 0b00010000, 0b00010000, 0b00010000, 0b00111000,
      0b00000000, 0b00010000, 0b00010000, 0b00000000],
     [0b00000000, 0b00000000, 0b00010000, 0b00010000, 0b00000000, 0b00110000,
      0b00010000, 0b00010000, 0b00010000, 0b00010000, 0b00010000, 0b00111000,
      0b00000000, 0b00010000, 0b00010000, 0b00000000],
     [0b00000000, 0b00000000, 0b00111100, 0b01000010, 0b01000010, 0b01000010,
      0b01000010, 0b01000010, 0b01000010, 0b01000010, 0b01000010, 0b00111100,
      0b00000000, 0b00010000, 0b00010000, 0b00000000],
     [0b00000000, 0b00000000, 0b00000000, 0b00000000, 0b00000000, 0b00111100,
      0b01000010, 0b01000010, 0b01000010, 0b01000010, 0b01000010, 0b00111100,
      0b00000000, 0b00010000, 0b00010000, 0b00000000],
     [0b00000000, 0b00000000, 0b01000010, 0b01000010, 0b01000010, 0b01000010,
      0b01000010, 0b01000010, 0b01000010, 0b01000010, 0b01000010, 0b00111100,
      0b00000000, 0b00010000, 0b00010000, 0b00000000]]"

(* src/kernel/gfx/terminus.cpp:11524-11667 font_terminus *)
definition glyphs_280 :: "u8 list list" where
  "glyphs_280 = [
     [0b00000000, 0b00000000, 0b00000000, 0b00000000, 0b00000000, 0b01000010,
      0b01000010, 0b01000010, 0b01000010, 0b01000010, 0b01000010, 0b00111110,
      0b00000000, 0b00001000, 0b00001000, 0b00000000],
     [0b01100100, 0b10011000, 0b00000000, 0b10000010, 0b10000010, 0b01000100,
      0b01000100, 0b00101000, 0b00010000, 0b00010000, 0b00010000, 0b00010000,
      0b00000000, 0b00000000, 0b00000000, 0b00000000],
     [0b00000000, 0b00000000, 0b00110010, 0b01001100, 0b00000000, 0b01000010,
      0b01000010, 0b01000010, 0b01000010, 0b01000010, 0b01000010, 0b00111110,
      0b00000010, 0b00000010, 0b00111100, 0b00000000],
     [0b00000000, 0b00000000, 0b00000000, 0b00000000, 0b00000000, 0b00000000,
      0b00000000, 0b00000000, 0b00000000, 0b00000000, 0b00000000, 0b00000000,
      0b00000000, 0b00000000, 0b00000000, 0b00000000],
     [0b00000000, 0b00000000, 0b00000000, 0b00000000, 0b00000000, 0b00000000,
      0b00000000, 0b00000000, 0b00000000, 0b00000000, 0b00000000, 0b00000000,
      0b00000000, 0b00000000, 0b00000000, 0b00000000],
     [0b00000000, 0b00000000, 0b00000000, 0b00000000, 0b00000000, 0b00000000,
      0b00000000, 0b00000000, 0b00000000, 0b00000000, 0b00000000, 0b00000000,
      0b00000000, 0b00000000, 0b00000000, 0b00000000],
     [0b00000000, 0b00000000, 0b00000000, 0b00000000, 0b00000000, 0b00000000,
      0b00000000, 0b00000000, 0b00000000, 0b00000000, 0b00000000, 0b00000000,
      0b00000000, 0b00000000, 0b00000000, 0b00000000],
     [0b00000000, 0b00000000, 0b00000000, 0b00000000, 0b00000000, 0b00000000,
      0b00000000, 0b00000000, 0b00000000, 0b00000000, 0b00000000, 0b00000000,
      0b00000000, 0b00000000, 0b00000000, 0b00000000]]"

(* src/kernel/gfx/terminus.cpp:11668-11811 font_terminus *)
definition glyphs_288 :: "u8 list list" where
  "glyphs_288 = [
     [0b00000000, 0b00000000, 0b00000000, 0b00000000, 0b00000000, 0b00000000,
      0b00000000, 0b00000000, 0b00000000, 0b00000000, 0b00000000, 0b00000000,
      0b00000000, 0b00000000, 0b00000000, 0b00000000],
     [0b00000000, 0b00000000, 0b00000000, 0b00000000, 0b00000000, 0b00000000,
      0b00000000, 0b00000000, 0b00000000, 0b00000000, 0b00000000, 0b00000000,
      0b00000000, 0b00000000, 0b00000000, 0b00000000],
     [0b00000000, 0b00000000, 0b00000000, 0b00000000, 0b00000000, 0b00000000,
      0b00000000, 0b00000000, 0b00000000, 0b00000000, 0b00000000, 0b00000000,
      0b00000000, 0b00000000, 0b00000000, 0b00000000],
     [0b00000000, 0b00000000, 0b00000000, 0b00000000, 0b00000000, 0b00000000,
      0b00000000, 0b00000000, 0b00000000, 0b00000000, 0b00000000, 0b00000000,
      0b00000000, 0b00000000, 0b00000000, 0b00000000],
     [0b00000000, 0b00000000, 0b00000000, 0b00000000, 0b00000000, 0b00000000,
      0b00000000, 0b00000000, 0b00000000, 0b00000000, 0b00000000, 0b00000000,
      0b00000000, 0b00000000, 0b00000000, 0b00000000],
     [0b00000000, 0b00000000, 0b00000000, 0b00000000, 0b00000000, 0b00000000,
      0b00000000, 0b00000000, 0b00000000, 0b00000000, 0b00000000, 0b00000000,
      0b00000000, 0b00000000, 0b00000000, 0b00000000],
     [0b00000000, 0b00000000, 0b00000000, 0b00000000, 0b00000000, 0b00000000,
      0b00000000, 0b00111100, 0b00000000, 0b00000000, 0b00000000, 0b00000000,
      0b00000000, 0b00000000, 0b00000000, 0b00000000],
     [0b00000000, 0b00000000, 0b00000000, 0b00000000, 0b00000000, 0b00000000,
      0b00000000, 0b00111100, 0b00000000, 0b00000000, 0b00000000, 0b00000000,
      0b00000000, 0b00000000, 0b00000000, 0b00000000]]"

(* src/kernel/gfx/terminus.cpp:11812-11955 font_terminus *)
definition glyphs_290 :: "u8 list list" where
  "glyphs_290 = [
     [0b00000000, 0b00000000, 0b00000000, 0b00000000, 0b00000000, 0b00000000,
      0b00000000, 0b01111110, 0b00000000, 0b00000000, 0b00000000, 0b00000000,
      0b00000000, 0b00000000, 0b00000000, 0b00000000],
     [0b00000000, 0b00000000, 0b00000000, 0b00000000, 0b00000000, 0b00000000,
      0b00000000, 0b01111110, 0b00000000, 0b00000000, 0b00000000, 0b00000000,
      0b00000000, 0b00000000, 0b00000000, 0b00000000],
     [0b00000000, 0b00000000, 0b00000000, 0b00000000, 0b00000000, 0b00000000,
      0b00000000, 0b11111110, 0b00000000, 0b00000000, 0b00000000, 0b00000000,
      0b00000000, 0b00000000, 0b00000000, 0b00000000],
     [0b00000000, 0b00000000, 0b00000000, 0b00000000, 0b00000000, 0b00000000,
      0b00000000, 0b11111110, 0b00000000, 0b00000000, 0b00000000, 0b00000000,
      0b00000000, 0b00000000, 0b00000000, 0b00000000],
     [0b00000000, 0b00000000, 0b00101000, 0b00101000, 0b00101000, 0b00101000,
      0b00101000, 0b00101000, 0b00101000, 0b00101000, 0b00101000, 0b00101000,
      0b00000000, 0b00000000, 0b00000000, 0b00000000],
     [0b00000000, 0b00000000, 0b00000000, 0b00000000, 0b00000000, 0b00000000,
      0b00000000, 0b00000000, 0b00000000, 0b00000000, 0b00000000, 0b00000000,
      0b00000000, 0b01111110, 0b00000000, 0b01111110],
     [0b00000000, 0b00001000, 0b00010000, 0b00010000, 0b00000000, 0b00000000,
      0b00000000, 0b00000000, 0b00000000, 0b00000000, 0b00000000, 0b00000000,
      0b00000000, 0b00000000, 0b00000000, 0b00000000],
     [0b00000000, 0b00001000, 0b00001000, 0b00010000, 0b00000000, 0b00000000,
      0b00000000, 0b00000000, 0b00000000, 0b00000000, 0b00000000, 0b00000000,
      0b00000000, 0b00000000, 0b00000000, 0b00000000]]"

(* src/kernel/gfx/terminus.cpp:11956-12099 font_terminus *)
definition glyphs_298 :: "u8 list list" where
  "glyphs_298 = [
     [0b00000000, 0b00000000, 0b00000000, 0b00000000, 0b00000000, 0b00000000,
      0b00000000, 0b00000000, 0b00000000, 0b00000000, 0b00001000, 0b00001000,
      0b00010000, 0b00000000, 0b00000000, 0b00000000],
     [0b00000000, 0b00010000, 0b00010000, 0b00001000, 0b00000000, 0b00000000,
      0b00000000, 0b00000000, 0b00000000, 0b00000000, 0b00000000, 0b00000000,
      0b00000000, 0b00000000, 0b00000000, 0b00000000],
     [0b00000000, 0b00010010, 0b00100100, 0b00100100, 0b00000000, 0b00000000,
      0b00000000, 0b00000000, 0b00000000, 0b00000000, 0b00000000, 0b00000000,
      0b00000000, 0b00000000, 0b00000000, 0b00000000],
     [0b00000000, 0b00010010, 0b00010010, 0b00100100, 0b00000000, 0b00000000,
      0b00000000, 0b00000000, 0b00000000, 0b00000000, 0b00000000, 0b00000000,
      0b00000000, 0b00000000, 0b00000000, 0b00000000],
     [0b00000000, 0b00000000, 0b00000000, 0b00000000, 0b00000000, 0b00000000,
      0b00000000, 0b00000000, 0b00000000, 0b00000000, 0b00100100, 0b00100100,
      0b01001000, 0b00000000, 0b00000000, 0b00000000],
     [0b00000000, 0b01001000, 0b01001000, 0b00100100, 0b00000000, 0b00000000,
      0b00000000, 0b00000000, 0b00000000, 0b00000000, 0b00000000, 0b00000000,
      0b00000000, 0b00000000, 0b00000000, 0b00000000],
     [0b00000000, 0b00000000, 0b00010000, 0b00010000, 0b01111100, 0b00010000,
      0b00010000, 0b00010000, 0b00010000, 0b00010000, 0b00010000, 0b00010000,
      0b00000000, 0b00000000, 0b00000000, 0b00000000],
     [0b00000000, 0b00000000, 0b00010000, 0b00010000, 0b01111100, 0b00010000,
      0b00010000, 0b00010000, 0b00010000, 0b01111100, 0b00010000, 0b00010000,
      0b00000000, 0b00000000, 0b00000000, 0b00000000]]"

(* src/kernel/gfx/terminus.cpp:12100-12243 font_terminus *)
definition glyphs_2a0 :: "u8 list list" where
  "glyphs_2a0 = [
     [0b00000000, 0b00000000, 0b00000000, 0b00000000, 0b00000000, 0b00000000,
      0b00011000, 0b00111100, 0b00111100, 0b00011000, 0b00000000, 0b00000000,
      0b00000000, 0b00000000, 0b00000000, 0b00000000],
     [0b00000000, 0b00000000, 0b00000000, 0b00000000, 0b00000000, 0b00000000,
      0b00000000, 0b00000000, 0b00000000, 0b00000000, 0b10010010, 0b10010010,
      0b00000000, 0b00000000, 0b00000000, 0b00000000],
     [0b00000000, 0b00000000, 0b01001000, 0b10101000, 0b01010000, 0b00010000,
      0b00100000, 0b00100000, 0b01000000, 0b01010100, 0b10101010, 0b10010100,
      0b00000000, 0b00000000, 0b00000000, 0b00000000],
     [0b00000000, 0b00010000, 0b00010000, 0b00010000, 0b00010000, 0b00000000,
      0b00000000, 0b00000000, 0b00000000, 0b00000000, 0b00000000, 0b00000000,
      0b00000000, 0b00000000, 0b00000000, 0b00000000],
     [0b00000000, 0b00100100, 0b00100100, 0b00100100, 0b00100100, 0b00000000,
      0b00000000, 0b00000000, 0b00000000, 0b00000000, 0b00000000, 0b00000000,
      0b00000000, 0b00000000, 0b00000000, 0b00000000],
     [0b00000000, 0b00000000, 0b00000000, 0b00000000, 0b00000000, 0b00000100,
      0b00001000, 0b00010000, 0b00100000, 0b00010000, 0b00001000, 0b00000100,
      0b00000000, 0b00000000, 0b00000000, 0b00000000],
     [0b00000000, 0b00000000, 0b00000000, 0b00000000, 0b00000000, 0b00100000,
      0b00010000, 0b00001000, 0b00000100, 0b00001000, 0b00010000, 0b00100000,
      0b00000000, 0b00000000, 0b00000000, 0b00000000],
     [0b00000000, 0b00000000, 0b00100100, 0b00100100, 0b00100100, 0b00100100,
      0b00100100, 0b00100100, 0b00100100, 0b00000000, 0b00100100, 0b00100100,
      0b00000000, 0b00000000, 0b00000000, 0b00000000]]"

(* src/kernel/gfx/terminus.cpp:12244-12387 font_terminus *)
definition glyphs_2a8 :: "u8 list list" where
  "glyphs_2a8 = [
     [0b01111110, 0b00000000, 0b00000000, 0b00000000, 0b00000000, 0b00000000,
      0b00000000, 0b00000000, 0b00000000, 0b00000000, 0b00000000, 0b00000000,
      0b00000000, 0b00000000, 0b00000000, 0b00000000],
     [0b00000000, 0b00111000, 0b00100100, 0b00100100, 0b00100100, 0b00100100,
      0b00000000, 0b00000000, 0b00000000, 0b00000000, 0b00000000, 0b00000000,
      0b00000000, 0b00000000, 0b00000000, 0b00000000],
     [0b00000000, 0b00000000, 0b11110000, 0b10001000, 0b10001000, 0b10001000,
      0b11110100, 0b10000100, 0b10001110, 0b10000100, 0b10000100, 0b10000010,
      0b00000000, 0b00000000, 0b00000000, 0b00000000],
     [0b00000000, 0b00000000, 0b00000000, 0b00011100, 0b00100010, 0b01000000,
      0b11111000, 0b01000000, 0b11111000, 0b01000000, 0b00100010, 0b00011100,
      0b00000000, 0b00000000, 0b00000000, 0b00000000],
     [0b00000000, 0b00000000, 0b11111110, 0b00010000, 0b00010000, 0b00011100,
      0b01110000, 0b00011100, 0b01110000, 0b00010000, 0b00010000, 0b00010000,
      0b00000000, 0b00000000, 0b00000000, 0b00000000],
     [0b00000000, 0b00000000, 0b01000000, 0b01000000, 0b01000000, 0b01111100,
      0b01000010, 0b01000010, 0b01000010, 0b01000010, 0b01000010, 0b01000010,
      0b00000000, 0b00000000, 0b00000000, 0b00000000],
     [0b00000000, 0b00000000, 0b01000000, 0b11111000, 0b01000000, 0b01111100,
      0b01000010, 0b01000010, 0b01000010, 0b01000010, 0b01000010, 0b01000010,
      0b00000000, 0b00000000, 0b00000000, 0b00000000],
     [0b00000000, 0b00000000, 0b10010110, 0b10010110, 0b10010110, 0b11010000,
      0b11110000, 0b11110000, 0b10110000, 0b10010110, 0b10010000, 0b10010110,
      0b00000000, 0b00000000, 0b00000000, 0b00000000]]"

(* src/kernel/gfx/terminus.cpp:12388-12531 font_terminus *)
definition glyphs_2b0 :: "u8 list list" where
  "glyphs_2b0 = [
     [0b00000000, 0b00000000, 0b11111011, 0b01010101, 0b01010101, 0b01010001,
      0b00000000, 0b00000000, 0b00000000, 0b00000000, 0b00000000, 0b00000000,
      0b00000000, 0b00000000, 0b00000000, 0b00000000],
     [0b00000000, 0b00000000, 0b00111100, 0b01000010, 0b01000010, 0b01000010,
      0b01000010, 0b01000010, 0b01000010, 0b00100100, 0b00100100, 0b01100110,
      0b00000000, 0b00000000, 0b00000000, 0b00000000],
     [0b00000000, 0b00000000, 0b00000000, 0b00000000, 0b00000000, 0b00100000,
      0b01000000, 0b11111110, 0b01000000, 0b00100000, 0b00000000, 0b00000000,
      0b00000000, 0b00000000, 0b00000000, 0b00000000],
     [0b00000000, 0b00000000, 0b00010000, 0b00111000, 0b01010100, 0b00010000,
      0b00010000, 0b00010000, 0b00010000, 0b00010000, 0b00010000, 0b00010000,
      0b00000000, 0b00000000, 0b00000000, 0b00000000],
     [0b00000000, 0b00000000, 0b00000000, 0b00000000, 0b00000000, 0b00001000,
      0b00000100, 0b11111110, 0b00000100, 0b00001000, 0b00000000, 0b00000000,
      0b00000000, 0b00000000, 0b00000000, 0b00000000],
     [0b00000000, 0b00000000, 0b00010000, 0b00010000, 0b00010000, 0b00010000,
      0b00010000, 0b00010000, 0b00010000, 0b01010100, 0b00111000, 0b00010000,
      0b00000000, 0b00000000, 0b00000000, 0b00000000],
     [0b00000000, 0b00000000, 0b00000000, 0b00000000, 0b00000000, 0b00100100,
      0b01000010, 0b11111111, 0b01000010, 0b00100100, 0b00000000, 0b00000000,
      0b00000000, 0b00000000, 0b00000000, 0b00000000],
     [0b00000000, 0b00000000, 0b00010000, 0b00111000, 0b01010100, 0b00010000,
      0b00010000, 0b00010000, 0b00010000, 0b01010100, 0b00111000, 0b00010000,
      0b00000000, 0b00000000, 0b00000000, 0b00000000]]"

(* src/kernel/gfx/terminus.cpp:12532-12675 font_terminus *)
definition glyphs_2b8 :: "u8 list list" where
  "glyphs_2b8 = [
     [0b00000000, 0b00000000, 0b00010000, 0b00111000, 0b01010100, 0b00010000,
      0b00010000, 0b00010000, 0b01010100, 0b00111000, 0b00010000, 0b01111100,
      0b00000000, 0b00000000, 0b00000000, 0b00000000],
     [0b00000000, 0b00000000, 0b00000010, 0b00000010, 0b00000010, 0b00000010,
      0b00000010, 0b00100010, 0b01000010, 0b11111110, 0b01000000, 0b00100000,
      0b00000000, 0b00000000, 0b00000000, 0b00000000],
     [0b00000000, 0b00000000, 0b00000000, 0b00000000, 0b00000000, 0b00100000,
      0b01111110, 0b11000000, 0b01111110, 0b00100000, 0b00000000, 0b00000000,
      0b00000000, 0b00000000, 0b00000000, 0b00000000],
     [0b00000000, 0b00000000, 0b00010000, 0b00111000, 0b01101100, 0b00101000,
      0b00101000, 0b00101000, 0b00101000, 0b00101000, 0b00101000, 0b00101000,
      0b00000000, 0b00000000, 0b00000000, 0b00000000],
     [0b00000000, 0b00000000, 0b00000000, 0b00000000, 0b00000000, 0b00001000,
      0b11111100, 0b00000110, 0b11111100, 0b00001000, 0b00000000, 0b00000000,
      0b00000000, 0b00000000, 0b00000000, 0b00000000],
     [0b00000000, 0b00000000, 0b00101000, 0b00101000, 0b00101000, 0b00101000,
      0b00101000, 0b00101000, 0b00101000, 0b01101100, 0b00111000, 0b00010000,
      0b00000000, 0b00000000, 0b00000000, 0b00000000],
     [0b00000000, 0b00000000, 0b00000000, 0b00000000, 0b00000000, 0b00100100,
      0b01111110, 0b11000011, 0b01111110, 0b00100100, 0b00000000, 0b00000000,
      0b00000000, 0b00000000, 0b00000000, 0b00000000],
     [0b00000000, 0b00000000, 0b00010000, 0b00111000, 0b01101100, 0b00101000,
      0b00101000, 0b00101000, 0b00101000, 0b01101100, 0b00111000, 0b00010000,
      0b00000000, 0b00000000, 0b00000000, 0b00000000]]"

(* src/kernel/gfx/terminus.cpp:12676-12819 font_terminus *)
definition glyphs_2c0 :: "u8 list list" where
  "glyphs_2c0 = [
     [0b00000000, 0b00000000, 0b00000000, 0b01111110, 0b00000010, 0b00000010,
      0b00000010, 0b01111110, 0b00000010, 0b00000010, 0b00000010, 0b01111110,
      0b00000000, 0b00000000, 0b00000000, 0b00000000],
     [0b00000000, 0b00000000, 0b00000010, 0b00000100, 0b01111100, 0b10001010,
      0b10010010, 0b10010010, 0b10100010, 0b01111100, 0b01000000, 0b10000000,
      0b00000000, 0b00000000, 0b00000000, 0b00000000],
     [0b00000000, 0b00000000, 0b00010000, 0b00010000, 0b00101000, 0b00101000,
      0b01000100, 0b01000100, 0b01000100, 0b10000010, 0b10000010, 0b11111110,
      0b00000000, 0b00000000, 0b00000000, 0b00000000],
     [0b00000000, 0b00000000, 0b00000000, 0b00011110, 0b00100000, 0b01000000,
      0b01000000, 0b01111110, 0b01000000, 0b01000000, 0b00100000, 0b00011110,
      0b00000000, 0b00000000, 0b00000000, 0b00000000],
     [0b00000000, 0b00000000, 0b00000000, 0b00000000, 0b00011110, 0b00100000,
      0b01000000, 0b01111110, 0b01000000, 0b00100000, 0b00011110, 0b00000000,
      0b00000000, 0b00000000, 0b00000000, 0b00000000],
     [0b00000000, 0b00000000, 0b00000000, 0b00000000, 0b00000000, 0b00000000,
      0b00000000, 0b01111110, 0b00000000, 0b00000000, 0b00000000, 0b00000000,
      0b00000000, 0b00000000, 0b00000000, 0b00000000],
     [0b00000000, 0b00000000, 0b00000000, 0b00000000, 0b00000000, 0b00000000,
      0b00000000, 0b00011000, 0b00011000, 0b00000000, 0b00000000, 0b00000000,
      0b00000000, 0b00000000, 0b00000000, 0b00000000],
     [0b00000000, 0b00000110, 0b00000100, 0b00000100, 0b00000100, 0b00000100,
      0b01000100, 0b01000100, 0b01000100, 0b00100100, 0b00010100, 0b00001100,
      0b00000000, 0b00000000, 0b00000000, 0b00000000]]"

(* src/kernel/gfx/terminus.cpp:12820-12963 font_terminus *)
definition glyphs_2c8 :: "u8 list list" where
  "glyphs_2c8 = [
     [0b00000000, 0b00000000, 0b00000000, 0b00000000, 0b00000000, 0b01101100,
      0b10010010, 0b10010010, 0b10010010, 0b01101100, 0b00000000, 0b00000000,
      0b00000000, 0b00000000, 0b00000000, 0b00000000],
     [0b00000000, 0b00000000, 0b00000000, 0b00000000, 0b01000000, 0b01000000,
      0b01000000, 0b01000000, 0b01000000, 0b01111110, 0b00000000, 0b00000000,
      0b00000000, 0b00000000, 0b00000000, 0b00000000],
     [0b00000000, 0b00000000, 0b00000000, 0b00000000, 0b00010000, 0b00010000,
      0b00101000, 0b00101000, 0b01000100, 0b01000100, 0b10000010, 0b10000010,
      0b00000000, 0b00000000, 0b00000000, 0b00000000],
     [0b00000000, 0b00000000, 0b00000000, 0b00000000, 0b10000010, 0b10000010,
      0b01000100, 0b01000100, 0b00101000, 0b00101000, 0b00010000, 0b00010000,
      0b00000000, 0b00000000, 0b00000000, 0b00000000],
     [0b00000000, 0b00000000, 0b00000000, 0b00000000, 0b00111100, 0b01000010,
      0b01000010, 0b01000010, 0b01000010, 0b01000010, 0b01000010, 0b01000010,
      0b00000000, 0b00000000, 0b00000000, 0b00000000],
     [0b00000000, 0b00000000, 0b00000000, 0b00000000, 0b01000010, 0b01000010,
      0b01000010, 0b01000010, 0b01000010, 0b01000010, 0b01000010, 0b00111100,
      0b00000000, 0b00000000, 0b00000000, 0b00000000],
     [0b00000000, 0b00000000, 0b00000000, 0b00000000, 0b00000000, 0b00110010,
      0b01001100, 0b00000000, 0b00110010, 0b01001100, 0b00000000, 0b00000000,
      0b00000000, 0b00000000, 0b00000000, 0b00000000],
     [0b00000000, 0b00000000, 0b00000000, 0b00000000, 0b00000010, 0b01111110,
      0b00001000, 0b00010000, 0b01111110, 0b01000000, 0b00000000, 0b00000000,
      0b00000000, 0b00000000, 0b00000000, 0b00000000]]"

(* src/kernel/gfx/terminus.cpp:12964-13107 font_terminus *)
definition glyphs_2d0 :: "u8 list list" where
  "glyphs_2d0 = [
     [0b00000000, 0b00000000, 0b00000000, 0b00000000, 0b01111110, 0b00000000,
      0b00000000, 0b01111110, 0b00000000, 0b00000000, 0b01111110, 0b00000000,
      0b00000000, 0b00000000, 0b00000000, 0b00000000],
     [0b00000000, 0b00000000, 0b00000000, 0b00000100, 0b00001000, 0b00010000,
      0b00100000, 0b00010000, 0b00001000, 0b00000100, 0b00000000, 0b00111110,
      0b00000000, 0b00000000, 0b00000000, 0b00000000],
     [0b00000000, 0b00000000, 0b00000000, 0b00100000, 0b00010000, 0b00001000,
      0b00000100, 0b00001000, 0b00010000, 0b00100000, 0b00000000, 0b01111100,
      0b00000000, 0b00000000, 0b00000000, 0b00000000],
     [0b00000000, 0b00000000, 0b00000000, 0b00000000, 0b00010000, 0b00101000,
      0b01000100, 0b10000010, 0b10000010, 0b10000010, 0b10000010, 0b11111110,
      0b00000000, 0b00000000, 0b00000000, 0b00000000],
     [0b00000000, 0b00000000, 0b00000000, 0b00000000, 0b00000000, 0b01111110,
      0b01000000, 0b01000000, 0b01000000, 0b00000000, 0b00000000, 0b00000000,
      0b00000000, 0b00000000, 0b00000000, 0b00000000],
     [0b00000000, 0b00000000, 0b00001100, 0b00010010, 0b00010010, 0b00010000,
      0b00010000, 0b00010000, 0b00010000, 0b00010000, 0b00010000, 0b00010000,
      0b00010000, 0b00010000, 0b00010000, 0b00010000],
     [0b00010000, 0b00010000, 0b00010000, 0b00010000, 0b00010000, 0b00010000,
      0b00010000, 0b00010000, 0b00010000, 0b10010000, 0b10010000, 0b01100000,
      0b00000000, 0b00000000, 0b00000000, 0b00000000],
     [0b11111111, 0b00000000, 0b00000000, 0b00000000, 0b00000000, 0b00000000,
      0b00000000, 0b00000000, 0b00000000, 0b00000000, 0b00000000, 0b00000000,
      0b00000000, 0b00000000, 0b00000000, 0b00000000]]"

(* src/kernel/gfx/terminus.cpp:13108-13251 font_terminus *)
definition glyphs_2d8 :: "u8 list list" where
  "glyphs_2d8 = [
     [0b00000000, 0b00000000, 0b00000000, 0b00000000, 0b11111111, 0b00000000,
      0b00000000, 0b00000000, 0b00000000, 0b00000000, 0b00000000, 0b00000000,
      0b00000000, 0b00000000, 0b00000000, 0b00000000],
     [0b00000000, 0b00000000, 0b00000000, 0b00000000, 0b00000000, 0b00000000,
      0b00000000, 0b00000000, 0b00000000, 0b00000000, 0b00000000, 0b11111111,
      0b00000000, 0b00000000, 0b00000000, 0b00000000],
     [0b00000000, 0b00000000, 0b00000000, 0b00000000, 0b00000000, 0b00000000,
      0b00000000, 0b00000000, 0b00000000, 0b00000000, 0b00000000, 0b00000000,
      0b00000000, 0b00000000, 0b00000000, 0b11111111],
     [0b00000000, 0b10001000, 0b10001000, 0b11111000, 0b10001000, 0b10001000,
      0b10001000, 0b00000000, 0b00011111, 0b00000100, 0b00000100, 0b00000100,
      0b00000100, 0b00000100, 0b00000000, 0b00000000],
     [0b00000000, 0b10000000, 0b10000000, 0b10000000, 0b10000000, 0b10000000,
      0b11111000, 0b00000000, 0b00011111, 0b00010000, 0b00011100, 0b00010000,
      0b00010000, 0b00010000, 0b00000000, 0b00000000],
     [0b00000000, 0b10001000, 0b10001000, 0b01010000, 0b01010000, 0b00100000,
      0b00100000, 0b00000000, 0b00011111, 0b00000100, 0b00000100, 0b00000100,
      0b00000100, 0b00000100, 0b00000000, 0b00000000],
     [0b00000000, 0b11111000, 0b10000000, 0b11100000, 0b10000000, 0b10000000,
      0b10000000, 0b00000000, 0b00011111, 0b00010000, 0b00011100, 0b00010000,
      0b00010000, 0b00010000, 0b00000000, 0b00000000],
     [0b00000000, 0b01110000, 0b10001000, 0b10000000, 0b10000000, 0b10001000,
      0b01110000, 0b00000000, 0b00011110, 0b00010001, 0b00010001, 0b00011110,
      0b00010010, 0b00010001, 0b00000000, 0b00000000]]"

(* src/kernel/gfx/terminus.cpp:13252-13395 font_terminus *)
definition glyphs_2e0 :: "u8 list list" where
  "glyphs_2e0 = [
     [0b00000000, 0b10001000, 0b11001000, 0b10101000, 0b10011000, 0b10001000,
      0b10001000, 0b00000000, 0b00010000, 0b00010000, 0b00010000, 0b00010000,
      0b00010000, 0b00011111, 0b00000000, 0b00000000],
     [0b00000000, 0b00000000, 0b00000000, 0b00000000, 0b00000000, 0b00000000,
      0b00000000, 0b11111111, 0b00000000, 0b00000000, 0b00000000, 0b00000000,
      0b00000000, 0b00000000, 0b00000000, 0b00000000],
     [0b00000000, 0b00000000, 0b00000000, 0b00000000, 0b00000000, 0b00000000,
      0b00000000, 0b11111111, 0b11111111, 0b00000000, 0b00000000, 0b00000000,
      0b00000000, 0b00000000, 0b00000000, 0b00000000],
     [0b00010000, 0b00010000, 0b00010000, 0b00010000, 0b00010000, 0b00010000,
      0b00010000, 0b00010000, 0b00010000, 0b00010000, 0b00010000, 0b00010000,
      0b00010000, 0b00010000, 0b00010000, 0b00010000],
     [0b00011000, 0b00011000, 0b00011000, 0b00011000, 0b00011000, 0b00011000,
      0b00011000, 0b00011000, 0b00011000, 0b00011000, 0b00011000, 0b00011000,
      0b00011000, 0b00011000, 0b00011000, 0b00011000],
     [0b00000000, 0b00000000, 0b00000000, 0b00000000, 0b00000000, 0b00000000,
      0b00000000, 0b10101010, 0b00000000, 0b00000000, 0b00000000, 0b00000000,
      0b00000000, 0b00000000, 0b00000000, 0b00000000],
     [0b00000000, 0b00000000, 0b00000000, 0b00000000, 0b00000000, 0b00000000,
      0b00000000, 0b10101010, 0b10101010, 0b00000000, 0b00000000, 0b00000000,
      0b00000000, 0b00000000, 0b00000000, 0b00000000],
     [0b00010000, 0b00010000, 0b00010000, 0b00000000, 0b00010000, 0b00010000,
      0b00010000, 0b00000000, 0b00010000, 0b00010000, 0b00010000, 0b00000000,
      0b00010000, 0b00010000, 0b00010000, 0b00000000]]"

(* src/kernel/gfx/terminus.cpp:13396-13539 font_terminus *)
definition glyphs_2e8 :: "u8 list list" where
  "glyphs_2e8 = [
     [0b00011000, 0b00011000, 0b00011000, 0b00000000, 0b00011000, 0b00011000,
      0b00011000, 0b00000000, 0b00011000, 0b00011000, 0b00011000, 0b00000000,
      0b00011000, 0b00011000, 0b00011000, 0b00000000],
     [0b00000000, 0b00000000, 0b00000000, 0b00000000, 0b00000000, 0b00000000,
      0b00000000, 0b00011111, 0b00010000, 0b00010000, 0b00010000, 0b00010000,
      0b00010000, 0b00010000, 0b00010000, 0b00010000],
     [0b00000000, 0b00000000, 0b00000000, 0b00000000, 0b00000000, 0b00000000,
      0b00000000, 0b00011111, 0b00011111, 0b00010000, 0b00010000, 0b00010000,
      0b00010000, 0b00010000, 0b00010000, 0b00010000],
     [0b00000000, 0b00000000, 0b00000000, 0b00000000, 0b00000000, 0b00000000,
      0b00000000, 0b00011111, 0b00011000, 0b00011000, 0b00011000, 0b00011000,
      0b00011000, 0b00011000, 0b00011000, 0b00011000],
     [0b00000000, 0b00000000, 0b00000000, 0b00000000, 0b00000000, 0b00000000,
      0b00000000, 0b00011111, 0b00011111, 0b00011000, 0b00011000, 0b00011000,
      0b00011000, 0b00011000, 0b00011000, 0b00011000],
     [0b00000000, 0b00000000, 0b00000000, 0b00000000, 0b00000000, 0b00000000,
      0b00000000, 0b11110000, 0b00010000, 0b00010000, 0b00010000, 0b00010000,
      0b00010000, 0b00010000, 0b00010000, 0b00010000],
     [0b00000000, 0b00000000, 0b00000000, 0b00000000, 0b00000000, 0b00000000,
      0b00000000, 0b11110000, 0b11110000, 0b00010000, 0b00010000, 0b00010000,
      0b00010000, 0b00010000, 0b00010000, 0b00010000],
     [0b00000000, 0b00000000, 0b00000000, 0b00000000, 0b00000000, 0b00000000,
      0b00000000, 0b11111000, 0b00011000, 0b00011000, 0b00011000, 0b00011000,
      0b00011000, 0b00011000, 0b00011000, 0b00011000]]"

(* src/kernel/gfx/terminus.cpp:13540-13683 font_terminus *)
definition glyphs_2f0 :: "u8 list list" where
  "glyphs_2f0 = [
     [0b00000000, 0b00000000, 0b00000000, 0b00000000, 0b00000000, 0b00000000,
      0b00000000, 0b11111000, 0b11111000, 0b00011000, 0b00011000, 0b00011000,
      0b00011000, 0b00011000, 0b00011000, 0b00011000],
     [0b00010000, 0b00010000, 0b00010000, 0b00010000, 0b00010000, 0b00010000,
      0b00010000, 0b00011111, 0b00000000, 0b00000000, 0b00000000, 0b00000000,
      0b00000000, 0b00000000, 0b00000000, 0b00000000],
     [0b00010000, 0b00010000, 0b00010000, 0b00010000, 0b00010000, 0b00010000,
      0b00010000, 0b00011111, 0b00011111, 0b00000000, 0b00000000, 0b00000000,
      0b00000000, 0b00000000, 0b00000000, 0b00000000],
     [0b00011000, 0b00011000, 0b00011000, 0b00011000, 0b00011000, 0b00011000,
      0b00011000, 0b00011111, 0b00000000, 0b00000000, 0b00000000, 0b00000000,
      0b00000000, 0b00000000, 0b00000000, 0b00000000],
     [0b00011000, 0b00011000, 0b00011000, 0b00011000, 0b00011000, 0b00011000,
      0b00011000, 0b00011111, 0b00011111, 0b00000000, 0b00000000, 0b00000000,
      0b00000000, 0b00000000, 0b00000000, 0b00000000],
     [0b00010000, 0b00010000, 0b00010000, 0b00010000, 0b00010000, 0b00010000,
      0b00010000, 0b11110000, 0b00000000, 0b00000000, 0b00000000, 0b00000000,
      0b00000000, 0b00000000, 0b00000000, 0b00000000],
     [0b00010000, 0b00010000, 0b00010000, 0b00010000, 0b00010000, 0b00010000,
      0b00010000, 0b11110000, 0b11110000, 0b00000000, 0b00000000, 0b00000000,
      0b00000000, 0b00000000, 0b00000000, 0b00000000],
     [0b00011000, 0b00011000, 0b00011000, 0b00011000, 0b00011000, 0b00011000,
      0b00011000, 0b11111000, 0b00000000, 0b00000000, 0b00000000, 0b00000000,
      0b00000000, 0b00000000, 0b00000000, 0b00000000]]"

(* src/kernel/gfx/terminus.cpp:13684-13827 font_terminus *)
definition glyphs_2f8 :: "u8 list list" where
  "glyphs_2f8 = [
     [0b00011000, 0b00011000, 0b00011000, 0b00011000, 0b00011000, 0b00011000,
      0b00011000, 0b11111000, 0b11111000, 0b00000000, 0b00000000, 0b00000000,
      0b00000000, 0b00000000, 0b00000000, 0b00000000],
     [0b00010000, 0b00010000, 0b00010000, 0b00010000, 0b00010000, 0b00010000,
      0b00010000, 0b00011111, 0b00010000, 0b00010000, 0b00010000, 0b00010000,
      0b00010000, 0b00010000, 0b00010000, 0b00010000],
     [0b00010000, 0b00010000, 0b00010000, 0b00010000, 0b00010000, 0b00010000,
      0b00010000, 0b00011111, 0b00011111, 0b00010000, 0b00010000, 0b00010000,
      0b00010000, 0b00010000, 0b00010000, 0b00010000],
     [0b00011000, 0b00011000, 0b00011000, 0b00011000, 0b00011000, 0b00011000,
      0b00011000, 0b00011111, 0b00010000, 0b00010000, 0b00010000, 0b00010000,
      0b00010000, 0b00010000, 0b00010000, 0b00010000],
     [0b00010000, 0b00010000, 0b00010000, 0b00010000, 0b00010000, 0b00010000,
      0b00010000, 0b00011111, 0b00011000, 0b00011000, 0b00011000, 0b00011000,
      0b00011000, 0b00011000, 0b00011000, 0b00011000],
     [0b00011000, 0b00011000, 0b00011000, 0b00011000, 0b00011000, 0b00011000,
      0b00011000, 0b00011111, 0b00011000, 0b00011000, 0b00011000, 0b00011000,
      0b00011000, 0b00011000, 0b00011000, 0b00011000],
     [0b00011000, 0b00011000, 0b00011000, 0b00011000, 0b00011000, 0b00011000,
      0b00011000, 0b00011111, 0b00011111, 0b00010000, 0b00010000, 0b00010000,
      0b00010000, 0b00010000, 0b00010000, 0b00010000],
     [0b00010000, 0b00010000, 0b00010000, 0b00010000, 0b00010000, 0b00010000,
      0b00010000, 0b00011111, 0b00011111, 0b00011000, 0b00011000, 0b00011000,
      0b00011000, 0b00011000, 0b00011000, 0b00011000]]"

definition glyphs_from_512 :: "u8 list list" where
  "glyphs_from_512 = glyphs_200 @ glyphs_208 @ glyphs_210 @ glyphs_218 @ glyphs_220 @ glyphs_228 @ 
     glyphs_230 @ glyphs_238 @ glyphs_240 @ glyphs_248 @ glyphs_250 @ glyphs_258 @ 
     glyphs_260 @ glyphs_268 @ glyphs_270 @ glyphs_278 @ glyphs_280 @ glyphs_288 @ 
     glyphs_290 @ glyphs_298 @ glyphs_2a0 @ glyphs_2a8 @ glyphs_2b0 @ glyphs_2b8 @ 
     glyphs_2c0 @ glyphs_2c8 @ glyphs_2d0 @ glyphs_2d8 @ glyphs_2e0 @ glyphs_2e8 @ 
     glyphs_2f0 @ glyphs_2f8"

section \<open>Its shape\<close>

lemma shape_200: "glyph_block glyphs_200" "glyph_block glyphs_208" "glyph_block glyphs_210" "glyph_block glyphs_218"
  by (simp_all add: glyph_block_def glyphs_200_def glyphs_208_def glyphs_210_def glyphs_218_def eval_nat_numeral)

lemma shape_220: "glyph_block glyphs_220" "glyph_block glyphs_228" "glyph_block glyphs_230" "glyph_block glyphs_238"
  by (simp_all add: glyph_block_def glyphs_220_def glyphs_228_def glyphs_230_def glyphs_238_def eval_nat_numeral)

lemma shape_240: "glyph_block glyphs_240" "glyph_block glyphs_248" "glyph_block glyphs_250" "glyph_block glyphs_258"
  by (simp_all add: glyph_block_def glyphs_240_def glyphs_248_def glyphs_250_def glyphs_258_def eval_nat_numeral)

lemma shape_260: "glyph_block glyphs_260" "glyph_block glyphs_268" "glyph_block glyphs_270" "glyph_block glyphs_278"
  by (simp_all add: glyph_block_def glyphs_260_def glyphs_268_def glyphs_270_def glyphs_278_def eval_nat_numeral)

lemma shape_280: "glyph_block glyphs_280" "glyph_block glyphs_288" "glyph_block glyphs_290" "glyph_block glyphs_298"
  by (simp_all add: glyph_block_def glyphs_280_def glyphs_288_def glyphs_290_def glyphs_298_def eval_nat_numeral)

lemma shape_2a0: "glyph_block glyphs_2a0" "glyph_block glyphs_2a8" "glyph_block glyphs_2b0" "glyph_block glyphs_2b8"
  by (simp_all add: glyph_block_def glyphs_2a0_def glyphs_2a8_def glyphs_2b0_def glyphs_2b8_def eval_nat_numeral)

lemma shape_2c0: "glyph_block glyphs_2c0" "glyph_block glyphs_2c8" "glyph_block glyphs_2d0" "glyph_block glyphs_2d8"
  by (simp_all add: glyph_block_def glyphs_2c0_def glyphs_2c8_def glyphs_2d0_def glyphs_2d8_def eval_nat_numeral)

lemma shape_2e0: "glyph_block glyphs_2e0" "glyph_block glyphs_2e8" "glyph_block glyphs_2f0" "glyph_block glyphs_2f8"
  by (simp_all add: glyph_block_def glyphs_2e0_def glyphs_2e8_def glyphs_2f0_def glyphs_2f8_def eval_nat_numeral)

lemmas shapes_512 = shape_200 shape_220 shape_240 shape_260 shape_280 shape_2a0 shape_2c0 shape_2e0

lemma glyphs_from_512_length [simp]: "length glyphs_from_512 = 256"
  using shapes_512 [THEN glyph_blockD(1)] by (simp add: glyphs_from_512_def)

lemma glyphs_from_512_rows: "g \<in> set glyphs_from_512 \<Longrightarrow> length g = 16"
  using shapes_512 [THEN glyph_blockD(2)] by (auto simp: glyphs_from_512_def)

end
