(* ===== verification/Font_768.thy ===== *)
theory Font_768
  imports Font_512
begin

text \<open>
  The entries 768 to 893 of the table of \<open>kernel/gfx/terminus.cpp\<close>, lines of frames and symbols, U+2523 to
  U+FFFD, and the whole table. No character selects an entry behind the first 256.
\<close>

section \<open>The table, continued\<close>

(* src/kernel/gfx/terminus.cpp:13828-13971 font_terminus *)
definition glyphs_300 :: "u8 list list" where
  "glyphs_300 = [
     [0b00011000, 0b00011000, 0b00011000, 0b00011000, 0b00011000, 0b00011000,
      0b00011000, 0b00011111, 0b00011111, 0b00011000, 0b00011000, 0b00011000,
      0b00011000, 0b00011000, 0b00011000, 0b00011000],
     [0b00010000, 0b00010000, 0b00010000, 0b00010000, 0b00010000, 0b00010000,
      0b00010000, 0b11110000, 0b00010000, 0b00010000, 0b00010000, 0b00010000,
      0b00010000, 0b00010000, 0b00010000, 0b00010000],
     [0b00010000, 0b00010000, 0b00010000, 0b00010000, 0b00010000, 0b00010000,
      0b00010000, 0b11110000, 0b11110000, 0b00010000, 0b00010000, 0b00010000,
      0b00010000, 0b00010000, 0b00010000, 0b00010000],
     [0b00011000, 0b00011000, 0b00011000, 0b00011000, 0b00011000, 0b00011000,
      0b00011000, 0b11111000, 0b00010000, 0b00010000, 0b00010000, 0b00010000,
      0b00010000, 0b00010000, 0b00010000, 0b00010000],
     [0b00010000, 0b00010000, 0b00010000, 0b00010000, 0b00010000, 0b00010000,
      0b00010000, 0b11111000, 0b00011000, 0b00011000, 0b00011000, 0b00011000,
      0b00011000, 0b00011000, 0b00011000, 0b00011000],
     [0b00011000, 0b00011000, 0b00011000, 0b00011000, 0b00011000, 0b00011000,
      0b00011000, 0b11111000, 0b00011000, 0b00011000, 0b00011000, 0b00011000,
      0b00011000, 0b00011000, 0b00011000, 0b00011000],
     [0b00011000, 0b00011000, 0b00011000, 0b00011000, 0b00011000, 0b00011000,
      0b00011000, 0b11111000, 0b11111000, 0b00010000, 0b00010000, 0b00010000,
      0b00010000, 0b00010000, 0b00010000, 0b00010000],
     [0b00010000, 0b00010000, 0b00010000, 0b00010000, 0b00010000, 0b00010000,
      0b00010000, 0b11111000, 0b11111000, 0b00011000, 0b00011000, 0b00011000,
      0b00011000, 0b00011000, 0b00011000, 0b00011000]]"

(* src/kernel/gfx/terminus.cpp:13972-14115 font_terminus *)
definition glyphs_308 :: "u8 list list" where
  "glyphs_308 = [
     [0b00011000, 0b00011000, 0b00011000, 0b00011000, 0b00011000, 0b00011000,
      0b00011000, 0b11111000, 0b11111000, 0b00011000, 0b00011000, 0b00011000,
      0b00011000, 0b00011000, 0b00011000, 0b00011000],
     [0b00000000, 0b00000000, 0b00000000, 0b00000000, 0b00000000, 0b00000000,
      0b00000000, 0b11111111, 0b00010000, 0b00010000, 0b00010000, 0b00010000,
      0b00010000, 0b00010000, 0b00010000, 0b00010000],
     [0b00000000, 0b00000000, 0b00000000, 0b00000000, 0b00000000, 0b00000000,
      0b00000000, 0b11111111, 0b11110000, 0b00010000, 0b00010000, 0b00010000,
      0b00010000, 0b00010000, 0b00010000, 0b00010000],
     [0b00000000, 0b00000000, 0b00000000, 0b00000000, 0b00000000, 0b00000000,
      0b00000000, 0b11111111, 0b00011111, 0b00010000, 0b00010000, 0b00010000,
      0b00010000, 0b00010000, 0b00010000, 0b00010000],
     [0b00000000, 0b00000000, 0b00000000, 0b00000000, 0b00000000, 0b00000000,
      0b00000000, 0b11111111, 0b11111111, 0b00010000, 0b00010000, 0b00010000,
      0b00010000, 0b00010000, 0b00010000, 0b00010000],
     [0b00000000, 0b00000000, 0b00000000, 0b00000000, 0b00000000, 0b00000000,
      0b00000000, 0b11111111, 0b00011000, 0b00011000, 0b00011000, 0b00011000,
      0b00011000, 0b00011000, 0b00011000, 0b00011000],
     [0b00000000, 0b00000000, 0b00000000, 0b00000000, 0b00000000, 0b00000000,
      0b00000000, 0b11111111, 0b11111000, 0b00011000, 0b00011000, 0b00011000,
      0b00011000, 0b00011000, 0b00011000, 0b00011000],
     [0b00000000, 0b00000000, 0b00000000, 0b00000000, 0b00000000, 0b00000000,
      0b00000000, 0b11111111, 0b00011111, 0b00011000, 0b00011000, 0b00011000,
      0b00011000, 0b00011000, 0b00011000, 0b00011000]]"

(* src/kernel/gfx/terminus.cpp:14116-14259 font_terminus *)
definition glyphs_310 :: "u8 list list" where
  "glyphs_310 = [
     [0b00000000, 0b00000000, 0b00000000, 0b00000000, 0b00000000, 0b00000000,
      0b00000000, 0b11111111, 0b11111111, 0b00011000, 0b00011000, 0b00011000,
      0b00011000, 0b00011000, 0b00011000, 0b00011000],
     [0b00010000, 0b00010000, 0b00010000, 0b00010000, 0b00010000, 0b00010000,
      0b00010000, 0b11111111, 0b00000000, 0b00000000, 0b00000000, 0b00000000,
      0b00000000, 0b00000000, 0b00000000, 0b00000000],
     [0b00010000, 0b00010000, 0b00010000, 0b00010000, 0b00010000, 0b00010000,
      0b00010000, 0b11111111, 0b11110000, 0b00000000, 0b00000000, 0b00000000,
      0b00000000, 0b00000000, 0b00000000, 0b00000000],
     [0b00010000, 0b00010000, 0b00010000, 0b00010000, 0b00010000, 0b00010000,
      0b00010000, 0b11111111, 0b00011111, 0b00000000, 0b00000000, 0b00000000,
      0b00000000, 0b00000000, 0b00000000, 0b00000000],
     [0b00010000, 0b00010000, 0b00010000, 0b00010000, 0b00010000, 0b00010000,
      0b00010000, 0b11111111, 0b11111111, 0b00000000, 0b00000000, 0b00000000,
      0b00000000, 0b00000000, 0b00000000, 0b00000000],
     [0b00011000, 0b00011000, 0b00011000, 0b00011000, 0b00011000, 0b00011000,
      0b00011000, 0b11111111, 0b00000000, 0b00000000, 0b00000000, 0b00000000,
      0b00000000, 0b00000000, 0b00000000, 0b00000000],
     [0b00011000, 0b00011000, 0b00011000, 0b00011000, 0b00011000, 0b00011000,
      0b00011000, 0b11111111, 0b11111000, 0b00000000, 0b00000000, 0b00000000,
      0b00000000, 0b00000000, 0b00000000, 0b00000000],
     [0b00011000, 0b00011000, 0b00011000, 0b00011000, 0b00011000, 0b00011000,
      0b00011000, 0b11111111, 0b00011111, 0b00000000, 0b00000000, 0b00000000,
      0b00000000, 0b00000000, 0b00000000, 0b00000000]]"

(* src/kernel/gfx/terminus.cpp:14260-14403 font_terminus *)
definition glyphs_318 :: "u8 list list" where
  "glyphs_318 = [
     [0b00011000, 0b00011000, 0b00011000, 0b00011000, 0b00011000, 0b00011000,
      0b00011000, 0b11111111, 0b11111111, 0b00000000, 0b00000000, 0b00000000,
      0b00000000, 0b00000000, 0b00000000, 0b00000000],
     [0b00010000, 0b00010000, 0b00010000, 0b00010000, 0b00010000, 0b00010000,
      0b00010000, 0b11111111, 0b00010000, 0b00010000, 0b00010000, 0b00010000,
      0b00010000, 0b00010000, 0b00010000, 0b00010000],
     [0b00010000, 0b00010000, 0b00010000, 0b00010000, 0b00010000, 0b00010000,
      0b00010000, 0b11111111, 0b11110000, 0b00010000, 0b00010000, 0b00010000,
      0b00010000, 0b00010000, 0b00010000, 0b00010000],
     [0b00010000, 0b00010000, 0b00010000, 0b00010000, 0b00010000, 0b00010000,
      0b00010000, 0b11111111, 0b00011111, 0b00010000, 0b00010000, 0b00010000,
      0b00010000, 0b00010000, 0b00010000, 0b00010000],
     [0b00010000, 0b00010000, 0b00010000, 0b00010000, 0b00010000, 0b00010000,
      0b00010000, 0b11111111, 0b11111111, 0b00010000, 0b00010000, 0b00010000,
      0b00010000, 0b00010000, 0b00010000, 0b00010000],
     [0b00011000, 0b00011000, 0b00011000, 0b00011000, 0b00011000, 0b00011000,
      0b00011000, 0b11111111, 0b00010000, 0b00010000, 0b00010000, 0b00010000,
      0b00010000, 0b00010000, 0b00010000, 0b00010000],
     [0b00010000, 0b00010000, 0b00010000, 0b00010000, 0b00010000, 0b00010000,
      0b00010000, 0b11111111, 0b00011000, 0b00011000, 0b00011000, 0b00011000,
      0b00011000, 0b00011000, 0b00011000, 0b00011000],
     [0b00011000, 0b00011000, 0b00011000, 0b00011000, 0b00011000, 0b00011000,
      0b00011000, 0b11111111, 0b00011000, 0b00011000, 0b00011000, 0b00011000,
      0b00011000, 0b00011000, 0b00011000, 0b00011000]]"

(* src/kernel/gfx/terminus.cpp:14404-14547 font_terminus *)
definition glyphs_320 :: "u8 list list" where
  "glyphs_320 = [
     [0b00011000, 0b00011000, 0b00011000, 0b00011000, 0b00011000, 0b00011000,
      0b00011000, 0b11111111, 0b11110000, 0b00010000, 0b00010000, 0b00010000,
      0b00010000, 0b00010000, 0b00010000, 0b00010000],
     [0b00011000, 0b00011000, 0b00011000, 0b00011000, 0b00011000, 0b00011000,
      0b00011000, 0b11111111, 0b00011111, 0b00010000, 0b00010000, 0b00010000,
      0b00010000, 0b00010000, 0b00010000, 0b00010000],
     [0b00010000, 0b00010000, 0b00010000, 0b00010000, 0b00010000, 0b00010000,
      0b00010000, 0b11111111, 0b11111000, 0b00011000, 0b00011000, 0b00011000,
      0b00011000, 0b00011000, 0b00011000, 0b00011000],
     [0b00010000, 0b00010000, 0b00010000, 0b00010000, 0b00010000, 0b00010000,
      0b00010000, 0b11111111, 0b00011111, 0b00011000, 0b00011000, 0b00011000,
      0b00011000, 0b00011000, 0b00011000, 0b00011000],
     [0b00011000, 0b00011000, 0b00011000, 0b00011000, 0b00011000, 0b00011000,
      0b00011000, 0b11111111, 0b11111111, 0b00010000, 0b00010000, 0b00010000,
      0b00010000, 0b00010000, 0b00010000, 0b00010000],
     [0b00010000, 0b00010000, 0b00010000, 0b00010000, 0b00010000, 0b00010000,
      0b00010000, 0b11111111, 0b11111111, 0b00011000, 0b00011000, 0b00011000,
      0b00011000, 0b00011000, 0b00011000, 0b00011000],
     [0b00011000, 0b00011000, 0b00011000, 0b00011000, 0b00011000, 0b00011000,
      0b00011000, 0b11111111, 0b11111000, 0b00011000, 0b00011000, 0b00011000,
      0b00011000, 0b00011000, 0b00011000, 0b00011000],
     [0b00011000, 0b00011000, 0b00011000, 0b00011000, 0b00011000, 0b00011000,
      0b00011000, 0b11111111, 0b00011111, 0b00011000, 0b00011000, 0b00011000,
      0b00011000, 0b00011000, 0b00011000, 0b00011000]]"

(* src/kernel/gfx/terminus.cpp:14548-14691 font_terminus *)
definition glyphs_328 :: "u8 list list" where
  "glyphs_328 = [
     [0b00011000, 0b00011000, 0b00011000, 0b00011000, 0b00011000, 0b00011000,
      0b00011000, 0b11111111, 0b11111111, 0b00011000, 0b00011000, 0b00011000,
      0b00011000, 0b00011000, 0b00011000, 0b00011000],
     [0b00000000, 0b00000000, 0b00000000, 0b00000000, 0b00000000, 0b00000000,
      0b11111111, 0b00000000, 0b11111111, 0b00000000, 0b00000000, 0b00000000,
      0b00000000, 0b00000000, 0b00000000, 0b00000000],
     [0b00101000, 0b00101000, 0b00101000, 0b00101000, 0b00101000, 0b00101000,
      0b00101000, 0b00101000, 0b00101000, 0b00101000, 0b00101000, 0b00101000,
      0b00101000, 0b00101000, 0b00101000, 0b00101000],
     [0b00000000, 0b00000000, 0b00000000, 0b00000000, 0b00000000, 0b00000000,
      0b00011111, 0b00010000, 0b00011111, 0b00010000, 0b00010000, 0b00010000,
      0b00010000, 0b00010000, 0b00010000, 0b00010000],
     [0b00000000, 0b00000000, 0b00000000, 0b00000000, 0b00000000, 0b00000000,
      0b00000000, 0b00111111, 0b00101000, 0b00101000, 0b00101000, 0b00101000,
      0b00101000, 0b00101000, 0b00101000, 0b00101000],
     [0b00000000, 0b00000000, 0b00000000, 0b00000000, 0b00000000, 0b00000000,
      0b00111111, 0b00100000, 0b00101111, 0b00101000, 0b00101000, 0b00101000,
      0b00101000, 0b00101000, 0b00101000, 0b00101000],
     [0b00000000, 0b00000000, 0b00000000, 0b00000000, 0b00000000, 0b00000000,
      0b11110000, 0b00010000, 0b11110000, 0b00010000, 0b00010000, 0b00010000,
      0b00010000, 0b00010000, 0b00010000, 0b00010000],
     [0b00000000, 0b00000000, 0b00000000, 0b00000000, 0b00000000, 0b00000000,
      0b00000000, 0b11111000, 0b00101000, 0b00101000, 0b00101000, 0b00101000,
      0b00101000, 0b00101000, 0b00101000, 0b00101000]]"

(* src/kernel/gfx/terminus.cpp:14692-14835 font_terminus *)
definition glyphs_330 :: "u8 list list" where
  "glyphs_330 = [
     [0b00000000, 0b00000000, 0b00000000, 0b00000000, 0b00000000, 0b00000000,
      0b11111000, 0b00001000, 0b11101000, 0b00101000, 0b00101000, 0b00101000,
      0b00101000, 0b00101000, 0b00101000, 0b00101000],
     [0b00010000, 0b00010000, 0b00010000, 0b00010000, 0b00010000, 0b00010000,
      0b00011111, 0b00010000, 0b00011111, 0b00000000, 0b00000000, 0b00000000,
      0b00000000, 0b00000000, 0b00000000, 0b00000000],
     [0b00101000, 0b00101000, 0b00101000, 0b00101000, 0b00101000, 0b00101000,
      0b00101000, 0b00111111, 0b00000000, 0b00000000, 0b00000000, 0b00000000,
      0b00000000, 0b00000000, 0b00000000, 0b00000000],
     [0b00101000, 0b00101000, 0b00101000, 0b00101000, 0b00101000, 0b00101000,
      0b00101111, 0b00100000, 0b00111111, 0b00000000, 0b00000000, 0b00000000,
      0b00000000, 0b00000000, 0b00000000, 0b00000000],
     [0b00010000, 0b00010000, 0b00010000, 0b00010000, 0b00010000, 0b00010000,
      0b11110000, 0b00010000, 0b11110000, 0b00000000, 0b00000000, 0b00000000,
      0b00000000, 0b00000000, 0b00000000, 0b00000000],
     [0b00101000, 0b00101000, 0b00101000, 0b00101000, 0b00101000, 0b00101000,
      0b00101000, 0b11111000, 0b00000000, 0b00000000, 0b00000000, 0b00000000,
      0b00000000, 0b00000000, 0b00000000, 0b00000000],
     [0b00101000, 0b00101000, 0b00101000, 0b00101000, 0b00101000, 0b00101000,
      0b11101000, 0b00001000, 0b11111000, 0b00000000, 0b00000000, 0b00000000,
      0b00000000, 0b00000000, 0b00000000, 0b00000000],
     [0b00010000, 0b00010000, 0b00010000, 0b00010000, 0b00010000, 0b00010000,
      0b00011111, 0b00010000, 0b00011111, 0b00010000, 0b00010000, 0b00010000,
      0b00010000, 0b00010000, 0b00010000, 0b00010000]]"

(* src/kernel/gfx/terminus.cpp:14836-14979 font_terminus *)
definition glyphs_338 :: "u8 list list" where
  "glyphs_338 = [
     [0b00101000, 0b00101000, 0b00101000, 0b00101000, 0b00101000, 0b00101000,
      0b00101000, 0b00101111, 0b00101000, 0b00101000, 0b00101000, 0b00101000,
      0b00101000, 0b00101000, 0b00101000, 0b00101000],
     [0b00101000, 0b00101000, 0b00101000, 0b00101000, 0b00101000, 0b00101000,
      0b00101111, 0b00100000, 0b00101111, 0b00101000, 0b00101000, 0b00101000,
      0b00101000, 0b00101000, 0b00101000, 0b00101000],
     [0b00010000, 0b00010000, 0b00010000, 0b00010000, 0b00010000, 0b00010000,
      0b11110000, 0b00010000, 0b11110000, 0b00010000, 0b00010000, 0b00010000,
      0b00010000, 0b00010000, 0b00010000, 0b00010000],
     [0b00101000, 0b00101000, 0b00101000, 0b00101000, 0b00101000, 0b00101000,
      0b00101000, 0b11101000, 0b00101000, 0b00101000, 0b00101000, 0b00101000,
      0b00101000, 0b00101000, 0b00101000, 0b00101000],
     [0b00101000, 0b00101000, 0b00101000, 0b00101000, 0b00101000, 0b00101000,
      0b11101000, 0b00001000, 0b11101000, 0b00101000, 0b00101000, 0b00101000,
      0b00101000, 0b00101000, 0b00101000, 0b00101000],
     [0b00000000, 0b00000000, 0b00000000, 0b00000000, 0b00000000, 0b00000000,
      0b11111111, 0b00000000, 0b11111111, 0b00010000, 0b00010000, 0b00010000,
      0b00010000, 0b00010000, 0b00010000, 0b00010000],
     [0b00000000, 0b00000000, 0b00000000, 0b00000000, 0b00000000, 0b00000000,
      0b00000000, 0b11111111, 0b00101000, 0b00101000, 0b00101000, 0b00101000,
      0b00101000, 0b00101000, 0b00101000, 0b00101000],
     [0b00000000, 0b00000000, 0b00000000, 0b00000000, 0b00000000, 0b00000000,
      0b11111111, 0b00000000, 0b11101111, 0b00101000, 0b00101000, 0b00101000,
      0b00101000, 0b00101000, 0b00101000, 0b00101000]]"

(* src/kernel/gfx/terminus.cpp:14980-15123 font_terminus *)
definition glyphs_340 :: "u8 list list" where
  "glyphs_340 = [
     [0b00010000, 0b00010000, 0b00010000, 0b00010000, 0b00010000, 0b00010000,
      0b11111111, 0b00000000, 0b11111111, 0b00000000, 0b00000000, 0b00000000,
      0b00000000, 0b00000000, 0b00000000, 0b00000000],
     [0b00101000, 0b00101000, 0b00101000, 0b00101000, 0b00101000, 0b00101000,
      0b00101000, 0b11111111, 0b00000000, 0b00000000, 0b00000000, 0b00000000,
      0b00000000, 0b00000000, 0b00000000, 0b00000000],
     [0b00101000, 0b00101000, 0b00101000, 0b00101000, 0b00101000, 0b00101000,
      0b11101111, 0b00000000, 0b11111111, 0b00000000, 0b00000000, 0b00000000,
      0b00000000, 0b00000000, 0b00000000, 0b00000000],
     [0b00010000, 0b00010000, 0b00010000, 0b00010000, 0b00010000, 0b00010000,
      0b11111111, 0b00010000, 0b11111111, 0b00010000, 0b00010000, 0b00010000,
      0b00010000, 0b00010000, 0b00010000, 0b00010000],
     [0b00101000, 0b00101000, 0b00101000, 0b00101000, 0b00101000, 0b00101000,
      0b00101000, 0b11111111, 0b00101000, 0b00101000, 0b00101000, 0b00101000,
      0b00101000, 0b00101000, 0b00101000, 0b00101000],
     [0b00101000, 0b00101000, 0b00101000, 0b00101000, 0b00101000, 0b00101000,
      0b11101111, 0b00000000, 0b11101111, 0b00101000, 0b00101000, 0b00101000,
      0b00101000, 0b00101000, 0b00101000, 0b00101000],
     [0b11111111, 0b11111111, 0b11111111, 0b11111111, 0b11111111, 0b11111111,
      0b11111111, 0b11111111, 0b00000000, 0b00000000, 0b00000000, 0b00000000,
      0b00000000, 0b00000000, 0b00000000, 0b00000000],
     [0b00000000, 0b00000000, 0b00000000, 0b00000000, 0b00000000, 0b00000000,
      0b00000000, 0b00000000, 0b00000000, 0b00000000, 0b00000000, 0b00000000,
      0b00000000, 0b00000000, 0b11111111, 0b11111111]]"

(* src/kernel/gfx/terminus.cpp:15124-15267 font_terminus *)
definition glyphs_348 :: "u8 list list" where
  "glyphs_348 = [
     [0b00000000, 0b00000000, 0b00000000, 0b00000000, 0b00000000, 0b00000000,
      0b00000000, 0b00000000, 0b00000000, 0b00000000, 0b00000000, 0b00000000,
      0b11111111, 0b11111111, 0b11111111, 0b11111111],
     [0b00000000, 0b00000000, 0b00000000, 0b00000000, 0b00000000, 0b00000000,
      0b00000000, 0b00000000, 0b00000000, 0b00000000, 0b11111111, 0b11111111,
      0b11111111, 0b11111111, 0b11111111, 0b11111111],
     [0b00000000, 0b00000000, 0b00000000, 0b00000000, 0b00000000, 0b00000000,
      0b00000000, 0b00000000, 0b11111111, 0b11111111, 0b11111111, 0b11111111,
      0b11111111, 0b11111111, 0b11111111, 0b11111111],
     [0b00000000, 0b00000000, 0b00000000, 0b00000000, 0b00000000, 0b00000000,
      0b11111111, 0b11111111, 0b11111111, 0b11111111, 0b11111111, 0b11111111,
      0b11111111, 0b11111111, 0b11111111, 0b11111111],
     [0b00000000, 0b00000000, 0b00000000, 0b00000000, 0b11111111, 0b11111111,
      0b11111111, 0b11111111, 0b11111111, 0b11111111, 0b11111111, 0b11111111,
      0b11111111, 0b11111111, 0b11111111, 0b11111111],
     [0b00000000, 0b00000000, 0b11111111, 0b11111111, 0b11111111, 0b11111111,
      0b11111111, 0b11111111, 0b11111111, 0b11111111, 0b11111111, 0b11111111,
      0b11111111, 0b11111111, 0b11111111, 0b11111111],
     [0b11111111, 0b11111111, 0b11111111, 0b11111111, 0b11111111, 0b11111111,
      0b11111111, 0b11111111, 0b11111111, 0b11111111, 0b11111111, 0b11111111,
      0b11111111, 0b11111111, 0b11111111, 0b11111111],
     [0b11110000, 0b11110000, 0b11110000, 0b11110000, 0b11110000, 0b11110000,
      0b11110000, 0b11110000, 0b11110000, 0b11110000, 0b11110000, 0b11110000,
      0b11110000, 0b11110000, 0b11110000, 0b11110000]]"

(* src/kernel/gfx/terminus.cpp:15268-15411 font_terminus *)
definition glyphs_350 :: "u8 list list" where
  "glyphs_350 = [
     [0b00001111, 0b00001111, 0b00001111, 0b00001111, 0b00001111, 0b00001111,
      0b00001111, 0b00001111, 0b00001111, 0b00001111, 0b00001111, 0b00001111,
      0b00001111, 0b00001111, 0b00001111, 0b00001111],
     [0b10001000, 0b00100010, 0b10001000, 0b00100010, 0b10001000, 0b00100010,
      0b10001000, 0b00100010, 0b10001000, 0b00100010, 0b10001000, 0b00100010,
      0b10001000, 0b00100010, 0b10001000, 0b00100010],
     [0b10101010, 0b01010101, 0b10101010, 0b01010101, 0b10101010, 0b01010101,
      0b10101010, 0b01010101, 0b10101010, 0b01010101, 0b10101010, 0b01010101,
      0b10101010, 0b01010101, 0b10101010, 0b01010101],
     [0b11101110, 0b10111011, 0b11101110, 0b10111011, 0b11101110, 0b10111011,
      0b11101110, 0b10111011, 0b11101110, 0b10111011, 0b11101110, 0b10111011,
      0b11101110, 0b10111011, 0b11101110, 0b10111011],
     [0b00000000, 0b00000000, 0b00000000, 0b00000000, 0b00000000, 0b00000000,
      0b00000000, 0b00000000, 0b11110000, 0b11110000, 0b11110000, 0b11110000,
      0b11110000, 0b11110000, 0b11110000, 0b11110000],
     [0b00000000, 0b00000000, 0b00000000, 0b00000000, 0b00000000, 0b00000000,
      0b00000000, 0b00000000, 0b00001111, 0b00001111, 0b00001111, 0b00001111,
      0b00001111, 0b00001111, 0b00001111, 0b00001111],
     [0b11110000, 0b11110000, 0b11110000, 0b11110000, 0b11110000, 0b11110000,
      0b11110000, 0b11110000, 0b00000000, 0b00000000, 0b00000000, 0b00000000,
      0b00000000, 0b00000000, 0b00000000, 0b00000000],
     [0b11110000, 0b11110000, 0b11110000, 0b11110000, 0b11110000, 0b11110000,
      0b11110000, 0b11110000, 0b11111111, 0b11111111, 0b11111111, 0b11111111,
      0b11111111, 0b11111111, 0b11111111, 0b11111111]]"

(* src/kernel/gfx/terminus.cpp:15412-15555 font_terminus *)
definition glyphs_358 :: "u8 list list" where
  "glyphs_358 = [
     [0b11110000, 0b11110000, 0b11110000, 0b11110000, 0b11110000, 0b11110000,
      0b11110000, 0b11110000, 0b00001111, 0b00001111, 0b00001111, 0b00001111,
      0b00001111, 0b00001111, 0b00001111, 0b00001111],
     [0b11111111, 0b11111111, 0b11111111, 0b11111111, 0b11111111, 0b11111111,
      0b11111111, 0b11111111, 0b11110000, 0b11110000, 0b11110000, 0b11110000,
      0b11110000, 0b11110000, 0b11110000, 0b11110000],
     [0b11111111, 0b11111111, 0b11111111, 0b11111111, 0b11111111, 0b11111111,
      0b11111111, 0b11111111, 0b00001111, 0b00001111, 0b00001111, 0b00001111,
      0b00001111, 0b00001111, 0b00001111, 0b00001111],
     [0b00001111, 0b00001111, 0b00001111, 0b00001111, 0b00001111, 0b00001111,
      0b00001111, 0b00001111, 0b00000000, 0b00000000, 0b00000000, 0b00000000,
      0b00000000, 0b00000000, 0b00000000, 0b00000000],
     [0b00001111, 0b00001111, 0b00001111, 0b00001111, 0b00001111, 0b00001111,
      0b00001111, 0b00001111, 0b11110000, 0b11110000, 0b11110000, 0b11110000,
      0b11110000, 0b11110000, 0b11110000, 0b11110000],
     [0b00001111, 0b00001111, 0b00001111, 0b00001111, 0b00001111, 0b00001111,
      0b00001111, 0b00001111, 0b11111111, 0b11111111, 0b11111111, 0b11111111,
      0b11111111, 0b11111111, 0b11111111, 0b11111111],
     [0b00000000, 0b00000000, 0b00000000, 0b00000000, 0b00000000, 0b00111100,
      0b00111100, 0b00111100, 0b00111100, 0b00111100, 0b00111100, 0b00000000,
      0b00000000, 0b00000000, 0b00000000, 0b00000000],
     [0b00000000, 0b00000000, 0b00000000, 0b00000000, 0b00000000, 0b00000000,
      0b00000000, 0b00000000, 0b01111110, 0b01111110, 0b01111110, 0b01111110,
      0b00000000, 0b00000000, 0b00000000, 0b00000000]]"

(* src/kernel/gfx/terminus.cpp:15556-15699 font_terminus *)
definition glyphs_360 :: "u8 list list" where
  "glyphs_360 = [
     [0b00000000, 0b00000000, 0b01111110, 0b01111110, 0b01111110, 0b01111110,
      0b01111110, 0b01111110, 0b01111110, 0b01111110, 0b01111110, 0b01111110,
      0b00000000, 0b00000000, 0b00000000, 0b00000000],
     [0b00000000, 0b00000000, 0b00000000, 0b00000000, 0b00010000, 0b00010000,
      0b00111000, 0b00111000, 0b01111100, 0b01111100, 0b11111110, 0b11111110,
      0b00000000, 0b00000000, 0b00000000, 0b00000000],
     [0b00000000, 0b00000000, 0b00000000, 0b00000000, 0b11000000, 0b11110000,
      0b11111100, 0b11111111, 0b11111100, 0b11110000, 0b11000000, 0b00000000,
      0b00000000, 0b00000000, 0b00000000, 0b00000000],
     [0b00000000, 0b00000000, 0b00000000, 0b00000000, 0b11111110, 0b11111110,
      0b01111100, 0b01111100, 0b00111000, 0b00111000, 0b00010000, 0b00010000,
      0b00000000, 0b00000000, 0b00000000, 0b00000000],
     [0b00000000, 0b00000000, 0b00000000, 0b00000000, 0b00000011, 0b00001111,
      0b00111111, 0b11111111, 0b00111111, 0b00001111, 0b00000011, 0b00000000,
      0b00000000, 0b00000000, 0b00000000, 0b00000000],
     [0b00000000, 0b00000000, 0b00000000, 0b00000000, 0b00010000, 0b00111000,
      0b01111100, 0b11111110, 0b01111100, 0b00111000, 0b00010000, 0b00000000,
      0b00000000, 0b00000000, 0b00000000, 0b00000000],
     [0b00000000, 0b00000000, 0b00000000, 0b00000000, 0b00010000, 0b00101000,
      0b01000100, 0b10000010, 0b01000100, 0b00101000, 0b00010000, 0b00000000,
      0b00000000, 0b00000000, 0b00000000, 0b00000000],
     [0b00000000, 0b00000000, 0b00000000, 0b00000000, 0b00000000, 0b00000000,
      0b00011000, 0b00100100, 0b00100100, 0b00011000, 0b00000000, 0b00000000,
      0b00000000, 0b00000000, 0b00000000, 0b00000000]]"

(* src/kernel/gfx/terminus.cpp:15700-15843 font_terminus *)
definition glyphs_368 :: "u8 list list" where
  "glyphs_368 = [
     [0b11111111, 0b11111111, 0b11111111, 0b11111111, 0b11111111, 0b11111111,
      0b11100111, 0b11000011, 0b11000011, 0b11100111, 0b11111111, 0b11111111,
      0b11111111, 0b11111111, 0b11111111, 0b11111111],
     [0b11111111, 0b11111111, 0b11111111, 0b11111111, 0b11111111, 0b11111111,
      0b11100111, 0b11011011, 0b11011011, 0b11100111, 0b11111111, 0b11111111,
      0b11111111, 0b11111111, 0b11111111, 0b11111111],
     [0b00000000, 0b00000000, 0b01111100, 0b10000010, 0b10101010, 0b10000010,
      0b10000010, 0b10111010, 0b10010010, 0b10000010, 0b10000010, 0b01111100,
      0b00000000, 0b00000000, 0b00000000, 0b00000000],
     [0b00000000, 0b00000000, 0b01111100, 0b11111110, 0b11010110, 0b11111110,
      0b11111110, 0b11000110, 0b11101110, 0b11111110, 0b11111110, 0b01111100,
      0b00000000, 0b00000000, 0b00000000, 0b00000000],
     [0b00000000, 0b00000000, 0b00000000, 0b00010000, 0b10010010, 0b01010100,
      0b00111000, 0b11101110, 0b00111000, 0b01010100, 0b10010010, 0b00010000,
      0b00000000, 0b00000000, 0b00000000, 0b00000000],
     [0b00000000, 0b00000000, 0b00111000, 0b01000100, 0b01000100, 0b01000100,
      0b01000100, 0b00111000, 0b00010000, 0b01111100, 0b00010000, 0b00010000,
      0b00000000, 0b00000000, 0b00000000, 0b00000000],
     [0b00000000, 0b00000000, 0b00011110, 0b00000110, 0b00001010, 0b00010010,
      0b00111000, 0b01000100, 0b01000100, 0b01000100, 0b01000100, 0b00111000,
      0b00000000, 0b00000000, 0b00000000, 0b00000000],
     [0b00000000, 0b00000000, 0b00010000, 0b00010000, 0b00111000, 0b01111100,
      0b11111110, 0b11111110, 0b01111100, 0b00010000, 0b00010000, 0b00111000,
      0b00000000, 0b00000000, 0b00000000, 0b00000000]]"

(* src/kernel/gfx/terminus.cpp:15844-15987 font_terminus *)
definition glyphs_370 :: "u8 list list" where
  "glyphs_370 = [
     [0b00000000, 0b00000000, 0b00010000, 0b00111000, 0b00111000, 0b00010000,
      0b01010100, 0b11111110, 0b11111110, 0b01010100, 0b00010000, 0b00111000,
      0b00000000, 0b00000000, 0b00000000, 0b00000000],
     [0b00000000, 0b00000000, 0b00000000, 0b00000000, 0b01101100, 0b11111110,
      0b11111110, 0b11111110, 0b11111110, 0b01111100, 0b00111000, 0b00010000,
      0b00000000, 0b00000000, 0b00000000, 0b00000000],
     [0b00000000, 0b00000000, 0b00000000, 0b00000000, 0b00010000, 0b00111000,
      0b01111100, 0b11111110, 0b01111100, 0b00111000, 0b00010000, 0b00000000,
      0b00000000, 0b00000000, 0b00000000, 0b00000000],
     [0b00000000, 0b00000000, 0b00111110, 0b00100010, 0b00111110, 0b00100000,
      0b00100000, 0b00100000, 0b00100000, 0b00100000, 0b00100000, 0b11000000,
      0b00000000, 0b00000000, 0b00000000, 0b00000000],
     [0b00000000, 0b00000000, 0b01111110, 0b01000010, 0b01111110, 0b01000010,
      0b01000010, 0b01000010, 0b01000010, 0b01000010, 0b01000010, 0b01000100,
      0b10000000, 0b00000000, 0b00000000, 0b00000000],
     [0b11000000, 0b11000000, 0b11001100, 0b11011110, 0b11111111, 0b11001100,
      0b11001100, 0b11001100, 0b11001100, 0b10011100, 0b00111000, 0b01110000,
      0b11100000, 0b11000000, 0b11000000, 0b11000000],
     [0b01000000, 0b01000000, 0b01000000, 0b01000000, 0b01000000, 0b01000000,
      0b01111100, 0b00000000, 0b00100010, 0b00100010, 0b00110010, 0b00101010,
      0b00100110, 0b00100010, 0b00100010, 0b00000000],
     [0b00000000, 0b00111100, 0b00100100, 0b00100100, 0b00100100, 0b01111110,
      0b01111110, 0b01100110, 0b01110110, 0b01110110, 0b01110110, 0b01111110,
      0b01111110, 0b00000000, 0b00000000, 0b00000000]]"

(* src/kernel/gfx/terminus.cpp:15988-16095 font_terminus *)
definition glyphs_378 :: "u8 list list" where
  "glyphs_378 = [
     [0b10000000, 0b11000000, 0b11100000, 0b11110000, 0b11111000, 0b11111100,
      0b11111110, 0b11111111, 0b11111111, 0b11111110, 0b11111100, 0b11111000,
      0b11110000, 0b11100000, 0b11000000, 0b10000000],
     [0b10000000, 0b01000000, 0b00100000, 0b00010000, 0b00001000, 0b00000100,
      0b00000010, 0b00000001, 0b00000001, 0b00000010, 0b00000100, 0b00001000,
      0b00010000, 0b00100000, 0b01000000, 0b10000000],
     [0b00000001, 0b00000011, 0b00000111, 0b00001111, 0b00011111, 0b00111111,
      0b01111111, 0b11111111, 0b11111111, 0b01111111, 0b00111111, 0b00011111,
      0b00001111, 0b00000111, 0b00000011, 0b00000001],
     [0b00000001, 0b00000010, 0b00000100, 0b00001000, 0b00010000, 0b00100000,
      0b01000000, 0b10000000, 0b10000000, 0b01000000, 0b00100000, 0b00010000,
      0b00001000, 0b00000100, 0b00000010, 0b00000001],
     [0b00000000, 0b00000000, 0b00000000, 0b00000000, 0b00000000, 0b00001100,
      0b00000100, 0b00000100, 0b00000100, 0b00000100, 0b00000100, 0b00000100,
      0b01000100, 0b01000100, 0b00111000, 0b00000000],
     [0b00000000, 0b00000000, 0b01111110, 0b01000010, 0b01000010, 0b01000010,
      0b01000010, 0b01000010, 0b01000010, 0b01000010, 0b01000010, 0b01111110,
      0b00000000, 0b00000000, 0b00000000, 0b00000000]]"

definition glyphs_from_768 :: "u8 list list" where
  "glyphs_from_768 = glyphs_300 @ glyphs_308 @ glyphs_310 @ glyphs_318 @ glyphs_320 @ glyphs_328 @ 
     glyphs_330 @ glyphs_338 @ glyphs_340 @ glyphs_348 @ glyphs_350 @ glyphs_358 @ 
     glyphs_360 @ glyphs_368 @ glyphs_370 @ glyphs_378"

section \<open>Its shape\<close>

lemma shape_300: "glyph_block glyphs_300" "glyph_block glyphs_308" "glyph_block glyphs_310" "glyph_block glyphs_318"
  by (simp_all add: glyph_block_def glyphs_300_def glyphs_308_def glyphs_310_def glyphs_318_def eval_nat_numeral)

lemma shape_320: "glyph_block glyphs_320" "glyph_block glyphs_328" "glyph_block glyphs_330" "glyph_block glyphs_338"
  by (simp_all add: glyph_block_def glyphs_320_def glyphs_328_def glyphs_330_def glyphs_338_def eval_nat_numeral)

lemma shape_340: "glyph_block glyphs_340" "glyph_block glyphs_348" "glyph_block glyphs_350" "glyph_block glyphs_358"
  by (simp_all add: glyph_block_def glyphs_340_def glyphs_348_def glyphs_350_def glyphs_358_def eval_nat_numeral)

lemma shape_360: "glyph_block glyphs_360" "glyph_block glyphs_368" "glyph_block glyphs_370"
  by (simp_all add: glyph_block_def glyphs_360_def glyphs_368_def glyphs_370_def eval_nat_numeral)

lemmas shapes_768 = shape_300 shape_320 shape_340 shape_360

lemma shape_last: "map length glyphs_378 = replicate 6 16"
  by (simp add: glyphs_378_def eval_nat_numeral)

lemma last_block: "length glyphs_378 = 6" "\<forall>g \<in> set glyphs_378. length g = 16"
proof -
  from arg_cong [OF shape_last, of length] show "length glyphs_378 = 6" by simp
  have "length ` set glyphs_378 = {16}" using arg_cong [OF shape_last, of set] by simp
  then show "\<forall>g \<in> set glyphs_378. length g = 16" by blast
qed

lemma glyphs_from_768_length [simp]: "length glyphs_from_768 = 126"
  using shapes_768 [THEN glyph_blockD(1)] last_block(1) by (simp add: glyphs_from_768_def)

lemma glyphs_from_768_rows: "g \<in> set glyphs_from_768 \<Longrightarrow> length g = 16"
  using shapes_768 [THEN glyph_blockD(2)] last_block(2) by (auto simp: glyphs_from_768_def)

text \<open>The table as the source has it.\<close>

(* src/kernel/gfx/terminus.cpp:3-3 font_terminus *)
definition font_table :: "u8 list list" where
  "font_table = font_terminus @ glyphs_from_256 @ glyphs_from_512 @ glyphs_from_768"

lemma font_table_shape: "length font_table = 894" "\<forall>g \<in> set font_table. length g = 16"
  using font_terminus_rows glyphs_from_256_rows glyphs_from_512_rows glyphs_from_768_rows by (auto simp: font_table_def)

text \<open>What a character selects there is its glyph in the part that the drawing routines are verified with.\<close>

lemma font_table_glyph: "font_table ! unat (c :: u8) = glyph_of c"
  using unat_u8_less [of c] by (simp add: font_table_def glyph_of_def nth_append)

end
