(* ===== verification/Spec2Isabelle.thy ===== *)
theory Spec2Isabelle
  imports Kernel_Heap Messages Mutex Keyboard FAT16_Paths Descriptors Runtime Shell
    Console_Input Boot Kernel_Threads Type_Info Exit_Handlers Handler_Search Exception_Memory Font_768
begin

text \<open>
  \<^bold>\<open>The program.\<close> muk is a small multitasking kernel for the i386. It boots in the higher half with a
  page directory that \<open>asm/boot.s\<close> built, takes over the page tables and the free memory
  (\<open>memory/manager.cpp\<close>), and hands virtual memory out through a heap that only grows
  (\<open>memory/heap.cpp\<close>). Kernel threads (\<open>proc/thread.cpp\<close>) form a ring that the timer interrupt
  (\<open>timer.cpp\<close>) walks along through \<open>proc/scheduler.cpp\<close>. Threads talk through numbered ports
  (\<open>proc/message.cpp\<close>). A key travels from its interrupt (\<open>drivers/keyboard.cpp\<close>) through a ring
  buffer and two ports to the terminal (\<open>tty.cpp\<close>), which echoes it with the font
  (\<open>gfx/terminus.cpp\<close>, \<open>gfx/buffer.cpp\<close>, \<open>gfx/surface.cpp\<close>) and runs complete lines
  (\<open>command.cpp\<close>, \<open>ext.cpp\<close>, \<open>bin\<close>, \<open>user/env.cpp\<close>). The programs \<open>ls\<close> and \<open>cat\<close> read a FAT16
  volume (\<open>fs/fat16.cpp\<close>) over the ATA driver (\<open>drivers/ata.cpp\<close>). All of it stands on a C and C++
  library of its own (\<open>std/stdlib.cpp\<close>, \<open>include/std\<close>) and a run-time system (\<open>icxxabi.cpp\<close>,
  \<open>libcxxrt\<close>). All paths are under \<open>src/kernel\<close> unless they start with \<open>include\<close> or
  \<open>libcxxrt\<close>.

  \<^bold>\<open>Conventions.\<close> A machine integer is a word of its width, so that it wraps where the code wraps; an
  \<open>int\<close> that cannot overflow in the range that is modelled is an integer. A class is a record with the
  fields of the source, and an operation takes the state and returns it changed. \<^const>\<open>None\<close> is the
  value of everything the program gets no sensible answer from: an access outside its object, a null
  or wild pointer that is followed, a page fault, a loop that never ends (such loops are
  \<open>partial_function (option)\<close>, so that a theorem that gives \<^const>\<open>Some\<close> says that they end). A
  theorem that an operation is \<^const>\<open>Some\<close> is therefore a theorem that it stays in bounds and
  returns. Hardware is a record of the registers the driver uses: the paging unit in
  \<open>Page_Tables\<close>, the drive in \<open>ATA\<close>, the interrupt controllers and the gates in \<open>Descriptors\<close>, the
  part of the processor that a context switch saves in \<open>Threads\<close>. What the code leaves to others is an
  argument: the addresses that \<open>operator new\<close> returns to \<open>Threads\<close>, the bytes behind a heap block in
  \<open>Std_String\<close>, the effect of a program that is started in \<open>Shell\<close>. Strings of class \<open>std::string\<close> have no
  terminator, so what a C routine reads behind one is on the heap; where a loop allocates behind such a
  string while \<open>strtok\<close> reads it (\<open>tty.cpp:215\<close>, \<open>fat16.cpp:189\<close>), \<open>split_pushed\<close> in \<open>Tokens\<close> writes the header of
  the new block there before the next word is taken; the heap before and further behind is its
  argument.

  \<^bold>\<open>The theories,\<close> from the bottom up; each starts with the part of the source it holds, and a comment
  before every definition names the lines it translates.
  \<^item> \<open>Prelude\<close>: words, byte memory, checked access to arrays, and the collections that the proofs share.
  \<^item> \<open>Interfaces\<close>: the contracts between components, as locales: \<open>page_supply\<close> (what the page tables
    need of the physical memory manager), \<open>page_mapper\<close> (what the heap and the display need of the page
    tables: a page that is mapped, and all others kept), \<open>bounded_queue\<close> (ring buffer and port queues),
    \<open>block_device\<close> (what the file system needs of the disk), \<open>dictionary\<close> (the environment). Each is
    interpreted on the definitions that model the code, in the theory of the provider: \<open>frames\<close>,
    \<open>heap_pages\<close> and \<open>fb_pages\<close>, \<open>ring\<close>, \<open>port\<close>, \<open>ata\<close>, \<open>env\<close>.
  \<^item> \<open>Phys_Manager\<close>, \<open>Page_Tables\<close>, \<open>Kernel_Heap\<close>: \<open>memory\<close>. The bitmap allocator hands out the lowest
    free page and only that; after boot the available pages above the kernel are free, and besides them
    only what the bitmap, which is not cleared, happened to mark; the
    constructor of the page tables establishes the invariant \<open>vm_inv\<close> that \<open>MapPage\<close> keeps; mapping
    changes the translation of one page and no other; \<open>vmalloc\<close> keeps the chain of block headers
    and returns fresh, mapped, zeroed memory, so that whatever is allocated and written, every block is
    an array of its own.
  \<^item> \<open>Mem_Funcs\<close>, \<open>CString\<close>, \<open>Tokens\<close>, \<open>Numeric_Conv\<close>, \<open>Printf\<close>, \<open>Std_Lib\<close>, \<open>Std_String\<close>: the library. A
    pointer into a character array is the list of the characters from there to the end of the array.
    Each routine has a theorem that gives its value on every input in its bounds, against a
    specification that does not follow the code: \<open>words\<close> for \<open>strtok\<close>, \<open>render\<close> for \<open>vsprintf\<close>,
    digits in a base for \<open>itoa\<close> and \<open>strtol\<close>.
  \<^item> \<open>Ring_Buffer\<close>, \<open>Messages\<close>, \<open>Mutex\<close>, \<open>Threads\<close>, \<open>Kernel_Threads\<close>: concurrency. Queues refine lists; a
    message reaches the port it is sent to as long as every port has room (32 messages in all); the spin lock is a step relation over threads, which two
    threads can pass; the threads form a ring, the scheduler suspends the running one and resumes the next, a thread that is
    switched out and in again finds its registers, and the timer calls the scheduler every 26th tick.
    \<open>init_kthreads\<close> makes the four kernel threads, and the timer enters each of them.
  \<^item> \<open>Font\<close> with \<open>Font_256\<close>, \<open>Font_512\<close> and \<open>Font_768\<close>, \<open>Gfx\<close>, \<open>Display_Setup\<close>, \<open>Terminal\<close>, \<open>Keyboard\<close>:
    input and output. The screen buffers are lists of bytes; a character is drawn where its glyph has
    bits; a refresh of the rows that are marked shows the whole back buffer; the set-up maps the
    frame buffer of the boot loader and allocates the other two; a character other than newline and
    tab keeps the cursor in the grid; typed characters arrive in order.
  \<^item> \<open>ATA\<close>, \<open>FAT16\<close>, \<open>FAT16_Paths\<close>: the disk. The driver sees one unchanging disk through its registers;
    the cluster chain is followed exactly when it ends; a directory sector is read back as the
    entries it was made of, but for the dot of a name with eight characters before it; a path is
    followed name by name, of which the last may carry bytes of the heap.
  \<^item> \<open>Descriptors\<close>, \<open>Runtime\<close>, \<open>Shell\<close>: segment descriptors, the task state segment, and the way of an
    interrupt from its line to its handler; destructors and the guards of local statics (a step
    relation over threads); the command line.
  \<^item> \<open>Boot\<close>, \<open>Console_Input\<close>: components put together. From the page directory of \<open>boot.s\<close> on,
    \<open>Memory::Setup\<close> leaves memory, page tables and heap well formed, the allocations that follow
    succeed, and the display comes up. A key goes through interrupt, ring buffer, keyboard thread, two
    ports and terminal: a line of the first 32 keys, each taken before the next one is pressed,
    arrives, whatever the order in which the threads take turns, and runs its program (a round of a
    thread is one step; the timer does not switch inside it); three keys that come too fast lose one.
  \<^item> \<open>Type_Info\<close>, \<open>Exit_Handlers\<close>, \<open>Dwarf_EH\<close>, \<open>Exceptions\<close>, \<open>Handler_Search\<close>, \<open>Exception_Memory\<close>:
    \<open>libcxxrt\<close>. Dynamic casts find a subobject of the class asked for, against the relation of
    subobjects; a thrown pointer to a fundamental type is caught when its qualifiers
    convert; the list of destructors refines a list; the numbers and tables of the exception data are read back as what was written;
    the library's stack of exceptions refines an abstract machine in which every object is destroyed
    once, when an unwinder finds the handlers; the search takes the first clause of a function that
    concerns the exception. Shifts have the meaning that GCC gives them.

  \<^bold>\<open>Bounds.\<close> The buffers of the code are kept at their sizes: 16 characters in \<open>itoa\<close>, 80 in
  \<open>terminal_printf\<close>, 1024 for a line, 512 in the keyboard buffer, 32 messages in a queue, 128
  destructors, 16 emergency buffers. Fuel appears in three places and is always enough: the digits of
  \<open>ltoa\<close> (64 rounds for 64 bits), the rounds of \<open>getc\<close> (1024, which is the bound of the loop in the code)
  and the rounds of waiting for the drive, which the driver itself bounds. A cluster chain has at most
  248 clusters, because the code reads its links as bytes.

  \<^bold>\<open>Not modelled,\<close> and why: the boot code in assembly that runs before there is a stack, beside the page
  directory it makes, and of \<open>kernel_main\<close> the greetings; \<open>sprintf\<close>, which takes an object of class
  \<open>std::string\<close> out of its variable arguments, which has no defined meaning; the class
  \<open>std::ringbuffer\<close>, whose operators have no definitions; streams, \<open>queue\<close> and \<open>array\<close>, which are
  stubs without a caller; \<open>process.cpp\<close>, \<open>pipe.cpp\<close> and \<open>ramdisk.cpp\<close>, which are commented out; in
  \<open>libcxxrt\<close> the demangler, which is third-party code that nothing calls, and the files that are
  commented out; \<open>std::rethrow_exception\<close> among the calls of \<open>Exceptions\<close>, as it reads the type of
  its exception from the wrong place (\<open>rethrow_primary_wrong_type\<close>); the line for the debug port in
  \<open>ENV::set\<close>. The unwinder of \<open>libcxxrt/unwind.cpp\<close> only fails an assertion, and it has no exception tables, so
  no throw reaches a handler in this kernel (\<open>kernel_throw_stops\<close>, \<open>personality_passes_over\<close>). The theorems on
  exceptions are about the library with an unwinder that works, which is an argument there, and about
  the tables that its personality function is written for.
\<close>

end
